(* ===== verification/Cmw_Prelude.thy ===== *)
theory Cmw_Prelude
  imports Main "HOL-Library.Word"
begin

text \<open>
  Shared vocabulary of the development: the sum type used for operations that may run into
  undefined or exceptional behaviour, machine integers, the memory representation of integers
  on little- and big-endian hosts, and the generic list and word lemmas the components use.
\<close>

unbundle bit_operations_syntax

section \<open>Collections\<close>

named_theorems stream_laws \<open>how the stream operations act on the buffer\<close>
named_theorems bucket_laws \<open>how the bucket operations act on the sorted chain\<close>

section \<open>Machine types\<close>

type_synonym byte = "8 word"
type_synonym u32 = "32 word"
type_synonym u64 = "64 word"

section \<open>Operations that may fail\<close>

text \<open>
  The ways a C++ operation of the library can leave the defined behaviour of the language:
  reading outside a buffer, using an object whose value is indeterminate or through a null pointer, the
  \<open>std::length_error\<close> of a \<open>resize\<close> with a negative count, a thrown \<open>std::logic_error\<close>.
\<close>

datatype ub = OutOfBounds | Indeterminate | LengthError | LogicError | NullPointer

fun sbind :: "'e + 'a \<Rightarrow> ('a \<Rightarrow> 'e + 'b) \<Rightarrow> 'e + 'b" where
  "sbind (Inl e) f = Inl e"
| "sbind (Inr x) f = f x"

lemma sbind_Inr_conv: "sbind m f = Inr y \<longleftrightarrow> (\<exists>x. m = Inr x \<and> f x = Inr y)"
  by (cases m) auto

lemma sbind_split:
  "P (sbind m f) \<longleftrightarrow> (\<forall>e. m = Inl e \<longrightarrow> P (Inl e)) \<and> (\<forall>x. m = Inr x \<longrightarrow> P (f x))"
  by (cases m) auto

section \<open>Integers in memory\<close>

datatype byte_order = BigEndian | LittleEndian

definition le_bytes :: "nat \<Rightarrow> 'a::len word \<Rightarrow> byte list" where
  "le_bytes n w = map (\<lambda>i. ucast (drop_bit (8 * i) w)) [0..<n]"

fun of_le_bytes :: "byte list \<Rightarrow> 'a::len word" where
  "of_le_bytes [] = 0"
| "of_le_bytes (b # bs) = ucast b OR push_bit 8 (of_le_bytes bs)"

definition host_bytes :: "byte_order \<Rightarrow> nat \<Rightarrow> 'a::len word \<Rightarrow> byte list" where
  "host_bytes h n w = (case h of LittleEndian \<Rightarrow> le_bytes n w | BigEndian \<Rightarrow> rev (le_bytes n w))"

definition of_host_bytes :: "byte_order \<Rightarrow> byte list \<Rightarrow> 'a::len word" where
  "of_host_bytes h bs = of_le_bytes (case h of LittleEndian \<Rightarrow> bs | BigEndian \<Rightarrow> rev bs)"

lemma length_le_bytes [simp]: "length (le_bytes n w) = n"
  by (simp add: le_bytes_def)

lemma length_host_bytes [simp]: "length (host_bytes h n w) = n"
  by (simp add: host_bytes_def split: byte_order.split)

lemma nth_le_bytes: "i < n \<Longrightarrow> le_bytes n w ! i = ucast (drop_bit (8 * i) w)"
  by (simp add: le_bytes_def)

lemma bit_of_le_bytes:
  "bit (of_le_bytes bs :: 'a::len word) i \<longleftrightarrow>
     i < LENGTH('a) \<and> i div 8 < length bs \<and> bit (bs ! (i div 8)) (i mod 8)"
proof (induction bs arbitrary: i)
  case Nil
  then show ?case by simp
next
  case (Cons b bs)
  show ?case
  proof (cases "i < 8")
    case True
    then show ?thesis
      by (auto simp: bit_simps)
  next
    case False
    then have "i div 8 = Suc ((i - 8) div 8)" and "i mod 8 = (i - 8) mod 8"
      by (auto simp: le_div_geq le_mod_geq)
    moreover have "\<not> bit (ucast b :: 'a word) i"
      using False by (auto simp: bit_simps dest: bit_imp_le_length)
    ultimately show ?thesis
      using False by (auto simp: bit_or_iff bit_push_bit_iff Cons.IH)
  qed
qed

lemma of_le_bytes_le_bytes:
  assumes "LENGTH('a::len) = 8 * n"
  shows "of_le_bytes (le_bytes n w) = (w :: 'a word)"
proof (rule bit_word_eqI)
  fix i assume i: "i < LENGTH('a)"
  with assms have "i div 8 < n" by auto
  moreover have "8 * (i div 8) + i mod 8 = i" by simp
  ultimately show "bit (of_le_bytes (le_bytes n w) :: 'a word) i = bit w i"
    using i by (simp add: bit_of_le_bytes nth_le_bytes bit_simps)
qed

lemma of_host_bytes_host_bytes:
  assumes "LENGTH('a::len) = 8 * n"
  shows "of_host_bytes h (host_bytes h n w) = (w :: 'a word)"
  using of_le_bytes_le_bytes [OF assms]
  by (simp add: host_bytes_def of_host_bytes_def split: byte_order.split)

end
