(* ===== verification/Hash_Map_Concurrent.thy ===== *)
theory Hash_Map_Concurrent
  imports Cmw_Prelude
begin

text \<open>
  One bucket of \<open>base/atmoic_hash_map.h\<close> under any number of threads: \<open>Insert\<close> with its
  \<open>Find\<close> walk and its two compare-and-swap retries, and \<open>Get\<close>. Memory is a field-wise heap:
  \<open>b_key\<close>, \<open>b_vptr\<close>, \<open>b_next\<close> are the fields of the entry at an address, \<open>b_used\<close> tells which
  entries are linked in, address 0 is the sentinel, and \<open>b_vals\<close> holds the live value objects. An
  entry is private to its thread until the swap on \<open>prev->next\<close> publishes it, so the swap is the
  step that brings it into the heap. Each rule is one atomic access (key fields never change, so a
  comparison of keys goes with the access next to it).
\<close>

section \<open>State and steps\<close>

datatype 'v pc =
    Idle
  | Walk u64 'v nat "nat option"
  | Upd u64 'v nat nat
  | Link u64 'v nat "nat option"
  | RWalk u64 "nat option"
  | RGot u64 nat
  | RDone u64 "'v option"

record 'v bucket =
  b_key :: "nat \<Rightarrow> u64"
  b_vptr :: "nat \<Rightarrow> nat"
  b_next :: "nat \<Rightarrow> nat option"
  b_used :: "nat \<Rightarrow> bool"
  b_vals :: "nat \<Rightarrow> 'v option"
  b_pcs :: "nat \<Rightarrow> 'v pc"

definition b_init :: "'v bucket" where
  "b_init = \<lparr>b_key = (\<lambda>_. 0), b_vptr = (\<lambda>_. 0), b_next = (\<lambda>_. None), b_used = (\<lambda>a. a = 0),
     b_vals = (\<lambda>_. None), b_pcs = (\<lambda>_. Idle)\<rparr>"

abbreviation goto :: "nat \<Rightarrow> 'v pc \<Rightarrow> 'v bucket \<Rightarrow> 'v bucket" where
  "goto i p s \<equiv> s\<lparr>b_pcs := (b_pcs s)(i := p)\<rparr>"

inductive b_step :: "nat \<Rightarrow> 'v bucket \<Rightarrow> 'v bucket \<Rightarrow> bool" where
  insert_call: "b_pcs s i = Idle \<Longrightarrow> b_step i s (goto i (Walk k v 0 (b_next s 0)) s)"
| find_equal: "b_pcs s i = Walk k v p (Some a) \<Longrightarrow> b_key s a = k \<Longrightarrow>
    b_step i s (goto i (Upd k v a (b_vptr s a)) s)"
| find_greater: "b_pcs s i = Walk k v p (Some a) \<Longrightarrow> k < b_key s a \<Longrightarrow>
    b_step i s (goto i (Link k v p (Some a)) s)"
| find_less: "b_pcs s i = Walk k v p (Some a) \<Longrightarrow> b_key s a < k \<Longrightarrow>
    b_step i s (goto i (Walk k v a (b_next s a)) s)"
| find_end: "b_pcs s i = Walk k v p None \<Longrightarrow> b_step i s (goto i (Link k v p None) s)"
| link_ok: "b_pcs s i = Link k v p t \<Longrightarrow> b_next s p = t \<Longrightarrow> \<not> b_used s a \<Longrightarrow> b_vals s q = None \<Longrightarrow>
    b_step i s (goto i Idle (s\<lparr>b_key := (b_key s)(a := k), b_vptr := (b_vptr s)(a := q),
      b_next := (b_next s)(a := t, p := Some a), b_used := (b_used s)(a := True),
      b_vals := (b_vals s)(q \<mapsto> v)\<rparr>))"
| link_retry: "b_pcs s i = Link k v p t \<Longrightarrow> b_next s p \<noteq> t \<Longrightarrow>
    b_step i s (goto i (Walk k v 0 (b_next s 0)) s)"
| upd_ok: "b_pcs s i = Upd k v a old \<Longrightarrow> b_vptr s a = old \<Longrightarrow> b_vals s q = None \<Longrightarrow>
    b_step i s (goto i Idle (s\<lparr>b_vptr := (b_vptr s)(a := q),
      b_vals := (b_vals s)(q \<mapsto> v, old := None)\<rparr>))"
| upd_retry: "b_pcs s i = Upd k v a old \<Longrightarrow> b_vptr s a \<noteq> old \<Longrightarrow>
    b_step i s (goto i (Walk k v 0 (b_next s 0)) s)"
| get_call: "b_pcs s i = Idle \<Longrightarrow> b_step i s (goto i (RWalk k (b_next s 0)) s)"
| get_equal: "b_pcs s i = RWalk k (Some a) \<Longrightarrow> b_key s a = k \<Longrightarrow>
    b_step i s (goto i (RGot k (b_vptr s a)) s)"
| get_less: "b_pcs s i = RWalk k (Some a) \<Longrightarrow> b_key s a < k \<Longrightarrow>
    b_step i s (goto i (RWalk k (b_next s a)) s)"
| get_missing: "b_pcs s i = RWalk k t \<Longrightarrow> (case t of None \<Rightarrow> True | Some a \<Rightarrow> k < b_key s a) \<Longrightarrow>
    b_step i s (goto i (RDone k None) s)"
| get_read: "b_pcs s i = RGot k q \<Longrightarrow> b_vals s q = Some v \<Longrightarrow>
    b_step i s (goto i (RDone k (Some v)) s)"
| get_return: "b_pcs s i = RDone k r \<Longrightarrow> b_step i s (goto i Idle s)"

inductive b_reach :: "'v bucket \<Rightarrow> bool" where
  b_start: "b_reach b_init"
| b_next_step: "b_reach s \<Longrightarrow> b_step i s t \<Longrightarrow> b_reach t"

section \<open>The chain in the heap\<close>

fun chain_of :: "(nat \<Rightarrow> nat option) \<Rightarrow> nat option \<Rightarrow> nat list \<Rightarrow> bool" where
  "chain_of nx None xs = (xs = [])"
| "chain_of nx (Some a) [] = False"
| "chain_of nx (Some a) (x # xs) = (x = a \<and> chain_of nx (nx a) xs)"

lemma chain_of_Cons: "chain_of nx st (x # xs) \<longleftrightarrow> st = Some x \<and> chain_of nx (nx x) xs"
  by (cases st) auto

lemma chain_of_append: "chain_of nx st (xs @ p # ys) \<Longrightarrow> chain_of nx (nx p) ys"
  by (induction xs arbitrary: st) (simp_all add: chain_of_Cons)

lemma chain_of_frame:
  "chain_of nx st xs \<Longrightarrow> \<forall>x \<in> set xs. nx' x = nx x \<Longrightarrow> chain_of nx' st xs"
proof (induction xs arbitrary: st)
  case Nil
  then show ?case by (cases st) simp_all
next
  case (Cons x xs)
  from Cons.prems(1) have st: "st = Some x" and tl: "chain_of nx (nx x) xs"
    by (simp_all only: chain_of_Cons)
  from Cons.prems(2) have xs: "\<forall>y \<in> set xs. nx' y = nx y" and x: "nx' x = nx x"
    by auto
  from tl xs have "chain_of nx' (nx x) xs" by (rule Cons.IH)
  then show ?case by (simp only: st chain_of_Cons x)
qed

lemma chain_of_insert:
  assumes "chain_of nx st (xs @ p # ys)" and "distinct (xs @ p # ys)" and "a \<notin> set (xs @ p # ys)"
  shows "chain_of (nx(a := nx p, p := Some a)) st (xs @ p # a # ys)"
  using assms
proof (induction xs arbitrary: st)
  case Nil
  then have "chain_of nx (nx p) ys" by (simp add: chain_of_Cons)
  then have "chain_of (nx(a := nx p, p := Some a)) (nx p) ys"
  proof (rule chain_of_frame)
    show "\<forall>x \<in> set ys. (nx(a := nx p, p := Some a)) x = nx x" using Nil by auto
  qed
  with Nil show ?case by (auto simp: chain_of_Cons fun_upd_def)
next
  case (Cons x xs)
  then show ?case by (auto simp: chain_of_Cons)
qed

section \<open>Invariant\<close>

definition lists_all :: "'v bucket \<Rightarrow> nat list \<Rightarrow> bool" where
  "lists_all s as \<longleftrightarrow> chain_of (b_next s) (Some 0) (0 # as) \<and> sorted_wrt (<) (map (b_key s) as) \<and>
     0 \<notin> set as \<and> (\<forall>a. b_used s a \<longleftrightarrow> a \<in> set (0 # as))"

definition values_ok :: "'v bucket \<Rightarrow> bool" where
  "values_ok s \<longleftrightarrow> (\<forall>a. b_used s a \<and> a \<noteq> 0 \<longrightarrow> b_vals s (b_vptr s a) \<noteq> None) \<and>
     (\<forall>a b. b_used s a \<and> b_used s b \<and> a \<noteq> 0 \<and> b \<noteq> 0 \<and> b_vptr s a = b_vptr s b \<longrightarrow> a = b)"

definition below :: "'v bucket \<Rightarrow> u64 \<Rightarrow> nat \<Rightarrow> bool" where
  "below s k p \<longleftrightarrow> b_used s p \<and> (p = 0 \<or> b_key s p < k)"

fun target_ok :: "'v bucket \<Rightarrow> nat option \<Rightarrow> bool" where
  "target_ok s None = True"
| "target_ok s (Some a) = (b_used s a \<and> a \<noteq> 0)"

fun pc_ok :: "'v bucket \<Rightarrow> 'v pc \<Rightarrow> bool" where
  "pc_ok s (Walk k v p t) = (below s k p \<and> target_ok s t)"
| "pc_ok s (Upd k v a old) = (b_used s a \<and> a \<noteq> 0 \<and> b_key s a = k)"
| "pc_ok s (Link k v p t) =
     (below s k p \<and> target_ok s t \<and> (case t of None \<Rightarrow> True | Some a \<Rightarrow> k < b_key s a))"
| "pc_ok s (RWalk k t) = target_ok s t"
| "pc_ok s _ = True"

definition b_inv :: "'v bucket \<Rightarrow> bool" where
  "b_inv s \<longleftrightarrow> (\<exists>as. lists_all s as) \<and> values_ok s \<and> (\<forall>i. pc_ok s (b_pcs s i))"

text \<open>The map a bucket represents.\<close>

definition holds :: "'v bucket \<Rightarrow> u64 \<Rightarrow> 'v \<Rightarrow> bool" where
  "holds s k v \<longleftrightarrow> (\<exists>a. a \<noteq> 0 \<and> b_used s a \<and> b_key s a = k \<and> b_vals s (b_vptr s a) = Some v)"

lemma pcs_frame [simp]:
  "lists_all (s\<lparr>b_pcs := f\<rparr>) as = lists_all s as" "values_ok (s\<lparr>b_pcs := f\<rparr>) = values_ok s"
  "target_ok (s\<lparr>b_pcs := f\<rparr>) t = target_ok s t" "below (s\<lparr>b_pcs := f\<rparr>) k a = below s k a"
  "holds (s\<lparr>b_pcs := f\<rparr>) = holds s"
  by (cases t; simp add: lists_all_def values_ok_def below_def holds_def fun_eq_iff)+

lemma pc_ok_pcs [simp]: "pc_ok (s\<lparr>b_pcs := f\<rparr>) q = pc_ok s q"
  by (cases q) (auto split: option.splits)

lemma b_inv_goto: "b_inv s \<Longrightarrow> pc_ok s p \<Longrightarrow> b_inv (goto i p s)"
  by (auto simp: b_inv_def)

lemma b_inv_init: "b_inv b_init"
  unfolding b_inv_def by (intro conjI exI [of _ "[]"])
    (auto simp: lists_all_def values_ok_def b_init_def)

text \<open>A used entry's successor is null or a used entry that is not the sentinel.\<close>

lemma next_ok:
  assumes "lists_all s as" and "b_used s a"
  shows "target_ok s (b_next s a)"
proof -
  from assms have "a \<in> set (0 # as)" by (auto simp: lists_all_def)
  then obtain xs ys where split: "0 # as = xs @ a # ys" by (meson split_list)
  with assms have "chain_of (b_next s) (Some 0) (xs @ a # ys)" by (simp add: lists_all_def)
  then have c: "chain_of (b_next s) (b_next s a) ys" by (rule chain_of_append)
  from split have ys: "set ys \<subseteq> set as" by (cases xs) auto
  show ?thesis
  proof (cases "b_next s a")
    case (Some b)
    with c obtain zs where "ys = b # zs" by (cases ys) auto
    with ys assms(1) have "b \<in> set as" and "0 \<notin> set as" by (auto simp: lists_all_def)
    then have "b \<noteq> 0" by metis
    with \<open>b \<in> set as\<close> assms(1) Some show ?thesis by (simp add: lists_all_def)
  qed simp
qed


section \<open>Publishing an entry\<close>

abbreviation linked :: "u64 \<Rightarrow> 'v \<Rightarrow> nat \<Rightarrow> nat \<Rightarrow> nat \<Rightarrow> 'v bucket \<Rightarrow> 'v bucket" where
  "linked k v p a q s \<equiv> s\<lparr>b_key := (b_key s)(a := k), b_vptr := (b_vptr s)(a := q),
      b_next := (b_next s)(a := b_next s p, p := Some a), b_used := (b_used s)(a := True),
      b_vals := (b_vals s)(q \<mapsto> v)\<rparr>"

lemma successors_greater:
  assumes "chain_of (b_next s) (b_next s p) ys" and "sorted_wrt (<) (map (b_key s) ys)"
    and "case b_next s p of None \<Rightarrow> True | Some b \<Rightarrow> k < b_key s b" and "y \<in> set ys"
  shows "k < b_key s y"
proof (cases ys)
  case (Cons z zs)
  with assms(1) have "b_next s p = Some z" by (simp add: chain_of_Cons)
  with assms Cons show ?thesis by (auto intro: less_trans)
qed (use assms in simp)

lemma linked_lists_all:
  assumes inv: "lists_all s as" and p: "below s k p" and a: "\<not> b_used s a"
    and gt: "case b_next s p of None \<Rightarrow> True | Some b \<Rightarrow> k < b_key s b"
  shows "\<exists>as'. lists_all (linked k v p a q s) as'"
proof -
  from inv p have "p \<in> set (0 # as)" by (auto simp: lists_all_def below_def)
  then obtain xs ys where split: "0 # as = xs @ p # ys" by (meson split_list)
  have ch: "chain_of (b_next s) (Some 0) (xs @ p # ys)"
    and d0: "0 \<notin> set as" and srt: "sorted_wrt (<) (map (b_key s) as)"
    and used: "\<And>x. b_used s x \<longleftrightarrow> x \<in> set (xs @ p # ys)"
    using inv unfolding lists_all_def split by auto
  from srt have "distinct as"
    by (simp add: strict_sorted_iff distinct_map)
  with d0 have dist: "distinct (xs @ p # ys)" unfolding split [symmetric] by simp
  from a used have fresh: "a \<notin> set (xs @ p # ys)" by metis
  have ch': "chain_of ((b_next s)(a := b_next s p, p := Some a)) (Some 0) (xs @ p # a # ys)"
    by (rule chain_of_insert [OF ch dist fresh])
  have tail: "chain_of (b_next s) (b_next s p) ys" by (rule chain_of_append [OF ch])
  have srt_ys: "sorted_wrt (<) (map (b_key s) ys)"
    using srt split by (cases xs) (auto simp: sorted_wrt_append)
  have ys_gt: "\<forall>y \<in> set ys. k < b_key s y"
    using successors_greater [OF tail srt_ys gt] by blast
  obtain as' where as': "xs @ p # a # ys = 0 # as'"
    using split by (cases xs) auto
  have keys: "map ((b_key s)(a := k)) zs = map (b_key s) zs" if "a \<notin> set zs" for zs
    using that by (induction zs) auto
  have "sorted_wrt (<) (map ((b_key s)(a := k)) as')"
  proof (cases xs)
    case Nil
    with split as' have "as' = a # ys" by simp
    then show ?thesis using srt_ys ys_gt keys [of ys] fresh by simp
  next
    case (Cons x xs')
    with split as' have eq: "as = xs' @ p # ys" "as' = xs' @ p # a # ys" by simp_all
    with d0 have "p \<noteq> 0" by auto
    with p have "b_key s p < k" by (simp add: below_def)
    moreover have "sorted_wrt (<) (map (b_key s) (xs' @ p # ys))" using srt eq by simp
    moreover have "a \<notin> set xs'" "a \<noteq> p" "a \<notin> set ys" using fresh Cons by auto
    ultimately show ?thesis
      using ys_gt by (auto simp: eq sorted_wrt_append keys intro: less_trans)
  qed
  moreover have "0 \<notin> set as'"
  proof -
    have "distinct (0 # as')" unfolding as' [symmetric] using dist fresh by auto
    then show ?thesis by simp
  qed
  moreover have "(b_used s)(a := True) = (\<lambda>x. x \<in> set (0 # as'))"
    unfolding as' [symmetric] using used by (auto simp: fun_eq_iff)
  ultimately show ?thesis
    using ch' unfolding as' by (intro exI [of _ as']) (simp add: lists_all_def)
qed

lemma values_okD:
  assumes "values_ok s" and "b_used s x" and "x \<noteq> 0"
  shows "b_vals s (b_vptr s x) \<noteq> None"
    and "b_used s y \<Longrightarrow> y \<noteq> 0 \<Longrightarrow> b_vptr s x = b_vptr s y \<Longrightarrow> x = y"
    and "b_vals s q = None \<Longrightarrow> b_vptr s x \<noteq> q"
  using assms unfolding values_ok_def by metis+

lemma values_okI:
  assumes "\<And>x. b_used s x \<Longrightarrow> x \<noteq> 0 \<Longrightarrow> b_vals s (b_vptr s x) \<noteq> None"
    and "\<And>x y. b_used s x \<Longrightarrow> x \<noteq> 0 \<Longrightarrow> b_used s y \<Longrightarrow> y \<noteq> 0 \<Longrightarrow> b_vptr s x = b_vptr s y \<Longrightarrow> x = y"
  shows "values_ok s"
  using assms unfolding values_ok_def by metis

lemma linked_values_ok:
  assumes ok: "values_ok s" and "\<not> b_used s a" and q: "b_vals s q = None"
  shows "values_ok (linked k v p a q s)"
proof (rule values_okI)
  fix x assume "b_used (linked k v p a q s) x" "x \<noteq> 0"
  then show "b_vals (linked k v p a q s) (b_vptr (linked k v p a q s) x) \<noteq> None"
    using values_okD(1,3) [OF ok] q by (cases "x = a") auto
next
  fix x y assume "b_used (linked k v p a q s) x" "x \<noteq> 0" "b_used (linked k v p a q s) y" "y \<noteq> 0"
    "b_vptr (linked k v p a q s) x = b_vptr (linked k v p a q s) y"
  then show "x = y"
    using values_okD(2) [OF ok, of x y] values_okD(3) [OF ok _ _ q, of x]
      values_okD(3) [OF ok _ _ q, of y]
    by (cases "x = a"; cases "y = a") auto
qed

lemma linked_holds:
  assumes "values_ok s" and "\<not> b_used s a" and "b_vals s q = None" and "a \<noteq> 0"
    and "\<And>x. b_used s x \<Longrightarrow> x \<noteq> 0 \<Longrightarrow> b_key s x \<noteq> k"
  shows "holds (linked k v p a q s) k' w = (if k' = k then w = v else holds s k' w)"
proof -
  have ptr: "b_vptr s x \<noteq> q" if "b_used s x" "x \<noteq> 0" for x
    using that values_okD(3) [OF assms(1)] assms(3) by blast
  show ?thesis
  proof (cases "k' = k")
    case True
    then show ?thesis using assms(4,5) by (auto simp: holds_def)
  next
    case False
    then show ?thesis using assms(2) ptr by (auto simp: holds_def)
  qed
qed

lemma linked_pc_ok: "\<not> b_used s a \<Longrightarrow> pc_ok s pc \<Longrightarrow> pc_ok (linked k v p a q s) pc"
  by (cases pc) (auto simp: below_def split: option.splits elim!: target_ok.elims)


lemma link_gap:
  assumes inv: "lists_all s as" and p: "below s k p"
    and gt: "case b_next s p of None \<Rightarrow> True | Some b \<Rightarrow> k < b_key s b"
    and x: "b_used s x" "x \<noteq> 0"
  shows "b_key s x \<noteq> k"
proof -
  from inv p have "p \<in> set (0 # as)" by (auto simp: lists_all_def below_def)
  then obtain xs ys where split: "0 # as = xs @ p # ys" by (meson split_list)
  have ch: "chain_of (b_next s) (Some 0) (xs @ p # ys)"
    and srt: "sorted_wrt (<) (map (b_key s) as)" and d0: "0 \<notin> set as"
    and used: "\<And>x. b_used s x \<longleftrightarrow> x \<in> set (xs @ p # ys)"
    using inv unfolding lists_all_def split by auto
  have srt_ys: "sorted_wrt (<) (map (b_key s) ys)"
    using srt split by (cases xs) (auto simp: sorted_wrt_append)
  consider "x \<in> set ys" | "x \<in> set xs" | "x = p" using used x(1) by auto
  then show ?thesis
  proof cases
    case 1
    then show ?thesis using successors_greater [OF chain_of_append [OF ch] srt_ys gt] by force
  next
    case 2
    then obtain x0 xs' where xs: "xs = x0 # xs'" by (cases xs) auto
    with split have as: "as = xs' @ p # ys" "x0 = 0" by simp_all
    with 2 x(2) xs have "x \<in> set xs'" by auto
    moreover have "p \<noteq> 0" using as d0 by auto
    then have "b_key s p < k" using p by (simp add: below_def)
    ultimately show ?thesis using srt as by (auto simp: sorted_wrt_append)
  next
    case 3
    then show ?thesis using p x(2) by (auto simp: below_def)
  qed
qed

section \<open>Replacing a value\<close>

abbreviation replaced :: "nat \<Rightarrow> 'v \<Rightarrow> nat \<Rightarrow> 'v bucket \<Rightarrow> 'v bucket" where
  "replaced a v q s \<equiv> s\<lparr>b_vptr := (b_vptr s)(a := q),
      b_vals := (b_vals s)(q \<mapsto> v, b_vptr s a := None)\<rparr>"

lemma replaced_values_ok:
  assumes ok: "values_ok s" and a: "b_used s a" "a \<noteq> 0" and q: "b_vals s q = None"
  shows "values_ok (replaced a v q s)"
proof (rule values_okI)
  have qa: "b_vptr s a \<noteq> q" by (rule values_okD(3) [OF ok a q])
  fix x assume x: "b_used (replaced a v q s) x" "x \<noteq> 0"
  show "b_vals (replaced a v q s) (b_vptr (replaced a v q s) x) \<noteq> None"
  proof (cases "x = a")
    case True
    then show ?thesis using qa by simp
  next
    case False
    from x have x': "b_used s x" by simp
    have "b_vptr s x \<noteq> b_vptr s a" using values_okD(2) [OF ok x' x(2) a] False by blast
    with False show ?thesis using values_okD(1) [OF ok x' x(2)] by simp
  qed
next
  fix x y assume "b_used (replaced a v q s) x" "x \<noteq> 0" "b_used (replaced a v q s) y" "y \<noteq> 0"
    "b_vptr (replaced a v q s) x = b_vptr (replaced a v q s) y"
  then show "x = y"
    using values_okD(2) [OF ok, of x y] values_okD(3) [OF ok _ _ q, of x]
      values_okD(3) [OF ok _ _ q, of y]
    by (cases "x = a"; cases "y = a") auto
qed

lemma keys_distinct:
  assumes "lists_all s as" and "b_used s x" "x \<noteq> 0" and "b_used s y" "y \<noteq> 0"
    and "b_key s x = b_key s y"
  shows "x = y"
proof -
  from assms have "inj_on (b_key s) (set as)" and "x \<in> set as" and "y \<in> set as"
    by (auto simp: lists_all_def strict_sorted_iff distinct_map)
  with assms(6) show ?thesis by (auto dest: inj_onD)
qed

lemma replaced_holds:
  assumes ok: "values_ok s" and "lists_all s as" and a: "b_used s a" "a \<noteq> 0" "b_key s a = k"
    and q: "b_vals s q = None"
  shows "holds (replaced a v q s) k' w = (if k' = k then w = v else holds s k' w)"
proof (cases "k' = k")
  case True
  have uniq: "x = a" if "b_used s x" "x \<noteq> 0" "b_key s x = k" for x
    using keys_distinct [OF assms(2) that(1,2) a(1,2)] that(3) a(3) by simp
  have "b_vptr s a \<noteq> q" by (rule values_okD(3) [OF ok a(1,2) q])
  then have val: "b_vals (replaced a v q s) (b_vptr (replaced a v q s) a) = Some v" by simp
  have "holds (replaced a v q s) k w \<longleftrightarrow>
      (\<exists>x. x \<noteq> 0 \<and> b_used s x \<and> b_key s x = k \<and>
        b_vals (replaced a v q s) (b_vptr (replaced a v q s) x) = Some w)"
    by (simp add: holds_def)
  also have "\<dots> \<longleftrightarrow> b_vals (replaced a v q s) (b_vptr (replaced a v q s) a) = Some w"
    using uniq a by blast
  also have "\<dots> \<longleftrightarrow> w = v" unfolding val by auto
  finally show ?thesis using True by simp
next
  case False
  have val: "b_vals (replaced a v q s) (b_vptr (replaced a v q s) x) = b_vals s (b_vptr s x)"
    if "b_used s x" "x \<noteq> 0" "b_key s x = k'" for x
  proof -
    have "x \<noteq> a" using that a False by auto
    moreover have "b_vptr s x \<noteq> q" by (rule values_okD(3) [OF ok that(1,2) q])
    moreover have "b_vptr s x \<noteq> b_vptr s a"
      using values_okD(2) [OF ok that(1,2) a(1,2)] \<open>x \<noteq> a\<close> by blast
    ultimately show ?thesis by simp
  qed
  have "holds (replaced a v q s) k' w \<longleftrightarrow>
      (\<exists>x. x \<noteq> 0 \<and> b_used s x \<and> b_key s x = k' \<and>
        b_vals (replaced a v q s) (b_vptr (replaced a v q s) x) = Some w)"
    by (simp add: holds_def)
  also have "\<dots> \<longleftrightarrow> holds s k' w"
    unfolding holds_def by (rule ex_cong1) (metis val)
  finally show ?thesis using False by simp
qed

lemma replaced_frame: "pc_ok (replaced a v q s) pc = pc_ok s pc" "lists_all (replaced a v q s) as = lists_all s as"
proof -
  have [simp]: "target_ok (replaced a v q s) t = target_ok s t" for t by (cases t) auto
  show "pc_ok (replaced a v q s) pc = pc_ok s pc"
    by (cases pc) (auto simp: below_def split: option.splits)
  show "lists_all (replaced a v q s) as = lists_all s as" by (simp add: lists_all_def)
qed

section \<open>The step theorem\<close>

text \<open>The insertion a thread is executing.\<close>

fun inserting :: "'v pc \<Rightarrow> (u64 \<times> 'v) option" where
  "inserting (Walk k v p t) = Some (k, v)"
| "inserting (Upd k v a old) = Some (k, v)"
| "inserting (Link k v p t) = Some (k, v)"
| "inserting _ = None"

lemma b_step_inv:
  assumes "b_step i s t" and inv: "b_inv s"
  shows "b_inv t"
proof -
  from inv obtain as where las: "lists_all s as" and ok: "values_ok s"
    and pcs: "\<And>j. pc_ok s (b_pcs s j)" by (auto simp: b_inv_def)
  have used0: "b_used s 0" using las by (simp add: lists_all_def)
  note nxt = next_ok [OF las]
  from assms(1) show ?thesis
  proof cases
    case (link_ok k v p t' a q)
    have lk: "below s k p" "case b_next s p of None \<Rightarrow> True | Some b \<Rightarrow> k < b_key s b"
      using pcs [of i] link_ok by auto
    have "b_inv (linked k v p a q s)"
      unfolding b_inv_def
      using linked_lists_all [OF las lk(1) link_ok(4) lk(2)]
        linked_values_ok [OF ok link_ok(4,5)] linked_pc_ok [OF link_ok(4)] pcs by simp
    then show ?thesis using b_inv_goto [of "linked k v p a q s" Idle i] link_ok(1,3) by simp
  next
    case (upd_ok k v a old q)
    have a: "b_used s a" "a \<noteq> 0" using pcs [of i] upd_ok by auto
    have "b_inv (replaced a v q s)"
      unfolding b_inv_def
    proof (intro conjI allI exI [of _ as])
      show "values_ok (replaced a v q s)" by (rule replaced_values_ok [OF ok a upd_ok(4)])
      show "lists_all (replaced a v q s) as" by (simp only: replaced_frame las)
      show "pc_ok (replaced a v q s) (b_pcs (replaced a v q s) j)" for j
        using pcs [of j] by (simp only: replaced_frame) simp
    qed
    then show ?thesis using b_inv_goto [of "replaced a v q s" Idle i] upd_ok(1,3) by simp
  next
    case (find_less k v p a)
    then show ?thesis using pcs [of i] nxt [of a] by (auto intro!: b_inv_goto [OF inv] simp: below_def)
  next
    case (get_less k a)
    then show ?thesis using pcs [of i] nxt [of a] by (auto intro!: b_inv_goto [OF inv])
  qed (use pcs [of i] nxt [OF used0] used0 in \<open>auto intro!: b_inv_goto [OF inv] simp: below_def\<close>)
qed


lemma b_reach_inv: "b_reach s \<Longrightarrow> b_inv s"
  by (induction rule: b_reach.induct) (auto intro: b_inv_init b_step_inv)

lemma b_step_holds:
  assumes "b_step i s t" and inv: "b_inv s"
  shows "holds t = holds s \<or> (\<exists>k v. inserting (b_pcs s i) = Some (k, v) \<and> b_pcs t i = Idle \<and>
    (\<forall>k' w. holds t k' w = (if k' = k then w = v else holds s k' w)))"
proof -
  from inv obtain as where las: "lists_all s as" and ok: "values_ok s"
    and pcs: "\<And>j. pc_ok s (b_pcs s j)" by (auto simp: b_inv_def)
  have used0: "b_used s 0" using las by (simp add: lists_all_def)
  from assms(1) show ?thesis
  proof cases
    case (link_ok k v p t' a q)
    have lk: "below s k p" "case b_next s p of None \<Rightarrow> True | Some b \<Rightarrow> k < b_key s b"
      using pcs [of i] link_ok by auto
    have "a \<noteq> 0" using link_ok used0 by metis
    have "holds (linked k v p a q s) k' w = (if k' = k then w = v else holds s k' w)" for k' w
      by (rule linked_holds [OF ok link_ok(4,5) \<open>a \<noteq> 0\<close> link_gap [OF las lk]])
    then show ?thesis using link_ok by simp
  next
    case (upd_ok k v a old q)
    have a: "b_used s a" "a \<noteq> 0" "b_key s a = k" using pcs [of i] upd_ok by auto
    have "holds (replaced a v q s) k' w = (if k' = k then w = v else holds s k' w)" for k' w
      by (rule replaced_holds [OF ok las a upd_ok(4)])
    then show ?thesis using upd_ok by simp
  qed simp_all
qed

text \<open>C10. In every reachable state of a bucket, under any interleaving of any number of threads, the
  linked entries form one chain from the sentinel with strictly ascending keys: no insertion is lost
  or duplicated, and no entry is linked out of order.\<close>

theorem bucket_chain_sorted:
  assumes "b_reach s"
  shows "\<exists>as. chain_of (b_next s) (Some 0) (0 # as) \<and> sorted_wrt (<) (map (b_key s) as) \<and>
    (\<forall>a. b_used s a \<longleftrightarrow> a \<in> set (0 # as)) \<and> (\<forall>a \<in> set as. b_vals s (b_vptr s a) \<noteq> None)"
proof -
  from b_reach_inv [OF assms] obtain as where as: "lists_all s as" and ok: "values_ok s"
    by (auto simp: b_inv_def)
  have "b_vals s (b_vptr s a) \<noteq> None" if "a \<in> set as" for a
    using values_okD(1) [OF ok, of a] as that by (auto simp: lists_all_def)
  with as show ?thesis unfolding lists_all_def by blast
qed

text \<open>C11. Insertion is linearizable: every step of a reachable bucket either leaves the map it
  represents unchanged, or is the successful compare-and-swap of one thread's \<open>Insert(k, v)\<close>,
  which returns at that step, and the map is updated at \<open>k\<close> to \<open>v\<close> and nowhere else.\<close>

theorem bucket_insert_linearizable:
  assumes "b_reach s" and "b_step i s t"
  shows "holds t = holds s \<or> (\<exists>k v. inserting (b_pcs s i) = Some (k, v) \<and> b_pcs t i = Idle \<and>
    (\<forall>k' w. holds t k' w = (if k' = k then w = v else holds s k' w)))"
  by (rule b_step_holds [OF assms(2) b_reach_inv [OF assms(1)]])

section \<open>A run with two threads\<close>

text \<open>
  Thread 0 inserts 10 under key 5 and then overwrites it with 20, while thread 1 looks key 5 up in
  between: it holds the pointer to the first value when the overwriting swap frees that value.
\<close>

definition run1 :: "nat bucket" where
  "run1 = goto 0 (Link 5 10 0 None) (goto 0 (Walk 5 10 0 None) b_init)"

definition run2 :: "nat bucket" where
  "run2 = goto 0 Idle (linked 5 10 0 1 100 run1)"

definition run3 :: "nat bucket" where
  "run3 = goto 1 (RGot 5 100) (goto 1 (RWalk 5 (Some 1)) run2)"

definition run4 :: "nat bucket" where
  "run4 = goto 0 (Upd 5 20 1 100) (goto 0 (Walk 5 20 0 (Some 1)) run3)"

definition run5 :: "nat bucket" where
  "run5 = goto 0 Idle (replaced 1 20 101 run4)"

lemmas run_defs = run1_def run2_def run3_def run4_def run5_def b_init_def

lemma run1_reach: "b_reach run1"
proof -
  have "b_step 0 b_init (goto 0 (Walk 5 (10 :: nat) 0 None) b_init)"
    using insert_call [of b_init 0 5 10] by (simp add: b_init_def)
  moreover have "b_step 0 (goto 0 (Walk 5 10 0 None) b_init) run1"
    using find_end [of "goto 0 (Walk 5 10 0 None) b_init" 0 5 10 0] by (simp add: run_defs)
  ultimately show ?thesis by (blast intro: b_reach.intros)
qed

lemma run2_reach: "b_reach run2" and run2_step: "b_step 0 run1 run2"
proof -
  show step: "b_step 0 run1 run2"
    using link_ok [of run1 0 5 10 0 None 1 100] by (simp add: run_defs)
  with run1_reach show "b_reach run2" by (blast intro: b_reach.intros)
qed

theorem bucket_chain_sorted_witness:
  "\<exists>as. chain_of (b_next run2) (Some 0) (0 # as) \<and> sorted_wrt (<) (map (b_key run2) as) \<and>
    (\<forall>a. b_used run2 a \<longleftrightarrow> a \<in> set (0 # as)) \<and> (\<forall>a \<in> set as. b_vals run2 (b_vptr run2 a) \<noteq> None)"
  by (rule bucket_chain_sorted [OF run2_reach])

theorem bucket_insert_linearizable_witness:
  "b_reach run1 \<and> b_step 0 run1 run2 \<and> holds run2 5 10 \<and> (holds run2 = holds run1 \<or>
    (\<exists>k v. inserting (b_pcs run1 0) = Some (k, v) \<and> b_pcs run2 0 = Idle \<and>
      (\<forall>k' w. holds run2 k' w = (if k' = k then w = v else holds run1 k' w))))"
proof -
  have "holds run2 5 10" by (simp add: holds_def run_defs exI [of _ 1])
  then show ?thesis
    using bucket_insert_linearizable [OF run1_reach run2_step] run1_reach run2_step by blast
qed

text \<open>The pointer \<open>Get\<close> hands out is not protected against a concurrent \<open>Insert\<close> under the
  same key: a state is reachable in which one thread is about to read the value through the pointer
  it got while the value object has already been deleted by the other thread.\<close>

lemma get_pointer_may_dangle:
  "\<exists>s i k q. b_reach (s :: nat bucket) \<and> b_pcs s i = RGot k q \<and> b_vals s q = None"
proof -
  have r3: "b_reach run3"
  proof -
    have "b_step 1 run2 (goto 1 (RWalk 5 (Some 1)) run2)"
      using get_call [of run2 1 5] by (simp add: run_defs)
    moreover have "b_step 1 (goto 1 (RWalk 5 (Some 1)) run2) run3"
      using get_equal [of "goto 1 (RWalk 5 (Some 1)) run2" 1 5 1] by (simp add: run_defs)
    ultimately show ?thesis using run2_reach by (blast intro: b_reach.intros)
  qed
  have "b_reach run4"
  proof -
    have "b_step 0 run3 (goto 0 (Walk 5 20 0 (Some 1)) run3)"
      using insert_call [of run3 0 5 20] by (simp add: run_defs)
    moreover have "b_step 0 (goto 0 (Walk 5 20 0 (Some 1)) run3) run4"
      using find_equal [of "goto 0 (Walk 5 20 0 (Some 1)) run3" 0 5 20 0 1] by (simp add: run_defs)
    ultimately show ?thesis using r3 by (blast intro: b_reach.intros)
  qed
  moreover have "b_step 0 run4 run5"
    using upd_ok [of run4 0 5 20 1 100 101] by (simp add: run_defs)
  ultimately have "b_reach run5" by (blast intro: b_reach.intros)
  moreover have "b_pcs run5 1 = RGot 5 100" and "b_vals run5 100 = None"
    by (simp_all add: run_defs)
  ultimately show ?thesis by blast
qed

end
