(* ===== verification/Atomic_Hash_Map.thy ===== *)
theory Atomic_Hash_Map
  imports Cmw_Prelude
begin

text \<open>
  The fixed-size hash map of \<open>base/atmoic_hash_map.h\<close>: a power-of-two table of buckets, each a
  chain of entries in ascending key order behind a sentinel. First the operations as they act when
  no other thread interferes, on the chain as the list of its entries; the contract
  \<open>lookup_table\<close> is what the clients of the map rely on. The retry loop of \<open>Insert\<close> under
  interference is the theory \<open>Hash_Map_Concurrent\<close>.
\<close>

section \<open>Buckets\<close>

type_synonym 'v chain = "(u64 \<times> 'v) list"

text \<open>
  \<open>Find\<close>: the entries before the target (whose last is \<open>*prev_ptr\<close>, the sentinel if there
  are none) and the chain from \<open>*target_ptr\<close> on.
\<close>

fun bucket_find :: "u64 \<Rightarrow> 'v chain \<Rightarrow> 'v chain \<Rightarrow> bool \<times> 'v chain \<times> 'v chain" where
  "bucket_find key prev [] = (False, prev, [])"
| "bucket_find key prev ((k, v) # target) =
     (if k = key then (True, prev, (k, v) # target)
      else if k > key then (False, prev, (k, v) # target)
      else bucket_find key (prev @ [(k, v)]) target)"

fun bucket_has :: "u64 \<Rightarrow> 'v chain \<Rightarrow> bool" where
  "bucket_has key [] = False"
| "bucket_has key ((k, v) # c) = (if k < key then bucket_has key c else k = key)"

definition bucket_insert :: "u64 \<Rightarrow> 'v \<Rightarrow> 'v chain \<Rightarrow> 'v chain" where
  "bucket_insert key value c =
     (case bucket_find key [] c of
        (True, prev, (k, old) # rest) \<Rightarrow> prev @ (k, value) # rest
      | (_, prev, target) \<Rightarrow> prev @ (key, value) # target)"

definition bucket_insert_default :: "'v \<Rightarrow> u64 \<Rightarrow> 'v chain \<Rightarrow> 'v chain" where
  "bucket_insert_default dflt key c = bucket_insert key dflt c"

definition bucket_get :: "u64 \<Rightarrow> 'v chain \<Rightarrow> 'v option" where
  "bucket_get key c =
     (case bucket_find key [] c of (True, prev, (k, v) # rest) \<Rightarrow> Some v | _ \<Rightarrow> None)"

section \<open>The table\<close>

record 'v hash_map =
  hm_table :: "'v chain list"
  hm_capacity :: u64
  hm_mode_num :: u64

definition hm_new :: "nat \<Rightarrow> 'v hash_map" where
  "hm_new table_size =
     \<lparr>hm_table = replicate table_size [], hm_capacity = of_nat table_size, hm_mode_num = of_nat table_size - 1\<rparr>"

definition hm_index :: "'v hash_map \<Rightarrow> u64 \<Rightarrow> nat" where
  "hm_index m key = unat (key AND hm_mode_num m)"

definition hm_has :: "'v hash_map \<Rightarrow> u64 \<Rightarrow> bool" where
  "hm_has m key = bucket_has key (hm_table m ! hm_index m key)"

definition hm_get :: "'v hash_map \<Rightarrow> u64 \<Rightarrow> 'v option" where
  "hm_get m key = bucket_get key (hm_table m ! hm_index m key)"

definition hm_set :: "u64 \<Rightarrow> 'v \<Rightarrow> 'v hash_map \<Rightarrow> 'v hash_map" where
  "hm_set key value m =
     (let i = hm_index m key in m\<lparr>hm_table := (hm_table m)[i := bucket_insert key value (hm_table m ! i)]\<rparr>)"

definition hm_set_default :: "'v \<Rightarrow> u64 \<Rightarrow> 'v hash_map \<Rightarrow> 'v hash_map" where
  "hm_set_default dflt key m =
     (let i = hm_index m key
      in m\<lparr>hm_table := (hm_table m)[i := bucket_insert_default dflt key (hm_table m ! i)]\<rparr>)"

text \<open>
  A caller that got \<open>V**\<close> mutates the value in place: the chain with the value of the found
  entry changed.
\<close>

definition hm_update :: "u64 \<Rightarrow> ('v \<Rightarrow> 'v) \<Rightarrow> 'v hash_map \<Rightarrow> 'v hash_map" where
  "hm_update key f m =
     (let i = hm_index m key in m\<lparr>hm_table := (hm_table m)[i :=
        (case bucket_find key [] (hm_table m ! i) of
           (True, prev, (k, v) # rest) \<Rightarrow> prev @ (k, f v) # rest
         | _ \<Rightarrow> hm_table m ! i)]\<rparr>)"

section \<open>Chains stay sorted and behave as maps\<close>

abbreviation chain_sorted :: "'v chain \<Rightarrow> bool" where
  "chain_sorted c \<equiv> sorted_wrt (<) (map fst c)"

lemma bucket_find_split:
  assumes "bucket_find key prev c = (b, prev', target)"
  shows "prev' @ target = prev @ c"
  using assms
proof (induction key prev c rule: bucket_find.induct)
  case (2 key prev k v target)
  then show ?case by (auto split: if_splits)
qed auto

lemma bucket_find_bounds:
  assumes "bucket_find key prev c = (b, prev', target)" and "\<forall>e \<in> set prev. fst e < key"
    and "chain_sorted c"
  shows "(\<forall>e \<in> set prev'. fst e < key) \<and>
    (b \<longrightarrow> (\<exists>v rest. target = (key, v) # rest)) \<and> (\<not> b \<longrightarrow> (\<forall>e \<in> set target. key < fst e))"
  using assms
proof (induction key prev c rule: bucket_find.induct)
  case (1 key prev)
  then show ?case by auto
next
  case (2 key prev k v c)
  consider "k = key" | "key < k" | "k < key" by (metis linorder_neqE)
  then show ?case
  proof cases
    case 3
    with 2 show ?thesis by (auto split: if_splits)
  next
    case 1
    with 2 show ?thesis by auto
  next
    case 2
    with "2.prems" show ?thesis by (auto split: if_splits intro: less_trans)
  qed
qed

lemma bucket_find_cases:
  assumes "chain_sorted c"
  obtains prev v rest where "bucket_find key [] c = (True, prev, (key, v) # rest)"
      and "c = prev @ (key, v) # rest" and "\<forall>e \<in> set prev. fst e < key"
    | prev target where "bucket_find key [] c = (False, prev, target)"
      and "c = prev @ target" and "\<forall>e \<in> set prev. fst e < key" and "\<forall>e \<in> set target. key < fst e"
proof -
  obtain b prev target where f: "bucket_find key [] c = (b, prev, target)"
    by (cases "bucket_find key [] c") auto
  from bucket_find_split [OF f] bucket_find_bounds [OF f] assms show thesis
    using f that by (cases b) auto
qed

lemma map_of_out: "\<forall>e \<in> set c. fst e \<noteq> k \<Longrightarrow> map_of c k = None"
  by (auto simp: map_of_eq_None_iff)

lemma bucket_get_map_of [bucket_laws]:
  assumes "chain_sorted c"
  shows "bucket_get key c = map_of c key"
proof (cases rule: bucket_find_cases [OF assms, of key])
  case (1 prev v rest)
  then have "map_of prev key = None" by (intro map_of_out) auto
  with "1" show ?thesis by (simp add: bucket_get_def map_add_def)
next
  case (2 prev target)
  then have "map_of (prev @ target) key = None" by (intro map_of_out) auto
  with "2" show ?thesis by (simp add: bucket_get_def map_add_def)
qed

lemma bucket_insert_sorted [bucket_laws]:
  assumes "chain_sorted c"
  shows "chain_sorted (bucket_insert key v c)"
proof (cases rule: bucket_find_cases [OF assms, of key])
  case (1 prev w rest)
  with assms show ?thesis by (simp add: bucket_insert_def sorted_wrt_append)
next
  case (2 prev target)
  with assms show ?thesis
    by (auto simp: bucket_insert_def sorted_wrt_append intro: less_trans)
qed

lemma map_of_bucket_insert [bucket_laws]:
  assumes "chain_sorted c"
  shows "map_of (bucket_insert key v c) = (map_of c)(key \<mapsto> v)"
proof (cases rule: bucket_find_cases [OF assms, of key])
  case (1 prev w rest)
  then have "map_of prev key = None" by (intro map_of_out) auto
  with "1" show ?thesis by (auto simp: bucket_insert_def map_add_def fun_eq_iff split: option.split)
next
  case (2 prev target)
  then have "map_of prev key = None" by (intro map_of_out) auto
  with "2" show ?thesis by (auto simp: bucket_insert_def map_add_def fun_eq_iff split: option.split)
qed

lemma bucket_insert_keys: "fst ` set (bucket_insert key v c) \<subseteq> insert key (fst ` set c)"
proof -
  obtain b prev target where f: "bucket_find key [] c = (b, prev, target)"
    by (cases "bucket_find key [] c") auto
  from bucket_find_split [OF f] have "c = prev @ target" by simp
  with f show ?thesis
    by (auto simp: bucket_insert_def split: bool.splits list.splits)
qed

lemma bucket_has_iff [bucket_laws]: "chain_sorted c \<Longrightarrow> bucket_has key c \<longleftrightarrow> map_of c key \<noteq> None"
  by (induction key c rule: bucket_has.induct) (auto dest: map_of_SomeD weak_map_of_SomeI intro!: map_of_out)


section \<open>The table behaves as a map\<close>

text \<open>The size is a power of two, as the template demands, and fits the index type.\<close>

definition hm_inv :: "'v hash_map \<Rightarrow> bool" where
  "hm_inv m \<longleftrightarrow> (\<exists>n < 64. length (hm_table m) = 2 ^ n \<and> hm_mode_num m = mask n) \<and>
     (\<forall>c \<in> set (hm_table m). chain_sorted c)"

definition hm_map :: "'v hash_map \<Rightarrow> u64 \<Rightarrow> 'v option" where
  "hm_map m key = map_of (hm_table m ! hm_index m key) key"

lemma hm_index_bound: "hm_inv m \<Longrightarrow> hm_index m key < length (hm_table m)"
proof -
  assume "hm_inv m"
  then obtain n where n: "length (hm_table m) = 2 ^ n" "hm_mode_num m = mask n"
    by (auto simp: hm_inv_def)
  have "unat (take_bit n key) < 2 ^ n" by (simp add: unsigned_take_bit_eq)
  with n show ?thesis by (simp add: hm_index_def take_bit_eq_mask)
qed

lemma hm_bucket_sorted: "hm_inv m \<Longrightarrow> chain_sorted (hm_table m ! hm_index m key)"
  using hm_index_bound [of m key] by (simp add: hm_inv_def)

lemma hm_new_inv: "n < 64 \<Longrightarrow> hm_inv (hm_new (2 ^ n))"
  unfolding hm_inv_def hm_new_def by (intro conjI exI [of _ n]) (auto simp: mask_eq_exp_minus_1)

lemma hm_map_new: "n < 64 \<Longrightarrow> hm_map (hm_new (2 ^ n)) key = None"
  using hm_index_bound [OF hm_new_inv, of n key] by (simp add: hm_map_def hm_new_def hm_index_def)

text \<open>A change of the bucket of \<open>key\<close> that acts as a map update there acts so on the table.\<close>

lemma hm_upd:
  assumes inv: "hm_inv m" and "i = hm_index m key"
    and "map_of c = (map_of (hm_table m ! i))(key := x)" and "chain_sorted c"
  shows "hm_inv (m\<lparr>hm_table := (hm_table m)[i := c]\<rparr>)"
    and "hm_map (m\<lparr>hm_table := (hm_table m)[i := c]\<rparr>) = (hm_map m)(key := x)"
proof -
  from inv assms(4) show "hm_inv (m\<lparr>hm_table := (hm_table m)[i := c]\<rparr>)"
    by (auto simp: hm_inv_def dest: set_update_subset_insert [THEN subsetD])
  show "hm_map (m\<lparr>hm_table := (hm_table m)[i := c]\<rparr>) = (hm_map m)(key := x)"
  proof
    fix k
    show "hm_map (m\<lparr>hm_table := (hm_table m)[i := c]\<rparr>) k = ((hm_map m)(key := x)) k"
      using assms(2,3) hm_index_bound [OF inv, of k]
      by (cases "hm_index m k = i") (auto simp: hm_map_def hm_index_def)
  qed
qed

lemma hm_get_map: "hm_inv m \<Longrightarrow> hm_get m key = hm_map m key"
  by (simp add: hm_get_def hm_map_def bucket_get_map_of hm_bucket_sorted)

lemma hm_set_laws:
  assumes "hm_inv m"
  shows "hm_inv (hm_set key v m)" and "hm_map (hm_set key v m) = (hm_map m)(key \<mapsto> v)"
  using hm_upd [OF assms refl, of "bucket_insert key v (hm_table m ! hm_index m key)" key "Some v"]
    hm_bucket_sorted [OF assms, of key]
  by (simp_all add: hm_set_def Let_def bucket_laws)

lemma map_of_replace:
  "\<forall>e \<in> set prev. fst e \<noteq> k \<Longrightarrow>
    map_of (prev @ (k, v') # rest) = (map_of (prev @ (k, v) # rest))(k \<mapsto> v')"
  by (induction prev) (auto simp: fun_eq_iff)

lemma hm_update_laws:
  assumes "hm_inv m" and "hm_map m key = Some v"
  shows "hm_inv (hm_update key f m)" and "hm_map (hm_update key f m) = (hm_map m)(key \<mapsto> f v)"
proof -
  let ?c = "hm_table m ! hm_index m key"
  from hm_bucket_sorted [OF assms(1), of key] have s: "chain_sorted ?c" .
  have "hm_inv (hm_update key f m) \<and> hm_map (hm_update key f m) = (hm_map m)(key \<mapsto> f v)"
  proof (cases rule: bucket_find_cases [OF s, of key])
    case (1 prev w rest)
    then have out: "\<forall>e \<in> set prev. fst e \<noteq> key" by auto
    then have "map_of prev key = None" by (rule map_of_out)
    with 1 assms(2) have "w = v" by (simp add: hm_map_def map_add_def)
    moreover have "chain_sorted (prev @ (key, f v) # rest)"
      using s "1"(2) by (simp add: sorted_wrt_append)
    ultimately show ?thesis
      using hm_upd [OF assms(1) refl, of "prev @ (key, f v) # rest" key "Some (f v)"] 1
        map_of_replace [OF out, of "f v" rest v]
      by (simp add: hm_update_def Let_def)
  next
    case (2 prev target)
    then have "map_of (prev @ target) key = None" by (intro map_of_out) auto
    with 2 assms(2) show ?thesis by (simp add: hm_map_def)
  qed
  then show "hm_inv (hm_update key f m)" and "hm_map (hm_update key f m) = (hm_map m)(key \<mapsto> f v)"
    by simp_all
qed

section \<open>The contract of the clients\<close>

locale lookup_table =
  fixes inv :: "'m \<Rightarrow> bool" and abs :: "'m \<Rightarrow> 'k \<Rightarrow> 'v option"
    and get :: "'m \<Rightarrow> 'k \<Rightarrow> 'v option" and set :: "'k \<Rightarrow> 'v \<Rightarrow> 'm \<Rightarrow> 'm"
    and update :: "'k \<Rightarrow> ('v \<Rightarrow> 'v) \<Rightarrow> 'm \<Rightarrow> 'm"
  assumes get_abs: "inv m \<Longrightarrow> get m k = abs m k"
    and set_inv: "inv m \<Longrightarrow> inv (set k v m)"
    and set_abs: "inv m \<Longrightarrow> abs (set k v m) = (abs m)(k \<mapsto> v)"
    and update_inv: "inv m \<Longrightarrow> abs m k = Some v \<Longrightarrow> inv (update k f m)"
    and update_abs: "inv m \<Longrightarrow> abs m k = Some v \<Longrightarrow> abs (update k f m) = (abs m)(k \<mapsto> f v)"
begin

text \<open>
  The registration idiom of the clients: mutate the value through the pointer if the key is
  present, store an initial value otherwise.
\<close>

lemma register:
  assumes "inv m"
  shows "inv (case get m k of Some v \<Rightarrow> update k f m | None \<Rightarrow> set k v0 m)"
    and "abs (case get m k of Some v \<Rightarrow> update k f m | None \<Rightarrow> set k v0 m) =
      (abs m)(k \<mapsto> (case abs m k of Some v \<Rightarrow> f v | None \<Rightarrow> v0))"
  using assms by (auto simp: get_abs set_inv set_abs update_inv update_abs split: option.split)

end

interpretation hm: lookup_table hm_inv hm_map hm_get hm_set hm_update
  by unfold_locales (simp_all add: hm_get_map hm_set_laws hm_update_laws)

text \<open>C9. The table is a map: starting from an empty table of any power-of-two size, after any
  sequence of insertions a lookup returns the value inserted last under that key and nothing for a
  key never inserted, and \<open>Has\<close> agrees; colliding keys never disturb each other.\<close>

theorem hash_map_is_map:
  assumes "n < 64"
  shows "hm_get (fold (\<lambda>(k, v). hm_set k v) kvs (hm_new (2 ^ n))) key = map_of (rev kvs) key \<and>
    hm_has (fold (\<lambda>(k, v). hm_set k v) kvs (hm_new (2 ^ n))) key =
      (key \<in> fst ` set kvs)"
proof -
  let ?m = "fold (\<lambda>(k, v). hm_set k v) kvs (hm_new (2 ^ n))"
  have "hm_inv (fold (\<lambda>(k, v). hm_set k v) kvs m) \<and>
      hm_map (fold (\<lambda>(k, v). hm_set k v) kvs m) = hm_map m ++ map_of (rev kvs)"
    if "hm_inv m" for m
    using that
    by (induction kvs arbitrary: m) (auto simp: hm_set_laws map_add_def fun_eq_iff split: option.splits)
  from this [OF hm_new_inv [OF assms]]
  have inv: "hm_inv ?m" and map: "hm_map ?m key = map_of (rev kvs) key"
    by (simp_all add: map_add_def hm_map_new [OF assms] split: option.split)
  have "hm_has ?m key \<longleftrightarrow> hm_map ?m key \<noteq> None"
    using hm_bucket_sorted [OF inv] by (simp add: hm_has_def hm_map_def bucket_has_iff)
  with map show ?thesis
    by (simp add: hm_get_map [OF inv] map_of_eq_None_iff del: not_None_eq)
qed

theorem hash_map_is_map_witness:
  "hm_get (fold (\<lambda>(k, v). hm_set k v) [(1, 10), (129, 20), (1, 30 :: nat)] (hm_new (2 ^ 7))) 1 = Some 30"
  using hash_map_is_map [of 7 "[(1, 10), (129, 20), (1, 30 :: nat)]" 1] by simp

end
