(* ===== verification/Cache_Buffer.thy ===== *)
theory Cache_Buffer
  imports Cmw_Prelude
begin

text \<open>
  The ring of \<open>data/cache_buffer.h\<close> and the reader side of \<open>data/channel_buffer.h\<close>.
  \<open>cb_head\<close> and \<open>cb_tail\<close> count messages since construction and are counted in \<open>nat\<close>: the
  model covers the first 2^64 - 1 messages of a buffer. An element is what the slot of the vector
  holds; \<open>d\<close> is the value-initialised element (a null pointer). \<open>cb_fusion\<close> is the fusion
  object whose callback is installed, if any; the ring itself is only touched when there is none.
\<close>

section \<open>The ring\<close>

record 'a cache_buffer =
  cb_head :: nat
  cb_tail :: nat
  cb_capacity :: nat
  cb_buffer :: "'a list"
  cb_fusion :: "nat option"

definition cb_new :: "'a \<Rightarrow> nat \<Rightarrow> 'a cache_buffer" where
  "cb_new d n = \<lparr>cb_head = 0, cb_tail = 0, cb_capacity = n + 1, cb_buffer = replicate (n + 1) d,
     cb_fusion = None\<rparr>"

definition cb_copy :: "'a cache_buffer \<Rightarrow> 'a cache_buffer" where
  "cb_copy rhs = \<lparr>cb_head = cb_head rhs, cb_tail = cb_tail rhs, cb_capacity = cb_capacity rhs,
     cb_buffer = cb_buffer rhs, cb_fusion = cb_fusion rhs\<rparr>"

definition cb_index :: "'a cache_buffer \<Rightarrow> nat \<Rightarrow> nat" where
  "cb_index b pos = pos mod cb_capacity b"

definition cb_at :: "'a cache_buffer \<Rightarrow> nat \<Rightarrow> 'a" where
  "cb_at b pos = cb_buffer b ! cb_index b pos"

definition cb_Head :: "'a cache_buffer \<Rightarrow> nat" where "cb_Head b = cb_head b + 1"
definition cb_Tail :: "'a cache_buffer \<Rightarrow> nat" where "cb_Tail b = cb_tail b"
definition cb_size :: "'a cache_buffer \<Rightarrow> nat" where "cb_size b = cb_tail b - cb_head b"
definition cb_front :: "'a cache_buffer \<Rightarrow> 'a" where "cb_front b = cb_at b (cb_head b + 1)"
definition cb_back :: "'a cache_buffer \<Rightarrow> 'a" where "cb_back b = cb_at b (cb_tail b)"
definition cb_empty :: "'a cache_buffer \<Rightarrow> bool" where "cb_empty b \<longleftrightarrow> cb_tail b = 0"
definition cb_full :: "'a cache_buffer \<Rightarrow> bool" where
  "cb_full b \<longleftrightarrow> cb_capacity b - 1 = cb_tail b - cb_head b"

definition cb_set_fusion :: "nat \<Rightarrow> 'a cache_buffer \<Rightarrow> 'a cache_buffer" where
  "cb_set_fusion f b = b\<lparr>cb_fusion := Some f\<rparr>"

text \<open>\<open>Fill\<close> when no callback is installed.\<close>

definition cb_fill :: "'a \<Rightarrow> 'a cache_buffer \<Rightarrow> 'a cache_buffer" where
  "cb_fill v b =
     (if cb_full b
      then b\<lparr>cb_buffer := (cb_buffer b)[cb_index b (cb_head b) := v],
             cb_head := cb_head b + 1, cb_tail := cb_tail b + 1\<rparr>
      else b\<lparr>cb_buffer := (cb_buffer b)[cb_index b (cb_tail b + 1) := v],
             cb_tail := cb_tail b + 1\<rparr>)"

section \<open>Readers\<close>

text \<open>\<open>Fetch\<close>: the result, the reader's index afterwards and the message delivered.\<close>

definition fetch :: "nat \<Rightarrow> 'a cache_buffer \<Rightarrow> bool \<times> nat \<times> 'a option" where
  "fetch index b =
     (if cb_empty b then (False, index, None)
      else if index = 0 then (True, cb_Tail b, Some (cb_at b (cb_Tail b)))
      else if index = cb_Tail b + 1 then (False, index, None)
      else if index < cb_Head b then (True, cb_Tail b, Some (cb_at b (cb_Tail b)))
      else (True, index, Some (cb_at b index)))"

definition latest :: "'a cache_buffer \<Rightarrow> 'a option" where
  "latest b = (if cb_empty b then None else Some (cb_back b))"

definition fetch_multi :: "nat \<Rightarrow> 'a cache_buffer \<Rightarrow> 'a list \<Rightarrow> bool \<times> 'a list" where
  "fetch_multi fetch_size b vec =
     (if cb_empty b then (False, vec)
      else let num = min (cb_size b) fetch_size
        in (True, vec @ map (cb_at b) [cb_Tail b + 1 - num ..< cb_Tail b + 1]))"

text \<open>The visitor of one channel advances its index after each message it gets.\<close>

definition try_fetch :: "nat \<Rightarrow> 'a cache_buffer \<Rightarrow> bool \<times> nat \<times> 'a option" where
  "try_fetch next b =
     (case fetch next b of (True, i, m) \<Rightarrow> (True, i + 1, m) | (False, i, m) \<Rightarrow> (False, i, m))"

section \<open>The ring holds the latest messages\<close>

text \<open>\<open>history xs n b\<close>: the ring of queue size \<open>n\<close> after the messages \<open>xs\<close> have been filled
  in; every position that is still readable holds its message.\<close>

definition history :: "'a list \<Rightarrow> nat \<Rightarrow> 'a cache_buffer \<Rightarrow> bool" where
  "history xs n b \<longleftrightarrow> cb_capacity b = n + 1 \<and> length (cb_buffer b) = n + 1 \<and>
     cb_tail b = length xs \<and> cb_head b = length xs - n \<and>
     (\<forall>i. length xs - n \<le> i \<and> i < length xs \<longrightarrow> cb_at b (i + 1) = xs ! i) \<and>
     (xs \<noteq> [] \<longrightarrow> cb_at b (length xs) = last xs)"

lemma history_new: "history [] n (cb_new d n)"
  by (simp add: history_def cb_new_def)

lemma mod_Suc_cap_inj:
  fixes i j c :: nat
  assumes "i mod (c + 1) = j mod (c + 1)" and "i \<le> j" and "j \<le> i + c"
  shows "i = j"
proof -
  from assms(1,2) have "(c + 1) dvd (j - i)" by (metis mod_eq_dvd_iff_nat)
  then show ?thesis
    using assms(2,3) by (cases "j - i = 0") (auto dest: dvd_imp_le)
qed

lemma history_fill:
  assumes "history xs n b"
  shows "history (xs @ [v]) n (cb_fill v b)"
proof -
  let ?l = "length xs"
  have full: "cb_full b \<longleftrightarrow> n \<le> ?l"
    using assms by (auto simp: history_def cb_full_def)
  have slot: "cb_index b (if n \<le> ?l then cb_head b else cb_tail b + 1) = (?l + 1) mod (n + 1)"
  proof (cases "n \<le> ?l")
    case True
    then have "?l + 1 = (?l - n) + (n + 1)" by simp
    then have "(?l + 1) mod (n + 1) = (?l - n) mod (n + 1)" by (metis mod_add_self2)
    with True assms show ?thesis by (simp add: history_def cb_index_def)
  qed (use assms in \<open>simp add: history_def cb_index_def\<close>)
  have buf: "cb_buffer (cb_fill v b) = (cb_buffer b)[(?l + 1) mod (n + 1) := v]"
    and frame: "cb_capacity (cb_fill v b) = n + 1" "cb_tail (cb_fill v b) = ?l + 1"
      "cb_head (cb_fill v b) = ?l + 1 - n"
    using assms full slot by (auto simp: cb_fill_def history_def)
  have old: "cb_at (cb_fill v b) (i + 1) = xs ! i" if "?l + 1 - n \<le> i" "i < ?l" for i
  proof -
    have "?l + 1 \<le> (i + 1) + n" using that(1) by linarith
    then have "(i + 1) mod (n + 1) \<noteq> (?l + 1) mod (n + 1)"
      using mod_Suc_cap_inj [of "i + 1" n "?l + 1"] that(2) by auto
    then have "cb_at (cb_fill v b) (i + 1) = cb_at b (i + 1)"
      using assms by (simp add: cb_at_def cb_index_def buf frame history_def)
    with assms that show ?thesis by (simp add: history_def)
  qed
  have new: "cb_at (cb_fill v b) (?l + 1) = v"
    using assms by (simp add: cb_at_def cb_index_def buf frame history_def)
  show ?thesis
    unfolding history_def
    using assms old new by (auto simp: frame buf history_def nth_append less_Suc_eq)
qed

lemma history_fold: "history xs n b \<Longrightarrow> history (xs @ ys) n (fold cb_fill ys b)"
proof (induction ys arbitrary: xs b)
  case (Cons y ys)
  from Cons.IH [OF history_fill [OF Cons.prems], of y] show ?case by simp
qed simp

lemma history_latest: "history xs n b \<Longrightarrow> latest b = (if xs = [] then None else Some (last xs))"
  by (auto simp: history_def latest_def cb_empty_def cb_back_def)

lemma history_fetch:
  assumes "history xs n b"
  shows "fetch i b =
    (if xs = [] then (False, i, None)
     else if i = length xs + 1 then (False, i, None)
     else if i = 0 \<or> i + n \<le> length xs then (True, length xs, Some (last xs))
     else (True, i, Some (cb_at b i)))"
  using assms by (auto simp: history_def fetch_def cb_empty_def cb_Head_def cb_Tail_def)

lemma history_at: "history xs n b \<Longrightarrow> length xs < i + n \<Longrightarrow> 0 < i \<Longrightarrow> i \<le> length xs \<Longrightarrow> cb_at b i = xs ! (i - 1)"
  unfolding history_def by (cases i) auto

lemma diff_min_self: "(a :: nat) - min a b = a - b"
  by (simp add: min_def)

lemma history_window:
  assumes "history xs n b" and "p \<le> length xs" and "p \<le> n"
  shows "map (cb_at b) [length xs + 1 - p ..< length xs + 1] = drop (length xs - p) xs"
proof (rule nth_equalityI)
  fix j assume "j < length (map (cb_at b) [length xs + 1 - p ..< length xs + 1])"
  then have j: "j < p" using assms(2) by (simp del: upt_Suc)
  then have "cb_at b (Suc (length xs - p + j)) = xs ! (length xs - p + j)"
    using history_at [OF assms(1), of "Suc (length xs - p + j)"] assms(2,3) by simp
  then show "map (cb_at b) [length xs + 1 - p ..< length xs + 1] ! j = drop (length xs - p) xs ! j"
    using j assms(2) by (simp add: Suc_diff_le del: upt_Suc)
qed (use assms(2) in \<open>simp del: upt_Suc\<close>)

text \<open>C21. The ring refines the queue that keeps the latest \<open>n\<close> messages: whatever is filled in, the
  batch read of \<open>k\<close> messages delivers the last \<open>min k n\<close> messages filled in, in order, and the
  latest message is the last one.\<close>

theorem cache_buffer_keeps_latest:
  assumes "xs \<noteq> []"
  shows "fetch_multi k (fold cb_fill xs (cb_new d n)) vec =
      (True, vec @ drop (length xs - min k n) xs) \<and>
    latest (fold cb_fill xs (cb_new d n)) = Some (last xs)"
proof -
  let ?b = "fold cb_fill xs (cb_new d n)"
  have h: "history xs n ?b"
    using history_fold [OF history_new, of xs n d] by simp
  let ?num = "min (cb_size ?b) k"
  have num: "?num = min (length xs) (min k n)"
    using h by (auto simp: history_def cb_size_def)
  have "map (cb_at ?b) [length xs + 1 - ?num ..< length xs + 1] = drop (length xs - ?num) xs"
    by (rule history_window [OF h]) (simp_all add: num)
  also have "drop (length xs - ?num) xs = drop (length xs - min k n) xs"
    unfolding num by (simp only: diff_min_self)
  finally have "map (cb_at ?b) [length xs + 1 - ?num ..< length xs + 1] =
      drop (length xs - min k n) xs" .
  then show ?thesis
    using h assms history_latest [OF h]
    by (simp add: fetch_multi_def Let_def cb_empty_def cb_Tail_def history_def)
qed

theorem cache_buffer_keeps_latest_witness:
  "fetch_multi 2 (fold cb_fill [1, 2, 3, 4, 5 :: nat] (cb_new 0 3)) [] = (True, [4, 5])"
  using cache_buffer_keeps_latest [of "[1, 2, 3, 4, 5 :: nat]" 2 0 3 "[]"] by simp

text \<open>C22. A reader whose next index is still in the window gets exactly the next message and moves
  on by one; a reader that has read everything gets nothing and stays; a new reader and one that has
  been overtaken get the newest message, and nothing older is ever delivered after it.\<close>

theorem reader_in_order:
  assumes "xs \<noteq> []"
  shows "(0 < i \<and> i \<le> length xs \<and> length xs < i + n \<longrightarrow>
      try_fetch i (fold cb_fill xs (cb_new d n)) = (True, i + 1, Some (xs ! (i - 1)))) \<and>
    try_fetch (length xs + 1) (fold cb_fill xs (cb_new d n)) = (False, length xs + 1, None) \<and>
    (i = 0 \<or> i \<le> length xs \<and> i + n \<le> length xs \<longrightarrow>
      try_fetch i (fold cb_fill xs (cb_new d n)) = (True, length xs + 1, Some (last xs)))"
proof -
  have h: "history xs n (fold cb_fill xs (cb_new d n))"
    using history_fold [OF history_new, of xs n d] by simp
  show ?thesis
    using assms history_at [OF h, of i]
    by (auto simp: try_fetch_def history_fetch [OF h])
qed

theorem reader_in_order_witness:
  "try_fetch 4 (fold cb_fill [1, 2, 3, 4, 5 :: nat] (cb_new 0 3)) = (True, 5, Some 4)"
  using reader_in_order [of "[1, 2, 3, 4, 5 :: nat]" 4 3 0] by simp

end
