(* ===== verification/Channel_Data.thy ===== *)
theory Channel_Data
  imports Atomic_Hash_Map Cache_Buffer
begin

text \<open>
  The data layer that connects received messages to readers: \<open>data/data_dispatcher.h\<close>,
  \<open>data/data_notifier.h\<close>, \<open>data/all_latest.h\<close> and \<open>data/data_visitor.h\<close>. Buffers,
  fusion objects and notifiers are objects of one store, addressed by numbers; an address whose
  entry is \<open>None\<close> is a destroyed object (an expired \<open>weak_ptr\<close>, a null notifier). The store
  holds one dispatcher table per message type \<open>T\<close> of \<open>DataDispatcher<T>\<close> and the single
  notifier table. \<open>AllLatest\<close> is one definition for its three specialisations: the first channel
  and the list of the other ones.
\<close>

section \<open>Store\<close>

record 'm fusion_obj =
  fo_others :: "nat list"
  fo_buffer :: "'m list option cache_buffer"

record 'm data_sys =
  sys_bufs :: "nat \<Rightarrow> 'm option cache_buffer option"
  sys_fusions :: "nat \<Rightarrow> 'm fusion_obj option"
  sys_dispatch :: "nat \<Rightarrow> nat list hash_map"
  sys_notifies :: "nat list hash_map"
  sys_callbacks :: "nat \<Rightarrow> nat option option"
  sys_log :: "nat list"
  sys_shutdown :: bool

definition sys_new :: "'m data_sys" where
  "sys_new = \<lparr>sys_bufs = (\<lambda>_. None), sys_fusions = (\<lambda>_. None), sys_dispatch = (\<lambda>_. hm_new (2 ^ 7)),
     sys_notifies = hm_new (2 ^ 7), sys_callbacks = (\<lambda>_. None), sys_log = [], sys_shutdown = False\<rparr>"

section \<open>Filling buffers and fusing channels\<close>

definition latest_of :: "'m data_sys \<Rightarrow> nat \<Rightarrow> 'm option" where
  "latest_of sys b =
     (case sys_bufs sys b of None \<Rightarrow> None
      | Some cb \<Rightarrow> (case latest cb of None \<Rightarrow> None | Some m \<Rightarrow> m))"

fun all_latest :: "'m data_sys \<Rightarrow> nat list \<Rightarrow> 'm list option" where
  "all_latest sys [] = Some []"
| "all_latest sys (b # bs) =
     (case latest_of sys b of None \<Rightarrow> None
      | Some m \<Rightarrow> map_option ((#) m) (all_latest sys bs))"

text \<open>The callback \<open>AllLatest\<close> installs on the buffer of its first channel.\<close>

definition fusion_callback :: "nat \<Rightarrow> 'm \<Rightarrow> 'm data_sys \<Rightarrow> 'm data_sys" where
  "fusion_callback f m0 sys =
     (case sys_fusions sys f of None \<Rightarrow> sys
      | Some fo \<Rightarrow> (case all_latest sys (fo_others fo) of None \<Rightarrow> sys
          | Some ms \<Rightarrow> sys\<lparr>sys_fusions := (sys_fusions sys)(f \<mapsto>
              fo\<lparr>fo_buffer := cb_fill (Some (m0 # ms)) (fo_buffer fo)\<rparr>)\<rparr>))"

text \<open>\<open>Fill\<close> on a buffer object: the callback replaces the ring update.\<close>

definition fill_buffer :: "nat \<Rightarrow> 'm \<Rightarrow> 'm data_sys \<Rightarrow> 'm data_sys" where
  "fill_buffer b m sys =
     (case sys_bufs sys b of None \<Rightarrow> sys
      | Some cb \<Rightarrow> (case cb_fusion cb of Some f \<Rightarrow> fusion_callback f m sys
          | None \<Rightarrow> sys\<lparr>sys_bufs := (sys_bufs sys)(b \<mapsto> cb_fill (Some m) cb)\<rparr>))"

definition new_all_latest :: "nat \<Rightarrow> nat \<Rightarrow> nat list \<Rightarrow> 'm data_sys \<Rightarrow> 'm data_sys" where
  "new_all_latest f b0 others sys =
     (case sys_bufs sys b0 of None \<Rightarrow> sys
      | Some cb \<Rightarrow> sys\<lparr>
          sys_fusions := (sys_fusions sys)(f \<mapsto>
            \<lparr>fo_others = others, fo_buffer = cb_new None (cb_capacity cb - 1)\<rparr>),
          sys_bufs := (sys_bufs sys)(b0 \<mapsto> cb_set_fusion f cb)\<rparr>)"

section \<open>Notifier and dispatcher\<close>

definition add_notifier :: "u64 \<Rightarrow> nat \<Rightarrow> 'm data_sys \<Rightarrow> 'm data_sys" where
  "add_notifier ch notifier sys =
     (let t = sys_notifies sys
      in sys\<lparr>sys_notifies :=
           (case hm_get t ch of Some ns \<Rightarrow> hm_update ch (\<lambda>ns. ns @ [notifier]) t
            | None \<Rightarrow> hm_set ch [notifier] t)\<rparr>)"

definition run_notifier :: "nat \<Rightarrow> 'm data_sys \<Rightarrow> 'm data_sys" where
  "run_notifier n sys =
     (case sys_callbacks sys n of Some (Some c) \<Rightarrow> sys\<lparr>sys_log := sys_log sys @ [c]\<rparr> | _ \<Rightarrow> sys)"

definition notify :: "u64 \<Rightarrow> 'm data_sys \<Rightarrow> bool \<times> 'm data_sys" where
  "notify ch sys =
     (case hm_get (sys_notifies sys) ch of Some ns \<Rightarrow> (True, fold run_notifier ns sys)
      | None \<Rightarrow> (False, sys))"

definition add_buffer :: "nat \<Rightarrow> u64 \<Rightarrow> nat \<Rightarrow> 'm data_sys \<Rightarrow> 'm data_sys" where
  "add_buffer ty ch b sys =
     (let t = sys_dispatch sys ty
      in sys\<lparr>sys_dispatch := (sys_dispatch sys)(ty :=
           (case hm_get t ch of Some bs \<Rightarrow> hm_update ch (\<lambda>bs. bs @ [b]) t
            | None \<Rightarrow> hm_set ch [b] t))\<rparr>)"

definition dispatch :: "nat \<Rightarrow> u64 \<Rightarrow> 'm \<Rightarrow> 'm data_sys \<Rightarrow> bool \<times> 'm data_sys" where
  "dispatch ty ch m sys =
     (if sys_shutdown sys then (False, sys)
      else case hm_get (sys_dispatch sys ty) ch of
        Some bs \<Rightarrow> notify ch (fold (\<lambda>b. fill_buffer b m) bs sys)
      | None \<Rightarrow> (False, sys))"

section \<open>Visitors\<close>

record visitor =
  v_next :: nat
  v_buffer :: nat
  v_fusion :: "nat option"
  v_notifier :: nat

record visitor_config =
  vc_type :: nat
  vc_channel :: u64
  vc_queue_size :: nat

text \<open>\<open>RegisterNotifyCallback\<close>\<close>

definition register_notify_callback :: "visitor \<Rightarrow> nat \<Rightarrow> 'm data_sys \<Rightarrow> 'm data_sys" where
  "register_notify_callback v c sys =
     sys\<lparr>sys_callbacks := (sys_callbacks sys)(v_notifier v \<mapsto> Some c)\<rparr>"

fun new_buffers :: "visitor_config list \<Rightarrow> nat list \<Rightarrow> 'm data_sys \<Rightarrow> 'm data_sys" where
  "new_buffers (c # cs) (b # bs) sys =
     new_buffers cs bs (sys\<lparr>sys_bufs := (sys_bufs sys)(b \<mapsto> cb_new None (vc_queue_size c))\<rparr>)"
| "new_buffers _ _ sys = sys"

fun add_buffers :: "visitor_config list \<Rightarrow> nat list \<Rightarrow> 'm data_sys \<Rightarrow> 'm data_sys" where
  "add_buffers (c # cs) (b # bs) sys =
     add_buffers cs bs (add_buffer (vc_type c) (vc_channel c) b sys)"
| "add_buffers _ _ sys = sys"

text \<open>
  The constructor of a visitor of one to four channels: \<open>bs\<close>, \<open>n\<close> and \<open>f\<close> are the addresses
  of the new buffers, notifier and fusion object.
\<close>

definition new_visitor :: "visitor_config \<Rightarrow> visitor_config list \<Rightarrow> nat \<Rightarrow> nat list \<Rightarrow> nat \<Rightarrow> nat \<Rightarrow>
    'm data_sys \<Rightarrow> visitor \<times> 'm data_sys" where
  "new_visitor c0 cs b0 bs n f sys =
     (let sys1 = sys\<lparr>sys_callbacks := (sys_callbacks sys)(n \<mapsto> None)\<rparr>;
          sys2 = add_buffers (c0 # cs) (b0 # bs) (new_buffers (c0 # cs) (b0 # bs) sys1);
          sys3 = add_notifier (vc_channel c0) n sys2
      in if cs = []
         then (\<lparr>v_next = 0, v_buffer = b0, v_fusion = None, v_notifier = n\<rparr>, sys3)
         else (\<lparr>v_next = 0, v_buffer = b0, v_fusion = Some f, v_notifier = n\<rparr>,
               new_all_latest f b0 bs sys3))"

definition visitor_try_fetch :: "visitor \<Rightarrow> 'm data_sys \<Rightarrow> bool \<times> visitor \<times> 'm list" where
  "visitor_try_fetch v sys =
     (case v_fusion v of
        None \<Rightarrow> (case sys_bufs sys (v_buffer v) of None \<Rightarrow> (False, v, [])
          | Some cb \<Rightarrow> (case try_fetch (v_next v) cb of
              (True, i, Some (Some m)) \<Rightarrow> (True, v\<lparr>v_next := i\<rparr>, [m])
            | (ok, i, _) \<Rightarrow> (ok, v\<lparr>v_next := i\<rparr>, [])))
      | Some f \<Rightarrow> (case sys_fusions sys f of None \<Rightarrow> (False, v, [])
          | Some fo \<Rightarrow> (case try_fetch (v_next v) (fo_buffer fo) of
              (True, i, Some (Some ms)) \<Rightarrow> (True, v\<lparr>v_next := i\<rparr>, ms)
            | (ok, i, _) \<Rightarrow> (ok, v\<lparr>v_next := i\<rparr>, []))))"

section \<open>Registration\<close>

lemma add_notifier_laws:
  assumes "hm_inv (sys_notifies sys)"
  shows "hm_inv (sys_notifies (add_notifier ch n sys))"
    and "hm_map (sys_notifies (add_notifier ch n sys)) =
      (hm_map (sys_notifies sys))(ch \<mapsto>
        (case hm_map (sys_notifies sys) ch of Some ns \<Rightarrow> ns @ [n] | None \<Rightarrow> [n]))"
  using hm.register [OF assms, of ch "[n]" "\<lambda>ns. ns @ [n]"]
  by (simp_all add: add_notifier_def Let_def)

lemma add_notifier_frame [simp]:
  "sys_log (add_notifier ch n sys) = sys_log sys"
  "sys_callbacks (add_notifier ch n sys) = sys_callbacks sys"
  "sys_bufs (add_notifier ch n sys) = sys_bufs sys"
  "sys_fusions (add_notifier ch n sys) = sys_fusions sys"
  "sys_dispatch (add_notifier ch n sys) = sys_dispatch sys"
  "sys_shutdown (add_notifier ch n sys) = sys_shutdown sys"
  by (simp_all add: add_notifier_def Let_def)

lemma add_buffer_laws:
  assumes "hm_inv (sys_dispatch sys ty)"
  shows "hm_inv (sys_dispatch (add_buffer ty ch b sys) ty)"
    and "hm_map (sys_dispatch (add_buffer ty ch b sys) ty) =
      (hm_map (sys_dispatch sys ty))(ch \<mapsto>
        (case hm_map (sys_dispatch sys ty) ch of Some bs \<Rightarrow> bs @ [b] | None \<Rightarrow> [b]))"
    and "ty' \<noteq> ty \<Longrightarrow> sys_dispatch (add_buffer ty ch b sys) ty' = sys_dispatch sys ty'"
  using hm.register [OF assms, of ch "[b]" "\<lambda>bs. bs @ [b]"]
  by (simp_all add: add_buffer_def Let_def)

lemma sys_tables_new:
  "hm_inv (sys_notifies sys_new)" "hm_map (sys_notifies sys_new) ch = None"
  "hm_inv (sys_dispatch sys_new ty)" "hm_map (sys_dispatch sys_new ty) ch = None"
  using hm_new_inv [of 7] hm_map_new [of 7] by (simp_all add: sys_new_def)

lemma fold_run_notifier:
  "fold run_notifier ns sys =
    sys\<lparr>sys_log := sys_log sys @ List.map_filter (\<lambda>n. Option.bind (sys_callbacks sys n) id) ns\<rparr>"
  by (induction ns arbitrary: sys)
    (auto simp: run_notifier_def List.map_filter_simps split: option.splits)

text \<open>Registration and notification: after notifiers are added to any channels in any order, a
  notification of a channel returns whether it has a notifier and runs the callbacks of exactly the
  notifiers added to it, in the order they were added, skipping those without a callback.\<close>

lemma notify_runs_registered:
  assumes "hm_inv (sys_notifies sys)" and "\<forall>ch. hm_map (sys_notifies sys) ch = None"
  shows "notify ch (fold (\<lambda>(c, n). add_notifier c n) regs sys) =
    (ch \<in> fst ` set regs,
     (fold (\<lambda>(c, n). add_notifier c n) regs sys)\<lparr>sys_log := sys_log sys @
        List.map_filter (\<lambda>(c, n). if c = ch then Option.bind (sys_callbacks sys n) id else None) regs\<rparr>)"
proof -
  let ?s = "fold (\<lambda>(c, n). add_notifier c n) regs sys"
  let ?mine = "map snd (filter (\<lambda>(c, n). c = ch) regs)"
  have "hm_inv (sys_notifies ?s) \<and> hm_map (sys_notifies ?s) ch =
      (if ?mine = [] then None else Some ?mine) \<and>
      sys_log ?s = sys_log sys \<and> sys_callbacks ?s = sys_callbacks sys"
  proof (induction regs rule: rev_induct)
    case Nil
    then show ?case using assms by simp
  next
    case (snoc r regs)
    obtain c n where r: "r = (c, n)" by (cases r)
    show ?case
      using snoc add_notifier_laws [of "fold (\<lambda>(c, n). add_notifier c n) regs sys"]
      by (auto simp: r split: if_splits)
  qed
  moreover have "List.map_filter g ?mine =
      List.map_filter (\<lambda>(c, n). if c = ch then g n else None) regs" for g :: "nat \<Rightarrow> nat option"
    by (induction regs) (auto simp: List.map_filter_simps split: option.split if_splits)
  moreover have "ch \<in> fst ` set regs \<longleftrightarrow> ?mine \<noteq> []"
    by (force simp: filter_empty_conv image_iff)
  ultimately show ?thesis
    by (auto simp: notify_def hm_get_map fold_run_notifier List.map_filter_simps)
qed

lemma notify_runs_registered_witness:
  "notify 7 (fold (\<lambda>(c, n). add_notifier c n) [(7, 1), (8, 2), (7, 3)]
      (sys_new \<lparr>sys_callbacks := [1 \<mapsto> Some 11, 2 \<mapsto> Some 12, 3 \<mapsto> Some 13]\<rparr> :: nat data_sys)) =
    (True, (fold (\<lambda>(c, n). add_notifier c n) [(7, 1), (8, 2), (7, 3)]
      (sys_new \<lparr>sys_callbacks := [1 \<mapsto> Some 11, 2 \<mapsto> Some 12, 3 \<mapsto> Some 13]\<rparr>))\<lparr>sys_log := [11, 13]\<rparr>)"
  using notify_runs_registered
    [of "sys_new \<lparr>sys_callbacks := [1 \<mapsto> Some 11, 2 \<mapsto> Some 12, 3 \<mapsto> Some 13]\<rparr> :: nat data_sys" 7
      "[(7, 1), (8, 2), (7, 3)]"]
  by (simp add: sys_tables_new List.map_filter_simps) (simp add: sys_new_def)

section \<open>Delivery\<close>

lemma fill_buffer_frame [simp]:
  "sys_log (fill_buffer b m sys) = sys_log sys"
  "sys_callbacks (fill_buffer b m sys) = sys_callbacks sys"
  "sys_notifies (fill_buffer b m sys) = sys_notifies sys"
  "sys_dispatch (fill_buffer b m sys) = sys_dispatch sys"
  "sys_shutdown (fill_buffer b m sys) = sys_shutdown sys"
  by (simp_all add: fill_buffer_def fusion_callback_def split: option.split)

lemma fill_buffer_bufs:
  "sys_bufs (fill_buffer b m sys) b' =
    (if b' = b then map_option (\<lambda>cb. if cb_fusion cb = None then cb_fill (Some m) cb else cb)
       (sys_bufs sys b) else sys_bufs sys b')"
  by (auto simp: fill_buffer_def fusion_callback_def split: option.split)

lemma fold_fill_buffer_frame [simp]:
  "sys_log (fold (\<lambda>b. fill_buffer b m) bs sys) = sys_log sys"
  "sys_callbacks (fold (\<lambda>b. fill_buffer b m) bs sys) = sys_callbacks sys"
  "sys_notifies (fold (\<lambda>b. fill_buffer b m) bs sys) = sys_notifies sys"
  by (induction bs arbitrary: sys) simp_all

lemma cb_fill_fusion [simp]: "cb_fusion (cb_fill v cb) = cb_fusion cb"
  by (simp add: cb_fill_def)

lemma fold_fill_buffer_bufs:
  "distinct bs \<Longrightarrow> sys_bufs (fold (\<lambda>b. fill_buffer b m) bs sys) b' =
    (if b' \<in> set bs then map_option (\<lambda>cb. if cb_fusion cb = None then cb_fill (Some m) cb else cb)
       (sys_bufs sys b') else sys_bufs sys b')"
  by (induction bs arbitrary: sys) (auto simp: fill_buffer_bufs)

lemma add_buffer_frame [simp]:
  "sys_log (add_buffer ty ch b sys) = sys_log sys"
  "sys_callbacks (add_buffer ty ch b sys) = sys_callbacks sys"
  "sys_bufs (add_buffer ty ch b sys) = sys_bufs sys"
  "sys_fusions (add_buffer ty ch b sys) = sys_fusions sys"
  "sys_notifies (add_buffer ty ch b sys) = sys_notifies sys"
  "sys_shutdown (add_buffer ty ch b sys) = sys_shutdown sys"
  by (simp_all add: add_buffer_def Let_def)

abbreviation registering :: "(nat \<times> u64 \<times> nat) list \<Rightarrow> 'm data_sys \<Rightarrow> 'm data_sys" where
  "registering regs sys \<equiv> fold (\<lambda>(t, c, b). add_buffer t c b) regs sys"

lemma registering_tables:
  assumes "\<forall>t. hm_inv (sys_dispatch sys t) \<and> hm_map (sys_dispatch sys t) = Map.empty"
  shows "hm_inv (sys_dispatch (registering regs sys) ty) \<and>
    hm_map (sys_dispatch (registering regs sys) ty) ch =
      (case map (snd \<circ> snd) (filter (\<lambda>(t, c, b). t = ty \<and> c = ch) regs) of [] \<Rightarrow> None | bs \<Rightarrow> Some bs) \<and>
    sys_bufs (registering regs sys) = sys_bufs sys \<and>
    sys_notifies (registering regs sys) = sys_notifies sys \<and>
    sys_shutdown (registering regs sys) = sys_shutdown sys"
proof (induction regs arbitrary: ty ch rule: rev_induct)
  case Nil
  then show ?case using assms by simp
next
  case (snoc r regs)
  obtain t c b where r: "r = (t, c, b)" by (metis prod_cases3)
  have inv: "hm_inv (sys_dispatch (registering regs sys) t)" using snoc by blast
  show ?case
    using snoc [of ty ch] snoc [of t c] add_buffer_laws [OF inv, where ch = c and b = b]
    by (cases "ty = t") (auto simp: r split: list.splits)
qed



section \<open>Fusion\<close>

text \<open>The tuples a fusion of \<open>b0\<close> with \<open>others\<close> is to deliver: one for each message that
  arrives on \<open>b0\<close> while every other channel has a message; \<open>lat\<close> is their latest messages.\<close>

fun fused :: "nat \<Rightarrow> nat list \<Rightarrow> (nat \<Rightarrow> 'm option) \<Rightarrow> (nat \<times> 'm) list \<Rightarrow> 'm list list" where
  "fused b0 others lat [] = []"
| "fused b0 others lat ((b, m) # es) =
     (if b = b0
      then (if \<exists>x \<in> set others. lat x = None then [] else [m # map (the \<circ> lat) others]) @ fused b0 others lat es
      else fused b0 others (lat(b := Some m)) es)"

definition tracks :: "'m data_sys \<Rightarrow> nat list \<Rightarrow> (nat \<Rightarrow> 'm option) \<Rightarrow> bool" where
  "tracks sys others lat \<longleftrightarrow> (\<forall>b \<in> set others. \<exists>cb xs n. sys_bufs sys b = Some cb \<and>
     cb_fusion cb = None \<and> history (map Some xs) n cb \<and> lat b = (if xs = [] then None else Some (last xs)))"

lemma tracks_latest: "tracks sys others lat \<Longrightarrow> b \<in> set others \<Longrightarrow> latest_of sys b = lat b"
  by (auto simp: tracks_def latest_of_def history_latest last_map dest!: bspec)

lemma tracks_all_latest:
  "\<forall>b \<in> set bs. latest_of sys b = lat b \<Longrightarrow> all_latest sys bs =
    (if \<exists>x \<in> set bs. lat x = None then None else Some (map (the \<circ> lat) bs))"
  by (induction bs) (auto split: option.split)

lemma tracks_fill:
  assumes "tracks sys others lat" and "b0 \<notin> set others" and "sys_bufs sys b0 = Some cb0"
    and "cb_fusion cb0 = Some f"
  shows "tracks (fill_buffer b m sys) others (if b = b0 then lat else lat(b := Some m))"
  unfolding tracks_def
proof
  fix x
  assume x: "x \<in> set others"
  from assms(1) x obtain cb xs n where cb: "sys_bufs sys x = Some cb" "cb_fusion cb = None"
    "history (map Some xs) n cb" "lat x = (if xs = [] then None else Some (last xs))"
    by (auto simp: tracks_def)
  show "\<exists>cb xs n. sys_bufs (fill_buffer b m sys) x = Some cb \<and> cb_fusion cb = None \<and>
      history (map Some xs) n cb \<and>
      (if b = b0 then lat else lat(b := Some m)) x = (if xs = [] then None else Some (last xs))"
  proof (cases "x = b")
    case True
    with assms(2) x have "b \<noteq> b0" by blast
    with True cb history_fill [OF cb(3), of "Some m"] show ?thesis
      by (intro exI [of _ "cb_fill (Some m) cb"] exI [of _ "xs @ [m]"] exI [of _ n])
        (simp add: fill_buffer_bufs)
  qed (use cb in \<open>auto simp: fill_buffer_bufs\<close>)
qed

lemma fusion_run:
  assumes "tracks sys others lat" and "b0 \<notin> set others" and "sys_bufs sys b0 = Some cb0"
    and "cb_fusion cb0 = Some f" and "sys_fusions sys f = Some fo" and "fo_others fo = others"
    and "history (map Some ys) n (fo_buffer fo)"
    and "\<forall>(b, m) \<in> set es. b = b0 \<or> b \<in> set others"
  shows "\<exists>fo'. sys_fusions (fold (\<lambda>(b, m). fill_buffer b m) es sys) f = Some fo' \<and>
    history (map Some (ys @ fused b0 others lat es)) n (fo_buffer fo') \<and>
    sys_bufs (fold (\<lambda>(b, m). fill_buffer b m) es sys) b0 = Some cb0"
  using assms
proof (induction es arbitrary: sys lat fo ys)
  case (Cons e es)
  obtain b m where e: "e = (b, m)" by (cases e)
  note tr = tracks_fill [OF Cons.prems(1-4), of b m]
  have b0: "sys_bufs (fill_buffer b m sys) b0 = Some cb0"
    using Cons.prems(3,4) by (auto simp: fill_buffer_bufs)
  have all: "all_latest sys others = (if \<exists>x \<in> set others. lat x = None then None
      else Some (map (the \<circ> lat) others))"
    using tracks_latest [OF Cons.prems(1)] by (blast intro: tracks_all_latest)
  show ?case
  proof (cases "b = b0")
    case True
    let ?new = "if \<exists>x \<in> set others. lat x = None then [] else [m # map (the \<circ> lat) others]"
    have "\<exists>fo'. sys_fusions (fill_buffer b m sys) f = Some fo' \<and> fo_others fo' = others \<and>
        history (map Some (ys @ ?new)) n (fo_buffer fo')"
      using Cons.prems(3-7) all True history_fill [OF Cons.prems(7)]
      by (auto simp: fill_buffer_def fusion_callback_def)
    then obtain fo' where fo': "sys_fusions (fill_buffer b m sys) f = Some fo'"
      "fo_others fo' = others" "history (map Some (ys @ ?new)) n (fo_buffer fo')" by blast
    from tr True have "tracks (fill_buffer b m sys) others lat" by simp
    from Cons.IH [OF this Cons.prems(2) b0 Cons.prems(4) fo'] Cons.prems(8) True show ?thesis
      by (simp add: e)
  next
    case False
    with Cons.prems(8) e have "b \<in> set others" by auto
    with Cons.prems(1) obtain cb where "sys_bufs sys b = Some cb" "cb_fusion cb = None"
      by (auto simp: tracks_def)
    then have fo: "sys_fusions (fill_buffer b m sys) f = Some fo"
      using Cons.prems(5) by (simp add: fill_buffer_def)
    from tr False have "tracks (fill_buffer b m sys) others (lat(b := Some m))" by simp
    from Cons.IH [OF this Cons.prems(2) b0 Cons.prems(4) fo Cons.prems(6,7)] Cons.prems(8) False
    show ?thesis by (simp add: e fun_upd_def)
  qed
qed simp

lemma add_buffers_bufs [simp]: "sys_bufs (add_buffers cs bs sys) = sys_bufs sys"
  by (induction cs bs sys rule: add_buffers.induct) simp_all

lemma new_buffers_bufs:
  "length cs = length bs \<Longrightarrow> distinct bs \<Longrightarrow> sys_bufs (new_buffers cs bs sys) =
    sys_bufs sys ++ map_of (zip bs (map (\<lambda>c. cb_new None (vc_queue_size c)) cs))"
proof (induction cs bs sys rule: new_buffers.induct)
  case (1 c cs b bs sys)
  then show ?case
    by (auto simp: fun_eq_iff map_add_def split: option.split dest: map_of_SomeD set_zip_leftD)
qed simp_all

text \<open>C24. Fusion: a visitor of several channels delivers, for each message on its first channel
  that arrives while every other channel has had a message, exactly the tuple of that message and
  the latest message of each other channel, as a reader of a ring of the first channel's queue size:
  after any messages on its buffers in any order, the reader at position \<open>i\<close> gets the \<open>i\<close>-th tuple
  if that is not overwritten yet, the last tuple if it is, and nothing if there is none.\<close>

theorem visitor_fuses:
  fixes sys :: "'m data_sys"
  assumes "cs \<noteq> []" and "length cs = length bs" and "distinct (b0 # bs)"
    and "new_visitor c0 cs b0 bs n f sys = (v, sys')"
    and "\<forall>(b, m) \<in> set es. b \<in> set (b0 # bs)"
    and "ys = fused b0 bs Map.empty es" and "i \<le> length ys + 1"
  shows "visitor_try_fetch (v\<lparr>v_next := i\<rparr>) (fold (\<lambda>(b, m). fill_buffer b m) es sys') =
    (if ys = [] \<or> i = length ys + 1 then (False, v\<lparr>v_next := i\<rparr>, [])
     else if 0 < i \<and> length ys < i + vc_queue_size c0 then (True, v\<lparr>v_next := i + 1\<rparr>, ys ! (i - 1))
     else (True, v\<lparr>v_next := length ys + 1\<rparr>, last ys))"
proof -
  let ?q = "vc_queue_size c0"
  let ?bufs = "sys_bufs sys ++ map_of (zip (b0 # bs) (map (\<lambda>c. cb_new None (vc_queue_size c)) (c0 # cs)))"
  define sys3 where "sys3 = add_notifier (vc_channel c0) n (add_buffers (c0 # cs) (b0 # bs)
    (new_buffers (c0 # cs) (b0 # bs) (sys\<lparr>sys_callbacks := (sys_callbacks sys)(n \<mapsto> None)\<rparr>)))"
  have v: "v = \<lparr>v_next = 0, v_buffer = b0, v_fusion = Some f, v_notifier = n\<rparr>"
    and sys': "sys' = new_all_latest f b0 bs sys3"
    using assms(1,4) by (auto simp: new_visitor_def Let_def sys3_def)
  have bufs: "sys_bufs sys3 = ?bufs"
    unfolding sys3_def add_notifier_frame add_buffers_bufs
    by (subst new_buffers_bufs) (use assms(2,3) in simp_all)
  have b0: "sys_bufs sys3 b0 = Some (cb_new None ?q)"
    using assms(2,3) by (simp add: bufs map_add_def)
  have others: "\<exists>q. sys_bufs sys3 b = Some (cb_new None q)" if "b \<in> set bs" for b
  proof -
    from that obtain k where k: "k < length bs" "b = bs ! k" by (auto simp: in_set_conv_nth)
    then have "map_of (zip bs (map (\<lambda>c. cb_new None (vc_queue_size c)) cs)) b =
        Some (cb_new None (vc_queue_size (cs ! k)) :: 'm option cache_buffer)"
      using assms(2,3) by (simp add: map_of_zip_nth)
    with that assms(3) show ?thesis by (auto simp: bufs map_add_def)
  qed
  have tracks: "tracks sys' bs Map.empty"
    unfolding tracks_def
  proof
    fix b
    assume b: "b \<in> set bs"
    from others [OF b] obtain q where "sys_bufs sys3 b = Some (cb_new None q)" ..
    with b assms(3) b0 have "sys_bufs sys' b = Some (cb_new None q)"
      by (auto simp: sys' new_all_latest_def)
    then show "\<exists>cb xs n. sys_bufs sys' b = Some cb \<and> cb_fusion cb = None \<and>
        history (map Some xs) n cb \<and> None = (if xs = [] then None else Some (last xs))"
      using history_new by (fastforce simp: cb_new_def)
  qed
  have b0': "sys_bufs sys' b0 = Some (cb_set_fusion f (cb_new None ?q))"
    and fo: "sys_fusions sys' f = Some \<lparr>fo_others = bs, fo_buffer = cb_new None ?q\<rparr>"
    using b0 by (simp_all add: sys' new_all_latest_def cb_new_def)
  have "\<exists>fo'. sys_fusions (fold (\<lambda>(b, m). fill_buffer b m) es sys') f = Some fo' \<and>
      history (map Some ([] @ fused b0 bs Map.empty es)) ?q (fo_buffer fo') \<and>
      sys_bufs (fold (\<lambda>(b, m). fill_buffer b m) es sys') b0 = Some (cb_set_fusion f (cb_new None ?q))"
    by (rule fusion_run [OF tracks _ b0' _ fo])
      (use assms(3,5) in \<open>auto simp: cb_set_fusion_def history_new\<close>)
  then obtain fo' where fo': "sys_fusions (fold (\<lambda>(b, m). fill_buffer b m) es sys') f = Some fo'"
    and h: "history (map Some ys) ?q (fo_buffer fo')"
    by (auto simp: assms(6))
  show ?thesis
    using assms(7) history_at [OF h, of i]
    by (auto simp: visitor_try_fetch_def fo' v try_fetch_def history_fetch [OF h] last_map)
qed

theorem visitor_fuses_witness:
  "\<exists>v sys'. new_visitor \<lparr>vc_type = 0, vc_channel = 1, vc_queue_size = 1\<rparr>
      [\<lparr>vc_type = 0, vc_channel = 2, vc_queue_size = 1\<rparr>] 10 [20] 5 6 (sys_new :: nat data_sys) = (v, sys') \<and>
    visitor_try_fetch (v\<lparr>v_next := 2\<rparr>)
      (fold (\<lambda>(b, m). fill_buffer b m) [(10, 1), (20, 2), (10, 3), (20, 4), (20, 5), (10, 6)] sys') =
      (True, v\<lparr>v_next := 3\<rparr>, [6, 5])"
proof -
  obtain v sys' where v: "new_visitor \<lparr>vc_type = 0, vc_channel = 1, vc_queue_size = 1\<rparr>
      [\<lparr>vc_type = 0, vc_channel = 2, vc_queue_size = 1\<rparr>] 10 [20] 5 6 (sys_new :: nat data_sys) = (v, sys')"
    by force
  show ?thesis
    using v visitor_fuses [OF _ _ _ v, of "[(10, 1), (20, 2), (10, 3), (20, 4), (20, 5), (10, 6)]" _ 2]
    by simp
qed

end
