(* ===== verification/Data_Stream.thy ===== *)
theory Data_Stream
  imports Cmw_Prelude
begin

text \<open>
  The tagged binary stream of \<open>serialize/data_stream.h\<close> and \<open>serialize/data_stream.cpp\<close>.
  The state is the record \<open>data_stream\<close>: the byte vector, its capacity, the read position and
  the byte order the constructor detected. The host's own byte order is the argument \<open>h\<close>
  of every operation that looks at an integer in memory. A C++ variable that a \<open>read\<close> fills
  is an \<open>option\<close>: \<open>None\<close> is an object with an indeterminate value. Reads outside the
  buffer and uses of indeterminate values are \<open>Inl\<close>.
\<close>

section \<open>Types and state\<close>

datatype data_type =
    BOOL | TCHAR | INT32 | INT64 | UINT32 | UINT64 | FLOAT | DOUBLE | ENUM
  | STRING | VECTOR | LIST | MAP | SET | CUSTOM

fun tag :: "data_type \<Rightarrow> byte" where
  "tag BOOL = 0"
| "tag TCHAR = 1"
| "tag INT32 = 2"
| "tag INT64 = 3"
| "tag UINT32 = 4"
| "tag UINT64 = 5"
| "tag FLOAT = 6"
| "tag DOUBLE = 7"
| "tag ENUM = 8"
| "tag STRING = 9"
| "tag VECTOR = 10"
| "tag LIST = 11"
| "tag MAP = 12"
| "tag SET = 13"
| "tag CUSTOM = 14"

lemma tag_inject [simp]: "tag a = tag b \<longleftrightarrow> a = b"
  by (cases a; cases b) simp_all

declare tag.simps [simp del]

record data_stream =
  m_buf :: "byte list"
  m_cap :: nat
  m_pos :: nat
  m_byteorder :: byte_order

type_synonym 'a rd = "'a option \<Rightarrow> data_stream \<Rightarrow> ub + (bool \<times> 'a option \<times> data_stream)"

section \<open>Construction and raw access\<close>

definition byteorder :: "byte_order \<Rightarrow> byte_order" where
  "byteorder h =
     (let str = host_bytes h 4 (0x12345678 :: 32 word)
      in if str ! 0 = 0x12 then BigEndian else LittleEndian)"

definition new_stream :: "byte_order \<Rightarrow> data_stream" where
  "new_stream h = \<lparr>m_buf = [], m_cap = 0, m_pos = 0, m_byteorder = byteorder h\<rparr>"

text \<open>The doubling loop of \<open>reserve\<close>; \<open>need\<close> is \<open>size + len\<close>.\<close>

function reserve_cap :: "nat \<Rightarrow> nat \<Rightarrow> nat" where
  "reserve_cap need cap =
     (if need > cap then (if cap = 0 then reserve_cap need 1 else reserve_cap need (cap * 2))
      else cap)"
  by pat_completeness auto
termination
  by (relation "measure (\<lambda>(need, cap). need - cap)") auto

declare reserve_cap.simps [simp del]

definition reserve :: "nat \<Rightarrow> data_stream \<Rightarrow> data_stream" where
  "reserve len s =
     (let size = length (m_buf s); cap = m_cap s
      in if size + len > cap then s\<lparr>m_cap := reserve_cap (size + len) cap\<rparr> else s)"

text \<open>
  \<open>m_buf.resize(n)\<close> keeps the capacity when it is large enough and otherwise reallocates; the
  \<open>memcpy\<close> then overwrites the new tail with the data.
\<close>

definition write_raw :: "byte list \<Rightarrow> data_stream \<Rightarrow> data_stream" where
  "write_raw data s =
     (let s1 = reserve (length data) s; size = length (m_buf s1);
          s2 = s1\<lparr>m_buf := m_buf s1 @ replicate (length data) 0,
                  m_cap := max (m_cap s1) (size + length data)\<rparr>
      in s2\<lparr>m_buf := take size (m_buf s2) @ data\<rparr>)"

definition stream_of :: "byte_order \<Rightarrow> byte list \<Rightarrow> data_stream" where
  "stream_of h str = write_raw str (reserve (length str) (new_stream h))"

definition peek :: "data_stream \<Rightarrow> ub + byte" where
  "peek s = (if m_pos s < length (m_buf s) then Inr (m_buf s ! m_pos s) else Inl OutOfBounds)"

definition skip :: "nat \<Rightarrow> data_stream \<Rightarrow> data_stream" where
  "skip n s = s\<lparr>m_pos := m_pos s + n\<rparr>"

definition bytes_at :: "nat \<Rightarrow> data_stream \<Rightarrow> ub + byte list" where
  "bytes_at len s =
     (if m_pos s + len \<le> length (m_buf s) then Inr (take len (drop (m_pos s) (m_buf s)))
      else Inl OutOfBounds)"

definition read_raw :: "nat \<Rightarrow> data_stream \<Rightarrow> ub + (bool \<times> byte list \<times> data_stream)" where
  "read_raw len s = sbind (bytes_at len s) (\<lambda>bs. Inr (True, bs, skip len s))"

definition ds_data :: "data_stream \<Rightarrow> byte list" where
  "ds_data s = m_buf s"

definition byte_size :: "data_stream \<Rightarrow> nat" where
  "byte_size s = length (m_buf s)"

definition ds_clear :: "data_stream \<Rightarrow> data_stream" where
  "ds_clear s = s\<lparr>m_buf := []\<rparr>"

definition ds_reset :: "data_stream \<Rightarrow> data_stream" where
  "ds_reset s = s\<lparr>m_pos := 0\<rparr>"

text \<open>\<open>save\<close> and \<open>load\<close> with the file's content as the value they exchange.\<close>

definition ds_save :: "data_stream \<Rightarrow> byte list" where
  "ds_save s = take (byte_size s) (ds_data s)"

definition ds_load :: "byte list \<Rightarrow> data_stream \<Rightarrow> data_stream" where
  "ds_load str s = write_raw str (reserve (length str) (s\<lparr>m_buf := []\<rparr>))"

section \<open>Writing scalars\<close>

definition write_bool :: "bool \<Rightarrow> data_stream \<Rightarrow> data_stream" where
  "write_bool v s = write_raw [if v then 1 else 0] (write_raw [tag BOOL] s)"

definition write_char :: "byte \<Rightarrow> data_stream \<Rightarrow> data_stream" where
  "write_char v s = write_raw [v] (write_raw [tag TCHAR] s)"

text \<open>
  The body every multi-byte overload has: the tag, then the object's memory on host \<open>h\<close>,
  reversed when the stream was set up as big-endian.
\<close>

definition write_scalar ::
    "byte_order \<Rightarrow> data_type \<Rightarrow> nat \<Rightarrow> 'a::len word \<Rightarrow> data_stream \<Rightarrow> data_stream" where
  "write_scalar h t n v s =
     (let s1 = write_raw [tag t] s; mem = host_bytes h n v;
          mem' = (if m_byteorder s1 = BigEndian then rev mem else mem)
      in write_raw mem' s1)"

definition write_int32 :: "byte_order \<Rightarrow> u32 \<Rightarrow> data_stream \<Rightarrow> data_stream" where
  "write_int32 h = write_scalar h INT32 4"

definition write_uint32 :: "byte_order \<Rightarrow> u32 \<Rightarrow> data_stream \<Rightarrow> data_stream" where
  "write_uint32 h = write_scalar h UINT32 4"

definition write_int64 :: "byte_order \<Rightarrow> u64 \<Rightarrow> data_stream \<Rightarrow> data_stream" where
  "write_int64 h = write_scalar h INT64 8"

definition write_uint64 :: "byte_order \<Rightarrow> u64 \<Rightarrow> data_stream \<Rightarrow> data_stream" where
  "write_uint64 h = write_scalar h UINT64 8"

text \<open>Floating-point values are their bit patterns.\<close>

definition write_float :: "byte_order \<Rightarrow> u32 \<Rightarrow> data_stream \<Rightarrow> data_stream" where
  "write_float h = write_scalar h FLOAT 4"

definition write_double :: "byte_order \<Rightarrow> u64 \<Rightarrow> data_stream \<Rightarrow> data_stream" where
  "write_double h = write_scalar h DOUBLE 8"

text \<open>An enumeration is written through its \<open>int32_t\<close> value.\<close>

definition write_enum :: "byte_order \<Rightarrow> ('e \<Rightarrow> u32) \<Rightarrow> 'e \<Rightarrow> data_stream \<Rightarrow> data_stream" where
  "write_enum h as_int v s = write_int32 h (as_int v) s"

section \<open>Writing strings and containers\<close>

definition write_string :: "byte_order \<Rightarrow> byte list \<Rightarrow> data_stream \<Rightarrow> data_stream" where
  "write_string h v s =
     write_raw v (write_int32 h (of_nat (length v)) (write_raw [tag STRING] s))"

text \<open>The \<open>const char*\<close> overload: \<open>mem\<close> is the memory the pointer points to.\<close>

definition write_cstr :: "byte_order \<Rightarrow> byte list \<Rightarrow> data_stream \<Rightarrow> data_stream" where
  "write_cstr h mem s =
     (let v = takeWhile (\<lambda>c. c \<noteq> 0) mem
      in write_raw v (write_int32 h (of_nat (length v)) (write_raw [tag STRING] s)))"

fun write_elems :: "('a \<Rightarrow> data_stream \<Rightarrow> data_stream) \<Rightarrow> 'a list \<Rightarrow> data_stream \<Rightarrow> data_stream" where
  "write_elems wr [] s = s"
| "write_elems wr (x # xs) s = write_elems wr xs (wr x s)"

definition write_list ::
    "byte_order \<Rightarrow> ('a \<Rightarrow> data_stream \<Rightarrow> data_stream) \<Rightarrow> 'a list \<Rightarrow> data_stream \<Rightarrow> data_stream" where
  "write_list h wr xs s =
     write_elems wr xs (write_int32 h (of_nat (length xs)) (write_raw [tag LIST] s))"

text \<open>A \<open>std::set\<close> is its elements in iteration order, a \<open>std::map\<close> its pairs.\<close>

definition write_set ::
    "byte_order \<Rightarrow> ('a \<Rightarrow> data_stream \<Rightarrow> data_stream) \<Rightarrow> 'a list \<Rightarrow> data_stream \<Rightarrow> data_stream" where
  "write_set h wr xs s =
     write_elems wr xs (write_int32 h (of_nat (length xs)) (write_raw [tag SET] s))"

definition write_map ::
    "byte_order \<Rightarrow> ('k \<Rightarrow> data_stream \<Rightarrow> data_stream) \<Rightarrow> ('v \<Rightarrow> data_stream \<Rightarrow> data_stream) \<Rightarrow>
     ('k \<times> 'v) list \<Rightarrow> data_stream \<Rightarrow> data_stream" where
  "write_map h wrk wrv kvs s =
     write_elems (\<lambda>(k, v) s. wrv v (wrk k s)) kvs
       (write_int32 h (of_nat (length kvs)) (write_raw [tag MAP] s))"

text \<open>
  A \<open>std::vector<T>\<close> is written as \<open>value.size()\<close> bytes of the memory that holds the
  elements; \<open>repr\<close> is the object representation of one element.
\<close>

definition write_vector ::
    "byte_order \<Rightarrow> ('a \<Rightarrow> byte list) \<Rightarrow> 'a list \<Rightarrow> data_stream \<Rightarrow> data_stream" where
  "write_vector h repr xs s =
     (let s1 = write_int32 h (of_nat (length xs)) (write_raw [tag VECTOR] s);
          char_ptr = concat (map repr xs)
      in write_raw (take (length xs) char_ptr) s1)"

text \<open>\<open>write_args\<close> folds the overloads over the arguments; an argument is its \<open>write\<close> call.\<close>

fun write_args :: "(data_stream \<Rightarrow> data_stream) list \<Rightarrow> data_stream \<Rightarrow> data_stream" where
  "write_args [] s = s"
| "write_args (head # args) s = write_args args (head s)"

text \<open>The \<open>serialize\<close> member the \<open>SERIALIZE\<close> macro generates.\<close>

definition serialize :: "(data_stream \<Rightarrow> data_stream) list \<Rightarrow> data_stream \<Rightarrow> data_stream" where
  "serialize flds s = write_args flds (write_raw [tag CUSTOM] s)"


section \<open>Reading scalars\<close>

definition read_tag :: "data_type \<Rightarrow> data_stream \<Rightarrow> ub + (bool \<times> data_stream)" where
  "read_tag t s =
     sbind (peek s) (\<lambda>b. if b \<noteq> tag t then Inr (False, s) else Inr (True, skip 1 s))"

definition read_bool :: "bool rd" where
  "read_bool v s = sbind (read_tag BOOL s) (\<lambda>(ok, s1).
     if \<not> ok then Inr (False, v, s1)
     else sbind (peek s1) (\<lambda>b. Inr (True, Some (b \<noteq> 0), skip 1 s1)))"

definition read_char :: "byte rd" where
  "read_char v s = sbind (read_tag TCHAR s) (\<lambda>(ok, s1).
     if \<not> ok then Inr (False, v, s1)
     else sbind (peek s1) (\<lambda>b. Inr (True, Some b, skip 1 s1)))"

text \<open>
  The body every multi-byte overload has: the object's memory is loaded on host \<open>h\<close> and
  reversed when the stream was set up as big-endian.
\<close>

definition read_scalar :: "byte_order \<Rightarrow> data_type \<Rightarrow> nat \<Rightarrow> ('a::len word) rd" where
  "read_scalar h t n v s = sbind (read_tag t s) (\<lambda>(ok, s1).
     if \<not> ok then Inr (False, v, s1)
     else sbind (bytes_at n s1) (\<lambda>bs.
       let mem = (if m_byteorder s1 = BigEndian then rev bs else bs)
       in Inr (True, Some (of_host_bytes h mem), skip n s1)))"

definition read_int32 :: "byte_order \<Rightarrow> u32 rd" where
  "read_int32 h = read_scalar h INT32 4"

definition read_uint32 :: "byte_order \<Rightarrow> u32 rd" where
  "read_uint32 h = read_scalar h UINT32 4"

definition read_int64 :: "byte_order \<Rightarrow> u64 rd" where
  "read_int64 h = read_scalar h INT64 8"

definition read_uint64 :: "byte_order \<Rightarrow> u64 rd" where
  "read_uint64 h = read_scalar h UINT64 8"

definition read_float :: "byte_order \<Rightarrow> u32 rd" where
  "read_float h = read_scalar h FLOAT 4"

definition read_double :: "byte_order \<Rightarrow> u64 rd" where
  "read_double h = read_scalar h DOUBLE 8"

text \<open>The variable of an enumeration type is filled through an \<open>int32_t\<close> reference.\<close>

definition read_enum :: "byte_order \<Rightarrow> ('e \<Rightarrow> u32) \<Rightarrow> (u32 \<Rightarrow> 'e) \<Rightarrow> 'e rd" where
  "read_enum h as_int from_int v s =
     sbind (read_int32 h (map_option as_int v) s)
       (\<lambda>(ok, i, s1). Inr (ok, map_option from_int i, s1))"

section \<open>Reading strings and containers\<close>

text \<open>\<open>int len; read(len);\<close>: \<open>len\<close> is indeterminate when the tag does not match.\<close>

definition read_len :: "byte_order \<Rightarrow> data_stream \<Rightarrow> ub + (int \<times> data_stream)" where
  "read_len h s = sbind (read_int32 h None s) (\<lambda>(ok, len, s1).
     case len of None \<Rightarrow> Inl Indeterminate | Some l \<Rightarrow> Inr (sint l, s1))"

definition read_string :: "byte_order \<Rightarrow> byte list rd" where
  "read_string h v s = sbind (read_tag STRING s) (\<lambda>(ok, s1).
     if \<not> ok then Inr (False, v, s1)
     else sbind (read_len h s1) (\<lambda>(len, s2).
       if len < 0 then Inr (False, v, s2)
       else sbind (bytes_at (nat len) s2) (\<lambda>bs. Inr (True, Some bs, skip (nat len) s2))))"

text \<open>
  The loop of the list and set templates: \<open>T v; read(v); use(v)\<close>, the result of \<open>read\<close>
  ignored. \<open>dflt\<close> is what \<open>T v;\<close> leaves: \<open>None\<close> for a scalar type.
\<close>

fun read_elems :: "'a option \<Rightarrow> 'a rd \<Rightarrow> ('a \<Rightarrow> 'c \<Rightarrow> 'c) \<Rightarrow> nat \<Rightarrow> 'c \<Rightarrow> data_stream \<Rightarrow>
    ub + ('c \<times> data_stream)" where
  "read_elems dflt rd add 0 c s = Inr (c, s)"
| "read_elems dflt rd add (Suc n) c s = sbind (rd dflt s) (\<lambda>(ok, v, s1).
     case v of None \<Rightarrow> Inl Indeterminate
     | Some x \<Rightarrow> read_elems dflt rd add n (add x c) s1)"

definition read_container :: "byte_order \<Rightarrow> data_type \<Rightarrow> 'a option \<Rightarrow> 'a rd \<Rightarrow> ('a \<Rightarrow> 'c \<Rightarrow> 'c) \<Rightarrow>
    'c \<Rightarrow> data_stream \<Rightarrow> ub + (bool \<times> 'c option \<times> data_stream)" where
  "read_container h t dflt rd add c0 s = sbind (read_tag t s) (\<lambda>(ok, s1).
     if \<not> ok then Inr (False, Some c0, s1)
     else sbind (read_len h s1) (\<lambda>(len, s2).
       sbind (read_elems dflt rd add (nat len) c0 s2) (\<lambda>(c, s3). Inr (True, Some c, s3))))"

definition read_list :: "byte_order \<Rightarrow> 'a option \<Rightarrow> 'a rd \<Rightarrow> 'a list rd" where
  "read_list h dflt rd v s = read_container h LIST dflt rd (\<lambda>x xs. xs @ [x]) [] s"

text \<open>\<open>std::set::insert\<close> and \<open>std::map::operator[]\<close> on the in-order sequence.\<close>

fun set_insert :: "'a::linorder \<Rightarrow> 'a list \<Rightarrow> 'a list" where
  "set_insert x [] = [x]"
| "set_insert x (y # ys) =
     (if x < y then x # y # ys else if x = y then y # ys else y # set_insert x ys)"

fun map_assign :: "'k::linorder \<Rightarrow> 'v \<Rightarrow> ('k \<times> 'v) list \<Rightarrow> ('k \<times> 'v) list" where
  "map_assign k v [] = [(k, v)]"
| "map_assign k v ((k', v') # m) =
     (if k < k' then (k, v) # (k', v') # m
      else if k = k' then (k', v) # m else (k', v') # map_assign k v m)"

definition read_set :: "byte_order \<Rightarrow> 'a::linorder option \<Rightarrow> 'a rd \<Rightarrow> 'a list rd" where
  "read_set h dflt rd v s = read_container h SET dflt rd set_insert [] s"

text \<open>One turn of the map loop reads a key and a value.\<close>

definition read_pair :: "'k option \<Rightarrow> 'k rd \<Rightarrow> 'v option \<Rightarrow> 'v rd \<Rightarrow> ('k \<times> 'v) rd" where
  "read_pair dk rdk dv rdv v s = sbind (rdk dk s) (\<lambda>(ok1, k, s1).
     sbind (rdv dv s1) (\<lambda>(ok2, w, s2).
       Inr (True, (case (k, w) of (Some k', Some w') \<Rightarrow> Some (k', w') | _ \<Rightarrow> None), s2)))"

definition read_map :: "byte_order \<Rightarrow> 'k::linorder option \<Rightarrow> 'k rd \<Rightarrow> 'v option \<Rightarrow> 'v rd \<Rightarrow>
    ('k \<times> 'v) list rd" where
  "read_map h dk rdk dv rdv v s =
     read_container h MAP None (read_pair dk rdk dv rdv) (\<lambda>(k, w). map_assign k w) [] s"

text \<open>
  A \<open>std::vector<T>\<close> is resized to \<open>len\<close> value-initialised elements (all bytes zero) and
  \<open>len\<close> bytes are copied over the memory of the elements; \<open>sz\<close> is \<open>sizeof(T)\<close> and
  \<open>unrepr\<close> reads one element from its representation.
\<close>

definition chunks :: "nat \<Rightarrow> nat \<Rightarrow> 'a list \<Rightarrow> 'a list list" where
  "chunks sz n mem = map (\<lambda>i. take sz (drop (i * sz) mem)) [0..<n]"

definition read_vector :: "byte_order \<Rightarrow> nat \<Rightarrow> (byte list \<Rightarrow> 'a) \<Rightarrow> 'a list rd" where
  "read_vector h sz unrepr v s = sbind (read_tag VECTOR s) (\<lambda>(ok, s1).
     if \<not> ok then Inr (False, Some [], s1)
     else sbind (read_len h s1) (\<lambda>(len, s2).
       if len < 0 then Inl LengthError
       else let n = nat len; zeros = replicate (n * sz) 0
         in sbind (bytes_at n s2) (\<lambda>bs.
           Inr (True, Some (map unrepr (chunks sz n (bs @ drop n zeros))), skip n s2))))"

text \<open>
  \<open>read_args\<close> reads field after field of an object, ignoring the results; a field is its
  \<open>read\<close> call on the object. \<open>unserialize\<close> is the member the \<open>SERIALIZE\<close> macro
  generates: its tag is read raw, so it is consumed also when it does not match.
\<close>

type_synonym 'r field_rd = "'r \<Rightarrow> data_stream \<Rightarrow> ub + ('r \<times> data_stream)"

fun read_args :: "'r field_rd list \<Rightarrow> 'r \<Rightarrow> data_stream \<Rightarrow> ub + (bool \<times> 'r \<times> data_stream)" where
  "read_args [] r s = Inr (True, r, s)"
| "read_args (head # args) r s = sbind (head r s) (\<lambda>(r1, s1). read_args args r1 s1)"

definition unserialize :: "'r field_rd list \<Rightarrow> 'r \<Rightarrow> data_stream \<Rightarrow> ub + (bool \<times> 'r \<times> data_stream)" where
  "unserialize flds r s = sbind (read_raw 1 s) (\<lambda>(ok, ty, s1).
     if ty \<noteq> [tag CUSTOM] then Inr (False, r, s1)
     else sbind (read_args flds r s1) (\<lambda>(ok, r1, s2). Inr (True, r1, s2)))"

text \<open>The stream operators call the overload and return the stream.\<close>

definition shift_left :: "('a \<Rightarrow> data_stream \<Rightarrow> data_stream) \<Rightarrow> data_stream \<Rightarrow> 'a \<Rightarrow> data_stream" where
  "shift_left wr s v = wr v s"

definition shift_right :: "'a rd \<Rightarrow> data_stream \<Rightarrow> 'a option \<Rightarrow> ub + ('a option \<times> data_stream)" where
  "shift_right rd s v = sbind (rd v s) (\<lambda>(ok, v1, s1). Inr (v1, s1))"


section \<open>Printing\<close>

text \<open>
  \<open>show\<close> walks over the buffer; integers are printed as the host reads them. One turn of its
  loop yields what is printed and the next index, a run with \<open>fuel\<close> turns yields \<open>None\<close>
  when the loop has not ended by then.
\<close>

datatype shown =
    ShBool bool | ShChar byte | ShInt32 u32 | ShInt64 u64 | ShFloat u32 | ShDouble u64
  | ShString "byte list" | ShNothing

definition buf_at :: "byte list \<Rightarrow> nat \<Rightarrow> nat \<Rightarrow> ub + byte list" where
  "buf_at buf i n = (if i + n \<le> length buf then Inr (take n (drop i buf)) else Inl OutOfBounds)"

definition show_counted :: "byte_order \<Rightarrow> byte list \<Rightarrow> nat \<Rightarrow> ub + (int \<times> nat)" where
  "show_counted h buf i = sbind (buf_at buf (i + 1) 1) (\<lambda>b.
     if b = [tag INT32]
     then sbind (buf_at buf (i + 2) 4) (\<lambda>l. Inr (sint (of_host_bytes h l :: u32), i + 6))
     else Inl LogicError)"

definition show_step :: "byte_order \<Rightarrow> byte list \<Rightarrow> nat \<Rightarrow> ub + (shown \<times> nat)" where
  "show_step h buf i = sbind (buf_at buf i 1) (\<lambda>ty.
     if ty = [tag BOOL] then
       sbind (buf_at buf (i + 1) 1) (\<lambda>b. Inr (ShBool (b \<noteq> [0]), i + 2))
     else if ty = [tag TCHAR] then
       sbind (buf_at buf (i + 1) 1) (\<lambda>b. Inr (ShChar (hd b), i + 2))
     else if ty = [tag INT32] then
       sbind (buf_at buf (i + 1) 4) (\<lambda>b. Inr (ShInt32 (of_host_bytes h b), i + 5))
     else if ty = [tag INT64] then
       sbind (buf_at buf (i + 1) 8) (\<lambda>b. Inr (ShInt64 (of_host_bytes h b), i + 9))
     else if ty = [tag FLOAT] then
       sbind (buf_at buf (i + 1) 4) (\<lambda>b. Inr (ShFloat (of_host_bytes h b), i + 5))
     else if ty = [tag DOUBLE] then
       sbind (buf_at buf (i + 1) 8) (\<lambda>b. Inr (ShDouble (of_host_bytes h b), i + 9))
     else if ty = [tag STRING] then
       sbind (show_counted h buf i) (\<lambda>(len, j).
         if len < 0 then Inl LengthError
         else sbind (buf_at buf j (nat len)) (\<lambda>str. Inr (ShString str, j + nat len)))
     else if ty = [tag VECTOR] \<or> ty = [tag MAP] \<or> ty = [tag SET] then
       sbind (show_counted h buf i) (\<lambda>(len, j). Inr (ShNothing, j))
     else Inr (ShNothing, i))"

fun show_run :: "byte_order \<Rightarrow> nat \<Rightarrow> byte list \<Rightarrow> nat \<Rightarrow> shown list \<Rightarrow> (ub + shown list) option" where
  "show_run h 0 buf i out = (if i < length buf then None else Some (Inr out))"
| "show_run h (Suc fuel) buf i out =
     (if i < length buf
      then (case show_step h buf i of Inl e \<Rightarrow> Some (Inl e)
            | Inr (x, j) \<Rightarrow> show_run h fuel buf j (out @ [x]))
      else Some (Inr out))"

end
