(* ===== verification/Stream_Codec.thy ===== *)
theory Stream_Codec
  imports Data_Stream "HOL-Library.List_Lexorder"
begin

text \<open>
  Laws of the stream of \<open>Data_Stream\<close>: what every \<open>write\<close> appends, what every
  \<open>read\<close> recovers, and the contract \<open>codec\<close> under which the container templates
  are proved to invert each other. The writer and the reader may run on hosts of different byte
  order. The wire format of a scalar is little-endian on every host.
\<close>

section \<open>The raw layer\<close>

definition stream_ok :: "data_stream \<Rightarrow> bool" where
  "stream_ok s \<longleftrightarrow> length (m_buf s) \<le> m_cap s"

definition at_stream :: "byte list \<Rightarrow> data_stream \<Rightarrow> bool" where
  "at_stream bs s \<longleftrightarrow>
     m_pos s + length bs \<le> length (m_buf s) \<and> take (length bs) (drop (m_pos s) (m_buf s)) = bs"

lemma byteorder_host: "byteorder h = h"
  by (cases h) (simp_all add: byteorder_def host_bytes_def le_bytes_def upt_rec Let_def)

lemma reserve_cap_ge: "need \<le> reserve_cap need cap"
proof (induction need cap rule: reserve_cap.induct)
  case (1 need cap)
  then show ?case
    by (cases "need > cap") (auto simp: reserve_cap.simps [of need cap])
qed

lemma reserve_cap_bound: "cap \<le> 2 * need \<Longrightarrow> reserve_cap need cap \<le> 2 * need"
proof (induction need cap rule: reserve_cap.induct)
  case (1 need cap)
  then show ?case
    by (cases "need > cap") (auto simp: reserve_cap.simps [of need cap])
qed

lemma reserve_frame [simp]:
  "m_buf (reserve n s) = m_buf s" "m_pos (reserve n s) = m_pos s"
  "m_byteorder (reserve n s) = m_byteorder s"
  by (simp_all add: reserve_def Let_def)

lemma reserve_capacity: "length (m_buf s) + n \<le> m_cap (reserve n s)"
  by (auto simp: reserve_def Let_def not_less intro: order_trans [OF _ reserve_cap_ge])

lemma write_raw_buf [stream_laws]: "m_buf (write_raw bs s) = m_buf s @ bs"
  by (simp add: write_raw_def Let_def)

lemma write_raw_frame [stream_laws]:
  "m_pos (write_raw bs s) = m_pos s" "m_byteorder (write_raw bs s) = m_byteorder s"
  by (simp_all add: write_raw_def Let_def)

lemma write_raw_cap: "m_cap (write_raw bs s) = m_cap (reserve (length bs) s)"
  using reserve_capacity [of s "length bs"] by (simp add: write_raw_def Let_def max_def)

lemma write_raw_ok [stream_laws]: "stream_ok (write_raw bs s)"
  using reserve_capacity [of s "length bs"]
  by (simp add: stream_ok_def write_raw_buf write_raw_cap)

lemma skip_frame [simp]:
  "m_buf (skip n s) = m_buf s" "m_pos (skip n s) = m_pos s + n"
  "m_byteorder (skip n s) = m_byteorder s" "m_cap (skip n s) = m_cap s"
  by (simp_all add: skip_def)

lemma skip_skip [simp]: "skip m (skip n s) = skip (n + m) s"
  by (simp add: skip_def add.assoc)

lemma skip_0 [simp]: "skip 0 s = s"
  by (simp add: skip_def)

lemma at_stream_append:
  "at_stream (xs @ ys) s \<longleftrightarrow> at_stream xs s \<and> at_stream ys (skip (length xs) s)"
proof
  assume a: "at_stream (xs @ ys) s"
  then have "take (length xs + length ys) (drop (m_pos s) (m_buf s)) = xs @ ys"
    and len: "m_pos s + (length xs + length ys) \<le> length (m_buf s)"
    by (simp_all add: at_stream_def)
  then have "take (length xs) (drop (m_pos s) (m_buf s)) @
      take (length ys) (drop (length xs) (drop (m_pos s) (m_buf s))) = xs @ ys"
    by (simp add: take_add)
  then have "take (length xs) (drop (m_pos s) (m_buf s)) = xs
      \<and> take (length ys) (drop (length xs) (drop (m_pos s) (m_buf s))) = ys"
    using len by (subst (asm) append_eq_append_conv) auto
  then show "at_stream xs s \<and> at_stream ys (skip (length xs) s)"
    using len by (auto simp: at_stream_def add.commute)
next
  assume "at_stream xs s \<and> at_stream ys (skip (length xs) s)"
  then show "at_stream (xs @ ys) s"
    by (auto simp: at_stream_def take_add add.commute add.left_commute)
qed

lemma at_stream_Cons:
  "at_stream (b # bs) s \<longleftrightarrow> peek s = Inr b \<and> at_stream bs (skip 1 s)"
proof -
  have "at_stream [b] s \<longleftrightarrow> peek s = Inr b"
    by (auto simp: at_stream_def peek_def take_Suc_conv_app_nth hd_drop_conv_nth take_Suc
        split: if_splits)
  then show ?thesis using at_stream_append [of "[b]" bs s] by simp
qed

lemma bytes_at_stream: "at_stream bs s \<Longrightarrow> bytes_at (length bs) s = Inr bs"
  by (simp add: bytes_at_def at_stream_def)

lemma read_tag_at: "at_stream (tag t # bs) s \<Longrightarrow> read_tag t s = Inr (True, skip 1 s)"
  by (simp add: read_tag_def at_stream_Cons)

lemma read_tag_mismatch:
  "peek s = Inr b \<Longrightarrow> b \<noteq> tag t \<Longrightarrow> read_tag t s = Inr (False, s)"
  by (simp add: read_tag_def)


section \<open>The wire format\<close>

definition enc_scalar :: "data_type \<Rightarrow> nat \<Rightarrow> 'a::len word \<Rightarrow> byte list" where
  "enc_scalar t n w = tag t # le_bytes n w"

definition enc_len :: "nat \<Rightarrow> byte list" where
  "enc_len n = enc_scalar INT32 4 (of_nat n :: u32)"

definition enc_bool :: "bool \<Rightarrow> byte list" where
  "enc_bool b = [tag BOOL, if b then 1 else 0]"

definition enc_char :: "byte \<Rightarrow> byte list" where
  "enc_char c = [tag TCHAR, c]"

definition enc_string :: "byte list \<Rightarrow> byte list" where
  "enc_string v = tag STRING # enc_len (length v) @ v"

definition enc_container :: "data_type \<Rightarrow> ('a \<Rightarrow> byte list) \<Rightarrow> 'a list \<Rightarrow> byte list" where
  "enc_container t enc xs = tag t # enc_len (length xs) @ concat (map enc xs)"

lemma length_enc_scalar [simp]: "length (enc_scalar t n w) = Suc n"
  by (simp add: enc_scalar_def)

lemma length_enc_len [simp]: "length (enc_len n) = 5"
  by (simp add: enc_len_def)

section \<open>The contract of a pair of overloads\<close>

text \<open>
  \<open>wr\<close> runs on host \<open>hw\<close> and appends \<open>enc x\<close>; \<open>rd\<close> runs on host \<open>hr\<close> and,
  where the stream holds \<open>enc x\<close>, delivers \<open>x\<close> and moves behind it, for the values
  \<open>x\<close> with \<open>okv x\<close> (sizes that fit an \<open>int\<close>).
\<close>

locale codec =
  fixes hw hr :: byte_order
    and wr :: "'a \<Rightarrow> data_stream \<Rightarrow> data_stream"
    and rd :: "'a rd"
    and enc :: "'a \<Rightarrow> byte list"
    and okv :: "'a \<Rightarrow> bool"
  assumes wr_buf: "m_byteorder s = hw \<Longrightarrow> m_buf (wr x s) = m_buf s @ enc x"
    and wr_pos: "m_byteorder s = hw \<Longrightarrow> m_pos (wr x s) = m_pos s"
    and wr_order: "m_byteorder s = hw \<Longrightarrow> m_byteorder (wr x s) = m_byteorder s"
    and rd_enc: "m_byteorder s = hr \<Longrightarrow> okv x \<Longrightarrow> at_stream (enc x) s \<Longrightarrow>
      rd v s = Inr (True, Some x, skip (length (enc x)) s)"
begin

lemmas wr_laws = wr_buf wr_pos wr_order

lemma write_elems_laws:
  assumes "m_byteorder s = hw"
  shows "m_buf (write_elems wr xs s) = m_buf s @ concat (map enc xs)"
    and "m_pos (write_elems wr xs s) = m_pos s"
    and "m_byteorder (write_elems wr xs s) = m_byteorder s"
  using assms by (induction xs arbitrary: s) (simp_all add: wr_laws)

lemma read_elems_enc:
  assumes "m_byteorder s = hr" and "list_all okv xs" and "at_stream (concat (map enc xs)) s"
  shows "read_elems dflt rd add (length xs) c s =
    Inr (fold add xs c, skip (length (concat (map enc xs))) s)"
  using assms
proof (induction xs arbitrary: c s)
  case Nil
  then show ?case by simp
next
  case (Cons x xs)
  then have "rd dflt s = Inr (True, Some x, skip (length (enc x)) s)"
    by (intro rd_enc) (simp_all add: at_stream_append)
  with Cons show ?case by (simp add: at_stream_append add.commute)
qed

text \<open>Writing on one host and reading the bytes back on another returns the value.\<close>

lemma round_trip:
  assumes "okv x"
  shows "rd v (stream_of hr (m_buf (wr x (new_stream hw)))) =
    Inr (True, Some x, skip (length (enc x)) (stream_of hr (enc x)))"
proof -
  have "m_buf (wr x (new_stream hw)) = enc x"
    by (simp add: wr_buf new_stream_def byteorder_host)
  moreover have "at_stream (enc x) (stream_of hr (enc x))"
    by (simp add: at_stream_def stream_of_def stream_laws new_stream_def)
  moreover have "m_byteorder (stream_of hr (enc x)) = hr"
    by (simp add: stream_of_def stream_laws new_stream_def byteorder_host)
  ultimately show ?thesis using rd_enc [of "stream_of hr (enc x)" x v] assms by simp
qed

end

section \<open>Scalars meet the contract\<close>

lemma write_scalar_laws [stream_laws]:
  assumes "m_byteorder s = h"
  shows "m_buf (write_scalar h t n v s) = m_buf s @ enc_scalar t n v"
    and "m_pos (write_scalar h t n v s) = m_pos s"
    and "m_byteorder (write_scalar h t n v s) = m_byteorder s"
  using assms
  by (simp_all add: write_scalar_def Let_def stream_laws enc_scalar_def host_bytes_def
      split: byte_order.split)

lemma read_scalar_at:
  assumes "LENGTH('a::len) = 8 * n" and "m_byteorder s = h" and "at_stream (enc_scalar t n w) s"
  shows "read_scalar h t n v s = Inr (True, Some (w :: 'a word), skip (Suc n) s)"
proof -
  from assms(3) have hd: "read_tag t s = Inr (True, skip 1 s)"
    and tl: "at_stream (le_bytes n w) (skip 1 s)"
    by (auto simp: enc_scalar_def read_tag_at at_stream_Cons)
  from bytes_at_stream [OF tl] have "bytes_at n (skip 1 s) = Inr (le_bytes n w)" by simp
  moreover have "of_host_bytes h (if h = BigEndian then rev (le_bytes n w) else le_bytes n w) = w"
    using of_le_bytes_le_bytes [OF assms(1), of w]
    by (cases h) (simp_all add: of_host_bytes_def)
  ultimately show ?thesis
    using hd assms(2) by (simp add: read_scalar_def Let_def)
qed

lemma read_len_at:
  assumes "m_byteorder s = h" and "at_stream (enc_len n) s" and "n < 2 ^ 31"
  shows "read_len h s = Inr (int n, skip 5 s)"
proof -
  have "read_int32 h None s = Inr (True, Some (of_nat n), skip 5 s)"
    using read_scalar_at [where 'a = 32, of 4 s h INT32] assms(1,2)
    by (simp add: read_int32_def enc_len_def)
  moreover have "sint (of_nat n :: u32) = int n"
    using assms(3) by (simp add: signed_of_nat signed_take_bit_int_eq_self)
  ultimately show ?thesis by (simp add: read_len_def)
qed

interpretation int32_codec: codec hw hr "write_int32 hw" "read_int32 hr"
    "enc_scalar INT32 4" "\<lambda>_. True" for hw hr
  by unfold_locales (simp_all add: write_int32_def read_int32_def stream_laws read_scalar_at)

interpretation uint32_codec: codec hw hr "write_uint32 hw" "read_uint32 hr"
    "enc_scalar UINT32 4" "\<lambda>_. True" for hw hr
  by unfold_locales (simp_all add: write_uint32_def read_uint32_def stream_laws read_scalar_at)

interpretation int64_codec: codec hw hr "write_int64 hw" "read_int64 hr"
    "enc_scalar INT64 8" "\<lambda>_. True" for hw hr
  by unfold_locales (simp_all add: write_int64_def read_int64_def stream_laws read_scalar_at)

interpretation uint64_codec: codec hw hr "write_uint64 hw" "read_uint64 hr"
    "enc_scalar UINT64 8" "\<lambda>_. True" for hw hr
  by unfold_locales (simp_all add: write_uint64_def read_uint64_def stream_laws read_scalar_at)

interpretation float_codec: codec hw hr "write_float hw" "read_float hr"
    "enc_scalar FLOAT 4" "\<lambda>_. True" for hw hr
  by unfold_locales (simp_all add: write_float_def read_float_def stream_laws read_scalar_at)

interpretation double_codec: codec hw hr "write_double hw" "read_double hr"
    "enc_scalar DOUBLE 8" "\<lambda>_. True" for hw hr
  by unfold_locales (simp_all add: write_double_def read_double_def stream_laws read_scalar_at)

interpretation bool_codec: codec hw hr write_bool read_bool enc_bool "\<lambda>_. True" for hw hr
  by unfold_locales
    (auto simp: write_bool_def read_bool_def enc_bool_def stream_laws at_stream_Cons read_tag_def)

interpretation char_codec: codec hw hr write_char read_char enc_char "\<lambda>_. True" for hw hr
  by unfold_locales
    (auto simp: write_char_def read_char_def enc_char_def stream_laws at_stream_Cons read_tag_def)

section \<open>Strings meet the contract\<close>

lemma write_int32_len:
  assumes "m_byteorder s = h"
  shows "m_buf (write_int32 h (of_nat n) s) = m_buf s @ enc_len n"
    and "m_pos (write_int32 h (of_nat n) s) = m_pos s"
    and "m_byteorder (write_int32 h (of_nat n) s) = m_byteorder s"
  using assms by (simp_all add: write_int32_def enc_len_def stream_laws)

lemma read_string_at:
  assumes "m_byteorder s = h" and "length x < 2 ^ 31" and "at_stream (enc_string x) s"
  shows "read_string h v s = Inr (True, Some x, skip (length (enc_string x)) s)"
proof -
  from assms(3) have hd: "read_tag STRING s = Inr (True, skip 1 s)"
    and tl: "at_stream (enc_len (length x) @ x) (skip 1 s)"
    by (auto simp: enc_string_def read_tag_at at_stream_Cons)
  from tl have l: "at_stream (enc_len (length x)) (skip 1 s)"
    and b: "at_stream x (skip 6 s)"
    by (simp_all add: at_stream_append)
  have "read_len h (skip 1 s) = Inr (int (length x), skip 6 s)"
    using read_len_at [OF _ l assms(2), of h] assms(1) by simp
  then show ?thesis
    using hd bytes_at_stream [OF b] by (simp add: read_string_def enc_string_def)
qed

interpretation string_codec: codec hw hr "write_string hw" "read_string hr"
    enc_string "\<lambda>x. length x < 2 ^ 31" for hw hr
  by unfold_locales
    (simp_all add: write_string_def stream_laws write_int32_len enc_string_def
      read_string_at [unfolded enc_string_def])


section \<open>Containers over a codec\<close>

lemma fold_snoc: "fold (\<lambda>x xs. xs @ [x]) ys xs = xs @ ys"
  by (induction ys arbitrary: xs) simp_all

context codec
begin

lemma write_container_laws:
  assumes "m_byteorder s = hw"
  shows "m_buf (write_elems wr xs (write_int32 hw (of_nat (length xs)) (write_raw [tag t] s))) =
      m_buf s @ enc_container t enc xs"
    and "m_pos (write_elems wr xs (write_int32 hw (of_nat (length xs)) (write_raw [tag t] s))) =
      m_pos s"
    and "m_byteorder (write_elems wr xs (write_int32 hw (of_nat (length xs)) (write_raw [tag t] s))) =
      m_byteorder s"
  using assms
  by (simp_all add: write_elems_laws write_int32_len stream_laws enc_container_def)

lemma read_container_enc:
  assumes "m_byteorder s = hr" and "length xs < 2 ^ 31" and "list_all okv xs"
    and "at_stream (enc_container t enc xs) s"
  shows "read_container hr t dflt rd add c0 s =
    Inr (True, Some (fold add xs c0), skip (length (enc_container t enc xs)) s)"
proof -
  from assms(4) have hd: "read_tag t s = Inr (True, skip 1 s)"
    and tl: "at_stream (enc_len (length xs) @ concat (map enc xs)) (skip 1 s)"
    by (auto simp: enc_container_def read_tag_at at_stream_Cons)
  from tl have l: "at_stream (enc_len (length xs)) (skip 1 s)"
    and b: "at_stream (concat (map enc xs)) (skip 6 s)"
    by (simp_all add: at_stream_append)
  have "read_len hr (skip 1 s) = Inr (int (length xs), skip 6 s)"
    using read_len_at [OF _ l assms(2), of hr] assms(1) by simp
  moreover have "read_elems dflt rd add (length xs) c0 (skip 6 s) =
      Inr (fold add xs c0, skip (length (concat (map enc xs))) (skip 6 s))"
    by (rule read_elems_enc) (simp_all add: assms b)
  ultimately show ?thesis
    using hd by (simp add: read_container_def enc_container_def)
qed

lemma list_is_codec:
  "codec hw hr (write_list hw wr) (read_list hr dflt rd) (enc_container LIST enc)
     (\<lambda>xs. length xs < 2 ^ 31 \<and> list_all okv xs)"
proof (unfold_locales, goal_cases)
  case (4 s x v)
  then show ?case
    using read_container_enc [of s x LIST dflt "\<lambda>x xs. xs @ [x]" "[]"]
    by (simp add: read_list_def fold_snoc)
qed (simp_all add: write_list_def write_container_laws)

end

lemma set_insert_last: "sorted_wrt (<) (xs @ [x]) \<Longrightarrow> set_insert x xs = xs @ [x]"
  by (induction xs) (auto simp: sorted_wrt_append)

lemma fold_set_insert: "sorted_wrt (<) (ys @ xs) \<Longrightarrow> fold set_insert xs ys = ys @ xs"
proof (induction xs arbitrary: ys)
  case Nil
  then show ?case by simp
next
  case (Cons x xs)
  then have "sorted_wrt (<) (ys @ [x])" and "sorted_wrt (<) ((ys @ [x]) @ xs)"
    by (auto simp: sorted_wrt_append)
  with Cons.IH [of "ys @ [x]"] show ?case by (simp add: set_insert_last)
qed

lemma map_assign_last:
  "sorted_wrt (<) (map fst (m @ [(k, v)])) \<Longrightarrow> map_assign k v m = m @ [(k, v)]"
  by (induction m rule: map_assign.induct) (auto simp: sorted_wrt_append)

lemma fold_map_assign:
  "sorted_wrt (<) (map fst (m @ kvs)) \<Longrightarrow> fold (\<lambda>(k, v). map_assign k v) kvs m = m @ kvs"
proof (induction kvs arbitrary: m)
  case Nil
  then show ?case by simp
next
  case (Cons kv kvs)
  obtain k v where kv: "kv = (k, v)" by (cases kv)
  from Cons.prems have "sorted_wrt (<) (map fst (m @ [(k, v)]))"
    and "sorted_wrt (<) (map fst ((m @ [(k, v)]) @ kvs))"
    by (auto simp: sorted_wrt_append kv)
  with Cons.IH [of "m @ [(k, v)]"] show ?case by (simp add: map_assign_last kv)
qed

text \<open>The set template needs ordered elements; its image is the strictly ascending sequences.\<close>

locale ordered_codec = codec hw hr wr rd enc okv
  for hw hr and wr :: "'a::linorder \<Rightarrow> data_stream \<Rightarrow> data_stream" and rd enc okv
begin

lemma set_is_codec:
  "codec hw hr (write_set hw wr) (read_set hr dflt rd) (enc_container SET enc)
     (\<lambda>xs. length xs < 2 ^ 31 \<and> list_all okv xs \<and> sorted_wrt (<) xs)"
proof (unfold_locales, goal_cases)
  case (4 s x v)
  then show ?case
    using read_container_enc [of s x SET dflt set_insert "[]"]
    by (simp add: read_set_def fold_set_insert)
qed (simp_all add: write_set_def write_container_laws)

end

text \<open>A pair of overloads, for the two reads of one turn of the map loop.\<close>

locale map_codec = k: codec hw hr wrk rdk enck okk + v: codec hw hr wrv rdv encv okvv
  for hw hr and wrk :: "'k::linorder \<Rightarrow> data_stream \<Rightarrow> data_stream" and rdk enck okk
    and wrv :: "'v \<Rightarrow> data_stream \<Rightarrow> data_stream" and rdv encv okvv
begin

lemma read_pair_enc:
  assumes "m_byteorder s = hr" and "okk (fst x)" and "okvv (snd x)"
    and "at_stream (enck (fst x) @ encv (snd x)) s"
  shows "read_pair dk rdk dv rdv w s =
    Inr (True, Some x, skip (length (enck (fst x) @ encv (snd x))) s)"
proof -
  from assms have "rdk dk s = Inr (True, Some (fst x), skip (length (enck (fst x))) s)"
    by (intro k.rd_enc) (simp_all add: at_stream_append)
  moreover from assms have "rdv dv (skip (length (enck (fst x))) s) =
      Inr (True, Some (snd x), skip (length (encv (snd x))) (skip (length (enck (fst x))) s))"
    by (intro v.rd_enc) (simp_all add: at_stream_append)
  ultimately show ?thesis by (simp add: read_pair_def)
qed

lemma pair_is_codec:
  "codec hw hr (\<lambda>(k, v) s. wrv v (wrk k s)) (read_pair dk rdk dv rdv)
     (\<lambda>(k, v). enck k @ encv v) (\<lambda>(k, v). okk k \<and> okvv v)"
proof (unfold_locales, goal_cases)
  case (4 s x v)
  then show ?case
    using read_pair_enc [of s x dk dv v] by (auto split: prod.splits)
qed (auto simp: k.wr_laws v.wr_laws split: prod.splits)

lemma map_is_codec:
  "codec hw hr (write_map hw wrk wrv) (read_map hr dk rdk dv rdv)
     (enc_container MAP (\<lambda>(k, v). enck k @ encv v))
     (\<lambda>m. length m < 2 ^ 31 \<and> list_all (\<lambda>(k, v). okk k \<and> okvv v) m \<and>
        sorted_wrt (<) (map fst m))"
proof -
  note pair = pair_is_codec [of dk dv]
  show ?thesis
  proof (unfold_locales, goal_cases)
    case (4 s x v)
    then show ?case
      using codec.read_container_enc [OF pair, of s x MAP None "\<lambda>(k, v). map_assign k v" "[]"]
      by (simp add: read_map_def fold_map_assign)
  qed (simp_all add: write_map_def codec.write_container_laws [OF pair])
qed

end


interpretation string_key: ordered_codec hw hr "write_string hw" "read_string hr"
    enc_string "\<lambda>x. length x < 2 ^ 31" for hw hr
  by unfold_locales

interpretation uint64_key: ordered_codec hw hr "write_uint64 hw" "read_uint64 hr"
    "enc_scalar UINT64 8" "\<lambda>_. True" for hw hr
  by unfold_locales

interpretation string_list_codec: codec hw hr "write_list hw (write_string hw)"
    "read_list hr (Some []) (read_string hr)" "enc_container LIST enc_string"
    "\<lambda>xs. length xs < 2 ^ 31 \<and> list_all (\<lambda>x. length x < 2 ^ 31) xs" for hw hr
  by (rule string_codec.list_is_codec)

interpretation string_set_codec: codec hw hr "write_set hw (write_string hw)"
    "read_set hr (Some []) (read_string hr)" "enc_container SET enc_string"
    "\<lambda>xs. length xs < 2 ^ 31 \<and> list_all (\<lambda>x. length x < 2 ^ 31) xs \<and> sorted_wrt (<) xs" for hw hr
  by (rule string_key.set_is_codec)

interpretation routes: map_codec hw hr "write_string hw" "read_string hr" enc_string
    "\<lambda>x. length x < 2 ^ 31"
    "write_list hw (write_uint64 hw)" "read_list hr None (read_uint64 hr)"
    "enc_container LIST (enc_scalar UINT64 8)"
    "\<lambda>xs. length xs < 2 ^ 31 \<and> list_all (\<lambda>_. True) xs" for hw hr
  by (intro map_codec.intro string_codec.codec_axioms uint64_codec.list_is_codec)

section \<open>Vectors\<close>

lemma write_vector_buf:
  assumes "m_byteorder s = h"
  shows "m_buf (write_vector h repr xs s) =
    m_buf s @ tag VECTOR # enc_len (length xs) @ take (length xs) (concat (map repr xs))"
  using assms by (simp add: write_vector_def Let_def stream_laws write_int32_len)

lemma length_concat_repr:
  "(\<And>x. length (repr x) = sz) \<Longrightarrow> length (concat (map repr xs)) = length xs * sz"
  by (induction xs) simp_all

lemma concat_repr_chunk:
  assumes "\<And>x. length (repr x) = sz" and "i < length xs"
  shows "take sz (drop (i * sz) (concat (map repr xs))) = repr (xs ! i)"
  using assms(2)
proof (induction xs arbitrary: i)
  case Nil
  then show ?case by simp
next
  case (Cons x xs)
  then show ?case
    using assms(1) by (cases i) simp_all
qed

lemma length_chunks [simp]: "length (chunks sz n mem) = n"
  by (simp add: chunks_def)

lemma read_vector_at:
  assumes "m_byteorder s = h" and "n < 2 ^ 31" and "length bs = n"
    and "at_stream (tag VECTOR # enc_len n @ bs) s"
  shows "read_vector h sz unrepr v s =
    Inr (True, Some (map unrepr (chunks sz n (bs @ drop n (replicate (n * sz) 0)))), skip (6 + n) s)"
proof -
  from assms(4) have hd: "read_tag VECTOR s = Inr (True, skip 1 s)"
    and l: "at_stream (enc_len n) (skip 1 s)" and b: "at_stream bs (skip 6 s)"
    by (auto simp: read_tag_at at_stream_Cons at_stream_append)
  have "read_len h (skip 1 s) = Inr (int n, skip 6 s)"
    using read_len_at [OF _ l assms(2), of h] assms(1) by simp
  then show ?thesis
    using hd bytes_at_stream [OF b] assms(3) by (simp add: read_vector_def Let_def)
qed

lemma at_stream_of: "at_stream bs (stream_of h bs)" "m_byteorder (stream_of h bs) = h"
  by (simp_all add: at_stream_def stream_of_def stream_laws new_stream_def byteorder_host)

lemma vector_read_back:
  fixes xs :: "'a list"
  assumes "\<And>x. length (repr x) = sz" and "0 < sz" and "length xs < 2 ^ 31"
  shows "\<exists>s. read_vector hr sz unrepr v (stream_of hr (m_buf (write_vector hw repr xs (new_stream hw)))) =
    Inr (True, Some (map unrepr (chunks sz (length xs)
      (take (length xs) (concat (map repr xs)) @
       drop (length xs) (replicate (length xs * sz) 0)))), s)"
proof -
  let ?bs = "take (length xs) (concat (map repr xs))"
  let ?wire = "tag VECTOR # enc_len (length xs) @ ?bs"
  have "m_buf (write_vector hw repr xs (new_stream hw)) = ?wire"
    by (simp add: write_vector_buf new_stream_def byteorder_host)
  moreover have "length ?bs = length xs"
    using assms(2) by (simp add: length_concat_repr [where sz = sz, OF assms(1)])
  ultimately show ?thesis
    using read_vector_at [of "stream_of hr ?wire" hr "length xs" ?bs sz unrepr v]
      at_stream_of [where bs = ?wire and h = hr] assms(3) by simp
qed

section \<open>Properties of the stream\<close>


text \<open>A nested container, the map from strings to lists of 64-bit ids, written on one host is
  read back on any host, provided every size fits an \<open>int\<close>; the map's keys are ascending, as
  the keys of a \<open>std::map\<close> are.\<close>

lemma map_round_trip:
  assumes "length m < 2 ^ 31" and "\<forall>(k, ids) \<in> set m. length k < 2 ^ 31 \<and> length ids < 2 ^ 31"
    and "sorted_wrt (<) (map fst m)"
  shows "\<exists>s. read_map hr (Some []) (read_string hr) (Some []) (read_list hr None (read_uint64 hr)) v
      (stream_of hr (m_buf (write_map hw (write_string hw) (write_list hw (write_uint64 hw)) m
        (new_stream hw)))) = Inr (True, Some m, s)"
proof -
  have "list_all (\<lambda>(k, ids). length k < 2 ^ 31 \<and> length ids < 2 ^ 31 \<and> list_all (\<lambda>_. True) ids) m"
    using assms(2) by (auto simp: list_all_iff)
  then show ?thesis
    using codec.round_trip [OF routes.map_is_codec [of hw hr "Some []" "Some []"], of m v] assms(1,3)
    by (simp add: split_beta)
qed

lemma map_round_trip_witness:
  "\<exists>s. read_map BigEndian (Some []) (read_string BigEndian) (Some [])
      (read_list BigEndian None (read_uint64 BigEndian)) None
      (stream_of BigEndian (m_buf (write_map LittleEndian (write_string LittleEndian)
        (write_list LittleEndian (write_uint64 LittleEndian)) [([97], [7, 8]), ([98], [])]
        (new_stream LittleEndian)))) = Inr (True, Some [([97], [7, 8]), ([98], [])], s)"
  by (rule map_round_trip) simp_all


text \<open>The element at an index past the copied bytes is rebuilt from zero bytes.\<close>

lemma of_host_bytes_zeros: "of_host_bytes h (replicate n 0) = (0 :: 'a::len word)"
proof -
  have "of_le_bytes (replicate n 0) = (0 :: 'a word)" by (induction n) simp_all
  then show ?thesis by (simp add: of_host_bytes_def split: byte_order.split)
qed

lemma nth_chunks: "i < n \<Longrightarrow> chunks sz n mem ! i = take sz (drop (i * sz) mem)"
  by (simp add: chunks_def)

lemma chunk_before:
  assumes "i * sz + sz \<le> k" and "k \<le> length mem"
  shows "take sz (drop (i * sz) (take k mem @ zs)) = take sz (drop (i * sz) mem)"
proof -
  have "drop (i * sz) (take k mem @ zs) = take (k - i * sz) (drop (i * sz) mem) @ zs"
    using assms by (simp add: drop_take)
  moreover have "sz \<le> k - i * sz" and "k - i * sz \<le> length mem - i * sz"
    using assms by auto
  ultimately show ?thesis by (simp add: min_absorb1 min_absorb2)
qed

text \<open>A vector of 32-bit integers does not survive the stream: only as many bytes as the vector
  has elements are transferred, so the elements whose memory begins at or after that byte come back
  as zero; those that lie wholly before it come back intact between hosts of equal byte order.\<close>

lemma vector_int32_truncated:
  fixes xs :: "u32 list"
  assumes "length xs < 2 ^ 31"
  shows "\<exists>ys s. read_vector h 4 (of_host_bytes h) v
        (stream_of h (m_buf (write_vector h (host_bytes h 4) xs (new_stream h)))) =
      Inr (True, Some ys, s) \<and> length ys = length xs \<and>
      (\<forall>i < length xs. length xs \<le> 4 * i \<longrightarrow> ys ! i = 0) \<and>
      (\<forall>i < length xs. 4 * i + 4 \<le> length xs \<longrightarrow> ys ! i = xs ! i)"
proof -
  let ?n = "length xs" and ?mem = "concat (map (host_bytes h 4) xs)"
  let ?mem' = "take ?n ?mem @ drop ?n (replicate (?n * 4) 0)"
  let ?ys = "map (of_host_bytes h) (chunks 4 ?n ?mem') :: u32 list"
  have lm: "length ?mem = ?n * 4" by (simp add: length_concat_repr)
  obtain s where s: "read_vector h 4 (of_host_bytes h) v
      (stream_of h (m_buf (write_vector h (host_bytes h 4) xs (new_stream h)))) =
      Inr (True, Some ?ys, s)"
    using vector_read_back [of "host_bytes h 4" 4 xs h "of_host_bytes h" v h] assms by auto
  have "?ys ! i = 0" if "i < ?n" "?n \<le> 4 * i" for i
  proof -
    have "drop (i * 4) ?mem' = replicate ((?n - i) * 4) 0"
      using that lm by (simp add: diff_mult_distrib)
    moreover have "4 \<le> (?n - i) * 4" using that by simp
    ultimately have "take 4 (drop (i * 4) ?mem') = replicate 4 0" by (simp add: min_def)
    then show ?thesis using that by (simp add: nth_chunks of_host_bytes_zeros)
  qed
  moreover have "?ys ! i = xs ! i" if "i < ?n" "4 * i + 4 \<le> ?n" for i
    using that lm chunk_before [of i 4 ?n ?mem] concat_repr_chunk [of "host_bytes h 4" 4 i xs]
    by (simp add: nth_chunks of_host_bytes_host_bytes)
  ultimately show ?thesis using s by (intro exI [of _ ?ys] exI [of _ s]) auto
qed

lemma vector_int32_truncated_witness:
  "\<exists>(ys :: u32 list) s. read_vector LittleEndian 4 (of_host_bytes LittleEndian) None
        (stream_of LittleEndian (m_buf (write_vector LittleEndian (host_bytes LittleEndian 4)
          [1, 2, 3 :: u32] (new_stream LittleEndian)))) =
      Inr (True, Some ys, s) \<and> length ys = 3 \<and> ys ! 1 = 0 \<and> ys ! 2 = 0"
proof -
  have len: "length [1, 2, 3 :: u32] = 3" by simp
  obtain ys :: "u32 list" and s where "read_vector LittleEndian 4 (of_host_bytes LittleEndian) None
      (stream_of LittleEndian (m_buf (write_vector LittleEndian (host_bytes LittleEndian 4)
        [1, 2, 3 :: u32] (new_stream LittleEndian)))) = Inr (True, Some ys, s)"
    and "length ys = 3" and "\<forall>i < 3. 3 \<le> 4 * i \<longrightarrow> ys ! i = 0"
    using vector_int32_truncated [of "[1, 2, 3]" LittleEndian None] unfolding len by auto
  then show ?thesis by (intro exI [of _ ys] exI [of _ s]) simp
qed

text \<open>A vector of one-byte elements does survive the stream, between any two hosts.\<close>

lemma vector_byte_round_trip:
  fixes xs :: "byte list"
  assumes "length xs < 2 ^ 31"
  shows "\<exists>s. read_vector hr 1 hd v
      (stream_of hr (m_buf (write_vector hw (\<lambda>b. [b]) xs (new_stream hw)))) =
    Inr (True, Some xs, s)"
proof -
  have mem: "concat (map (\<lambda>b. [b]) xs) = xs" by (induction xs) simp_all
  have "map hd (chunks 1 (length xs) xs) = xs"
    by (rule nth_equalityI) (simp_all add: nth_chunks hd_drop_conv_nth take_Suc)
  then show ?thesis
    using vector_read_back [of "\<lambda>b. [b]" 1 xs hr hd v hw] assms by (simp add: mem)
qed

lemma vector_byte_round_trip_witness:
  "\<exists>s. read_vector BigEndian 1 hd None
      (stream_of BigEndian (m_buf (write_vector LittleEndian (\<lambda>b. [b]) [1, 2, 255]
        (new_stream LittleEndian)))) = Inr (True, Some [1, 2, 255 :: byte], s)"
  by (rule vector_byte_round_trip) simp

text \<open>A scalar read at a foreign tag returns false and leaves variable and position alone; a
  container read there empties the variable; a read at the end of the buffer is out of bounds.\<close>

lemma read_wrong_tag:
  assumes "peek s = Inr b"
  shows "(b \<noteq> tag BOOL \<longrightarrow> read_bool vb s = Inr (False, vb, s)) \<and>
    (b \<noteq> tag TCHAR \<longrightarrow> read_char vc s = Inr (False, vc, s)) \<and>
    (b \<noteq> tag t \<longrightarrow> read_scalar h t n (vw :: 'a::len word option) s = Inr (False, vw, s)) \<and>
    (b \<noteq> tag STRING \<longrightarrow> read_string h vs s = Inr (False, vs, s)) \<and>
    (b \<noteq> tag LIST \<longrightarrow> read_list h dflt rd vl s = Inr (False, Some [], s)) \<and>
    (b \<noteq> tag VECTOR \<longrightarrow> read_vector h sz unrepr vv s = Inr (False, Some [], s)) \<and>
    (\<forall>bs. peek (stream_of h bs \<lparr>m_pos := length bs\<rparr>) = Inl OutOfBounds)"
  using assms
  by (auto simp: read_bool_def read_char_def read_scalar_def read_string_def read_list_def
      read_container_def read_vector_def read_tag_mismatch peek_def stream_of_def stream_laws
      new_stream_def)

lemma read_wrong_tag_witness:
  "read_string LittleEndian (Some [1]) (stream_of LittleEndian [tag BOOL, 1]) =
     Inr (False, Some [1], stream_of LittleEndian [tag BOOL, 1])"
proof -
  have "peek (stream_of LittleEndian [tag BOOL, 1]) = Inr (tag BOOL)"
    by (simp add: peek_def stream_of_def stream_laws new_stream_def)
  note wrong = read_wrong_tag [OF this, where vs = "Some [1]" and h = LittleEndian]
  have "tag BOOL \<noteq> tag STRING" by simp
  with wrong show ?thesis by blast
qed

text \<open>The buffer's capacity always covers its contents and stays within twice the contents,
  whatever is written to a fresh stream: the doubling loop of \<open>reserve\<close> ends and never
  over-allocates by more than a factor of two.\<close>

lemma capacity_within_double:
  "stream_ok (fold write_raw bss (new_stream h)) \<and>
   m_cap (fold write_raw bss (new_stream h)) \<le> 2 * length (concat bss)"
proof (induction bss rule: rev_induct)
  case Nil
  then show ?case by (simp add: stream_ok_def new_stream_def)
next
  case (snoc bs bss)
  let ?s = "fold write_raw bss (new_stream h)"
  have buf: "m_buf (fold write_raw cs s) = m_buf s @ concat cs" for cs s
    by (induction cs arbitrary: s) (simp_all add: stream_laws)
  have "m_cap (write_raw bs ?s) \<le> 2 * (length (concat bss) + length bs)"
    using snoc reserve_cap_bound [of "m_cap ?s" "length (m_buf ?s) + length bs"]
    by (auto simp: write_raw_cap reserve_def Let_def buf new_stream_def)
  then show ?case by (simp add: stream_laws)
qed

text \<open>Printing a stream that starts with an unsigned integer, a list or an object never ends:
  these tags have no case that advances the index.\<close>

lemma show_never_returns:
  assumes "b = tag UINT32 \<or> b = tag UINT64 \<or> b = tag ENUM \<or> b = tag LIST \<or> b = tag CUSTOM"
  shows "show_run h fuel (b # bs) 0 out = None"
proof -
  have "show_step h (b # bs) 0 = Inr (ShNothing, 0)"
    using assms by (auto simp: show_step_def buf_at_def)
  then show ?thesis by (induction fuel arbitrary: out) simp_all
qed

lemma show_never_returns_witness:
  "\<forall>fuel. show_run LittleEndian fuel (m_buf (write_uint32 LittleEndian 5 (new_stream LittleEndian))) 0 [] = None"
proof
  fix fuel
  have "m_buf (write_uint32 LittleEndian 5 (new_stream LittleEndian)) = tag UINT32 # le_bytes 4 (5 :: u32)"
    by (simp add: write_uint32_def stream_laws enc_scalar_def new_stream_def byteorder_host)
  then show "show_run LittleEndian fuel
      (m_buf (write_uint32 LittleEndian 5 (new_stream LittleEndian))) 0 [] = None"
    using show_never_returns [of "tag UINT32"] by simp
qed

end
