(* ===== verification/Role_Warehouse.thy ===== *)
theory Role_Warehouse
  imports Cmw_Prelude "HOL-Library.AList" "HOL-Library.Multiset"
begin

text \<open>
  Roles and the containers that hold them: \<open>config/RoleAttributes.h\<close>,
  \<open>config/qos_profile.h\<close>, \<open>discovery/role/role.h\<close> and \<open>role.cpp\<close>,
  \<open>discovery/container/single_value_warehouse.cpp\<close> and \<open>multi_value_warehouse.cpp\<close>. Roles
  are never changed once they are shared, so a \<open>RolePtr\<close> is the role itself. A hash map is the
  list of its entries in an order in which it is iterated. The interface \<open>WarehouseBase\<close> is the
  locale \<open>warehouse\<close>; both classes are interpretations of it.
\<close>

section \<open>Roles\<close>

text \<open>An enumeration can hold a value that is none of its enumerators; it is the last constructor.\<close>

datatype qos_history =
  HISTORY_SYSTEM_DEFAULT | HISTORY_KEEP_LAST | HISTORY_KEEP_ALL | QosHistoryValue u32

datatype qos_reliability =
  RELIABILITY_SYSTEM_DEFAULT | RELIABILITY_RELIABLE | RELIABILITY_BEST_EFFORT | QosReliabilityValue u32

datatype qos_durability =
  DURABILITY_SYSTEM_DEFAULT | DURABILITY_TRANSIENT_LOCAL | DURABILITY_VOLATILE | QosDurabilityValue u32

record qos_profile =
  q_history :: qos_history
  q_depth :: u32
  q_mps :: u32
  q_msg_size :: u32
  q_reliability :: qos_reliability
  q_durability :: qos_durability

definition qos_default :: qos_profile where
  "qos_default = \<lparr>q_history = HISTORY_KEEP_LAST, q_depth = 2, q_mps = 3, q_msg_size = 0,
     q_reliability = RELIABILITY_RELIABLE, q_durability = DURABILITY_VOLATILE\<rparr>"

record role_attributes =
  ra_host_name :: string
  ra_host_ip :: string
  ra_process_id :: u32
  ra_channel_name :: string
  ra_channel_id :: u64
  ra_qos :: qos_profile
  ra_id :: u64
  ra_node_name :: string
  ra_node_id :: u64
  ra_message_type :: string

text \<open>
  A default-constructed \<open>RoleAttributes\<close> leaves its integers indeterminate: they are the ones
  of \<open>junk\<close>.
\<close>

definition new_attributes :: "role_attributes \<Rightarrow> role_attributes" where
  "new_attributes junk = junk\<lparr>ra_host_name := '''', ra_host_ip := '''', ra_channel_name := '''',
     ra_qos := qos_default, ra_node_name := '''', ra_message_type := ''''\<rparr>"

text \<open>\<open>RoleBase\<close> (a node) or \<open>RoleWriter\<close>, which is also the class of readers.\<close>

datatype role_class = RoleBase | RoleWriter

record role =
  r_class :: role_class
  r_attributes :: role_attributes
  r_timestamp_ns :: u64

definition base_match :: "role \<Rightarrow> role_attributes \<Rightarrow> bool" where
  "base_match r target_attr =
     (if ra_node_id target_attr \<noteq> ra_node_id (r_attributes r) then False
      else if ra_process_id target_attr \<noteq> ra_process_id (r_attributes r) then False
      else if ra_host_name target_attr \<noteq> ra_host_name (r_attributes r) then False
      else True)"

definition writer_match :: "role \<Rightarrow> role_attributes \<Rightarrow> bool" where
  "writer_match r target_attr =
     (if ra_channel_id target_attr \<noteq> ra_channel_id (r_attributes r) then False
      else if ra_id target_attr \<noteq> ra_id (r_attributes r) then False
      else base_match r target_attr)"

definition role_match :: "role \<Rightarrow> role_attributes \<Rightarrow> bool" where
  "role_match r target_attr =
     (case r_class r of RoleBase \<Rightarrow> base_match r target_attr | RoleWriter \<Rightarrow> writer_match r target_attr)"

definition is_earlier_than :: "role \<Rightarrow> role \<Rightarrow> bool" where
  "is_earlier_than r other \<longleftrightarrow> r_timestamp_ns r < r_timestamp_ns other"

section \<open>SingleValueWarehouse\<close>

type_synonym role_map = "(u64 \<times> role) list"

definition sw_add :: "u64 \<Rightarrow> role \<Rightarrow> bool \<Rightarrow> role_map \<Rightarrow> bool \<times> role_map" where
  "sw_add key role ignore_if_exist roles =
     (if \<not> ignore_if_exist \<and> map_of roles key \<noteq> None then (False, roles)
      else (True, AList.update key role roles))"

definition sw_clear :: "role_map \<Rightarrow> role_map" where "sw_clear roles = []"
definition sw_size :: "role_map \<Rightarrow> nat" where "sw_size roles = length roles"

definition sw_remove :: "u64 \<Rightarrow> role_map \<Rightarrow> role_map" where
  "sw_remove key roles = AList.delete key roles"

definition sw_remove_role :: "u64 \<Rightarrow> role \<Rightarrow> role_map \<Rightarrow> role_map" where
  "sw_remove_role key role roles =
     (case map_of roles key of None \<Rightarrow> roles
      | Some r \<Rightarrow> if \<not> role_match r (r_attributes role) then roles else AList.delete key roles)"

fun sw_remove_attr :: "role_attributes \<Rightarrow> role_map \<Rightarrow> role_map" where
  "sw_remove_attr target_attr [] = []"
| "sw_remove_attr target_attr ((k, r) # roles) =
     (if role_match r target_attr then sw_remove_attr target_attr roles
      else (k, r) # sw_remove_attr target_attr roles)"

definition sw_all_attrs :: "role_map \<Rightarrow> role_attributes list \<Rightarrow> role_attributes list" where
  "sw_all_attrs roles roles_attr = roles_attr @ map (\<lambda>item. r_attributes (snd item)) roles"

definition sw_all :: "role_map \<Rightarrow> role list \<Rightarrow> role list" where
  "sw_all roles out = out @ map snd roles"

text \<open>The overloads of \<open>Search\<close>; an out-parameter that is left alone is \<open>None\<close>.\<close>

definition sw_search_role :: "u64 \<Rightarrow> role_map \<Rightarrow> role option" where
  "sw_search_role key roles = map_of roles key"

definition sw_search :: "u64 \<Rightarrow> role_map \<Rightarrow> bool" where
  "sw_search key roles \<longleftrightarrow> sw_search_role key roles \<noteq> None"

definition sw_search_attr :: "u64 \<Rightarrow> role_map \<Rightarrow> role_attributes option" where
  "sw_search_attr key roles = map_option r_attributes (sw_search_role key roles)"

definition sw_search_roles :: "u64 \<Rightarrow> role_map \<Rightarrow> role list \<Rightarrow> bool \<times> role list" where
  "sw_search_roles key roles out =
     (case sw_search_role key roles of None \<Rightarrow> (False, out) | Some r \<Rightarrow> (True, out @ [r]))"

definition sw_search_attrs :: "u64 \<Rightarrow> role_map \<Rightarrow> role_attributes list \<Rightarrow> bool \<times> role_attributes list" where
  "sw_search_attrs key roles out =
     (case sw_search_role key roles of None \<Rightarrow> (False, out) | Some r \<Rightarrow> (True, out @ [r_attributes r]))"

fun sw_match_role :: "role_attributes \<Rightarrow> role_map \<Rightarrow> role option" where
  "sw_match_role target_attr [] = None"
| "sw_match_role target_attr ((k, r) # roles) =
     (if role_match r target_attr then Some r else sw_match_role target_attr roles)"

definition sw_match :: "role_attributes \<Rightarrow> role_map \<Rightarrow> bool" where
  "sw_match target_attr roles \<longleftrightarrow> sw_match_role target_attr roles \<noteq> None"

definition sw_match_attr :: "role_attributes \<Rightarrow> role_map \<Rightarrow> role_attributes option" where
  "sw_match_attr target_attr roles = map_option r_attributes (sw_match_role target_attr roles)"

definition sw_match_roles :: "role_attributes \<Rightarrow> role_map \<Rightarrow> role list \<Rightarrow> bool \<times> role list" where
  "sw_match_roles target_attr roles out =
     fold (\<lambda>(k, r) (find, out). if role_match r target_attr then (True, out @ [r]) else (find, out))
       roles (False, out)"

definition sw_match_attrs ::
    "role_attributes \<Rightarrow> role_map \<Rightarrow> role_attributes list \<Rightarrow> bool \<times> role_attributes list" where
  "sw_match_attrs target_attr roles out =
     fold (\<lambda>(k, r) (find, out). if role_match r target_attr then (True, out @ [r_attributes r]) else (find, out))
       roles (False, out)"

section \<open>MultiValueWarehouse\<close>

definition mw_add :: "u64 \<Rightarrow> role \<Rightarrow> bool \<Rightarrow> role_map \<Rightarrow> bool \<times> role_map" where
  "mw_add key role ignore_if_exist roles =
     (if \<not> ignore_if_exist \<and> map_of roles key \<noteq> None then (False, roles)
      else (True, roles @ [(key, role)]))"

definition mw_clear :: "role_map \<Rightarrow> role_map" where "mw_clear roles = []"
definition mw_size :: "role_map \<Rightarrow> nat" where "mw_size roles = length roles"

definition mw_remove :: "u64 \<Rightarrow> role_map \<Rightarrow> role_map" where
  "mw_remove key roles = filter (\<lambda>(k, r). k \<noteq> key) roles"

text \<open>The entries \<open>equal_range\<close> delimits.\<close>

definition equal_range :: "u64 \<Rightarrow> role_map \<Rightarrow> role_map" where
  "equal_range key roles = filter (\<lambda>(k, r). k = key) roles"

definition mw_remove_role :: "u64 \<Rightarrow> role \<Rightarrow> role_map \<Rightarrow> role_map" where
  "mw_remove_role key role roles =
     filter (\<lambda>(k, r). \<not> (k = key \<and> role_match r (r_attributes role))) roles"

fun mw_remove_attr :: "role_attributes \<Rightarrow> role_map \<Rightarrow> role_map" where
  "mw_remove_attr target_attr [] = []"
| "mw_remove_attr target_attr ((k, r) # roles) =
     (if role_match r target_attr then mw_remove_attr target_attr roles
      else (k, r) # mw_remove_attr target_attr roles)"

definition mw_search_role :: "u64 \<Rightarrow> role_map \<Rightarrow> role option" where
  "mw_search_role key roles = map_of roles key"

definition mw_search :: "u64 \<Rightarrow> role_map \<Rightarrow> bool" where
  "mw_search key roles \<longleftrightarrow> mw_search_role key roles \<noteq> None"

definition mw_search_attr :: "u64 \<Rightarrow> role_map \<Rightarrow> role_attributes option" where
  "mw_search_attr key roles = map_option r_attributes (mw_search_role key roles)"

definition mw_search_roles :: "u64 \<Rightarrow> role_map \<Rightarrow> role list \<Rightarrow> bool \<times> role list" where
  "mw_search_roles key roles out =
     fold (\<lambda>item (find, out). (True, out @ [snd item])) (equal_range key roles) (False, out)"

definition mw_search_attrs :: "u64 \<Rightarrow> role_map \<Rightarrow> role_attributes list \<Rightarrow> bool \<times> role_attributes list" where
  "mw_search_attrs key roles out =
     fold (\<lambda>item (find, out). (True, out @ [r_attributes (snd item)])) (equal_range key roles) (False, out)"

fun mw_match_role :: "role_attributes \<Rightarrow> role_map \<Rightarrow> role option" where
  "mw_match_role target_attr [] = None"
| "mw_match_role target_attr ((k, r) # roles) =
     (if role_match r target_attr then Some r else mw_match_role target_attr roles)"

definition mw_match :: "role_attributes \<Rightarrow> role_map \<Rightarrow> bool" where
  "mw_match target_attr roles \<longleftrightarrow> mw_match_role target_attr roles \<noteq> None"

definition mw_match_attr :: "role_attributes \<Rightarrow> role_map \<Rightarrow> role_attributes option" where
  "mw_match_attr target_attr roles = map_option r_attributes (mw_match_role target_attr roles)"

definition mw_match_roles :: "role_attributes \<Rightarrow> role_map \<Rightarrow> role list \<Rightarrow> bool \<times> role list" where
  "mw_match_roles target_attr roles out =
     fold (\<lambda>(k, r) (find, out). if role_match r target_attr then (True, out @ [r]) else (find, out))
       roles (False, out)"

definition mw_match_attrs ::
    "role_attributes \<Rightarrow> role_map \<Rightarrow> role_attributes list \<Rightarrow> bool \<times> role_attributes list" where
  "mw_match_attrs target_attr roles out =
     fold (\<lambda>(k, r) (find, out). if role_match r target_attr then (True, out @ [r_attributes r]) else (find, out))
       roles (False, out)"

definition mw_all_attrs :: "role_map \<Rightarrow> role_attributes list \<Rightarrow> role_attributes list" where
  "mw_all_attrs roles roles_attr = roles_attr @ map (\<lambda>item. r_attributes (snd item)) roles"

definition mw_all :: "role_map \<Rightarrow> role list \<Rightarrow> role list" where
  "mw_all roles out = out @ map snd roles"

section \<open>The contract of a warehouse\<close>

datatype warehouse_op = WAdd u64 role | WRemove u64 | WRemoveRole u64 role | WRemoveAttr role_attributes

text \<open>\<open>kills keep x k r\<close>: the call \<open>x\<close> takes the entry \<open>(k, r)\<close> out; \<open>keep\<close> tells whether
  an addition keeps the entries its key already has.\<close>

fun kills :: "bool \<Rightarrow> warehouse_op \<Rightarrow> u64 \<Rightarrow> role \<Rightarrow> bool" where
  "kills keep (WAdd k' r') k r \<longleftrightarrow> \<not> keep \<and> k' = k"
| "kills keep (WRemove k') k r \<longleftrightarrow> k' = k"
| "kills keep (WRemoveRole k' r') k r \<longleftrightarrow> k' = k \<and> role_match r (r_attributes r')"
| "kills keep (WRemoveAttr a) k r \<longleftrightarrow> role_match r a"

fun survives :: "bool \<Rightarrow> warehouse_op list \<Rightarrow> u64 \<Rightarrow> role \<Rightarrow> bool" where
  "survives keep [] k r = False"
| "survives keep (x # xs) k r \<longleftrightarrow> survives keep xs k r \<or> x = WAdd k r \<and> (\<forall>y \<in> set xs. \<not> kills keep y k r)"

locale warehouse =
  fixes keep :: bool and ok :: "role_map \<Rightarrow> bool"
    and add :: "u64 \<Rightarrow> role \<Rightarrow> bool \<Rightarrow> role_map \<Rightarrow> bool \<times> role_map"
    and remove :: "u64 \<Rightarrow> role_map \<Rightarrow> role_map"
    and remove_role :: "u64 \<Rightarrow> role \<Rightarrow> role_map \<Rightarrow> role_map"
    and remove_attr :: "role_attributes \<Rightarrow> role_map \<Rightarrow> role_map"
    and search_roles :: "u64 \<Rightarrow> role_map \<Rightarrow> role list \<Rightarrow> bool \<times> role list"
    and match_roles :: "role_attributes \<Rightarrow> role_map \<Rightarrow> role list \<Rightarrow> bool \<times> role list"
  assumes ok_empty: "ok []"
    and add_ok: "ok w \<Longrightarrow> ok (snd (add k r ign w))"
    and add_refused: "ok w \<Longrightarrow> fst (add k r ign w) \<longleftrightarrow> ign \<or> k \<notin> fst ` set w"
    and add_stored: "ok w \<Longrightarrow> fst (add k r ign w) \<Longrightarrow> (k, r) \<in> set (snd (add k r ign w))"
    and add_others: "ok w \<Longrightarrow> k' \<noteq> k \<Longrightarrow> (k', r') \<in> set (snd (add k r ign w)) \<longleftrightarrow> (k', r') \<in> set w"
    and add_same: "ok w \<Longrightarrow> (k, r') \<in> set (snd (add k r True w)) \<longleftrightarrow> r' = r \<or> keep \<and> (k, r') \<in> set w"
    and remove_ok: "ok w \<Longrightarrow> ok (remove k w)"
    and remove_mset: "ok w \<Longrightarrow> mset (remove k w) = filter_mset (\<lambda>(k', r). k' \<noteq> k) (mset w)"
    and remove_role_ok: "ok w \<Longrightarrow> ok (remove_role k r w)"
    and remove_role_mset: "ok w \<Longrightarrow> mset (remove_role k r w) =
      filter_mset (\<lambda>(k', r'). \<not> (k' = k \<and> role_match r' (r_attributes r))) (mset w)"
    and remove_attr_ok: "ok w \<Longrightarrow> ok (remove_attr a w)"
    and remove_attr_mset: "ok w \<Longrightarrow> mset (remove_attr a w) = filter_mset (\<lambda>(k, r). \<not> role_match r a) (mset w)"
    and search_roles_mset: "ok w \<Longrightarrow> \<exists>found. search_roles k w out = (found \<noteq> [], out @ found) \<and>
      mset found = image_mset snd (filter_mset (\<lambda>(k', r). k' = k) (mset w))"
    and match_roles_mset: "ok w \<Longrightarrow> \<exists>found. match_roles a w out = (found \<noteq> [], out @ found) \<and>
      mset found = image_mset snd (filter_mset (\<lambda>(k, r). role_match r a) (mset w))"
begin

lemma search_set:
  assumes "ok w"
  obtains found where "search_roles k w out = (found \<noteq> [], out @ found)" "set found = {r. (k, r) \<in> set w}"
proof -
  from search_roles_mset [OF assms, of k out] obtain found
    where found: "search_roles k w out = (found \<noteq> [], out @ found)"
      and m: "mset found = image_mset snd (filter_mset (\<lambda>(k', r). k' = k) (mset w))" by blast
  from arg_cong [OF m, of set_mset] have "set found = {r. (k, r) \<in> set w}" by force
  with found show thesis by (rule that)
qed

lemma match_set:
  assumes "ok w"
  obtains found where "match_roles a w out = (found \<noteq> [], out @ found)"
    "set found = {r. \<exists>k. (k, r) \<in> set w \<and> role_match r a}"
proof -
  from match_roles_mset [OF assms, of a out] obtain found
    where found: "match_roles a w out = (found \<noteq> [], out @ found)"
      and m: "mset found = image_mset snd (filter_mset (\<lambda>(k, r). role_match r a) (mset w))" by blast
  from arg_cong [OF m, of set_mset] have "set found = {r. \<exists>k. (k, r) \<in> set w \<and> role_match r a}" by force
  with found show thesis by (rule that)
qed

lemma search_found: "ok w \<Longrightarrow> fst (search_roles k w out) \<longleftrightarrow> k \<in> fst ` set w"
  by (erule search_set [of w k out]) (force simp flip: set_empty)

lemma match_found: "ok w \<Longrightarrow> fst (match_roles a w out) \<longleftrightarrow> (\<exists>k r. (k, r) \<in> set w \<and> role_match r a)"
  by (erule match_set [of w a out]) (auto simp flip: set_empty)

lemma remove_set:
  assumes "ok w"
  shows "(k', r') \<in> set (remove k w) \<longleftrightarrow> k' \<noteq> k \<and> (k', r') \<in> set w"
    and "(k', r') \<in> set (remove_role k r w) \<longleftrightarrow>
      \<not> (k' = k \<and> role_match r' (r_attributes r)) \<and> (k', r') \<in> set w"
    and "(k', r') \<in> set (remove_attr a w) \<longleftrightarrow> \<not> role_match r' a \<and> (k', r') \<in> set w"
  using arg_cong [OF remove_mset [OF assms, of k], of set_mset]
    arg_cong [OF remove_role_mset [OF assms, of k r], of set_mset]
    arg_cong [OF remove_attr_mset [OF assms, of a], of set_mset]
  by auto

primrec step :: "warehouse_op \<Rightarrow> role_map \<Rightarrow> role_map" where
  "step (WAdd k r) w = snd (add k r True w)"
| "step (WRemove k) w = remove k w"
| "step (WRemoveRole k r) w = remove_role k r w"
| "step (WRemoveAttr a) w = remove_attr a w"

lemma step_ok: "ok w \<Longrightarrow> ok (step x w)"
  by (cases x) (simp_all add: add_ok remove_ok remove_role_ok remove_attr_ok)

lemma step_set:
  "ok w \<Longrightarrow> (k, r) \<in> set (step x w) \<longleftrightarrow> x = WAdd k r \<or> \<not> kills keep x k r \<and> (k, r) \<in> set w"
proof (cases x)
  case (WAdd k' r')
  assume "ok w"
  then show ?thesis
    using add_same [of w k r r'] add_others [of w k k' r r' True] by (cases "k' = k") (auto simp: WAdd)
qed (auto simp: remove_set)

lemma run_survivors:
  "ok w \<Longrightarrow> (k, r) \<in> set (fold step xs w) \<longleftrightarrow>
    survives keep xs k r \<or> (k, r) \<in> set w \<and> (\<forall>x \<in> set xs. \<not> kills keep x k r)"
  by (induction xs arbitrary: w) (auto simp: step_ok step_set)

lemma run_ok: "ok w \<Longrightarrow> ok (fold step xs w)"
  by (induction xs arbitrary: w) (simp_all add: step_ok)

text \<open>What a lookup returns after any calls on an empty warehouse.\<close>

lemma search_survivors:
  "\<exists>found. search_roles k (fold step xs []) out = (found \<noteq> [], out @ found) \<and>
    set found = {r. survives keep xs k r}"
  by (rule search_set [OF run_ok [OF ok_empty], of k xs out]) (auto simp: run_survivors ok_empty)

lemma match_survivors:
  "\<exists>found. match_roles a (fold step xs []) out = (found \<noteq> [], out @ found) \<and>
    set found = {r. \<exists>k. survives keep xs k r \<and> role_match r a}"
  by (rule match_set [OF run_ok [OF ok_empty], of a xs out]) (auto simp: run_survivors ok_empty)

text \<open>What a client may rely on when it adds, looks up and removes.\<close>

lemma search_after_add: "ok w \<Longrightarrow> fst (search_roles k (snd (add k r True w)) out)"
  using add_stored [of w k r True] add_refused [of w k r True] add_ok [of w k r True]
  by (force simp: search_found)

lemma match_after_remove: "ok w \<Longrightarrow> \<not> fst (match_roles a (remove_attr a w) out)"
  using arg_cong [OF remove_attr_mset [of w a], of set_mset]
  by (auto simp: match_found remove_attr_ok)

lemma search_after_remove: "ok w \<Longrightarrow> \<not> fst (search_roles k (remove k w) out)"
  using arg_cong [OF remove_mset [of w k], of set_mset]
  by (auto simp: search_found remove_ok)

lemma remove_other_key: "ok w \<Longrightarrow> k' \<noteq> k \<Longrightarrow> (k', r') \<in> set (remove_role k r w) \<longleftrightarrow> (k', r') \<in> set w"
  using arg_cong [OF remove_role_mset [of w k r], of set_mset] by auto

end


section \<open>Both warehouses keep the contract\<close>

lemma sw_remove_attr_filter: "sw_remove_attr a w = filter (\<lambda>(k, r). \<not> role_match r a) w"
  by (induction a w rule: sw_remove_attr.induct) simp_all

lemma mw_remove_attr_filter: "mw_remove_attr a w = filter (\<lambda>(k, r). \<not> role_match r a) w"
  by (induction a w rule: mw_remove_attr.induct) simp_all

lemma fold_collect:
  "fold (\<lambda>(k, r) (find, out). if P r then (True, out @ [f r]) else (find, out)) w (b, out) =
    (b \<or> filter (\<lambda>(k, r). P r) w \<noteq> [], out @ map (f \<circ> snd) (filter (\<lambda>(k, r). P r) w))"
  by (induction w arbitrary: b out) auto

lemma fold_collect_all:
  "fold (\<lambda>item (find, out). (True, out @ [f (snd item)])) w (b, out) =
    (b \<or> w \<noteq> [], out @ map (f \<circ> snd) w)"
  by (induction w arbitrary: b out) auto

lemma match_roles_laws:
  "\<exists>found. sw_match_roles a w out = (found \<noteq> [], out @ found) \<and>
    mset found = image_mset snd (filter_mset (\<lambda>(k, r). role_match r a) (mset w))"
  "\<exists>found. mw_match_roles a w out = (found \<noteq> [], out @ found) \<and>
    mset found = image_mset snd (filter_mset (\<lambda>(k, r). role_match r a) (mset w))"
  by (rule exI [of _ "map snd (filter (\<lambda>(k, r). role_match r a) w)"],
      simp add: sw_match_roles_def mw_match_roles_def fold_collect [where f = "\<lambda>x. x"] comp_def)+

lemma distinct_keys_filter:
  "distinct (map fst w) \<Longrightarrow> map_of w k = Some r \<Longrightarrow> filter (\<lambda>(k', r). k' = k) w = [(k, r)]"
  by (induction w) (auto simp: filter_empty_conv rev_image_eqI split: if_splits)

lemma distinct_keys_none: "map_of w k = None \<Longrightarrow> filter (\<lambda>(k', r). k' = k) w = []"
  by (auto simp: filter_empty_conv map_of_eq_None_iff rev_image_eqI)

lemma distinct_keys_filter_role:
  "distinct (map fst w) \<Longrightarrow> map_of w k = Some r \<Longrightarrow>
    filter (\<lambda>(k', r'). \<not> (k' = k \<and> P r')) w = (if P r then AList.delete k w else w)"
  by (auto simp: AList.delete_eq filter_id_conv intro!: filter_cong dest!: map_of_SomeD dest: eq_key_imp_eq_value)

interpretation sw: warehouse False "\<lambda>w. distinct (map fst w)" sw_add sw_remove sw_remove_role sw_remove_attr
  sw_search_roles sw_match_roles
proof unfold_locales
  fix w :: role_map and k k' :: u64 and r r' :: role and ign :: bool and a :: role_attributes and out :: "role list"
  assume w: "distinct (map fst w)"
  show "distinct (map fst (snd (sw_add k r ign w)))"
    using w by (simp add: sw_add_def distinct_update)
  show "fst (sw_add k r ign w) \<longleftrightarrow> ign \<or> k \<notin> fst ` set w"
    by (simp add: sw_add_def map_of_eq_None_iff)
  show "(k, r) \<in> set (snd (sw_add k r ign w))" if "fst (sw_add k r ign w)"
    using that by (auto simp: sw_add_def update_conv' intro!: map_of_SomeD split: if_splits)
  show "(k', r') \<in> set (snd (sw_add k r ign w)) \<longleftrightarrow> (k', r') \<in> set w" if "k' \<noteq> k"
  proof -
    have d: "distinct (map fst (AList.update k r w))" using w by (rule distinct_update)
    have "(k', r') \<in> set (AList.update k r w) \<longleftrightarrow> (k', r') \<in> set w"
      using map_of_eq_Some_iff [OF d, of k' r'] map_of_eq_Some_iff [OF w, of k' r'] that
      by (simp add: update_conv')
    then show ?thesis by (simp add: sw_add_def)
  qed
  show "(k, r') \<in> set (snd (sw_add k r True w)) \<longleftrightarrow> r' = r \<or> False \<and> (k, r') \<in> set w"
    using map_of_eq_Some_iff [OF distinct_update [OF w, of k r], of k r'] by (auto simp: sw_add_def update_conv')
  show "distinct (map fst (sw_remove k w))" using w by (simp add: sw_remove_def distinct_delete)
  show "mset (sw_remove k w) = filter_mset (\<lambda>(k', r). k' \<noteq> k) (mset w)"
    by (auto simp: sw_remove_def AList.delete_eq intro!: filter_mset_cong)
  show "distinct (map fst (sw_remove_role k r w))"
    using w by (simp add: sw_remove_role_def distinct_delete split: option.split)
  show "mset (sw_remove_role k r w) =
      filter_mset (\<lambda>(k', r'). \<not> (k' = k \<and> role_match r' (r_attributes r))) (mset w)"
  proof (cases "map_of w k")
    case None
    then have "filter (\<lambda>(k', r'). \<not> (k' = k \<and> role_match r' (r_attributes r))) w = w"
      by (auto simp: filter_id_conv map_of_eq_None_iff rev_image_eqI)
    then show ?thesis using None by (simp add: sw_remove_role_def flip: mset_filter)
  next
    case (Some x)
    show ?thesis
      using distinct_keys_filter_role [OF w Some, of "\<lambda>x. role_match x (r_attributes r)"] Some
      by (simp add: sw_remove_role_def flip: mset_filter)
  qed
  show "distinct (map fst (sw_remove_attr a w))"
    using w by (simp add: sw_remove_attr_filter distinct_map_filter)
  show "mset (sw_remove_attr a w) = filter_mset (\<lambda>(k, r). \<not> role_match r a) (mset w)"
    by (simp add: sw_remove_attr_filter)
  show "\<exists>found. sw_search_roles k w out = (found \<noteq> [], out @ found) \<and>
      mset found = image_mset snd (filter_mset (\<lambda>(k', r). k' = k) (mset w))"
    using distinct_keys_filter [OF w, of k] distinct_keys_none [of w k]
    by (cases "map_of w k")
      (simp_all add: sw_search_roles_def sw_search_role_def flip: mset_filter)
  show "\<exists>found. sw_match_roles a w out = (found \<noteq> [], out @ found) \<and>
      mset found = image_mset snd (filter_mset (\<lambda>(k, r). role_match r a) (mset w))"
    by (rule match_roles_laws)
qed simp

interpretation mw: warehouse True "\<lambda>_. True" mw_add mw_remove mw_remove_role mw_remove_attr
  mw_search_roles mw_match_roles
proof unfold_locales
  fix w :: role_map and k :: u64 and out :: "role list"
  show "\<exists>found. mw_search_roles k w out = (found \<noteq> [], out @ found) \<and>
      mset found = image_mset snd (filter_mset (\<lambda>(k', r). k' = k) (mset w))"
    by (rule exI [of _ "map snd (equal_range k w)"])
      (simp add: mw_search_roles_def fold_collect_all [where f = "\<lambda>x. x"] comp_def equal_range_def)
  fix r :: role and ign :: bool
  show "fst (mw_add k r ign w) \<longleftrightarrow> ign \<or> k \<notin> fst ` set w"
    by (simp add: mw_add_def map_of_eq_None_iff)
  show "(k, r) \<in> set (snd (mw_add k r ign w))" if "fst (mw_add k r ign w)"
    using that by (auto simp: mw_add_def split: if_splits)
qed (auto simp: mw_add_def mw_remove_def mw_remove_role_def mw_remove_attr_filter match_roles_laws)

section \<open>Calls on a warehouse\<close>

primrec sw_step :: "warehouse_op \<Rightarrow> role_map \<Rightarrow> role_map" where
  "sw_step (WAdd k r) w = snd (sw_add k r True w)"
| "sw_step (WRemove k) w = sw_remove k w"
| "sw_step (WRemoveRole k r) w = sw_remove_role k r w"
| "sw_step (WRemoveAttr a) w = sw_remove_attr a w"

primrec mw_step :: "warehouse_op \<Rightarrow> role_map \<Rightarrow> role_map" where
  "mw_step (WAdd k r) w = snd (mw_add k r True w)"
| "mw_step (WRemove k) w = mw_remove k w"
| "mw_step (WRemoveRole k r) w = mw_remove_role k r w"
| "mw_step (WRemoveAttr a) w = mw_remove_attr a w"

lemma steps_same: "sw.step = sw_step" "mw.step = mw_step"
  by (intro ext, rename_tac x w, case_tac x, simp_all)+


end
