(* ===== verification/Topology_Wire.thy ===== *)
theory Topology_Wire
  imports Stream_Codec Role_Warehouse
begin

text \<open>
  Topology changes and how they travel: \<open>config/topology_change.h\<close> and the \<open>SERIALIZE\<close>
  lists of \<open>ChangeMsg\<close>, \<open>RoleAttributes\<close> and \<open>QosProfile\<close>, over the stream of
  \<open>Data_Stream\<close>. A string is written as the bytes of its characters.
\<close>

section \<open>Messages\<close>

datatype change_type =
  CHANGE_NODE | CHANGE_CHANNEL | CHANGE_SERVICE | CHANGE_PARTICIPANT | ChangeTypeValue u32

datatype operate_type = OPT_JOIN | OPT_LEAVE | OperateTypeValue u32

datatype role_type =
  ROLE_NODE | ROLE_WRITER | ROLE_READER | ROLE_SERVER | ROLE_CLIENT | ROLE_PARTICIPANT | RoleTypeValue u32

record change_msg =
  cm_timestamp :: u64
  cm_change_type :: change_type
  cm_operate_type :: operate_type
  cm_role_type :: role_type
  cm_role_attr :: role_attributes

section \<open>Enumerations as integers\<close>

fun change_type_int :: "change_type \<Rightarrow> u32" where
  "change_type_int CHANGE_NODE = 1"
| "change_type_int CHANGE_CHANNEL = 2"
| "change_type_int CHANGE_SERVICE = 3"
| "change_type_int CHANGE_PARTICIPANT = 4"
| "change_type_int (ChangeTypeValue v) = v"

definition change_type_of :: "u32 \<Rightarrow> change_type" where
  "change_type_of v = (if v = 1 then CHANGE_NODE else if v = 2 then CHANGE_CHANNEL
     else if v = 3 then CHANGE_SERVICE else if v = 4 then CHANGE_PARTICIPANT else ChangeTypeValue v)"

fun operate_type_int :: "operate_type \<Rightarrow> u32" where
  "operate_type_int OPT_JOIN = 1"
| "operate_type_int OPT_LEAVE = 2"
| "operate_type_int (OperateTypeValue v) = v"

definition operate_type_of :: "u32 \<Rightarrow> operate_type" where
  "operate_type_of v = (if v = 1 then OPT_JOIN else if v = 2 then OPT_LEAVE else OperateTypeValue v)"

fun role_type_int :: "role_type \<Rightarrow> u32" where
  "role_type_int ROLE_NODE = 1"
| "role_type_int ROLE_WRITER = 2"
| "role_type_int ROLE_READER = 3"
| "role_type_int ROLE_SERVER = 4"
| "role_type_int ROLE_CLIENT = 5"
| "role_type_int ROLE_PARTICIPANT = 6"
| "role_type_int (RoleTypeValue v) = v"

definition role_type_of :: "u32 \<Rightarrow> role_type" where
  "role_type_of v = (if v = 1 then ROLE_NODE else if v = 2 then ROLE_WRITER else if v = 3 then ROLE_READER
     else if v = 4 then ROLE_SERVER else if v = 5 then ROLE_CLIENT else if v = 6 then ROLE_PARTICIPANT
     else RoleTypeValue v)"

fun history_int :: "qos_history \<Rightarrow> u32" where
  "history_int HISTORY_SYSTEM_DEFAULT = 0"
| "history_int HISTORY_KEEP_LAST = 1"
| "history_int HISTORY_KEEP_ALL = 2"
| "history_int (QosHistoryValue v) = v"

definition history_of :: "u32 \<Rightarrow> qos_history" where
  "history_of v = (if v = 0 then HISTORY_SYSTEM_DEFAULT else if v = 1 then HISTORY_KEEP_LAST
     else if v = 2 then HISTORY_KEEP_ALL else QosHistoryValue v)"

fun reliability_int :: "qos_reliability \<Rightarrow> u32" where
  "reliability_int RELIABILITY_SYSTEM_DEFAULT = 0"
| "reliability_int RELIABILITY_RELIABLE = 1"
| "reliability_int RELIABILITY_BEST_EFFORT = 2"
| "reliability_int (QosReliabilityValue v) = v"

definition reliability_of :: "u32 \<Rightarrow> qos_reliability" where
  "reliability_of v = (if v = 0 then RELIABILITY_SYSTEM_DEFAULT else if v = 1 then RELIABILITY_RELIABLE
     else if v = 2 then RELIABILITY_BEST_EFFORT else QosReliabilityValue v)"

fun durability_int :: "qos_durability \<Rightarrow> u32" where
  "durability_int DURABILITY_SYSTEM_DEFAULT = 0"
| "durability_int DURABILITY_TRANSIENT_LOCAL = 1"
| "durability_int DURABILITY_VOLATILE = 2"
| "durability_int (QosDurabilityValue v) = v"

definition durability_of :: "u32 \<Rightarrow> qos_durability" where
  "durability_of v = (if v = 0 then DURABILITY_SYSTEM_DEFAULT else if v = 1 then DURABILITY_TRANSIENT_LOCAL
     else if v = 2 then DURABILITY_VOLATILE else QosDurabilityValue v)"

section \<open>Writing\<close>

definition bytes_of :: "string \<Rightarrow> byte list" where
  "bytes_of = map (\<lambda>c. of_nat (of_char c))"
definition string_of :: "byte list \<Rightarrow> string" where
  "string_of = map (\<lambda>b. char_of (unat b))"

definition qos_serialize :: "byte_order \<Rightarrow> qos_profile \<Rightarrow> data_stream \<Rightarrow> data_stream" where
  "qos_serialize h q = serialize
     [write_enum h history_int (q_history q), write_uint32 h (q_depth q), write_uint32 h (q_mps q),
      write_uint32 h (q_msg_size q), write_enum h reliability_int (q_reliability q),
      write_enum h durability_int (q_durability q)]"

definition attr_serialize :: "byte_order \<Rightarrow> role_attributes \<Rightarrow> data_stream \<Rightarrow> data_stream" where
  "attr_serialize h a = serialize
     [write_string h (bytes_of (ra_host_name a)), write_string h (bytes_of (ra_host_ip a)),
      write_int32 h (ra_process_id a), write_string h (bytes_of (ra_channel_name a)),
      qos_serialize h (ra_qos a), write_uint64 h (ra_id a), write_string h (bytes_of (ra_node_name a)),
      write_uint64 h (ra_node_id a), write_string h (bytes_of (ra_message_type a))]"

definition change_serialize :: "byte_order \<Rightarrow> change_msg \<Rightarrow> data_stream \<Rightarrow> data_stream" where
  "change_serialize h m = serialize
     [write_uint64 h (cm_timestamp m), write_enum h change_type_int (cm_change_type m),
      write_enum h operate_type_int (cm_operate_type m), write_enum h role_type_int (cm_role_type m),
      attr_serialize h (cm_role_attr m)]"

section \<open>Reading\<close>

text \<open>One argument of \<open>read_args\<close>: the field of the object is the variable \<open>read\<close> fills.\<close>

definition field_of :: "('r \<Rightarrow> 'a) \<Rightarrow> ('a \<Rightarrow> 'r \<Rightarrow> 'r) \<Rightarrow> 'a rd \<Rightarrow> 'r field_rd" where
  "field_of get put rd r s = sbind (rd (Some (get r)) s) (\<lambda>(ok, v, s1).
     Inr (case v of Some x \<Rightarrow> put x r | None \<Rightarrow> r, s1))"

definition string_field :: "byte_order \<Rightarrow> ('r \<Rightarrow> string) \<Rightarrow> (string \<Rightarrow> 'r \<Rightarrow> 'r) \<Rightarrow> 'r field_rd" where
  "string_field h get put = field_of (bytes_of \<circ> get) (put \<circ> string_of) (read_string h)"

text \<open>A field that is itself \<open>Serializable\<close>.\<close>

definition object_field :: "('r \<Rightarrow> 'a) \<Rightarrow> ('a \<Rightarrow> 'r \<Rightarrow> 'r) \<Rightarrow> ('a \<Rightarrow> data_stream \<Rightarrow> ub + (bool \<times> 'a \<times> data_stream)) \<Rightarrow>
    'r field_rd" where
  "object_field get put uns r s = sbind (uns (get r) s) (\<lambda>(ok, x, s1). Inr (put x r, s1))"

definition qos_unserialize :: "byte_order \<Rightarrow> qos_profile \<Rightarrow> data_stream \<Rightarrow> ub + (bool \<times> qos_profile \<times> data_stream)" where
  "qos_unserialize h = unserialize
     [field_of q_history (\<lambda>x. q_history_update (\<lambda>_. x)) (read_enum h history_int history_of),
      field_of q_depth (\<lambda>x. q_depth_update (\<lambda>_. x)) (read_uint32 h),
      field_of q_mps (\<lambda>x. q_mps_update (\<lambda>_. x)) (read_uint32 h),
      field_of q_msg_size (\<lambda>x. q_msg_size_update (\<lambda>_. x)) (read_uint32 h),
      field_of q_reliability (\<lambda>x. q_reliability_update (\<lambda>_. x)) (read_enum h reliability_int reliability_of),
      field_of q_durability (\<lambda>x. q_durability_update (\<lambda>_. x)) (read_enum h durability_int durability_of)]"

definition attr_unserialize :: "byte_order \<Rightarrow> role_attributes \<Rightarrow> data_stream \<Rightarrow> ub + (bool \<times> role_attributes \<times> data_stream)" where
  "attr_unserialize h = unserialize
     [string_field h ra_host_name (\<lambda>x. ra_host_name_update (\<lambda>_. x)),
      string_field h ra_host_ip (\<lambda>x. ra_host_ip_update (\<lambda>_. x)),
      field_of ra_process_id (\<lambda>x. ra_process_id_update (\<lambda>_. x)) (read_int32 h),
      string_field h ra_channel_name (\<lambda>x. ra_channel_name_update (\<lambda>_. x)),
      object_field ra_qos (\<lambda>x. ra_qos_update (\<lambda>_. x)) (qos_unserialize h),
      field_of ra_id (\<lambda>x. ra_id_update (\<lambda>_. x)) (read_uint64 h),
      string_field h ra_node_name (\<lambda>x. ra_node_name_update (\<lambda>_. x)),
      field_of ra_node_id (\<lambda>x. ra_node_id_update (\<lambda>_. x)) (read_uint64 h),
      string_field h ra_message_type (\<lambda>x. ra_message_type_update (\<lambda>_. x))]"

definition change_unserialize :: "byte_order \<Rightarrow> change_msg \<Rightarrow> data_stream \<Rightarrow> ub + (bool \<times> change_msg \<times> data_stream)" where
  "change_unserialize h = unserialize
     [field_of cm_timestamp (\<lambda>x. cm_timestamp_update (\<lambda>_. x)) (read_uint64 h),
      field_of cm_change_type (\<lambda>x. cm_change_type_update (\<lambda>_. x)) (read_enum h change_type_int change_type_of),
      field_of cm_operate_type (\<lambda>x. cm_operate_type_update (\<lambda>_. x)) (read_enum h operate_type_int operate_type_of),
      field_of cm_role_type (\<lambda>x. cm_role_type_update (\<lambda>_. x)) (read_enum h role_type_int role_type_of),
      object_field cm_role_attr (\<lambda>x. cm_role_attr_update (\<lambda>_. x)) (attr_unserialize h)]"

section \<open>Objects are read back field by field\<close>

definition writes :: "byte_order \<Rightarrow> (data_stream \<Rightarrow> data_stream) \<Rightarrow> byte list \<Rightarrow> bool" where
  "writes hw w bs \<longleftrightarrow> (\<forall>s. m_byteorder s = hw \<longrightarrow> m_buf (w s) = m_buf s @ bs \<and>
     m_pos (w s) = m_pos s \<and> m_byteorder (w s) = m_byteorder s)"

definition reads_field :: "byte_order \<Rightarrow> 'r field_rd \<Rightarrow> byte list \<times> ('r \<Rightarrow> 'r) \<Rightarrow> bool" where
  "reads_field hr f e \<longleftrightarrow> (\<forall>r s. m_byteorder s = hr \<and> at_stream (fst e) s \<longrightarrow>
     f r s = Inr (snd e r, skip (length (fst e)) s))"

lemma write_args_enc:
  "list_all2 (writes hw) ws bss \<Longrightarrow> writes hw (write_args ws) (concat bss)"
proof (induction ws bss rule: list_all2_induct)
  case (Cons w ws bs bss)
  then show ?case by (simp add: writes_def)
qed (simp add: writes_def)

lemma serialize_enc:
  assumes "list_all2 (writes hw) ws bss"
  shows "writes hw (serialize ws) (tag CUSTOM # concat bss)"
  using write_args_enc [OF assms] by (simp add: writes_def serialize_def stream_laws)

lemma read_args_enc:
  "list_all2 (reads_field hr) fs es \<Longrightarrow> m_byteorder s = hr \<Longrightarrow> at_stream (concat (map fst es)) s \<Longrightarrow>
    read_args fs r s = Inr (True, fold snd es r, skip (length (concat (map fst es))) s)"
proof (induction fs es arbitrary: r s rule: list_all2_induct)
  case (Cons f fs e es)
  then have "f r s = Inr (snd e r, skip (length (fst e)) s)"
    by (simp add: reads_field_def at_stream_append)
  with Cons show ?case by (simp add: at_stream_append add.commute)
qed simp

lemma unserialize_enc:
  assumes "list_all2 (reads_field hr) fs es" and "m_byteorder s = hr"
    and "at_stream (tag CUSTOM # concat (map fst es)) s"
  shows "unserialize fs r s =
    Inr (True, fold snd es r, skip (length (tag CUSTOM # concat (map fst es))) s)"
proof -
  have "at_stream [tag CUSTOM] s" "at_stream (concat (map fst es)) (skip 1 s)"
    using assms(3) at_stream_append [of "[tag CUSTOM]" "concat (map fst es)" s] by simp_all
  then show ?thesis
    using read_args_enc [OF assms(1), of "skip 1 s" r] assms(2) bytes_at_stream [of "[tag CUSTOM]" s]
    by (simp add: unserialize_def read_raw_def)
qed

lemma field_of_reads:
  assumes "codec hw hr wr rd enc okv" and "okv x"
  shows "reads_field hr (field_of get put rd) (enc x, put x)"
  using codec.rd_enc [OF assms(1) _ assms(2)] by (simp add: reads_field_def field_of_def)

lemma codec_writes: "codec hw hr wr rd enc okv \<Longrightarrow> writes hw (wr x) (enc x)"
  by (simp add: writes_def codec.wr_buf codec.wr_pos codec.wr_order)

lemma string_of_bytes [simp]: "string_of (bytes_of s) = s"
proof -
  have "char_of (unat (of_nat (of_char c) :: byte)) = c" for c
    by (simp add: unat_of_nat del: of_nat_of_char)
  then show ?thesis by (simp add: string_of_def bytes_of_def comp_def)
qed

lemma length_bytes_of [simp]: "length (bytes_of s) = length s"
  by (simp add: bytes_of_def)

lemma enum_codec:
  assumes "fi (as_int x) = x"
  shows "writes hw (write_enum hw as_int x) (enc_scalar INT32 4 (as_int x))"
    and "reads_field hr (field_of get put (read_enum hr as_int fi)) (enc_scalar INT32 4 (as_int x), put x)"
proof -
  show "writes hw (write_enum hw as_int x) (enc_scalar INT32 4 (as_int x))"
    using codec_writes [OF int32_codec.codec_axioms] by (simp add: writes_def write_enum_def)
  show "reads_field hr (field_of get put (read_enum hr as_int fi)) (enc_scalar INT32 4 (as_int x), put x)"
    using codec.rd_enc [OF int32_codec.codec_axioms [of hr hr], of _ "as_int x"] assms
    by (simp add: reads_field_def field_of_def read_enum_def)
qed

section \<open>The encodings of the three classes\<close>

definition qos_proper :: "qos_profile \<Rightarrow> bool" where
  "qos_proper q \<longleftrightarrow> history_of (history_int (q_history q)) = q_history q \<and>
     reliability_of (reliability_int (q_reliability q)) = q_reliability q \<and>
     durability_of (durability_int (q_durability q)) = q_durability q"

definition attr_proper :: "role_attributes \<Rightarrow> bool" where
  "attr_proper a \<longleftrightarrow> qos_proper (ra_qos a) \<and> length (ra_host_name a) < 2 ^ 31 \<and> length (ra_host_ip a) < 2 ^ 31 \<and>
     length (ra_channel_name a) < 2 ^ 31 \<and> length (ra_node_name a) < 2 ^ 31 \<and> length (ra_message_type a) < 2 ^ 31"

text \<open>Every enumeration holds one of its enumerators and every string fits an \<open>int\<close>.\<close>

definition change_proper :: "change_msg \<Rightarrow> bool" where
  "change_proper m \<longleftrightarrow> change_type_of (change_type_int (cm_change_type m)) = cm_change_type m \<and>
     operate_type_of (operate_type_int (cm_operate_type m)) = cm_operate_type m \<and>
     role_type_of (role_type_int (cm_role_type m)) = cm_role_type m \<and> attr_proper (cm_role_attr m)"

definition qos_enc :: "qos_profile \<Rightarrow> byte list" where
  "qos_enc q = tag CUSTOM # concat [enc_scalar INT32 4 (history_int (q_history q)), enc_scalar UINT32 4 (q_depth q),
     enc_scalar UINT32 4 (q_mps q), enc_scalar UINT32 4 (q_msg_size q),
     enc_scalar INT32 4 (reliability_int (q_reliability q)), enc_scalar INT32 4 (durability_int (q_durability q))]"

definition attr_enc :: "role_attributes \<Rightarrow> byte list" where
  "attr_enc a = tag CUSTOM # concat [enc_string (bytes_of (ra_host_name a)), enc_string (bytes_of (ra_host_ip a)),
     enc_scalar INT32 4 (ra_process_id a), enc_string (bytes_of (ra_channel_name a)), qos_enc (ra_qos a),
     enc_scalar UINT64 8 (ra_id a), enc_string (bytes_of (ra_node_name a)), enc_scalar UINT64 8 (ra_node_id a),
     enc_string (bytes_of (ra_message_type a))]"

definition change_enc :: "change_msg \<Rightarrow> byte list" where
  "change_enc m = tag CUSTOM # concat [enc_scalar UINT64 8 (cm_timestamp m),
     enc_scalar INT32 4 (change_type_int (cm_change_type m)), enc_scalar INT32 4 (operate_type_int (cm_operate_type m)),
     enc_scalar INT32 4 (role_type_int (cm_role_type m)), attr_enc (cm_role_attr m)]"

lemma enum_writes: "writes hw (write_enum hw ai x) (enc_scalar INT32 4 (ai x))"
  using codec_writes [OF int32_codec.codec_axioms] by (simp add: writes_def write_enum_def)

lemmas field_writes = enum_writes
  codec_writes [OF int32_codec.codec_axioms] codec_writes [OF uint32_codec.codec_axioms]
  codec_writes [OF uint64_codec.codec_axioms] codec_writes [OF string_codec.codec_axioms]

text \<open>The update is matched by an equation of its own.\<close>

lemma reads_upd: "reads_field hr f (bs, u) \<Longrightarrow> u' = u \<Longrightarrow> reads_field hr f (bs, u')"
  by simp

lemmas field_reads = enum_codec(2) [THEN reads_upd] field_of_reads [OF int32_codec.codec_axioms TrueI, THEN reads_upd]
  field_of_reads [OF uint32_codec.codec_axioms TrueI, THEN reads_upd]
  field_of_reads [OF uint64_codec.codec_axioms TrueI, THEN reads_upd]

lemma qos_writes: "writes hw (qos_serialize hw q) (qos_enc q)"
  unfolding qos_serialize_def qos_enc_def by (rule serialize_enc) (simp add: field_writes)

lemma attr_writes: "writes hw (attr_serialize hw a) (attr_enc a)"
  unfolding attr_serialize_def attr_enc_def by (rule serialize_enc) (simp add: field_writes qos_writes)

lemma change_writes: "writes hw (change_serialize hw m) (change_enc m)"
  unfolding change_serialize_def change_enc_def by (rule serialize_enc) (simp add: field_writes attr_writes)

lemma string_field_reads:
  "length x < 2 ^ 31 \<Longrightarrow> reads_field hr (string_field hr get put) (enc_string (bytes_of x), put x)"
  using field_of_reads [OF string_codec.codec_axioms [of hr hr], where x = "bytes_of x" and
    get = "bytes_of \<circ> get" and put = "put \<circ> string_of"]
  by (simp add: string_field_def length_bytes_of)

lemma qos_reads:
  assumes "qos_proper q" and "m_byteorder s = hr" and "at_stream (qos_enc q) s"
  shows "qos_unserialize hr r s = Inr (True, q, skip (length (qos_enc q)) s)"
proof -
  let ?es = "[(enc_scalar INT32 4 (history_int (q_history q)), \<lambda>r :: qos_profile. r\<lparr>q_history := q_history q\<rparr>),
    (enc_scalar UINT32 4 (q_depth q), \<lambda>r. r\<lparr>q_depth := q_depth q\<rparr>),
    (enc_scalar UINT32 4 (q_mps q), \<lambda>r. r\<lparr>q_mps := q_mps q\<rparr>),
    (enc_scalar UINT32 4 (q_msg_size q), \<lambda>r. r\<lparr>q_msg_size := q_msg_size q\<rparr>),
    (enc_scalar INT32 4 (reliability_int (q_reliability q)), \<lambda>r. r\<lparr>q_reliability := q_reliability q\<rparr>),
    (enc_scalar INT32 4 (durability_int (q_durability q)), \<lambda>r. r\<lparr>q_durability := q_durability q\<rparr>)]"
  have proper: "history_of (history_int (q_history q)) = q_history q"
    "reliability_of (reliability_int (q_reliability q)) = q_reliability q"
    "durability_of (durability_int (q_durability q)) = q_durability q"
    using assms(1) by (simp_all add: qos_proper_def)
  have "qos_unserialize hr r s =
      Inr (True, fold snd ?es r, skip (length (tag CUSTOM # concat (map fst ?es))) s)"
    unfolding qos_unserialize_def
    by (rule unserialize_enc, (rule list.rel_intros field_reads refl proper)+)
      (use assms in \<open>simp_all add: qos_enc_def\<close>)
  moreover have "fold snd ?es r = q" by simp
  ultimately show ?thesis by (simp add: qos_enc_def)
qed

lemma attr_reads:
  assumes "attr_proper a" and "m_byteorder s = hr" and "at_stream (attr_enc a) s"
  shows "attr_unserialize hr r s =
    Inr (True, a\<lparr>ra_channel_id := ra_channel_id r\<rparr>, skip (length (attr_enc a)) s)"
proof -
  let ?es = "[(enc_string (bytes_of (ra_host_name a)), \<lambda>r :: role_attributes. r\<lparr>ra_host_name := ra_host_name a\<rparr>),
    (enc_string (bytes_of (ra_host_ip a)), \<lambda>r. r\<lparr>ra_host_ip := ra_host_ip a\<rparr>),
    (enc_scalar INT32 4 (ra_process_id a), \<lambda>r. r\<lparr>ra_process_id := ra_process_id a\<rparr>),
    (enc_string (bytes_of (ra_channel_name a)), \<lambda>r. r\<lparr>ra_channel_name := ra_channel_name a\<rparr>),
    (qos_enc (ra_qos a), \<lambda>r. r\<lparr>ra_qos := ra_qos a\<rparr>),
    (enc_scalar UINT64 8 (ra_id a), \<lambda>r. r\<lparr>ra_id := ra_id a\<rparr>),
    (enc_string (bytes_of (ra_node_name a)), \<lambda>r. r\<lparr>ra_node_name := ra_node_name a\<rparr>),
    (enc_scalar UINT64 8 (ra_node_id a), \<lambda>r. r\<lparr>ra_node_id := ra_node_id a\<rparr>),
    (enc_string (bytes_of (ra_message_type a)), \<lambda>r. r\<lparr>ra_message_type := ra_message_type a\<rparr>)]"
  have lens: "length (ra_host_name a) < 2 ^ 31" "length (ra_host_ip a) < 2 ^ 31"
    "length (ra_channel_name a) < 2 ^ 31" "length (ra_node_name a) < 2 ^ 31" "length (ra_message_type a) < 2 ^ 31"
    using assms(1) by (simp_all add: attr_proper_def)
  have qos: "reads_field hr (object_field ra_qos (\<lambda>x. ra_qos_update (\<lambda>_. x)) (qos_unserialize hr))
      (qos_enc (ra_qos a), \<lambda>r. r\<lparr>ra_qos := ra_qos a\<rparr>)"
    using assms(1) qos_reads [of "ra_qos a" _ hr] by (simp add: reads_field_def object_field_def attr_proper_def)
  have "attr_unserialize hr r s =
      Inr (True, fold snd ?es r, skip (length (tag CUSTOM # concat (map fst ?es))) s)"
    unfolding attr_unserialize_def
    by (rule unserialize_enc, (rule list.rel_intros qos field_reads string_field_reads [THEN reads_upd] refl lens)+)
      (use assms in \<open>simp_all add: attr_enc_def\<close>)
  moreover have "fold snd ?es r = a\<lparr>ra_channel_id := ra_channel_id r\<rparr>" by simp
  ultimately show ?thesis by (simp add: attr_enc_def)
qed

lemma change_reads:
  assumes "change_proper m" and "m_byteorder s = hr" and "at_stream (change_enc m) s"
  shows "change_unserialize hr r s =
    Inr (True, m\<lparr>cm_role_attr := (cm_role_attr m)\<lparr>ra_channel_id := ra_channel_id (cm_role_attr r)\<rparr>\<rparr>,
      skip (length (change_enc m)) s)"
proof -
  let ?es = "[(enc_scalar UINT64 8 (cm_timestamp m), \<lambda>r :: change_msg. r\<lparr>cm_timestamp := cm_timestamp m\<rparr>),
    (enc_scalar INT32 4 (change_type_int (cm_change_type m)), \<lambda>r. r\<lparr>cm_change_type := cm_change_type m\<rparr>),
    (enc_scalar INT32 4 (operate_type_int (cm_operate_type m)), \<lambda>r. r\<lparr>cm_operate_type := cm_operate_type m\<rparr>),
    (enc_scalar INT32 4 (role_type_int (cm_role_type m)), \<lambda>r. r\<lparr>cm_role_type := cm_role_type m\<rparr>),
    (attr_enc (cm_role_attr m), \<lambda>r. r\<lparr>cm_role_attr :=
       (cm_role_attr m)\<lparr>ra_channel_id := ra_channel_id (cm_role_attr r)\<rparr>\<rparr>)]"
  have proper: "change_type_of (change_type_int (cm_change_type m)) = cm_change_type m"
    "operate_type_of (operate_type_int (cm_operate_type m)) = cm_operate_type m"
    "role_type_of (role_type_int (cm_role_type m)) = cm_role_type m"
    using assms(1) by (simp_all add: change_proper_def)
  have attr: "reads_field hr (object_field cm_role_attr (\<lambda>x. cm_role_attr_update (\<lambda>_. x)) (attr_unserialize hr))
      (attr_enc (cm_role_attr m), \<lambda>r. r\<lparr>cm_role_attr :=
        (cm_role_attr m)\<lparr>ra_channel_id := ra_channel_id (cm_role_attr r)\<rparr>\<rparr>)"
    using assms(1) attr_reads [of "cm_role_attr m" _ hr]
    by (simp add: reads_field_def object_field_def change_proper_def)
  have "change_unserialize hr r s =
      Inr (True, fold snd ?es r, skip (length (tag CUSTOM # concat (map fst ?es))) s)"
    unfolding change_unserialize_def
    by (rule unserialize_enc, (rule list.rel_intros attr field_reads refl proper)+)
      (use assms in \<open>simp_all add: change_enc_def\<close>)
  moreover have "fold snd ?es r =
      m\<lparr>cm_role_attr := (cm_role_attr m)\<lparr>ra_channel_id := ra_channel_id (cm_role_attr r)\<rparr>\<rparr>" by simp
  ultimately show ?thesis by (simp add: change_enc_def)
qed

text \<open>A topology change that is broadcast arrives unchanged on every host, whatever the byte
  orders, except for the channel id of its role: \<open>channel_id\<close> is missing from the
  \<open>SERIALIZE\<close> list of \<open>RoleAttributes\<close>, so the receiver is left with the one its object had before.\<close>

lemma change_msg_loses_channel_id:
  assumes "change_proper m"
  shows "\<exists>s. change_unserialize hr old (stream_of hr (ds_data (change_serialize hw m (new_stream hw)))) =
    Inr (True, m\<lparr>cm_role_attr := (cm_role_attr m)\<lparr>ra_channel_id := ra_channel_id (cm_role_attr old)\<rparr>\<rparr>, s)"
proof -
  have "ds_data (change_serialize hw m (new_stream hw)) = change_enc m"
    using change_writes [of hw m] by (simp add: writes_def ds_data_def new_stream_def byteorder_host)
  then show ?thesis
    using change_reads [OF assms at_stream_of(2) at_stream_of(1)] by simp
qed

definition sample_attr :: role_attributes where
  "sample_attr = \<lparr>ra_host_name = ''h'', ra_host_ip = ''127.0.0.1'', ra_process_id = 7, ra_channel_name = ''c'',
     ra_channel_id = 42, ra_qos = qos_default, ra_id = 5, ra_node_name = ''n'', ra_node_id = 9,
     ra_message_type = ''T''\<rparr>"

definition sample_change :: change_msg where
  "sample_change = \<lparr>cm_timestamp = 1, cm_change_type = CHANGE_CHANNEL, cm_operate_type = OPT_JOIN,
     cm_role_type = ROLE_WRITER, cm_role_attr = sample_attr\<rparr>"

lemma sample_proper: "change_proper sample_change"
  by (simp add: sample_change_def sample_attr_def change_proper_def attr_proper_def qos_proper_def qos_default_def
    change_type_of_def operate_type_of_def role_type_of_def history_of_def reliability_of_def durability_of_def)

lemma change_msg_loses_channel_id_witness:
  "\<exists>s. change_unserialize LittleEndian (sample_change\<lparr>cm_role_attr := sample_attr\<lparr>ra_channel_id := 1\<rparr>\<rparr>)
      (stream_of LittleEndian (ds_data (change_serialize BigEndian sample_change (new_stream BigEndian)))) =
    Inr (True, sample_change\<lparr>cm_role_attr := sample_attr\<lparr>ra_channel_id := 1\<rparr>\<rparr>, s)"
  using change_msg_loses_channel_id [OF sample_proper, of LittleEndian
      "sample_change\<lparr>cm_role_attr := sample_attr\<lparr>ra_channel_id := 1\<rparr>\<rparr>" BigEndian]
  by (simp add: sample_change_def sample_attr_def)

end
