(* ===== verification/Discovery_Graph.thy ===== *)
theory Discovery_Graph
  imports Cmw_Prelude "HOL-Library.AList"
begin

text \<open>
  The node graph of \<open>discovery/container/graph.h\<close> and \<open>graph.cpp\<close>: vertices are nodes,
  edges carry a channel name. An \<open>unordered_map\<close> is an association list with distinct keys, in
  the order in which it is iterated; no result depends on that order. \<open>operator[]\<close> inserts a
  default entry where the code does.
\<close>

section \<open>Vertices and edges\<close>

datatype vertice = Vertice (v_value: string)

definition is_dummy :: "vertice \<Rightarrow> bool" where "is_dummy v \<longleftrightarrow> v_value v = []"
definition v_key :: "vertice \<Rightarrow> string" where "v_key v = v_value v"

record edge =
  e_src :: vertice
  e_dst :: vertice
  e_value :: string

definition new_edge :: edge where
  "new_edge = \<lparr>e_src = Vertice [], e_dst = Vertice [], e_value = []\<rparr>"

definition is_valid :: "edge \<Rightarrow> bool" where
  "is_valid e = (if e_value e = [] then False
     else if is_dummy (e_src e) \<and> is_dummy (e_dst e) then False else True)"

definition e_key :: "edge \<Rightarrow> string" where
  "e_key e = e_value e @ ''_'' @ v_key (e_dst e)"

section \<open>Graph\<close>

type_synonym vertice_set = "(string \<times> vertice) list"

record related =
  r_src :: vertice_set
  r_dst :: vertice_set

record graph =
  g_edges :: "(string \<times> related) list"
  g_list :: "(string \<times> vertice_set) list"

definition new_graph :: graph where "new_graph = \<lparr>g_edges = [], g_list = []\<rparr>"

definition has_key :: "string \<Rightarrow> (string \<times> 'a) list \<Rightarrow> bool" where
  "has_key k al \<longleftrightarrow> k \<in> fst ` set al"

text \<open>\<open>edges_[k]\<close> and \<open>list_[k]\<close> read the entry after the default one is inserted.\<close>

definition edges_at :: "string \<Rightarrow> graph \<Rightarrow> related" where
  "edges_at k g = (case map_of (g_edges g) k of Some r \<Rightarrow> r | None \<Rightarrow> \<lparr>r_src = [], r_dst = []\<rparr>)"

definition list_at :: "string \<Rightarrow> graph \<Rightarrow> vertice_set" where
  "list_at k g = (case map_of (g_list g) k of Some s \<Rightarrow> s | None \<Rightarrow> [])"

definition list_touch :: "string \<Rightarrow> graph \<Rightarrow> graph" where
  "list_touch k g = (if has_key k (g_list g) then g else g\<lparr>g_list := AList.update k [] (g_list g)\<rparr>)"

definition insert_complete_edge :: "edge \<Rightarrow> graph \<Rightarrow> graph" where
  "insert_complete_edge e g =
     (let src_v_k = v_key (e_src e);
          g1 = list_touch src_v_k g;
          dst_v_k = v_key (e_dst e);
          g2 = list_touch dst_v_k g1
      in g2\<lparr>g_list := AList.update src_v_k (AList.update (e_key e) (e_dst e) (list_at src_v_k g2)) (g_list g2)\<rparr>)"

definition delete_complete_edge :: "edge \<Rightarrow> graph \<Rightarrow> graph" where
  "delete_complete_edge e g =
     (let src_v_k = v_key (e_src e)
      in g\<lparr>g_list := AList.update src_v_k (AList.delete (e_key e) (list_at src_v_k g)) (g_list g)\<rparr>)"

definition insert_incoming_edge :: "edge \<Rightarrow> graph \<Rightarrow> graph" where
  "insert_incoming_edge e g =
     (let r = edges_at (e_value e) g; v_k = v_key (e_dst e)
      in if has_key v_k (r_dst r) then g
         else let r1 = r\<lparr>r_dst := AList.update v_k (e_dst e) (r_dst r)\<rparr>
           in fold (\<lambda>item. insert_complete_edge
                  (new_edge\<lparr>e_dst := e_dst e, e_value := e_value e, e_src := snd item\<rparr>))
                (r_src r1) (g\<lparr>g_edges := AList.update (e_value e) r1 (g_edges g)\<rparr>))"

definition insert_outgoing_edge :: "edge \<Rightarrow> graph \<Rightarrow> graph" where
  "insert_outgoing_edge e g =
     (let r = edges_at (e_value e) g; v_k = v_key (e_src e)
      in if has_key v_k (r_src r) then g
         else let r1 = r\<lparr>r_src := AList.update v_k (e_src e) (r_src r)\<rparr>
           in fold (\<lambda>item. insert_complete_edge
                  (new_edge\<lparr>e_src := e_src e, e_value := e_value e, e_dst := snd item\<rparr>))
                (r_dst r1) (g\<lparr>g_edges := AList.update (e_value e) r1 (g_edges g)\<rparr>))"

definition delete_outgoing_edge :: "edge \<Rightarrow> graph \<Rightarrow> graph" where
  "delete_outgoing_edge e g =
     (let r = edges_at (e_value e) g; v_k = v_key (e_src e)
      in if \<not> has_key v_k (r_src r) then g
         else let r1 = r\<lparr>r_src := AList.delete v_k (r_src r)\<rparr>
           in fold (\<lambda>item. delete_complete_edge
                  (new_edge\<lparr>e_src := e_src e, e_value := e_value e, e_dst := snd item\<rparr>))
                (r_dst r1) (g\<lparr>g_edges := AList.update (e_value e) r1 (g_edges g)\<rparr>))"

definition delete_incoming_edge :: "edge \<Rightarrow> graph \<Rightarrow> graph" where
  "delete_incoming_edge e g =
     (let r = edges_at (e_value e) g; v_k = v_key (e_dst e)
      in if \<not> has_key v_k (r_dst r) then g
         else let r1 = r\<lparr>r_dst := AList.delete v_k (r_dst r)\<rparr>
           in fold (\<lambda>item. delete_complete_edge
                  (new_edge\<lparr>e_dst := e_dst e, e_value := e_value e, e_src := snd item\<rparr>))
                (r_src r1) (g\<lparr>g_edges := AList.update (e_value e) r1 (g_edges g)\<rparr>))"

definition graph_insert :: "edge \<Rightarrow> graph \<Rightarrow> graph" where
  "graph_insert e g =
     (if \<not> is_valid e then g
      else let g1 = (if has_key (e_value e) (g_edges g) then g
                     else g\<lparr>g_edges := AList.update (e_value e) \<lparr>r_src = [], r_dst = []\<rparr> (g_edges g)\<rparr>);
               g2 = (if is_dummy (e_src e) then g1 else insert_outgoing_edge e g1)
           in if is_dummy (e_dst e) then g2 else insert_incoming_edge e g2)"

definition graph_delete :: "edge \<Rightarrow> graph \<Rightarrow> graph" where
  "graph_delete e g =
     (if \<not> is_valid e then g
      else if \<not> has_key (e_value e) (g_edges g) then g
      else let g1 = (if is_dummy (e_src e) then g else delete_outgoing_edge e g)
           in if is_dummy (e_dst e) then g1 else delete_incoming_edge e g1)"

definition get_num_of_edge :: "graph \<Rightarrow> u32" where
  "get_num_of_edge g = fold (\<lambda>item num. num + of_nat (length (snd item))) (g_list g) 0"

section \<open>Breadth-first search\<close>

text \<open>The loop of \<open>LevelTraverse\<close>: the visited marks and the graph when it ends.\<close>

definition targets :: "graph \<Rightarrow> vertice set" where
  "targets g = (\<Union>s \<in> snd ` set (g_list g). snd ` set s)"

definition pending :: "(string \<Rightarrow> bool) \<Rightarrow> vertice list \<Rightarrow> graph \<Rightarrow> string set" where
  "pending visited unvisited g = {k \<in> v_key ` (set unvisited \<union> targets g). \<not> visited k}"

lemma pending_finite [simp]: "finite (pending visited unvisited g)"
  by (auto simp: pending_def targets_def)

lemma targets_touch [simp]: "targets (list_touch k g) = targets g"
proof -
  have "k \<notin> fst ` set al \<Longrightarrow> AList.update k [] al = al @ [(k, [])]" for al :: "(string \<times> vertice_set) list"
    by (induction al) auto
  then show ?thesis by (auto simp: list_touch_def has_key_def targets_def)
qed

lemma list_at_targets: "snd ` set (list_at k g) \<subseteq> targets g"
  unfolding targets_def
  by (cases "map_of (g_list g) k") (force simp: list_at_def dest: map_of_SomeD)+

function level_loop ::
    "vertice \<Rightarrow> (string \<Rightarrow> bool) \<Rightarrow> vertice list \<Rightarrow> graph \<Rightarrow> (string \<Rightarrow> bool) \<times> graph" where
  "level_loop end_v visited [] g = (visited, g)"
| "level_loop end_v visited (cur # unvisited) g =
     (if visited (v_key cur) then level_loop end_v visited unvisited g
      else let visited1 = visited(v_key cur := True)
        in if cur = end_v then (visited1, g)
           else level_loop end_v visited1 (unvisited @ map snd (list_at (v_key cur) g))
             (list_touch (v_key cur) g))"
  by pat_completeness auto

termination
proof (relation "(\<lambda>(e, vis, q, g). card (pending vis q g)) <*mlex*> measure (\<lambda>(e, vis, q, g). length q)")
  show "wf ((\<lambda>(e, vis, q, g). card (pending vis q g)) <*mlex*> measure (\<lambda>(e, vis, q, g). length q))"
    by (simp add: wf_mlex)
next
  fix e :: vertice and vis cur q g
  assume "vis (v_key cur)"
  then have "pending vis q g \<subseteq> pending vis (cur # q) g"
    by (auto simp: pending_def)
  then have "card (pending vis q g) \<le> card (pending vis (cur # q) g)"
    by (simp add: card_mono)
  then show "((e, vis, q, g), e, vis, cur # q, g)
      \<in> (\<lambda>(e, vis, q, g). card (pending vis q g)) <*mlex*> measure (\<lambda>(e, vis, q, g). length q)"
    by (simp add: mlex_leq)
next
  fix e :: vertice and vis cur q g vis1
  assume new: "\<not> vis (v_key cur)" and vis1: "vis1 = vis(v_key cur := True)"
  let ?q = "q @ map snd (list_at (v_key cur) g)" and ?g = "list_touch (v_key cur) g"
  have "pending vis1 ?q ?g \<subseteq> pending vis (cur # q) g"
    using list_at_targets [of "v_key cur" g] by (auto simp: pending_def vis1 split: if_splits)
  moreover have "v_key cur \<in> pending vis (cur # q) g" "v_key cur \<notin> pending vis1 ?q ?g"
    using new by (auto simp: pending_def vis1)
  ultimately have "card (pending vis1 ?q ?g) < card (pending vis (cur # q) g)"
    by (intro psubset_card_mono) auto
  then show "((e, vis1, ?q, ?g), e, vis, cur # q, g)
      \<in> (\<lambda>(e, vis, q, g). card (pending vis q g)) <*mlex*> measure (\<lambda>(e, vis, q, g). length q)"
    by (simp add: mlex_less)
qed

definition level_traverse :: "vertice \<Rightarrow> vertice \<Rightarrow> graph \<Rightarrow> bool \<times> graph" where
  "level_traverse start_v end_v g =
     (case level_loop end_v (\<lambda>_. False) [start_v] g of (visited, g1) \<Rightarrow> (visited (v_key end_v), g1))"

datatype flow_direction = UNREACHABLE | UPSTREAM | DOWNSTREAM

definition get_direction_of :: "vertice \<Rightarrow> vertice \<Rightarrow> graph \<Rightarrow> flow_direction \<times> graph" where
  "get_direction_of lhs rhs g =
     (if is_dummy lhs \<or> is_dummy rhs then (UNREACHABLE, g)
      else if \<not> has_key (v_key lhs) (g_list g) \<or> \<not> has_key (v_key rhs) (g_list g) then (UNREACHABLE, g)
      else case level_traverse lhs rhs g of
        (True, g1) \<Rightarrow> (UPSTREAM, g1)
      | (False, g1) \<Rightarrow> (case level_traverse rhs lhs g1 of
          (True, g2) \<Rightarrow> (DOWNSTREAM, g2)
        | (False, g2) \<Rightarrow> (UNREACHABLE, g2)))"

section \<open>The search decides reachability\<close>

definition adj :: "graph \<Rightarrow> (vertice \<times> vertice) set" where
  "adj g = {(u, v). v \<in> snd ` set (list_at (v_key u) g)}"

lemma v_key_eq [simp]: "v_key u = v_key v \<longleftrightarrow> u = v"
  by (cases u; cases v) (simp add: v_key_def)

lemma map_of_has_key: "has_key k al \<longleftrightarrow> map_of al k \<noteq> None"
  by (simp add: has_key_def map_of_eq_None_iff)

lemma list_at_touch [simp]: "list_at k (list_touch k' g) = list_at k g"
  by (auto simp: list_at_def list_touch_def update_conv' map_of_has_key split: option.split)

lemma adj_touch [simp]: "adj (list_touch k g) = adj g"
  by (simp add: adj_def)

lemma list_touch_known: "has_key k (g_list g) \<Longrightarrow> list_touch k g = g"
  by (simp add: list_touch_def)

lemma level_loop_cases:
  "visited (v_key cur) \<Longrightarrow>
    level_loop end_v visited (cur # unvisited) g = level_loop end_v visited unvisited g"
  "\<not> visited (v_key end_v) \<Longrightarrow>
    level_loop end_v visited (end_v # unvisited) g = (visited(v_key end_v := True), g)"
  "\<not> visited (v_key cur) \<Longrightarrow> cur \<noteq> end_v \<Longrightarrow> level_loop end_v visited (cur # unvisited) g =
    level_loop end_v (visited(v_key cur := True)) (unvisited @ map snd (list_at (v_key cur) g))
      (list_touch (v_key cur) g)"
  by simp_all

declare level_loop.simps(2) [simp del]

text \<open>An induction rule with one case for each exit of the loop body.\<close>

lemma level_loop_induct [case_names exhausted seen found expand]:
  assumes "\<And>vis g. P vis [] g"
    and "\<And>vis cur q g. vis (v_key cur) \<Longrightarrow> P vis q g \<Longrightarrow> P vis (cur # q) g"
    and "\<And>vis q g. \<not> vis (v_key e) \<Longrightarrow> P vis (e # q) g"
    and "\<And>vis cur q g. \<not> vis (v_key cur) \<Longrightarrow> cur \<noteq> e \<Longrightarrow>
      P (vis(v_key cur := True)) (q @ map snd (list_at (v_key cur) g)) (list_touch (v_key cur) g) \<Longrightarrow>
      P vis (cur # q) g"
  shows "P vis q g"
proof -
  have "end_v = e \<Longrightarrow> P vis q g" for end_v
  proof (induction end_v vis q g rule: level_loop.induct)
    case (2 end_v vis cur q g)
    show ?case
    proof (cases "vis (v_key cur)")
      case True
      from "2.IH"(1) [OF this "2.prems"] assms(2) [of vis cur, OF True] show ?thesis by simp
    next
      case False
      show ?thesis
      proof (cases "cur = e")
        case True
        with assms(3) [of vis] False show ?thesis by simp
      next
        case ne: False
        with "2.prems" have "cur \<noteq> end_v" by simp
        from assms(4) [of vis cur q g, OF False ne "2.IH"(2) [OF False refl this "2.prems"]]
        show ?thesis .
      qed
    qed
  qed (rule assms(1))
  then show ?thesis by simp
qed

lemma level_loop_sound:
  "level_loop e vis q g = (vis', g') \<Longrightarrow> vis' (v_key v) \<Longrightarrow>
    vis (v_key v) \<or> (\<exists>s \<in> set q. (s, v) \<in> (adj g)\<^sup>*)"
proof (induction vis q g rule: level_loop_induct [where e = e])
  case (expand vis cur q g)
  then have "level_loop e (vis(v_key cur := True)) (q @ map snd (list_at (v_key cur) g))
      (list_touch (v_key cur) g) = (vis', g')"
    by (simp add: level_loop_cases)
  from expand.IH [OF this expand.prems(2)] consider "vis (v_key v)" | "v = cur"
    | s where "s \<in> set q" "(s, v) \<in> (adj g)\<^sup>*"
    | s where "s \<in> snd ` set (list_at (v_key cur) g)" "(s, v) \<in> (adj g)\<^sup>*"
    by (auto split: if_splits)
  then show ?case
  proof cases
    case (4 s)
    then have "(cur, s) \<in> adj g" by (simp add: adj_def)
    from converse_rtrancl_into_rtrancl [OF this 4(2)] show ?thesis by simp
  qed auto
qed (auto simp: level_loop_cases split: if_splits)

lemma level_loop_complete:
  "level_loop e vis q g = (vis', g') \<Longrightarrow> \<not> vis' (v_key e) \<Longrightarrow>
    (\<forall>k. vis k \<longrightarrow> vis' k) \<and> (\<forall>v \<in> set q. vis' (v_key v)) \<and>
    (\<forall>u v. vis' (v_key u) \<and> \<not> vis (v_key u) \<and> (u, v) \<in> adj g \<longrightarrow> vis' (v_key v))"
proof (induction vis q g rule: level_loop_induct [where e = e])
  case (expand vis cur q g)
  have "level_loop e (vis(v_key cur := True)) (q @ map snd (list_at (v_key cur) g))
      (list_touch (v_key cur) g) = (vis', g')"
    using expand.prems(1) expand(1,2) by (simp add: level_loop_cases)
  note ih = expand.IH [OF this expand.prems(2)]
  have mono: "vis' k" if "vis k \<or> k = v_key cur" for k
    using spec [OF conjunct1 [OF ih], of k] that by (auto split: if_splits)
  have next_ok: "vis' (v_key v)" if "v \<in> set q \<or> v \<in> snd ` set (list_at (v_key cur) g)" for v
    using conjunct1 [OF conjunct2 [OF ih]] that by auto
  have ih: "vis' (v_key v)" if "vis' (v_key u)" "\<not> vis (v_key u)" "u \<noteq> cur" "(u, v) \<in> adj g" for u v
    using conjunct2 [OF conjunct2 [OF ih], rule_format, of u v] that by simp
  have succ: "vis' (v_key v)" if "(cur, v) \<in> adj g" for v
    using that next_ok by (simp add: adj_def)
  have "vis' (v_key v)" if "vis' (v_key u)" "\<not> vis (v_key u)" "(u, v) \<in> adj g" for u v
    using that ih succ by (cases "u = cur") simp_all
  then have "\<forall>u v. vis' (v_key u) \<and> \<not> vis (v_key u) \<and> (u, v) \<in> adj g \<longrightarrow> vis' (v_key v)"
    by blast
  then show ?case using mono next_ok by simp
qed (auto simp: level_loop_cases)

lemma level_loop_graph:
  "level_loop e vis q g = (vis', g') \<Longrightarrow> \<forall>v \<in> set q \<union> targets g. has_key (v_key v) (g_list g) \<Longrightarrow> g' = g"
proof (induction vis q g rule: level_loop_induct [where e = e])
  case (expand vis cur q g)
  then have "list_touch (v_key cur) g = g" by (simp add: list_touch_known)
  moreover have "\<forall>v \<in> snd ` set (list_at (v_key cur) g). v \<in> targets g"
    using list_at_targets by blast
  ultimately show ?case
    using expand by (simp add: level_loop_cases ball_Un fun_upd_def)
qed (auto simp: level_loop_cases)

lemma level_traverse_reaches:
  "fst (level_traverse u v g) \<longleftrightarrow> (u, v) \<in> (adj g)\<^sup>*"
proof -
  obtain vis' g' where run: "level_loop v (\<lambda>_. False) [u] g = (vis', g')" by force
  have "vis' (v_key v)" if "(u, v) \<in> (adj g)\<^sup>*"
  proof (rule ccontr)
    assume "\<not> vis' (v_key v)"
    note closed = level_loop_complete [OF run this]
    from that have "vis' (v_key v)"
      by (induction rule: rtrancl_induct) (use closed in auto)
    with \<open>\<not> vis' (v_key v)\<close> show False ..
  qed
  with level_loop_sound [OF run, of v] show ?thesis
    by (auto simp: level_traverse_def run simp del: level_loop.simps)
qed

lemma level_traverse_graph:
  "\<forall>v \<in> targets g. has_key (v_key v) (g_list g) \<Longrightarrow> has_key (v_key u) (g_list g) \<Longrightarrow>
    level_traverse u v g = ((u, v) \<in> (adj g)\<^sup>*, g)"
  using level_loop_graph [of v "\<lambda>_. False" "[u]" g] level_traverse_reaches [of u v g]
  by (cases "level_loop v (\<lambda>_. False) [u] g") (auto simp: level_traverse_def)

section \<open>The edge sets behind the adjacency lists\<close>

text \<open>
  What the graph is to represent: for every channel the nodes that write it and those that read
  it. \<open>edge_at g u k\<close> is the target stored in the adjacency list of \<open>u\<close> under the key \<open>k\<close>.
\<close>

definition writers :: "graph \<Rightarrow> string \<Rightarrow> vertice set" where
  "writers g c = snd ` set (r_src (edges_at c g))"

definition readers :: "graph \<Rightarrow> string \<Rightarrow> vertice set" where
  "readers g c = snd ` set (r_dst (edges_at c g))"

definition edge_at :: "graph \<Rightarrow> vertice \<Rightarrow> string \<Rightarrow> vertice option" where
  "edge_at g u k = map_of (list_at (v_key u) g) k"

abbreviation key_of :: "string \<Rightarrow> vertice \<Rightarrow> string" where
  "key_of c v \<equiv> c @ ''_'' @ v_key v"

text \<open>Channels and nodes whose concatenated keys can be told apart.\<close>

definition separated :: "string set \<Rightarrow> vertice set \<Rightarrow> bool" where
  "separated C N \<longleftrightarrow> (\<forall>c \<in> C. \<forall>c' \<in> C. \<forall>v \<in> N. \<forall>v' \<in> N. key_of c v = key_of c' v' \<longrightarrow> c = c')"

definition well_keyed :: "vertice_set \<Rightarrow> bool" where
  "well_keyed vs \<longleftrightarrow> distinct (map fst vs) \<and> (\<forall>(k, v) \<in> set vs. k = v_key v)"

definition unique_keys :: "graph \<Rightarrow> bool" where
  "unique_keys g \<longleftrightarrow> distinct (map fst (g_list g)) \<and> (\<forall>u. distinct (map fst (list_at (v_key u) g))) \<and>
     (\<forall>c. well_keyed (r_src (edges_at c g)) \<and> well_keyed (r_dst (edges_at c g)))"

definition within :: "string set \<Rightarrow> vertice set \<Rightarrow> graph \<Rightarrow> bool" where
  "within C N g \<longleftrightarrow> (\<forall>c. writers g c \<noteq> {} \<or> readers g c \<noteq> {} \<longrightarrow> c \<in> C) \<and> (\<forall>c. readers g c \<subseteq> N)"

definition edges_agree :: "graph \<Rightarrow> bool" where
  "edges_agree g \<longleftrightarrow> (\<forall>u k v. edge_at g u k = Some v \<longleftrightarrow>
     (\<exists>c. k = key_of c v \<and> u \<in> writers g c \<and> v \<in> readers g c))"

definition ends_listed :: "graph \<Rightarrow> bool" where
  "ends_listed g \<longleftrightarrow> (\<forall>u k v. edge_at g u k = Some v \<longrightarrow>
     has_key (v_key u) (g_list g) \<and> has_key (v_key v) (g_list g))"

definition graph_inv :: "string set \<Rightarrow> vertice set \<Rightarrow> graph \<Rightarrow> bool" where
  "graph_inv C N g \<longleftrightarrow> unique_keys g \<and> within C N g \<and> edges_agree g \<and> ends_listed g"

lemma has_key_update [simp]: "has_key k (AList.update k' x al) \<longleftrightarrow> k = k' \<or> has_key k al"
  by (simp add: map_of_has_key update_conv')

lemma well_keyed_has: "well_keyed vs \<Longrightarrow> has_key (v_key v) vs \<longleftrightarrow> v \<in> snd ` set vs"
  by (force simp: well_keyed_def has_key_def image_iff)

lemma well_keyed_new: "\<not> has_key k vs \<Longrightarrow> AList.update k v vs = vs @ [(k, v)]"
  by (induction vs) (auto simp: has_key_def)

lemma well_keyed_update:
  assumes "well_keyed vs" and "\<not> has_key (v_key v) vs"
  shows "well_keyed (AList.update (v_key v) v vs)"
    and "snd ` set (AList.update (v_key v) v vs) = insert v (snd ` set vs)"
  using assms by (auto simp: well_keyed_new) (auto simp: well_keyed_def has_key_def)

lemma well_keyed_delete:
  assumes "well_keyed vs"
  shows "well_keyed (AList.delete (v_key v) vs)"
    and "snd ` set (AList.delete (v_key v) vs) = snd ` set vs - {v}"
  using assms by (force simp: well_keyed_def AList.delete_eq distinct_map_filter)+

lemma list_at_set [simp]:
  "list_at k (g\<lparr>g_list := AList.update k' s (g_list g)\<rparr>) = (if k = k' then s else list_at k g)"
  by (simp add: list_at_def update_conv')

lemma list_at_edges [simp]: "list_at k (g\<lparr>g_edges := x\<rparr>) = list_at k g"
  by (simp add: list_at_def)

lemma edges_at_list [simp]: "edges_at k (g\<lparr>g_list := x\<rparr>) = edges_at k g"
  by (simp add: edges_at_def)

lemma edges_at_set [simp]:
  "edges_at k (g\<lparr>g_edges := AList.update k' r (g_edges g)\<rparr>) = (if k = k' then r else edges_at k g)"
  by (simp add: edges_at_def update_conv')

lemma edges_touch [simp]: "g_edges (list_touch k g) = g_edges g"
  by (simp add: list_touch_def)

lemma has_key_touch [simp]:
  "has_key k (g_list (list_touch k' g)) \<longleftrightarrow> k = k' \<or> has_key k (g_list g)"
  by (auto simp: list_touch_def)

lemma distinct_touch [simp]:
  "distinct (map fst (g_list (list_touch k g))) \<longleftrightarrow> distinct (map fst (g_list g))"
  by (auto simp: list_touch_def has_key_def well_keyed_new update_keys distinct_update)


section \<open>What one complete edge changes\<close>

lemma insert_complete_laws:
  fixes e :: edge and g :: graph
  defines "g1 \<equiv> insert_complete_edge e g"
  shows "edge_at g1 u k = (if u = e_src e \<and> k = e_key e then Some (e_dst e) else edge_at g u k)"
    and "has_key k (g_list g1) \<longleftrightarrow> k = v_key (e_src e) \<or> k = v_key (e_dst e) \<or> has_key k (g_list g)"
    and "g_edges g1 = g_edges g"
    and "distinct (map fst (g_list g)) \<Longrightarrow> distinct (map fst (g_list g1))"
    and "\<forall>u. distinct (map fst (list_at (v_key u) g)) \<Longrightarrow> distinct (map fst (list_at (v_key u) g1))"
  unfolding g1_def insert_complete_edge_def Let_def
  by (auto simp: edge_at_def update_conv' distinct_update)

lemma delete_complete_laws:
  fixes e :: edge and g :: graph
  defines "g1 \<equiv> delete_complete_edge e g"
  shows "edge_at g1 u k = (if u = e_src e \<and> k = e_key e then None else edge_at g u k)"
    and "has_key k (g_list g1) \<longleftrightarrow> k = v_key (e_src e) \<or> has_key k (g_list g)"
    and "g_edges g1 = g_edges g"
    and "distinct (map fst (g_list g)) \<Longrightarrow> distinct (map fst (g_list g1))"
    and "\<forall>u. distinct (map fst (list_at (v_key u) g)) \<Longrightarrow> distinct (map fst (list_at (v_key u) g1))"
  unfolding g1_def delete_complete_edge_def Let_def
  by (auto simp: edge_at_def delete_conv' distinct_update distinct_delete)

text \<open>A loop over one side of a channel: each item yields an edge \<open>mk item\<close>.\<close>

definition one_target :: "('i \<Rightarrow> edge) \<Rightarrow> 'i list \<Rightarrow> bool" where
  "one_target mk items \<longleftrightarrow> (\<forall>i \<in> set items. \<forall>j \<in> set items.
     e_src (mk i) = e_src (mk j) \<and> e_key (mk i) = e_key (mk j) \<longrightarrow> e_dst (mk i) = e_dst (mk j))"

lemma one_target_Cons:
  assumes "one_target mk (i # items)"
  shows "one_target mk items" and "j \<in> set items \<Longrightarrow> u = e_src (mk i) \<Longrightarrow> k = e_key (mk i) \<Longrightarrow>
    u = e_src (mk j) \<Longrightarrow> k = e_key (mk j) \<Longrightarrow> e_dst (mk j) = e_dst (mk i)"
proof -
  show "one_target mk items"
    using assms unfolding one_target_def set_simps by blast
  show "j \<in> set items \<Longrightarrow> u = e_src (mk i) \<Longrightarrow> k = e_key (mk i) \<Longrightarrow>
    u = e_src (mk j) \<Longrightarrow> k = e_key (mk j) \<Longrightarrow> e_dst (mk j) = e_dst (mk i)"
    using assms unfolding one_target_def set_simps by (metis insertI1 insertI2)
qed

lemma insert_loop_laws:
  fixes mk :: "'i \<Rightarrow> edge" and g :: graph and items :: "'i list"
  assumes "one_target mk items"
  defines "g1 \<equiv> fold (\<lambda>i. insert_complete_edge (mk i)) items g"
  shows "edge_at g1 u k = Some v \<longleftrightarrow>
      (\<exists>i \<in> set items. u = e_src (mk i) \<and> k = e_key (mk i) \<and> v = e_dst (mk i)) \<or>
      edge_at g u k = Some v \<and> \<not> (\<exists>i \<in> set items. u = e_src (mk i) \<and> k = e_key (mk i))"
    and "has_key k (g_list g1) \<longleftrightarrow>
      (\<exists>i \<in> set items. k = v_key (e_src (mk i)) \<or> k = v_key (e_dst (mk i))) \<or> has_key k (g_list g)"
    and "g_edges g1 = g_edges g"
    and "distinct (map fst (g_list g)) \<Longrightarrow> distinct (map fst (g_list g1))"
    and "\<forall>u. distinct (map fst (list_at (v_key u) g)) \<Longrightarrow> \<forall>u. distinct (map fst (list_at (v_key u) g1))"
  unfolding g1_def using assms(1)
proof (induction items arbitrary: g)
  case (Cons i items)
  note laws = insert_complete_laws
  {
    case 1
    note same = one_target_Cons(2) [OF 1]
    note ih = Cons(1) [OF one_target_Cons(1) [OF 1], of "insert_complete_edge (mk i) g"]
    show ?case
    proof (cases "u = e_src (mk i) \<and> k = e_key (mk i)")
      case True
      with same have "\<forall>j \<in> set items. u = e_src (mk j) \<and> k = e_key (mk j) \<longrightarrow> e_dst (mk j) = e_dst (mk i)"
        by blast
      with True show ?thesis unfolding fold_Cons comp_apply ih laws(1) by auto
    next
      case False
      then have "edge_at (insert_complete_edge (mk i) g) u k = edge_at g u k" by (auto simp: laws(1))
      with False show ?thesis unfolding fold_Cons comp_apply ih by auto
    qed
  next
    case 2
    from Cons(2) [OF one_target_Cons(1) [OF 2], of "insert_complete_edge (mk i) g"] show ?case
      unfolding fold_Cons comp_apply by (simp only: laws(2)) auto
  next
    case 3
    from Cons(3) [OF one_target_Cons(1) [OF 3], of "insert_complete_edge (mk i) g"] show ?case
      by (simp add: laws)
  next
    case 4
    from Cons(4) [OF _ one_target_Cons(1) [OF 4(2)], of "insert_complete_edge (mk i) g"] 4(1) show ?case
      by (simp add: laws)
  next
    case 5
    from Cons(5) [OF _ one_target_Cons(1) [OF 5(2)], of "insert_complete_edge (mk i) g"] 5(1) show ?case
      by (simp add: laws)
  }
qed simp_all

lemma delete_loop_laws:
  fixes mk :: "'i \<Rightarrow> edge" and g :: graph and items :: "'i list"
  defines "g1 \<equiv> fold (\<lambda>i. delete_complete_edge (mk i)) items g"
  shows "edge_at g1 u k = (if \<exists>i \<in> set items. u = e_src (mk i) \<and> k = e_key (mk i) then None else edge_at g u k)"
    and "has_key k (g_list g1) \<longleftrightarrow> (\<exists>i \<in> set items. k = v_key (e_src (mk i))) \<or> has_key k (g_list g)"
    and "g_edges g1 = g_edges g"
    and "distinct (map fst (g_list g)) \<Longrightarrow> distinct (map fst (g_list g1))"
    and "\<forall>u. distinct (map fst (list_at (v_key u) g)) \<Longrightarrow> \<forall>u. distinct (map fst (list_at (v_key u) g1))"
  unfolding g1_def
  by (induction items arbitrary: g) (auto simp: delete_complete_laws)


section \<open>Insertion and deletion keep the invariant\<close>

lemma e_key_parts [simp]: "e_key (new_edge\<lparr>e_src := u, e_value := c, e_dst := v\<rparr>) = key_of c v"
  "e_key (new_edge\<lparr>e_dst := v, e_value := c, e_src := u\<rparr>) = key_of c v"
  by (simp_all add: e_key_def)

lemma separatedD:
  "separated C N \<Longrightarrow> c \<in> C \<Longrightarrow> c' \<in> C \<Longrightarrow> v \<in> N \<Longrightarrow> v' \<in> N \<Longrightarrow> key_of c v = key_of c' v' \<Longrightarrow> c = c' \<and> v = v'"
  unfolding separated_def by (metis append_same_eq same_append_eq v_key_eq)

lemma edges_agreeD:
  "edges_agree g \<Longrightarrow> edge_at g u k = Some v \<longleftrightarrow> (\<exists>c. k = key_of c v \<and> u \<in> writers g c \<and> v \<in> readers g c)"
  unfolding edges_agree_def by blast

lemma withinD:
  assumes "within C N g"
  shows "u \<in> writers g c \<Longrightarrow> c \<in> C" and "v \<in> readers g c \<Longrightarrow> c \<in> C" and "v \<in> readers g c \<Longrightarrow> v \<in> N"
  using assms unfolding within_def by blast+

lemma within_mono:
  assumes "within C N g" and "\<And>d. writers g1 d \<subseteq> writers g d" and "\<And>d. readers g1 d \<subseteq> readers g d"
  shows "within C N g1"
  using assms unfolding within_def by (metis subset_empty subset_trans)

text \<open>The writers and readers of one channel \<open>c\<close> change by a set \<open>P\<close> of pairs.\<close>

lemma edges_agree_grow:
  assumes agree: "edges_agree g" and sep: "separated C N" and old: "within C N g" and new: "within C N g'"
    and other: "\<And>d. d \<noteq> c \<Longrightarrow> writers g' d = writers g d \<and> readers g' d = readers g d"
    and pairs: "writers g' c \<times> readers g' c = writers g c \<times> readers g c \<union> P"
    and at: "\<And>u k v. edge_at g' u k = Some v \<longleftrightarrow> ((u, v) \<in> P \<and> k = key_of c v) \<or>
      edge_at g u k = Some v \<and> \<not> (\<exists>v'. (u, v') \<in> P \<and> k = key_of c v')"
  shows "edges_agree g'"
  unfolding edges_agree_def
proof (intro allI)
  fix u k v
  have in_P: "u' \<in> writers g' c \<and> v' \<in> readers g' c" if "(u', v') \<in> P" for u' v'
    using that pairs by blast
  have old_pair: "u \<in> writers g' d \<and> v \<in> readers g' d" if "u \<in> writers g d" "v \<in> readers g d" for d
    using that other [of d] pairs by (cases "d = c") blast+
  have clash: "(u, v) \<in> P \<and> d = c" if "u \<in> writers g d" "v \<in> readers g d" "(u, v') \<in> P"
    "key_of d v = key_of c v'" for d v'
  proof -
    have "d = c \<and> v = v'"
      by (rule separatedD [OF sep withinD(1) [OF old that(1)] withinD(1) [OF new] withinD(3) [OF old that(2)]
        withinD(3) [OF new] that(4)]) (use in_P [OF that(3)] in blast)+
    with that(3) show ?thesis by simp
  qed
  show "edge_at g' u k = Some v \<longleftrightarrow> (\<exists>d. k = key_of d v \<and> u \<in> writers g' d \<and> v \<in> readers g' d)"
  proof
    assume "edge_at g' u k = Some v"
    then consider "(u, v) \<in> P" "k = key_of c v" | "edge_at g u k = Some v" unfolding at by blast
    then show "\<exists>d. k = key_of d v \<and> u \<in> writers g' d \<and> v \<in> readers g' d"
      using in_P old_pair edges_agreeD [OF agree] by cases blast+
  next
    assume "\<exists>d. k = key_of d v \<and> u \<in> writers g' d \<and> v \<in> readers g' d"
    then obtain d where d: "k = key_of d v" "u \<in> writers g' d" "v \<in> readers g' d" by blast
    show "edge_at g' u k = Some v"
    proof (cases "d = c \<and> (u, v) \<in> P")
      case True
      with d(1) show ?thesis unfolding at by blast
    next
      case False
      with d other [of d] pairs have "u \<in> writers g d \<and> v \<in> readers g d"
        by (cases "d = c") blast+
      then show ?thesis
        unfolding at using False d(1) clash edges_agreeD [OF agree] by metis
    qed
  qed
qed

lemma edges_agree_shrink:
  assumes agree: "edges_agree g" and sep: "separated C N" and old: "within C N g"
    and other: "\<And>d. d \<noteq> c \<Longrightarrow> writers g' d = writers g d \<and> readers g' d = readers g d"
    and pairs: "writers g' c \<times> readers g' c = writers g c \<times> readers g c - P"
    and sub: "P \<subseteq> writers g c \<times> readers g c"
    and at: "\<And>u k. edge_at g' u k = (if \<exists>v'. (u, v') \<in> P \<and> k = key_of c v' then None else edge_at g u k)"
  shows "edges_agree g'"
  unfolding edges_agree_def
proof (intro allI)
  fix u k v
  have clash: "(u, v) \<in> P \<and> d = c" if "u \<in> writers g d" "v \<in> readers g d" "(u, v') \<in> P"
    "key_of d v = key_of c v'" for d v'
  proof -
    have "d = c \<and> v = v'"
      by (rule separatedD [OF sep withinD(1) [OF old that(1)] withinD(1) [OF old] withinD(3) [OF old that(2)]
        withinD(3) [OF old] that(4)]) (use sub that(3) in blast)+
    with that(3) show ?thesis by simp
  qed
  show "edge_at g' u k = Some v \<longleftrightarrow> (\<exists>d. k = key_of d v \<and> u \<in> writers g' d \<and> v \<in> readers g' d)"
  proof
    assume "edge_at g' u k = Some v"
    then have no: "\<not> (\<exists>v'. (u, v') \<in> P \<and> k = key_of c v')" and "edge_at g u k = Some v"
      by (simp_all add: at split: if_splits)
    then obtain d where d: "k = key_of d v" "u \<in> writers g d" "v \<in> readers g d"
      using edges_agreeD [OF agree] by blast
    with no other [of d] pairs have "u \<in> writers g' d \<and> v \<in> readers g' d"
      by (cases "d = c") blast+
    with d show "\<exists>d. k = key_of d v \<and> u \<in> writers g' d \<and> v \<in> readers g' d" by blast
  next
    assume "\<exists>d. k = key_of d v \<and> u \<in> writers g' d \<and> v \<in> readers g' d"
    then obtain d where d: "k = key_of d v" "u \<in> writers g' d" "v \<in> readers g' d" by blast
    with other [of d] pairs have old_d: "u \<in> writers g d" "v \<in> readers g d"
      by (cases "d = c"; blast)+
    have "\<not> (\<exists>v'. (u, v') \<in> P \<and> k = key_of c v')"
    proof
      assume "\<exists>v'. (u, v') \<in> P \<and> k = key_of c v'"
      then obtain v' where v': "(u, v') \<in> P" "key_of d v = key_of c v'" using d(1) by metis
      from clash [OF old_d v'] have "(u, v) \<in> P" "d = c" by simp_all
      with d pairs show False by blast
    qed
    moreover have "edge_at g u k = Some v"
      using old_d d(1) edges_agreeD [OF agree] by blast
    ultimately show "edge_at g' u k = Some v" by (simp add: at)
  qed
qed

text \<open>
  The common part of the four edge operations: the entry of channel \<open>c\<close> becomes \<open>r1\<close>
  and the complete edges \<open>mk i\<close> are inserted or deleted.
\<close>

definition pairs_of :: "('i \<Rightarrow> edge) \<Rightarrow> 'i list \<Rightarrow> (vertice \<times> vertice) set" where
  "pairs_of mk items = (\<lambda>i. (e_src (mk i), e_dst (mk i))) ` set items"

abbreviation set_entry :: "string \<Rightarrow> related \<Rightarrow> graph \<Rightarrow> graph" where
  "set_entry c r1 g \<equiv> g\<lparr>g_edges := AList.update c r1 (g_edges g)\<rparr>"

lemma entry_changed:
  assumes "g_edges g1 = g_edges (set_entry c r1 g)"
  shows "writers g1 = (writers g)(c := snd ` set (r_src r1))"
    and "readers g1 = (readers g)(c := snd ` set (r_dst r1))"
    and "edges_at d g1 = (if d = c then r1 else edges_at d g)"
  using assms by (simp_all add: fun_eq_iff writers_def readers_def edges_at_def update_conv')

lemma insert_side:
  assumes inv: "graph_inv C N g" and sep: "separated C N"
    and wk: "well_keyed (r_src r1)" "well_keyed (r_dst r1)"
    and key: "\<And>i. e_key (mk i) = key_of c (e_dst (mk i))"
    and pairs: "snd ` set (r_src r1) \<times> snd ` set (r_dst r1) = writers g c \<times> readers g c \<union> pairs_of mk items"
    and sub: "c \<in> C" "snd ` set (r_dst r1) \<subseteq> N"
  defines "g1 \<equiv> fold (\<lambda>i. insert_complete_edge (mk i)) items (set_entry c r1 g)"
  shows "graph_inv C N g1" and "g_edges g1 = g_edges (set_entry c r1 g)"
proof -
  have uk: "unique_keys g" and wi: "within C N g" and ag: "edges_agree g" and li: "ends_listed g"
    using inv by (simp_all add: graph_inv_def)
  have "one_target mk items" by (simp add: one_target_def key)
  note laws = insert_loop_laws [OF this, where g = "set_entry c r1 g", folded g1_def]
  note ch = entry_changed [OF laws(3)]
  have at0: "edge_at (set_entry c r1 g) = edge_at g" by (simp add: edge_at_def fun_eq_iff)
  have uk1: "unique_keys g1"
    using uk laws(4,5) wk by (simp add: unique_keys_def ch(3))
  have wi1: "within C N g1" using wi sub by (auto simp: within_def ch)
  have "edges_agree g1"
  proof (rule edges_agree_grow [OF ag sep wi wi1, where c = c and P = "pairs_of mk items"])
    show "edge_at g1 u k = Some v \<longleftrightarrow> (u, v) \<in> pairs_of mk items \<and> k = key_of c v \<or>
        edge_at g u k = Some v \<and> \<not> (\<exists>v'. (u, v') \<in> pairs_of mk items \<and> k = key_of c v')" for u k v
      unfolding laws(1) at0 pairs_of_def image_iff prod.inject key by blast
  qed (simp_all add: ch pairs)
  moreover have "ends_listed g1"
    unfolding ends_listed_def
  proof (intro allI impI)
    fix u k v
    assume "edge_at g1 u k = Some v"
    then consider i where "i \<in> set items" "u = e_src (mk i)" "v = e_dst (mk i)" | "edge_at g u k = Some v"
      unfolding laws(1) at0 by blast
    then show "has_key (v_key u) (g_list g1) \<and> has_key (v_key v) (g_list g1)"
    proof cases
      case 2
      with li have "has_key (v_key u) (g_list g) \<and> has_key (v_key v) (g_list g)"
        unfolding ends_listed_def by blast
      then show ?thesis by (simp add: laws(2))
    qed (auto simp: laws(2))
  qed
  ultimately show "graph_inv C N g1" using uk1 wi1 by (simp add: graph_inv_def)
  show "g_edges g1 = g_edges (set_entry c r1 g)" by (rule laws(3))
qed

lemma delete_side:
  assumes inv: "graph_inv C N g" and sep: "separated C N"
    and wk: "well_keyed (r_src r1)" "well_keyed (r_dst r1)"
    and key: "\<And>i. e_key (mk i) = key_of c (e_dst (mk i))"
    and pairs: "snd ` set (r_src r1) \<times> snd ` set (r_dst r1) = writers g c \<times> readers g c - pairs_of mk items"
    and sub: "pairs_of mk items \<subseteq> writers g c \<times> readers g c"
    and fewer: "snd ` set (r_src r1) \<subseteq> writers g c" "snd ` set (r_dst r1) \<subseteq> readers g c"
  defines "g1 \<equiv> fold (\<lambda>i. delete_complete_edge (mk i)) items (set_entry c r1 g)"
  shows "graph_inv C N g1" and "g_edges g1 = g_edges (set_entry c r1 g)"
proof -
  have uk: "unique_keys g" and wi: "within C N g" and ag: "edges_agree g" and li: "ends_listed g"
    using inv by (simp_all add: graph_inv_def)
  note laws = delete_loop_laws [where g = "set_entry c r1 g" and mk = mk and items = items, folded g1_def]
  note ch = entry_changed [OF laws(3)]
  have at0: "edge_at (set_entry c r1 g) = edge_at g" by (simp add: edge_at_def fun_eq_iff)
  have at: "edge_at g1 u k =
      (if \<exists>v'. (u, v') \<in> pairs_of mk items \<and> k = key_of c v' then None else edge_at g u k)" for u k
    unfolding laws(1) at0 pairs_of_def image_iff prod.inject key by (rule if_cong) blast+
  have uk1: "unique_keys g1"
    using uk laws(4,5) wk by (simp add: unique_keys_def ch(3))
  have wi1: "within C N g1"
    by (rule within_mono [OF wi]) (use fewer in \<open>simp_all add: ch\<close>)
  have "edges_agree g1"
    by (rule edges_agree_shrink [OF ag sep wi _ _ sub at]) (simp_all add: ch pairs)
  moreover have "ends_listed g1"
    using li unfolding ends_listed_def at laws(2) by (simp split: if_splits)
  ultimately show "graph_inv C N g1" using uk1 wi1 by (simp add: graph_inv_def)
  show "g_edges g1 = g_edges (set_entry c r1 g)" by (rule laws(3))
qed

lemma side_known:
  "graph_inv C N g \<Longrightarrow> has_key (v_key v) (r_src (edges_at c g)) \<longleftrightarrow> v \<in> writers g c"
  "graph_inv C N g \<Longrightarrow> has_key (v_key v) (r_dst (edges_at c g)) \<longleftrightarrow> v \<in> readers g c"
  "graph_inv C N g \<Longrightarrow> well_keyed (r_src (edges_at c g))"
  "graph_inv C N g \<Longrightarrow> well_keyed (r_dst (edges_at c g))"
  by (simp_all add: graph_inv_def unique_keys_def well_keyed_has writers_def readers_def)

lemma insert_outgoing_inv:
  assumes inv: "graph_inv C N g" and sep: "separated C N" and c: "e_value e \<in> C"
  shows "graph_inv C N (insert_outgoing_edge e g)"
    and "writers (insert_outgoing_edge e g) = (writers g)(e_value e := insert (e_src e) (writers g (e_value e)))"
    and "readers (insert_outgoing_edge e g) = readers g"
proof -
  let ?c = "e_value e" and ?s = "e_src e" and ?r = "edges_at (e_value e) g"
  note known = side_known [OF inv]
  have "graph_inv C N (insert_outgoing_edge e g) \<and>
    writers (insert_outgoing_edge e g) = (writers g)(?c := insert ?s (writers g ?c)) \<and>
    readers (insert_outgoing_edge e g) = readers g"
  proof (cases "has_key (v_key ?s) (r_src ?r)")
    case True
    then have "insert_outgoing_edge e g = g" by (simp add: insert_outgoing_edge_def Let_def)
    with True known inv show ?thesis by (simp add: insert_absorb)
  next
    case False
    define mk where "mk = (\<lambda>i :: string \<times> vertice. new_edge\<lparr>e_src := ?s, e_value := ?c, e_dst := snd i\<rparr>)"
    define r1 where "r1 = ?r\<lparr>r_src := AList.update (v_key ?s) ?s (r_src ?r)\<rparr>"
    have g1: "insert_outgoing_edge e g = fold (\<lambda>i. insert_complete_edge (mk i)) (r_dst ?r) (set_entry ?c r1 g)"
      using False by (simp add: insert_outgoing_edge_def Let_def mk_def r1_def)
    note wk = well_keyed_update [OF known(3) False]
    have sides: "snd ` set (r_src r1) = insert ?s (writers g ?c)" "snd ` set (r_dst r1) = readers g ?c"
      using wk(2) by (simp_all add: r1_def writers_def readers_def)
    have pairs: "pairs_of mk (r_dst ?r) = {?s} \<times> readers g ?c"
      by (auto simp: pairs_of_def mk_def readers_def)
    have wf: "well_keyed (r_src r1)" "well_keyed (r_dst r1)"
      using wk(1) known(4) by (simp_all add: r1_def)
    have key: "e_key (mk i) = key_of ?c (e_dst (mk i))" for i by (simp add: mk_def e_key_def)
    have sets: "snd ` set (r_src r1) \<times> snd ` set (r_dst r1) =
        writers g ?c \<times> readers g ?c \<union> pairs_of mk (r_dst ?r)" "snd ` set (r_dst r1) \<subseteq> N"
      unfolding sides pairs using inv by (auto simp: graph_inv_def within_def)
    note side = insert_side [OF inv sep wf key sets(1) c sets(2), folded g1]
    show ?thesis using entry_changed [OF side(2)] side(1) by (simp add: sides)
  qed
  then show "graph_inv C N (insert_outgoing_edge e g)"
    and "writers (insert_outgoing_edge e g) = (writers g)(?c := insert ?s (writers g ?c))"
    and "readers (insert_outgoing_edge e g) = readers g" by blast+
qed

lemma insert_incoming_inv:
  assumes inv: "graph_inv C N g" and sep: "separated C N" and c: "e_value e \<in> C" and n: "e_dst e \<in> N"
  shows "graph_inv C N (insert_incoming_edge e g)"
    and "readers (insert_incoming_edge e g) = (readers g)(e_value e := insert (e_dst e) (readers g (e_value e)))"
    and "writers (insert_incoming_edge e g) = writers g"
proof -
  let ?c = "e_value e" and ?d = "e_dst e" and ?r = "edges_at (e_value e) g"
  note known = side_known [OF inv]
  have "graph_inv C N (insert_incoming_edge e g) \<and>
    readers (insert_incoming_edge e g) = (readers g)(?c := insert ?d (readers g ?c)) \<and>
    writers (insert_incoming_edge e g) = writers g"
  proof (cases "has_key (v_key ?d) (r_dst ?r)")
    case True
    then have "insert_incoming_edge e g = g" by (simp add: insert_incoming_edge_def Let_def)
    with True known inv show ?thesis by (simp add: insert_absorb)
  next
    case False
    define mk where "mk = (\<lambda>i :: string \<times> vertice. new_edge\<lparr>e_dst := ?d, e_value := ?c, e_src := snd i\<rparr>)"
    define r1 where "r1 = ?r\<lparr>r_dst := AList.update (v_key ?d) ?d (r_dst ?r)\<rparr>"
    have g1: "insert_incoming_edge e g = fold (\<lambda>i. insert_complete_edge (mk i)) (r_src ?r) (set_entry ?c r1 g)"
      using False by (simp add: insert_incoming_edge_def Let_def mk_def r1_def)
    note wk = well_keyed_update [OF known(4) False]
    have sides: "snd ` set (r_dst r1) = insert ?d (readers g ?c)" "snd ` set (r_src r1) = writers g ?c"
      using wk(2) by (simp_all add: r1_def writers_def readers_def)
    have pairs: "pairs_of mk (r_src ?r) = writers g ?c \<times> {?d}"
      by (auto simp: pairs_of_def mk_def writers_def)
    have wf: "well_keyed (r_src r1)" "well_keyed (r_dst r1)"
      using wk(1) known(3) by (simp_all add: r1_def)
    have key: "e_key (mk i) = key_of ?c (e_dst (mk i))" for i by (simp add: mk_def e_key_def)
    have sets: "snd ` set (r_src r1) \<times> snd ` set (r_dst r1) =
        writers g ?c \<times> readers g ?c \<union> pairs_of mk (r_src ?r)" "snd ` set (r_dst r1) \<subseteq> N"
      unfolding sides pairs using inv n by (auto simp: graph_inv_def within_def)
    note side = insert_side [OF inv sep wf key sets(1) c sets(2), folded g1]
    show ?thesis using entry_changed [OF side(2)] side(1) by (simp add: sides)
  qed
  then show "graph_inv C N (insert_incoming_edge e g)"
    and "readers (insert_incoming_edge e g) = (readers g)(?c := insert ?d (readers g ?c))"
    and "writers (insert_incoming_edge e g) = writers g" by blast+
qed

lemma delete_outgoing_inv:
  assumes inv: "graph_inv C N g" and sep: "separated C N"
  shows "graph_inv C N (delete_outgoing_edge e g)"
    and "writers (delete_outgoing_edge e g) = (writers g)(e_value e := writers g (e_value e) - {e_src e})"
    and "readers (delete_outgoing_edge e g) = readers g"
proof -
  let ?c = "e_value e" and ?s = "e_src e" and ?r = "edges_at (e_value e) g"
  note known = side_known [OF inv]
  have "graph_inv C N (delete_outgoing_edge e g) \<and>
    writers (delete_outgoing_edge e g) = (writers g)(?c := writers g ?c - {?s}) \<and>
    readers (delete_outgoing_edge e g) = readers g"
  proof (cases "has_key (v_key ?s) (r_src ?r)")
    case False
    then have "delete_outgoing_edge e g = g" by (simp add: delete_outgoing_edge_def Let_def)
    with False known inv show ?thesis by simp
  next
    case True
    define mk where "mk = (\<lambda>i :: string \<times> vertice. new_edge\<lparr>e_src := ?s, e_value := ?c, e_dst := snd i\<rparr>)"
    define r1 where "r1 = ?r\<lparr>r_src := AList.delete (v_key ?s) (r_src ?r)\<rparr>"
    have g1: "delete_outgoing_edge e g = fold (\<lambda>i. delete_complete_edge (mk i)) (r_dst ?r) (set_entry ?c r1 g)"
      using True by (simp add: delete_outgoing_edge_def Let_def mk_def r1_def)
    note wk = well_keyed_delete [OF known(3), of ?s ?c]
    have sides: "snd ` set (r_src r1) = writers g ?c - {?s}" "snd ` set (r_dst r1) = readers g ?c"
      using wk(2) by (simp_all add: r1_def writers_def readers_def)
    have pairs: "pairs_of mk (r_dst ?r) = {?s} \<times> readers g ?c"
      by (auto simp: pairs_of_def mk_def readers_def)
    have wf: "well_keyed (r_src r1)" "well_keyed (r_dst r1)"
      using wk(1) known(4) by (simp_all add: r1_def)
    have key: "e_key (mk i) = key_of ?c (e_dst (mk i))" for i by (simp add: mk_def e_key_def)
    have sets: "snd ` set (r_src r1) \<times> snd ` set (r_dst r1) =
        writers g ?c \<times> readers g ?c - pairs_of mk (r_dst ?r)"
      "pairs_of mk (r_dst ?r) \<subseteq> writers g ?c \<times> readers g ?c"
      "snd ` set (r_src r1) \<subseteq> writers g ?c" "snd ` set (r_dst r1) \<subseteq> readers g ?c"
      unfolding sides pairs using True known(1) by auto
    note side = delete_side [OF inv sep wf key sets, folded g1]
    show ?thesis using entry_changed [OF side(2)] side(1) by (simp add: sides)
  qed
  then show "graph_inv C N (delete_outgoing_edge e g)"
    and "writers (delete_outgoing_edge e g) = (writers g)(?c := writers g ?c - {?s})"
    and "readers (delete_outgoing_edge e g) = readers g" by blast+
qed

lemma delete_incoming_inv:
  assumes inv: "graph_inv C N g" and sep: "separated C N"
  shows "graph_inv C N (delete_incoming_edge e g)"
    and "readers (delete_incoming_edge e g) = (readers g)(e_value e := readers g (e_value e) - {e_dst e})"
    and "writers (delete_incoming_edge e g) = writers g"
proof -
  let ?c = "e_value e" and ?d = "e_dst e" and ?r = "edges_at (e_value e) g"
  note known = side_known [OF inv]
  have "graph_inv C N (delete_incoming_edge e g) \<and>
    readers (delete_incoming_edge e g) = (readers g)(?c := readers g ?c - {?d}) \<and>
    writers (delete_incoming_edge e g) = writers g"
  proof (cases "has_key (v_key ?d) (r_dst ?r)")
    case False
    then have "delete_incoming_edge e g = g" by (simp add: delete_incoming_edge_def Let_def)
    with False known inv show ?thesis by simp
  next
    case True
    define mk where "mk = (\<lambda>i :: string \<times> vertice. new_edge\<lparr>e_dst := ?d, e_value := ?c, e_src := snd i\<rparr>)"
    define r1 where "r1 = ?r\<lparr>r_dst := AList.delete (v_key ?d) (r_dst ?r)\<rparr>"
    have g1: "delete_incoming_edge e g = fold (\<lambda>i. delete_complete_edge (mk i)) (r_src ?r) (set_entry ?c r1 g)"
      using True by (simp add: delete_incoming_edge_def Let_def mk_def r1_def)
    note wk = well_keyed_delete [OF known(4), of ?d ?c]
    have sides: "snd ` set (r_dst r1) = readers g ?c - {?d}" "snd ` set (r_src r1) = writers g ?c"
      using wk(2) by (simp_all add: r1_def writers_def readers_def)
    have pairs: "pairs_of mk (r_src ?r) = writers g ?c \<times> {?d}"
      by (auto simp: pairs_of_def mk_def writers_def)
    have wf: "well_keyed (r_src r1)" "well_keyed (r_dst r1)"
      using wk(1) known(3) by (simp_all add: r1_def)
    have key: "e_key (mk i) = key_of ?c (e_dst (mk i))" for i by (simp add: mk_def e_key_def)
    have sets: "snd ` set (r_src r1) \<times> snd ` set (r_dst r1) =
        writers g ?c \<times> readers g ?c - pairs_of mk (r_src ?r)"
      "pairs_of mk (r_src ?r) \<subseteq> writers g ?c \<times> readers g ?c"
      "snd ` set (r_src r1) \<subseteq> writers g ?c" "snd ` set (r_dst r1) \<subseteq> readers g ?c"
      unfolding sides pairs using True known(2) by auto
    note side = delete_side [OF inv sep wf key sets, folded g1]
    show ?thesis using entry_changed [OF side(2)] side(1) by (simp add: sides)
  qed
  then show "graph_inv C N (delete_incoming_edge e g)"
    and "readers (delete_incoming_edge e g) = (readers g)(?c := readers g ?c - {?d})"
    and "writers (delete_incoming_edge e g) = writers g" by blast+
qed

section \<open>The graph as a whole\<close>

text \<open>The calls of a graph, and what they are to do to the writers and readers of every channel.\<close>

datatype graph_op = GInsert edge | GDelete edge

fun graph_step :: "graph_op \<Rightarrow> graph \<Rightarrow> graph" where
  "graph_step (GInsert e) g = graph_insert e g"
| "graph_step (GDelete e) g = graph_delete e g"

type_synonym topology = "(string \<Rightarrow> vertice set) \<times> (string \<Rightarrow> vertice set)"

fun topo_step :: "graph_op \<Rightarrow> topology \<Rightarrow> topology" where
  "topo_step (GInsert e) (W, R) = (if is_valid e then
     (if is_dummy (e_src e) then W else W(e_value e := insert (e_src e) (W (e_value e))),
      if is_dummy (e_dst e) then R else R(e_value e := insert (e_dst e) (R (e_value e))))
     else (W, R))"
| "topo_step (GDelete e) (W, R) = (if is_valid e then
     (if is_dummy (e_src e) then W else W(e_value e := W (e_value e) - {e_src e}),
      if is_dummy (e_dst e) then R else R(e_value e := R (e_value e) - {e_dst e}))
     else (W, R))"

fun op_edge :: "graph_op \<Rightarrow> edge" where
  "op_edge (GInsert e) = e" | "op_edge (GDelete e) = e"

definition run_graph :: "graph_op list \<Rightarrow> graph" where
  "run_graph ops = fold graph_step ops new_graph"

definition channel_edges :: "graph_op list \<Rightarrow> (vertice \<times> string \<times> vertice) set" where
  "channel_edges ops = (let (W, R) = fold topo_step ops (\<lambda>_. {}, \<lambda>_. {})
     in {(u, c, v). u \<in> W c \<and> v \<in> R c})"

definition channel_links :: "graph_op list \<Rightarrow> (vertice \<times> vertice) set" where
  "channel_links ops = {(u, v). \<exists>c. (u, c, v) \<in> channel_edges ops}"

lemma graph_inv_new: "graph_inv C N new_graph"
  by (simp add: graph_inv_def unique_keys_def within_def edges_agree_def ends_listed_def new_graph_def
    writers_def readers_def edges_at_def edge_at_def list_at_def well_keyed_def)

lemma touched_entry:
  assumes "\<not> has_key c (g_edges g)"
  defines "g1 \<equiv> set_entry c \<lparr>r_src = [], r_dst = []\<rparr> g"
  shows "graph_inv C N g1 = graph_inv C N g" and "writers g1 = writers g" and "readers g1 = readers g"
proof -
  have at: "edges_at d g1 = edges_at d g" for d
    using assms by (auto simp: edges_at_def update_conv' map_of_has_key split: option.split)
  show wr: "writers g1 = writers g" "readers g1 = readers g"
    by (simp_all add: fun_eq_iff writers_def readers_def at)
  show "graph_inv C N g1 = graph_inv C N g"
    by (simp add: graph_inv_def unique_keys_def within_def edges_agree_def ends_listed_def wr at)
      (simp add: g1_def edge_at_def)
qed

lemma no_entry: "\<not> has_key c (g_edges g) \<Longrightarrow> writers g c = {} \<and> readers g c = {}"
  by (simp add: writers_def readers_def edges_at_def map_of_has_key split: option.split)

lemma graph_step_inv:
  assumes inv: "graph_inv C N g" and sep: "separated C N" and "e_value (op_edge x) \<in> C" "e_dst (op_edge x) \<in> N"
  shows "graph_inv C N (graph_step x g) \<and>
    (writers (graph_step x g), readers (graph_step x g)) = topo_step x (writers g, readers g)"
proof (cases x)
  case (GInsert e)
  define g1 where "g1 = (if has_key (e_value e) (g_edges g) then g
     else set_entry (e_value e) \<lparr>r_src = [], r_dst = []\<rparr> g)"
  define g2 where "g2 = (if is_dummy (e_src e) then g1 else insert_outgoing_edge e g1)"
  have g1: "graph_inv C N g1" "writers g1 = writers g" "readers g1 = readers g"
    using inv touched_entry [where c = "e_value e" and g = g] by (simp_all add: g1_def)
  have g2: "graph_inv C N g2" "readers g2 = readers g" "writers g2 = (if is_dummy (e_src e) then writers g
      else (writers g)(e_value e := insert (e_src e) (writers g (e_value e))))"
    using insert_outgoing_inv [OF g1(1) sep, of e] assms(3) g1 by (simp_all add: g2_def GInsert)
  have "graph_step x g = (if \<not> is_valid e then g else if is_dummy (e_dst e) then g2 else insert_incoming_edge e g2)"
    by (simp add: GInsert graph_insert_def Let_def g1_def g2_def)
  then show ?thesis
    using insert_incoming_inv [OF g2(1) sep, of e] assms g2 by (simp add: GInsert)
next
  case (GDelete e)
  define g1 where "g1 = (if is_dummy (e_src e) then g else delete_outgoing_edge e g)"
  have g1: "graph_inv C N g1" "readers g1 = readers g" "writers g1 = (if is_dummy (e_src e) then writers g
      else (writers g)(e_value e := writers g (e_value e) - {e_src e}))"
    using delete_outgoing_inv [OF inv sep, of e] inv by (simp_all add: g1_def)
  have step: "graph_step x g = (if \<not> is_valid e then g else if \<not> has_key (e_value e) (g_edges g) then g
      else if is_dummy (e_dst e) then g1 else delete_incoming_edge e g1)"
    by (simp add: GDelete graph_delete_def Let_def g1_def)
  show ?thesis
  proof (cases "is_valid e \<and> has_key (e_value e) (g_edges g)")
    case True
    then show ?thesis using step delete_incoming_inv [OF g1(1) sep, of e] g1 by (simp add: GDelete)
  next
    case False
    then have "graph_step x g = g" using step by auto
    moreover have "is_valid e \<Longrightarrow> writers g (e_value e) = {} \<and> readers g (e_value e) = {}"
      using False no_entry by blast
    ultimately show ?thesis using inv by (auto simp: GDelete fun_upd_idem)
  qed
qed

lemma run_graph_inv:
  assumes "separated C N" and "\<forall>x \<in> set ops. e_value (op_edge x) \<in> C \<and> e_dst (op_edge x) \<in> N"
  shows "graph_inv C N (run_graph ops) \<and> (writers (run_graph ops), readers (run_graph ops)) =
    fold topo_step ops (\<lambda>_. {}, \<lambda>_. {})"
  using assms(2)
proof (induction ops rule: rev_induct)
  case Nil
  then show ?case
    using graph_inv_new [of C N] by (simp add: run_graph_def fun_eq_iff)
      (simp add: new_graph_def writers_def readers_def edges_at_def)
next
  case (snoc x ops)
  then have ih: "graph_inv C N (run_graph ops)"
    "(writers (run_graph ops), readers (run_graph ops)) = fold topo_step ops (\<lambda>_. {}, \<lambda>_. {})" by simp_all
  have "run_graph (ops @ [x]) = graph_step x (run_graph ops)" by (simp add: run_graph_def)
  with graph_step_inv [OF ih(1) assms(1), of x] snoc.prems ih(2) show ?case by simp
qed

definition ops_separated :: "graph_op list \<Rightarrow> bool" where
  "ops_separated ops \<longleftrightarrow> separated ((e_value \<circ> op_edge) ` set ops) ((e_dst \<circ> op_edge) ` set ops)"

lemma run_graph_facts:
  assumes "ops_separated ops"
  shows "graph_inv ((e_value \<circ> op_edge) ` set ops) ((e_dst \<circ> op_edge) ` set ops) (run_graph ops)"
    and "(u, c, v) \<in> channel_edges ops \<longleftrightarrow> u \<in> writers (run_graph ops) c \<and> v \<in> readers (run_graph ops) c"
proof -
  have "graph_inv ((e_value \<circ> op_edge) ` set ops) ((e_dst \<circ> op_edge) ` set ops) (run_graph ops) \<and>
    (writers (run_graph ops), readers (run_graph ops)) = fold topo_step ops (\<lambda>_. {}, \<lambda>_. {})"
    by (rule run_graph_inv) (use assms in \<open>auto simp: ops_separated_def\<close>)
  then show "graph_inv ((e_value \<circ> op_edge) ` set ops) ((e_dst \<circ> op_edge) ` set ops) (run_graph ops)"
    and "(u, c, v) \<in> channel_edges ops \<longleftrightarrow> u \<in> writers (run_graph ops) c \<and> v \<in> readers (run_graph ops) c"
    by (simp, metis (mono_tags, lifting) channel_edges_def case_prod_conv mem_Collect_eq)
qed

lemma run_graph_adj:
  assumes "ops_separated ops"
  shows "adj (run_graph ops) = channel_links ops"
proof -
  note facts = run_graph_facts [OF assms]
  have uk: "unique_keys (run_graph ops)" and ag: "edges_agree (run_graph ops)"
    using facts(1) by (simp_all add: graph_inv_def)
  have "v \<in> snd ` set (list_at (v_key u) (run_graph ops)) \<longleftrightarrow> (\<exists>k. edge_at (run_graph ops) u k = Some v)" for u v
    using uk by (force simp: unique_keys_def edge_at_def image_iff)
  then show ?thesis
    using edges_agreeD [OF ag] by (auto simp: adj_def channel_links_def facts(2))
qed

text \<open>C30. The graph answers flow questions by reachability over channels: after any insertions and
  deletions whose concatenated keys can be told apart, a node is upstream of another one exactly if
  data can flow from it through nodes that write and read common channels, downstream if only the
  other way round; the search ends, and it leaves the graph as it is although it runs under the
  read lock.\<close>

theorem direction_is_reachability:
  assumes "ops_separated ops" and "u \<noteq> v" and "\<not> is_dummy u" and "\<not> is_dummy v"
  shows "get_direction_of u v (run_graph ops) =
    (if (u, v) \<in> (channel_links ops)\<^sup>* then UPSTREAM
     else if (v, u) \<in> (channel_links ops)\<^sup>* then DOWNSTREAM else UNREACHABLE, run_graph ops)"
proof -
  let ?g = "run_graph ops"
  have uk: "unique_keys ?g" and listed: "ends_listed ?g"
    using run_graph_facts(1) [OF assms(1)] by (simp_all add: graph_inv_def)
  have linked: "has_key (v_key a) (g_list ?g) \<and> has_key (v_key b) (g_list ?g)" if ab: "(a, b) \<in> adj ?g" for a b
  proof -
    from ab obtain k where "(k, b) \<in> set (list_at (v_key a) ?g)" by (auto simp: adj_def)
    then have "edge_at ?g a k = Some b" using uk by (simp add: edge_at_def unique_keys_def)
    with listed show ?thesis unfolding ends_listed_def by blast
  qed
  have ends: "has_key (v_key a) (g_list ?g) \<and> has_key (v_key b) (g_list ?g)" if "(a, b) \<in> (adj ?g)\<^sup>*" "a \<noteq> b" for a b
    using that linked by (metis converse_rtranclE rtranclE)
  have targets: "\<forall>w \<in> targets ?g. has_key (v_key w) (g_list ?g)"
  proof
    fix w assume "w \<in> targets ?g"
    then obtain k s where ks: "(k, s) \<in> set (g_list ?g)" "w \<in> snd ` set s"
      by (force simp: targets_def)
    with uk have "list_at (v_key (Vertice k)) ?g = s"
      by (simp add: list_at_def unique_keys_def v_key_def)
    with ks(2) linked [of "Vertice k" w] show "has_key (v_key w) (g_list ?g)" by (simp add: adj_def)
  qed
  show ?thesis
    using level_traverse_graph [OF targets] ends [of u v] ends [of v u] assms(2-4)
    by (auto simp: get_direction_of_def run_graph_adj [OF assms(1)] split: bool.split)
qed

lemma separated_without_underscore:
  assumes "\<forall>c \<in> C. CHR ''_'' \<notin> set c"
  shows "separated C N"
proof -
  have split: "a @ x # b = c @ x # d \<Longrightarrow> x \<notin> set a \<Longrightarrow> x \<notin> set c \<Longrightarrow> a = c" for a b c d :: string and x
    by (induction a arbitrary: c) (auto simp: Cons_eq_append_conv append_eq_Cons_conv)
  show ?thesis
    using assms split by (auto simp: separated_def)
qed

theorem direction_is_reachability_witness:
  "fst (get_direction_of (Vertice ''talker'') (Vertice ''screen'') (run_graph
     [GInsert \<lparr>e_src = Vertice ''talker'', e_dst = Vertice '''', e_value = ''img''\<rparr>,
      GInsert \<lparr>e_src = Vertice '''', e_dst = Vertice ''filter'', e_value = ''img''\<rparr>,
      GInsert \<lparr>e_src = Vertice ''filter'', e_dst = Vertice ''screen'', e_value = ''out''\<rparr>])) = UPSTREAM"
proof -
  let ?ops = "[GInsert \<lparr>e_src = Vertice ''talker'', e_dst = Vertice '''', e_value = ''img''\<rparr>,
      GInsert \<lparr>e_src = Vertice '''', e_dst = Vertice ''filter'', e_value = ''img''\<rparr>,
      GInsert \<lparr>e_src = Vertice ''filter'', e_dst = Vertice ''screen'', e_value = ''out''\<rparr>]"
  have "(Vertice ''talker'', Vertice ''filter'') \<in> channel_links ?ops"
    and "(Vertice ''filter'', Vertice ''screen'') \<in> channel_links ?ops"
    by (simp_all add: channel_links_def channel_edges_def is_valid_def is_dummy_def)
      (rule exI [of _ "''out''"], simp)
  then have "(Vertice ''talker'', Vertice ''screen'') \<in> (channel_links ?ops)\<^sup>*"
    by (meson r_into_rtrancl rtrancl_trans)
  moreover have "ops_separated ?ops"
    unfolding ops_separated_def by (rule separated_without_underscore) simp
  ultimately show ?thesis
    using direction_is_reachability [of ?ops "Vertice ''talker''" "Vertice ''screen''"]
    by (simp add: is_dummy_def)
qed

text \<open>Keys that cannot be told apart lose an edge: the channel \<open>a\<close> to node \<open>b_c\<close> and the
  channel \<open>a_b\<close> to node \<open>c\<close> have the same key, so a node that writes both channels is no longer
  found upstream of \<open>b_c\<close> once \<open>c\<close> reads \<open>a_b\<close>.\<close>

lemma colliding_keys_lose_edge:
  "fst (get_direction_of (Vertice ''n'') (Vertice ''b_c'') (run_graph
     [GInsert \<lparr>e_src = Vertice ''n'', e_dst = Vertice ''b_c'', e_value = ''a''\<rparr>])) = UPSTREAM \<and>
   fst (get_direction_of (Vertice ''n'') (Vertice ''b_c'') (run_graph
     [GInsert \<lparr>e_src = Vertice ''n'', e_dst = Vertice ''b_c'', e_value = ''a''\<rparr>,
      GInsert \<lparr>e_src = Vertice ''n'', e_dst = Vertice ''c'', e_value = ''a_b''\<rparr>])) = UNREACHABLE"
  by code_simp

section \<open>Counting\<close>

lemma get_num_of_edge_sum:
  "get_num_of_edge g = of_nat (sum_list (map (length \<circ> snd) (g_list g)))"
proof -
  have "fold (\<lambda>item num. num + of_nat (length (snd item))) xs n =
      n + (of_nat (sum_list (map (length \<circ> snd) xs)) :: u32)" for xs :: "(string \<times> vertice_set) list" and n
    by (induction xs arbitrary: n) (simp_all add: algebra_simps)
  then show ?thesis by (simp add: get_num_of_edge_def)
qed

lemma sum_list_card:
  assumes "distinct (map fst al)" and "\<forall>(k, s) \<in> set al. distinct (map fst s)"
  shows "sum_list (map (length \<circ> snd) al) = card {(k, x). \<exists>s. map_of al k = Some s \<and> x \<in> set s}"
  using assms
proof (induction al)
  case (Cons a al)
  obtain k s where a: "a = (k, s)" by (cases a)
  let ?rest = "{(k', x). \<exists>s. map_of al k' = Some s \<and> x \<in> set s}"
  have new: "k \<notin> dom (map_of al)" using Cons.prems(1) by (simp add: a dom_map_of_conv_image_fst)
  have "finite ?rest"
    by (rule finite_subset [of _ "Sigma (set (map fst al)) (\<lambda>_. \<Union> (set ` snd ` set al))"])
      (force dest: map_of_SomeD)+
  moreover have "{(k', x). \<exists>t. map_of (a # al) k' = Some t \<and> x \<in> set t} = {k} \<times> set s \<union> ?rest"
    using new by (auto simp: a split: if_splits)
  moreover have "({k} \<times> set s) \<inter> ?rest = {}" using new by (auto simp: dom_def)
  moreover have "card (set s) = length s"
    using Cons.prems(2) by (auto simp: a distinct_map distinct_card)
  ultimately show ?case
    using Cons by (simp add: a card_Un_disjoint card_cartesian_product)
qed simp

text \<open>\<open>GetNumOfEdge\<close> is the number of pairs of a writer and a reader of a channel, counted per
  channel, modulo 2^32.\<close>

lemma num_of_edge_counts:
  assumes "ops_separated ops"
  shows "get_num_of_edge (run_graph ops) = of_nat (card (channel_edges ops))"
proof -
  let ?g = "run_graph ops"
  note facts = run_graph_facts [OF assms]
  have uk: "unique_keys ?g" and ag: "edges_agree ?g" and wi: "within ((e_value \<circ> op_edge) ` set ops) ((e_dst \<circ> op_edge) ` set ops) ?g"
    using facts(1) by (simp_all add: graph_inv_def)
  let ?stored = "{(k, x). \<exists>s. map_of (g_list ?g) k = Some s \<and> x \<in> set s}"
  let ?f = "\<lambda>(u, c, v). (v_key u, key_of c v, v)"
  have keys: "\<forall>(k, s) \<in> set (g_list ?g). distinct (map fst s)"
  proof safe
    fix k s assume "(k, s) \<in> set (g_list ?g)"
    with uk have "list_at (v_key (Vertice k)) ?g = s" by (simp add: list_at_def unique_keys_def v_key_def)
    with uk show "distinct (map fst s)" unfolding unique_keys_def by blast
  qed
  have stored: "(k, x, v) \<in> ?stored \<longleftrightarrow> edge_at ?g (Vertice k) x = Some v" for k x v
  proof -
    have "distinct (map fst s)" if "map_of (g_list ?g) k = Some s" for s
      using keys that by (auto dest: map_of_SomeD)
    then show ?thesis
      by (cases "map_of (g_list ?g) k") (simp_all add: edge_at_def list_at_def v_key_def)
  qed
  have "?stored = ?f ` channel_edges ops"
  proof (rule set_eqI)
    fix p :: "string \<times> string \<times> vertice"
    obtain k x v where p: "p = (k, x, v)" by (metis prod_cases3)
    have "p \<in> ?f ` S \<longleftrightarrow> (\<exists>c. (Vertice k, c, v) \<in> S \<and> x = key_of c v)" for S
    proof
      assume "p \<in> ?f ` S"
      then obtain u c w where "(u, c, w) \<in> S" "k = v_key u" "x = key_of c w" "v = w"
        unfolding p by auto
      then show "\<exists>c. (Vertice k, c, v) \<in> S \<and> x = key_of c v" by (auto simp: v_key_def)
    next
      assume "\<exists>c. (Vertice k, c, v) \<in> S \<and> x = key_of c v"
      then obtain c where "(Vertice k, c, v) \<in> S" "x = key_of c v" by blast
      then show "p \<in> ?f ` S" unfolding p by (intro image_eqI) (simp_all add: v_key_def)
    qed
    then show "p \<in> ?stored \<longleftrightarrow> p \<in> ?f ` channel_edges ops"
      unfolding p stored edges_agreeD [OF ag] by (auto simp: facts(2))
  qed
  moreover have "inj_on ?f (channel_edges ops)"
  proof (rule inj_onI)
    fix p q assume pq: "p \<in> channel_edges ops" "q \<in> channel_edges ops" "?f p = ?f q"
    obtain u c v u' c' v' where p: "p = (u, c, v)" "q = (u', c', v')" by (metis prod_cases3)
    with pq have "u = u'" "v = v'" "key_of c v = key_of c' v'" by auto
    with p show "p = q" by simp
  qed
  ultimately have "card ?stored = card (channel_edges ops)" by (simp add: card_image)
  with sum_list_card [OF _ keys] uk show ?thesis
    by (simp add: get_num_of_edge_sum unique_keys_def)
qed

lemma num_of_edge_counts_witness:
  "get_num_of_edge (run_graph [GInsert \<lparr>e_src = Vertice ''n'', e_dst = Vertice ''m'', e_value = ''a''\<rparr>]) = 1"
proof -
  let ?ops = "[GInsert \<lparr>e_src = Vertice ''n'', e_dst = Vertice ''m'', e_value = ''a''\<rparr>]"
  have "channel_edges ?ops = {(Vertice ''n'', ''a'', Vertice ''m'')}"
    by (auto simp: channel_edges_def is_valid_def is_dummy_def split: if_splits)
  moreover have "ops_separated ?ops"
    unfolding ops_separated_def by (rule separated_without_underscore) simp
  ultimately show ?thesis using num_of_edge_counts [of ?ops] by simp
qed

end
