(* ===== verification/Global_Data.thy ===== *)
theory Global_Data
  imports Atomic_Hash_Map
begin

text \<open>
  The name registries of \<open>common/global_data.h\<close> and \<open>global_data.cpp\<close>: channel, node and
  task names get 64-bit ids by hashing with linear probing over an \<open>AtomicHashMap\<close>. The hash
  (\<open>std::hash\<close> through \<open>common/util.h\<close>) is the argument \<open>h\<close>. The probing loop is a
  partial function: \<open>None\<close> is a loop that does not return.
\<close>

section \<open>Registries\<close>

record global_data =
  gd_host_name :: string
  gd_host_ip :: string
  gd_process_id :: u32
  gd_process_group :: string
  gd_component_nums :: u32
  gd_channels :: "string hash_map"
  gd_nodes :: "string hash_map"
  gd_tasks :: "string hash_map"

text \<open>The state the constructor reaches on a host \<open>name\<close> with address \<open>ip\<close>.\<close>

definition gd_new :: "string \<Rightarrow> string \<Rightarrow> u32 \<Rightarrow> string \<Rightarrow> global_data" where
  "gd_new name ip pid grp = \<lparr>gd_host_name = name, gd_host_ip = ip, gd_process_id = pid,
     gd_process_group = grp, gd_component_nums = 0,
     gd_channels = hm_new (2 ^ 8), gd_nodes = hm_new (2 ^ 9), gd_tasks = hm_new (2 ^ 8)\<rparr>"

text \<open>
  The address selection of \<open>InitHostInfo\<close>: \<open>env\<close> is the variable \<open>CMW_IP\<close>, \<open>addrs\<close> are
  the printed IPv4 addresses of the interfaces in their order.
\<close>

definition init_host_ip :: "string option \<Rightarrow> string list \<Rightarrow> string" where
  "init_host_ip env addrs =
     (case env of
        Some ip \<Rightarrow> if take 3 ip \<noteq> ''127'' then ip
          else (case find (\<lambda>a. take 3 a \<noteq> ''127'') addrs of Some a \<Rightarrow> a | None \<Rightarrow> ''127.0.0.1'')
      | None \<Rightarrow> (case find (\<lambda>a. take 3 a \<noteq> ''127'') addrs of Some a \<Rightarrow> a | None \<Rightarrow> ''127.0.0.1''))"

partial_function (option) probe :: "string \<Rightarrow> string hash_map \<Rightarrow> u64 \<Rightarrow> u64 option" where
  "probe name t cid =
     (if hm_has t cid
      then (case hm_get t cid of
          Some n \<Rightarrow> if name = n then Some cid else probe name t (cid + 1)
        | None \<Rightarrow> None)
      else Some cid)"

definition register_name :: "(string \<Rightarrow> u64) \<Rightarrow> string \<Rightarrow> string hash_map \<Rightarrow> (u64 \<times> string hash_map) option" where
  "register_name h name t = map_option (\<lambda>cid. (cid, hm_set cid name t)) (probe name t (h name))"

definition register_channel :: "(string \<Rightarrow> u64) \<Rightarrow> string \<Rightarrow> global_data \<Rightarrow> (u64 \<times> global_data) option" where
  "register_channel h channel g =
     map_option (\<lambda>(cid, t). (cid, g\<lparr>gd_channels := t\<rparr>)) (register_name h channel (gd_channels g))"

definition register_node :: "(string \<Rightarrow> u64) \<Rightarrow> string \<Rightarrow> global_data \<Rightarrow> (u64 \<times> global_data) option" where
  "register_node h node_name g =
     map_option (\<lambda>(cid, t). (cid, g\<lparr>gd_nodes := t\<rparr>)) (register_name h node_name (gd_nodes g))"

definition register_task_name :: "(string \<Rightarrow> u64) \<Rightarrow> string \<Rightarrow> global_data \<Rightarrow> (u64 \<times> global_data) option" where
  "register_task_name h task_name g =
     map_option (\<lambda>(cid, t). (cid, g\<lparr>gd_tasks := t\<rparr>)) (register_name h task_name (gd_tasks g))"

definition get_channel_by_id :: "u64 \<Rightarrow> global_data \<Rightarrow> string" where
  "get_channel_by_id cid g = (case hm_get (gd_channels g) cid of Some channel \<Rightarrow> channel | None \<Rightarrow> '''')"

definition get_task_name_by_id :: "u64 \<Rightarrow> global_data \<Rightarrow> string" where
  "get_task_name_by_id cid g = (case hm_get (gd_tasks g) cid of Some name \<Rightarrow> name | None \<Rightarrow> '''')"

section \<open>Probing\<close>

lemma hm_has_map: "hm_inv t \<Longrightarrow> hm_has t cid \<longleftrightarrow> hm_map t cid \<noteq> None"
  using hm_bucket_sorted [of t cid] by (simp add: hm_has_def hm_map_def bucket_has_iff)

text \<open>A slot at which the probe for \<open>name\<close> stops.\<close>

definition slot_of :: "string hash_map \<Rightarrow> string \<Rightarrow> u64 \<Rightarrow> bool" where
  "slot_of t name cid \<longleftrightarrow> hm_map t cid = None \<or> hm_map t cid = Some name"

lemma probe_unfold:
  "hm_inv t \<Longrightarrow> probe name t cid = (if slot_of t name cid then Some cid else probe name t (cid + 1))"
  by (subst probe.simps) (auto simp: slot_of_def hm_has_map hm.get_abs split: option.split)

lemma probe_finds:
  "hm_inv t \<Longrightarrow> slot_of t name (cid + of_nat d) \<Longrightarrow> \<forall>e < d. \<not> slot_of t name (cid + of_nat e) \<Longrightarrow>
    probe name t cid = Some (cid + of_nat d)"
proof (induction d arbitrary: cid)
  case 0
  then show ?case by (simp add: probe_unfold)
next
  case (Suc d)
  have "\<not> slot_of t name (cid + 1 + of_nat e)" if "e < d" for e
  proof -
    have "\<not> slot_of t name (cid + of_nat (Suc e))" using Suc.prems(3) that by blast
    then show ?thesis by (simp add: add.assoc)
  qed
  moreover have "slot_of t name (cid + 1 + of_nat d)" using Suc.prems(2) by (simp add: add.assoc)
  ultimately have "probe name t (cid + 1) = Some (cid + 1 + of_nat d)" using Suc by blast
  moreover have "\<not> slot_of t name cid"
    using Suc.prems(3) [rule_format, of 0] by simp
  moreover have "probe name t cid = (if slot_of t name cid then Some cid else probe name t (cid + 1))"
    using Suc.prems(1) by (rule probe_unfold)
  ultimately show ?case by (simp add: add.assoc)
qed

text \<open>Every name sits at the end of an unbroken run of other names from its hash on.\<close>

definition reg_inv :: "(string \<Rightarrow> u64) \<Rightarrow> string hash_map \<Rightarrow> bool" where
  "reg_inv h t \<longleftrightarrow> hm_inv t \<and> (\<forall>cid n. hm_map t cid = Some n \<longrightarrow>
     (\<exists>d. cid = h n + of_nat d \<and> (\<forall>e < d. \<not> slot_of t n (h n + of_nat e))))"

lemma reg_inv_new: "k < 64 \<Longrightarrow> reg_inv h (hm_new (2 ^ k))"
  by (simp add: reg_inv_def hm_new_inv hm_map_new)

lemma probe_returns:
  assumes inv: "reg_inv h t" and fin: "card (dom (hm_map t)) < 2 ^ 64"
  obtains d where "probe n t (h n) = Some (h n + of_nat d)" "slot_of t n (h n + of_nat d)"
    "\<forall>e < d. \<not> slot_of t n (h n + of_nat e)"
proof -
  have "dom (hm_map t) \<noteq> (UNIV :: u64 set)"
    using fin by (auto simp: card_word)
  then obtain cid where cid: "hm_map t cid = None" by blast
  have "slot_of t n (h n + of_nat (unat (cid - h n)))"
    by (simp add: slot_of_def cid)
  then obtain d where d: "slot_of t n (h n + of_nat d)" "\<forall>e < d. \<not> slot_of t n (h n + of_nat e)"
    using exists_least_iff [of "\<lambda>d. slot_of t n (h n + of_nat d)"] by blast
  moreover have "probe n t (h n) = Some (h n + of_nat d)"
    using probe_finds [OF _ d] inv by (simp add: reg_inv_def)
  ultimately show thesis by (rule that [rotated])
qed

lemma register_name_laws:
  assumes inv: "reg_inv h t" and fin: "card (dom (hm_map t)) < 2 ^ 64"
  obtains cid t' where "register_name h n t = Some (cid, t')" "reg_inv h t'"
    "hm_map t' = (hm_map t)(cid \<mapsto> n)" "slot_of t n cid"
proof -
  from probe_returns [OF assms] obtain d where d: "probe n t (h n) = Some (h n + of_nat d)"
    "slot_of t n (h n + of_nat d)" "\<forall>e < d. \<not> slot_of t n (h n + of_nat e)" .
  let ?cid = "h n + of_nat d" and ?t = "hm_set (h n + of_nat d) n t"
  have hm: "hm_inv t" using inv by (simp add: reg_inv_def)
  have map: "hm_map ?t = (hm_map t)(?cid \<mapsto> n)" by (rule hm.set_abs [OF hm])
  have kept: "\<not> slot_of ?t m x" if "\<not> slot_of t m x" for m x
    using that d(2) by (auto simp: slot_of_def map)
  have "\<exists>c. x = h m + of_nat c \<and> (\<forall>e < c. \<not> slot_of ?t m (h m + of_nat e))" if "hm_map ?t x = Some m" for x m
  proof (cases "x = ?cid")
    case True
    with that have "m = n" by (simp add: map)
    with True d(3) kept show ?thesis by blast
  next
    case False
    with that inv kept show ?thesis unfolding reg_inv_def map by (metis fun_upd_other)
  qed
  then have "reg_inv h ?t" using hm.set_inv [OF hm] by (simp add: reg_inv_def)
  moreover have "register_name h n t = Some (?cid, ?t)" by (simp add: register_name_def d(1))
  ultimately show thesis using that map d(2) by blast
qed

section \<open>Ids identify names\<close>

fun register_all :: "(string \<Rightarrow> u64) \<Rightarrow> string list \<Rightarrow> global_data \<Rightarrow> (u64 list \<times> global_data) option" where
  "register_all h [] g = Some ([], g)"
| "register_all h (n # ns) g = Option.bind (register_channel h n g) (\<lambda>(cid, g1).
     map_option (\<lambda>(ids, g2). (cid # ids, g2)) (register_all h ns g1))"

lemma reg_inv_unique:
  assumes "reg_inv h t" and "hm_map t i = Some n" and "hm_map t j = Some n"
  shows "i = j"
proof -
  from assms obtain c d where c: "i = h n + of_nat c" "\<forall>e < c. \<not> slot_of t n (h n + of_nat e)"
    and d: "j = h n + of_nat d" "\<forall>e < d. \<not> slot_of t n (h n + of_nat e)"
    unfolding reg_inv_def by metis
  have "slot_of t n i" "slot_of t n j" using assms by (simp_all add: slot_of_def)
  with c d have "\<not> c < d" "\<not> d < c" by auto
  with c d show ?thesis by simp
qed

lemma register_all_laws:
  assumes "reg_inv h (gd_channels g)" and "card (dom (hm_map (gd_channels g))) + length ns < 2 ^ 64"
  shows "\<exists>ids g'. register_all h ns g = Some (ids, g') \<and> reg_inv h (gd_channels g') \<and>
    length ids = length ns \<and> hm_map (gd_channels g) \<subseteq>\<^sub>m hm_map (gd_channels g') \<and>
    (\<forall>k < length ns. hm_map (gd_channels g') (ids ! k) = Some (ns ! k))"
  using assms
proof (induction ns arbitrary: g)
  case (Cons n ns)
  let ?t = "gd_channels g"
  have "card (dom (hm_map ?t)) < 2 ^ 64" using Cons.prems(2) by simp
  from register_name_laws [OF Cons.prems(1) this, of n] obtain cid t'
    where t': "register_name h n ?t = Some (cid, t')" "reg_inv h t'" "hm_map t' = (hm_map ?t)(cid \<mapsto> n)"
      "slot_of ?t n cid" .
  let ?g = "g\<lparr>gd_channels := t'\<rparr>"
  have "card (dom (hm_map t')) \<le> card (dom (hm_map ?t)) + 1"
    by (simp add: t'(3) card_insert_if)
  then have "card (dom (hm_map (gd_channels ?g))) + length ns < 2 ^ 64"
    using Cons.prems(2) by simp
  from Cons.IH [OF _ this] t'(2) obtain ids g'
    where g': "register_all h ns ?g = Some (ids, g')" "reg_inv h (gd_channels g')" "length ids = length ns"
      "hm_map t' \<subseteq>\<^sub>m hm_map (gd_channels g')"
      "\<forall>k < length ns. hm_map (gd_channels g') (ids ! k) = Some (ns ! k)" by auto
  have le: "hm_map ?t \<subseteq>\<^sub>m hm_map t'"
    using t'(4) by (auto simp: t'(3) map_le_def slot_of_def dom_def)
  have "hm_map (gd_channels g') cid = Some n"
    using g'(4) by (auto simp: t'(3) map_le_def dom_def)
  then have "\<forall>k < length (n # ns). hm_map (gd_channels g') ((cid # ids) ! k) = Some ((n # ns) ! k)"
    using g'(5) by (simp add: nth_Cons split: nat.split)
  then show ?case
    using g' map_le_trans [OF le g'(4)] by (simp add: register_channel_def t'(1))
qed simp

text \<open>C35. Channel ids: registering any channel names, under any hash function, returns, gives two
  names the same id exactly if they are equal, and every id given out looks up its name.\<close>

theorem channel_ids_identify:
  assumes "length ns < 2 ^ 64"
  shows "\<exists>ids g. register_all h ns (gd_new host ip pid grp) = Some (ids, g) \<and> length ids = length ns \<and>
    (\<forall>i < length ns. get_channel_by_id (ids ! i) g = ns ! i) \<and>
    (\<forall>i < length ns. \<forall>j < length ns. ids ! i = ids ! j \<longleftrightarrow> ns ! i = ns ! j)"
proof -
  have "reg_inv h (gd_channels (gd_new host ip pid grp))"
    using reg_inv_new [of 8 h] by (simp add: gd_new_def)
  moreover have "card (dom (hm_map (gd_channels (gd_new host ip pid grp)))) = 0"
    using hm_map_new [of 8, where ?'a = string] by (simp add: gd_new_def dom_def)
  ultimately obtain ids g where g: "register_all h ns (gd_new host ip pid grp) = Some (ids, g)"
    "reg_inv h (gd_channels g)" "length ids = length ns"
    "\<forall>k < length ns. hm_map (gd_channels g) (ids ! k) = Some (ns ! k)"
    using register_all_laws [of h "gd_new host ip pid grp" ns] assms by auto
  have "get_channel_by_id (ids ! i) g = ns ! i" if "i < length ns" for i
    using g(2,4) that by (simp add: get_channel_by_id_def reg_inv_def hm.get_abs)
  moreover have "ids ! i = ids ! j \<longleftrightarrow> ns ! i = ns ! j" if "i < length ns" "j < length ns" for i j
    using reg_inv_unique [OF g(2)] g(4) that by (metis option.inject)
  ultimately show ?thesis using g by blast
qed

theorem channel_ids_identify_witness:
  "\<exists>ids g. register_all (\<lambda>_. 7) [''a'', ''b'', ''a''] (gd_new ''host'' ''ip'' 1 ''group'') = Some (ids, g) \<and>
    ids ! 0 = ids ! 2 \<and> ids ! 0 \<noteq> ids ! 1"
proof -
  obtain ids g where g: "register_all (\<lambda>_. 7) [''a'', ''b'', ''a''] (gd_new ''host'' ''ip'' 1 ''group'') = Some (ids, g)"
    and ids: "\<forall>i < length [''a'', ''b'', ''a'']. \<forall>j < length [''a'', ''b'', ''a''].
      ids ! i = ids ! j \<longleftrightarrow> [''a'', ''b'', ''a''] ! i = [''a'', ''b'', ''a''] ! j"
    using channel_ids_identify [of "[''a'', ''b'', ''a'']" "\<lambda>_. 7" "''host''" "''ip''" 1 "''group''"] by auto
  have "ids ! 0 = ids ! 2" "ids ! 0 \<noteq> ids ! 1"
    using ids [rule_format, of 0 2] ids [rule_format, of 0 1] by simp_all
  with g show ?thesis by blast
qed

end
