(* ===== verification/Discovery_Managers.thy ===== *)
theory Discovery_Managers
  imports Topology_Wire Discovery_Graph Global_Data
begin

text \<open>
  The topology managers of \<open>discovery/specific_manager\<close>: the common part \<open>Manager\<close>
  (\<open>manager.h\<close>, \<open>manager.cpp\<close>) and the two subclasses \<open>NodeManager\<close> and
  \<open>ChannelManager\<close>, whose states extend the record of the base class. The virtual functions
  \<open>Check\<close> and \<open>Dispose\<close> are arguments of the base class operations. Fast DDS is outside: what a
  manager hands to its writer is appended to \<open>mg_written\<close>, and the success of creating the writer
  and the reader is an argument. \<open>now\<close> is the clock, \<open>junk\<close> the indeterminate integers of a
  default-constructed object, \<open>mg_emitted\<close> the messages given to the change signal.
\<close>

section \<open>Manager\<close>

record manager =
  mg_is_shutdown :: bool
  mg_is_discovery_started :: bool
  mg_allowed_role :: u32
  mg_change_type :: change_type
  mg_host_name :: string
  mg_process_id :: u32
  mg_channel_name :: string
  mg_has_writer :: bool
  mg_written :: "byte list list"
  mg_emitted :: "change_msg list"

definition start_discovery :: "bool \<Rightarrow> bool \<Rightarrow> 'a manager_scheme \<Rightarrow> bool \<times> 'a manager_scheme" where
  "start_discovery has_participant created m =
     (if \<not> has_participant then (False, m)
      else if mg_is_discovery_started m then (True, m)
      else if \<not> created then (False, m\<lparr>mg_is_discovery_started := False\<rparr>)
      else (True, m\<lparr>mg_is_discovery_started := True, mg_has_writer := True\<rparr>))"

definition stop_discovery :: "'a manager_scheme \<Rightarrow> 'a manager_scheme" where
  "stop_discovery m = (if \<not> mg_is_discovery_started m then m else m\<lparr>mg_is_discovery_started := False\<rparr>)"

definition manager_shutdown :: "'a manager_scheme \<Rightarrow> 'a manager_scheme" where
  "manager_shutdown m = (if mg_is_shutdown m then m else stop_discovery (m\<lparr>mg_is_shutdown := True\<rparr>))"

definition notify_change :: "change_msg \<Rightarrow> 'a manager_scheme \<Rightarrow> 'a manager_scheme" where
  "notify_change msg m = m\<lparr>mg_emitted := mg_emitted m @ [msg]\<rparr>"

definition convert ::
    "u64 \<Rightarrow> role_attributes \<Rightarrow> role_type \<Rightarrow> operate_type \<Rightarrow> 'a manager_scheme \<Rightarrow> change_msg" where
  "convert now attr role opt m =
     (let attr1 = (if ra_host_name attr = [] then attr\<lparr>ra_host_name := mg_host_name m\<rparr> else attr);
          attr2 = (if ra_process_id attr1 = 0 then attr1\<lparr>ra_process_id := mg_process_id m\<rparr> else attr1)
      in \<lparr>cm_timestamp = now, cm_change_type = mg_change_type m, cm_operate_type = opt, cm_role_type = role,
          cm_role_attr = attr2\<rparr>)"

definition is_from_same_process :: "change_msg \<Rightarrow> 'a manager_scheme \<Rightarrow> bool" where
  "is_from_same_process msg m =
     (if ra_process_id (cm_role_attr msg) \<noteq> mg_process_id m \<or> ra_host_name (cm_role_attr msg) \<noteq> mg_host_name m
      then False else True)"

text \<open>\<open>Write\<close>: the payload it copies into was requested with 255 bytes.\<close>

definition payload_size :: nat where "payload_size = 255"

definition manager_write :: "byte_order \<Rightarrow> change_msg \<Rightarrow> 'a manager_scheme \<Rightarrow> ub + (bool \<times> 'a manager_scheme)" where
  "manager_write h msg m =
     (if \<not> mg_is_discovery_started m then Inr (False, m)
      else let ds = change_serialize h msg (new_stream h)
        in if \<not> mg_has_writer m then Inr (True, m)
           else if payload_size < byte_size ds then Inl OutOfBounds
           else Inr (True, m\<lparr>mg_written := mg_written m @ [ds_data ds]\<rparr>))"

definition need_publish :: "change_msg \<Rightarrow> bool" where "need_publish msg = True"

definition role_allowed :: "role_type \<Rightarrow> 'a manager_scheme \<Rightarrow> bool" where
  "role_allowed role m \<longleftrightarrow> push_bit (unat (role_type_int role)) 1 AND mg_allowed_role m \<noteq> 0"

definition manager_join ::
    "byte_order \<Rightarrow> (role_attributes \<Rightarrow> bool) \<Rightarrow> (change_msg \<Rightarrow> 'a manager_scheme \<Rightarrow> 'a manager_scheme) \<Rightarrow>
     u64 \<Rightarrow> role_attributes \<Rightarrow> role_type \<Rightarrow> bool \<Rightarrow> 'a manager_scheme \<Rightarrow> ub + (bool \<times> 'a manager_scheme)" where
  "manager_join h check dispose now attr role need_write m =
     (if mg_is_shutdown m then Inr (False, m)
      else if \<not> role_allowed role m then Inr (False, m)
      else if \<not> check attr then Inr (False, m)
      else let msg = convert now attr role OPT_JOIN m; m1 = dispose msg m
        in if need_write then manager_write h msg m1 else Inr (True, m1))"

definition manager_leave ::
    "byte_order \<Rightarrow> (role_attributes \<Rightarrow> bool) \<Rightarrow> (change_msg \<Rightarrow> 'a manager_scheme \<Rightarrow> 'a manager_scheme) \<Rightarrow>
     u64 \<Rightarrow> role_attributes \<Rightarrow> role_type \<Rightarrow> 'a manager_scheme \<Rightarrow> ub + (bool \<times> 'a manager_scheme)" where
  "manager_leave h check dispose now attr role m =
     (if mg_is_shutdown m then Inr (False, m)
      else if \<not> role_allowed role m then Inr (False, m)
      else if \<not> check attr then Inr (False, m)
      else let msg = convert now attr role OPT_LEAVE m; m1 = dispose msg m
        in if need_publish msg then manager_write h msg m1 else Inr (True, m1))"

definition on_remote_change ::
    "byte_order \<Rightarrow> (role_attributes \<Rightarrow> bool) \<Rightarrow> (change_msg \<Rightarrow> 'a manager_scheme \<Rightarrow> 'a manager_scheme) \<Rightarrow>
     change_msg \<Rightarrow> byte list \<Rightarrow> 'a manager_scheme \<Rightarrow> ub + 'a manager_scheme" where
  "on_remote_change h check dispose fresh str_msg m =
     (if mg_is_shutdown m then Inr m
      else sbind (change_unserialize h fresh (stream_of h str_msg)) (\<lambda>(ok, msg, s).
        Inr (if is_from_same_process msg m then m
             else if \<not> check (cm_role_attr msg) then m else dispose msg m)))"

section \<open>NodeManager\<close>

record node_manager = manager +
  nm_nodes :: role_map

definition node_manager_new :: "string \<Rightarrow> u32 \<Rightarrow> node_manager" where
  "node_manager_new host pid = \<lparr>mg_is_shutdown = False, mg_is_discovery_started = False, mg_allowed_role = 2,
     mg_change_type = CHANGE_NODE, mg_host_name = host, mg_process_id = pid,
     mg_channel_name = ''node_change_broadcast'', mg_has_writer = False, mg_written = [], mg_emitted = [],
     nm_nodes = []\<rparr>"

definition node_check :: "role_attributes \<Rightarrow> bool" where
  "node_check attr = (if ra_node_name attr = [] then False else if ra_node_id attr = 0 then False else True)"

definition has_node :: "(string \<Rightarrow> u64) \<Rightarrow> string \<Rightarrow> node_manager \<Rightarrow> global_data \<Rightarrow> (bool \<times> global_data) option" where
  "has_node h node_name m g =
     map_option (\<lambda>(key, g1). (sw_search key (nm_nodes m), g1)) (register_node h node_name g)"

definition get_nodes :: "node_manager \<Rightarrow> role_attributes list \<Rightarrow> role_attributes list" where
  "get_nodes m nodes = sw_all_attrs (nm_nodes m) nodes"

text \<open>A duplicate name is only reported, the shutdown is commented out.\<close>

definition node_dispose_join :: "change_msg \<Rightarrow> node_manager \<Rightarrow> node_manager" where
  "node_dispose_join msg m =
     (let node = \<lparr>r_class = RoleBase, r_attributes = cm_role_attr msg, r_timestamp_ns = cm_timestamp msg\<rparr>;
          key = ra_node_id (r_attributes node)
      in case sw_add key node False (nm_nodes m) of
        (True, nodes) \<Rightarrow> m\<lparr>nm_nodes := nodes\<rparr>
      | (False, nodes) \<Rightarrow> (case sw_search_role key nodes of
          None \<Rightarrow> m\<lparr>nm_nodes := snd (sw_add key node True nodes)\<rparr>
        | Some newer_node \<Rightarrow> if is_earlier_than node newer_node
            then m\<lparr>nm_nodes := snd (sw_add key node True nodes)\<rparr> else m\<lparr>nm_nodes := nodes\<rparr>))"

definition node_dispose_leave :: "change_msg \<Rightarrow> node_manager \<Rightarrow> node_manager" where
  "node_dispose_leave msg m =
     m\<lparr>nm_nodes := sw_remove (ra_node_id (cm_role_attr msg)) (nm_nodes m)\<rparr>"

definition node_dispose :: "change_msg \<Rightarrow> node_manager \<Rightarrow> node_manager" where
  "node_dispose msg m = notify_change msg
     (if cm_operate_type msg = OPT_JOIN then node_dispose_join msg m else node_dispose_leave msg m)"

definition node_topo_module_leave ::
    "role_attributes \<Rightarrow> u64 \<Rightarrow> string \<Rightarrow> u32 \<Rightarrow> node_manager \<Rightarrow> node_manager" where
  "node_topo_module_leave junk now host_name process_id m =
     (if \<not> mg_is_discovery_started m then m
      else let attr = (new_attributes junk)\<lparr>ra_host_name := host_name, ra_process_id := process_id\<rparr>;
               nodes_to_remove = snd (sw_match_roles attr (nm_nodes m) []);
               m1 = m\<lparr>nm_nodes := fold (\<lambda>node. sw_remove (ra_node_id (r_attributes node))) nodes_to_remove
                 (nm_nodes m)\<rparr>
        in fold (\<lambda>node m. notify_change (convert now (r_attributes node) ROLE_NODE OPT_LEAVE m) m)
             nodes_to_remove m1)"

section \<open>ChannelManager\<close>

record channel_manager = manager +
  chm_node_graph :: graph
  chm_node_writers :: role_map
  chm_node_readers :: role_map
  chm_channel_writers :: role_map
  chm_channel_readers :: role_map

definition channel_manager_new :: "string \<Rightarrow> u32 \<Rightarrow> channel_manager" where
  "channel_manager_new host pid = \<lparr>mg_is_shutdown = False, mg_is_discovery_started = False, mg_allowed_role = 12,
     mg_change_type = CHANGE_CHANNEL, mg_host_name = host, mg_process_id = pid,
     mg_channel_name = ''channel_change_broadcast'', mg_has_writer = False, mg_written = [], mg_emitted = [],
     chm_node_graph = new_graph, chm_node_writers = [], chm_node_readers = [], chm_channel_writers = [],
     chm_channel_readers = []\<rparr>"

definition channel_check :: "role_attributes \<Rightarrow> bool" where
  "channel_check attr = (if ra_channel_name attr = [] then False else if ra_channel_id attr = 0 then False
     else if ra_id attr = 0 then False else True)"

definition is_message_type_matching :: "string \<Rightarrow> string \<Rightarrow> bool" where
  "is_message_type_matching lhs rhs \<longleftrightarrow> lhs = rhs"

text \<open>The warnings of \<open>ScanMessageType\<close>: the existing writers and readers that do not fit.\<close>

definition scan_message_type :: "change_msg \<Rightarrow> channel_manager \<Rightarrow> role_attributes list \<times> role_attributes list" where
  "scan_message_type msg m =
     (let key = ra_channel_id (cm_role_attr msg);
          existed_writers = snd (mw_search_attrs key (chm_channel_writers m) []);
          existed_readers = snd (mw_search_attrs key (chm_channel_readers m) [])
      in (filter (\<lambda>w. \<not> is_message_type_matching (ra_message_type w) (ra_message_type (cm_role_attr msg))) existed_writers,
          filter (\<lambda>r. \<not> is_message_type_matching (ra_message_type (cm_role_attr msg)) (ra_message_type r)) existed_readers))"

definition channel_dispose_join :: "change_msg \<Rightarrow> channel_manager \<Rightarrow> channel_manager" where
  "channel_dispose_join msg m =
     (let v = Vertice (ra_node_name (cm_role_attr msg));
          e = new_edge\<lparr>e_value := ra_channel_name (cm_role_attr msg)\<rparr>;
          role = \<lparr>r_class = RoleWriter, r_attributes = cm_role_attr msg, r_timestamp_ns = cm_timestamp msg\<rparr>;
          node_id = ra_node_id (r_attributes role); channel_id = ra_channel_id (r_attributes role)
      in if cm_role_type msg = ROLE_WRITER
         then m\<lparr>chm_node_writers := snd (mw_add node_id role True (chm_node_writers m)),
                chm_channel_writers := snd (mw_add channel_id role True (chm_channel_writers m)),
                chm_node_graph := graph_insert (e\<lparr>e_src := v\<rparr>) (chm_node_graph m)\<rparr>
         else m\<lparr>chm_node_readers := snd (mw_add node_id role True (chm_node_readers m)),
                chm_channel_readers := snd (mw_add channel_id role True (chm_channel_readers m)),
                chm_node_graph := graph_insert (e\<lparr>e_dst := v\<rparr>) (chm_node_graph m)\<rparr>)"

definition channel_dispose_leave :: "change_msg \<Rightarrow> channel_manager \<Rightarrow> channel_manager" where
  "channel_dispose_leave msg m =
     (let v = Vertice (ra_node_name (cm_role_attr msg));
          e = new_edge\<lparr>e_value := ra_channel_name (cm_role_attr msg)\<rparr>;
          role = \<lparr>r_class = RoleWriter, r_attributes = cm_role_attr msg, r_timestamp_ns = cm_timestamp msg\<rparr>;
          node_id = ra_node_id (r_attributes role); channel_id = ra_channel_id (r_attributes role)
      in if cm_role_type msg = ROLE_WRITER
         then m\<lparr>chm_node_writers := mw_remove_role node_id role (chm_node_writers m),
                chm_channel_writers := mw_remove_role channel_id role (chm_channel_writers m),
                chm_node_graph := graph_delete (e\<lparr>e_src := v\<rparr>) (chm_node_graph m)\<rparr>
         else m\<lparr>chm_node_readers := mw_remove_role channel_id role (chm_node_readers m),
                chm_channel_readers := mw_remove_role channel_id role (chm_channel_readers m),
                chm_node_graph := graph_delete (e\<lparr>e_dst := v\<rparr>) (chm_node_graph m)\<rparr>)"

definition channel_dispose :: "change_msg \<Rightarrow> channel_manager \<Rightarrow> channel_manager" where
  "channel_dispose msg m = notify_change msg
     (if cm_operate_type msg = OPT_JOIN then channel_dispose_join msg m else channel_dispose_leave msg m)"

definition get_channel_names :: "channel_manager \<Rightarrow> string list \<Rightarrow> string list" where
  "get_channel_names m channels =
     channels @ remdups (map (\<lambda>role. ra_channel_name (r_attributes role))
       (mw_all (chm_channel_readers m) (mw_all (chm_channel_writers m) [])))"

definition get_msg_type ::
    "(string \<Rightarrow> u64) \<Rightarrow> string \<Rightarrow> string \<Rightarrow> channel_manager \<Rightarrow> global_data \<Rightarrow> (string \<times> global_data) option" where
  "get_msg_type h channel_name msg_type m g =
     map_option (\<lambda>(key, g1). (case mw_search_role key (chm_channel_writers m) of
         None \<Rightarrow> msg_type
       | Some w \<Rightarrow> if ra_message_type (r_attributes w) \<noteq> [] then ra_message_type (r_attributes w) else msg_type, g1))
       (register_channel h channel_name g)"

definition has_writer :: "(string \<Rightarrow> u64) \<Rightarrow> string \<Rightarrow> channel_manager \<Rightarrow> global_data \<Rightarrow> (bool \<times> global_data) option" where
  "has_writer h channel_name m g =
     map_option (\<lambda>(key, g1). (mw_search key (chm_channel_writers m), g1)) (register_channel h channel_name g)"

definition has_reader :: "(string \<Rightarrow> u64) \<Rightarrow> string \<Rightarrow> channel_manager \<Rightarrow> global_data \<Rightarrow> (bool \<times> global_data) option" where
  "has_reader h channel_name m g =
     map_option (\<lambda>(key, g1). (mw_search key (chm_channel_readers m), g1)) (register_channel h channel_name g)"

definition get_writers :: "channel_manager \<Rightarrow> role_attributes list \<Rightarrow> role_attributes list" where
  "get_writers m out = mw_all_attrs (chm_channel_writers m) out"

definition get_readers :: "channel_manager \<Rightarrow> role_attributes list \<Rightarrow> role_attributes list" where
  "get_readers m out = mw_all_attrs (chm_channel_readers m) out"

text \<open>A query by name registers the name and looks the id up.\<close>

type_synonym role_query = "role_attributes list \<Rightarrow> global_data \<Rightarrow> (role_attributes list \<times> global_data) option"

definition get_writers_of_channel :: "(string \<Rightarrow> u64) \<Rightarrow> channel_manager \<Rightarrow> string \<Rightarrow> role_query" where
  "get_writers_of_channel h m channel_name out g =
     map_option (\<lambda>(key, g1). (snd (mw_search_attrs key (chm_channel_writers m) out), g1))
       (register_channel h channel_name g)"

definition get_readers_of_channel :: "(string \<Rightarrow> u64) \<Rightarrow> channel_manager \<Rightarrow> string \<Rightarrow> role_query" where
  "get_readers_of_channel h m channel_name out g =
     map_option (\<lambda>(key, g1). (snd (mw_search_attrs key (chm_channel_readers m) out), g1))
       (register_channel h channel_name g)"

definition get_readers_of_node :: "(string \<Rightarrow> u64) \<Rightarrow> channel_manager \<Rightarrow> string \<Rightarrow> role_query" where
  "get_readers_of_node h m node_name out g =
     map_option (\<lambda>(key, g1). (snd (mw_search_attrs key (chm_node_readers m) out), g1))
       (register_node h node_name g)"

definition get_writers_of_node :: "(string \<Rightarrow> u64) \<Rightarrow> channel_manager \<Rightarrow> string \<Rightarrow> role_query" where
  "get_writers_of_node h m node_name out g =
     map_option (\<lambda>(key, g1). (snd (mw_search_attrs key (chm_node_writers m) out), g1))
       (register_node h node_name g)"

fun query_all :: "(string \<Rightarrow> role_query) \<Rightarrow> string list \<Rightarrow> role_query" where
  "query_all q [] out g = Some (out, g)"
| "query_all q (c # cs) out g = Option.bind (q c out g) (\<lambda>(out1, g1). query_all q cs out1 g1)"

definition nodes_of :: "role_attributes \<Rightarrow> role_attributes list \<Rightarrow> (string \<times> role_attributes) list" where
  "nodes_of junk roles = fold (\<lambda>w nodes. AList.update (ra_node_name w)
     ((new_attributes junk)\<lparr>ra_host_name := ra_host_name w, ra_process_id := ra_process_id w,
        ra_node_name := ra_node_name w, ra_node_id := ra_node_id w\<rparr>) nodes) roles []"

definition get_upstream_of_node :: "(string \<Rightarrow> u64) \<Rightarrow> role_attributes \<Rightarrow> channel_manager \<Rightarrow> string \<Rightarrow> role_query" where
  "get_upstream_of_node h junk m node_name upstream_nodes g =
     Option.bind (get_readers_of_node h m node_name [] g) (\<lambda>(readers, g1).
       if readers = [] then Some (upstream_nodes, g1)
       else let channels = remdups (map ra_channel_name readers)
         in map_option (\<lambda>(writers, g2). (upstream_nodes @ map snd (nodes_of junk writers), g2))
              (query_all (get_writers_of_channel h m) channels [] g1))"

definition get_downstream_of_node :: "(string \<Rightarrow> u64) \<Rightarrow> role_attributes \<Rightarrow> channel_manager \<Rightarrow> string \<Rightarrow> role_query" where
  "get_downstream_of_node h junk m node_name downstream_nodes g =
     Option.bind (get_writers_of_node h m node_name [] g) (\<lambda>(writers, g1).
       if writers = [] then Some (downstream_nodes, g1)
       else let channels = remdups (map ra_channel_name writers)
         in map_option (\<lambda>(readers, g2). (downstream_nodes @ map snd (nodes_of junk readers), g2))
              (query_all (get_readers_of_channel h m) channels [] g1))"

definition get_flow_direction :: "string \<Rightarrow> string \<Rightarrow> channel_manager \<Rightarrow> flow_direction \<times> channel_manager" where
  "get_flow_direction lhs_node_name rhs_node_name m =
     (case get_direction_of (Vertice lhs_node_name) (Vertice rhs_node_name) (chm_node_graph m) of
        (d, g) \<Rightarrow> (d, m\<lparr>chm_node_graph := g\<rparr>))"

definition channel_topo_module_leave ::
    "role_attributes \<Rightarrow> u64 \<Rightarrow> string \<Rightarrow> u32 \<Rightarrow> channel_manager \<Rightarrow> channel_manager" where
  "channel_topo_module_leave junk now host_name process_id m =
     (if \<not> mg_is_discovery_started m then m
      else let attr = (new_attributes junk)\<lparr>ra_host_name := host_name, ra_process_id := process_id\<rparr>;
               writers_to_remove = snd (mw_match_roles attr (chm_channel_writers m) []);
               readers_to_remove = snd (mw_match_roles attr (chm_channel_readers m) []);
               go = (\<lambda>role_type role m. let msg = convert now (r_attributes role) role_type OPT_LEAVE m
                     in notify_change msg (channel_dispose_leave msg m))
        in fold (go ROLE_READER) readers_to_remove (fold (go ROLE_WRITER) writers_to_remove m))"

end
