(* ===== verification/Discovery_Claims.thy ===== *)
theory Discovery_Claims
  imports Discovery_Managers
begin

text \<open>
  What the topology managers of \<open>Discovery_Managers\<close> guarantee, from the operations on roles,
  warehouses, graph and stream they are composed of, and where they fail.
\<close>

section \<open>Broadcasting a change\<close>

lemma length_qos_enc: "length (qos_enc q) = 31"
  by (simp add: qos_enc_def)

lemma length_enc_string: "length (enc_string bs) = 6 + length bs"
  by (simp add: enc_string_def)

definition name_bytes :: "role_attributes \<Rightarrow> nat" where
  "name_bytes a = length (ra_host_name a) + length (ra_host_ip a) + length (ra_channel_name a) +
     length (ra_node_name a) + length (ra_message_type a)"

lemma change_payload:
  "ds_data (change_serialize h m (new_stream h)) = change_enc m"
  "byte_size (change_serialize h m (new_stream h)) = 110 + name_bytes (cm_role_attr m)"
proof -
  show "ds_data (change_serialize h m (new_stream h)) = change_enc m"
    using change_writes [of h m] by (simp add: writes_def ds_data_def new_stream_def byteorder_host)
  then show "byte_size (change_serialize h m (new_stream h)) = 110 + name_bytes (cm_role_attr m)"
    by (simp add: byte_size_def ds_data_def change_enc_def attr_enc_def length_qos_enc length_enc_string name_bytes_def)
qed

text \<open>A broadcast topology change takes 110 bytes and the characters of its five strings, so
  \<open>Write\<close> stays within the 255 bytes it requests exactly if these strings have at most 145
  characters; beyond that it copies past the payload.\<close>

lemma write_fits_payload:
  assumes "mg_is_discovery_started m" and "mg_has_writer m"
  shows "manager_write h msg m =
    (if name_bytes (cm_role_attr msg) \<le> 145
     then Inr (True, m\<lparr>mg_written := mg_written m @ [change_enc msg]\<rparr>) else Inl OutOfBounds)"
  using assms by (simp add: manager_write_def Let_def change_payload payload_size_def)

lemma write_fits_payload_witness:
  "manager_write LittleEndian (sample_change\<lparr>cm_role_attr := sample_attr\<lparr>ra_message_type := replicate 150 CHR ''T''\<rparr>\<rparr>)
    ((channel_manager_new ''h'' 7)\<lparr>mg_is_discovery_started := True, mg_has_writer := True\<rparr>) = Inl OutOfBounds"
  using write_fits_payload [of "(channel_manager_new ''h'' 7)\<lparr>mg_is_discovery_started := True, mg_has_writer := True\<rparr>"
      LittleEndian "sample_change\<lparr>cm_role_attr := sample_attr\<lparr>ra_message_type := replicate 150 CHR ''T''\<rparr>\<rparr>"]
  by (simp add: name_bytes_def)

section \<open>NodeManager\<close>

lemma join_nodes:
  "cm_operate_type msg = OPT_JOIN \<Longrightarrow> nm_nodes (node_dispose msg m) =
    (let key = ra_node_id (cm_role_attr msg);
         node = \<lparr>r_class = RoleBase, r_attributes = cm_role_attr msg, r_timestamp_ns = cm_timestamp msg\<rparr>
     in case map_of (nm_nodes m) key of
          None \<Rightarrow> AList.update key node (nm_nodes m)
        | Some old \<Rightarrow> if cm_timestamp msg < r_timestamp_ns old then AList.update key node (nm_nodes m) else nm_nodes m)"
  by (auto simp: node_dispose_def notify_change_def node_dispose_join_def Let_def sw_add_def sw_search_role_def
      is_earlier_than_def split: option.split)

text \<open>C36. Duplicate node names: whatever joins arrive in whatever order, \<open>NodeManager\<close> holds a
  node under each id that joined, the one with the earliest timestamp.\<close>

theorem earliest_node_kept:
  assumes "\<forall>msg \<in> set msgs. cm_operate_type msg = OPT_JOIN" and "nm_nodes m = []"
  shows "case map_of (nm_nodes (fold node_dispose msgs m)) key of
      None \<Rightarrow> \<forall>msg \<in> set msgs. ra_node_id (cm_role_attr msg) \<noteq> key
    | Some r \<Rightarrow> (\<exists>msg \<in> set msgs. ra_node_id (cm_role_attr msg) = key \<and> r_attributes r = cm_role_attr msg \<and>
          r_timestamp_ns r = cm_timestamp msg) \<and>
        (\<forall>msg \<in> set msgs. ra_node_id (cm_role_attr msg) = key \<longrightarrow> r_timestamp_ns r \<le> cm_timestamp msg)"
  using assms
proof (induction msgs rule: rev_induct)
  case (snoc msg msgs)
  have j: "cm_operate_type msg = OPT_JOIN" using snoc.prems by simp
  let ?m = "fold node_dispose msgs m"
  show ?case
  proof (cases "map_of (nm_nodes ?m) (ra_node_id (cm_role_attr msg))")
    case None
    then show ?thesis
      using snoc by (cases "ra_node_id (cm_role_attr msg) = key")
        (auto simp: join_nodes [OF j] Let_def update_conv' split: option.splits)
  next
    case (Some old)
    then show ?thesis
      using snoc by (cases "ra_node_id (cm_role_attr msg) = key"; cases "cm_timestamp msg < r_timestamp_ns old")
        (auto simp: join_nodes [OF j] Let_def update_conv' not_less split: option.splits intro: less_imp_le dest: order_trans)
  qed
qed simp

theorem earliest_node_kept_witness:
  "(case map_of (nm_nodes (fold node_dispose
      [sample_change\<lparr>cm_timestamp := 5\<rparr>, sample_change\<lparr>cm_timestamp := 3\<rparr>, sample_change\<lparr>cm_timestamp := 4\<rparr>]
      (node_manager_new ''h'' 1))) 9 of None \<Rightarrow> False | Some r \<Rightarrow> r_timestamp_ns r \<le> 3)"
  using earliest_node_kept [of "[sample_change\<lparr>cm_timestamp := 5\<rparr>, sample_change\<lparr>cm_timestamp := 3\<rparr>,
      sample_change\<lparr>cm_timestamp := 4\<rparr>]" "node_manager_new ''h'' 1" 9]
  by (simp add: sample_change_def sample_attr_def node_manager_new_def split: option.splits)

section \<open>ChannelManager\<close>

definition msg_role :: "change_msg \<Rightarrow> role" where
  "msg_role msg = \<lparr>r_class = RoleWriter, r_attributes = cm_role_attr msg, r_timestamp_ns = cm_timestamp msg\<rparr>"

text \<open>What a message means to the writers of the channels.\<close>

definition writer_op :: "change_msg \<Rightarrow> warehouse_op list" where
  "writer_op msg = (if cm_role_type msg \<noteq> ROLE_WRITER then []
     else if cm_operate_type msg = OPT_JOIN then [WAdd (ra_channel_id (cm_role_attr msg)) (msg_role msg)]
     else [WRemoveRole (ra_channel_id (cm_role_attr msg)) (msg_role msg)])"

lemma channel_writers_step:
  "chm_channel_writers (channel_dispose msg m) = fold mw_step (writer_op msg) (chm_channel_writers m)"
  by (simp add: channel_dispose_def notify_change_def channel_dispose_join_def channel_dispose_leave_def
      Let_def writer_op_def msg_role_def)

lemma channel_writers_run:
  "chm_channel_writers (fold channel_dispose msgs m) =
    fold mw_step (concat (map writer_op msgs)) (chm_channel_writers m)"
  by (induction msgs arbitrary: m) (simp_all add: channel_writers_step)

lemma survives_append:
  "survives keep (xs @ ys) k r \<longleftrightarrow>
    survives keep ys k r \<or> survives keep xs k r \<and> (\<forall>y \<in> set ys. \<not> kills keep y k r)"
  by (induction xs) auto

lemma survives_writers:
  "survives True (concat (map writer_op msgs)) k r \<longleftrightarrow>
    (\<exists>pre msg post. msgs = pre @ msg # post \<and> cm_role_type msg = ROLE_WRITER \<and> cm_operate_type msg = OPT_JOIN \<and>
      ra_channel_id (cm_role_attr msg) = k \<and> r = msg_role msg \<and>
      (\<forall>l \<in> set post. \<not> (cm_role_type l = ROLE_WRITER \<and> cm_operate_type l \<noteq> OPT_JOIN \<and>
         ra_channel_id (cm_role_attr l) = k \<and> role_match r (cm_role_attr l))))"
proof (induction msgs)
  case (Cons m msgs)
  have kill: "(\<forall>y \<in> set (concat (map writer_op ms)). \<not> kills True y k r) \<longleftrightarrow>
      (\<forall>l \<in> set ms. \<not> (cm_role_type l = ROLE_WRITER \<and> cm_operate_type l \<noteq> OPT_JOIN \<and>
         ra_channel_id (cm_role_attr l) = k \<and> role_match r (cm_role_attr l)))" for ms
    by (induction ms) (auto simp: writer_op_def msg_role_def)
  have head: "survives True (writer_op m) k r \<longleftrightarrow> cm_role_type m = ROLE_WRITER \<and> cm_operate_type m = OPT_JOIN \<and>
      ra_channel_id (cm_role_attr m) = k \<and> r = msg_role m"
    by (auto simp: writer_op_def)
  show ?case
    unfolding list.map concat.simps survives_append Cons.IH kill head
    by (auto simp: Cons_eq_append_conv)
qed simp

text \<open>C37. \<open>GetWritersOfChannel\<close>: after any topology changes the search under a channel id finds
  exactly the writers that joined with this id and that no later leave of a writer with the same
  channel, id, node, process and host has taken out.\<close>

theorem writers_of_channel_tracked:
  "\<exists>found. mw_search_roles k (chm_channel_writers (fold channel_dispose msgs (channel_manager_new host pid))) out =
      (found \<noteq> [], out @ found) \<and>
    (\<forall>r. r \<in> set found \<longleftrightarrow>
      (\<exists>pre msg post. msgs = pre @ msg # post \<and> cm_role_type msg = ROLE_WRITER \<and> cm_operate_type msg = OPT_JOIN \<and>
        ra_channel_id (cm_role_attr msg) = k \<and> r = msg_role msg \<and>
        (\<forall>l \<in> set post. \<not> (cm_role_type l = ROLE_WRITER \<and> cm_operate_type l \<noteq> OPT_JOIN \<and>
           ra_channel_id (cm_role_attr l) = k \<and> role_match r (cm_role_attr l)))))"
proof -
  have "\<exists>found. mw_search_roles k (fold mw_step (concat (map writer_op msgs)) []) out = (found \<noteq> [], out @ found) \<and>
      set found = {r. survives True (concat (map writer_op msgs)) k r}"
    using mw.search_survivors unfolding steps_same .
  then show ?thesis
    unfolding channel_writers_run survives_writers [symmetric]
    by (simp add: channel_manager_new_def set_eq_iff)
qed

text \<open>A reader that leaves stays with its node: \<open>DisposeLeave\<close> looks for it under its channel
  id while \<open>DisposeJoin\<close> filed it under its node id, so the readers of the node keep it and
  \<open>GetReadersOfNode\<close> and \<open>GetUpstreamOfNode\<close> go on reporting it.\<close>

lemma reader_stays_after_leave:
  assumes "cm_role_type msg \<noteq> ROLE_WRITER" and "ra_node_id (cm_role_attr msg) \<noteq> ra_channel_id (cm_role_attr msg)"
  shows "(ra_node_id (cm_role_attr msg), msg_role msg) \<in> set (chm_node_readers
      (channel_dispose (msg\<lparr>cm_operate_type := OPT_LEAVE\<rparr>) (channel_dispose (msg\<lparr>cm_operate_type := OPT_JOIN\<rparr>) m))) \<and>
    \<not> (\<exists>r. (ra_channel_id (cm_role_attr msg), r) \<in> set (chm_channel_readers
      (channel_dispose (msg\<lparr>cm_operate_type := OPT_LEAVE\<rparr>) (channel_dispose (msg\<lparr>cm_operate_type := OPT_JOIN\<rparr>) m))) \<and>
      role_match r (cm_role_attr msg))"
  using assms
  by (simp add: channel_dispose_def notify_change_def channel_dispose_join_def channel_dispose_leave_def Let_def
      msg_role_def mw_add_def mw_remove_role_def role_match_def writer_match_def base_match_def split: role_class.split)

lemma reader_stays_after_leave_witness:
  "(9, msg_role (sample_change\<lparr>cm_role_type := ROLE_READER\<rparr>)) \<in> set (chm_node_readers
      (channel_dispose (sample_change\<lparr>cm_role_type := ROLE_READER, cm_operate_type := OPT_LEAVE\<rparr>)
        (channel_dispose (sample_change\<lparr>cm_role_type := ROLE_READER, cm_operate_type := OPT_JOIN\<rparr>)
          (channel_manager_new ''h'' 7))))"
  using reader_stays_after_leave [of "sample_change\<lparr>cm_role_type := ROLE_READER\<rparr>" "channel_manager_new ''h'' 7"]
  by (simp add: sample_change_def sample_attr_def)

definition writer_change :: "operate_type \<Rightarrow> u64 \<Rightarrow> change_msg" where
  "writer_change opt i = sample_change\<lparr>cm_operate_type := opt, cm_role_attr := sample_attr\<lparr>ra_id := i\<rparr>\<rparr>"

definition reader_change :: change_msg where
  "reader_change = sample_change\<lparr>cm_role_type := ROLE_READER,
     cm_role_attr := sample_attr\<lparr>ra_id := 77, ra_node_name := ''m'', ra_node_id := 10\<rparr>\<rparr>"

lemmas channel_steps = channel_dispose_def notify_change_def channel_dispose_join_def channel_dispose_leave_def
  Let_def writer_change_def reader_change_def sample_change_def sample_attr_def

theorem writers_of_channel_tracked_witness:
  "\<exists>found. mw_search_roles 42 (chm_channel_writers (fold channel_dispose
        [writer_change OPT_JOIN 1, writer_change OPT_JOIN 2, writer_change OPT_LEAVE 1]
        (channel_manager_new ''h'' 7))) [] = (True, found) \<and>
      set found = {msg_role (writer_change OPT_JOIN 2)}"
proof -
  have ids: "cm_operate_type (writer_change opt i) = opt" "cm_role_type (writer_change opt i) = ROLE_WRITER"
      "ra_channel_id (cm_role_attr (writer_change opt i)) = 42"
      "role_match (msg_role (writer_change opt i)) (cm_role_attr (writer_change opt' i')) \<longleftrightarrow> i = i'" for opt opt' i i'
    by (simp_all add: channel_steps msg_role_def role_match_def writer_match_def base_match_def)
  let ?msgs = "[writer_change OPT_JOIN 1, writer_change OPT_JOIN 2, writer_change OPT_LEAVE 1]"
  have stays: "(\<exists>pre msg post. ?msgs = pre @ msg # post \<and> cm_role_type msg = ROLE_WRITER \<and>
      cm_operate_type msg = OPT_JOIN \<and> ra_channel_id (cm_role_attr msg) = 42 \<and> r = msg_role msg \<and>
      (\<forall>l \<in> set post. \<not> (cm_role_type l = ROLE_WRITER \<and> cm_operate_type l \<noteq> OPT_JOIN \<and>
         ra_channel_id (cm_role_attr l) = 42 \<and> role_match r (cm_role_attr l)))) \<longleftrightarrow>
      r = msg_role (writer_change OPT_JOIN 2)" (is "?P \<longleftrightarrow> _") for r
  proof
    assume ?P then show "r = msg_role (writer_change OPT_JOIN 2)" by (auto simp: Cons_eq_append_conv ids)
  next
    assume r: "r = msg_role (writer_change OPT_JOIN 2)"
    have "?msgs = [writer_change OPT_JOIN 1] @ writer_change OPT_JOIN 2 # [writer_change OPT_LEAVE 1]" by simp
    with r show ?P by (intro exI conjI) (assumption | simp add: ids)+
  qed
  show ?thesis
    using writers_of_channel_tracked [of 42 ?msgs "''h''" 7 "[]"] unfolding stays
    by (auto simp: set_eq_iff)
qed

lemma two_writers_graph:
  "chm_node_graph (fold channel_dispose [writer_change OPT_JOIN 1, writer_change OPT_JOIN 2, reader_change] m) =
    fold graph_step [GInsert (new_edge\<lparr>e_value := ''c'', e_src := Vertice ''n''\<rparr>),
      GInsert (new_edge\<lparr>e_value := ''c'', e_src := Vertice ''n''\<rparr>),
      GInsert (new_edge\<lparr>e_value := ''c'', e_dst := Vertice ''m''\<rparr>)] (chm_node_graph m)"
  by (simp add: channel_steps)

lemma one_leaves_graph:
  "chm_node_graph (channel_dispose (writer_change OPT_LEAVE 1) m) =
    graph_delete (new_edge\<lparr>e_value := ''c'', e_src := Vertice ''n''\<rparr>) (chm_node_graph m)"
  by (simp add: channel_steps)

lemma two_writers_direction:
  "fst (get_direction_of (Vertice ''n'') (Vertice ''m'')
    (run_graph [GInsert (new_edge\<lparr>e_value := ''c'', e_src := Vertice ''n''\<rparr>),
      GInsert (new_edge\<lparr>e_value := ''c'', e_src := Vertice ''n''\<rparr>),
      GInsert (new_edge\<lparr>e_value := ''c'', e_dst := Vertice ''m''\<rparr>)])) = UPSTREAM"
  "fst (get_direction_of (Vertice ''n'') (Vertice ''m'')
    (run_graph [GInsert (new_edge\<lparr>e_value := ''c'', e_src := Vertice ''n''\<rparr>),
      GInsert (new_edge\<lparr>e_value := ''c'', e_src := Vertice ''n''\<rparr>),
      GInsert (new_edge\<lparr>e_value := ''c'', e_dst := Vertice ''m''\<rparr>),
      GDelete (new_edge\<lparr>e_value := ''c'', e_src := Vertice ''n''\<rparr>)])) = UNREACHABLE"
  by code_simp+

lemma flow_direction_graph:
  "fst (get_flow_direction l r m) = fst (get_direction_of (Vertice l) (Vertice r) (chm_node_graph m))"
  by (simp add: get_flow_direction_def case_prod_beta)

definition two_writers :: "string \<Rightarrow> u32 \<Rightarrow> channel_manager" where
  "two_writers host pid = fold channel_dispose
     [writer_change OPT_JOIN 1, writer_change OPT_JOIN 2, reader_change] (channel_manager_new host pid)"

text \<open>The graph does not count writers: when one of two writers a node has on a channel leaves,
  the node is no longer found upstream of the readers although its other writer is still there.\<close>

lemma second_writer_lost:
  "fst (get_flow_direction ''n'' ''m'' (two_writers host pid)) = UPSTREAM \<and>
    fst (get_flow_direction ''n'' ''m'' (channel_dispose (writer_change OPT_LEAVE 1) (two_writers host pid))) =
      UNREACHABLE \<and>
    map ra_id (get_writers (channel_dispose (writer_change OPT_LEAVE 1) (two_writers host pid)) []) = [2]"
proof (intro conjI)
  have new: "chm_node_graph (channel_manager_new host pid) = new_graph" by (simp add: channel_manager_new_def)
  note graph = two_writers_graph [of "channel_manager_new host pid", unfolded new, folded two_writers_def run_graph_def]
  show "fst (get_flow_direction ''n'' ''m'' (two_writers host pid)) = UPSTREAM"
    unfolding flow_direction_graph graph by (rule two_writers_direction)
  show "fst (get_flow_direction ''n'' ''m'' (channel_dispose (writer_change OPT_LEAVE 1) (two_writers host pid))) =
      UNREACHABLE"
    unfolding flow_direction_graph one_leaves_graph graph
    using two_writers_direction(2) by (simp add: run_graph_def)
  show "map ra_id (get_writers (channel_dispose (writer_change OPT_LEAVE 1) (two_writers host pid)) []) = [2]"
    by (simp add: two_writers_def channel_manager_new_def channel_steps get_writers_def mw_all_attrs_def mw_add_def
      mw_remove_role_def role_match_def writer_match_def base_match_def)
qed

section \<open>A process that leaves\<close>

lemma no_match:
  assumes "\<forall>(k, r) \<in> set roles. r_class r = RoleWriter \<longrightarrow> ra_channel_id (r_attributes r) \<noteq> ra_channel_id a \<or> ra_id (r_attributes r) \<noteq> ra_id a"
    and "\<forall>(k, r) \<in> set roles. r_class r = RoleBase \<longrightarrow> ra_node_id (r_attributes r) \<noteq> ra_node_id a"
  shows "filter (\<lambda>(k, r). role_match r a) roles = []"
proof -
  have "\<not> role_match r a" if kr: "(k, r) \<in> set roles" for k r
  proof (cases "r_class r")
    case RoleBase
    with assms(2) kr have "ra_node_id (r_attributes r) \<noteq> ra_node_id a" by blast
    with RoleBase show ?thesis by (simp add: role_match_def base_match_def)
  next
    case RoleWriter
    with assms(1) kr have "ra_channel_id (r_attributes r) \<noteq> ra_channel_id a \<or> ra_id (r_attributes r) \<noteq> ra_id a"
      by blast
    with RoleWriter show ?thesis by (auto simp: role_match_def writer_match_def)
  qed
  then show ?thesis by (auto simp: filter_empty_conv)
qed

text \<open>When a process leaves, its roles stay: the attributes \<open>OnTopoModuleLeave\<close> searches with
  have only a host and a process id, the node, channel and role ids they are compared by are
  whatever they happened to be; unless a role has just these ids, both managers keep all roles of
  the process and report nothing.\<close>

lemma process_leave_removes_nothing:
  assumes "\<forall>(k, r) \<in> set (nm_nodes n). r_class r = RoleBase \<and> ra_node_id (r_attributes r) \<noteq> ra_node_id junk"
    and "\<forall>(k, r) \<in> set (chm_channel_writers c). r_class r = RoleWriter \<and> ra_id (r_attributes r) \<noteq> ra_id junk"
    and "\<forall>(k, r) \<in> set (chm_channel_readers c). r_class r = RoleWriter \<and> ra_id (r_attributes r) \<noteq> ra_id junk"
  shows "node_topo_module_leave junk now host pid n = n \<and> channel_topo_module_leave junk now host pid c = c"
proof -
  let ?a = "(new_attributes junk)\<lparr>ra_host_name := host, ra_process_id := pid\<rparr>"
  have "filter (\<lambda>(k, r). role_match r ?a) (nm_nodes n) = []"
    "filter (\<lambda>(k, r). role_match r ?a) (chm_channel_writers c) = []"
    "filter (\<lambda>(k, r). role_match r ?a) (chm_channel_readers c) = []"
    by (rule no_match; use assms in \<open>auto simp: new_attributes_def\<close>)+
  then have "sw_match_roles ?a (nm_nodes n) [] = (False, [])"
    "mw_match_roles ?a (chm_channel_writers c) [] = (False, [])"
    "mw_match_roles ?a (chm_channel_readers c) [] = (False, [])"
    by (simp_all add: sw_match_roles_def mw_match_roles_def fold_collect [where f = "\<lambda>x. x"])
  then show ?thesis
    by (simp add: node_topo_module_leave_def channel_topo_module_leave_def Let_def)
qed

lemma process_leave_removes_nothing_witness:
  "channel_topo_module_leave (sample_attr\<lparr>ra_id := 123\<rparr>) 1 ''h'' 7
      (channel_dispose (writer_change OPT_JOIN 1) ((channel_manager_new ''h2'' 8)\<lparr>mg_is_discovery_started := True\<rparr>)) =
    channel_dispose (writer_change OPT_JOIN 1) ((channel_manager_new ''h2'' 8)\<lparr>mg_is_discovery_started := True\<rparr>)"
  using process_leave_removes_nothing [of "node_manager_new ''h2'' 8" "sample_attr\<lparr>ra_id := 123\<rparr>"
      "channel_dispose (writer_change OPT_JOIN 1) ((channel_manager_new ''h2'' 8)\<lparr>mg_is_discovery_started := True\<rparr>)"
      1 "''h''" 7]
  by (simp add: node_manager_new_def channel_manager_new_def writer_change_def sample_change_def sample_attr_def
      channel_dispose_def channel_dispose_join_def notify_change_def Let_def mw_add_def)

section \<open>A writer seen from another process\<close>

text \<open>What a process broadcasts when a writer joins, another process files under the channel id
  its own message object happened to hold: the join is dropped if that is zero, otherwise the
  writer is stored under it and not found under its own channel id.\<close>

lemma remote_writer_misfiled:
  assumes "change_proper msg" and "cm_role_type msg = ROLE_WRITER" and "cm_operate_type msg = OPT_JOIN"
    and "channel_check (cm_role_attr msg)" and "\<not> is_from_same_process msg m" and "\<not> mg_is_shutdown m"
    and "chm_channel_writers m = []" and "bs = ds_data (change_serialize hw msg (new_stream hw))"
    and "k = ra_channel_id (cm_role_attr fresh)"
  shows "\<exists>m'. on_remote_change hr channel_check channel_dispose fresh bs m = Inr m' \<and>
    chm_channel_writers m' = (if k = 0 then [] else
      [(k, msg_role (msg\<lparr>cm_role_attr := (cm_role_attr msg)\<lparr>ra_channel_id := k\<rparr>\<rparr>))])"
proof -
  obtain s where "change_unserialize hr fresh (stream_of hr bs) =
      Inr (True, msg\<lparr>cm_role_attr := (cm_role_attr msg)\<lparr>ra_channel_id := k\<rparr>\<rparr>, s)"
    using change_reads [OF assms(1) at_stream_of(2) at_stream_of(1), of hr fresh] assms(8,9)
    by (simp add: change_payload)
  moreover have "channel_check ((cm_role_attr msg)\<lparr>ra_channel_id := k\<rparr>) \<longleftrightarrow> k \<noteq> 0"
    using assms(4) by (auto simp: channel_check_def split: if_splits)
  ultimately show ?thesis
    using assms(2,3,5-7)
    by (simp add: on_remote_change_def is_from_same_process_def channel_dispose_def notify_change_def
        channel_dispose_join_def Let_def mw_add_def msg_role_def split: if_splits)
qed

lemma remote_writer_misfiled_witness:
  "\<exists>m'. on_remote_change LittleEndian channel_check channel_dispose
      (sample_change\<lparr>cm_role_attr := sample_attr\<lparr>ra_channel_id := 3\<rparr>\<rparr>)
      (ds_data (change_serialize LittleEndian sample_change (new_stream LittleEndian)))
      (channel_manager_new ''other'' 1) = Inr m' \<and> map fst (chm_channel_writers m') = [3]"
  using remote_writer_misfiled [OF sample_proper _ _ _ _ _ _ refl refl, of "channel_manager_new ''other'' 1"
      LittleEndian "sample_change\<lparr>cm_role_attr := sample_attr\<lparr>ra_channel_id := 3\<rparr>\<rparr>" LittleEndian]
  by (auto simp: sample_change_def sample_attr_def channel_manager_new_def channel_check_def is_from_same_process_def)

end
