(* ===== verification/Topology_Manager.thy ===== *)
theory Topology_Manager
  imports Discovery_Managers
begin

text \<open>
  \<open>discovery/topology_manager.cpp\<close>: the participants of the process graph. A participant is named
  \<open>host+pid\<close>; its appearance and disappearance, reported by Fast DDS under a guid, become topology
  changes. \<open>std::to_string\<close> and \<open>std::stoi\<close> are the standard library functions on \<open>int\<close>.
\<close>

section \<open>Decimal numbers\<close>

definition digit :: "nat \<Rightarrow> char" where "digit d = char_of (48 + d)"

fun dec :: "nat \<Rightarrow> string" where
  "dec n = (if n < 10 then [digit n] else dec (n div 10) @ [digit (n mod 10)])"

declare dec.simps [simp del]

text \<open>\<open>std::to_string(int)\<close>\<close>

definition to_string :: "int \<Rightarrow> string" where
  "to_string i = (if i < 0 then CHR ''-'' # dec (nat (- i)) else dec (nat i))"

definition is_digit :: "char \<Rightarrow> bool" where "is_digit c \<longleftrightarrow> 48 \<le> (of_char c :: nat) \<and> of_char c < (58 :: nat)"

definition is_space :: "char \<Rightarrow> bool" where
  "is_space c \<longleftrightarrow> of_char c = (32 :: nat) \<or> 9 \<le> (of_char c :: nat) \<and> of_char c \<le> (13 :: nat)"

definition digits_value :: "string \<Rightarrow> nat" where
  "digits_value ds = fold (\<lambda>c n. n * 10 + (of_char c - 48)) ds 0"

text \<open>
  \<open>std::stoi\<close>: leading space, a sign, the longest run of digits; \<open>None\<close> is the exception for no
  digits or a value that does not fit an \<open>int\<close>.
\<close>

definition stoi :: "string \<Rightarrow> int option" where
  "stoi str =
     (let s = dropWhile is_space str;
          neg = (s \<noteq> [] \<and> hd s = CHR ''-'');
          s1 = (if s \<noteq> [] \<and> (hd s = CHR ''-'' \<or> hd s = CHR ''+'') then tl s else s);
          ds = takeWhile is_digit s1;
          v = (if neg then - int (digits_value ds) else int (digits_value ds))
      in if ds = [] then None else if v < - (2 ^ 31) \<or> 2 ^ 31 \<le> v then None else Some v)"

section \<open>TopologyManager\<close>

definition parse_participant_name :: "string \<Rightarrow> (string \<times> int) option" where
  "parse_participant_name participant_name =
     (if CHR ''+'' \<notin> set participant_name then None
      else let host_name = takeWhile (\<lambda>c. c \<noteq> CHR ''+'') participant_name;
               pid_str = tl (dropWhile (\<lambda>c. c \<noteq> CHR ''+'') participant_name)
           in map_option (\<lambda>pid. (host_name, pid)) (stoi pid_str))"

text \<open>The name \<open>CreateParticipant\<close> gives to the participant of this process.\<close>

definition participant_name :: "string \<Rightarrow> int \<Rightarrow> string" where
  "participant_name host_name process_id = host_name @ ''+'' @ to_string process_id"

datatype discovery_status =
  DISCOVERED_PARTICIPANT | CHANGED_QOS_PARTICIPANT | REMOVED_PARTICIPANT | DROPPED_PARTICIPANT

record 'g part_info =
  pi_guid :: 'g
  pi_status :: discovery_status
  pi_name :: string

text \<open>
  The managers are pointers, \<open>None\<close> where they are null; \<open>tm_emitted\<close> is the sequence of messages
  given to \<open>change_signal_\<close>, whose slots are outside this theory.
\<close>

record 'g topology_manager =
  tm_init :: bool
  tm_node_manager :: "node_manager option"
  tm_channel_manager :: "channel_manager option"
  tm_participant_names :: "'g \<Rightarrow> string option"
  tm_emitted :: "change_msg list"

text \<open>\<open>Convert\<close>: \<open>fresh\<close> is the message object before.\<close>

definition tm_convert ::
    "u64 \<Rightarrow> 'g part_info \<Rightarrow> change_msg \<Rightarrow> 'g topology_manager \<Rightarrow> change_msg option \<times> 'g topology_manager" where
  "tm_convert now info fresh t =
     (let guid = pi_guid info; names = tm_participant_names t;
          (participant_name, opt_type, names1) =
            (case pi_status info of
               DISCOVERED_PARTICIPANT \<Rightarrow> (pi_name info, OPT_JOIN, names(guid \<mapsto> pi_name info))
             | CHANGED_QOS_PARTICIPANT \<Rightarrow> ('''', OPT_JOIN, names)
             | _ \<Rightarrow> (case names guid of Some n \<Rightarrow> (n, OPT_LEAVE, names(guid := None)) | None \<Rightarrow> ('''', OPT_LEAVE, names)))
      in (case parse_participant_name participant_name of
            None \<Rightarrow> None
          | Some (host_name, process_id) \<Rightarrow> Some (fresh\<lparr>cm_timestamp := now,
              cm_change_type := CHANGE_PARTICIPANT, cm_operate_type := opt_type, cm_role_type := ROLE_PARTICIPANT,
              cm_role_attr := (cm_role_attr fresh)\<lparr>ra_host_name := host_name, ra_process_id := of_int process_id\<rparr>\<rparr>),
          t\<lparr>tm_participant_names := names1\<rparr>))"

definition on_participant_change ::
    "role_attributes \<Rightarrow> u64 \<Rightarrow> 'g part_info \<Rightarrow> change_msg \<Rightarrow> 'g topology_manager \<Rightarrow> 'g topology_manager" where
  "on_participant_change junk now info fresh t =
     (case tm_convert now info fresh t of
        (None, t1) \<Rightarrow> t1
      | (Some msg, t1) \<Rightarrow>
          if \<not> tm_init t1 then t1
          else let host_name = ra_host_name (cm_role_attr msg); process_id = ra_process_id (cm_role_attr msg);
                   t2 = (if cm_operate_type msg = OPT_LEAVE
                     then t1\<lparr>tm_node_manager := map_option (node_topo_module_leave junk now host_name process_id) (tm_node_manager t1),
                             tm_channel_manager := map_option (channel_topo_module_leave junk now host_name process_id) (tm_channel_manager t1)\<rparr>
                     else t1)
               in t2\<lparr>tm_emitted := tm_emitted t2 @ [msg]\<rparr>)"

text \<open>\<open>Init\<close>: \<open>ok\<close> tells whether both managers could start their discovery.\<close>

definition tm_start :: "string \<Rightarrow> u32 \<Rightarrow> bool \<Rightarrow> bool \<Rightarrow> 'g topology_manager \<Rightarrow> bool \<times> 'g topology_manager" where
  "tm_start host pid node_ok channel_ok t =
     (if tm_init t then (True, t)
      else let (r1, nm) = start_discovery True node_ok (node_manager_new host pid);
               (r2, cm) = (if r1 then start_discovery True channel_ok (channel_manager_new host pid)
                 else (False, channel_manager_new host pid));
               t1 = t\<lparr>tm_init := True, tm_node_manager := Some nm, tm_channel_manager := Some cm\<rparr>
           in if r1 \<and> r2 then (True, t1) else (False, t1\<lparr>tm_init := False, tm_node_manager := None\<rparr>))"

definition tm_shutdown :: "'g topology_manager \<Rightarrow> 'g topology_manager" where
  "tm_shutdown t =
     (if \<not> tm_init t then t
      else t\<lparr>tm_init := False, tm_node_manager := map_option manager_shutdown (tm_node_manager t),
             tm_channel_manager := map_option manager_shutdown (tm_channel_manager t)\<rparr>)"

section \<open>Names identify processes\<close>

lemma of_char_digit: "d < 10 \<Longrightarrow> of_char (digit d) = 48 + d"
  by (simp add: digit_def)

lemma dec_digits: "\<forall>c \<in> set (dec n). is_digit c"
  by (induction n rule: dec.induct) (subst dec.simps, auto simp: is_digit_def of_char_digit)

lemma dec_nonempty: "dec n \<noteq> []"
  by (subst dec.simps) simp

lemma digits_value_snoc: "digits_value (ds @ [c]) = digits_value ds * 10 + (of_char c - 48)"
  by (simp add: digits_value_def)

lemma digits_value_dec: "digits_value (dec n) = n"
proof (induction n rule: dec.induct)
  case (1 n)
  show ?case
  proof (cases "n < 10")
    case True
    then show ?thesis by (subst dec.simps) (simp add: digits_value_def of_char_digit)
  next
    case False
    with 1 show ?thesis by (subst dec.simps) (simp add: digits_value_snoc of_char_digit)
  qed
qed

lemma digit_kinds:
  assumes "is_digit c"
  shows "\<not> is_space c" and "c \<noteq> CHR ''-''" and "c \<noteq> CHR ''+''"
  using assms by (auto simp: is_digit_def is_space_def)

lemma stoi_dec:
  assumes "n < 2 ^ 31"
  shows "stoi (dec n) = Some (int n)"
proof -
  obtain c cs where dec: "dec n = c # cs" using dec_nonempty by (cases "dec n") auto
  then have "is_digit c" using dec_digits [of n] by simp
  note k = digit_kinds [OF this]
  have "takeWhile is_digit (dec n) = dec n" using dec_digits by (simp add: takeWhile_eq_all_conv)
  then show ?thesis
    using k assms dec_nonempty [of n] by (simp add: stoi_def dec Let_def) (simp flip: dec add: digits_value_dec)
qed

lemma stoi_negative:
  assumes "n \<le> 2 ^ 31"
  shows "stoi (CHR ''-'' # dec n) = Some (- int n)"
proof -
  have whole: "takeWhile is_digit (dec n) = dec n" using dec_digits by (simp add: takeWhile_eq_all_conv)
  show ?thesis
    using assms dec_nonempty [of n] by (simp add: stoi_def is_space_def Let_def whole digits_value_dec)
qed

lemma stoi_to_string:
  assumes "- (2 ^ 31) \<le> i" and "i < 2 ^ 31"
  shows "stoi (to_string i) = Some i"
proof (cases "i < 0")
  case True
  with assms(1) have "nat (- i) \<le> 2 ^ 31" by simp
  with True show ?thesis by (simp add: to_string_def stoi_negative)
next
  case False
  with assms(2) have "nat i < 2 ^ 31" by simp
  with False show ?thesis by (simp add: to_string_def stoi_dec)
qed

lemma parse_name:
  assumes "CHR ''+'' \<notin> set host" and "- (2 ^ 31) \<le> pid" and "pid < 2 ^ 31"
  shows "parse_participant_name (participant_name host pid) = Some (host, pid)"
proof -
  have "takeWhile (\<lambda>c. c \<noteq> CHR ''+'') (host @ CHR ''+'' # rest) = host"
    and "dropWhile (\<lambda>c. c \<noteq> CHR ''+'') (host @ CHR ''+'' # rest) = CHR ''+'' # rest" for rest
    using assms(1) by (induction host) auto
  then show ?thesis
    using stoi_to_string [OF assms(2,3)] by (simp add: parse_participant_name_def participant_name_def)
qed

text \<open>A participant's name tells its host and process: the name \<open>CreateParticipant\<close> builds from
  any host name without a plus sign and any process id is parsed back to exactly these two.\<close>

lemma participant_name_round_trip:
  assumes "CHR ''+'' \<notin> set host" and "- (2 ^ 31) \<le> pid" and "pid < 2 ^ 31"
  shows "parse_participant_name (participant_name host pid) = Some (host, pid)"
  using assms by (rule parse_name)

lemma participant_name_round_trip_witness:
  "parse_participant_name (participant_name ''robot-1'' 4711) = Some (''robot-1'', 4711)"
  using participant_name_round_trip [of "''robot-1''" 4711] by simp

text \<open>A participant that is discovered and later dropped or removed under its guid is reported
  as a join and a leave of the same host and process, and its name is forgotten.\<close>

lemma participant_join_then_leave:
  assumes "CHR ''+'' \<notin> set host" and "- (2 ^ 31) \<le> pid" and "pid < 2 ^ 31" and "tm_init t"
    and "gone = DROPPED_PARTICIPANT \<or> gone = REMOVED_PARTICIPANT"
  shows "\<exists>m1 m2 t'. on_participant_change junk now2 \<lparr>pi_guid = guid, pi_status = gone, pi_name = other\<rparr> fresh2
      (on_participant_change junk now1
        \<lparr>pi_guid = guid, pi_status = DISCOVERED_PARTICIPANT, pi_name = participant_name host pid\<rparr> fresh1 t) = t' \<and>
    tm_emitted t' = tm_emitted t @ [m1, m2] \<and> cm_operate_type m1 = OPT_JOIN \<and> cm_operate_type m2 = OPT_LEAVE \<and>
    ra_host_name (cm_role_attr m1) = host \<and> ra_host_name (cm_role_attr m2) = host \<and>
    ra_process_id (cm_role_attr m1) = of_int pid \<and> ra_process_id (cm_role_attr m2) = of_int pid \<and>
    tm_participant_names t' = (tm_participant_names t)(guid := None)"
  using assms(4,5) parse_name [OF assms(1-3)]
  by (auto simp: on_participant_change_def tm_convert_def Let_def)

lemma participant_join_then_leave_witness:
  "\<exists>t :: nat topology_manager. \<exists>m1 m2. tm_emitted (on_participant_change sample_attr 2
      \<lparr>pi_guid = 1, pi_status = DROPPED_PARTICIPANT, pi_name = ''''\<rparr> sample_change
      (on_participant_change sample_attr 1
        \<lparr>pi_guid = 1, pi_status = DISCOVERED_PARTICIPANT, pi_name = participant_name ''robot'' 12\<rparr> sample_change t)) =
    [m1, m2] \<and> ra_host_name (cm_role_attr m2) = ''robot''"
proof -
  let ?t = "\<lparr>tm_init = True, tm_node_manager = Some (node_manager_new ''h'' 1), tm_channel_manager = Some (channel_manager_new ''h'' 1),
    tm_participant_names = Map.empty, tm_emitted = []\<rparr> :: nat topology_manager"
  show ?thesis
    using participant_join_then_leave [of "''robot''" 12 ?t DROPPED_PARTICIPANT sample_attr 2 1 "''''" sample_change 1 sample_change]
    by fastforce
qed

end
