(* ===== verification/Interleaving.thy ===== *)
theory Interleaving
  imports Cmw_Prelude
begin

text \<open>
  Threads that interleave: the states reachable by steps of any thread, the induction over them
  that the concurrent components share, and the contract of a queue that several components meet.
\<close>

section \<open>Reachable states\<close>

inductive reachable :: "('i \<Rightarrow> 's \<Rightarrow> 's \<Rightarrow> bool) \<Rightarrow> 's \<Rightarrow> 's \<Rightarrow> bool" for step s0 where
  start: "reachable step s0 s0"
| "step": "reachable step s0 s \<Longrightarrow> step i s t \<Longrightarrow> reachable step s0 t"

text \<open>A property of the first state that every step keeps holds in every reachable state.\<close>

lemma reachable_invariant [consumes 1, case_names start step]:
  assumes "reachable step s0 s" and "P s0" and "\<And>i s t. P s \<Longrightarrow> step i s t \<Longrightarrow> P t"
  shows "P s"
  using assms(1) by induction (auto intro: assms(2,3))

lemma reachable_step2:
  "reachable step s0 s \<Longrightarrow> step i s t \<Longrightarrow> step j t u \<Longrightarrow> reachable step s0 u"
  by (blast intro: reachable.step)

section \<open>Queues\<close>

datatype 'a queue_op = Put 'a | Get
datatype 'a queue_res = Accepted bool | Returned "'a option"

text \<open>The list a queue stands for; \<open>room n\<close> tells whether a list of length \<open>n\<close> can grow.\<close>

fun list_queue :: "(nat \<Rightarrow> bool) \<Rightarrow> 'a queue_op list \<Rightarrow> 'a list \<Rightarrow> 'a queue_res list \<times> 'a list" where
  "list_queue room [] xs = ([], xs)"
| "list_queue room (Put v # ops) xs =
     (let ok = room (length xs); (rs, ys) = list_queue room ops (if ok then xs @ [v] else xs)
      in (Accepted ok # rs, ys))"
| "list_queue room (Get # ops) [] = (let (rs, ys) = list_queue room ops [] in (Returned None # rs, ys))"
| "list_queue room (Get # ops) (x # xs) =
     (let (rs, ys) = list_queue room ops xs in (Returned (Some x) # rs, ys))"

text \<open>Calls of a queue's two operations one after the other; \<open>None\<close> if one of them does not return.\<close>

fun run_queue :: "('a \<Rightarrow> 'q \<Rightarrow> (bool \<times> 'q) option) \<Rightarrow> ('q \<Rightarrow> ('a option \<times> 'q) option) \<Rightarrow>
    'a queue_op list \<Rightarrow> 'q \<Rightarrow> ('a queue_res list \<times> 'q) option" where
  "run_queue enq deq [] q = Some ([], q)"
| "run_queue enq deq (Put v # ops) q = Option.bind (enq v q) (\<lambda>(ok, q1).
     map_option (\<lambda>(rs, q2). (Accepted ok # rs, q2)) (run_queue enq deq ops q1))"
| "run_queue enq deq (Get # ops) q = Option.bind (deq q) (\<lambda>(r, q1).
     map_option (\<lambda>(rs, q2). (Returned r # rs, q2)) (run_queue enq deq ops q1))"

locale fifo_queue =
  fixes enq :: "'a \<Rightarrow> 'q \<Rightarrow> (bool \<times> 'q) option"
    and deq :: "'q \<Rightarrow> ('a option \<times> 'q) option"
    and ok :: "(nat \<Rightarrow> bool) \<Rightarrow> 'q \<Rightarrow> bool"
    and items :: "'q \<Rightarrow> 'a list"
  assumes enq_law: "ok room q \<Longrightarrow> \<exists>q'. enq v q = Some (room (length (items q)), q') \<and> ok room q' \<and>
      items q' = (if room (length (items q)) then items q @ [v] else items q)"
    and deq_law: "ok room q \<Longrightarrow> \<exists>q'. ok room q' \<and>
      (case items q of [] \<Rightarrow> deq q = Some (None, q') \<and> items q' = []
       | x # xs \<Rightarrow> deq q = Some (Some x, q') \<and> items q' = xs)"
begin

lemma run_is_list:
  "ok room q \<Longrightarrow> \<exists>q'. ok room q' \<and>
    run_queue enq deq ops q = Some (fst (list_queue room ops (items q)), q') \<and>
    items q' = snd (list_queue room ops (items q))"
proof (induction ops arbitrary: q)
  case (Cons x ops)
  show ?case
  proof (cases x)
    case (Put v)
    from enq_law [OF Cons.prems, of v] obtain q1 where q1: "enq v q = Some (room (length (items q)), q1)"
      "ok room q1" "items q1 = (if room (length (items q)) then items q @ [v] else items q)" by blast
    from Cons.IH [OF q1(2)] show ?thesis
      using q1(1,3) by (auto simp: Put Let_def case_prod_beta)
  next
    case Get
    from deq_law [OF Cons.prems] obtain q1 where q1: "ok room q1"
      "case items q of [] \<Rightarrow> deq q = Some (None, q1) \<and> items q1 = []
       | y # ys \<Rightarrow> deq q = Some (Some y, q1) \<and> items q1 = ys" by blast
    from Cons.IH [OF q1(1)] show ?thesis
      using q1(2) by (cases "items q") (auto simp: Get Let_def case_prod_beta)
  qed
qed simp

end

end
