(* ===== verification/Bounded_Queue.thy ===== *)
theory Bounded_Queue
  imports Interleaving
begin

text \<open>
  \<open>base/bounded_queue.h\<close>: the bounded queue of many producers and consumers, as a step relation
  with one step for every access to the shared words \<open>head_\<close>, \<open>tail_\<close>, \<open>commit_\<close> and the
  pool. \<open>compare_exchange_weak\<close> may fail for no reason. The counters are naturals (they are 64 bits
  wide and only grow). The waiting operations run with \<open>BlockWaitStrategy\<close> of
  \<open>base/wait_strategy.h\<close>, whose condition variable has no predicate.
\<close>

section \<open>The queue\<close>

record 'a bounded_queue =
  bq_head :: nat
  bq_tail :: nat
  bq_commit :: nat
  bq_pool_size :: nat
  bq_pool :: "'a list"
  bq_break_all_wait :: bool

text \<open>\<open>Init\<close>: \<open>d\<close> is the default value of the element type, \<open>alloc\<close> whether there was memory.\<close>

definition bq_new :: "'a bounded_queue" where
  "bq_new = \<lparr>bq_head = 0, bq_tail = 1, bq_commit = 1, bq_pool_size = 0, bq_pool = [], bq_break_all_wait = False\<rparr>"

definition bq_init :: "bool \<Rightarrow> 'a \<Rightarrow> nat \<Rightarrow> 'a bounded_queue \<Rightarrow> bool \<times> 'a bounded_queue" where
  "bq_init alloc d sz q =
     (if \<not> alloc then (False, q\<lparr>bq_pool_size := sz + 2, bq_pool := []\<rparr>)
      else (True, q\<lparr>bq_pool_size := sz + 2, bq_pool := replicate (sz + 2) d\<rparr>))"

definition bq_index :: "('a, 'z) bounded_queue_scheme \<Rightarrow> nat \<Rightarrow> nat" where
  "bq_index q num = num - (num div bq_pool_size q) * bq_pool_size q"

definition bq_count :: "('a, 'z) bounded_queue_scheme \<Rightarrow> u64" where
  "bq_count q = of_nat (bq_tail q) - of_nat (bq_head q) - 1"

definition bq_is_empty :: "('a, 'z) bounded_queue_scheme \<Rightarrow> bool" where
  "bq_is_empty q \<longleftrightarrow> bq_count q = 0"

text \<open>
  The operations run by one thread alone. \<open>None\<close> is the loop on \<open>commit_\<close> that never ends.
\<close>

definition bq_enqueue :: "'a \<Rightarrow> 'a bounded_queue \<Rightarrow> (bool \<times> 'a bounded_queue) option" where
  "bq_enqueue element q =
     (let old_tail = bq_tail q; new_tail = old_tail + 1
      in if bq_index q new_tail = bq_index q (bq_head q) then Some (False, q)
         else if bq_commit q \<noteq> old_tail then None
         else Some (True, q\<lparr>bq_tail := new_tail, bq_pool := (bq_pool q)[bq_index q old_tail := element],
                            bq_commit := new_tail\<rparr>))"

definition bq_dequeue :: "'a bounded_queue \<Rightarrow> ('a option \<times> 'a bounded_queue) option" where
  "bq_dequeue q =
     (let new_head = bq_head q + 1
      in if new_head = bq_commit q then Some (None, q)
         else Some (Some (bq_pool q ! bq_index q new_head), q\<lparr>bq_head := new_head\<rparr>))"

section \<open>Threads\<close>

text \<open>
  Where a thread stands: in \<open>Enqueue\<close> before the test for room, the exchange of \<open>tail_\<close>, the store
  into the pool, the exchange of \<open>commit_\<close> and \<open>NotifyOne\<close>; in \<open>Dequeue\<close>, called by
  \<open>WaitDequeue\<close> if the flag is set, before the test for data, the load from the pool and the exchange
  of \<open>head_\<close>; in \<open>WaitDequeue\<close> before the loop test, before and inside \<open>EmptyWait\<close>.
\<close>

datatype 'a bq_pc =
    QIdle
  | QRoom 'a nat | QClaim 'a nat | QStore 'a nat | QCommit 'a nat | QNotify | QPut bool
  | QData bool nat | QLoad bool nat | QTake bool nat 'a | QGot "'a option"
  | QLoop | QWait | QAsleep
  | QBreak

record 'a bq_state = "'a bounded_queue" +
  bq_pcs :: "nat \<Rightarrow> 'a bq_pc"

definition bq_goto :: "nat \<Rightarrow> 'a bq_pc \<Rightarrow> 'a bq_state \<Rightarrow> 'a bq_state" where
  "bq_goto i p s = s\<lparr>bq_pcs := (bq_pcs s)(i := p)\<rparr>"

text \<open>What a failed \<open>Dequeue\<close> returns to: its caller or the wait.\<close>

definition bq_empty_pc :: "bool \<Rightarrow> 'a bq_pc" where
  "bq_empty_pc w = (if w then QWait else QGot None)"

inductive bq_step :: "nat \<Rightarrow> 'a bq_state \<Rightarrow> 'a bq_state \<Rightarrow> bool" where
  enqueue: "bq_pcs s i = QIdle \<Longrightarrow> bq_step i s (bq_goto i (QRoom v (bq_tail s)) s)"
| no_room: "bq_pcs s i = QRoom v t \<Longrightarrow> bq_index s (t + 1) = bq_index s (bq_head s) \<Longrightarrow>
    bq_step i s (bq_goto i (QPut False) s)"
| room: "bq_pcs s i = QRoom v t \<Longrightarrow> bq_index s (t + 1) \<noteq> bq_index s (bq_head s) \<Longrightarrow>
    bq_step i s (bq_goto i (QClaim v t) s)"
| claim: "bq_pcs s i = QClaim v t \<Longrightarrow> bq_tail s = t \<Longrightarrow>
    bq_step i s (bq_goto i (QStore v t) (s\<lparr>bq_tail := t + 1\<rparr>))"
| claim_retry: "bq_pcs s i = QClaim v t \<Longrightarrow> bq_step i s (bq_goto i (QRoom v (bq_tail s)) s)"
| store: "bq_pcs s i = QStore v t \<Longrightarrow>
    bq_step i s (bq_goto i (QCommit v t) (s\<lparr>bq_pool := (bq_pool s)[bq_index s t := v]\<rparr>))"
| commit: "bq_pcs s i = QCommit v t \<Longrightarrow> bq_commit s = t \<Longrightarrow>
    bq_step i s (bq_goto i QNotify (s\<lparr>bq_commit := t + 1\<rparr>))"
| commit_retry: "bq_pcs s i = QCommit v t \<Longrightarrow> bq_step i s s"
| notify_one: "bq_pcs s i = QNotify \<Longrightarrow> bq_pcs s j = QAsleep \<Longrightarrow>
    bq_step i s (bq_goto i (QPut True) (bq_goto j QLoop s))"
| notify_none: "bq_pcs s i = QNotify \<Longrightarrow> \<nexists>j. bq_pcs s j = QAsleep \<Longrightarrow>
    bq_step i s (bq_goto i (QPut True) s)"
| put_return: "bq_pcs s i = QPut b \<Longrightarrow> bq_step i s (bq_goto i QIdle s)"
| dequeue: "bq_pcs s i = QIdle \<Longrightarrow> bq_step i s (bq_goto i (QData False (bq_head s)) s)"
| no_data: "bq_pcs s i = QData w h \<Longrightarrow> h + 1 = bq_commit s \<Longrightarrow> bq_step i s (bq_goto i (bq_empty_pc w) s)"
| data: "bq_pcs s i = QData w h \<Longrightarrow> h + 1 \<noteq> bq_commit s \<Longrightarrow> bq_step i s (bq_goto i (QLoad w h) s)"
| load: "bq_pcs s i = QLoad w h \<Longrightarrow>
    bq_step i s (bq_goto i (QTake w h (bq_pool s ! bq_index s (h + 1))) s)"
| take: "bq_pcs s i = QTake w h x \<Longrightarrow> bq_head s = h \<Longrightarrow>
    bq_step i s (bq_goto i (QGot (Some x)) (s\<lparr>bq_head := h + 1\<rparr>))"
| take_retry: "bq_pcs s i = QTake w h x \<Longrightarrow> bq_step i s (bq_goto i (QData w (bq_head s)) s)"
| got_return: "bq_pcs s i = QGot r \<Longrightarrow> bq_step i s (bq_goto i QIdle s)"
| wait_dequeue: "bq_pcs s i = QIdle \<Longrightarrow> bq_step i s (bq_goto i QLoop s)"
| loop_broken: "bq_pcs s i = QLoop \<Longrightarrow> bq_break_all_wait s \<Longrightarrow> bq_step i s (bq_goto i (QGot None) s)"
| loop_on: "bq_pcs s i = QLoop \<Longrightarrow> \<not> bq_break_all_wait s \<Longrightarrow>
    bq_step i s (bq_goto i (QData True (bq_head s)) s)"
| sleep: "bq_pcs s i = QWait \<Longrightarrow> bq_step i s (bq_goto i QAsleep s)"
| spurious: "bq_pcs s i = QAsleep \<Longrightarrow> bq_step i s (bq_goto i QLoop s)"
| break_flag: "bq_pcs s i = QIdle \<Longrightarrow> bq_step i s (bq_goto i QBreak (s\<lparr>bq_break_all_wait := True\<rparr>))"
| break_notify: "bq_pcs s i = QBreak \<Longrightarrow>
    bq_step i s (bq_goto i QIdle (s\<lparr>bq_pcs := (\<lambda>j. if bq_pcs s j = QAsleep then QLoop else bq_pcs s j)\<rparr>))"

definition bq_start :: "'a \<Rightarrow> nat \<Rightarrow> 'a bq_state" where
  "bq_start d sz = bounded_queue.extend (snd (bq_init True d sz bq_new)) \<lparr>bq_pcs = (\<lambda>_. QIdle)\<rparr>"


section \<open>The list it stands for\<close>

definition bq_items :: "('a, 'z) bounded_queue_scheme \<Rightarrow> 'a list" where
  "bq_items q = map (\<lambda>i. bq_pool q ! bq_index q i) [bq_head q + 1..<bq_commit q]"

text \<open>The counters and the pool between calls; the two cells between tail and head stay unused.\<close>

definition bq_ok :: "('a, 'z) bounded_queue_scheme \<Rightarrow> bool" where
  "bq_ok q \<longleftrightarrow> length (bq_pool q) = bq_pool_size q \<and> 2 \<le> bq_pool_size q \<and> bq_head q < bq_commit q \<and>
     bq_commit q \<le> bq_tail q \<and> bq_tail q + 1 \<le> bq_head q + bq_pool_size q"

lemma bq_index_mod: "bq_index q n = n mod bq_pool_size q"
  by (simp add: bq_index_def minus_div_mult_eq_mod)

lemma window_mod: "a < b \<Longrightarrow> b < a + n \<Longrightarrow> a mod n \<noteq> b mod (n::nat)"
  by (metis add_diff_inverse_nat add_less_cancel_left less_imp_le_nat mod_add_right_eq mod_eq_dvd_iff_nat
      nat_dvd_not_less not_less zero_less_diff)

lemma bq_index_less: "bq_ok q \<Longrightarrow> bq_index q n < length (bq_pool q)"
  by (simp add: bq_index_mod bq_ok_def)

lemma bq_room:
  assumes "bq_ok q"
  shows "bq_index q (bq_tail q + 1) = bq_index q (bq_head q) \<longleftrightarrow> bq_tail q + 1 = bq_head q + bq_pool_size q"
  using assms window_mod [of "bq_head q" "bq_tail q + 1" "bq_pool_size q"]
  by (force simp: bq_index_mod bq_ok_def)

lemma bq_items_length: "length (bq_items q) = bq_commit q - bq_head q - 1"
  by (simp add: bq_items_def)

lemma bq_items_Nil: "bq_ok q \<Longrightarrow> bq_items q = [] \<longleftrightarrow> bq_head q + 1 = bq_commit q"
  by (auto simp: bq_items_def bq_ok_def)

lemma bq_items_Cons:
  "bq_ok q \<Longrightarrow> bq_head q + 1 < bq_commit q \<Longrightarrow>
    bq_items q = bq_pool q ! bq_index q (bq_head q + 1) # bq_items (q\<lparr>bq_head := bq_head q + 1\<rparr>)"
  by (simp add: bq_items_def upt_conv_Cons bq_index_def)

text \<open>A store behind \<open>commit_\<close> does not touch the items.\<close>

lemma bq_store_other:
  assumes "bq_ok q" and "bq_commit q \<le> t" and "t < bq_tail q" and "bq_head q < i" and "i \<le> bq_tail q" and "i \<noteq> t"
  shows "(bq_pool q)[bq_index q t := v] ! bq_index q i = bq_pool q ! bq_index q i"
proof -
  have "i mod bq_pool_size q \<noteq> t mod bq_pool_size q"
    using assms window_mod [of i t "bq_pool_size q"] window_mod [of t i "bq_pool_size q"]
    by (auto simp: bq_ok_def neq_iff)
  then show ?thesis by (simp add: bq_index_mod)
qed

lemma bq_items_store:
  assumes "bq_ok q" and "bq_commit q \<le> t" and "t < bq_tail q"
  shows "bq_items (q\<lparr>bq_pool := (bq_pool q)[bq_index q t := v]\<rparr>) = bq_items q"
proof -
  have "(bq_pool q)[bq_index q t := v] ! bq_index q i = bq_pool q ! bq_index q i"
    if "bq_head q < i" "i < bq_commit q" for i
    using that assms by (intro bq_store_other) (auto simp: bq_ok_def)
  then show ?thesis by (simp add: bq_items_def bq_index_def)
qed

lemma bq_items_commit:
  "bq_ok q \<Longrightarrow> bq_items (q\<lparr>bq_commit := bq_commit q + 1\<rparr>) = bq_items q @ [bq_pool q ! bq_index q (bq_commit q)]"
  by (simp add: bq_items_def bq_ok_def bq_index_def)

section \<open>One thread alone\<close>

definition bq_quiet :: "(nat \<Rightarrow> bool) \<Rightarrow> 'a bounded_queue \<Rightarrow> bool" where
  "bq_quiet room q \<longleftrightarrow> bq_ok q \<and> bq_commit q = bq_tail q \<and> room = (\<lambda>n. n < bq_pool_size q - 2)"

lemma bq_enqueue_law:
  assumes "bq_quiet room q"
  shows "\<exists>q'. bq_enqueue v q = Some (room (length (bq_items q)), q') \<and> bq_quiet room q' \<and>
      bq_items q' = (if room (length (bq_items q)) then bq_items q @ [v] else bq_items q)"
proof -
  have ok: "bq_ok q" and commit: "bq_commit q = bq_tail q" and room: "room = (\<lambda>n. n < bq_pool_size q - 2)"
    using assms by (auto simp: bq_quiet_def)
  have full: "room (length (bq_items q)) \<longleftrightarrow> bq_tail q + 1 \<noteq> bq_head q + bq_pool_size q"
    using ok commit by (auto simp: room bq_items_length bq_ok_def)
  let ?q' = "q\<lparr>bq_tail := bq_tail q + 1, bq_pool := (bq_pool q)[bq_index q (bq_tail q) := v],
    bq_commit := bq_tail q + 1\<rparr>"
  show ?thesis
  proof (cases "room (length (bq_items q))")
    case True
    let ?q1 = "q\<lparr>bq_tail := bq_tail q + 1\<rparr>"
    have ok1: "bq_ok ?q1" using ok full True by (auto simp: bq_ok_def)
    have "bq_ok ?q'" using ok1 by (auto simp: bq_ok_def)
    moreover have "bq_items ?q' = bq_items q @ [v]"
      using bq_items_store [OF ok1, of "bq_tail q" v] bq_items_commit [of "?q1\<lparr>bq_pool := (bq_pool q)[bq_index q (bq_tail q) := v]\<rparr>"]
        ok1 commit bq_index_less [OF ok, of "bq_tail q"]
      by (simp add: bq_ok_def bq_index_def bq_items_def)
    ultimately show ?thesis
      using True full commit bq_room [OF ok] by (auto simp: bq_enqueue_def Let_def bq_quiet_def room)
  next
    case False
    then show ?thesis using assms full bq_room [OF ok] by (simp add: bq_enqueue_def Let_def)
  qed
qed

lemma bq_dequeue_law:
  assumes "bq_quiet room q"
  shows "\<exists>q'. bq_quiet room q' \<and>
      (case bq_items q of [] \<Rightarrow> bq_dequeue q = Some (None, q') \<and> bq_items q' = []
       | x # xs \<Rightarrow> bq_dequeue q = Some (Some x, q') \<and> bq_items q' = xs)"
proof (cases "bq_head q + 1 = bq_commit q")
  case True
  then have "bq_items q = []" by (simp add: bq_items_def)
  with True assms show ?thesis by (simp add: bq_dequeue_def)
next
  case False
  have ok: "bq_ok q" using assms by (simp add: bq_quiet_def)
  with False have less: "bq_head q + 1 < bq_commit q" by (simp add: bq_ok_def)
  have "bq_quiet room (q\<lparr>bq_head := bq_head q + 1\<rparr>)"
    using assms less by (auto simp: bq_quiet_def bq_ok_def)
  then show ?thesis
    using False bq_items_Cons [OF ok less] by (simp add: bq_dequeue_def)
qed

interpretation bq: fifo_queue bq_enqueue bq_dequeue bq_quiet bq_items
  by unfold_locales (simp_all add: bq_enqueue_law bq_dequeue_law)

lemma bq_init_quiet:
  "bq_quiet (\<lambda>n. n < sz) (snd (bq_init True d sz bq_new))" "bq_items (snd (bq_init True d sz bq_new)) = []"
  by (simp_all add: bq_quiet_def bq_ok_def bq_init_def bq_new_def bq_items_def)


section \<open>Many threads\<close>

text \<open>What is known of the shared words where a thread stands.\<close>

fun bq_pc_ok :: "('a, 'z) bounded_queue_scheme \<Rightarrow> 'a bq_pc \<Rightarrow> bool" where
  "bq_pc_ok s (QRoom v t) \<longleftrightarrow> t \<le> bq_tail s"
| "bq_pc_ok s (QClaim v t) \<longleftrightarrow> t \<le> bq_tail s \<and> (t = bq_tail s \<longrightarrow> t + 2 \<le> bq_head s + bq_pool_size s)"
| "bq_pc_ok s (QStore v t) \<longleftrightarrow> bq_commit s \<le> t \<and> t < bq_tail s"
| "bq_pc_ok s (QCommit v t) \<longleftrightarrow> bq_commit s \<le> t \<and> t < bq_tail s \<and> bq_pool s ! bq_index s t = v"
| "bq_pc_ok s (QData w h) \<longleftrightarrow> h \<le> bq_head s"
| "bq_pc_ok s (QLoad w h) \<longleftrightarrow> h \<le> bq_head s \<and> (h = bq_head s \<longrightarrow> h + 1 < bq_commit s)"
| "bq_pc_ok s (QTake w h x) \<longleftrightarrow> h \<le> bq_head s \<and>
     (h = bq_head s \<longrightarrow> h + 1 < bq_commit s \<and> bq_pool s ! bq_index s (h + 1) = x)"
| "bq_pc_ok s _ \<longleftrightarrow> True"

text \<open>The cell a thread has claimed in the pool.\<close>

fun bq_claim :: "'a bq_pc \<Rightarrow> nat option" where
  "bq_claim (QStore v t) = Some t"
| "bq_claim (QCommit v t) = Some t"
| "bq_claim _ = None"

definition bq_inv :: "'a bq_state \<Rightarrow> bool" where
  "bq_inv s \<longleftrightarrow> bq_ok s \<and> (\<forall>i. bq_pc_ok s (bq_pcs s i)) \<and>
     (\<forall>i j t. bq_claim (bq_pcs s i) = Some t \<longrightarrow> bq_claim (bq_pcs s j) = Some t \<longrightarrow> i = j)"

lemma bq_goto_simps [simp]:
  "bq_head (bq_goto i p s) = bq_head s" "bq_tail (bq_goto i p s) = bq_tail s"
  "bq_commit (bq_goto i p s) = bq_commit s" "bq_pool (bq_goto i p s) = bq_pool s"
  "bq_pool_size (bq_goto i p s) = bq_pool_size s" "bq_index (bq_goto i p s) = bq_index s"
  "bq_break_all_wait (bq_goto i p s) = bq_break_all_wait s"
  "bq_pcs (bq_goto i p s) = (bq_pcs s)(i := p)"
  "bq_ok (bq_goto i p s) = bq_ok s" "bq_items (bq_goto i p s) = bq_items s"
  by (simp_all add: bq_goto_def bq_index_def bq_ok_def bq_items_def fun_eq_iff)

text \<open>What a thread knows depends on the shared words only.\<close>

lemma bq_pc_ok_cong:
  "bq_head s' = bq_head s \<Longrightarrow> bq_tail s' = bq_tail s \<Longrightarrow> bq_commit s' = bq_commit s \<Longrightarrow> bq_pool s' = bq_pool s \<Longrightarrow>
    bq_pool_size s' = bq_pool_size s \<Longrightarrow> bq_pc_ok s' p = bq_pc_ok s p"
  by (cases p) (simp_all add: bq_index_def)

lemma bq_pc_ok_goto [simp]: "bq_pc_ok (bq_goto i p s) q = bq_pc_ok s q"
  by (rule bq_pc_ok_cong) simp_all

lemma bq_inv_goto:
  assumes "bq_inv s" and "bq_pc_ok s p" and "bq_claim p = None \<or> bq_claim p = bq_claim (bq_pcs s i)"
  shows "bq_inv (bq_goto i p s)"
  using assms by (fastforce simp: bq_inv_def)

lemma bq_inv_thread: "bq_inv s \<Longrightarrow> bq_pcs s i = p \<Longrightarrow> bq_ok s \<and> bq_pc_ok s p"
  by (auto simp: bq_inv_def)

lemma bq_claimed: "bq_inv s \<Longrightarrow> bq_claim (bq_pcs s j) = Some t \<Longrightarrow> bq_commit s \<le> t \<and> t < bq_tail s"
  using spec [of "\<lambda>i. bq_pc_ok s (bq_pcs s i)" j] by (cases "bq_pcs s j") (auto simp: bq_inv_def)

text \<open>The four steps that write a shared word.\<close>

lemma bq_inv_claim:
  assumes inv: "bq_inv s" and pc: "bq_pcs s i = QClaim v t" and t: "bq_tail s = t"
  shows "bq_inv (bq_goto i (QStore v t) (s\<lparr>bq_tail := t + 1\<rparr>))"
proof -
  from bq_inv_thread [OF inv pc] t have ok: "bq_ok (s\<lparr>bq_tail := t + 1\<rparr>)" by (auto simp: bq_ok_def)
  have "bq_pc_ok s p \<Longrightarrow> bq_pc_ok (s\<lparr>bq_tail := t + 1\<rparr>) p" for p
    using t by (cases p) (auto simp: bq_index_def)
  moreover have "bq_claim (bq_pcs s j) \<noteq> Some t" for j using bq_claimed [OF inv, of j t] t by auto
  ultimately show ?thesis
    using inv t ok bq_inv_thread [OF inv pc] by (auto simp: bq_inv_def bq_ok_def)
qed

lemma bq_inv_store:
  assumes inv: "bq_inv s" and pc: "bq_pcs s i = QStore v t"
  shows "bq_inv (bq_goto i (QCommit v t) (s\<lparr>bq_pool := (bq_pool s)[bq_index s t := v]\<rparr>))"
    (is "bq_inv (bq_goto i _ ?s)")
proof -
  have ok: "bq_ok s" and t: "bq_commit s \<le> t" "t < bq_tail s" using bq_inv_thread [OF inv pc] by auto
  have other: "bq_pc_ok ?s p" if "bq_pc_ok s p" "bq_claim p \<noteq> Some t" for p
    using that t bq_store_other [OF ok t, of _ v] ok by (cases p) (auto simp: bq_index_def bq_ok_def)
  have "bq_claim (bq_pcs s j) \<noteq> Some t" if "j \<noteq> i" for j
    using inv pc that by (fastforce simp: bq_inv_def)
  moreover have "bq_pc_ok ?s (QCommit v t)"
    using t bq_index_less [OF ok, of t] by (simp add: bq_index_def)
  moreover have "bq_ok ?s" using ok by (simp add: bq_ok_def)
  ultimately show ?thesis using inv pc other by (fastforce simp: bq_inv_def)
qed

lemma bq_inv_commit:
  assumes inv: "bq_inv s" and pc: "bq_pcs s i = QCommit v t" and t: "bq_commit s = t"
  shows "bq_inv (bq_goto i QNotify (s\<lparr>bq_commit := t + 1\<rparr>))"
proof -
  have ok: "bq_ok s" and less: "t < bq_tail s" using bq_inv_thread [OF inv pc] by auto
  have other: "bq_pc_ok (s\<lparr>bq_commit := t + 1\<rparr>) p" if "bq_pc_ok s p" "bq_claim p \<noteq> Some t" for p
    using that t by (cases p) (auto simp: bq_index_def)
  have "bq_claim (bq_pcs s j) \<noteq> Some t" if "j \<noteq> i" for j
    using inv pc that by (fastforce simp: bq_inv_def)
  moreover have "bq_ok (s\<lparr>bq_commit := t + 1\<rparr>)" using ok less t by (simp add: bq_ok_def)
  ultimately show ?thesis using inv other by (fastforce simp: bq_inv_def)
qed

lemma bq_inv_take:
  assumes inv: "bq_inv s" and pc: "bq_pcs s i = QTake w h x" and h: "bq_head s = h"
  shows "bq_inv (bq_goto i (QGot (Some x)) (s\<lparr>bq_head := h + 1\<rparr>))"
proof -
  from bq_inv_thread [OF inv pc] h have "bq_ok (s\<lparr>bq_head := h + 1\<rparr>)" by (auto simp: bq_ok_def)
  moreover have "bq_pc_ok s p \<Longrightarrow> bq_pc_ok (s\<lparr>bq_head := h + 1\<rparr>) p" for p
    using h by (cases p) (auto simp: bq_index_def)
  ultimately show ?thesis using inv by (auto simp: bq_inv_def)
qed

lemma bq_inv_woken:
  assumes "bq_inv s"
  shows "bq_inv (s\<lparr>bq_pcs := (\<lambda>j. if bq_pcs s j = QAsleep then QLoop else bq_pcs s j)\<rparr>)"
proof -
  have "bq_pc_ok (s\<lparr>bq_pcs := f\<rparr>) p = bq_pc_ok s p" for p f by (rule bq_pc_ok_cong) simp_all
  with assms show ?thesis by (auto simp: bq_inv_def bq_ok_def split: if_splits)
qed


lemma bq_inv_step:
  assumes inv: "bq_inv s" and "bq_step i s t"
  shows "bq_inv t"
proof -
  have ok: "bq_ok s" and pc: "bq_pc_ok s (bq_pcs s i)" using inv by (auto simp: bq_inv_def)
  have free: "bq_inv (bq_goto i p s)" if "bq_pc_ok s p" "bq_claim p = None" for p
    using inv that by (simp add: bq_inv_goto)
  note bq_head_less = ok [unfolded bq_ok_def]
  from assms(2) show ?thesis
  proof cases
    case (room v n)
    have "n + 2 \<le> bq_head s + bq_pool_size s" if "n = bq_tail s"
      using room(3) bq_room [OF ok] bq_head_less that by simp
    with room pc show ?thesis by (auto intro!: free)
  next
    case (notify_one j)
    have "bq_inv (bq_goto j QLoop s)" using inv by (rule bq_inv_goto) simp_all
    then show ?thesis unfolding notify_one by (rule bq_inv_goto) simp_all
  next
    case (break_flag)
    have "bq_inv (s\<lparr>bq_break_all_wait := True\<rparr>)"
    proof -
      have "bq_pc_ok (s\<lparr>bq_break_all_wait := True\<rparr>) p = bq_pc_ok s p" for p by (rule bq_pc_ok_cong) simp_all
      with inv show ?thesis by (simp add: bq_inv_def bq_ok_def)
    qed
    then show ?thesis unfolding break_flag by (rule bq_inv_goto) simp_all
  next
    case break_notify
    show ?thesis unfolding break_notify by (rule bq_inv_goto [OF bq_inv_woken [OF inv]]) simp_all
  next
    case (data w h)
    with pc bq_head_less show ?thesis by (auto intro!: free)
  next
    case (claim v n)
    from bq_inv_claim [OF inv claim(2,3)] show ?thesis by (simp only: claim(1))
  next
    case (commit v n)
    from bq_inv_commit [OF inv commit(2,3)] show ?thesis by (simp only: commit(1))
  next
    case (take w h x)
    from bq_inv_take [OF inv take(2,3)] show ?thesis by (simp only: take(1))
  qed (use inv ok pc in \<open>auto intro!: free bq_inv_store simp: bq_empty_pc_def\<close>)
qed

lemma bq_inv_reachable: "reachable bq_step (bq_start d sz) s \<Longrightarrow> bq_inv s"
  by (induction rule: reachable_invariant)
    (simp_all add: bq_inv_step, simp add: bq_inv_def bq_start_def bq_init_def bq_new_def bq_ok_def bounded_queue.defs)


lemma bq_size_reachable: "reachable bq_step (bq_start d sz) s \<Longrightarrow> bq_pool_size s = sz + 2"
proof (induction rule: reachable_invariant)
  case (step i s t)
  from step(2,1) show ?case by cases simp_all
qed (simp add: bq_start_def bq_init_def bq_new_def bounded_queue.defs)

lemma bq_items_bound: "reachable bq_step (bq_start d sz) s \<Longrightarrow> length (bq_items s) \<le> sz"
  using bq_inv_reachable [of d sz s] bq_size_reachable [of d sz s]
  by (auto simp: bq_items_length bq_inv_def bq_ok_def)

lemma bq_items_pcs [simp]:
  "bq_items (s\<lparr>bq_pcs := f\<rparr>) = bq_items s" "bq_items (s\<lparr>bq_break_all_wait := b\<rparr>) = bq_items s"
  "bq_items (s\<lparr>bq_tail := n\<rparr>) = bq_items s"
  by (simp_all add: bq_items_def bq_index_def)

text \<open>C12. In every interleaving of enqueuing, dequeuing and waiting threads the queue is a list: it
  grows at the end when an \<open>Enqueue\<close> passes \<open>commit_\<close>, it loses its first element, the one returned,
  when a \<open>Dequeue\<close> wins \<open>head_\<close>, no other step changes it, a \<open>Dequeue\<close> fails only when it is
  empty, and it never has more elements than it was made for.\<close>

theorem bounded_queue_linearizable:
  assumes "reachable bq_step (bq_start d sz) s" and "bq_step i s t"
  shows "bq_items t = (case (bq_pcs s i, bq_pcs t i) of
        (QCommit v n, QNotify) \<Rightarrow> bq_items s @ [v] | (QTake w h x, QGot r) \<Rightarrow> tl (bq_items s) | _ \<Rightarrow> bq_items s) \<and>
    (\<forall>w h x r. bq_pcs s i = QTake w h x \<longrightarrow> bq_pcs t i = QGot r \<longrightarrow> r = Some x \<and> bq_items s = x # bq_items t) \<and>
    (\<forall>w h. bq_pcs s i = QData w h \<longrightarrow> bq_pcs t i = bq_empty_pc w \<longrightarrow> bq_items s = []) \<and>
    length (bq_items t) \<le> sz"
proof -
  have inv: "bq_inv s" using assms(1) by (rule bq_inv_reachable)
  then have ok: "bq_ok s" and pc: "bq_pc_ok s (bq_pcs s i)" by (auto simp: bq_inv_def)
  have len: "length (bq_items t) \<le> sz" using reachable.step [OF assms] by (rule bq_items_bound)
  have empty: "bq_empty_pc w \<noteq> QLoad w' h'" for w w' h' by (simp add: bq_empty_pc_def)
  from assms(2) show ?thesis
  proof cases
    case (store v n)
    with pc show ?thesis using bq_items_store [OF ok] len by simp
  next
    case (commit v n)
    with pc show ?thesis using bq_items_commit [OF ok] len by simp
  next
    case (take w h x)
    with pc show ?thesis using bq_items_Cons [OF ok] len by simp
  next
    case (no_data w h)
    have "bq_head s + 1 = bq_commit s" using no_data pc ok by (auto simp: bq_ok_def)
    then have "bq_items s = []" by (simp add: bq_items_def)
    with no_data len show ?thesis by (simp add: bq_empty_pc_def)
  qed (use len empty in \<open>simp_all add: bq_empty_pc_def\<close>)
qed

section \<open>A thread on its own\<close>

abbreviation bq_alone :: "nat \<Rightarrow> 'a bq_state \<Rightarrow> 'a bq_state \<Rightarrow> bool" where
  "bq_alone i \<equiv> reachable (\<lambda>_ :: unit. bq_step i)"

lemma bq_alone_then: "bq_alone i s t \<Longrightarrow> bq_step i t u \<Longrightarrow> bq_alone i s u"
  by (rule reachable.step)

lemma bq_alone_reachable: "bq_alone i s t \<Longrightarrow> reachable bq_step s0 s \<Longrightarrow> reachable bq_step s0 t"
  by (induction rule: reachable.induct) (auto intro: reachable.step)


lemma bq_goto_updates [simp]:
  "bq_goto i p (bq_goto i q s) = bq_goto i p s"
  "(bq_goto i p s)\<lparr>bq_tail := n\<rparr> = bq_goto i p (s\<lparr>bq_tail := n\<rparr>)"
  "(bq_goto i p s)\<lparr>bq_commit := n\<rparr> = bq_goto i p (s\<lparr>bq_commit := n\<rparr>)"
  "(bq_goto i p s)\<lparr>bq_head := n\<rparr> = bq_goto i p (s\<lparr>bq_head := n\<rparr>)"
  "(bq_goto i p s)\<lparr>bq_pool := xs\<rparr> = bq_goto i p (s\<lparr>bq_pool := xs\<rparr>)"
  by (simp_all add: bq_goto_def)

lemma bq_index_updates [simp]:
  "bq_index (s\<lparr>bq_tail := n\<rparr>) = bq_index s" "bq_index (s\<lparr>bq_commit := n\<rparr>) = bq_index s"
  "bq_index (s\<lparr>bq_head := n\<rparr>) = bq_index s" "bq_index (s\<lparr>bq_pool := xs\<rparr>) = bq_index s"
  by (simp_all add: bq_index_def fun_eq_iff)

text \<open>What one undisturbed \<open>Enqueue\<close>, up to its notification, and one undisturbed \<open>Dequeue\<close> do.\<close>

definition bq_put :: "'a \<Rightarrow> 'a bq_state \<Rightarrow> 'a bq_state" where
  "bq_put v s = s\<lparr>bq_tail := bq_tail s + 1, bq_pool := (bq_pool s)[bq_index s (bq_tail s) := v],
     bq_commit := bq_tail s + 1\<rparr>"

definition bq_pop :: "'a bq_state \<Rightarrow> 'a bq_state" where
  "bq_pop s = s\<lparr>bq_head := bq_head s + 1\<rparr>"

lemma bq_alone_room:
  assumes "bq_pcs s i = QIdle" and "bq_index s (bq_tail s + 1) \<noteq> bq_index s (bq_head s)"
  shows "bq_alone i s (bq_goto i (QStore v (bq_tail s)) (s\<lparr>bq_tail := bq_tail s + 1\<rparr>))"
proof -
  have "bq_alone i s (bq_goto i (QRoom v (bq_tail s)) s)"
    by (rule bq_alone_then [OF reachable.start bq_step.enqueue [OF assms(1)]])
  from bq_alone_then [OF this bq_step.room [of _ i v "bq_tail s"]] assms
  have "bq_alone i s (bq_goto i (QClaim v (bq_tail s)) s)" by simp
  from bq_alone_then [OF this bq_step.claim [of _ i v "bq_tail s"]] show ?thesis by simp
qed

lemma bq_alone_put:
  assumes "bq_pcs s i = QIdle" and "bq_commit s = bq_tail s"
    and "bq_index s (bq_tail s + 1) \<noteq> bq_index s (bq_head s)"
  shows "bq_alone i s (bq_goto i QNotify (bq_put v s))"
proof -
  note bq_alone_room [OF assms(1,3), of v]
  from bq_alone_then [OF this bq_step.store [of _ i v "bq_tail s"]]
  have "bq_alone i s (bq_goto i (QCommit v (bq_tail s))
      (s\<lparr>bq_tail := bq_tail s + 1, bq_pool := (bq_pool s)[bq_index s (bq_tail s) := v]\<rparr>))" by simp
  from bq_alone_then [OF this bq_step.commit [of _ i v "bq_tail s"]] assms(2) show ?thesis
    by (simp add: bq_put_def)
qed

lemma bq_alone_pop:
  assumes "bq_pcs s i = QIdle" and "bq_head s + 1 \<noteq> bq_commit s"
  shows "bq_alone i s (bq_goto i (QGot (Some (bq_pool s ! bq_index s (bq_head s + 1)))) (bq_pop s))"
proof -
  have "bq_alone i s (bq_goto i (QData False (bq_head s)) s)"
    by (rule bq_alone_then [OF reachable.start bq_step.dequeue [OF assms(1)]])
  from bq_alone_then [OF this bq_step.data [of _ i False "bq_head s"]] assms
  have "bq_alone i s (bq_goto i (QLoad False (bq_head s)) s)" by simp
  from bq_alone_then [OF this bq_step.load [of _ i False "bq_head s"]]
  have "bq_alone i s (bq_goto i (QTake False (bq_head s) (bq_pool s ! bq_index s (bq_head s + 1))) s)" by simp
  from bq_alone_then [OF this bq_step.take [of _ i False "bq_head s"]] show ?thesis by (simp add: bq_pop_def)
qed

lemma bq_alone_notify:
  assumes "bq_pcs s i = QNotify"
  obtains t where "bq_alone i s t" and "bq_pcs t i = QPut True" and "bq_items t = bq_items s"
proof (cases "\<exists>j. bq_pcs s j = QAsleep")
  case True
  then obtain j where "bq_pcs s j = QAsleep" by blast
  from bq_alone_then [OF reachable.start bq_step.notify_one [OF assms this]] show ?thesis by (rule that) simp_all
next
  case False
  from bq_alone_then [OF reachable.start bq_step.notify_none [OF assms False]] show ?thesis by (rule that) simp_all
qed

lemma bq_alone_trans: "bq_alone i s t \<Longrightarrow> bq_alone i t u \<Longrightarrow> bq_alone i s u"
  by (rotate_tac, induction rule: reachable.induct) (auto intro: reachable.step)

lemma bq_items_put:
  assumes "bq_ok s" and "bq_commit s = bq_tail s" and "bq_tail s + 1 \<noteq> bq_head s + bq_pool_size s"
  shows "bq_items (bq_put v s) = bq_items s @ [v]"
proof -
  let ?s = "s\<lparr>bq_tail := bq_tail s + 1\<rparr>"
  let ?t = "?s\<lparr>bq_pool := (bq_pool s)[bq_index s (bq_tail s) := v]\<rparr>"
  have ok: "bq_ok ?s" using assms by (simp add: bq_ok_def)
  then have "bq_items ?t = bq_items s" using bq_items_store [OF ok, of "bq_tail s" v] assms(2) by simp
  moreover have "bq_ok ?t" using ok by (simp add: bq_ok_def)
  ultimately show ?thesis
    using bq_items_commit [of ?t] bq_index_less [OF assms(1), of "bq_tail s"] assms(2) by (simp add: bq_put_def)
qed



section \<open>What can go wrong\<close>

lemma bq_start_simps:
  "bq_start d sz = \<lparr>bq_head = 0, bq_tail = 1, bq_commit = 1, bq_pool_size = sz + 2,
     bq_pool = replicate (sz + 2) d, bq_break_all_wait = False, bq_pcs = (\<lambda>_. QIdle)\<rparr>"
  by (simp add: bq_start_def bq_init_def bq_new_def bounded_queue.defs)

lemma bq_then: "reachable bq_step s0 s \<Longrightarrow> bq_step i s t \<Longrightarrow> reachable bq_step s0 t"
  by (rule reachable.step)

lemma bq_goto_same: "bq_pcs s i = p \<Longrightarrow> bq_goto i p s = s"
  by (auto simp: bq_goto_def fun_upd_idem)

lemma bq_reach_put:
  assumes "reachable bq_step s0 s" and "bq_pcs s i = QIdle" and "bq_commit s = bq_tail s"
    and "bq_index s (bq_tail s + 1) \<noteq> bq_index s (bq_head s)" and "\<nexists>j. bq_pcs s j = QAsleep"
  shows "reachable bq_step s0 (bq_put v s)"
proof -
  have pcs: "bq_pcs (bq_put v s) = bq_pcs s" by (simp add: bq_put_def)
  from bq_alone_put [OF assms(2-4)] have "bq_alone i s (bq_goto i QNotify (bq_put v s))" .
  from bq_alone_then [OF this bq_step.notify_none] assms(5)
  have "bq_alone i s (bq_goto i (QPut True) (bq_put v s))" by (simp add: pcs)
  from bq_alone_then [OF this bq_step.put_return [of _ i True]]
  have "bq_alone i s (bq_put v s)" using assms(2) by (simp add: bq_goto_same pcs)
  then show ?thesis using assms(1) by (rule bq_alone_reachable)
qed

lemma bq_reach_pop:
  assumes "reachable bq_step s0 s" and "bq_pcs s i = QIdle" and "bq_head s + 1 \<noteq> bq_commit s"
  shows "reachable bq_step s0 (bq_pop s)"
proof -
  have pcs: "bq_pcs (bq_pop s) = bq_pcs s" by (simp add: bq_pop_def)
  from bq_alone_then [OF bq_alone_pop [OF assms(2,3)] bq_step.got_return]
  have "bq_alone i s (bq_pop s)" using assms(2) by (simp add: bq_goto_same pcs)
  then show ?thesis using assms(1) by (rule bq_alone_reachable)
qed

lemmas bq_eval = bq_put_def bq_pop_def bq_goto_def bq_start_simps bq_index_mod

text \<open>\<open>Enqueue\<close> can report a full queue that is empty: it tests for room with the \<open>tail_\<close> it loaded
  before; if two elements went through the queue since, \<open>head_\<close> stands at the cell after that tail.
  The call gives up, in a queue of any capacity.\<close>

lemma enqueue_full_when_empty:
  "\<exists>s. reachable bq_step (bq_start d (Suc n)) s \<and> bq_pcs s 0 = QPut False \<and> bq_items s = [] \<and>
     bq_tail s = bq_head s + 1"
proof -
  let ?s1 = "bq_goto 0 (QRoom d 1) (bq_start d (Suc n))"
  let ?s2 = "bq_pop (bq_put d ?s1)"
  let ?s3 = "bq_pop (bq_put d ?s2)"
  have "reachable bq_step (bq_start d (Suc n)) ?s1"
    using bq_then [OF reachable.start bq_step.enqueue [of "bq_start d (Suc n)" 0 d]]
    by (simp add: bq_start_simps)
  then have "reachable bq_step (bq_start d (Suc n)) (bq_put d ?s1)"
    by (rule bq_reach_put [of _ _ 1]) (auto simp: bq_eval)
  then have "reachable bq_step (bq_start d (Suc n)) ?s2"
    by (rule bq_reach_pop [of _ _ 1]) (simp_all add: bq_eval)
  then have "reachable bq_step (bq_start d (Suc n)) (bq_put d ?s2)"
    by (rule bq_reach_put [of _ _ 1]) (auto simp: bq_eval mod_if split: if_splits)
  then have "reachable bq_step (bq_start d (Suc n)) ?s3"
    by (rule bq_reach_pop [of _ _ 1]) (simp_all add: bq_eval)
  then have "reachable bq_step (bq_start d (Suc n)) (bq_goto 0 (QPut False) ?s3)"
    by (rule bq_then [OF _ bq_step.no_room [of _ 0 d 1]]) (simp_all add: bq_eval)
  then show ?thesis by (intro exI conjI) (assumption | simp add: bq_eval bq_items_def)+
qed

text \<open>Waiting with \<open>BlockWaitStrategy\<close> loses wake-ups: \<open>EmptyWait\<close> sleeps without testing the
  queue or the flag again, so a notification, or the one of \<open>BreakAllWait\<close>, that comes between the
  failed \<open>Dequeue\<close> and the sleep is lost; the consumer sleeps on an element, or after the queue was
  shut down, while every other thread is idle.\<close>

lemma wake_up_lost:
  "(\<exists>s. reachable bq_step (bq_start d (Suc n)) s \<and> bq_items s = [v] \<and> bq_pcs s = (\<lambda>_. QIdle)(0 := QAsleep)) \<and>
   (\<exists>s. reachable bq_step (bq_start d (Suc n)) s \<and> bq_break_all_wait s \<and> bq_pcs s = (\<lambda>_. QIdle)(0 := QAsleep))"
proof -
  let ?s0 = "bq_start d (Suc n)"
  have "reachable bq_step ?s0 (bq_goto 0 QLoop ?s0)"
    by (rule bq_then [OF reachable.start bq_step.wait_dequeue]) (simp add: bq_start_simps)
  from bq_then [OF this bq_step.loop_on [of _ 0]]
  have "reachable bq_step ?s0 (bq_goto 0 (QData True 0) ?s0)" by (simp add: bq_start_simps)
  from bq_then [OF this bq_step.no_data [of _ 0 True 0]]
  have wait: "reachable bq_step ?s0 (bq_goto 0 QWait ?s0)" by (simp add: bq_start_simps bq_empty_pc_def)
  have "reachable bq_step ?s0 (bq_put v (bq_goto 0 QWait ?s0))"
    by (rule bq_reach_put [OF wait, of 1]) (auto simp: bq_eval)
  from bq_then [OF this bq_step.sleep [of _ 0]]
  have one: "reachable bq_step ?s0 (bq_goto 0 QAsleep (bq_put v (bq_goto 0 QWait ?s0)))" by (simp add: bq_eval)
  let ?b = "bq_goto 0 QWait ?s0\<lparr>bq_break_all_wait := True\<rparr>"
  from bq_then [OF wait bq_step.break_flag [of _ 1]]
  have "reachable bq_step ?s0 (bq_goto 1 QBreak ?b)" by (simp add: bq_eval)
  from bq_then [OF this bq_step.break_notify [of _ 1]]
  have "reachable bq_step ?s0 (bq_goto 1 QIdle (bq_goto 1 QBreak ?b\<lparr>bq_pcs :=
      (\<lambda>j. if bq_pcs (bq_goto 1 QBreak ?b) j = QAsleep then QLoop else bq_pcs (bq_goto 1 QBreak ?b) j)\<rparr>))"
    by simp
  moreover have "bq_goto 1 QIdle (bq_goto 1 QBreak ?b\<lparr>bq_pcs :=
      (\<lambda>j. if bq_pcs (bq_goto 1 QBreak ?b) j = QAsleep then QLoop else bq_pcs (bq_goto 1 QBreak ?b) j)\<rparr>) = ?b"
    by (auto simp: bq_goto_def bq_start_simps fun_eq_iff)
  ultimately have "reachable bq_step ?s0 ?b" by (simp only:)
  from bq_then [OF this bq_step.sleep [of _ 0]]
  have two: "reachable bq_step ?s0 (bq_goto 0 QAsleep ?b)" by (simp add: bq_eval)
  have "bq_items (bq_goto 0 QAsleep (bq_put v (bq_goto 0 QWait ?s0))) = [v]"
    and "bq_pcs (bq_goto 0 QAsleep (bq_put v (bq_goto 0 QWait ?s0))) = (\<lambda>_. QIdle)(0 := QAsleep)"
    by (simp_all add: bq_eval bq_items_def)
  with one have "\<exists>s. reachable bq_step ?s0 s \<and> bq_items s = [v] \<and> bq_pcs s = (\<lambda>_. QIdle)(0 := QAsleep)" by blast
  moreover have "bq_break_all_wait (bq_goto 0 QAsleep ?b)"
    and "bq_pcs (bq_goto 0 QAsleep ?b) = (\<lambda>_. QIdle)(0 := QAsleep)"
    by (simp_all add: bq_eval)
  with two have "\<exists>s. reachable bq_step ?s0 s \<and> bq_break_all_wait s \<and> bq_pcs s = (\<lambda>_. QIdle)(0 := QAsleep)" by blast
  ultimately show ?thesis ..
qed


text \<open>Two threads of a queue for one element, the first with an element to publish.\<close>

definition bq_example :: "nat bq_state" where
  "bq_example = bq_goto 0 (QCommit 7 1) (bq_start 0 1\<lparr>bq_tail := 1 + 1, bq_pool := (replicate (1 + 2) 0)[1 := 7]\<rparr>)"

lemma bq_example_reachable: "reachable bq_step (bq_start 0 1) bq_example"
proof -
  have "bq_alone 0 (bq_start 0 1) (bq_goto 0 (QStore 7 1) (bq_start 0 1\<lparr>bq_tail := 1 + 1\<rparr>))"
    using bq_alone_room [of "bq_start 0 1" 0 7] by (simp add: bq_eval)
  from bq_alone_then [OF this bq_step.store [of _ 0 7 1]]
  have "bq_alone 0 (bq_start 0 1) bq_example"
    by (simp add: bq_example_def bq_start_simps bq_index_mod)
  then show ?thesis using reachable.start by (rule bq_alone_reachable)
qed

theorem bounded_queue_linearizable_witness:
  "bq_items (bq_goto 0 QNotify (bq_example\<lparr>bq_commit := 1 + 1\<rparr>)) = bq_items bq_example @ [7]"
proof -
  have "bq_step 0 bq_example (bq_goto 0 QNotify (bq_example\<lparr>bq_commit := 1 + 1\<rparr>))"
    using bq_step.commit [of bq_example 0 7 1] by (simp add: bq_example_def bq_start_simps)
  from bounded_queue_linearizable [OF bq_example_reachable this] show ?thesis by (simp add: bq_example_def)
qed


lemma bounded_queue_fifo:
  "map_option fst (run_queue bq_enqueue bq_dequeue ops (snd (bq_init True d sz bq_new))) =
    Some (fst (list_queue (\<lambda>n. n < sz) ops []))"
proof -
  obtain q where "run_queue bq_enqueue bq_dequeue ops (snd (bq_init True d sz bq_new)) =
      Some (fst (list_queue (\<lambda>n. n < sz) ops (bq_items (snd (bq_init True d sz bq_new)))), q)"
    using bq.run_is_list [of _ _ ops, OF bq_init_quiet(1) [of sz d]] by blast
  then show ?thesis by (simp add: bq_init_quiet(2))
qed

end
