(* ===== verification/Unbounded_Queue.thy ===== *)
theory Unbounded_Queue
  imports Bounded_Queue
begin

text \<open>
  \<open>base/unbounded_queue.h\<close>: a linked queue whose nodes carry a reference count. Nodes are addresses,
  given out in order; \<open>uq_alive\<close> are the nodes not deleted yet. First the operations run by one thread,
  then the steps of threads that interleave, where a use of a deleted node is recorded.
\<close>

section \<open>The queue\<close>

record 'a unbounded_queue =
  uq_head :: nat
  uq_tail :: nat
  uq_size :: u64
  uq_data :: "nat \<Rightarrow> 'a"
  uq_next :: "nat \<Rightarrow> nat option"
  uq_ref_count :: "nat \<Rightarrow> nat"
  uq_alive :: "nat set"
  uq_fresh :: nat

text \<open>\<open>new Node()\<close>\<close>

definition uq_new_node :: "'a \<Rightarrow> ('a, 'z) unbounded_queue_scheme \<Rightarrow> ('a, 'z) unbounded_queue_scheme" where
  "uq_new_node v q = q\<lparr>uq_data := (uq_data q)(uq_fresh q := v), uq_next := (uq_next q)(uq_fresh q := None),
     uq_ref_count := (uq_ref_count q)(uq_fresh q := 2), uq_alive := insert (uq_fresh q) (uq_alive q),
     uq_fresh := uq_fresh q + 1\<rparr>"

text \<open>\<open>release\<close>\<close>

definition uq_release :: "nat \<Rightarrow> 'a unbounded_queue \<Rightarrow> 'a unbounded_queue" where
  "uq_release a q =
     (let q1 = q\<lparr>uq_ref_count := (uq_ref_count q)(a := uq_ref_count q a - 1)\<rparr>
      in if uq_ref_count q1 a = 0 then q1\<lparr>uq_alive := uq_alive q1 - {a}\<rparr> else q1)"

text \<open>\<open>Reset\<close>; \<open>d\<close> is the default value of the element type.\<close>

definition uq_reset :: "'a \<Rightarrow> ('a, 'z) unbounded_queue_scheme \<Rightarrow> ('a, 'z) unbounded_queue_scheme" where
  "uq_reset d q = (uq_new_node d q)\<lparr>uq_head := uq_fresh q, uq_tail := uq_fresh q, uq_size := 0\<rparr>"

definition uq_new :: "'a \<Rightarrow> 'a unbounded_queue" where
  "uq_new d = uq_reset d \<lparr>uq_head = 0, uq_tail = 0, uq_size = 0, uq_data = (\<lambda>_. d), uq_next = (\<lambda>_. None),
     uq_ref_count = (\<lambda>_. 0), uq_alive = {}, uq_fresh = 0\<rparr>"

definition uq_enqueue :: "'a \<Rightarrow> 'a unbounded_queue \<Rightarrow> 'a unbounded_queue" where
  "uq_enqueue element q =
     (let node = uq_fresh q; q1 = uq_new_node element q; old_tail = uq_tail q1;
          q2 = q1\<lparr>uq_tail := node, uq_next := (uq_next q1)(old_tail := Some node)\<rparr>;
          q3 = uq_release old_tail q2
      in q3\<lparr>uq_size := uq_size q3 + 1\<rparr>)"

definition uq_dequeue :: "'a unbounded_queue \<Rightarrow> 'a option \<times> 'a unbounded_queue" where
  "uq_dequeue q =
     (let old_head = uq_head q
      in case uq_next q old_head of None \<Rightarrow> (None, q)
         | Some head_next \<Rightarrow> (Some (uq_data q head_next),
             uq_release old_head (q\<lparr>uq_head := head_next, uq_size := uq_size q - 1\<rparr>)))"

definition uq_is_empty :: "('a, 'z) unbounded_queue_scheme \<Rightarrow> bool" where
  "uq_is_empty q \<longleftrightarrow> uq_size q = 0"

text \<open>\<open>Destroy\<close> deletes the nodes from the head on; \<open>n\<close> bounds their number.\<close>

fun uq_destroy :: "nat \<Rightarrow> nat option \<Rightarrow> 'a unbounded_queue \<Rightarrow> 'a unbounded_queue" where
  "uq_destroy 0 ite q = q"
| "uq_destroy (Suc n) None q = q"
| "uq_destroy (Suc n) (Some ite) q = uq_destroy n (uq_next q ite) (q\<lparr>uq_alive := uq_alive q - {ite}\<rparr>)"

definition uq_clear :: "'a \<Rightarrow> 'a unbounded_queue \<Rightarrow> 'a unbounded_queue" where
  "uq_clear d q = uq_reset d (uq_destroy (card (uq_alive q)) (Some (uq_head q)) q)"

section \<open>One thread\<close>

text \<open>The nodes from the head to the tail.\<close>

fun uq_path :: "(nat \<Rightarrow> nat option) \<Rightarrow> nat \<Rightarrow> nat list \<Rightarrow> nat \<Rightarrow> bool" where
  "uq_path nx h [] t \<longleftrightarrow> h = t \<and> nx h = None"
| "uq_path nx h (a # as) t \<longleftrightarrow> nx h = Some a \<and> uq_path nx a as t"

text \<open>
  The head and the nodes behind it, \<open>as\<close>, are exactly the nodes alive; every node but the tail has lost
  the reference of the enqueuing side.
\<close>

definition uq_shape :: "nat list \<Rightarrow> 'a unbounded_queue \<Rightarrow> bool" where
  "uq_shape as q \<longleftrightarrow> uq_path (uq_next q) (uq_head q) as (uq_tail q) \<and> distinct (uq_head q # as) \<and>
     uq_alive q = set (uq_head q # as) \<and> (\<forall>a \<in> uq_alive q. a < uq_fresh q) \<and>
     (\<forall>a \<in> uq_alive q. uq_ref_count q a = (if a = uq_tail q then 2 else 1)) \<and> uq_size q = of_nat (length as)"

lemma uq_path_tail: "uq_path nx h as t \<Longrightarrow> t = last (h # as)"
  by (induction as arbitrary: h) auto

lemma uq_path_other: "a \<notin> set (h # as) \<Longrightarrow> uq_path (nx(a := b)) h as t = uq_path nx h as t"
  by (induction as arbitrary: h) auto

lemma uq_path_snoc:
  "uq_path nx h as t \<Longrightarrow> distinct (h # as) \<Longrightarrow> b \<notin> set (h # as) \<Longrightarrow> nx b = None \<Longrightarrow> uq_path (nx(t := Some b)) h (as @ [b]) b"
proof (induction as arbitrary: h)
  case (Cons a as)
  have "t = last (a # as)" using Cons.prems(1) uq_path_tail [of nx a as t] by simp
  then have "t \<in> set (a # as)" by (metis last_in_set list.distinct(1))
  with Cons show ?case by auto
qed auto

lemma uq_enqueue_shape:
  assumes "uq_shape as q"
  shows "uq_shape (as @ [uq_fresh q]) (uq_enqueue v q)"
    and "map (uq_data (uq_enqueue v q)) (as @ [uq_fresh q]) = map (uq_data q) as @ [v]"
proof -
  let ?f = "uq_fresh q" and ?t = "uq_tail q"
  have path: "uq_path (uq_next q) (uq_head q) as ?t" and d: "distinct (uq_head q # as)"
    and alive: "uq_alive q = set (uq_head q # as)" and less: "\<forall>a \<in> uq_alive q. a < ?f"
    using assms by (auto simp: uq_shape_def)
  have new: "?f \<notin> set (uq_head q # as)" using alive less by auto
  have "?t = last (uq_head q # as)" using path by (rule uq_path_tail)
  then have t: "?t \<in> uq_alive q" using alive by (metis last_in_set list.distinct(1))
  then have "?t \<noteq> ?f" using less by auto
  have "uq_path ((uq_next q)(?f := None)) (uq_head q) as ?t" using path new uq_path_other by blast
  from uq_path_snoc [OF this d new]
  have "uq_path ((uq_next q)(?f := None, ?t := Some ?f)) (uq_head q) (as @ [?f]) ?f" by simp
  moreover have refs: "uq_ref_count q a = (if a = ?t then 2 else 1)" if "a \<in> uq_alive q" for a
    using assms that by (simp add: uq_shape_def)
  have eq: "uq_enqueue v q = q\<lparr>uq_tail := ?f, uq_data := (uq_data q)(?f := v),
      uq_next := (uq_next q)(?f := None, ?t := Some ?f), uq_ref_count := (uq_ref_count q)(?f := 2, ?t := 1),
      uq_alive := insert ?f (uq_alive q), uq_fresh := ?f + 1, uq_size := uq_size q + 1\<rparr>"
    using \<open>?t \<noteq> ?f\<close> refs [OF t] by (simp add: uq_enqueue_def uq_new_node_def uq_release_def Let_def)
  have "uq_size q = of_nat (length as)" using assms by (simp add: uq_shape_def)
  moreover have "\<forall>a \<in> insert ?f (uq_alive q). ((uq_ref_count q)(?f := 2, ?t := 1)) a = (if a = ?f then 2 else 1)"
    using refs \<open>?t \<noteq> ?f\<close> by auto
  moreover have "\<forall>a \<in> insert ?f (uq_alive q). a < ?f + 1" using less by auto
  moreover have "distinct (uq_head q # as @ [?f])" using d new by simp
  ultimately show "uq_shape (as @ [?f]) (uq_enqueue v q)"
    unfolding uq_shape_def eq using alive by (simp add: insert_commute)
  from new show "map (uq_data (uq_enqueue v q)) (as @ [?f]) = map (uq_data q) as @ [v]"
    by (simp add: eq)
qed

lemma uq_dequeue_empty: "uq_shape [] q \<Longrightarrow> uq_dequeue q = (None, q)"
  by (auto simp: uq_shape_def uq_dequeue_def)

lemma uq_dequeue_shape:
  assumes "uq_shape (a # as) q"
  shows "fst (uq_dequeue q) = Some (uq_data q a)" and "uq_shape as (snd (uq_dequeue q))"
    and "uq_data (snd (uq_dequeue q)) = uq_data q"
proof -
  have nx: "uq_next q (uq_head q) = Some a" and path: "uq_path (uq_next q) a as (uq_tail q)"
    using assms by (auto simp: uq_shape_def)
  have "uq_tail q = last (a # as)" using path by (rule uq_path_tail)
  then have "uq_tail q \<noteq> uq_head q" using assms by (auto simp: uq_shape_def split: if_splits dest: last_in_set)
  with assms nx show "uq_shape as (snd (uq_dequeue q))"
    by (auto simp: uq_shape_def uq_dequeue_def uq_release_def Let_def)
  from nx show "fst (uq_dequeue q) = Some (uq_data q a)" and "uq_data (snd (uq_dequeue q)) = uq_data q"
    by (simp_all add: uq_dequeue_def uq_release_def Let_def)
qed

lemma uq_new_shape: "uq_shape [] (uq_new d)"
  by (simp add: uq_shape_def uq_new_def uq_reset_def uq_new_node_def)


definition uq_ok :: "(nat \<Rightarrow> bool) \<Rightarrow> 'a unbounded_queue \<Rightarrow> bool" where
  "uq_ok room q \<longleftrightarrow> room = (\<lambda>_. True) \<and> (\<exists>as. uq_shape as q)"

definition uq_nodes :: "'a unbounded_queue \<Rightarrow> nat list" where
  "uq_nodes q = (THE as. uq_path (uq_next q) (uq_head q) as (uq_tail q))"

definition uq_items :: "'a unbounded_queue \<Rightarrow> 'a list" where
  "uq_items q = map (uq_data q) (uq_nodes q)"

lemma uq_path_unique: "uq_path nx h as t \<Longrightarrow> uq_path nx h bs t \<Longrightarrow> as = bs"
proof (induction as arbitrary: h bs)
  case Nil
  then show ?case by (cases bs) auto
next
  case (Cons a as)
  then show ?case by (cases bs) auto
qed

lemma uq_items_shape: "uq_shape as q \<Longrightarrow> uq_items q = map (uq_data q) as"
  using uq_path_unique by (auto simp: uq_items_def uq_nodes_def uq_shape_def intro!: arg_cong [where f = "map (uq_data q)"] the_equality)

interpretation uq: fifo_queue "\<lambda>v q. Some (True, uq_enqueue v q)" "\<lambda>q. Some (uq_dequeue q)" uq_ok uq_items
proof
  fix room v and q :: "'a unbounded_queue"
  assume "uq_ok room q"
  then obtain as where as: "uq_shape as q" and room: "room = (\<lambda>_. True)" by (auto simp: uq_ok_def)
  from uq_enqueue_shape [OF as, of v] uq_items_shape [OF as]
  show "\<exists>q'. Some (True, uq_enqueue v q) = Some (room (length (uq_items q)), q') \<and> uq_ok room q' \<and>
      uq_items q' = (if room (length (uq_items q)) then uq_items q @ [v] else uq_items q)"
    by (auto simp: room uq_ok_def uq_items_shape)
next
  fix room and q :: "'a unbounded_queue"
  assume "uq_ok room q"
  then obtain as where as: "uq_shape as q" and room: "room = (\<lambda>_. True)" by (auto simp: uq_ok_def)
  show "\<exists>q'. uq_ok room q' \<and> (case uq_items q of [] \<Rightarrow> Some (uq_dequeue q) = Some (None, q') \<and> uq_items q' = []
       | x # xs \<Rightarrow> Some (uq_dequeue q) = Some (Some x, q') \<and> uq_items q' = xs)"
  proof (cases as)
    case Nil
    with as room show ?thesis using uq_dequeue_empty [of q] uq_items_shape [OF as] by (auto simp: uq_ok_def)
  next
    case (Cons a bs)
    from uq_dequeue_shape [OF as [unfolded Cons]] uq_items_shape [OF as] Cons room
    show ?thesis by (intro exI [of _ "snd (uq_dequeue q)"]) (auto simp: uq_ok_def uq_items_shape prod_eq_iff)
  qed
qed

text \<open>C14. Called by one thread both queues are first-in first-out lists, the bounded one of the length it
  was made for: any sequence of \<open>Enqueue\<close> and \<open>Dequeue\<close> calls returns, and returns what the list
  returns; and the unbounded queue has deleted all nodes but those of its elements and one more.\<close>

theorem queues_are_fifo:
  "map_option fst (run_queue bq_enqueue bq_dequeue ops (snd (bq_init True d sz bq_new))) =
     Some (fst (list_queue (\<lambda>n. n < sz) ops [])) \<and>
   (\<exists>q. run_queue (\<lambda>v q. Some (True, uq_enqueue v q)) (\<lambda>q. Some (uq_dequeue q)) ops (uq_new d) =
       Some (fst (list_queue (\<lambda>_. True) ops []), q) \<and>
     card (uq_alive q) = length (snd (list_queue (\<lambda>_. True) ops [])) + 1)"
proof
  show "map_option fst (run_queue bq_enqueue bq_dequeue ops (snd (bq_init True d sz bq_new))) =
     Some (fst (list_queue (\<lambda>n. n < sz) ops []))" by (rule bounded_queue_fifo)
  have "uq_ok (\<lambda>_. True) (uq_new d)" using uq_new_shape [of d] by (auto simp: uq_ok_def)
  from uq.run_is_list [OF this, of ops] obtain q where q: "uq_ok (\<lambda>_. True) q"
    "run_queue (\<lambda>v q. Some (True, uq_enqueue v q)) (\<lambda>q. Some (uq_dequeue q)) ops (uq_new d) =
       Some (fst (list_queue (\<lambda>_. True) ops (uq_items (uq_new d))), q)"
    "uq_items q = snd (list_queue (\<lambda>_. True) ops (uq_items (uq_new d)))" by blast
  from q(1) obtain as where as: "uq_shape as q" by (auto simp: uq_ok_def)
  then have "card (uq_alive q) = length as + 1" by (simp add: uq_shape_def distinct_card)
  moreover have "length as = length (uq_items q)" using uq_items_shape [OF as] by simp
  ultimately show "\<exists>q. run_queue (\<lambda>v q. Some (True, uq_enqueue v q)) (\<lambda>q. Some (uq_dequeue q)) ops (uq_new d) =
       Some (fst (list_queue (\<lambda>_. True) ops []), q) \<and>
     card (uq_alive q) = length (snd (list_queue (\<lambda>_. True) ops [])) + 1"
    using q(2,3) uq_items_shape [OF uq_new_shape, of d] by auto
qed


section \<open>Threads\<close>

text \<open>
  In \<open>Enqueue\<close> before the exchange of \<open>tail_\<close> and the store of \<open>next\<close>; in \<open>release\<close> before the
  decrement and before the test, with what follows it: the increment of the size, or the return of the
  element dequeued; in \<open>Dequeue\<close> before the load of \<open>next\<close>, the exchange of \<open>head_\<close>, the load of the
  element and the decrement of the size. \<open>uq_deleted\<close> counts how often a node was deleted,
  \<open>uq_stale\<close> tells that a thread used a node that was deleted already. A deleted node keeps its
  content.
\<close>

datatype 'a uq_pc =
  UqIdle | UqSwing nat nat | UqLink nat nat | UqDecrement nat "'a option" | UqTest nat "'a option" | UqCount
| UqNext nat | UqMove nat nat | UqRead nat nat | UqUncount nat 'a | UqGot "'a option"

record 'a uq_state = "'a unbounded_queue" +
  uq_deleted :: "nat \<Rightarrow> nat"
  uq_stale :: bool
  uq_pcs :: "nat \<Rightarrow> 'a uq_pc"

definition uq_start :: "'a \<Rightarrow> 'a uq_state" where
  "uq_start d = unbounded_queue.extend (uq_new d)
     \<lparr>uq_deleted = (\<lambda>_. 0), uq_stale = False, uq_pcs = (\<lambda>_. UqIdle)\<rparr>"

definition uq_goto :: "nat \<Rightarrow> 'a uq_pc \<Rightarrow> 'a uq_state \<Rightarrow> 'a uq_state" where
  "uq_goto i p s = s\<lparr>uq_pcs := (uq_pcs s)(i := p)\<rparr>"

definition uq_touch :: "nat \<Rightarrow> 'a uq_state \<Rightarrow> 'a uq_state" where
  "uq_touch a s = s\<lparr>uq_stale := (uq_stale s \<or> a \<notin> uq_alive s)\<rparr>"

definition uq_delete :: "nat \<Rightarrow> 'a uq_state \<Rightarrow> 'a uq_state" where
  "uq_delete a s = s\<lparr>uq_alive := uq_alive s - {a}, uq_deleted := (uq_deleted s)(a := uq_deleted s a + 1)\<rparr>"

definition uq_after :: "'a option \<Rightarrow> 'a uq_pc" where
  "uq_after r = (case r of None \<Rightarrow> UqCount | Some v \<Rightarrow> UqGot (Some v))"

inductive uq_step :: "nat \<Rightarrow> 'a uq_state \<Rightarrow> 'a uq_state \<Rightarrow> bool" where
  enqueue: "uq_pcs s i = UqIdle \<Longrightarrow> uq_step i s (uq_goto i (UqSwing (uq_fresh s) (uq_tail s)) (uq_new_node v s))"
| swing: "uq_pcs s i = UqSwing n t \<Longrightarrow> uq_tail s = t \<Longrightarrow> uq_step i s (uq_goto i (UqLink n t) (s\<lparr>uq_tail := n\<rparr>))"
| swing_retry: "uq_pcs s i = UqSwing n t \<Longrightarrow> uq_tail s \<noteq> t \<Longrightarrow> uq_step i s (uq_goto i (UqSwing n (uq_tail s)) s)"
| link: "uq_pcs s i = UqLink n t \<Longrightarrow>
    uq_step i s (uq_goto i (UqDecrement t None) (uq_touch t (s\<lparr>uq_next := (uq_next s)(t := Some n)\<rparr>)))"
| decrement: "uq_pcs s i = UqDecrement a r \<Longrightarrow>
    uq_step i s (uq_goto i (UqTest a r) (uq_touch a (s\<lparr>uq_ref_count := (uq_ref_count s)(a := uq_ref_count s a - 1)\<rparr>)))"
| test_delete: "uq_pcs s i = UqTest a r \<Longrightarrow> uq_ref_count s a = 0 \<Longrightarrow>
    uq_step i s (uq_goto i (uq_after r) (uq_delete a (uq_touch a s)))"
| test_keep: "uq_pcs s i = UqTest a r \<Longrightarrow> uq_ref_count s a \<noteq> 0 \<Longrightarrow>
    uq_step i s (uq_goto i (uq_after r) (uq_touch a s))"
| count: "uq_pcs s i = UqCount \<Longrightarrow> uq_step i s (uq_goto i UqIdle (s\<lparr>uq_size := uq_size s + 1\<rparr>))"
| dequeue: "uq_pcs s i = UqIdle \<Longrightarrow> uq_step i s (uq_goto i (UqNext (uq_head s)) s)"
| next_none: "uq_pcs s i = UqNext h \<Longrightarrow> uq_next s h = None \<Longrightarrow> uq_step i s (uq_goto i (UqGot None) (uq_touch h s))"
| next_some: "uq_pcs s i = UqNext h \<Longrightarrow> uq_next s h = Some n \<Longrightarrow> uq_step i s (uq_goto i (UqMove h n) (uq_touch h s))"
| move: "uq_pcs s i = UqMove h n \<Longrightarrow> uq_head s = h \<Longrightarrow> uq_step i s (uq_goto i (UqRead h n) (s\<lparr>uq_head := n\<rparr>))"
| move_retry: "uq_pcs s i = UqMove h n \<Longrightarrow> uq_head s \<noteq> h \<Longrightarrow> uq_step i s (uq_goto i (UqNext (uq_head s)) s)"
| read: "uq_pcs s i = UqRead h n \<Longrightarrow> uq_step i s (uq_goto i (UqUncount h (uq_data s n)) (uq_touch n s))"
| uncount: "uq_pcs s i = UqUncount h v \<Longrightarrow>
    uq_step i s (uq_goto i (UqDecrement h (Some v)) (s\<lparr>uq_size := uq_size s - 1\<rparr>))"
| return_got: "uq_pcs s i = UqGot r \<Longrightarrow> uq_step i s (uq_goto i UqIdle s)"

lemma uq_then: "reachable uq_step s0 s \<Longrightarrow> uq_step i s t \<Longrightarrow> reachable uq_step s0 t"
  by (rule reachable.step)

text \<open>
  A run of one producer, thread 0, and one consumer, thread 1: the consumer takes the element as soon as
  the producer has linked it, both lower the count of the first node before either tests it.
\<close>

definition uq_linked :: "'a \<Rightarrow> 'a \<Rightarrow> 'a uq_state" where
  "uq_linked d v = uq_goto 0 (UqDecrement 0 None) (uq_start d\<lparr>uq_tail := 1, uq_data := (\<lambda>_. d)(1 := v),
     uq_next := (\<lambda>_. None)(0 := Some 1), uq_ref_count := (\<lambda>_. 0)(0 := 2, 1 := 2), uq_alive := {0, 1}, uq_fresh := 2\<rparr>)"

lemma uq_start_simps:
  "uq_start d = \<lparr>uq_head = 0, uq_tail = 0, uq_size = 0, uq_data = (\<lambda>_. d), uq_next = (\<lambda>_. None),
     uq_ref_count = (\<lambda>_. 0)(0 := 2), uq_alive = {0}, uq_fresh = 1, uq_deleted = (\<lambda>_. 0), uq_stale = False,
     uq_pcs = (\<lambda>_. UqIdle)\<rparr>"
  by (simp add: uq_start_def uq_new_def uq_reset_def uq_new_node_def unbounded_queue.defs fun_upd_idem)

lemmas uq_eval = uq_linked_def uq_start_simps uq_goto_def uq_touch_def uq_delete_def uq_after_def uq_new_node_def

lemma uq_linked_reachable: "reachable uq_step (uq_start d) (uq_linked d v)"
proof -
  have "reachable uq_step (uq_start d) (uq_goto 0 (UqSwing 1 0) (uq_new_node v (uq_start d)))"
    using uq_then [OF reachable.start uq_step.enqueue [of "uq_start d" 0 v]] by (simp add: uq_start_simps)
  from uq_then [OF this uq_step.swing [of _ 0 1 0]]
  have "reachable uq_step (uq_start d) (uq_goto 0 (UqLink 1 0) (uq_new_node v (uq_start d)\<lparr>uq_tail := 1\<rparr>))"
    by (simp add: uq_eval)
  from uq_then [OF this uq_step.link [of _ 0 1 0]] show ?thesis
    by (simp add: uq_eval insert_commute numeral_2_eq_2)
qed

definition uq_taken :: "'a \<Rightarrow> 'a \<Rightarrow> 'a uq_state" where
  "uq_taken d v = uq_goto 1 (UqDecrement 0 (Some v)) (uq_linked d v\<lparr>uq_head := 1, uq_size := - 1\<rparr>)"

lemma uq_taken_reachable: "reachable uq_step (uq_start d) (uq_taken d v)"
proof -
  have "reachable uq_step (uq_start d) (uq_goto 1 (UqNext 0) (uq_linked d v))"
    using uq_then [OF uq_linked_reachable uq_step.dequeue [of "uq_linked d v" 1]] by (simp add: uq_eval)
  from uq_then [OF this uq_step.next_some [of _ 1 0 1]]
  have "reachable uq_step (uq_start d) (uq_goto 1 (UqMove 0 1) (uq_linked d v))" by (simp add: uq_eval)
  from uq_then [OF this uq_step.move [of _ 1 0 1]]
  have "reachable uq_step (uq_start d) (uq_goto 1 (UqRead 0 1) (uq_linked d v\<lparr>uq_head := 1\<rparr>))" by (simp add: uq_eval)
  from uq_then [OF this uq_step.read [of _ 1 0 1]]
  have "reachable uq_step (uq_start d) (uq_goto 1 (UqUncount 0 v) (uq_linked d v\<lparr>uq_head := 1\<rparr>))" by (simp add: uq_eval)
  from uq_then [OF this uq_step.uncount [of _ 1 0 v]] show ?thesis by (simp add: uq_eval uq_taken_def)
qed

text \<open>The same run with both threads in \<open>release\<close>.\<close>

definition uq_run :: "'a \<Rightarrow> nat \<Rightarrow> nat set \<Rightarrow> nat \<Rightarrow> bool \<Rightarrow> 'a uq_pc \<Rightarrow> 'a uq_pc \<Rightarrow> 'a uq_state" where
  "uq_run d refs alive deleted stale p q = \<lparr>uq_head = 1, uq_tail = 1, uq_size = - 1, uq_data = (\<lambda>_. d),
     uq_next = (\<lambda>_. None)(0 := Some 1), uq_ref_count = (\<lambda>_. 0)(1 := 2, 0 := refs), uq_alive = alive,
     uq_fresh = 2, uq_deleted = (\<lambda>_. 0)(0 := deleted), uq_stale = stale,
     uq_pcs = (\<lambda>i. if i = 0 then p else if i = 1 then q else UqIdle)\<rparr>"

lemma uq_run_simps [simp]:
  "uq_goto 0 p' (uq_run d r al n st p q) = uq_run d r al n st p' q"
  "uq_goto 1 q' (uq_run d r al n st p q) = uq_run d r al n st p q'"
  "uq_goto (Suc 0) q' (uq_run d r al n st p q) = uq_run d r al n st p q'"
  "uq_touch a (uq_run d r al n st p q) = uq_run d r al n (st \<or> a \<notin> al) p q"
  "uq_delete 0 (uq_run d r al n st p q) = uq_run d r (al - {0}) (n + 1) st p q"
  "uq_run d r al n st p q\<lparr>uq_ref_count := (uq_ref_count (uq_run d r al n st p q))(0 := r')\<rparr> = uq_run d r' al n st p q"
  "uq_ref_count (uq_run d r al n st p q) 0 = r" "uq_alive (uq_run d r al n st p q) = al"
  "uq_pcs (uq_run d r al n st p q) 0 = p" "uq_pcs (uq_run d r al n st p q) 1 = q"
  "uq_pcs (uq_run d r al n st p q) (Suc 0) = q"
  "uq_deleted (uq_run d r al n st p q) 0 = n" "uq_stale (uq_run d r al n st p q) = st"
  "uq_size (uq_run d r al n st p q) = - 1"
  by (auto simp: uq_run_def uq_goto_def uq_touch_def uq_delete_def fun_eq_iff)

lemma uq_taken_run: "uq_taken d d = uq_run d 2 {0, 1} 0 False (UqDecrement 0 None) (UqDecrement 0 (Some d))"
  by (auto simp: uq_taken_def uq_run_def uq_linked_def uq_start_simps uq_goto_def fun_eq_iff)

text \<open>One producer and one consumer are enough to break the unbounded queue: \<open>release\<close> lowers the count and
  tests it in two steps, so both can find zero and delete the same node; and the consumer can lower the
  size before the producer has raised it, so that \<open>Size\<close> is 2^64 - 1 for a moment.\<close>

lemma node_deleted_twice:
  "(\<exists>s. reachable uq_step (uq_start d) s \<and> uq_deleted s 0 = 2 \<and> uq_stale s) \<and>
   (\<exists>s. reachable uq_step (uq_start d) s \<and> uq_size s = - 1 \<and> uq_stale s = False)"
proof
  let ?s0 = "uq_start d"
  have s: "reachable uq_step ?s0 (uq_run d 2 {0, 1} 0 False (UqDecrement 0 None) (UqDecrement 0 (Some d)))"
    using uq_taken_reachable [of d d] by (simp only: uq_taken_run)
  from uq_then [OF s uq_step.decrement [of _ 0 0 None]]
  have "reachable uq_step ?s0 (uq_run d 1 {0, 1} 0 False (UqTest 0 None) (UqDecrement 0 (Some d)))" by simp
  from uq_then [OF this uq_step.decrement [of _ 1 0 "Some d"]]
  have "reachable uq_step ?s0 (uq_run d 0 {0, 1} 0 False (UqTest 0 None) (UqTest 0 (Some d)))" by simp
  from uq_then [OF this uq_step.test_delete [of _ 0 0 None]]
  have "reachable uq_step ?s0 (uq_run d 0 {1} 1 False UqCount (UqTest 0 (Some d)))" by (simp add: uq_after_def)
  from uq_then [OF this uq_step.test_delete [of _ 1 0 "Some d"]]
  have t: "reachable uq_step ?s0 (uq_run d 0 {1} 2 True UqCount (UqGot (Some d)))"
    by (simp add: uq_after_def numeral_2_eq_2)
  show "\<exists>s. reachable uq_step ?s0 s \<and> uq_deleted s 0 = 2 \<and> uq_stale s"
    by (intro exI conjI, rule t) simp_all
  show "\<exists>s. reachable uq_step ?s0 s \<and> uq_size s = - 1 \<and> uq_stale s = False"
    by (intro exI conjI, rule s) simp_all
qed

end
