(* ===== verification/Rw_Locks.thy ===== *)
theory Rw_Locks
  imports Interleaving
begin

text \<open>
  The two reader-writer locks: \<open>base/atomic_rw_lock.h\<close>, which blocks by spinning, and the lock of a
  shared memory block in \<open>transport/shm/block.cpp\<close>, which only tries. Both keep one word, the number
  of readers or \<open>-1\<close> for a writer; the contract they meet is stated and proved once. Every access to an
  atomic variable is a step. The retry counter that decides when to yield is left out.
\<close>

section \<open>The contract\<close>

datatype hold = Free | Reading | Writing

text \<open>
  \<open>word\<close> is the lock word, \<open>held\<close> what each thread holds, \<open>ok\<close> an invariant of the lock's own. A step
  of thread \<open>i\<close> leaves both alone, or takes or gives back the lock for \<open>i\<close>.
\<close>

locale rw_lock =
  fixes lock_step :: "nat \<Rightarrow> 's \<Rightarrow> 's \<Rightarrow> bool"
    and lock_start :: 's
    and ok :: "'s \<Rightarrow> bool"
    and lock_word :: "'s \<Rightarrow> int"
    and held :: "'s \<Rightarrow> nat \<Rightarrow> hold"
  assumes start_law: "ok lock_start" "lock_word lock_start = 0" "held lock_start = (\<lambda>_. Free)"
    and ok_law: "ok s \<Longrightarrow> lock_step i s t \<Longrightarrow> ok t"
    and step_law: "ok s \<Longrightarrow> lock_step i s t \<Longrightarrow>
      lock_word t = lock_word s \<and> held t = held s \<or>
      0 \<le> lock_word s \<and> held s i = Free \<and> lock_word t = lock_word s + 1 \<and> held t = (held s)(i := Reading) \<or>
      lock_word s = 0 \<and> held s i = Free \<and> lock_word t = - 1 \<and> held t = (held s)(i := Writing) \<or>
      held s i = Reading \<and> lock_word t = lock_word s - 1 \<and> held t = (held s)(i := Free) \<or>
      held s i = Writing \<and> lock_word t = lock_word s + 1 \<and> held t = (held s)(i := Free)"
begin

definition readers_in :: "'s \<Rightarrow> nat set" where
  "readers_in s = {i. held s i = Reading}"

definition writers_in :: "'s \<Rightarrow> nat set" where
  "writers_in s = {i. held s i = Writing}"

definition lock_inv :: "'s \<Rightarrow> bool" where
  "lock_inv s \<longleftrightarrow> ok s \<and> finite (readers_in s) \<and>
     (writers_in s = {} \<and> lock_word s = int (card (readers_in s)) \<or>
      (\<exists>w. writers_in s = {w} \<and> readers_in s = {} \<and> lock_word s = - 1))"

lemma sets_upd:
  "held t = (held s)(i := Reading) \<Longrightarrow> readers_in t = insert i (readers_in s) \<and> writers_in t = writers_in s - {i}"
  "held t = (held s)(i := Writing) \<Longrightarrow> readers_in t = readers_in s - {i} \<and> writers_in t = insert i (writers_in s)"
  "held t = (held s)(i := Free) \<Longrightarrow> readers_in t = readers_in s - {i} \<and> writers_in t = writers_in s - {i}"
  by (auto simp: readers_in_def writers_in_def)

lemma holders:
  "held s i = Free \<Longrightarrow> i \<notin> readers_in s \<and> i \<notin> writers_in s"
  "held s i = Reading \<longleftrightarrow> i \<in> readers_in s"
  "held s i = Writing \<longleftrightarrow> i \<in> writers_in s"
  by (auto simp: readers_in_def writers_in_def)

lemma lock_inv_step:
  assumes "lock_inv s" and "lock_step i s t"
  shows "lock_inv t"
proof -
  have ok: "ok s" and fin: "finite (readers_in s)" using assms(1) by (auto simp: lock_inv_def)
  have okt: "ok t" using ok assms(2) by (rule ok_law)
  from step_law [OF ok assms(2)] consider
      "lock_word t = lock_word s" "held t = held s"
    | "0 \<le> lock_word s" "held s i = Free" "lock_word t = lock_word s + 1" "held t = (held s)(i := Reading)"
    | "lock_word s = 0" "held s i = Free" "lock_word t = - 1" "held t = (held s)(i := Writing)"
    | "held s i = Reading" "lock_word t = lock_word s - 1" "held t = (held s)(i := Free)"
    | "held s i = Writing" "lock_word t = lock_word s + 1" "held t = (held s)(i := Free)" by metis
  then show ?thesis
  proof cases
    case 1
    with assms(1) okt show ?thesis by (simp add: lock_inv_def readers_in_def writers_in_def)
  next
    case 2
    with assms(1) okt fin sets_upd(1) [OF 2(4)] holders(1) [OF 2(2)] show ?thesis by (auto simp: lock_inv_def)
  next
    case 3
    with assms(1) okt fin sets_upd(2) [OF 3(4)] holders(1) [OF 3(2)] show ?thesis by (auto simp: lock_inv_def)
  next
    case 4
    then have "i \<in> readers_in s" by (simp add: holders(2))
    moreover from this have "0 < card (readers_in s)" using fin card_gt_0_iff by blast
    ultimately show ?thesis
      using 4 assms(1) okt fin sets_upd(3) [OF 4(3)] by (auto simp: lock_inv_def card_Diff_singleton of_nat_diff)
  next
    case 5
    then have "i \<in> writers_in s" by (simp add: holders(3))
    with 5 assms(1) okt fin sets_upd(3) [OF 5(3)] show ?thesis by (auto simp: lock_inv_def)
  qed
qed

lemma lock_inv_reachable: "reachable lock_step lock_start s \<Longrightarrow> lock_inv s"
  by (induction rule: reachable_invariant)
    (simp_all add: lock_inv_step, simp add: lock_inv_def readers_in_def writers_in_def start_law)

text \<open>Mutual exclusion, and what the lock word says.\<close>

lemma exclusion:
  assumes "reachable lock_step lock_start s" and "held s i = Writing"
  shows "lock_word s = - 1" and "j \<noteq> i \<Longrightarrow> held s j = Free"
proof -
  have inv: "lock_inv s" using assms(1) by (rule lock_inv_reachable)
  with assms(2) have w: "writers_in s = {i}" "readers_in s = {}" "lock_word s = - 1"
    by (auto simp: lock_inv_def holders)
  then show "lock_word s = - 1" by simp
  assume "j \<noteq> i"
  with w(1,2) show "held s j = Free" by (cases "held s j") (auto simp: holders)
qed

lemma readers_count:
  assumes "reachable lock_step lock_start s" and "\<forall>j. held s j \<noteq> Writing"
  shows "lock_word s = int (card {j. held s j = Reading})"
  using lock_inv_reachable [OF assms(1)] assms(2) by (auto simp: lock_inv_def readers_in_def writers_in_def)

lemma word_counts:
  assumes "reachable lock_step lock_start s"
  shows "finite {i. held s i = Reading}"
    and "0 \<le> lock_word s \<Longrightarrow> lock_word s = int (card {i. held s i = Reading}) \<and> (\<forall>i. held s i \<noteq> Writing)"
    and "lock_word s = 0 \<longleftrightarrow> (\<forall>i. held s i = Free)"
proof -
  have inv: "lock_inv s" using assms by (rule lock_inv_reachable)
  then show "finite {i. held s i = Reading}" by (simp add: lock_inv_def readers_in_def)
  from inv show "0 \<le> lock_word s \<Longrightarrow> lock_word s = int (card {i. held s i = Reading}) \<and> (\<forall>i. held s i \<noteq> Writing)"
    by (auto simp: lock_inv_def readers_in_def writers_in_def)
  have free: "held s i = Free \<longleftrightarrow> i \<notin> readers_in s \<and> i \<notin> writers_in s" for i
    by (cases "held s i") (auto simp: holders)
  from inv show "lock_word s = 0 \<longleftrightarrow> (\<forall>i. held s i = Free)" by (auto simp: lock_inv_def free)
qed

end

section \<open>AtomicRWLock\<close>

text \<open>
  In \<open>ReadLock\<close> before the test of the loaded word, before loading it again, before the exchange;
  in \<open>WriteLock\<close> before the exchange and, the lock taken, before the waiting count is lowered.
\<close>

datatype rw_pc =
  RwIdle | RwTest int | RwLoad | RwExchange int | RwReading | RwWait | RwEntered | RwWriting

record rw_state =
  rw_lock_num :: int
  rw_write_wait_num :: nat
  rw_write_first :: bool
  rw_pcs :: "nat \<Rightarrow> rw_pc"

definition rw_start :: "bool \<Rightarrow> rw_state" where
  "rw_start write_first = \<lparr>rw_lock_num = 0, rw_write_wait_num = 0, rw_write_first = write_first, rw_pcs = (\<lambda>_. RwIdle)\<rparr>"

definition rw_goto :: "nat \<Rightarrow> rw_pc \<Rightarrow> rw_state \<Rightarrow> rw_state" where
  "rw_goto i p s = s\<lparr>rw_pcs := (rw_pcs s)(i := p)\<rparr>"

text \<open>The condition of the spinning loop.\<close>

definition rw_spins :: "int \<Rightarrow> rw_state \<Rightarrow> bool" where
  "rw_spins lock_num s \<longleftrightarrow> lock_num < 0 \<or> rw_write_first s \<and> 0 < rw_write_wait_num s"

inductive rw_step :: "nat \<Rightarrow> rw_state \<Rightarrow> rw_state \<Rightarrow> bool" where
  read_lock: "rw_pcs s i = RwIdle \<Longrightarrow> rw_step i s (rw_goto i (RwTest (rw_lock_num s)) s)"
| read_spin: "rw_pcs s i = RwTest n \<Longrightarrow> rw_spins n s \<Longrightarrow> rw_step i s (rw_goto i RwLoad s)"
| read_load: "rw_pcs s i = RwLoad \<Longrightarrow> rw_step i s (rw_goto i (RwTest (rw_lock_num s)) s)"
| read_pass: "rw_pcs s i = RwTest n \<Longrightarrow> \<not> rw_spins n s \<Longrightarrow> rw_step i s (rw_goto i (RwExchange n) s)"
| read_take: "rw_pcs s i = RwExchange n \<Longrightarrow> rw_lock_num s = n \<Longrightarrow>
    rw_step i s (rw_goto i RwReading (s\<lparr>rw_lock_num := n + 1\<rparr>))"
| read_retry: "rw_pcs s i = RwExchange n \<Longrightarrow> rw_step i s (rw_goto i (RwTest (rw_lock_num s)) s)"
| read_unlock: "rw_pcs s i = RwReading \<Longrightarrow> rw_step i s (rw_goto i RwIdle (s\<lparr>rw_lock_num := rw_lock_num s - 1\<rparr>))"
| write_lock: "rw_pcs s i = RwIdle \<Longrightarrow>
    rw_step i s (rw_goto i RwWait (s\<lparr>rw_write_wait_num := rw_write_wait_num s + 1\<rparr>))"
| write_take: "rw_pcs s i = RwWait \<Longrightarrow> rw_lock_num s = 0 \<Longrightarrow>
    rw_step i s (rw_goto i RwEntered (s\<lparr>rw_lock_num := - 1\<rparr>))"
| write_retry: "rw_pcs s i = RwWait \<Longrightarrow> rw_step i s s"
| write_enter: "rw_pcs s i = RwEntered \<Longrightarrow>
    rw_step i s (rw_goto i RwWriting (s\<lparr>rw_write_wait_num := rw_write_wait_num s - 1\<rparr>))"
| write_unlock: "rw_pcs s i = RwWriting \<Longrightarrow>
    rw_step i s (rw_goto i RwIdle (s\<lparr>rw_lock_num := rw_lock_num s + 1\<rparr>))"

fun rw_holds :: "rw_pc \<Rightarrow> hold" where
  "rw_holds RwReading = Reading"
| "rw_holds RwEntered = Writing"
| "rw_holds RwWriting = Writing"
| "rw_holds _ = Free"

definition rw_held :: "rw_state \<Rightarrow> nat \<Rightarrow> hold" where
  "rw_held s i = rw_holds (rw_pcs s i)"

text \<open>A thread before its exchange has seen the lock without a writer.\<close>

definition rw_ok :: "rw_state \<Rightarrow> bool" where
  "rw_ok s \<longleftrightarrow> (\<forall>i n. rw_pcs s i = RwExchange n \<longrightarrow> 0 \<le> n)"

lemma rw_goto_simps [simp]:
  "rw_lock_num (rw_goto i p s) = rw_lock_num s" "rw_write_wait_num (rw_goto i p s) = rw_write_wait_num s"
  "rw_write_first (rw_goto i p s) = rw_write_first s" "rw_pcs (rw_goto i p s) = (rw_pcs s)(i := p)"
  by (simp_all add: rw_goto_def)

lemma rw_held_goto [simp]:
  "rw_held (rw_goto i p s) = (rw_held s)(i := rw_holds p)"
  "rw_held (s\<lparr>rw_lock_num := n\<rparr>) = rw_held s" "rw_held (s\<lparr>rw_write_wait_num := m\<rparr>) = rw_held s"
  by (auto simp: rw_held_def fun_eq_iff)

lemma rw_held_idem: "rw_held s i = h \<Longrightarrow> (rw_held s)(i := h) = rw_held s"
  by auto

lemma rw_ok_step: "rw_ok s \<Longrightarrow> rw_step i s t \<Longrightarrow> rw_ok t"
  by (erule rw_step.cases) (auto simp: rw_ok_def rw_spins_def)

interpretation rw: rw_lock rw_step "rw_start write_first" rw_ok rw_lock_num rw_held for write_first
proof
  fix s t i
  assume ok: "rw_ok s" and st: "rw_step i s t"
  from ok st show "rw_ok t" by (rule rw_ok_step)
  have held: "rw_held s i = rw_holds (rw_pcs s i)" by (simp add: rw_held_def)
  from st show "rw_lock_num t = rw_lock_num s \<and> rw_held t = rw_held s \<or>
      0 \<le> rw_lock_num s \<and> rw_held s i = Free \<and> rw_lock_num t = rw_lock_num s + 1 \<and> rw_held t = (rw_held s)(i := Reading) \<or>
      rw_lock_num s = 0 \<and> rw_held s i = Free \<and> rw_lock_num t = - 1 \<and> rw_held t = (rw_held s)(i := Writing) \<or>
      rw_held s i = Reading \<and> rw_lock_num t = rw_lock_num s - 1 \<and> rw_held t = (rw_held s)(i := Free) \<or>
      rw_held s i = Writing \<and> rw_lock_num t = rw_lock_num s + 1 \<and> rw_held t = (rw_held s)(i := Free)"
    by cases (use ok held in \<open>auto simp: rw_held_idem rw_ok_def\<close>)
qed (simp_all add: rw_start_def rw_ok_def rw_held_def fun_eq_iff)


section \<open>The lock of a block\<close>

text \<open>
  In \<open>TryLockForRead\<close> before the exchange with the loaded word and the number of failed tries, and
  before loading the word again; \<open>BlkRet\<close> is the return of false.
\<close>

datatype blk_pc = BlkIdle | BlkExchange int nat | BlkLoad nat | BlkReading | BlkWriting | BlkRet

record blk_state =
  blk_lock_num :: int
  blk_pcs :: "nat \<Rightarrow> blk_pc"

definition kRWLockFree :: int where "kRWLockFree = 0"
definition kWriteExclusive :: int where "kWriteExclusive = - 1"
definition kMaxTryLockTimes :: nat where "kMaxTryLockTimes = 5"

definition blk_start :: blk_state where
  "blk_start = \<lparr>blk_lock_num = 0, blk_pcs = (\<lambda>_. BlkIdle)\<rparr>"

definition blk_goto :: "nat \<Rightarrow> blk_pc \<Rightarrow> blk_state \<Rightarrow> blk_state" where
  "blk_goto i p s = s\<lparr>blk_pcs := (blk_pcs s)(i := p)\<rparr>"

inductive blk_step :: "nat \<Rightarrow> blk_state \<Rightarrow> blk_state \<Rightarrow> bool" where
  try_write: "blk_pcs s i = BlkIdle \<Longrightarrow> blk_lock_num s = kRWLockFree \<Longrightarrow>
    blk_step i s (blk_goto i BlkWriting (s\<lparr>blk_lock_num := kWriteExclusive\<rparr>))"
| try_write_fails: "blk_pcs s i = BlkIdle \<Longrightarrow> blk_step i s (blk_goto i BlkRet s)"
| try_read: "blk_pcs s i = BlkIdle \<Longrightarrow> kRWLockFree \<le> blk_lock_num s \<Longrightarrow>
    blk_step i s (blk_goto i (BlkExchange (blk_lock_num s) 0) s)"
| try_read_written: "blk_pcs s i = BlkIdle \<Longrightarrow> blk_lock_num s < kRWLockFree \<Longrightarrow> blk_step i s (blk_goto i BlkRet s)"
| read_take: "blk_pcs s i = BlkExchange n k \<Longrightarrow> blk_lock_num s = n \<Longrightarrow>
    blk_step i s (blk_goto i BlkReading (s\<lparr>blk_lock_num := n + 1\<rparr>))"
| read_fails: "blk_pcs s i = BlkExchange n k \<Longrightarrow> Suc k \<noteq> kMaxTryLockTimes \<Longrightarrow>
    blk_step i s (blk_goto i (BlkLoad (Suc k)) s)"
| read_last: "blk_pcs s i = BlkExchange n k \<Longrightarrow> Suc k = kMaxTryLockTimes \<Longrightarrow> blk_step i s (blk_goto i BlkRet s)"
| read_load: "blk_pcs s i = BlkLoad k \<Longrightarrow> kRWLockFree \<le> blk_lock_num s \<Longrightarrow>
    blk_step i s (blk_goto i (BlkExchange (blk_lock_num s) k) s)"
| read_written: "blk_pcs s i = BlkLoad k \<Longrightarrow> blk_lock_num s < kRWLockFree \<Longrightarrow> blk_step i s (blk_goto i BlkRet s)"
| return_false: "blk_pcs s i = BlkRet \<Longrightarrow> blk_step i s (blk_goto i BlkIdle s)"
| release_read: "blk_pcs s i = BlkReading \<Longrightarrow>
    blk_step i s (blk_goto i BlkIdle (s\<lparr>blk_lock_num := blk_lock_num s - 1\<rparr>))"
| release_write: "blk_pcs s i = BlkWriting \<Longrightarrow>
    blk_step i s (blk_goto i BlkIdle (s\<lparr>blk_lock_num := blk_lock_num s + 1\<rparr>))"

fun blk_holds :: "blk_pc \<Rightarrow> hold" where
  "blk_holds BlkReading = Reading"
| "blk_holds BlkWriting = Writing"
| "blk_holds _ = Free"

definition blk_held :: "blk_state \<Rightarrow> nat \<Rightarrow> hold" where
  "blk_held s i = blk_holds (blk_pcs s i)"

fun blk_pc_ok :: "blk_pc \<Rightarrow> bool" where
  "blk_pc_ok (BlkExchange n k) \<longleftrightarrow> 0 \<le> n \<and> k < kMaxTryLockTimes"
| "blk_pc_ok (BlkLoad k) \<longleftrightarrow> 0 < k \<and> k < kMaxTryLockTimes"
| "blk_pc_ok _ \<longleftrightarrow> True"

definition blk_ok :: "blk_state \<Rightarrow> bool" where
  "blk_ok s \<longleftrightarrow> (\<forall>i. blk_pc_ok (blk_pcs s i))"

lemma blk_goto_simps [simp]:
  "blk_lock_num (blk_goto i p s) = blk_lock_num s" "blk_pcs (blk_goto i p s) = (blk_pcs s)(i := p)"
  "blk_held (blk_goto i p s) = (blk_held s)(i := blk_holds p)" "blk_held (s\<lparr>blk_lock_num := n\<rparr>) = blk_held s"
  by (auto simp: blk_goto_def blk_held_def fun_eq_iff)

lemma blk_held_idem: "blk_held s i = h \<Longrightarrow> (blk_held s)(i := h) = blk_held s"
  by auto

lemma blk_ok_step:
  assumes "blk_ok s" and "blk_step i s t"
  shows "blk_ok t"
proof -
  have pc: "blk_pc_ok (blk_pcs s i)" using assms(1) by (simp add: blk_ok_def)
  from assms(2) show ?thesis
    by cases (use assms(1) pc in \<open>auto simp: blk_ok_def kRWLockFree_def kMaxTryLockTimes_def\<close>)
qed

interpretation blk: rw_lock blk_step blk_start blk_ok blk_lock_num blk_held
proof
  fix s t i
  assume ok: "blk_ok s" and st: "blk_step i s t"
  from ok st show "blk_ok t" by (rule blk_ok_step)
  have held: "blk_held s i = blk_holds (blk_pcs s i)" by (simp add: blk_held_def)
  have pc: "blk_pc_ok (blk_pcs s i)" using ok by (simp add: blk_ok_def)
  from st show "blk_lock_num t = blk_lock_num s \<and> blk_held t = blk_held s \<or>
      0 \<le> blk_lock_num s \<and> blk_held s i = Free \<and> blk_lock_num t = blk_lock_num s + 1 \<and> blk_held t = (blk_held s)(i := Reading) \<or>
      blk_lock_num s = 0 \<and> blk_held s i = Free \<and> blk_lock_num t = - 1 \<and> blk_held t = (blk_held s)(i := Writing) \<or>
      blk_held s i = Reading \<and> blk_lock_num t = blk_lock_num s - 1 \<and> blk_held t = (blk_held s)(i := Free) \<or>
      blk_held s i = Writing \<and> blk_lock_num t = blk_lock_num s + 1 \<and> blk_held t = (blk_held s)(i := Free)"
    by cases (use pc held in \<open>auto simp: blk_held_idem kRWLockFree_def kWriteExclusive_def\<close>)
qed (simp_all add: blk_start_def blk_ok_def blk_held_def fun_eq_iff)

section \<open>The properties\<close>

text \<open>C15. Both locks exclude: in every interleaving a thread that writes is alone, every other thread holds
  nothing, and the lock word of a lock no thread writes under is the number of its readers.\<close>

theorem locks_exclude:
  assumes "reachable rw_step (rw_start write_first) s" and "reachable blk_step blk_start b"
  shows "(rw_held s i = Writing \<longrightarrow> rw_lock_num s = - 1 \<and> (\<forall>j. j \<noteq> i \<longrightarrow> rw_held s j = Free)) \<and>
    ((\<forall>j. rw_held s j \<noteq> Writing) \<longrightarrow> rw_lock_num s = int (card {j. rw_held s j = Reading})) \<and>
    (blk_held b i = Writing \<longrightarrow> blk_lock_num b = - 1 \<and> (\<forall>j. j \<noteq> i \<longrightarrow> blk_held b j = Free)) \<and>
    ((\<forall>j. blk_held b j \<noteq> Writing) \<longrightarrow> blk_lock_num b = int (card {j. blk_held b j = Reading}))"
  using rw.exclusion [OF assms(1)] rw.readers_count [OF assms(1)]
    blk.exclusion [OF assms(2)] blk.readers_count [OF assms(2)] by blast

lemma blk_other: "blk_step j s t \<Longrightarrow> j \<noteq> i \<Longrightarrow> blk_pcs t i = blk_pcs s i"
  by (erule blk_step.cases) auto

text \<open>How many more steps of its own a call of \<open>TryLockForRead\<close> can take.\<close>

fun blk_fuel :: "blk_pc \<Rightarrow> nat" where
  "blk_fuel (BlkExchange n k) = 2 * (kMaxTryLockTimes - k)"
| "blk_fuel (BlkLoad k) = 2 * (kMaxTryLockTimes - k) + 1"
| "blk_fuel _ = 0"

text \<open>Trying to lock a block for reading is wait-free: whatever the other threads do, every step a
  thread makes inside \<open>TryLockForRead\<close> lowers a bound that starts at ten and that no other thread
  changes, until the call holds the lock or returns false.\<close>

lemma try_lock_wait_free:
  assumes "reachable blk_step blk_start s" and "blk_step i s t"
  shows "blk_fuel (blk_pcs s i) \<le> 10 \<and>
    (0 < blk_fuel (blk_pcs s i) \<longrightarrow> blk_fuel (blk_pcs t i) < blk_fuel (blk_pcs s i)) \<and>
    (\<forall>j. j \<noteq> i \<longrightarrow> blk_pcs t j = blk_pcs s j)"
proof -
  have "blk_ok s" using blk.lock_inv_reachable [OF assms(1)] by (simp add: blk.lock_inv_def)
  then have pc: "blk_pc_ok (blk_pcs s i)" by (simp add: blk_ok_def)
  then have "blk_fuel (blk_pcs s i) \<le> 10" by (cases "blk_pcs s i") (auto simp: kMaxTryLockTimes_def)
  moreover have "0 < blk_fuel (blk_pcs s i) \<longrightarrow> blk_fuel (blk_pcs t i) < blk_fuel (blk_pcs s i)"
    using assms(2) pc by cases (auto simp: kMaxTryLockTimes_def)
  ultimately show ?thesis using blk_other [OF assms(2)] by (metis (no_types))
qed

definition blk_trying :: blk_state where
  "blk_trying = blk_goto 0 (BlkExchange 0 0) blk_start"

lemma blk_trying_reachable: "reachable blk_step blk_start blk_trying"
proof -
  have "blk_step 0 blk_start blk_trying"
    using blk_step.try_read [of blk_start 0] by (simp add: blk_trying_def blk_start_def kRWLockFree_def)
  with reachable.start show ?thesis by (rule reachable.step)
qed

lemma try_lock_wait_free_witness:
  "blk_fuel (blk_pcs (blk_goto 0 (BlkLoad 1) blk_trying) 0) < blk_fuel (blk_pcs blk_trying 0)"
proof -
  have "blk_step 0 blk_trying (blk_goto 0 (BlkLoad 1) blk_trying)"
    using blk_step.read_fails [of blk_trying 0 0 0] by (simp add: blk_trying_def kMaxTryLockTimes_def)
  from try_lock_wait_free [OF blk_trying_reachable this] show ?thesis
    by (simp add: blk_trying_def kMaxTryLockTimes_def)
qed

definition rw_written :: rw_state where
  "rw_written = rw_goto 0 RwEntered (rw_start True\<lparr>rw_lock_num := - 1, rw_write_wait_num := 1\<rparr>)"

lemma rw_written_reachable: "reachable rw_step (rw_start True) rw_written"
proof -
  let ?w = "rw_goto 0 RwWait (rw_start True\<lparr>rw_write_wait_num := 1\<rparr>)"
  have "rw_step 0 (rw_start True) ?w"
    using rw_step.write_lock [of "rw_start True" 0] by (simp add: rw_start_def)
  with reachable.start have "reachable rw_step (rw_start True) ?w" by (rule reachable.step)
  moreover have "rw_step 0 ?w rw_written"
    using rw_step.write_take [of ?w 0] by (simp add: rw_start_def rw_goto_def rw_written_def)
  ultimately show ?thesis by (rule reachable.step)
qed

theorem locks_exclude_witness:
  "rw_lock_num rw_written = - 1 \<and> blk_lock_num blk_trying = 0"
proof -
  have "rw_held rw_written 0 = Writing" by (simp add: rw_written_def rw_held_def)
  moreover have "\<forall>j. blk_held blk_trying j = Free" by (simp add: blk_trying_def blk_held_def blk_start_def)
  ultimately show ?thesis
    using locks_exclude [OF rw_written_reachable blk_trying_reachable, of 0] by simp
qed

section \<open>Progress\<close>

definition rw_waiters :: "rw_state \<Rightarrow> nat set" where
  "rw_waiters s = {i. rw_pcs s i = RwWait \<or> rw_pcs s i = RwEntered}"

lemma rw_waiters_goto:
  "rw_waiters (rw_goto i p s) = (if p = RwWait \<or> p = RwEntered then insert i (rw_waiters s) else rw_waiters s - {i})"
  "rw_waiters (s\<lparr>rw_lock_num := n\<rparr>) = rw_waiters s" "rw_waiters (s\<lparr>rw_write_wait_num := m\<rparr>) = rw_waiters s"
  by (auto simp: rw_waiters_def)

lemma rw_waiters_pc: "rw_pcs s i = p \<Longrightarrow> i \<in> rw_waiters s \<longleftrightarrow> p = RwWait \<or> p = RwEntered"
  by (simp add: rw_waiters_def)

text \<open>\<open>write_lock_wait_num_\<close> counts the writers that wait or have just entered.\<close>

lemma rw_wait_num:
  "reachable rw_step (rw_start write_first) s \<Longrightarrow> finite (rw_waiters s) \<and> rw_write_wait_num s = card (rw_waiters s)"
proof (induction rule: reachable_invariant)
  case (step i s t)
  from step(2) show ?case
    by cases (use step(1) in \<open>auto simp: rw_waiters_goto rw_waiters_pc card_insert_if insert_absorb card_Diff_singleton\<close>)
qed (simp add: rw_waiters_def rw_start_def)

lemma rw_first_const:
  "reachable rw_step (rw_start write_first) s \<Longrightarrow> rw_write_first s = write_first"
proof (induction rule: reachable_invariant)
  case (step i s t)
  from step(2,1) show ?case by cases simp_all
qed (simp add: rw_start_def)

abbreviation rw_alone :: "nat \<Rightarrow> rw_state \<Rightarrow> rw_state \<Rightarrow> bool" where
  "rw_alone i \<equiv> reachable (\<lambda>_ :: unit. rw_step i)"

lemma rw_alone_then: "rw_alone i s t \<Longrightarrow> rw_step i t u \<Longrightarrow> rw_alone i s u"
  by (rule reachable.step)

text \<open>No lock-out: when nothing holds the lock, a writer that waits takes it with its next step, and a
  reader, wherever it stands in \<open>ReadLock\<close>, takes it with finitely many steps of its own unless the lock
  prefers writers and one of them waits; and while one waits, a lock that prefers writers lets no reader
  past the test.\<close>

lemma rw_lock_progress:
  assumes "reachable rw_step (rw_start write_first) s"
  shows "((\<forall>j. rw_held s j = Free) \<longrightarrow> rw_pcs s i = RwWait \<longrightarrow> (\<exists>t. rw_step i s t \<and> rw_held t i = Writing)) \<and>
    ((\<forall>j. rw_held s j = Free) \<longrightarrow> \<not> (write_first \<and> (\<exists>j. rw_pcs s j = RwWait)) \<longrightarrow>
      rw_pcs s i \<in> {RwIdle, RwLoad} \<union> range RwExchange \<union> range RwTest \<longrightarrow>
      (\<exists>t. rw_alone i s t \<and> rw_held t i = Reading)) \<and>
    (write_first \<longrightarrow> (\<exists>j. rw_pcs s j = RwWait) \<longrightarrow> (\<forall>n t. rw_pcs s i = RwTest n \<longrightarrow> rw_step i s t \<longrightarrow> rw_pcs t i = RwLoad))"
proof (intro conjI impI)
  have free_word: "(\<forall>j. rw_held s j = Free) \<longleftrightarrow> rw_lock_num s = 0" using rw.word_counts(3) [OF assms] by simp
  note wait = rw_wait_num [OF assms] and first = rw_first_const [OF assms]
  {
    assume "\<forall>j. rw_held s j = Free" and "rw_pcs s i = RwWait"
    then have "rw_step i s (rw_goto i RwEntered (s\<lparr>rw_lock_num := - 1\<rparr>))"
      by (intro rw_step.write_take) (simp_all add: free_word)
    then show "\<exists>t. rw_step i s t \<and> rw_held t i = Writing" by (intro exI conjI) (assumption | simp)+
  next
    assume free: "\<forall>j. rw_held s j = Free" and w: "\<not> (write_first \<and> (\<exists>j. rw_pcs s j = RwWait))"
      and pc: "rw_pcs s i \<in> {RwIdle, RwLoad} \<union> range RwExchange \<union> range RwTest"
    have entered: "rw_pcs s j \<noteq> RwEntered" for j using spec [OF free, of j] by (auto simp: rw_held_def)
    have pass: "\<not> rw_spins 0 s"
      using w wait first entered by (auto simp: rw_spins_def card_gt_0_iff rw_waiters_def)
    have word: "rw_lock_num s = 0" using free free_word by simp
    have "rw_alone i s (rw_goto i (RwTest 0) s)"
    proof -
      from pc consider "rw_pcs s i = RwIdle" | "rw_pcs s i = RwLoad" | n where "rw_pcs s i = RwExchange n"
        | n where "rw_pcs s i = RwTest n" by auto
      then show ?thesis
      proof cases
        case (4 n)
        show ?thesis
        proof (cases "rw_spins n s")
          case True
          from rw_alone_then [OF reachable.start rw_step.read_spin [OF 4 True]]
          have "rw_alone i s (rw_goto i RwLoad s)" .
          from rw_alone_then [OF this rw_step.read_load [of _ i]] show ?thesis by (simp add: word rw_goto_def)
        next
          case False
          from rw_alone_then [OF reachable.start rw_step.read_pass [OF 4 False]]
          have "rw_alone i s (rw_goto i (RwExchange n) s)" .
          from rw_alone_then [OF this rw_step.read_retry [of _ i n]] show ?thesis by (simp add: word rw_goto_def)
        qed
      qed (use rw_alone_then [OF reachable.start rw_step.read_lock [of s i]]
          rw_alone_then [OF reachable.start rw_step.read_load [of s i]]
          rw_alone_then [OF reachable.start rw_step.read_retry [of s i]] in \<open>auto simp: word\<close>)
    qed
    from rw_alone_then [OF this rw_step.read_pass [of _ i 0]] pass
    have "rw_alone i s (rw_goto i (RwExchange 0) s)" by (simp add: rw_spins_def rw_goto_def)
    from rw_alone_then [OF this rw_step.read_take [of _ i 0]] word
    have "rw_alone i s (rw_goto i RwReading (rw_goto i (RwExchange 0) s\<lparr>rw_lock_num := 1\<rparr>))" by simp
    then show "\<exists>t. rw_alone i s t \<and> rw_held t i = Reading" by (intro exI conjI) (assumption | simp)+
  next
    assume "write_first" and "\<exists>j. rw_pcs s j = RwWait"
    then have "rw_write_first s" and "0 < rw_write_wait_num s"
      using wait first by (auto simp: card_gt_0_iff rw_waiters_def)
    then have spin: "rw_spins n s" for n by (simp add: rw_spins_def)
    show "\<forall>n t. rw_pcs s i = RwTest n \<longrightarrow> rw_step i s t \<longrightarrow> rw_pcs t i = RwLoad"
      by (auto elim!: rw_step.cases simp: spin)
  }
qed

lemma rw_lock_progress_witness:
  "\<exists>t. rw_alone 3 (rw_start True) t \<and> rw_held t 3 = Reading"
  using rw_lock_progress [OF reachable.start, of True 3] by (simp add: rw_start_def rw_held_def)

end
