(* ===== verification/Object_Pools.thy ===== *)
theory Object_Pools
  imports Interleaving "HOL-Library.Multiset"
begin

text \<open>
  The two object pools: \<open>base/concurrent_object_pool.h\<close>, a lock-free free list whose head carries a
  counter, as a step relation, and \<open>base/object_pool.h\<close>, for one thread. A node is its index in the
  arena, a null pointer \<open>None\<close>; the objects inside the nodes play no role. \<open>cp_out\<close> holds the nodes
  whose shared pointers are alive somewhere; the pointer's deleter is \<open>ReleaseObject\<close>. The counter is a
  natural number (it has 64 bits).
\<close>

section \<open>Free lists\<close>

fun linked_list :: "(nat \<Rightarrow> nat option) \<Rightarrow> nat option \<Rightarrow> nat list \<Rightarrow> bool" where
  "linked_list nx h [] \<longleftrightarrow> h = None"
| "linked_list nx h (x # xs) \<longleftrightarrow> h = Some x \<and> linked_list nx (nx x) xs"

lemma linked_list_other: "a \<notin> set xs \<Longrightarrow> linked_list (nx(a := b)) h xs = linked_list nx h xs"
  by (induction xs arbitrary: h) auto

lemma linked_list_None [simp]: "linked_list nx None xs \<longleftrightarrow> xs = []"
  by (cases xs) auto

lemma linked_list_Some: "linked_list nx (Some a) xs \<longleftrightarrow> (\<exists>ys. xs = a # ys \<and> linked_list nx (nx a) ys)"
  by (cases xs) auto

section \<open>CCObjectPool\<close>

text \<open>
  In \<open>FindFreeHead\<close> with the loaded head, before the exchange with the next node it read; with the
  result of \<open>GetObject\<close>; in \<open>ReleaseObject\<close> of a node before the store of \<open>next\<close> and before the
  exchange.
\<close>

datatype cp_pc =
  CpIdle | CpLoaded nat "nat option" | CpPop nat nat "nat option" | CpGot "nat option"
| CpStore nat nat "nat option" | CpPush nat nat "nat option"

record cp_state =
  cp_count :: nat
  cp_node :: "nat option"
  cp_next :: "nat \<Rightarrow> nat option"
  cp_capacity :: nat
  cp_out :: "nat set"
  cp_pcs :: "nat \<Rightarrow> cp_pc"

text \<open>The constructor; an empty pool is out of its domain (it writes in front of the arena).\<close>

definition cp_start :: "nat \<Rightarrow> cp_state" where
  "cp_start capacity = \<lparr>cp_count = 0, cp_node = Some 0,
     cp_next = (\<lambda>i. if i + 1 < capacity then Some (i + 1) else None),
     cp_capacity = capacity, cp_out = {}, cp_pcs = (\<lambda>_. CpIdle)\<rparr>"

definition cp_goto :: "nat \<Rightarrow> cp_pc \<Rightarrow> cp_state \<Rightarrow> cp_state" where
  "cp_goto i p s = s\<lparr>cp_pcs := (cp_pcs s)(i := p)\<rparr>"

inductive cp_step :: "nat \<Rightarrow> cp_state \<Rightarrow> cp_state \<Rightarrow> bool" where
  get_object: "cp_pcs s i = CpIdle \<Longrightarrow> cp_step i s (cp_goto i (CpLoaded (cp_count s) (cp_node s)) s)"
| no_node: "cp_pcs s i = CpLoaded c None \<Longrightarrow> cp_step i s (cp_goto i (CpGot None) s)"
| read_next: "cp_pcs s i = CpLoaded c (Some a) \<Longrightarrow> cp_step i s (cp_goto i (CpPop c a (cp_next s a)) s)"
| pop: "cp_pcs s i = CpPop c a n \<Longrightarrow> cp_count s = c \<Longrightarrow> cp_node s = Some a \<Longrightarrow>
    cp_step i s (cp_goto i (CpGot (Some a)) (s\<lparr>cp_count := c + 1, cp_node := n\<rparr>))"
| pop_retry: "cp_pcs s i = CpPop c a n \<Longrightarrow> cp_step i s (cp_goto i (CpLoaded (cp_count s) (cp_node s)) s)"
| got_none: "cp_pcs s i = CpGot None \<Longrightarrow> cp_step i s (cp_goto i CpIdle s)"
| got_object: "cp_pcs s i = CpGot (Some a) \<Longrightarrow> cp_step i s (cp_goto i CpIdle (s\<lparr>cp_out := insert a (cp_out s)\<rparr>))"
| release: "cp_pcs s i = CpIdle \<Longrightarrow> a \<in> cp_out s \<Longrightarrow>
    cp_step i s (cp_goto i (CpStore a (cp_count s) (cp_node s)) (s\<lparr>cp_out := cp_out s - {a}\<rparr>))"
| store_next: "cp_pcs s i = CpStore a c h \<Longrightarrow>
    cp_step i s (cp_goto i (CpPush a c h) (s\<lparr>cp_next := (cp_next s)(a := h)\<rparr>))"
| push: "cp_pcs s i = CpPush a c h \<Longrightarrow> cp_count s = c \<Longrightarrow> cp_node s = h \<Longrightarrow>
    cp_step i s (cp_goto i CpIdle (s\<lparr>cp_count := c + 1, cp_node := Some a\<rparr>))"
| push_retry: "cp_pcs s i = CpPush a c h \<Longrightarrow> cp_step i s (cp_goto i (CpStore a (cp_count s) (cp_node s)) s)"

text \<open>The node a thread has in its hands.\<close>

fun cp_own :: "cp_pc \<Rightarrow> nat option" where
  "cp_own (CpGot r) = r"
| "cp_own (CpStore a c h) = Some a"
| "cp_own (CpPush a c h) = Some a"
| "cp_own _ = None"

text \<open>The counter tells whether the head a thread has loaded is still the head.\<close>

fun cp_pc_ok :: "cp_state \<Rightarrow> cp_pc \<Rightarrow> bool" where
  "cp_pc_ok s (CpLoaded c h) \<longleftrightarrow> c \<le> cp_count s \<and> (c = cp_count s \<longrightarrow> h = cp_node s)"
| "cp_pc_ok s (CpPop c a n) \<longleftrightarrow> c \<le> cp_count s \<and> (c = cp_count s \<longrightarrow> cp_node s = Some a \<and> cp_next s a = n)"
| "cp_pc_ok s (CpPush a c h) \<longleftrightarrow> cp_next s a = h"
| "cp_pc_ok s _ \<longleftrightarrow> True"

text \<open>
  Every node is in the free list, handed out, or in the hands of one thread, and only once.
\<close>

definition one_owner :: "(nat \<Rightarrow> nat option) \<Rightarrow> bool" where
  "one_owner hands \<longleftrightarrow> (\<forall>i j a. hands i = Some a \<longrightarrow> hands j = Some a \<longrightarrow> i = j)"

definition cp_split :: "nat \<Rightarrow> nat list \<Rightarrow> nat set \<Rightarrow> (nat \<Rightarrow> nat option) \<Rightarrow> bool" where
  "cp_split n free out hands \<longleftrightarrow> distinct free \<and> set free \<inter> out = {} \<and> {..<n} = set free \<union> out \<union> ran hands \<and>
     (set free \<union> out) \<inter> ran hands = {} \<and> one_owner hands"

definition cp_hands :: "cp_state \<Rightarrow> nat \<Rightarrow> nat option" where
  "cp_hands s i = cp_own (cp_pcs s i)"

definition cp_parts :: "nat list \<Rightarrow> cp_state \<Rightarrow> bool" where
  "cp_parts free s \<longleftrightarrow> linked_list (cp_next s) (cp_node s) free \<and>
     cp_split (cp_capacity s) free (cp_out s) (cp_hands s)"

lemma ran_hands_take: "h i = None \<Longrightarrow> ran (h(i := Some a)) = insert a (ran h)"
  by (rule ran_map_upd)

lemma ran_hands_give:
  assumes "one_owner h" and "h i = Some a"
  shows "ran (h(i := None)) = ran h - {a}"
proof -
  have "x \<in> ran (h(i := None)) \<longleftrightarrow> x \<in> ran h - {a}" for x
  proof
    assume "x \<in> ran (h(i := None))"
    then obtain j where j: "(h(i := None)) j = Some x" by (auto simp: ran_def)
    then have "j \<noteq> i" and "h j = Some x" by (auto split: if_splits)
    with assms show "x \<in> ran h - {a}" by (auto simp: one_owner_def intro: ranI)
  next
    assume "x \<in> ran h - {a}"
    then obtain j where "h j = Some x" and "x \<noteq> a" by (auto simp: ran_def)
    with assms(2) have "(h(i := None)) j = Some x" by auto
    then show "x \<in> ran (h(i := None))" by (rule ranI)
  qed
  then show ?thesis by blast
qed

lemma one_owner_take: "one_owner h \<Longrightarrow> a \<notin> ran h \<Longrightarrow> one_owner (h(i := Some a))"
  by (auto simp: one_owner_def ran_def)

lemma one_owner_give: "one_owner h \<Longrightarrow> one_owner (h(i := None))"
  by (auto simp: one_owner_def)

lemma cp_split_pop:
  "cp_split n (a # free) out h \<Longrightarrow> h i = None \<Longrightarrow> cp_split n free out (h(i := Some a))"
  unfolding cp_split_def by (auto simp: ran_hands_take intro!: one_owner_take)

lemma cp_split_push:
  "cp_split n free out h \<Longrightarrow> h i = Some a \<Longrightarrow> cp_split n (a # free) out (h(i := None))"
  unfolding cp_split_def using ranI [of h i a] by (auto simp: ran_hands_give one_owner_give)

lemma cp_split_hand_over:
  "cp_split n free out h \<Longrightarrow> h i = Some a \<Longrightarrow> cp_split n free (insert a out) (h(i := None))"
  unfolding cp_split_def using ranI [of h i a] by (auto simp: ran_hands_give one_owner_give)

lemma cp_split_take_back:
  "cp_split n free out h \<Longrightarrow> a \<in> out \<Longrightarrow> h i = None \<Longrightarrow> cp_split n free (out - {a}) (h(i := Some a))"
  unfolding cp_split_def by (auto simp: ran_hands_take intro!: one_owner_take)

definition cp_inv :: "cp_state \<Rightarrow> bool" where
  "cp_inv s \<longleftrightarrow> (\<exists>free. cp_parts free s) \<and> (\<forall>i. cp_pc_ok s (cp_pcs s i))"

lemma cp_goto_simps [simp]:
  "cp_count (cp_goto i p s) = cp_count s" "cp_node (cp_goto i p s) = cp_node s"
  "cp_next (cp_goto i p s) = cp_next s" "cp_capacity (cp_goto i p s) = cp_capacity s"
  "cp_out (cp_goto i p s) = cp_out s" "cp_pcs (cp_goto i p s) = (cp_pcs s)(i := p)"
  "cp_hands (cp_goto i p s) = (cp_hands s)(i := cp_own p)"
  by (auto simp: cp_goto_def cp_hands_def fun_eq_iff)

lemma cp_hands_simps [simp]:
  "cp_hands (s\<lparr>cp_count := c, cp_node := h\<rparr>) = cp_hands s" "cp_hands (s\<lparr>cp_out := out\<rparr>) = cp_hands s"
  "cp_hands (s\<lparr>cp_next := nx\<rparr>) = cp_hands s"
  by (simp_all add: cp_hands_def fun_eq_iff)

lemma cp_pc_ok_goto [simp]: "cp_pc_ok (cp_goto i p s) q = cp_pc_ok s q"
  by (cases q) simp_all

text \<open>A step that moves a thread without touching the nodes keeps the parts.\<close>

lemma cp_parts_goto:
  "cp_parts free s \<Longrightarrow> cp_own p = cp_own (cp_pcs s i) \<Longrightarrow> cp_parts free (cp_goto i p s)"
  by (simp add: cp_parts_def) (simp add: cp_hands_def fun_upd_idem)

lemma cp_inv_goto:
  "cp_inv s \<Longrightarrow> cp_own p = cp_own (cp_pcs s i) \<Longrightarrow> cp_pc_ok s p \<Longrightarrow> cp_inv (cp_goto i p s)"
  using cp_parts_goto [of _ s p i] by (auto simp: cp_inv_def)

lemma cp_pc_ok_new_head:
  "cp_pc_ok s p \<Longrightarrow> cp_pc_ok (s\<lparr>cp_count := cp_count s + 1, cp_node := h\<rparr>) p"
  by (cases p) auto

lemma cp_pc_ok_out: "cp_pc_ok (s\<lparr>cp_out := out\<rparr>) p = cp_pc_ok s p"
  by (cases p) auto

text \<open>Storing the next node of an owned node is invisible to everyone else.\<close>

lemma cp_pc_ok_store:
  assumes "cp_parts free s" and "cp_own (cp_pcs s i) = Some a" and "cp_pc_ok s p" and "cp_own p \<noteq> Some a"
  shows "cp_pc_ok (s\<lparr>cp_next := (cp_next s)(a := h)\<rparr>) p"
proof -
  have "a \<notin> set free" using assms(1,2) by (auto simp: cp_parts_def cp_split_def cp_hands_def ran_def)
  moreover have "b \<in> set free" if "cp_node s = Some b" for b
    using assms(1) that by (cases free) (auto simp: cp_parts_def)
  ultimately show ?thesis using assms(3,4) by (cases p) auto
qed

lemma cp_inv_pop:
  assumes inv: "cp_inv s" and pc: "cp_pcs s i = CpPop c a n" and head: "cp_count s = c" "cp_node s = Some a"
  shows "cp_inv (cp_goto i (CpGot (Some a)) (s\<lparr>cp_count := c + 1, cp_node := n\<rparr>))"
proof -
  have n: "cp_next s a = n" using inv pc head by (auto simp: cp_inv_def dest!: spec [of _ i])
  from inv obtain free where parts: "cp_parts free s" by (auto simp: cp_inv_def)
  then obtain free' where free: "free = a # free'" and list: "linked_list (cp_next s) n free'"
    using head n by (auto simp: cp_parts_def linked_list_Some)
  have "cp_hands s i = None" using pc by (simp add: cp_hands_def)
  then have "cp_parts free' (cp_goto i (CpGot (Some a)) (s\<lparr>cp_count := c + 1, cp_node := n\<rparr>))"
    using parts list unfolding free cp_parts_def by (simp add: cp_split_pop)
  moreover have "cp_pc_ok (s\<lparr>cp_count := c + 1, cp_node := n\<rparr>) (cp_pcs s j)" for j
    using inv cp_pc_ok_new_head [of s "cp_pcs s j" n] head by (simp add: cp_inv_def)
  ultimately show ?thesis by (auto simp: cp_inv_def)
qed

lemma cp_inv_push:
  assumes inv: "cp_inv s" and pc: "cp_pcs s i = CpPush a c h" and head: "cp_count s = c" "cp_node s = h"
  shows "cp_inv (cp_goto i CpIdle (s\<lparr>cp_count := c + 1, cp_node := Some a\<rparr>))"
proof -
  have n: "cp_next s a = h" using inv pc by (auto simp: cp_inv_def dest!: spec [of _ i])
  from inv obtain free where parts: "cp_parts free s" by (auto simp: cp_inv_def)
  have own: "cp_hands s i = Some a" using pc by (simp add: cp_hands_def)
  then have "cp_parts (a # free) (cp_goto i CpIdle (s\<lparr>cp_count := c + 1, cp_node := Some a\<rparr>))"
    using parts n head unfolding cp_parts_def by (simp add: cp_split_push)
  moreover have "cp_pc_ok (s\<lparr>cp_count := c + 1, cp_node := Some a\<rparr>) (cp_pcs s j)" for j
    using inv cp_pc_ok_new_head [of s "cp_pcs s j" "Some a"] head by (simp add: cp_inv_def)
  ultimately show ?thesis by (auto simp: cp_inv_def)
qed

lemma cp_inv_store:
  assumes inv: "cp_inv s" and pc: "cp_pcs s i = CpStore a c h"
  shows "cp_inv (cp_goto i (CpPush a c h) (s\<lparr>cp_next := (cp_next s)(a := h)\<rparr>))"
proof -
  from inv obtain free where parts: "cp_parts free s" by (auto simp: cp_inv_def)
  have own: "cp_own (cp_pcs s i) = Some a" using pc by simp
  then have "a \<notin> set free" using parts by (auto simp: cp_parts_def cp_split_def cp_hands_def ran_def)
  moreover have "(cp_hands s)(i := Some a) = cp_hands s" using own by (auto simp: cp_hands_def)
  ultimately have "cp_parts free (cp_goto i (CpPush a c h) (s\<lparr>cp_next := (cp_next s)(a := h)\<rparr>))"
    using parts unfolding cp_parts_def by (simp add: linked_list_other)
  moreover have "cp_pc_ok (s\<lparr>cp_next := (cp_next s)(a := h)\<rparr>) (cp_pcs s j)" if "j \<noteq> i" for j
  proof (rule cp_pc_ok_store [OF parts own])
    show "cp_pc_ok s (cp_pcs s j)" using inv by (simp add: cp_inv_def)
    show "cp_own (cp_pcs s j) \<noteq> Some a"
      using parts own that by (auto simp: cp_parts_def cp_split_def cp_hands_def one_owner_def)
  qed
  ultimately show ?thesis by (auto simp: cp_inv_def)
qed

lemma cp_inv_hand_over:
  assumes inv: "cp_inv s" and pc: "cp_own (cp_pcs s i) = Some a" and p: "cp_own p = None" "cp_pc_ok s p"
  shows "cp_inv (cp_goto i p (s\<lparr>cp_out := insert a (cp_out s)\<rparr>))"
proof -
  from inv obtain free where parts: "cp_parts free s" by (auto simp: cp_inv_def)
  then have "cp_parts free (cp_goto i p (s\<lparr>cp_out := insert a (cp_out s)\<rparr>))"
    using pc p unfolding cp_parts_def by (simp add: cp_split_hand_over cp_hands_def [of s i])
  with inv p show ?thesis by (auto simp: cp_inv_def cp_pc_ok_out)
qed

lemma cp_inv_take_back:
  assumes inv: "cp_inv s" and out: "a \<in> cp_out s" and pc: "cp_own (cp_pcs s i) = None"
    and p: "cp_own p = Some a" "cp_pc_ok s p"
  shows "cp_inv (cp_goto i p (s\<lparr>cp_out := cp_out s - {a}\<rparr>))"
proof -
  from inv obtain free where parts: "cp_parts free s" by (auto simp: cp_inv_def)
  then have "cp_parts free (cp_goto i p (s\<lparr>cp_out := cp_out s - {a}\<rparr>))"
    using pc p out unfolding cp_parts_def by (simp add: cp_split_take_back cp_hands_def [of s i])
  with inv p show ?thesis by (auto simp: cp_inv_def cp_pc_ok_out)
qed

lemma cp_inv_step:
  assumes inv: "cp_inv s" and "cp_step i s t"
  shows "cp_inv t"
proof -
  have pc: "cp_pc_ok s (cp_pcs s i)" using inv by (simp add: cp_inv_def)
  note move = cp_inv_goto [OF inv, of _ i]
  from assms(2) show ?thesis
  proof cases
    case (pop c a n)
    from cp_inv_pop [OF inv pop(2-4)] show ?thesis by (simp only: pop(1))
  next
    case (push a c h)
    from cp_inv_push [OF inv push(2-4)] show ?thesis by (simp only: push(1))
  next
    case (store_next a c h)
    from cp_inv_store [OF inv store_next(2)] show ?thesis by (simp only: store_next(1))
  next
    case (got_object a)
    then show ?thesis using cp_inv_hand_over [OF inv, of i a CpIdle] by simp
  next
    case (release a)
    then show ?thesis using cp_inv_take_back [OF inv release(3), of i "CpStore a (cp_count s) (cp_node s)"] by simp
  qed (use pc in \<open>auto intro!: move\<close>)
qed

text \<open>The arena the constructor links.\<close>

lemma linked_list_arena:
  "k \<le> n \<Longrightarrow> linked_list (\<lambda>i. if i + 1 < n then Some (i + 1) else None) (if k < n then Some k else None) [k..<n]"
proof (induction "n - k" arbitrary: k)
  case (Suc d)
  then have "k < n" by simp
  with Suc.hyps(1) [of "k + 1"] Suc.hyps(2) Suc.prems show ?case by (simp add: upt_conv_Cons)
qed simp

lemma cp_parts_start: "0 < n \<Longrightarrow> cp_parts [0..<n] (cp_start n)"
  using linked_list_arena [of 0 n] by (auto simp: cp_parts_def cp_split_def cp_start_def cp_hands_def one_owner_def ran_def)

lemma cp_inv_reachable:
  assumes "reachable cp_step (cp_start n) s" and "0 < n"
  shows "cp_inv s"
  using assms(1)
proof (induction rule: reachable_invariant)
  case start
  have "cp_pc_ok (cp_start n) (cp_pcs (cp_start n) i)" for i by (simp add: cp_start_def)
  with cp_parts_start [OF assms(2)] show ?case by (auto simp: cp_inv_def)
qed (rule cp_inv_step)


text \<open>C16. The concurrent pool lends a node to one holder at a time: in every interleaving of \<open>GetObject\<close> and
  \<open>ReleaseObject\<close> each node of the arena is in the free list, lent, or in the hands of exactly one
  thread, and a call that comes back without an object had found the free list empty.\<close>

theorem concurrent_pool_exclusive:
  assumes "reachable cp_step (cp_start n) s" and "0 < n"
  shows "\<exists>free. linked_list (cp_next s) (cp_node s) free \<and> cp_split n free (cp_out s) (cp_hands s) \<and>
    (\<forall>i a. cp_hands s i = Some a \<longrightarrow> a < n \<and> a \<notin> set free \<and> a \<notin> cp_out s \<and> (\<forall>j. j \<noteq> i \<longrightarrow> cp_hands s j \<noteq> Some a)) \<and>
    (\<forall>i t. cp_pcs s i = CpIdle \<longrightarrow> cp_step i s t \<longrightarrow> (\<exists>c. cp_pcs t i = CpLoaded c None) \<longrightarrow> free = [])"
proof -
  have "cp_capacity s = n" using assms(1)
  proof (induction rule: reachable_invariant)
    case (step i s t)
    from step(2,1) show ?case by cases simp_all
  qed (simp add: cp_start_def)
  with cp_inv_reachable [OF assms] obtain free where
    list: "linked_list (cp_next s) (cp_node s) free" and split: "cp_split n free (cp_out s) (cp_hands s)"
    by (auto simp: cp_inv_def cp_parts_def)
  have "a < n \<and> a \<notin> set free \<and> a \<notin> cp_out s \<and> (\<forall>j. j \<noteq> i \<longrightarrow> cp_hands s j \<noteq> Some a)" if "cp_hands s i = Some a" for i a
    using split ranI [of "cp_hands s", OF that] that by (auto simp: cp_split_def one_owner_def)
  moreover have "free = []" if "cp_pcs s i = CpIdle" "cp_step i s t" "cp_pcs t i = CpLoaded c None" for i t c
    using that(2,1,3) list by cases auto
  ultimately show ?thesis using list split by blast
qed

theorem concurrent_pool_exclusive_witness:
  "\<exists>free. cp_split 2 free {} (cp_hands (cp_goto 0 (CpGot (Some 0)) (cp_start 2\<lparr>cp_count := 1, cp_node := Some 1\<rparr>)))"
proof -
  let ?s = "\<lambda>p. cp_goto 0 p (cp_start 2)"
  have "cp_step 0 (cp_start 2) (?s (CpLoaded 0 (Some 0)))"
    using cp_step.get_object [of "cp_start 2" 0] by (simp add: cp_start_def)
  with reachable.start have "reachable cp_step (cp_start 2) (?s (CpLoaded 0 (Some 0)))" by (rule reachable.step)
  moreover have "cp_step 0 (?s (CpLoaded 0 (Some 0))) (?s (CpPop 0 0 (Some 1)))"
    using cp_step.read_next [of "?s (CpLoaded 0 (Some 0))" 0 0 0] by (simp add: cp_start_def cp_goto_def)
  ultimately have "reachable cp_step (cp_start 2) (?s (CpPop 0 0 (Some 1)))" by (rule reachable.step)
  moreover have "cp_step 0 (?s (CpPop 0 0 (Some 1)))
      (cp_goto 0 (CpGot (Some 0)) (cp_start 2\<lparr>cp_count := 1, cp_node := Some 1\<rparr>))"
    using cp_step.pop [of "?s (CpPop 0 0 (Some 1))" 0 0 0 "Some 1"] by (simp add: cp_start_def cp_goto_def)
  ultimately have "reachable cp_step (cp_start 2)
      (cp_goto 0 (CpGot (Some 0)) (cp_start 2\<lparr>cp_count := 1, cp_node := Some 1\<rparr>))" by (rule reachable.step)
  from concurrent_pool_exclusive [OF this] show ?thesis by (auto simp: cp_start_def)
qed

section \<open>Pools used by one thread\<close>

datatype pool_op = Obtain | Drop nat

text \<open>A run of a pool: \<open>Obtain\<close> asks for an object, \<open>Drop k\<close> lets the k-th object one has go.\<close>

fun pool_run :: "('p \<Rightarrow> nat option \<times> 'p) \<Rightarrow> (nat \<Rightarrow> 'p \<Rightarrow> 'p) \<Rightarrow> pool_op list \<Rightarrow> 'p \<times> nat list \<Rightarrow> 'p \<times> nat list" where
  "pool_run get release [] st = st"
| "pool_run get release (Obtain # ops) (p, out) =
     (case get p of (None, p') \<Rightarrow> pool_run get release ops (p', out)
      | (Some a, p') \<Rightarrow> pool_run get release ops (p', a # out))"
| "pool_run get release (Drop k # ops) (p, out) =
     (if k < length out then pool_run get release ops (release (out ! k) p, take k out @ drop (Suc k) out)
      else pool_run get release ops (p, out))"

locale object_pool =
  fixes get :: "'p \<Rightarrow> nat option \<times> 'p"
    and release :: "nat \<Rightarrow> 'p \<Rightarrow> 'p"
    and free :: "'p \<Rightarrow> nat list \<Rightarrow> bool"
  assumes get_law: "free p xs \<Longrightarrow> \<exists>p'. get p = (case xs of [] \<Rightarrow> None | a # as \<Rightarrow> Some a, p') \<and> free p' (tl xs)"
    and release_law: "free p xs \<Longrightarrow> a \<notin> set xs \<Longrightarrow> free (release a p) (a # xs)"
begin

lemma run_splits:
  assumes "free p xs" and "distinct (xs @ out)"
  shows "\<exists>p' xs' out'. pool_run get release ops (p, out) = (p', out') \<and> free p' xs' \<and>
    mset xs' + mset out' = mset xs + mset out"
  using assms
proof (induction ops arbitrary: p xs out)
  case (Cons x ops)
  show ?case
  proof (cases x)
    case Obtain
    from get_law [OF Cons.prems(1)] obtain p1 where
      p1: "get p = (case xs of [] \<Rightarrow> None | a # as \<Rightarrow> Some a, p1)" "free p1 (tl xs)" by blast
    show ?thesis
    proof (cases xs)
      case Nil
      with p1 Cons.IH [of p1 "[]" out] Cons.prems(2) show ?thesis by (simp add: Obtain)
    next
      case (Cons a as)
      with p1 Cons.IH [of p1 as "a # out"] Cons.prems(2) show ?thesis by (simp add: Obtain)
    qed
  next
    case (Drop k)
    show ?thesis
    proof (cases "k < length out")
      case True
      obtain pre y post where out: "out = pre @ y # post" and k: "length pre = k"
        using id_take_nth_drop [OF True] True by (metis length_take min.absorb4)
      from Cons.prems(2) have "distinct ((y # xs) @ pre @ post)" by (auto simp: out)
      moreover from this have "free (release y p) (y # xs)" using Cons.prems(1) by (simp add: release_law)
      ultimately show ?thesis
        using Cons.IH [of "release y p" "y # xs" "pre @ post"] k by (auto simp: Drop out nth_append)
    next
      case False
      with Cons.IH [OF Cons.prems] show ?thesis by (simp add: Drop)
    qed
  qed
qed auto

lemma run_lends_once:
  assumes "free p xs" and "distinct xs" and "pool_run get release ops (p, []) = (q, out)"
  shows "distinct out" and "set out \<subseteq> set xs" and "fst (get q) = None \<longleftrightarrow> length out = length xs"
proof -
  from run_splits [of p xs "[]" ops] assms obtain xs' where
    xs': "free q xs'" "mset xs' + mset out = mset xs" by auto
  then have m: "mset (xs' @ out) = mset xs" by simp
  with assms(2) have d: "distinct (xs' @ out)" by (metis mset_eq_imp_distinct_iff)
  then show "distinct out" by simp
  from m show "set out \<subseteq> set xs" by (metis Un_upper2 set_append set_mset_mset)
  from m have "length xs' + length out = length xs" by (metis length_append mset_eq_length)
  moreover from get_law [OF xs'(1)] have "fst (get q) = None \<longleftrightarrow> xs' = []" by (auto split: list.splits)
  ultimately show "fst (get q) = None \<longleftrightarrow> length out = length xs" by auto
qed

end

record op_state =
  op_num_objects :: nat
  op_next :: "nat \<Rightarrow> nat option"
  op_free_head :: "nat option"

definition op_release :: "nat \<Rightarrow> op_state \<Rightarrow> op_state" where
  "op_release a p = p\<lparr>op_next := (op_next p)(a := op_free_head p), op_free_head := Some a\<rparr>"

text \<open>The constructor pushes the nodes of the arena in their order.\<close>

definition op_new :: "nat \<Rightarrow> op_state" where
  "op_new num_objects = fold op_release [0..<num_objects]
     \<lparr>op_num_objects = num_objects, op_next = (\<lambda>_. None), op_free_head = None\<rparr>"

definition op_get :: "op_state \<Rightarrow> nat option \<times> op_state" where
  "op_get p = (case op_free_head p of None \<Rightarrow> (None, p) | Some a \<Rightarrow> (Some a, p\<lparr>op_free_head := op_next p a\<rparr>))"

definition op_free :: "op_state \<Rightarrow> nat list \<Rightarrow> bool" where
  "op_free p xs \<longleftrightarrow> linked_list (op_next p) (op_free_head p) xs"

text \<open>The concurrent pool, its calls run to their end.\<close>

definition cp_get :: "cp_state \<Rightarrow> nat option \<times> cp_state" where
  "cp_get s = (case cp_node s of None \<Rightarrow> (None, s)
     | Some a \<Rightarrow> (Some a, s\<lparr>cp_count := cp_count s + 1, cp_node := cp_next s a\<rparr>))"

definition cp_release :: "nat \<Rightarrow> cp_state \<Rightarrow> cp_state" where
  "cp_release a s = s\<lparr>cp_next := (cp_next s)(a := cp_node s), cp_count := cp_count s + 1, cp_node := Some a\<rparr>"

definition cp_free :: "cp_state \<Rightarrow> nat list \<Rightarrow> bool" where
  "cp_free s xs \<longleftrightarrow> linked_list (cp_next s) (cp_node s) xs"

interpretation op: object_pool op_get op_release op_free
proof
  show "\<exists>p'. op_get p = (case xs of [] \<Rightarrow> None | a # as \<Rightarrow> Some a, p') \<and> op_free p' (tl xs)" if "op_free p xs" for p xs
    using that by (cases xs) (auto simp: op_get_def op_free_def)
qed (simp add: op_release_def op_free_def linked_list_other)

interpretation cp: object_pool cp_get cp_release cp_free
proof
  show "\<exists>p'. cp_get p = (case xs of [] \<Rightarrow> None | a # as \<Rightarrow> Some a, p') \<and> cp_free p' (tl xs)" if "cp_free p xs" for p xs
    using that by (cases xs) (auto simp: cp_get_def cp_free_def)
qed (simp add: cp_release_def cp_free_def linked_list_other)

lemma op_new_free: "op_free (op_new n) (rev [0..<n])"
proof -
  have "op_free (fold op_release [0..<k] p) (rev [0..<k])" if "op_free p []" for k p
    using that by (induction k) (simp_all add: op.release_law)
  then show ?thesis by (simp add: op_new_def op_free_def)
qed

text \<open>Used by one thread, both pools lend every node once: after any sequence of calls the objects one
  has are different nodes of the pool, and the next call finds none exactly if one has them all.\<close>

lemma pools_lend_once:
  assumes "pool_run op_get op_release ops (op_new n, []) = (p, out)" and "0 < m"
    and "pool_run cp_get cp_release ops' (cp_start m, []) = (q, out')"
  shows "distinct out \<and> set out \<subseteq> {..<n} \<and> (fst (op_get p) = None \<longleftrightarrow> length out = n) \<and>
    distinct out' \<and> set out' \<subseteq> {..<m} \<and> (fst (cp_get q) = None \<longleftrightarrow> length out' = m)"
proof -
  have "cp_free (cp_start m) [0..<m]" using cp_parts_start [OF assms(2)] by (simp add: cp_free_def cp_parts_def)
  with op.run_lends_once [OF op_new_free _ assms(1)] cp.run_lends_once [OF _ _ assms(3), of "[0..<m]"]
  show ?thesis by (auto simp: subset_iff)
qed

lemma pools_lend_once_witness:
  "snd (pool_run op_get op_release [Obtain, Obtain, Drop 1, Obtain] (op_new 2, [])) = [1, 0] \<and>
    length (snd (pool_run cp_get cp_release [Obtain, Obtain] (cp_start 1, []))) = 1"
proof -
  have runs: "snd (pool_run op_get op_release [Obtain, Obtain, Drop 1, Obtain] (op_new 2, [])) = [1, 0]"
    by (simp add: op_get_def op_new_def op_release_def numeral_2_eq_2)
  have "fst (cp_get (fst (pool_run cp_get cp_release [Obtain, Obtain] (cp_start 1, [])))) = None"
    by (simp add: cp_get_def cp_start_def)
  with runs show ?thesis
    using pools_lend_once [of "[]" 0 "op_new 0" "[]" 1 "[Obtain, Obtain]"]
    by (auto simp: prod_eq_iff)
qed

end
