(* ===== verification/Shm_Format.thy ===== *)
theory Shm_Format
  imports Role_Warehouse
begin

text \<open>
  What the transport puts into bytes and sizes: the sizes of a shared memory segment
  (\<open>transport/shm/shm_conf.cpp\<close>), the notification of a written block
  (\<open>transport/shm/readable_info.cpp\<close>), identities and endpoints (\<open>transport/common\<close>), and the
  information sent along with a message (\<open>transport/message/message_info.cpp\<close>). The hash of a byte
  string and generated identifiers are parameters; a \<open>char\<close> is a byte.
\<close>

section \<open>ShmConf\<close>

record shm_conf =
  sc_ceiling_msg_size :: u64
  sc_block_buf_size :: u64
  sc_block_num :: u64
  sc_managed_shm_size :: u64

definition EXTRA_SIZE :: u64 where "EXTRA_SIZE = 1024 * 4"
definition STATE_SIZE :: u64 where "STATE_SIZE = 1024"
definition BLOCK_SIZE :: u64 where "BLOCK_SIZE = 1024"
definition MESSAGE_INFO_SIZE :: u64 where "MESSAGE_INFO_SIZE = 1024"
definition BLOCK_NUM_16K :: u32 where "BLOCK_NUM_16K = 512"
definition MESSAGE_SIZE_16K :: u64 where "MESSAGE_SIZE_16K = 1024 * 16"
definition BLOCK_NUM_128K :: u32 where "BLOCK_NUM_128K = 128"
definition MESSAGE_SIZE_128K :: u64 where "MESSAGE_SIZE_128K = 1024 * 128"
definition BLOCK_NUM_1M :: u32 where "BLOCK_NUM_1M = 64"
definition MESSAGE_SIZE_1M :: u64 where "MESSAGE_SIZE_1M = 1024 * 1024"
definition BLOCK_NUM_8M :: u32 where "BLOCK_NUM_8M = 32"
definition MESSAGE_SIZE_8M :: u64 where "MESSAGE_SIZE_8M = 1024 * 1024 * 8"
definition BLOCK_NUM_16M :: u32 where "BLOCK_NUM_16M = 16"
definition MESSAGE_SIZE_16M :: u64 where "MESSAGE_SIZE_16M = 1024 * 1024 * 16"
definition BLOCK_NUM_MORE :: u32 where "BLOCK_NUM_MORE = 8"
definition MESSAGE_SIZE_MORE :: u64 where "MESSAGE_SIZE_MORE = 1024 * 1024 * 32"

lemmas shm_constants = EXTRA_SIZE_def STATE_SIZE_def BLOCK_SIZE_def MESSAGE_INFO_SIZE_def
  BLOCK_NUM_16K_def MESSAGE_SIZE_16K_def BLOCK_NUM_128K_def MESSAGE_SIZE_128K_def BLOCK_NUM_1M_def
  MESSAGE_SIZE_1M_def BLOCK_NUM_8M_def MESSAGE_SIZE_8M_def BLOCK_NUM_16M_def MESSAGE_SIZE_16M_def
  BLOCK_NUM_MORE_def MESSAGE_SIZE_MORE_def

definition get_ceiling_message_size :: "u64 \<Rightarrow> u64" where
  "get_ceiling_message_size real_msg_size =
     (if real_msg_size \<le> MESSAGE_SIZE_16K then MESSAGE_SIZE_16K
      else if real_msg_size \<le> MESSAGE_SIZE_128K then MESSAGE_SIZE_128K
      else if real_msg_size \<le> MESSAGE_SIZE_1M then MESSAGE_SIZE_1M
      else if real_msg_size \<le> MESSAGE_SIZE_8M then MESSAGE_SIZE_8M
      else if real_msg_size \<le> MESSAGE_SIZE_16M then MESSAGE_SIZE_16M
      else MESSAGE_SIZE_MORE)"

definition get_block_buf_size :: "u64 \<Rightarrow> u64" where
  "get_block_buf_size ceiling_msg_size = ceiling_msg_size + MESSAGE_INFO_SIZE"

definition get_block_num :: "u64 \<Rightarrow> u32" where
  "get_block_num ceiling_msg_size =
     (if ceiling_msg_size = MESSAGE_SIZE_16K then BLOCK_NUM_16K
      else if ceiling_msg_size = MESSAGE_SIZE_128K then BLOCK_NUM_128K
      else if ceiling_msg_size = MESSAGE_SIZE_1M then BLOCK_NUM_1M
      else if ceiling_msg_size = MESSAGE_SIZE_8M then BLOCK_NUM_8M
      else if ceiling_msg_size = MESSAGE_SIZE_16M then BLOCK_NUM_16M
      else if ceiling_msg_size = MESSAGE_SIZE_MORE then BLOCK_NUM_MORE
      else 0)"

definition shm_update :: "u64 \<Rightarrow> shm_conf" where
  "shm_update real_msg_size =
     (let ceiling = get_ceiling_message_size real_msg_size; buf = get_block_buf_size ceiling;
          num = ucast (get_block_num ceiling)
      in \<lparr>sc_ceiling_msg_size = ceiling, sc_block_buf_size = buf, sc_block_num = num,
          sc_managed_shm_size = EXTRA_SIZE + STATE_SIZE + (BLOCK_SIZE + buf) * num\<rparr>)"

definition shm_conf_new :: shm_conf where "shm_conf_new = shm_update MESSAGE_SIZE_16K"

text \<open>The six sizes of segment there are.\<close>

lemma ceiling_cases:
  obtains "get_ceiling_message_size n = MESSAGE_SIZE_16K" | "get_ceiling_message_size n = MESSAGE_SIZE_128K"
  | "get_ceiling_message_size n = MESSAGE_SIZE_1M" | "get_ceiling_message_size n = MESSAGE_SIZE_8M"
  | "get_ceiling_message_size n = MESSAGE_SIZE_16M" | "get_ceiling_message_size n = MESSAGE_SIZE_MORE"
proof -
  have "get_ceiling_message_size n \<in> {MESSAGE_SIZE_16K, MESSAGE_SIZE_128K, MESSAGE_SIZE_1M, MESSAGE_SIZE_8M,
      MESSAGE_SIZE_16M, MESSAGE_SIZE_MORE}" by (simp add: get_ceiling_message_size_def)
  with that show thesis by blast
qed

lemma ceiling_idem: "get_ceiling_message_size (get_ceiling_message_size n) = get_ceiling_message_size n"
  by (cases rule: ceiling_cases [of n]) (simp_all add: get_ceiling_message_size_def shm_constants)

lemma ceiling_bound: "n \<le> MESSAGE_SIZE_MORE \<Longrightarrow> n \<le> get_ceiling_message_size n"
  by (auto simp: get_ceiling_message_size_def)

lemma shm_update_cases:
  obtains "sc_block_num (shm_update n) = 512" "sc_block_buf_size (shm_update n) = 17408" "sc_managed_shm_size (shm_update n) = 9442304"
  | "sc_block_num (shm_update n) = 128" "sc_block_buf_size (shm_update n) = 132096" "sc_managed_shm_size (shm_update n) = 17044480"
  | "sc_block_num (shm_update n) = 64" "sc_block_buf_size (shm_update n) = 1049600" "sc_managed_shm_size (shm_update n) = 67245056"
  | "sc_block_num (shm_update n) = 32" "sc_block_buf_size (shm_update n) = 8389632" "sc_managed_shm_size (shm_update n) = 268506112"
  | "sc_block_num (shm_update n) = 16" "sc_block_buf_size (shm_update n) = 16778240" "sc_managed_shm_size (shm_update n) = 268473344"
  | "sc_block_num (shm_update n) = 8" "sc_block_buf_size (shm_update n) = 33555456" "sc_managed_shm_size (shm_update n) = 268456960"
  by (cases rule: ceiling_cases [of n])
    (simp_all add: shm_update_def Let_def get_block_buf_size_def get_block_num_def shm_constants)

text \<open>The sizes of a segment fit: for every message size there is a number of blocks, the layout of
  the state, the blocks and their buffers ends within the memory requested (for a state and a block of at
  most 1024 bytes), no size wraps around, every buffer has room for the largest message of its class and
  the message information behind it, and a message fits its class exactly if it has at most 32 MiB.\<close>

lemma segment_sizes_fit:
  assumes "sizeof_state \<le> 1024" and "sizeof_block \<le> 1024"
  shows "0 < unat (sc_block_num (shm_update n)) \<and>
    sizeof_state + unat (sc_block_num (shm_update n)) * sizeof_block +
      unat (sc_block_num (shm_update n)) * unat (sc_block_buf_size (shm_update n))
      \<le> unat (sc_managed_shm_size (shm_update n)) \<and>
    unat (sc_ceiling_msg_size (shm_update n)) + 24 \<le> unat (sc_block_buf_size (shm_update n)) \<and>
    (n \<le> sc_ceiling_msg_size (shm_update n) \<longleftrightarrow> n \<le> MESSAGE_SIZE_MORE)"
proof (intro conjI)
  show "0 < unat (sc_block_num (shm_update n))" by (cases rule: shm_update_cases [of n]) simp_all
  have le: "sizeof_state + k * sizeof_block \<le> 1024 + k * 1024" for k
    using assms by (intro add_mono mult_le_mono) simp_all
  show "sizeof_state + unat (sc_block_num (shm_update n)) * sizeof_block +
      unat (sc_block_num (shm_update n)) * unat (sc_block_buf_size (shm_update n))
      \<le> unat (sc_managed_shm_size (shm_update n))"
    using le [of 512] le [of 128] le [of 64] le [of 32] le [of 16] le [of 8]
    by (cases rule: shm_update_cases [of n]) simp_all
  show "unat (sc_ceiling_msg_size (shm_update n)) + 24 \<le> unat (sc_block_buf_size (shm_update n))"
    by (cases rule: ceiling_cases [of n]) (simp_all add: shm_update_def Let_def get_block_buf_size_def shm_constants)
  have "get_ceiling_message_size n \<le> MESSAGE_SIZE_MORE"
    by (cases rule: ceiling_cases [of n]) (simp_all add: shm_constants)
  then have "n \<le> MESSAGE_SIZE_MORE" if "n \<le> get_ceiling_message_size n"
    using that by (rule order_trans [rotated])
  then show "n \<le> sc_ceiling_msg_size (shm_update n) \<longleftrightarrow> n \<le> MESSAGE_SIZE_MORE"
    using ceiling_bound [of n] by (auto simp: shm_update_def Let_def)
qed

lemma segment_sizes_fit_witness:
  "24 + 128 * 24 + 128 * 132096 \<le> unat (sc_managed_shm_size (shm_update 100000))"
  using segment_sizes_fit [of 24 24 100000]
  by (simp add: shm_update_def Let_def get_ceiling_message_size_def get_block_buf_size_def get_block_num_def shm_constants)


section \<open>ReadableInfo\<close>

record readable_info =
  ri_host_id :: u64
  ri_block_index :: u32
  ri_channel_id :: u64

definition readable_info_new :: readable_info where
  "readable_info_new = \<lparr>ri_host_id = 0, ri_block_index = 0, ri_channel_id = 0\<rparr>"

definition readable_ksize :: nat where "readable_ksize = 8 * 2 + 4"

definition readable_serialize_to :: "byte_order \<Rightarrow> readable_info \<Rightarrow> byte list" where
  "readable_serialize_to h ri =
     host_bytes h 8 (ri_host_id ri) @ host_bytes h 4 (ri_block_index ri) @ host_bytes h 8 (ri_channel_id ri)"

text \<open>\<open>None\<close> is a null pointer.\<close>

definition readable_deserialize_from :: "byte_order \<Rightarrow> byte list option \<Rightarrow> readable_info \<Rightarrow> bool \<times> readable_info" where
  "readable_deserialize_from h src ri =
     (case src of None \<Rightarrow> (False, ri)
      | Some bs \<Rightarrow>
          if length bs < readable_ksize then (False, ri)
          else (True, \<lparr>ri_host_id = of_host_bytes h (take 8 bs), ri_block_index = of_host_bytes h (take 4 (drop 8 bs)),
                       ri_channel_id = of_host_bytes h (take 8 (drop 12 bs))\<rparr>))"

section \<open>Identities and endpoints\<close>

definition ID_SIZE :: nat where "ID_SIZE = 8"

record identity =
  id_data :: "byte list"
  id_hash_value :: u64

text \<open>\<open>uuid\<close> are the sixteen generated bytes, of which the first eight are kept.\<close>

definition identity_new :: "(byte list \<Rightarrow> u64) \<Rightarrow> byte list option \<Rightarrow> identity" where
  "identity_new hash uuid =
     (case uuid of None \<Rightarrow> \<lparr>id_data = replicate ID_SIZE 0, id_hash_value = 0\<rparr>
      | Some bs \<Rightarrow> \<lparr>id_data = take ID_SIZE bs, id_hash_value = hash (take ID_SIZE bs)\<rparr>)"

definition identity_eq :: "identity \<Rightarrow> identity \<Rightarrow> bool" where
  "identity_eq a b \<longleftrightarrow> id_data a = id_data b"

definition identity_set_data :: "(byte list \<Rightarrow> u64) \<Rightarrow> byte list option \<Rightarrow> identity \<Rightarrow> identity" where
  "identity_set_data hash src a =
     (case src of None \<Rightarrow> a
      | Some bs \<Rightarrow> a\<lparr>id_data := take ID_SIZE bs, id_hash_value := hash (take ID_SIZE bs)\<rparr>)"

text \<open>The identities the code makes: eight bytes and their hash.\<close>

definition identity_ok :: "(byte list \<Rightarrow> u64) \<Rightarrow> identity \<Rightarrow> bool" where
  "identity_ok hash a \<longleftrightarrow> length (id_data a) = ID_SIZE \<and> id_hash_value a = hash (id_data a)"

record endpoint =
  ep_enabled :: bool
  ep_id :: identity
  ep_attr :: role_attributes

definition endpoint_new :: "(byte list \<Rightarrow> u64) \<Rightarrow> byte list \<Rightarrow> string \<Rightarrow> u32 \<Rightarrow> role_attributes \<Rightarrow> endpoint" where
  "endpoint_new hash uuid host pid attr =
     (let i = identity_new hash (Some uuid);
          a1 = (if ra_host_name attr \<noteq> [] then attr\<lparr>ra_host_name := host\<rparr> else attr);
          a2 = (if ra_process_id attr = 0 then a1\<lparr>ra_process_id := pid\<rparr> else a1);
          a3 = (if ra_id attr = 0 then a2\<lparr>ra_id := id_hash_value i\<rparr> else a2)
      in \<lparr>ep_enabled = False, ep_id = i, ep_attr = a3\<rparr>)"

section \<open>MessageInfo\<close>

record message_info =
  mi_sender_id :: identity
  mi_spare_id :: identity
  mi_channel_id :: u64
  mi_seq_num :: u64

definition message_info_new :: "(byte list \<Rightarrow> u64) \<Rightarrow> message_info" where
  "message_info_new hash = \<lparr>mi_sender_id = identity_new hash None, mi_spare_id = identity_new hash None,
     mi_channel_id = 0, mi_seq_num = 0\<rparr>"

definition message_info_eq :: "message_info \<Rightarrow> message_info \<Rightarrow> bool" where
  "message_info_eq a b \<longleftrightarrow> identity_eq (mi_sender_id a) (mi_sender_id b) \<and> mi_channel_id a = mi_channel_id b \<and>
     mi_seq_num a = mi_seq_num b \<and> identity_eq (mi_spare_id a) (mi_spare_id b)"

definition message_info_ksize :: nat where "message_info_ksize = 2 * ID_SIZE + 8"

definition message_info_serialize_to :: "byte_order \<Rightarrow> message_info \<Rightarrow> byte list" where
  "message_info_serialize_to h mi =
     id_data (mi_sender_id mi) @ host_bytes h 8 (mi_seq_num mi) @ id_data (mi_spare_id mi)"

text \<open>The variant that writes into a buffer of \<open>len\<close> bytes at \<open>dst\<close>.\<close>

definition message_info_serialize_into ::
    "byte_order \<Rightarrow> message_info \<Rightarrow> nat \<Rightarrow> byte list option \<Rightarrow> bool \<times> byte list option" where
  "message_info_serialize_into h mi len dst =
     (case dst of None \<Rightarrow> (False, None)
      | Some bs \<Rightarrow> if len < message_info_ksize then (False, Some bs)
          else (True, Some (message_info_serialize_to h mi @ drop message_info_ksize bs)))"

definition message_info_deserialize_from ::
    "(byte list \<Rightarrow> u64) \<Rightarrow> byte_order \<Rightarrow> byte list option \<Rightarrow> message_info \<Rightarrow> bool \<times> message_info" where
  "message_info_deserialize_from hash h src mi =
     (case src of None \<Rightarrow> (False, mi)
      | Some bs \<Rightarrow> if length bs \<noteq> message_info_ksize then (False, mi)
          else (True, mi\<lparr>mi_sender_id := identity_set_data hash (Some bs) (mi_sender_id mi),
                 mi_seq_num := of_host_bytes h (take 8 (drop ID_SIZE bs)),
                 mi_spare_id := identity_set_data hash (Some (drop (ID_SIZE + 8) bs)) (mi_spare_id mi)\<rparr>))"

text \<open>What announces a message survives the trip on every host: a \<open>ReadableInfo\<close> is read back as it was
  written, also with more bytes behind it, and from fewer bytes nothing is read; a \<open>MessageInfo\<close> is read
  back with its sender, spare identity and sequence number, while the channel id, which is not written,
  stays the one the receiving object had.\<close>

lemma announcements_round_trip:
  assumes "identity_ok hash (mi_sender_id mi)" and "identity_ok hash (mi_spare_id mi)"
  shows "readable_deserialize_from h (Some (readable_serialize_to h ri @ rest)) old = (True, ri) \<and>
    (length bs < 20 \<longrightarrow> readable_deserialize_from h (Some bs) old = (False, old)) \<and>
    message_info_deserialize_from hash h (Some (message_info_serialize_to h mi)) mo =
      (True, mi\<lparr>mi_channel_id := mi_channel_id mo\<rparr>)"
proof -
  have "of_host_bytes h (host_bytes h 8 (w :: u64)) = w" for w by (rule of_host_bytes_host_bytes) simp
  moreover have "of_host_bytes h (host_bytes h 4 (w :: u32)) = w" for w by (rule of_host_bytes_host_bytes) simp
  ultimately show ?thesis
    using assms by (auto simp: readable_deserialize_from_def readable_serialize_to_def readable_ksize_def
        message_info_deserialize_from_def message_info_serialize_to_def message_info_ksize_def ID_SIZE_def
        identity_ok_def identity_set_data_def)
qed

definition sample_identity :: identity where
  "sample_identity = identity_new (\<lambda>bs. of_nat (length bs)) (Some [1, 2, 3, 4, 5, 6, 7, 8, 9])"

lemma announcements_round_trip_witness:
  "snd (message_info_deserialize_from (\<lambda>bs. of_nat (length bs)) LittleEndian
      (Some (message_info_serialize_to LittleEndian
        \<lparr>mi_sender_id = sample_identity, mi_spare_id = sample_identity, mi_channel_id = 3, mi_seq_num = 9\<rparr>))
      (message_info_new (\<lambda>bs. of_nat (length bs)))) =
    \<lparr>mi_sender_id = sample_identity, mi_spare_id = sample_identity, mi_channel_id = 0, mi_seq_num = 9\<rparr>"
  using announcements_round_trip [of "\<lambda>bs. of_nat (length bs)"
      "\<lparr>mi_sender_id = sample_identity, mi_spare_id = sample_identity, mi_channel_id = 3, mi_seq_num = 9\<rparr>"]
  by (simp add: sample_identity_def identity_ok_def identity_new_def ID_SIZE_def message_info_new_def)

end
