(* ===== verification/Condition_Notifier.thy ===== *)
theory Condition_Notifier
  imports Shm_Format Interleaving
begin

text \<open>
  The notifier over shared memory, \<open>transport/shm/condition_notifier.cpp\<close>: any number of threads announce
  messages with \<open>Notify\<close> and listen with \<open>Listen\<close>, each step one access to the shared \<open>Indicator\<close>. A
  thread that listens is the one of its process, so \<open>next_seq_\<close> belongs to it. Sequence numbers are
  naturals (\<open>2 ^ 64\<close> announcements); the assignment of a \<open>ReadableInfo\<close> is one step. The last
  three fields of the state are history: what was announced, where a thread started, what it was given.
\<close>

section \<open>Steps\<close>

definition kBufLength :: nat where "kBufLength = 4096"

lemma kBufLength_pos [simp]: "0 < kBufLength"
  by (simp add: kBufLength_def)

datatype nt_pc = NtNone | NtIdle | NtStore nat readable_info | NtMark nat | NtHead int | NtCheck int | NtInfo nat | NtPause int

record nt_state =
  nt_next_seq :: nat
  nt_infos :: "nat \<Rightarrow> readable_info"
  nt_seqs :: "nat \<Rightarrow> nat"
  nt_mine :: "nat \<Rightarrow> nat"
  nt_pcs :: "nat \<Rightarrow> nt_pc"
  nt_sent :: "readable_info list"
  nt_from :: "nat \<Rightarrow> nat"
  nt_got :: "nat \<Rightarrow> readable_info list"

definition nt_start :: nt_state where
  "nt_start = \<lparr>nt_next_seq = 0, nt_infos = (\<lambda>_. readable_info_new), nt_seqs = (\<lambda>_. 0), nt_mine = (\<lambda>_. 0),
     nt_pcs = (\<lambda>_. NtNone), nt_sent = [], nt_from = (\<lambda>_. 0), nt_got = (\<lambda>_. [])\<rparr>"

definition nt_goto :: "nat \<Rightarrow> nt_pc \<Rightarrow> nt_state \<Rightarrow> nt_state" where
  "nt_goto i p s = s\<lparr>nt_pcs := (nt_pcs s)(i := p)\<rparr>"

inductive nt_step :: "nat \<Rightarrow> nt_state \<Rightarrow> nt_state \<Rightarrow> bool" where
  make: "nt_pcs s i = NtNone \<Longrightarrow> nt_step i s (nt_goto i NtIdle (s\<lparr>nt_mine := (nt_mine s)(i := nt_next_seq s),
    nt_from := (nt_from s)(i := nt_next_seq s)\<rparr>))"
| notify: "nt_pcs s i = NtIdle \<Longrightarrow> nt_step i s (nt_goto i (NtStore (nt_next_seq s) v)
    (s\<lparr>nt_next_seq := nt_next_seq s + 1, nt_sent := nt_sent s @ [v]\<rparr>))"
| store: "nt_pcs s i = NtStore k v \<Longrightarrow>
    nt_step i s (nt_goto i (NtMark k) (s\<lparr>nt_infos := (nt_infos s)(k mod kBufLength := v)\<rparr>))"
| mark: "nt_pcs s i = NtMark k \<Longrightarrow>
    nt_step i s (nt_goto i NtIdle (s\<lparr>nt_seqs := (nt_seqs s)(k mod kBufLength := k)\<rparr>))"
| listen: "nt_pcs s i = NtIdle \<Longrightarrow> nt_step i s (nt_goto i (NtHead (timeout_ms * 1000)) s)"
| nothing: "nt_pcs s i = NtHead u \<Longrightarrow> nt_next_seq s = nt_mine s i \<Longrightarrow> nt_step i s (nt_goto i (NtPause u) s)"
| something: "nt_pcs s i = NtHead u \<Longrightarrow> nt_next_seq s \<noteq> nt_mine s i \<Longrightarrow> nt_step i s (nt_goto i (NtCheck u) s)"
| ready: "nt_pcs s i = NtCheck u \<Longrightarrow> idx = nt_mine s i mod kBufLength \<Longrightarrow> nt_mine s i \<le> nt_seqs s idx \<Longrightarrow>
    nt_step i s (nt_goto i (NtInfo idx) (s\<lparr>nt_mine := (nt_mine s)(i := nt_seqs s idx)\<rparr>))"
| writing: "nt_pcs s i = NtCheck u \<Longrightarrow> nt_seqs s (nt_mine s i mod kBufLength) < nt_mine s i \<Longrightarrow>
    nt_step i s (nt_goto i (NtPause u) s)"
| take: "nt_pcs s i = NtInfo idx \<Longrightarrow> nt_step i s (nt_goto i NtIdle
    (s\<lparr>nt_mine := (nt_mine s)(i := nt_mine s i + 1), nt_got := (nt_got s)(i := nt_got s i @ [nt_infos s idx])\<rparr>))"
| pause: "nt_pcs s i = NtPause u \<Longrightarrow> 0 < u \<Longrightarrow> nt_step i s (nt_goto i (NtHead (u - 50)) s)"
| give_up: "nt_pcs s i = NtPause u \<Longrightarrow> \<not> 0 < u \<Longrightarrow> nt_step i s (nt_goto i NtIdle s)"

lemma nt_goto_simps [simp]:
  "nt_next_seq (nt_goto i p s) = nt_next_seq s" "nt_infos (nt_goto i p s) = nt_infos s" "nt_seqs (nt_goto i p s) = nt_seqs s"
  "nt_mine (nt_goto i p s) = nt_mine s" "nt_pcs (nt_goto i p s) = (nt_pcs s)(i := p)" "nt_sent (nt_goto i p s) = nt_sent s"
  "nt_from (nt_goto i p s) = nt_from s" "nt_got (nt_goto i p s) = nt_got s"
  by (simp_all add: nt_goto_def)

section \<open>The ring while nobody is overtaken\<close>

text \<open>The sequence number a thread has drawn and not yet marked.\<close>

fun nt_pending :: "nt_pc \<Rightarrow> nat option" where
  "nt_pending (NtStore k v) = Some k"
| "nt_pending (NtMark k) = Some k"
| "nt_pending _ = None"

text \<open>Steps after which no \<open>Notify\<close> is a whole ring behind, nor is the listener \<open>r\<close>.\<close>

definition nt_paced :: "nat \<Rightarrow> nat \<Rightarrow> nt_state \<Rightarrow> nt_state \<Rightarrow> bool" where
  "nt_paced r i s t \<longleftrightarrow> nt_step i s t \<and> nt_next_seq t \<le> nt_mine t r + kBufLength \<and>
     (\<forall>j k. nt_pending (nt_pcs t j) = Some k \<longrightarrow> nt_next_seq t \<le> k + kBufLength)"

lemma same_slot:
  fixes k k' c m :: nat
  assumes "k mod m = k' mod m" and "k < c" and "c \<le> k + m" and "k' < c" and "c \<le> k' + m"
  shows "k = k'"
proof -
  have *: "a = b" if "a mod m = b mod m" "a \<le> b" "b < a + m" for a b :: nat
  proof -
    from that(1,2) have "m dvd b - a" by (metis mod_eq_dvd_iff_nat)
    with that(2,3) show ?thesis by (auto dest: dvd_imp_le)
  qed
  show ?thesis using * [of k k'] * [of k' k] assms by (cases k k' rule: le_cases) auto
qed

definition nt_ring :: "nt_state \<Rightarrow> bool" where
  "nt_ring s \<longleftrightarrow> length (nt_sent s) = nt_next_seq s \<and>
     (\<forall>j k v. nt_pcs s j = NtStore k v \<longrightarrow> v = nt_sent s ! k) \<and>
     (\<forall>j k. nt_pcs s j = NtMark k \<longrightarrow> nt_infos s (k mod kBufLength) = nt_sent s ! k) \<and>
     (\<forall>j k. nt_pending (nt_pcs s j) = Some k \<longrightarrow> k < nt_next_seq s \<and> nt_next_seq s \<le> k + kBufLength \<and>
        nt_seqs s (k mod kBufLength) = k - kBufLength) \<and>
     (\<forall>j j' k. nt_pending (nt_pcs s j) = Some k \<longrightarrow> nt_pending (nt_pcs s j') = Some k \<longrightarrow> j = j') \<and>
     (\<forall>k. k < nt_next_seq s \<longrightarrow> nt_next_seq s \<le> k + kBufLength \<longrightarrow> (\<exists>j. nt_pending (nt_pcs s j) = Some k) \<or>
        (nt_seqs s (k mod kBufLength) = k \<and> nt_infos s (k mod kBufLength) = nt_sent s ! k)) \<and>
     (\<forall>k. nt_next_seq s \<le> k \<longrightarrow> k < kBufLength \<longrightarrow> nt_seqs s k = 0)"

definition nt_listener :: "nat \<Rightarrow> nt_state \<Rightarrow> bool" where
  "nt_listener r s \<longleftrightarrow> nt_from s r \<le> nt_mine s r \<and> nt_mine s r \<le> nt_next_seq s \<and>
     nt_next_seq s \<le> nt_mine s r + kBufLength \<and>
     (\<forall>u. nt_pcs s r = NtCheck u \<longrightarrow> nt_mine s r < nt_next_seq s) \<and>
     (\<forall>idx. nt_pcs s r = NtInfo idx \<longrightarrow> nt_mine s r < nt_next_seq s \<and> idx = nt_mine s r mod kBufLength \<and>
        (0 < nt_mine s r \<longrightarrow> (\<nexists>j. nt_pending (nt_pcs s j) = Some (nt_mine s r)))) \<and>
     length (nt_got s r) = nt_mine s r - nt_from s r \<and>
     (\<forall>x < length (nt_got s r). 0 < nt_from s r + x \<longrightarrow> nt_got s r ! x = nt_sent s ! (nt_from s r + x))"


lemma nt_ringD:
  assumes "nt_ring s"
  shows "length (nt_sent s) = nt_next_seq s" and "nt_pcs s j = NtStore k v \<Longrightarrow> v = nt_sent s ! k"
    and "nt_pcs s j = NtMark k \<Longrightarrow> nt_infos s (k mod kBufLength) = nt_sent s ! k"
    and "nt_pending (nt_pcs s j) = Some k \<Longrightarrow> k < nt_next_seq s"
    and "nt_pending (nt_pcs s j) = Some k \<Longrightarrow> nt_next_seq s \<le> k + kBufLength"
    and "nt_pending (nt_pcs s j) = Some k \<Longrightarrow> nt_seqs s (k mod kBufLength) = k - kBufLength"
    and "nt_pending (nt_pcs s j) = Some k \<Longrightarrow> nt_pending (nt_pcs s j') = Some k \<Longrightarrow> j = j'"
    and "k < nt_next_seq s \<Longrightarrow> nt_next_seq s \<le> k + kBufLength \<Longrightarrow> \<nexists>j. nt_pending (nt_pcs s j) = Some k \<Longrightarrow>
      nt_seqs s (k mod kBufLength) = k \<and> nt_infos s (k mod kBufLength) = nt_sent s ! k"
    and "nt_next_seq s \<le> k \<Longrightarrow> k < kBufLength \<Longrightarrow> nt_seqs s k = 0"
  using assms unfolding nt_ring_def by blast+

text \<open>Two pending numbers, or a pending and a current one, have different places in the ring.\<close>

lemma nt_ring_place:
  assumes "nt_ring s" and "nt_pending (nt_pcs s j) = Some k" and "k' < nt_next_seq s" and "nt_next_seq s \<le> k' + kBufLength"
    and "k' mod kBufLength = k mod kBufLength"
  shows "k' = k"
  using same_slot [OF assms(5,3,4)] nt_ringD(4,5) [OF assms(1,2)] by simp

lemma nt_ring_quiet:
  assumes "nt_ring s" and "nt_pending (nt_pcs s i) = None" and "nt_pending p = None"
    and "nt_next_seq t = nt_next_seq s" "nt_infos t = nt_infos s" "nt_seqs t = nt_seqs s" "nt_sent t = nt_sent s"
      "nt_pcs t = (nt_pcs s)(i := p)"
  shows "nt_ring t"
proof -
  have same: "nt_pending (nt_pcs t j) = Some k \<longleftrightarrow> nt_pending (nt_pcs s j) = Some k" for j k
    using assms(2,3,8) by auto
  have store: "nt_pcs s j = NtStore k v" if "nt_pcs t j = NtStore k v" for j k v
    using that assms(3,8) by (cases "j = i") auto
  have mark: "nt_pcs s j = NtMark k" if "nt_pcs t j = NtMark k" for j k
    using that assms(3,8) by (cases "j = i") auto
  note ring = nt_ringD [OF assms(1)]
  show ?thesis unfolding nt_ring_def same assms(4-7)
    using ring(1) ring(2) [OF store] ring(3) [OF mark] ring(4-9) by (intro conjI allI impI) blast+
qed

lemma nt_ring_notify:
  assumes ring: "nt_ring s" and idle: "nt_pcs s i = NtIdle"
    and pace: "\<And>j k. nt_pending (nt_pcs s j) = Some k \<Longrightarrow> nt_next_seq s + 1 \<le> k + kBufLength"
  shows "nt_ring (nt_goto i (NtStore (nt_next_seq s) v) (s\<lparr>nt_next_seq := nt_next_seq s + 1, nt_sent := nt_sent s @ [v]\<rparr>))"
    (is "nt_ring ?t")
proof -
  let ?c = "nt_next_seq s"
  note R = nt_ringD [OF ring]
  have pend: "nt_pending (nt_pcs ?t j) = (if j = i then Some ?c else nt_pending (nt_pcs s j))" for j by simp
  have i: "nt_pending (nt_pcs s i) = None" using idle by simp
  have old: "(nt_sent s @ [v]) ! k = nt_sent s ! k" if "k < ?c" for k using that R(1) by (simp add: nth_append)
  have slot: "nt_seqs s (?c mod kBufLength) = ?c - kBufLength"
  proof (cases "?c < kBufLength")
    case True
    then show ?thesis using R(9) [of ?c] by simp
  next
    case False
    then have "\<nexists>j. nt_pending (nt_pcs s j) = Some (?c - kBufLength)" using pace by fastforce
    moreover have "?c - kBufLength < ?c" using False kBufLength_pos by linarith
    ultimately show ?thesis using R(8) [of "?c - kBufLength"] False by (simp add: le_mod_geq)
  qed
  show ?thesis unfolding nt_ring_def
  proof (intro conjI allI impI, goal_cases)
    case (2 j k v') then show ?case using R(1,2,4) old by (cases "j = i") (auto, metis nt_pending.simps(1))
  next
    case (3 j k) then show ?case using R(3,4) old by (cases "j = i") (auto, metis nt_pending.simps(2))
  next
    case (4 j k) then show ?case using R(4) by (auto simp: less_SucI split: if_splits)
  next
    case (5 j k) then show ?case using pace kBufLength_pos by (auto simp: Suc_le_eq split: if_splits)
  next
    case (6 j k) then show ?case using R(6) slot by (auto split: if_splits)
  next
    case (7 j j' k) then show ?case using R(4,7) by (auto split: if_splits) 
  next
    case (8 k)
    then consider "k = ?c" | j where "k < ?c" "nt_pending (nt_pcs s j) = Some k"
      | "k < ?c" "\<nexists>j. nt_pending (nt_pcs s j) = Some k" by fastforce
    then show ?case
    proof cases
      case 1
      then show ?thesis by (intro disjI1 exI [of _ i]) simp
    next
      case (2 j)
      with i have "nt_pending (nt_pcs ?t j) = Some k" by auto
      then show ?thesis by blast
    next
      case 3
      with R(8) [of k] 8 old show ?thesis by simp
    qed
  qed (use R(1,9) in auto)
qed


lemma nt_ring_store:
  assumes ring: "nt_ring s" and at: "nt_pcs s i = NtStore k v"
  shows "nt_ring (nt_goto i (NtMark k) (s\<lparr>nt_infos := (nt_infos s)(k mod kBufLength := v)\<rparr>))" (is "nt_ring ?t")
proof -
  note R = nt_ringD [OF ring]
  have i: "nt_pending (nt_pcs s i) = Some k" using at by simp
  have pend: "nt_pending (nt_pcs ?t j) = nt_pending (nt_pcs s j)" for j using i by simp
  note place = nt_ring_place [OF ring i]
  have v: "v = nt_sent s ! k" using at by (rule R(2))
  have infos: "nt_infos ?t (k' mod kBufLength) = (if k' mod kBufLength = k mod kBufLength then v else nt_infos s (k' mod kBufLength))" for k'
    by simp
  show ?thesis unfolding nt_ring_def pend
  proof (intro conjI allI impI, goal_cases)
    case (2 j k' v') then show ?case using R(2) by (auto split: if_splits)
  next
    case (3 j k')
    show ?case
    proof (cases "j = i")
      case False
      with 3 have j: "nt_pcs s j = NtMark k'" by simp
      then have "nt_pending (nt_pcs s j) = Some k'" by simp
      with place [of k'] R(4,5,7) [of j k'] i False have "k' mod kBufLength \<noteq> k mod kBufLength" by metis
      then show ?thesis using R(3) [OF j] by simp
    qed (use 3 v in auto)
  next
    case (8 k')
    with place [of k'] i have "(\<exists>j. nt_pending (nt_pcs s j) = Some k') \<or> k' mod kBufLength \<noteq> k mod kBufLength" by auto
    with R(8) [of k'] 8 show ?case by auto
  qed (use R(1,4,5,6,7,9) in \<open>simp_all\<close>)
qed

lemma nt_ring_mark:
  assumes ring: "nt_ring s" and at: "nt_pcs s i = NtMark k"
  shows "nt_ring (nt_goto i NtIdle (s\<lparr>nt_seqs := (nt_seqs s)(k mod kBufLength := k)\<rparr>))" (is "nt_ring ?t")
proof -
  note R = nt_ringD [OF ring]
  have i: "nt_pending (nt_pcs s i) = Some k" using at by simp
  have pend: "nt_pending (nt_pcs ?t j) = Some k' \<longleftrightarrow> j \<noteq> i \<and> nt_pending (nt_pcs s j) = Some k'" for j k' by simp
  note place = nt_ring_place [OF ring i]
  show ?thesis unfolding nt_ring_def pend
  proof (intro conjI allI impI, goal_cases)
    case (2 j k' v') then show ?case using R(2) by (auto split: if_splits)
  next
    case (3 j k') then show ?case using R(3) by (auto split: if_splits)
  next
    case (6 j k')
    with place [of k'] R(4,5,7) i have "k' mod kBufLength \<noteq> k mod kBufLength" by metis
    with R(6) 6 show ?case by auto
  next
    case (8 k')
    show ?case
    proof (cases "k' = k")
      case True
      then show ?thesis using R(3) [OF at] by simp
    next
      case False
      with place [of k'] 8 have slot: "k' mod kBufLength \<noteq> k mod kBufLength" by auto
      show ?thesis
      proof (cases "\<exists>j. nt_pending (nt_pcs s j) = Some k'")
        case True
        then obtain j where "nt_pending (nt_pcs s j) = Some k'" by blast
        moreover from this i False have "j \<noteq> i" by auto
        ultimately show ?thesis by blast
      next
        case False
        with R(8) [of k'] 8 slot show ?thesis by simp
      qed
    qed
  next
    case (9 k')
    with R(4) [OF i] have "k < k'" by simp
    with 9 have "k' mod kBufLength \<noteq> k mod kBufLength" by simp
    with R(9) 9 show ?case by simp
  next
    case (4 j k') then show ?case using R(4) by auto
  next
    case (5 j k') then show ?case using R(5) by auto
  next
    case (7 j j' k') then show ?case using R(7) by blast
  qed (use R(1) in simp)
qed

lemma nt_paced_ring:
  assumes "nt_ring s" and "nt_paced r i s t"
  shows "nt_ring t"
proof -
  have step: "nt_step i s t" and pace: "nt_pending (nt_pcs t j) = Some k \<Longrightarrow> nt_next_seq t \<le> k + kBufLength" for j k
    using assms(2) by (simp_all add: nt_paced_def)
  from step show ?thesis
  proof cases
    case (notify v)
    have "nt_next_seq s + 1 \<le> k + kBufLength" if "nt_pending (nt_pcs s j) = Some k" for j k
      using pace [of j k] that notify by (cases "j = i") auto
    with nt_ring_notify [OF assms(1) notify(2)] show ?thesis unfolding notify(1) by blast
  next
    case (store k v)
    show ?thesis unfolding store(1) using assms(1) store(2) by (rule nt_ring_store)
  next
    case (mark k)
    show ?thesis unfolding mark(1) using assms(1) mark(2) by (rule nt_ring_mark)
  qed (rule nt_ring_quiet [OF assms(1)]; simp)+
qed


section \<open>What a listener is given\<close>

lemma nt_listenerD:
  assumes "nt_listener r s"
  shows "nt_from s r \<le> nt_mine s r" and "nt_mine s r \<le> nt_next_seq s" and "nt_next_seq s \<le> nt_mine s r + kBufLength"
    and "nt_pcs s r = NtCheck u \<Longrightarrow> nt_mine s r < nt_next_seq s"
    and "nt_pcs s r = NtInfo idx \<Longrightarrow> nt_mine s r < nt_next_seq s \<and> idx = nt_mine s r mod kBufLength"
    and "nt_pcs s r = NtInfo idx \<Longrightarrow> 0 < nt_mine s r \<Longrightarrow> \<nexists>j. nt_pending (nt_pcs s j) = Some (nt_mine s r)"
    and "length (nt_got s r) = nt_mine s r - nt_from s r"
    and "x < length (nt_got s r) \<Longrightarrow> 0 < nt_from s r + x \<Longrightarrow> nt_got s r ! x = nt_sent s ! (nt_from s r + x)"
  using assms by (simp_all add: nt_listener_def) auto

text \<open>The steps of other threads.\<close>

lemma nt_listener_other:
  assumes ring: "nt_ring s" and lis: "nt_listener r s" and step: "nt_step i s t" and "i \<noteq> r"
    and pace: "nt_next_seq t \<le> nt_mine t r + kBufLength"
  shows "nt_listener r t"
proof -
  note L = nt_listenerD [OF lis]
  have "nt_mine t r = nt_mine s r \<and> nt_from t r = nt_from s r \<and> nt_got t r = nt_got s r \<and> nt_pcs t r = nt_pcs s r"
    using step by cases (use assms(4) in simp_all)
  then have same: "nt_mine t r = nt_mine s r" "nt_from t r = nt_from s r" "nt_got t r = nt_got s r" "nt_pcs t r = nt_pcs s r"
    by simp_all
  have "nt_next_seq s \<le> nt_next_seq t \<and> (\<exists>vs. nt_sent t = nt_sent s @ vs)" using step by cases simp_all
  then have grows: "nt_next_seq s \<le> nt_next_seq t" "\<exists>vs. nt_sent t = nt_sent s @ vs" by simp_all
  have pend: "nt_pending (nt_pcs s j) = Some k \<or> k = nt_next_seq s" if "nt_pending (nt_pcs t j) = Some k" for j k
    using step that by cases (auto split: if_splits)
  have sent: "nt_sent t ! k = nt_sent s ! k" if "k < nt_next_seq s" for k
    using grows(2) that nt_ringD(1) [OF ring] by (auto simp: nth_append)
  have got: "nt_got s r ! x = nt_sent t ! (nt_from s r + x)" if "x < length (nt_got s r)" "0 < nt_from s r + x" for x
    using L(8) [OF that] sent [of "nt_from s r + x"] that L(1,2,7) by simp
  show ?thesis unfolding nt_listener_def same
  proof (intro conjI allI impI, goal_cases)
    case (4 u) with L(4) grows show ?case by fastforce
  next
    case (5 idx) with L(5) grows show ?case by fastforce
  next
    case (7 idx) with L(5,6) pend show ?case by (metis less_irrefl)
  qed (use L got grows pace same in auto)
qed

lemma nt_listener_own:
  assumes ring: "nt_ring s" and lis: "nt_listener r s" and step: "nt_step r s t" and made: "nt_pcs s r \<noteq> NtNone"
    and pace: "nt_next_seq t \<le> nt_mine t r + kBufLength"
  shows "nt_listener r t"
  using step
proof cases
  note L = nt_listenerD [OF lis] and R = nt_ringD [OF ring]
  {
    case (notify v)
    have "nt_got s r ! x = (nt_sent s @ [v]) ! (nt_from s r + x)" if "x < length (nt_got s r)" "0 < nt_from s r + x" for x
      using L(8) [OF that] that L(1,2,7) R(1) by (simp add: nth_append)
    then show ?thesis unfolding nt_listener_def using L pace notify by auto
  next
    case (something u)
    with L show ?thesis unfolding nt_listener_def by auto
  next
    case (ready u idx)
    have new: "nt_mine s r < nt_next_seq s" using ready(2) by (rule L(4))
    have at: "nt_seqs s idx = nt_mine s r" and "0 < nt_mine s r \<Longrightarrow> \<nexists>j. nt_pending (nt_pcs s j) = Some (nt_mine s r)"
    proof -
      have "nt_seqs s idx = nt_mine s r \<and> (0 < nt_mine s r \<longrightarrow> (\<nexists>j. nt_pending (nt_pcs s j) = Some (nt_mine s r)))"
      proof (cases "\<exists>j. nt_pending (nt_pcs s j) = Some (nt_mine s r)")
        case True
        with R(6) ready(3,4) have "nt_mine s r \<le> nt_mine s r - kBufLength" by fastforce
        then have "nt_mine s r = 0" using kBufLength_pos by linarith
        with True R(6) ready(3) show ?thesis by force
      next
        case False
        with R(8) [OF new L(3)] ready(3) show ?thesis by simp
      qed
      then show "nt_seqs s idx = nt_mine s r" "0 < nt_mine s r \<Longrightarrow> \<nexists>j. nt_pending (nt_pcs s j) = Some (nt_mine s r)" by simp_all
    qed
    moreover have "nt_pending (nt_pcs s r) = None" using ready(2) by simp
    ultimately show ?thesis unfolding nt_listener_def using L new ready(1,3) by (auto split: if_splits)
  next
    case (take idx)
    have at: "nt_mine s r < nt_next_seq s" "idx = nt_mine s r mod kBufLength" using L(5) [OF take(2)] by auto
    have info: "nt_infos s idx = nt_sent s ! nt_mine s r" if "0 < nt_mine s r"
      using R(8) [OF at(1) L(3) L(6) [OF take(2) that]] at(2) by simp
    have "(nt_got s r @ [nt_infos s idx]) ! x = nt_sent s ! (nt_from s r + x)"
      if "x < Suc (nt_mine s r - nt_from s r)" "0 < nt_from s r + x" for x
    proof (cases "x < length (nt_got s r)")
      case True
      with L(8) [OF True that(2)] show ?thesis by (simp add: nth_append)
    next
      case False
      with that L(1,7) have "nt_from s r + x = nt_mine s r" "x = length (nt_got s r)" by auto
      with info that(2) show ?thesis by simp
    qed
    with take at L(1,3,7) show ?thesis unfolding nt_listener_def by (auto simp: Suc_diff_le Suc_le_eq)
  }
qed (use made nt_listenerD [OF lis] in \<open>auto simp: nt_listener_def\<close>)

lemma nt_paced_listener:
  assumes "reachable (nt_paced r) nt_start s"
  shows "nt_ring s \<and> (if nt_pcs s r = NtNone then nt_got s r = [] else nt_listener r s) \<and> nt_next_seq s \<le> nt_mine s r + kBufLength"
  using assms
proof (induction rule: reachable_invariant)
  case start
  show ?case by (auto simp: nt_ring_def nt_start_def kBufLength_def)
next
  case (step i s t)
  have ring: "nt_ring t" using step nt_paced_ring by blast
  have st: "nt_step i s t" and pace: "nt_next_seq t \<le> nt_mine t r + kBufLength" using step by (simp_all add: nt_paced_def)
  have "if nt_pcs t r = NtNone then nt_got t r = [] else nt_listener r t"
  proof (cases "nt_pcs s r = NtNone")
    case True
    with step have "nt_got s r = []" by simp
    with st True show ?thesis by cases (auto simp: nt_listener_def split: if_splits)
  next
    case False
    with step have "nt_listener r s" "nt_ring s" by simp_all
    with False st pace nt_listener_own nt_listener_other have "nt_listener r t" by (cases "i = r") blast+
    moreover have "nt_pcs t r \<noteq> NtNone" using st False by cases (auto split: if_splits)
    ultimately show ?thesis by simp
  qed
  with ring pace show ?case by blast
qed




section \<open>Runs of two threads\<close>

text \<open>Thread 0 announces, thread 1 listens.\<close>

definition nt_run :: "nat \<Rightarrow> (nat \<Rightarrow> readable_info) \<Rightarrow> (nat \<Rightarrow> nat) \<Rightarrow> nat \<Rightarrow> nt_pc \<Rightarrow> nt_pc \<Rightarrow> readable_info list \<Rightarrow>
    nat \<Rightarrow> readable_info list \<Rightarrow> nt_state" where
  "nt_run c infos seqs m p q sent f got = \<lparr>nt_next_seq = c, nt_infos = infos, nt_seqs = seqs, nt_mine = (\<lambda>_. 0)(1 := m),
     nt_pcs = (\<lambda>_. NtNone)(0 := p, 1 := q), nt_sent = sent, nt_from = (\<lambda>_. 0)(1 := f), nt_got = (\<lambda>_. [])(1 := got)\<rparr>"

lemma nt_run_start: "nt_start = nt_run 0 (\<lambda>_. readable_info_new) (\<lambda>_. 0) 0 NtNone NtNone [] 0 []"
  by (simp add: nt_run_def nt_start_def fun_eq_iff)

lemma nt_to: "nt_step i s u \<Longrightarrow> u = t \<Longrightarrow> nt_step i s t"
  by simp

lemma nt_run_steps:
  "nt_step 0 (nt_run 0 xs sq 0 NtNone q sent f got) (nt_run 0 xs sq 0 NtIdle q sent f got)"
  "nt_step 0 (nt_run c xs sq m NtIdle q sent f got) (nt_run (c + 1) xs sq m (NtStore c v) q (sent @ [v]) f got)"
  "nt_step 0 (nt_run c xs sq m (NtStore k v) q sent f got) (nt_run c (xs(k mod kBufLength := v)) sq m (NtMark k) q sent f got)"
  "nt_step 0 (nt_run c xs sq m (NtMark k) q sent f got) (nt_run c xs (sq(k mod kBufLength := k)) m NtIdle q sent f got)"
  "nt_step 1 (nt_run c xs sq 0 p NtNone sent 0 got) (nt_run c xs sq c p NtIdle sent c got)"
  "nt_step 1 (nt_run c xs sq m p NtIdle sent f got) (nt_run c xs sq m p (NtHead 0) sent f got)"
  "c \<noteq> m \<Longrightarrow> nt_step 1 (nt_run c xs sq m p (NtHead 0) sent f got) (nt_run c xs sq m p (NtCheck 0) sent f got)"
  "m \<le> sq (m mod kBufLength) \<Longrightarrow> nt_step 1 (nt_run c xs sq m p (NtCheck 0) sent f got)
     (nt_run c xs sq (sq (m mod kBufLength)) p (NtInfo (m mod kBufLength)) sent f got)"
  "nt_step 1 (nt_run c xs sq m p (NtInfo x) sent f got) (nt_run c xs sq (m + 1) p NtIdle sent f (got @ [xs x]))"
proof (goal_cases)
  case 1
  then show ?case by (rule nt_step.make [THEN nt_to]) (simp_all add: nt_run_def nt_goto_def fun_eq_iff)
next
  case 2
  then show ?case by (rule nt_step.notify [THEN nt_to]) (simp_all add: nt_run_def nt_goto_def fun_upd_twist)
next
  case 3
  then show ?case by (rule nt_step.store [THEN nt_to]) (simp_all add: nt_run_def nt_goto_def fun_upd_twist)
next
  case 4
  then show ?case by (rule nt_step.mark [THEN nt_to]) (simp_all add: nt_run_def nt_goto_def fun_upd_twist)
next
  case 5
  then show ?case by (rule nt_step.make [THEN nt_to]) (simp_all add: nt_run_def nt_goto_def fun_upd_twist)
next
  case 6
  then show ?case by (rule nt_step.listen [where timeout_ms = 0, THEN nt_to]) (simp_all add: nt_run_def nt_goto_def fun_upd_twist)
next
  case 7
  show ?case by (rule nt_step.something [THEN nt_to]) (use 7 in \<open>simp_all add: nt_run_def nt_goto_def fun_upd_twist\<close>)
next
  case 8
  show ?case by (rule nt_step.ready [OF _ refl, THEN nt_to]) (use 8 in \<open>simp_all add: nt_run_def nt_goto_def fun_upd_twist\<close>)
next
  case 9
  then show ?case by (rule nt_step.take [THEN nt_to]) (simp_all add: nt_run_def nt_goto_def fun_upd_twist)
qed


lemma nt_run_then:
  assumes "reachable (nt_paced 1) nt_start s" and "nt_step i s (nt_run c xs sq m p q sent f got)" and "c \<le> 4096"
  shows "reachable (nt_paced 1) nt_start (nt_run c xs sq m p q sent f got)"
  using assms(1)
proof (rule reachable.step)
  show "nt_paced 1 i s (nt_run c xs sq m p q sent f got)"
    using assms(2,3) by (auto simp: nt_paced_def nt_run_def kBufLength_def)
qed

text \<open>The first announcement can be delivered before it is written: the sequence numbers of a new
  segment are zero, which is the number of the first announcement, so a listener that finds it drawn takes
  the empty \<open>ReadableInfo\<close> for its content, and then never sees the announcement itself.\<close>

lemma first_announcement_lost:
  "\<exists>s. reachable (nt_paced 1) nt_start s \<and> nt_sent s = [v] \<and> nt_got s 1 = [readable_info_new] \<and> nt_mine s 1 = 1"
proof -
  let ?zs = "\<lambda>_. readable_info_new" and ?ns = "\<lambda>_. 0"
  have "reachable (nt_paced 1) nt_start nt_start" by (rule reachable.start)
  then have "reachable (nt_paced 1) nt_start (nt_run 0 ?zs ?ns 0 NtIdle NtNone [] 0 [])"
    unfolding nt_run_start by (rule nt_run_then [unfolded nt_run_start, OF _ nt_run_steps(1)]) simp
  from nt_run_then [OF this nt_run_steps(5)] have "reachable (nt_paced 1) nt_start (nt_run 0 ?zs ?ns 0 NtIdle NtIdle [] 0 [])"
    by simp
  from nt_run_then [OF this nt_run_steps(2)] have "reachable (nt_paced 1) nt_start (nt_run 1 ?zs ?ns 0 (NtStore 0 v) NtIdle [v] 0 [])"
    by simp
  from nt_run_then [OF this nt_run_steps(6)] have "reachable (nt_paced 1) nt_start (nt_run 1 ?zs ?ns 0 (NtStore 0 v) (NtHead 0) [v] 0 [])"
    by simp
  from nt_run_then [OF this nt_run_steps(7)] have "reachable (nt_paced 1) nt_start (nt_run 1 ?zs ?ns 0 (NtStore 0 v) (NtCheck 0) [v] 0 [])"
    by simp
  from nt_run_then [OF this nt_run_steps(8)] have "reachable (nt_paced 1) nt_start (nt_run 1 ?zs ?ns 0 (NtStore 0 v) (NtInfo 0) [v] 0 [])"
    by simp
  from nt_run_then [OF this nt_run_steps(9)] have
    "reachable (nt_paced 1) nt_start (nt_run 1 ?zs ?ns 1 (NtStore 0 v) NtIdle [v] 0 [readable_info_new])"
    by simp
  then show ?thesis by (rule exI [of _ "nt_run 1 ?zs ?ns 1 (NtStore 0 v) NtIdle [v] 0 [readable_info_new]", OF conjI])
      (simp add: nt_run_def)
qed


end
