(* ===== verification/Shm_Segment.thy ===== *)
theory Shm_Segment
  imports Shm_Format
begin

text \<open>
  Shared memory segments: \<open>transport/shm/segment.cpp\<close>, \<open>state.h\<close>, \<open>block.cpp\<close>, the two kinds of segment
  \<open>posix_segment.cpp\<close> and \<open>xsi_segment.cpp\<close>, and what is done with them:
  \<open>ShmTransmitter::Transmit\<close> and \<open>ShmDispatcher::ReadMessage\<close>. The operating system's part is a table of
  shared memory objects: a name denotes at most one object, an object stays while it is mapped though
  its name is gone. Every operation is one step; between them other processes may run. System calls
  fail only as modelled: a name that exists or does not, a size above the limit \<open>shmmax\<close>.
\<close>

section \<open>Shared memory\<close>

record shm_block =
  sb_lock_num :: int
  sb_msg_size :: u64
  sb_msg_info_size :: u64

record shm_object =
  so_need_remap :: bool
  so_seq :: u32
  so_reference_count :: u32
  so_ceiling_msg_size :: u64
  so_blocks :: "shm_block list"
  so_bufs :: "byte list list"

record shm_world =
  w_names :: "nat \<Rightarrow> nat option"
  w_objects :: "nat \<Rightarrow> shm_object option"
  w_fresh :: nat
  w_shmmax :: nat

definition block_new :: shm_block where
  "block_new = \<lparr>sb_lock_num = 0, sb_msg_size = 0, sb_msg_info_size = 0\<rparr>"

text \<open>The memory is zero when the system hands it out.\<close>

definition object_new :: "shm_conf \<Rightarrow> shm_object" where
  "object_new conf = \<lparr>so_need_remap = False, so_seq = 0, so_reference_count = 0,
     so_ceiling_msg_size = sc_ceiling_msg_size conf,
     so_blocks = replicate (unat (sc_block_num conf)) block_new,
     so_bufs = replicate (unat (sc_block_num conf)) (replicate (unat (sc_block_buf_size conf)) 0)\<rparr>"

definition decrease_reference_counts :: "shm_object \<Rightarrow> shm_object" where
  "decrease_reference_counts ob =
     (if so_reference_count ob = 0 then ob else ob\<lparr>so_reference_count := so_reference_count ob - 1\<rparr>)"

definition increase_reference_counts :: "shm_object \<Rightarrow> shm_object" where
  "increase_reference_counts ob = ob\<lparr>so_reference_count := so_reference_count ob + 1\<rparr>"

definition fetch_add_seq :: "u32 \<Rightarrow> shm_object \<Rightarrow> u32 \<times> shm_object" where
  "fetch_add_seq diff ob = (so_seq ob, ob\<lparr>so_seq := so_seq ob + diff\<rparr>)"

definition put_object :: "nat \<Rightarrow> shm_object \<Rightarrow> shm_world \<Rightarrow> shm_world" where
  "put_object a ob w = w\<lparr>w_objects := (w_objects w)(a \<mapsto> ob)\<rparr>"

definition on_block :: "nat \<Rightarrow> (shm_block \<Rightarrow> shm_block) \<Rightarrow> shm_object \<Rightarrow> shm_object" where
  "on_block i f ob = ob\<lparr>so_blocks := (so_blocks ob)[i := f (so_blocks ob ! i)]\<rparr>"

section \<open>Segments\<close>

datatype segment_type = Posix | Xsi

text \<open>
  \<open>sg_map\<close> is the object behind \<open>managed_shm_\<close>, \<open>state_\<close> and \<open>blocks_\<close>; \<open>sg_bufs\<close> is
  \<open>block_buf_addrs_\<close>, the buffer a block index leads to, where an index that is not in the map leads to
  a null pointer.
\<close>

record segment =
  sg_type :: segment_type
  sg_init :: bool
  sg_conf :: shm_conf
  sg_channel_id :: u64
  sg_map :: "nat option"
  sg_bufs :: "nat \<Rightarrow> nat option"

definition segment_new :: "segment_type \<Rightarrow> u64 \<Rightarrow> segment" where
  "segment_new typ channel_id = \<lparr>sg_type = typ, sg_init = False, sg_conf = shm_conf_new,
     sg_channel_id = channel_id, sg_map = None, sg_bufs = (\<lambda>_. None)\<rparr>"

text \<open>The name of a channel's object: its decimal digits, or the key, an \<open>int\<close> of 32 bits.\<close>

definition posix_name :: "u64 \<Rightarrow> nat" where "posix_name channel_id = unat channel_id"
definition xsi_key :: "u64 \<Rightarrow> nat" where "xsi_key channel_id = unat (ucast channel_id :: u32)"

definition shm_key :: "segment \<Rightarrow> nat" where
  "shm_key sg = (case sg_type sg of Posix \<Rightarrow> posix_name (sg_channel_id sg) | Xsi \<Rightarrow> xsi_key (sg_channel_id sg))"

definition all_bufs :: "shm_conf \<Rightarrow> nat \<Rightarrow> nat option" where
  "all_bufs conf i = (if i < unat (sc_block_num conf) then Some i else None)"

definition posix_reset :: "segment \<Rightarrow> segment" where
  "posix_reset sg = sg\<lparr>sg_map := None, sg_bufs := (\<lambda>_. None)\<rparr>"

definition xsi_reset :: "segment \<Rightarrow> segment" where
  "xsi_reset sg = sg\<lparr>sg_map := None, sg_bufs := (\<lambda>_. None)\<rparr>"

definition segment_reset :: "segment \<Rightarrow> segment" where
  "segment_reset sg = (case sg_type sg of Posix \<Rightarrow> posix_reset sg | Xsi \<Rightarrow> xsi_reset sg)"

definition posix_remove :: "segment \<Rightarrow> shm_world \<Rightarrow> bool \<times> shm_world" where
  "posix_remove sg w =
     (case w_names w (shm_key sg) of None \<Rightarrow> (False, w)
      | Some a \<Rightarrow> (True, w\<lparr>w_names := (w_names w)(shm_key sg := None)\<rparr>))"

definition xsi_remove :: "segment \<Rightarrow> shm_world \<Rightarrow> bool \<times> shm_world" where
  "xsi_remove sg w =
     (case w_names w (shm_key sg) of None \<Rightarrow> (False, w)
      | Some a \<Rightarrow> (True, w\<lparr>w_names := (w_names w)(shm_key sg := None)\<rparr>))"

definition segment_remove :: "segment \<Rightarrow> shm_world \<Rightarrow> bool \<times> shm_world" where
  "segment_remove sg w = (case sg_type sg of Posix \<Rightarrow> posix_remove sg w | Xsi \<Rightarrow> xsi_remove sg w)"

text \<open>\<open>OpenOnly\<close>: the POSIX variant computes the buffer addresses and drops them.\<close>

definition posix_open_only :: "segment \<Rightarrow> shm_world \<Rightarrow> bool \<times> segment \<times> shm_world" where
  "posix_open_only sg w =
     (if sg_init sg then (True, sg, w)
      else case w_names w (shm_key sg) of None \<Rightarrow> (False, sg, w)
        | Some a \<Rightarrow> (case w_objects w a of None \<Rightarrow> (False, sg, w)
          | Some ob \<Rightarrow> (True, sg\<lparr>sg_map := Some a, sg_conf := shm_update (so_ceiling_msg_size ob), sg_init := True\<rparr>,
                  put_object a (increase_reference_counts ob) w)))"

definition xsi_open_only :: "segment \<Rightarrow> shm_world \<Rightarrow> bool \<times> segment \<times> shm_world" where
  "xsi_open_only sg w =
     (if sg_init sg then (True, sg, w)
      else case w_names w (shm_key sg) of None \<Rightarrow> (False, sg, w)
        | Some a \<Rightarrow> (case w_objects w a of None \<Rightarrow> (False, sg, w)
          | Some ob \<Rightarrow> let conf = shm_update (so_ceiling_msg_size ob)
              in (True, sg\<lparr>sg_map := Some a, sg_conf := conf, sg_init := True, sg_bufs := all_bufs conf\<rparr>,
                  put_object a (increase_reference_counts ob) w)))"

definition open_only :: "segment \<Rightarrow> shm_world \<Rightarrow> bool \<times> segment \<times> shm_world" where
  "open_only sg w = (case sg_type sg of Posix \<Rightarrow> posix_open_only sg w | Xsi \<Rightarrow> xsi_open_only sg w)"

text \<open>
  \<open>OpenOrCreate\<close>: above the limit the system refuses to give a POSIX object its size, which then keeps
  its name without any memory, and refuses a System V object, twice.
\<close>

definition posix_open_or_create :: "segment \<Rightarrow> shm_world \<Rightarrow> bool \<times> segment \<times> shm_world" where
  "posix_open_or_create sg w =
     (if sg_init sg then (True, sg, w)
      else if w_names w (shm_key sg) \<noteq> None then posix_open_only sg w
      else let a = w_fresh w; w1 = w\<lparr>w_names := (w_names w)(shm_key sg \<mapsto> a), w_fresh := a + 1\<rparr>
        in if w_shmmax w < unat (sc_managed_shm_size (sg_conf sg)) then (False, sg, w1)
           else (True, sg\<lparr>sg_map := Some a, sg_init := True, sg_bufs := all_bufs (sg_conf sg)\<rparr>,
             put_object a (increase_reference_counts (object_new (sg_conf sg))) w1))"

fun xsi_create_retry :: "nat \<Rightarrow> segment \<Rightarrow> shm_world \<Rightarrow> bool \<times> segment \<times> shm_world" where
  "xsi_create_retry 0 sg w = (False, sg, w)"
| "xsi_create_retry (Suc n) sg w =
     (if w_names w (shm_key sg) \<noteq> None then xsi_open_only sg w
      else if w_shmmax w < unat (sc_managed_shm_size (sg_conf sg))
      then (let sg1 = xsi_reset sg; w1 = snd (xsi_remove sg1 w) in xsi_create_retry n sg1 w1)
      else let a = w_fresh w; ob = object_new (sg_conf sg); conf = shm_update (so_ceiling_msg_size ob)
        in (True, sg\<lparr>sg_map := Some a, sg_conf := conf, sg_init := True, sg_bufs := all_bufs conf\<rparr>,
            put_object a (increase_reference_counts ob)
              (w\<lparr>w_names := (w_names w)(shm_key sg \<mapsto> a), w_fresh := a + 1\<rparr>)))"

definition xsi_open_or_create :: "segment \<Rightarrow> shm_world \<Rightarrow> bool \<times> segment \<times> shm_world" where
  "xsi_open_or_create sg w = (if sg_init sg then (True, sg, w) else xsi_create_retry 2 sg w)"

definition open_or_create :: "segment \<Rightarrow> shm_world \<Rightarrow> bool \<times> segment \<times> shm_world" where
  "open_or_create sg w = (case sg_type sg of Posix \<Rightarrow> posix_open_or_create sg w | Xsi \<Rightarrow> xsi_open_or_create sg w)"

lemma segment_reset_eq: "segment_reset sg = sg\<lparr>sg_map := None, sg_bufs := (\<lambda>_. None)\<rparr>"
  by (simp add: segment_reset_def posix_reset_def xsi_reset_def split: segment_type.split)

lemma segment_remove_eq: "segment_remove sg w =
    (case w_names w (shm_key sg) of None \<Rightarrow> (False, w)
     | Some a \<Rightarrow> (True, w\<lparr>w_names := (w_names w)(shm_key sg := None)\<rparr>))"
  by (simp add: segment_remove_def posix_remove_def xsi_remove_def split: segment_type.split)

lemma xsi_create_retry_2: "xsi_create_retry 2 sg w =
   (if w_names w (shm_key sg) \<noteq> None then xsi_open_only sg w
    else if w_shmmax w < unat (sc_managed_shm_size (sg_conf sg)) then xsi_create_retry 1 (xsi_reset sg) (snd (xsi_remove (xsi_reset sg) w))
    else let a = w_fresh w; ob = object_new (sg_conf sg); conf = shm_update (so_ceiling_msg_size ob)
      in (True, sg\<lparr>sg_map := Some a, sg_conf := conf, sg_init := True, sg_bufs := all_bufs conf\<rparr>,
          put_object a (increase_reference_counts ob)
            (w\<lparr>w_names := (w_names w)(shm_key sg \<mapsto> a), w_fresh := a + 1\<rparr>)))"
  by (simp add: Let_def flip: Suc_1 del: One_nat_def)

lemmas shm_key_defs = shm_key_def posix_name_def xsi_key_def
lemmas open_only_defs = open_only_def posix_open_only_def xsi_open_only_def
lemmas open_or_create_defs = open_or_create_def posix_open_or_create_def xsi_open_or_create_def xsi_create_retry_2 open_only_def

definition segment_remap :: "segment \<Rightarrow> shm_world \<Rightarrow> bool \<times> segment \<times> shm_world" where
  "segment_remap sg w = open_only (segment_reset (sg\<lparr>sg_init := False\<rparr>)) w"

text \<open>The object a segment has mapped.\<close>

definition mapped :: "segment \<Rightarrow> shm_world \<Rightarrow> shm_object option" where
  "mapped sg w = Option.bind (sg_map sg) (w_objects w)"

definition update_mapped :: "(shm_object \<Rightarrow> shm_object) \<Rightarrow> segment \<Rightarrow> shm_world \<Rightarrow> shm_world" where
  "update_mapped f sg w = (case sg_map sg of None \<Rightarrow> w
     | Some a \<Rightarrow> (case w_objects w a of None \<Rightarrow> w | Some ob \<Rightarrow> put_object a (f ob) w))"

definition segment_recreate :: "u64 \<Rightarrow> segment \<Rightarrow> shm_world \<Rightarrow> bool \<times> segment \<times> shm_world" where
  "segment_recreate msg_size sg w =
     (let w1 = update_mapped (\<lambda>ob. ob\<lparr>so_need_remap := True\<rparr>) sg w;
          sg1 = segment_reset (sg\<lparr>sg_init := False\<rparr>);
          w2 = snd (segment_remove sg1 w1)
      in open_or_create (sg1\<lparr>sg_conf := shm_update msg_size\<rparr>) w2)"

definition segment_destroy :: "segment \<Rightarrow> shm_world \<Rightarrow> bool \<times> segment \<times> shm_world" where
  "segment_destroy sg w =
     (if \<not> sg_init sg then (True, sg, w)
      else let sg1 = sg\<lparr>sg_init := False\<rparr>; w1 = update_mapped decrease_reference_counts sg1 w
           in case mapped sg1 w1 of None \<Rightarrow> (False, sg1, w1)
              | Some ob \<Rightarrow> if so_reference_count ob = 0
                  then (let (ok, w2) = segment_remove sg1 w1 in (ok, sg1, w2)) else (True, sg1, w1))"

section \<open>Acquiring a block\<close>

text \<open>\<open>GetNextWritableBlockIndex\<close>, which tries the blocks in turn until one can be locked.\<close>

partial_function (option) next_writable_block :: "nat \<Rightarrow> shm_object \<Rightarrow> (nat \<times> shm_object) option" where
  "next_writable_block num ob =
     (let (seq, ob1) = fetch_add_seq 1 ob; try_idx = unat seq mod num
      in if sb_lock_num (so_blocks ob1 ! try_idx) = 0
         then Some (try_idx, on_block try_idx (\<lambda>b. b\<lparr>sb_lock_num := - 1\<rparr>) ob1)
         else next_writable_block num ob1)"

text \<open>
  \<open>None\<close>: no block ever gets free. After a failed \<open>Remap\<close> the state is a null pointer, which
  \<open>Recreate\<close> uses. The index is the block locked, no index a return of false.
\<close>

definition acquire_block_to_write :: "u64 \<Rightarrow> segment \<Rightarrow> shm_world \<Rightarrow> (ub + nat option \<times> segment \<times> shm_world) option" where
  "acquire_block_to_write msg_size sg w =
     (let (opened, sg1, w1) = (if sg_init sg then (True, sg, w) else open_or_create sg w)
      in if \<not> opened then Some (Inr (None, sg1, w1))
         else let (r1, sg2, w2) = (if (case mapped sg1 w1 of None \<Rightarrow> False | Some ob \<Rightarrow> so_need_remap ob)
                    then segment_remap sg1 w1 else (True, sg1, w1));
                  larger = sc_ceiling_msg_size (sg_conf sg2) < msg_size
              in if larger \<and> mapped sg2 w2 = None then Some (Inl NullPointer)
                 else let (r2, sg3, w3) = (if larger then segment_recreate msg_size sg2 w2 else (r1, sg2, w2))
                   in if \<not> r2 then Some (Inr (None, sg3, w3))
                      else case mapped sg3 w3 of None \<Rightarrow> Some (Inl NullPointer)
                        | Some ob \<Rightarrow> map_option (\<lambda>(i, ob'). Inr (Some i, sg3, update_mapped (\<lambda>_. ob') sg3 w3))
                            (next_writable_block (unat (sc_block_num (sg_conf sg3))) ob))"

definition release_written_block :: "nat \<Rightarrow> segment \<Rightarrow> shm_world \<Rightarrow> shm_world" where
  "release_written_block i sg w =
     (if unat (sc_block_num (sg_conf sg)) \<le> i then w
      else update_mapped (on_block i (\<lambda>b. b\<lparr>sb_lock_num := sb_lock_num b + 1\<rparr>)) sg w)"

text \<open>
  \<open>AcquireBlockToRead\<close>: without interference \<open>TryLockForRead\<close> fails exactly under a writer. The index is
  compared with the number of blocks before \<open>Remap\<close>, not with the one after it.
\<close>

definition acquire_block_to_read :: "nat \<Rightarrow> segment \<Rightarrow> shm_world \<Rightarrow> ub + bool \<times> segment \<times> shm_world" where
  "acquire_block_to_read i sg w =
     (let (opened, sg1, w1) = (if sg_init sg then (True, sg, w) else open_only sg w)
      in if \<not> opened then Inr (False, sg1, w1)
         else if unat (sc_block_num (sg_conf sg1)) \<le> i then Inr (False, sg1, w1)
         else let (r, sg2, w2) = (if (case mapped sg1 w1 of None \<Rightarrow> False | Some ob \<Rightarrow> so_need_remap ob)
                then segment_remap sg1 w1 else (True, sg1, w1))
              in if \<not> r then Inr (False, sg2, w2)
                 else case mapped sg2 w2 of None \<Rightarrow> Inl NullPointer
                   | Some ob \<Rightarrow> if length (so_blocks ob) \<le> i then Inl OutOfBounds
                       else if sb_lock_num (so_blocks ob ! i) < 0 then Inr (False, sg2, w2)
                       else Inr (True, sg2, update_mapped (on_block i (\<lambda>b. b\<lparr>sb_lock_num := sb_lock_num b + 1\<rparr>)) sg2 w2))"

definition release_read_block :: "nat \<Rightarrow> segment \<Rightarrow> shm_world \<Rightarrow> shm_world" where
  "release_read_block i sg w =
     (if unat (sc_block_num (sg_conf sg)) \<le> i then w
      else update_mapped (on_block i (\<lambda>b. b\<lparr>sb_lock_num := sb_lock_num b - 1\<rparr>)) sg w)"


section \<open>Writing and reading a message\<close>

text \<open>The bytes of a block's buffer.\<close>

definition block_bytes :: "nat \<Rightarrow> segment \<Rightarrow> shm_world \<Rightarrow> byte list option" where
  "block_bytes i sg w =
     (case sg_bufs sg i of None \<Rightarrow> None | Some k \<Rightarrow> map_option (\<lambda>ob. so_bufs ob ! k) (mapped sg w))"

definition fill_block :: "byte_order \<Rightarrow> byte list \<Rightarrow> message_info \<Rightarrow> nat \<Rightarrow> nat \<Rightarrow> shm_object \<Rightarrow> shm_object" where
  "fill_block h payload mi i k ob =
     (let bs = payload @ id_data (mi_sender_id mi) @ id_data (mi_spare_id mi) @ host_bytes h 8 (mi_seq_num mi)
      in on_block i (\<lambda>b. b\<lparr>sb_msg_size := of_nat (length payload), sb_msg_info_size := of_nat (ID_SIZE * 2 + 8)\<rparr>)
           (ob\<lparr>so_bufs := (so_bufs ob)[k := bs @ drop (length bs) (so_bufs ob ! k)]\<rparr>))"

text \<open>
  \<open>Transmit\<close> of an enabled transmitter, up to the notification, whose content is the result: \<open>payload\<close>
  is the serialised message. \<open>Inr (None, \<dots>)\<close> is the return of false.
\<close>

definition shm_transmit :: "byte_order \<Rightarrow> u64 \<Rightarrow> byte list \<Rightarrow> message_info \<Rightarrow> segment \<Rightarrow> shm_world \<Rightarrow>
    (ub + readable_info option \<times> segment \<times> shm_world) option" where
  "shm_transmit h host_id payload mi sg w =
     (case acquire_block_to_write (of_nat (length payload)) sg w of None \<Rightarrow> None
      | Some (Inl e) \<Rightarrow> Some (Inl e)
      | Some (Inr (None, sg1, w1)) \<Rightarrow> Some (Inr (None, sg1, w1))
      | Some (Inr (Some i, sg1, w1)) \<Rightarrow>
          (case sg_bufs sg1 i of None \<Rightarrow> Some (Inl NullPointer)
           | Some k \<Rightarrow>
               if unat (sc_block_buf_size (sg_conf sg1)) < length payload + (ID_SIZE * 2 + 8) then Some (Inl OutOfBounds)
               else Some (Inr (Some \<lparr>ri_host_id = host_id, ri_block_index = of_nat i, ri_channel_id = sg_channel_id sg\<rparr>,
                 sg1, release_written_block i sg1 (update_mapped (fill_block h payload mi i k) sg1 w1)))))"

text \<open>
  \<open>ReadMessage\<close>: the bytes and the message information given to \<open>OnMessage\<close>. The result of
  \<open>AcquireBlockToRead\<close> is not looked at, a block that could not be had is a null pointer. The
  identities are copied byte by byte, their hash stays that of an empty identity.
\<close>

definition shm_read_message :: "(byte list \<Rightarrow> u64) \<Rightarrow> byte_order \<Rightarrow> nat \<Rightarrow> segment \<Rightarrow> shm_world \<Rightarrow>
    ub + (byte list \<times> message_info) \<times> segment \<times> shm_world" where
  "shm_read_message hash h i sg w =
     (case acquire_block_to_read i sg w of Inl e \<Rightarrow> Inl e | Inr (ok, sg1, w1) \<Rightarrow>
       if \<not> ok then Inl NullPointer
       else (case (block_bytes i sg1 w1, mapped sg1 w1) of
          (Some bs, Some ob) \<Rightarrow>
            let n = unat (sb_msg_size (so_blocks ob ! i)); info = drop n bs; new = message_info_new hash
            in if length bs < n + (ID_SIZE * 2 + 8) then Inl OutOfBounds
               else Inr ((take n bs, new\<lparr>
                   mi_sender_id := (mi_sender_id new)\<lparr>id_data := take ID_SIZE info\<rparr>,
                   mi_spare_id := (mi_spare_id new)\<lparr>id_data := take ID_SIZE (drop ID_SIZE info)\<rparr>,
                   mi_seq_num := of_host_bytes h (take 8 (drop (2 * ID_SIZE) info))\<rparr>),
                 sg1, release_read_block i sg1 w1)
        | _ \<Rightarrow> Inl NullPointer))"


section \<open>The search for a block\<close>

lemma block_num_divides: "unat (sc_block_num (shm_update n)) dvd 2 ^ 32"
proof -
  have "(2 :: nat) ^ k dvd 2 ^ 32" if "k \<le> 32" for k using that by (rule le_imp_power_dvd)
  from this [of 9] this [of 7] this [of 6] this [of 5] this [of 4] this [of 3] show ?thesis
    by (cases rule: shm_update_cases [of n]) simp_all
qed

text \<open>What a search that returns has found.\<close>

lemma next_writable_block_taken:
  assumes "next_writable_block num ob = Some r"
  shows "\<exists>k. fst r = unat (so_seq ob + of_nat k) mod num \<and> sb_lock_num (so_blocks ob ! fst r) = 0 \<and>
    snd r = on_block (fst r) (\<lambda>b. b\<lparr>sb_lock_num := - 1\<rparr>) (ob\<lparr>so_seq := so_seq ob + of_nat k + 1\<rparr>)"
  using assms
proof (induction rule: next_writable_block.raw_induct [rotated, consumes 1, case_names step])
  case (step search num ob r)
  show ?case
  proof (cases "sb_lock_num (so_blocks ob ! (unat (so_seq ob) mod num)) = 0")
    case True
    with step(2) show ?thesis by (intro exI [of _ 0]) (auto simp: Let_def fetch_add_seq_def on_block_def)
  next
    case False
    with step(2) have "search num (ob\<lparr>so_seq := so_seq ob + 1\<rparr>) = Some r"
      by (simp add: fetch_add_seq_def)
    from step(1) [OF this] obtain k where "fst r = unat (so_seq ob + 1 + of_nat k) mod num"
      "sb_lock_num (so_blocks ob ! fst r) = 0"
      "snd r = on_block (fst r) (\<lambda>b. b\<lparr>sb_lock_num := - 1\<rparr>) (ob\<lparr>so_seq := so_seq ob + 1 + of_nat k + 1\<rparr>)" by auto
    then show ?thesis by (intro exI [of _ "Suc k"]) (simp add: ac_simps)
  qed
qed

lemma next_writable_block_finds:
  assumes "sb_lock_num (so_blocks ob ! (unat (so_seq ob + of_nat k) mod num)) = 0"
  shows "\<exists>r. next_writable_block num ob = Some r"
  using assms
proof (induction k arbitrary: ob)
  case 0
  then show ?case by (subst next_writable_block.simps) (simp add: fetch_add_seq_def Let_def)
next
  case (Suc k)
  have "\<exists>r. next_writable_block num (ob\<lparr>so_seq := so_seq ob + 1\<rparr>) = Some r"
    by (rule Suc.IH) (use Suc.prems in \<open>simp add: ac_simps\<close>)
  then show ?case by (subst next_writable_block.simps) (simp add: fetch_add_seq_def Let_def)
qed

text \<open>C29. The search for a block to write returns exactly if one of the blocks of the segment is free, whatever
  the sequence counter, also when it wraps around, because every number of blocks divides \<open>2 ^ 32\<close>; the
  block it returns was free, it and no other block is locked, and while all blocks are locked the
  search never returns.\<close>

theorem block_search_returns:
  "(\<exists>r. next_writable_block (unat (sc_block_num (shm_update n))) ob = Some r) =
     (\<exists>i < unat (sc_block_num (shm_update n)). sb_lock_num (so_blocks ob ! i) = 0) \<and>
   {(i, ob'). next_writable_block (unat (sc_block_num (shm_update n))) ob = Some (i, ob')} \<subseteq>
     {(i, ob'). i < unat (sc_block_num (shm_update n)) \<and> sb_lock_num (so_blocks ob ! i) = 0 \<and>
        so_blocks ob' = (so_blocks ob)[i := (so_blocks ob ! i)\<lparr>sb_lock_num := - 1\<rparr>] \<and> so_bufs ob' = so_bufs ob}"
proof (intro conjI)
  let ?num = "unat (sc_block_num (shm_update n))"
  have pos: "0 < ?num" by (cases rule: shm_update_cases [of n]) simp_all
  have found: "\<exists>r. next_writable_block ?num ob = Some r" if "i < ?num" "sb_lock_num (so_blocks ob ! i) = 0" for i
  proof (rule next_writable_block_finds)
    let ?k = "unat (of_nat i - so_seq ob :: u32)"
    have "i < 2 ^ 32"
      using that(1) dvd_imp_le [OF block_num_divides [of n]] by simp
    then have "unat (so_seq ob + of_nat ?k) = i" by (simp add: unat_of_nat)
    then show "sb_lock_num (so_blocks ob ! (unat (so_seq ob + of_nat ?k) mod ?num)) = 0" using that by simp
  qed
  show "(\<exists>r. next_writable_block ?num ob = Some r) = (\<exists>i < ?num. sb_lock_num (so_blocks ob ! i) = 0)"
    using found next_writable_block_taken pos by (metis mod_less_divisor)
  show "{(i, ob'). next_writable_block ?num ob = Some (i, ob')} \<subseteq>
     {(i, ob'). i < ?num \<and> sb_lock_num (so_blocks ob ! i) = 0 \<and>
        so_blocks ob' = (so_blocks ob)[i := (so_blocks ob ! i)\<lparr>sb_lock_num := - 1\<rparr>] \<and> so_bufs ob' = so_bufs ob}"
    using pos by (auto dest!: next_writable_block_taken simp: on_block_def)
qed

end
