(* ===== verification/Shm_Transport.thy ===== *)
theory Shm_Transport
  imports Shm_Segment Interleaving
begin

text \<open>
  Processes that share channels through System V segments: each has one \<open>Segment\<close> of its channel, in
  which it transmits and from which it reads, in any order, over one table of shared memory objects.
  The invariant of such a system, and with it that what one process transmits every other reads. A step
  is a call that neither overruns a buffer nor follows a null pointer; that such calls are
  exactly those of messages that are too large is part of the result.
\<close>

section \<open>The system\<close>

record shm_system =
  ss_world :: shm_world
  ss_seg :: "nat \<Rightarrow> segment"

definition shm_start :: "nat \<Rightarrow> (nat \<Rightarrow> u64) \<Rightarrow> shm_system" where
  "shm_start limit channel_id =
     \<lparr>ss_world = \<lparr>w_names = (\<lambda>_. None), w_objects = (\<lambda>_. None), w_fresh = 0, w_shmmax = limit\<rparr>,
      ss_seg = (\<lambda>p. segment_new Xsi (channel_id p))\<rparr>"

definition ss_put :: "nat \<Rightarrow> segment \<Rightarrow> shm_world \<Rightarrow> shm_system \<Rightarrow> shm_system" where
  "ss_put p sg w s = \<lparr>ss_world = w, ss_seg = (ss_seg s)(p := sg)\<rparr>"

text \<open>An identity is an array of eight bytes.\<close>

definition identities_sized :: "message_info \<Rightarrow> bool" where
  "identities_sized mi \<longleftrightarrow> length (id_data (mi_sender_id mi)) = ID_SIZE \<and> length (id_data (mi_spare_id mi)) = ID_SIZE"

inductive shm_step :: "(byte list \<Rightarrow> u64) \<Rightarrow> byte_order \<Rightarrow> u64 \<Rightarrow> nat \<Rightarrow> shm_system \<Rightarrow> shm_system \<Rightarrow> bool"
  for hash h host_id where
  "identities_sized mi \<Longrightarrow> length payload < 2 ^ 64 \<Longrightarrow> shm_transmit h host_id payload mi (ss_seg s p) (ss_world s) = Some (Inr (r, sg, w)) \<Longrightarrow>
     shm_step hash h host_id p s (ss_put p sg w s)"
| "shm_read_message hash h i (ss_seg s p) (ss_world s) = Inr (m, sg, w) \<Longrightarrow>
     shm_step hash h host_id p s (ss_put p sg w s)"

section \<open>The invariant\<close>

text \<open>An object has the layout of its size and none of its blocks is locked.\<close>

definition object_ok :: "shm_object \<Rightarrow> bool" where
  "object_ok ob \<longleftrightarrow> (let conf = shm_update (so_ceiling_msg_size ob)
     in sc_ceiling_msg_size conf = so_ceiling_msg_size ob \<and>
        length (so_blocks ob) = unat (sc_block_num conf) \<and> length (so_bufs ob) = unat (sc_block_num conf) \<and>
        (\<forall>b \<in> set (so_blocks ob). sb_lock_num b = 0) \<and>
        (\<forall>bs \<in> set (so_bufs ob). length bs = unat (sc_block_buf_size conf)))"

text \<open>
  A segment that is open maps an object that is the one of its key, or is marked for remapping;
  the object of the key is then at least as large.
\<close>

definition segment_ok :: "shm_world \<Rightarrow> segment \<Rightarrow> bool" where
  "segment_ok w sg \<longleftrightarrow> sg_type sg = Xsi \<and> sg_conf sg = shm_update (sc_ceiling_msg_size (sg_conf sg)) \<and>
     (sg_init sg \<longrightarrow> (\<exists>a ob b ob'. sg_map sg = Some a \<and> w_objects w a = Some ob \<and>
        w_names w (shm_key sg) = Some b \<and> w_objects w b = Some ob' \<and>
        sg_conf sg = shm_update (so_ceiling_msg_size ob) \<and> sg_bufs sg = all_bufs (sg_conf sg) \<and>
        (so_need_remap ob \<or> a = b) \<and> so_ceiling_msg_size ob \<le> so_ceiling_msg_size ob'))"

definition world_ok :: "shm_world \<Rightarrow> bool" where
  "world_ok w \<longleftrightarrow> 2 ^ 29 \<le> w_shmmax w \<and>
     (\<forall>a ob. w_objects w a = Some ob \<longrightarrow> a < w_fresh w \<and> object_ok ob) \<and>
     (\<forall>k a. w_names w k = Some a \<longrightarrow> w_objects w a \<noteq> None)"

text \<open>How a world may change around a segment: objects stay, names move to objects at least as large.\<close>

definition world_le :: "shm_world \<Rightarrow> shm_world \<Rightarrow> bool" where
  "world_le w w' \<longleftrightarrow> w_fresh w \<le> w_fresh w' \<and>
     (\<forall>a ob. w_objects w a = Some ob \<longrightarrow> (\<exists>ob'. w_objects w' a = Some ob' \<and>
        so_ceiling_msg_size ob' = so_ceiling_msg_size ob \<and> (so_need_remap ob \<longrightarrow> so_need_remap ob'))) \<and>
     (\<forall>k a ob. w_names w k = Some a \<longrightarrow> w_objects w a = Some ob \<longrightarrow> (\<exists>b ob'. w_names w' k = Some b \<and>
        w_objects w' b = Some ob' \<and> so_ceiling_msg_size ob \<le> so_ceiling_msg_size ob' \<and>
        (a = b \<or> (\<exists>ob''. w_objects w' a = Some ob'' \<and> so_need_remap ob''))))"

definition system_ok :: "shm_system \<Rightarrow> bool" where
  "system_ok s \<longleftrightarrow> world_ok (ss_world s) \<and> (\<forall>p. segment_ok (ss_world s) (ss_seg s p))"

lemma world_le_refl [simp]: "world_le w w"
  by (auto simp: world_le_def)

lemma world_le_trans:
  assumes "world_le u v" and "world_le v w"
  shows "world_le u w"
  unfolding world_le_def
proof (intro conjI allI impI)
  show "w_fresh u \<le> w_fresh w" using assms by (auto simp: world_le_def)
next
  fix a ob assume "w_objects u a = Some ob"
  with assms(1) obtain ob1 where "w_objects v a = Some ob1" "so_ceiling_msg_size ob1 = so_ceiling_msg_size ob"
    "so_need_remap ob \<longrightarrow> so_need_remap ob1" unfolding world_le_def by blast
  with assms(2) show "\<exists>ob'. w_objects w a = Some ob' \<and> so_ceiling_msg_size ob' = so_ceiling_msg_size ob \<and>
      (so_need_remap ob \<longrightarrow> so_need_remap ob')" unfolding world_le_def by metis
next
  fix k a ob assume "w_names u k = Some a" "w_objects u a = Some ob"
  with assms(1) obtain b ob1 where b: "w_names v k = Some b" "w_objects v b = Some ob1"
    "so_ceiling_msg_size ob \<le> so_ceiling_msg_size ob1"
    "a = b \<or> (\<exists>ob''. w_objects v a = Some ob'' \<and> so_need_remap ob'')" unfolding world_le_def by blast
  with assms(2) obtain c ob2 where c: "w_names w k = Some c" "w_objects w c = Some ob2"
    "so_ceiling_msg_size ob1 \<le> so_ceiling_msg_size ob2"
    "b = c \<or> (\<exists>ob''. w_objects w b = Some ob'' \<and> so_need_remap ob'')" unfolding world_le_def by blast
  from b(4) c(4) assms(2) have "a = c \<or> (\<exists>ob''. w_objects w a = Some ob'' \<and> so_need_remap ob'')"
    unfolding world_le_def by metis
  moreover have "so_ceiling_msg_size ob \<le> so_ceiling_msg_size ob2" using b(3) c(3) by (rule order_trans)
  ultimately show "\<exists>b ob'. w_names w k = Some b \<and> w_objects w b = Some ob' \<and>
      so_ceiling_msg_size ob \<le> so_ceiling_msg_size ob' \<and>
      (a = b \<or> (\<exists>ob''. w_objects w a = Some ob'' \<and> so_need_remap ob''))" using c(1,2) by blast
qed

lemma segment_ok_mono:
  assumes "segment_ok w sg" and "world_le w w'"
  shows "segment_ok w' sg"
proof (cases "sg_init sg")
  case True
  with assms(1) obtain a ob b ob' where sg: "sg_map sg = Some a" "w_objects w a = Some ob"
    "w_names w (shm_key sg) = Some b" "w_objects w b = Some ob'" "sg_conf sg = shm_update (so_ceiling_msg_size ob)"
    "sg_bufs sg = all_bufs (sg_conf sg)" "so_need_remap ob \<or> a = b" "so_ceiling_msg_size ob \<le> so_ceiling_msg_size ob'"
    unfolding segment_ok_def by blast
  from sg(2) assms(2) obtain ob1 where ob1: "w_objects w' a = Some ob1"
    "so_ceiling_msg_size ob1 = so_ceiling_msg_size ob" "so_need_remap ob \<longrightarrow> so_need_remap ob1"
    unfolding world_le_def by blast
  from sg(3,4) assms(2) obtain c ob2 where c: "w_names w' (shm_key sg) = Some c" "w_objects w' c = Some ob2"
    "so_ceiling_msg_size ob' \<le> so_ceiling_msg_size ob2"
    "b = c \<or> (\<exists>ob''. w_objects w' b = Some ob'' \<and> so_need_remap ob'')"
    unfolding world_le_def by blast
  have "so_need_remap ob1 \<or> a = c" using sg(7) c(4) ob1 by auto
  with sg ob1 c assms(1) show ?thesis unfolding segment_ok_def by (metis order_trans)
qed (use assms in \<open>auto simp: segment_ok_def\<close>)


text \<open>A segment that is open and maps the object \<open>ob\<close>, which is the one of its key.\<close>

definition current :: "segment \<Rightarrow> shm_world \<Rightarrow> nat \<Rightarrow> shm_object \<Rightarrow> bool" where
  "current sg w a ob \<longleftrightarrow> sg_init sg \<and> sg_type sg = Xsi \<and> sg_map sg = Some a \<and> w_objects w a = Some ob \<and>
     w_names w (shm_key sg) = Some a \<and> sg_conf sg = shm_update (so_ceiling_msg_size ob) \<and>
     sg_bufs sg = all_bufs (sg_conf sg)"

lemma object_okD:
  assumes "object_ok ob"
  shows "sc_ceiling_msg_size (shm_update (so_ceiling_msg_size ob)) = so_ceiling_msg_size ob"
    and "length (so_blocks ob) = unat (sc_block_num (shm_update (so_ceiling_msg_size ob)))"
    and "length (so_bufs ob) = unat (sc_block_num (shm_update (so_ceiling_msg_size ob)))"
    and "i < length (so_blocks ob) \<Longrightarrow> sb_lock_num (so_blocks ob ! i) = 0"
    and "i < length (so_bufs ob) \<Longrightarrow> length (so_bufs ob ! i) = unat (sc_block_buf_size (shm_update (so_ceiling_msg_size ob)))"
  using assms by (auto simp: object_ok_def Let_def)

lemma world_okD:
  assumes "world_ok w"
  shows "2 ^ 29 \<le> w_shmmax w" and "w_objects w a = Some ob \<Longrightarrow> a < w_fresh w" and
    "w_objects w a = Some ob \<Longrightarrow> object_ok ob" and "w_names w k = Some a \<Longrightarrow> \<exists>ob. w_objects w a = Some ob"
  using assms by (auto simp: world_ok_def)

lemma current_segment_ok:
  "current sg w a ob \<Longrightarrow> world_ok w \<Longrightarrow> segment_ok w sg"
  using object_okD(1) [OF world_okD(3), of w a ob] by (auto simp: current_def segment_ok_def)

lemma conf_size: "unat (sc_managed_shm_size (shm_update n)) < 2 ^ 29"
  by (cases rule: shm_update_cases [of n]) simp_all

lemma put_object_twice [simp]: "put_object a x (put_object a y w) = put_object a x w"
  by (simp add: put_object_def)

lemma put_object_simps [simp]:
  "w_objects (put_object a ob w) = (w_objects w)(a \<mapsto> ob)" "w_names (put_object a ob w) = w_names w"
  "w_fresh (put_object a ob w) = w_fresh w" "w_shmmax (put_object a ob w) = w_shmmax w"
  by (simp_all add: put_object_def)

lemma put_object_ok:
  assumes "world_ok w" and "w_objects w a = Some ob" and "object_ok ob'"
    and "so_ceiling_msg_size ob' = so_ceiling_msg_size ob" and "so_need_remap ob \<Longrightarrow> so_need_remap ob'"
  shows "world_ok (put_object a ob' w)" and "world_le w (put_object a ob' w)"
  using assms by (auto simp: world_ok_def world_le_def)

lemma put_object_current:
  "current sg w a ob \<Longrightarrow> so_ceiling_msg_size ob' = so_ceiling_msg_size ob \<Longrightarrow> current sg (put_object a ob' w) a ob'"
  by (simp add: current_def)

lemma increase_simps [simp]:
  "so_ceiling_msg_size (increase_reference_counts ob) = so_ceiling_msg_size ob"
  "so_need_remap (increase_reference_counts ob) = so_need_remap ob"
  "so_blocks (increase_reference_counts ob) = so_blocks ob" "so_bufs (increase_reference_counts ob) = so_bufs ob"
  "object_ok (increase_reference_counts ob) = object_ok ob"
  by (simp_all add: increase_reference_counts_def object_ok_def)

section \<open>Opening\<close>

lemma open_only_current:
  assumes "world_ok w" and "sg_type sg = Xsi" and "\<not> sg_init sg" and "w_names w (shm_key sg) = Some a"
    and "w_objects w a = Some ob"
  shows "\<exists>sg' w'. open_only sg w = (True, sg', w') \<and> current sg' w' a (increase_reference_counts ob) \<and>
    world_ok w' \<and> world_le w w' \<and> sg_channel_id sg' = sg_channel_id sg"
proof -
  have "object_ok (increase_reference_counts ob)" using assms world_okD(3) by simp
  with put_object_ok [OF assms(1,5)] have
    "world_ok (put_object a (increase_reference_counts ob) w)" "world_le w (put_object a (increase_reference_counts ob) w)"
    by simp_all
  with assms(2-) show ?thesis by (simp add: open_only_defs Let_def current_def shm_key_defs)
qed

lemma object_new_ok:
  assumes "sg_conf sg = shm_update n"
  shows "object_ok (object_new (sg_conf sg))" and "shm_update (so_ceiling_msg_size (object_new (sg_conf sg))) = sg_conf sg"
proof -
  have idem: "shm_update (sc_ceiling_msg_size (shm_update n)) = shm_update n"
    by (simp add: shm_update_def Let_def ceiling_idem)
  then show "shm_update (so_ceiling_msg_size (object_new (sg_conf sg))) = sg_conf sg"
    using assms by (simp add: object_new_def)
  then show "object_ok (object_new (sg_conf sg))"
    using assms idem by (simp add: object_ok_def object_new_def block_new_def Let_def)
qed

text \<open>Creating the object of a key that has none.\<close>

lemma open_or_create_new:
  assumes "2 ^ 29 \<le> w_shmmax w" and "sg_type sg = Xsi" and "\<not> sg_init sg" and "w_names w (shm_key sg) = None"
    and "sg_conf sg = shm_update n"
  defines "ob \<equiv> increase_reference_counts (object_new (sg_conf sg))"
  shows "\<exists>sg'. open_or_create sg w = (True, sg',
      put_object (w_fresh w) ob (w\<lparr>w_names := (w_names w)(shm_key sg \<mapsto> w_fresh w), w_fresh := w_fresh w + 1\<rparr>)) \<and>
    sg_channel_id sg' = sg_channel_id sg \<and>
    current sg' (put_object (w_fresh w) ob
      (w\<lparr>w_names := (w_names w)(shm_key sg \<mapsto> w_fresh w), w_fresh := w_fresh w + 1\<rparr>)) (w_fresh w) ob"
proof -
  have fits: "\<not> w_shmmax w < unat (sc_managed_shm_size (sg_conf sg))"
    using conf_size [of n] assms(1,5) by simp
  show ?thesis
    using assms(2-4) fits object_new_ok(2) [OF assms(5)]
    by (auto simp: open_or_create_defs Let_def ob_def current_def shm_key_defs)
qed

lemma ceiling_mono: "m \<le> n \<Longrightarrow> get_ceiling_message_size m \<le> get_ceiling_message_size n"
  by (auto simp: get_ceiling_message_size_def shm_constants)

lemma ceiling_max: "get_ceiling_message_size n \<le> MESSAGE_SIZE_MORE"
  by (cases rule: ceiling_cases [of n]) (simp_all add: shm_constants)

lemma ceiling_le_new:
  assumes "get_ceiling_message_size c = c" and "c < m"
  shows "c \<le> get_ceiling_message_size m"
  using ceiling_mono [of c m] assms by simp

lemma conf_ceiling [simp]: "sc_ceiling_msg_size (shm_update n) = get_ceiling_message_size n"
  by (simp add: shm_update_def Let_def)

lemma shm_update_ceiling [simp]: "shm_update (get_ceiling_message_size n) = shm_update n"
  by (simp add: shm_update_def Let_def ceiling_idem)

text \<open>\<open>Recreate\<close>: the old object is marked, the key gets a new and larger one.\<close>

lemma segment_recreate_current:
  assumes ok: "world_ok w" and cur: "current sg w a ob" and "so_ceiling_msg_size ob < m"
  shows "\<exists>sg' w' b ob'. segment_recreate m sg w = (True, sg', w') \<and> current sg' w' b ob' \<and>
    world_ok w' \<and> world_le w w' \<and> sg_channel_id sg' = sg_channel_id sg \<and>
    so_ceiling_msg_size ob' = get_ceiling_message_size m"
proof -
  define ob1 where "ob1 = ob\<lparr>so_need_remap := True\<rparr>"
  define sg1 where "sg1 = (segment_reset (sg\<lparr>sg_init := False\<rparr>))\<lparr>sg_conf := shm_update m\<rparr>"
  define w2 where "w2 = (put_object a ob1 w)\<lparr>w_names := (w_names w)(shm_key sg := None)\<rparr>"
  define ob' where "ob' = increase_reference_counts (object_new (sg_conf sg1))"
  define w' where "w' = put_object (w_fresh w) ob' (w2\<lparr>w_names := (w_names w2)(shm_key sg1 \<mapsto> w_fresh w), w_fresh := w_fresh w + 1\<rparr>)"
  have a: "w_objects w a = Some ob" "w_names w (shm_key sg) = Some a" "sg_map sg = Some a" "sg_type sg = Xsi"
    using cur by (simp_all add: current_def)
  have key: "shm_key sg1 = shm_key sg" using a by (simp add: sg1_def segment_reset_eq shm_key_defs)
  have ob: "object_ok ob" using ok a(1) by (rule world_okD(3))
  have obs: "object_ok ob1" "so_ceiling_msg_size ob1 = so_ceiling_msg_size ob" "so_need_remap ob1"
    using ob by (simp_all add: ob1_def object_ok_def)
  have fresh: "a < w_fresh w" using ok a(1) by (rule world_okD(2))
  have step: "segment_recreate m sg w = open_or_create sg1 w2"
    using a key by (simp add: segment_recreate_def Let_def update_mapped_def segment_remove_eq
        segment_reset_eq w2_def sg1_def ob1_def shm_key_defs put_object_def)
  have "2 ^ 29 \<le> w_shmmax w2" "w_fresh w2 = w_fresh w" "w_names w2 (shm_key sg1) = None"
    using world_okD(1) [OF ok] key by (simp_all add: w2_def)
  moreover have "sg_type sg1 = Xsi" "\<not> sg_init sg1" "sg_conf sg1 = shm_update m" "sg_channel_id sg1 = sg_channel_id sg"
    using a by (simp_all add: sg1_def segment_reset_eq)
  ultimately obtain sg' where sg': "open_or_create sg1 w2 = (True, sg', w')" "sg_channel_id sg' = sg_channel_id sg"
    "current sg' w' (w_fresh w) ob'"
    using open_or_create_new [of w2 sg1 m] by (auto simp: w'_def ob'_def)
  have ob': "so_ceiling_msg_size ob' = get_ceiling_message_size m" "object_ok ob'"
    using object_new_ok(1) [of sg1 m] by (simp_all add: ob'_def sg1_def object_new_def)
  have "so_ceiling_msg_size ob \<le> get_ceiling_message_size m"
    using object_okD(1) [OF ob] assms(3) by (intro ceiling_le_new) simp_all
  moreover have objs: "w_objects w' = (w_objects w)(a \<mapsto> ob1, w_fresh w \<mapsto> ob')"
    and names: "w_names w' = (w_names w)(shm_key sg \<mapsto> w_fresh w)" and "w_fresh w' = w_fresh w + 1"
    and "w_shmmax w' = w_shmmax w"
    using key by (simp_all add: w'_def w2_def)
  ultimately have "world_le w w'" "world_ok w'"
    using ok a fresh obs ob' by (auto simp: world_le_def world_ok_def less_Suc_eq)
  with step sg' ob' show ?thesis by metis
qed


section \<open>Writing\<close>

text \<open>Which block the search finds does not matter; the sequence counter moves on.\<close>

lemma next_writable_block_object_ok:
  assumes "object_ok ob" and "num = unat (sc_block_num (shm_update (so_ceiling_msg_size ob)))"
  shows "\<exists>i seq. i < num \<and>
    next_writable_block num ob = Some (i, on_block i (\<lambda>b. b\<lparr>sb_lock_num := - 1\<rparr>) (ob\<lparr>so_seq := seq\<rparr>))"
proof -
  have num: "num = length (so_blocks ob)" using object_okD(2) [OF assms(1)] assms(2) by simp
  have pos: "0 < num" using assms(2) by (cases rule: shm_update_cases [of "so_ceiling_msg_size ob"]) simp_all
  then have "unat (so_seq ob) mod num < num" by simp
  then have "sb_lock_num (so_blocks ob ! (unat (so_seq ob + of_nat 0) mod num)) = 0"
    using object_okD(4) [OF assms(1)] num by simp
  then obtain r where r: "next_writable_block num ob = Some r" using next_writable_block_finds by blast
  from next_writable_block_taken [OF this] pos obtain seq where "fst r < num"
    "snd r = on_block (fst r) (\<lambda>b. b\<lparr>sb_lock_num := - 1\<rparr>) (ob\<lparr>so_seq := seq\<rparr>)" by auto
  with r show ?thesis by (metis prod.collapse)
qed

lemma remap_current:
  assumes ok: "world_ok w" and sg: "segment_ok w sg" and "sg_init sg"
    and "mapped sg w = Some ob" and "so_need_remap ob"
  shows "\<exists>sg' w' a ob1. segment_remap sg w = (True, sg', w') \<and> w_names w (shm_key sg) = Some a \<and>
    w_objects w a = Some ob1 \<and> current sg' w' a (increase_reference_counts ob1) \<and>
    so_ceiling_msg_size ob \<le> so_ceiling_msg_size ob1 \<and>
    world_ok w' \<and> world_le w w' \<and> sg_channel_id sg' = sg_channel_id sg"
proof -
  from sg assms(3,4) obtain a ob1 where b: "w_names w (shm_key sg) = Some a" "w_objects w a = Some ob1"
    "so_ceiling_msg_size ob \<le> so_ceiling_msg_size ob1" unfolding segment_ok_def mapped_def by auto
  let ?sg = "segment_reset (sg\<lparr>sg_init := False\<rparr>)"
  have sg': "sg_type ?sg = Xsi" "\<not> sg_init ?sg" "sg_channel_id ?sg = sg_channel_id sg" "shm_key ?sg = shm_key sg"
    using sg by (simp_all add: segment_reset_eq segment_ok_def shm_key_defs)
  with open_only_current [OF ok, of ?sg] b show ?thesis by (auto simp: segment_remap_def)
qed

lemma open_segment_current:
  assumes "segment_ok w sg" and "sg_init sg" and "mapped sg w = Some ob" and "\<not> so_need_remap ob"
  shows "\<exists>a. current sg w a ob"
  using assms unfolding segment_ok_def mapped_def current_def by auto

lemma open_segment_mapped:
  assumes "segment_ok w sg" and "sg_init sg"
  shows "\<exists>ob. mapped sg w = Some ob \<and> sg_conf sg = shm_update (so_ceiling_msg_size ob)"
  using assms unfolding segment_ok_def mapped_def by auto

text \<open>A writer has, before it looks for a block, the current object.\<close>

lemma writer_open:
  assumes ok: "world_ok w" and sg: "segment_ok w sg"
  shows "\<exists>sg' w'. (if sg_init sg then (True, sg, w) else open_or_create sg w) = (True, sg', w') \<and>
    sg_init sg' \<and> segment_ok w' sg' \<and> world_ok w' \<and> world_le w w' \<and> sg_channel_id sg' = sg_channel_id sg"
proof (cases "sg_init sg")
  case False
  show ?thesis
  proof (cases "w_names w (shm_key sg)")
    case None
    let ?ob = "increase_reference_counts (object_new (sg_conf sg))"
    let ?w = "put_object (w_fresh w) ?ob (w\<lparr>w_names := (w_names w)(shm_key sg \<mapsto> w_fresh w), w_fresh := w_fresh w + 1\<rparr>)"
    have conf: "sg_conf sg = shm_update (sc_ceiling_msg_size (sg_conf sg))" "sg_type sg = Xsi"
      using sg by (simp_all add: segment_ok_def)
    obtain sg' where sg': "open_or_create sg w = (True, sg', ?w)" "sg_channel_id sg' = sg_channel_id sg"
      "current sg' ?w (w_fresh w) ?ob"
      using open_or_create_new [OF world_okD(1) [OF ok] conf(2) False None conf(1)] by blast
    have "object_ok ?ob" using object_new_ok(1) [OF conf(1)] by simp
    then have "world_ok ?w" "world_le w ?w"
      using ok None by (auto simp: world_ok_def world_le_def less_Suc_eq)
    moreover from sg'(3) this(1) have "segment_ok ?w sg'" by (rule current_segment_ok)
    moreover have "sg_init sg'" using sg'(3) by (simp add: current_def)
    ultimately show ?thesis using False sg'(1,2) by auto
  next
    case (Some a)
    with world_okD(4) [OF ok] obtain ob where ob: "w_objects w a = Some ob" by blast
    have xsi: "sg_type sg = Xsi" using sg by (simp add: segment_ok_def)
    from open_only_current [OF ok xsi False Some ob] obtain sg' w' where
      "open_only sg w = (True, sg', w')" "current sg' w' a (increase_reference_counts ob)" "world_ok w'" "world_le w w'"
      "sg_channel_id sg' = sg_channel_id sg" by blast
    moreover from this(2,3) have "segment_ok w' sg'" by (rule current_segment_ok)
    moreover have "sg_init sg'" using calculation(2) by (simp add: current_def)
    ultimately show ?thesis using False Some xsi by (auto simp: open_or_create_defs)
  qed
qed (use assms in auto)


lemma acquire_block_to_write_current:
  assumes ok: "world_ok w" and sg: "segment_ok w sg"
  shows "\<exists>sg' w' a ob i seq. acquire_block_to_write m sg w =
      Some (Inr (Some i, sg', put_object a (on_block i (\<lambda>b. b\<lparr>sb_lock_num := - 1\<rparr>) (ob\<lparr>so_seq := seq\<rparr>)) w')) \<and>
    current sg' w' a ob \<and> world_ok w' \<and> world_le w w' \<and> sg_channel_id sg' = sg_channel_id sg \<and>
    i < unat (sc_block_num (sg_conf sg')) \<and> get_ceiling_message_size m \<le> so_ceiling_msg_size ob"
proof -
  obtain sg1 w1 where 1: "(if sg_init sg then (True, sg, w) else open_or_create sg w) = (True, sg1, w1)"
    "sg_init sg1" "segment_ok w1 sg1" "world_ok w1" "world_le w w1" "sg_channel_id sg1 = sg_channel_id sg"
    using writer_open [OF assms] by blast
  obtain ob1 where ob1: "mapped sg1 w1 = Some ob1" using open_segment_mapped [OF 1(3,2)] by blast
  have "\<exists>sg2 w2 a ob. (if so_need_remap ob1 then segment_remap sg1 w1 else (True, sg1, w1)) = (True, sg2, w2) \<and>
      current sg2 w2 a ob \<and> world_ok w2 \<and> world_le w1 w2 \<and> sg_channel_id sg2 = sg_channel_id sg1"
  proof (cases "so_need_remap ob1")
    case True
    with remap_current [OF 1(4,3,2) ob1] show ?thesis by auto
  next
    case False
    with open_segment_current [OF 1(3,2) ob1] 1(4) show ?thesis by auto
  qed
  then obtain sg2 w2 a2 ob2 where 2: "(if so_need_remap ob1 then segment_remap sg1 w1 else (True, sg1, w1)) = (True, sg2, w2)"
    "current sg2 w2 a2 ob2" "world_ok w2" "world_le w1 w2" "sg_channel_id sg2 = sg_channel_id sg1" by blast
  have conf2: "sc_ceiling_msg_size (sg_conf sg2) = so_ceiling_msg_size ob2" and map2: "mapped sg2 w2 = Some ob2"
    using 2(2) object_okD(1) [OF world_okD(3) [OF 2(3)], of a2 ob2] by (auto simp: current_def mapped_def)
  have "\<exists>sg3 w3 a ob. (if so_ceiling_msg_size ob2 < m then segment_recreate m sg2 w2 else (True, sg2, w2)) = (True, sg3, w3) \<and>
      current sg3 w3 a ob \<and> world_ok w3 \<and> world_le w2 w3 \<and> sg_channel_id sg3 = sg_channel_id sg2 \<and>
      get_ceiling_message_size m \<le> so_ceiling_msg_size ob"
  proof (cases "so_ceiling_msg_size ob2 < m")
    case True
    with segment_recreate_current [OF 2(3,2) True] show ?thesis by (metis order_refl)
  next
    case False
    then have "get_ceiling_message_size m \<le> get_ceiling_message_size (so_ceiling_msg_size ob2)"
      by (intro ceiling_mono) simp
    also have "\<dots> = so_ceiling_msg_size ob2"
      using 2(2,3) object_okD(1) [OF world_okD(3) [OF 2(3)], of a2 ob2] by (simp add: current_def)
    finally show ?thesis using False 2(2,3) by auto
  qed
  then obtain sg3 w3 a ob where 3: "(if so_ceiling_msg_size ob2 < m then segment_recreate m sg2 w2 else (True, sg2, w2)) = (True, sg3, w3)"
    "current sg3 w3 a ob" "world_ok w3" "world_le w2 w3" "sg_channel_id sg3 = sg_channel_id sg2"
    "get_ceiling_message_size m \<le> so_ceiling_msg_size ob" by blast
  have obj: "w_objects w3 a = Some ob" "sg_map sg3 = Some a" "sg_conf sg3 = shm_update (so_ceiling_msg_size ob)"
    using 3(2) by (simp_all add: current_def)
  have map3: "mapped sg3 w3 = Some ob" using obj by (simp add: mapped_def)
  obtain i seq where i: "i < unat (sc_block_num (sg_conf sg3))" "next_writable_block (unat (sc_block_num (sg_conf sg3))) ob =
      Some (i, on_block i (\<lambda>b. b\<lparr>sb_lock_num := - 1\<rparr>) (ob\<lparr>so_seq := seq\<rparr>))"
    using next_writable_block_object_ok [OF world_okD(3) [OF 3(3) obj(1)] refl] obj(3) by auto
  have "acquire_block_to_write m sg w =
      Some (Inr (Some i, sg3, put_object a (on_block i (\<lambda>b. b\<lparr>sb_lock_num := - 1\<rparr>) (ob\<lparr>so_seq := seq\<rparr>)) w3))"
    unfolding acquire_block_to_write_def 1(1)
    by (simp add: ob1 2(1) conf2 map2 3(1) map3 i(2) update_mapped_def obj(1,2))
  moreover have "world_le w w3" using 1(5) 2(4) 3(4) by (blast intro: world_le_trans)
  moreover have "sg_channel_id sg3 = sg_channel_id sg" using 1(6) 2(5) 3(5) by simp
  ultimately show ?thesis using 3(2,3,6) i(1) by blast
qed


text \<open>Which messages do not fit.\<close>

lemma buffer_too_small:
  assumes "n < 2 ^ 64" and "get_ceiling_message_size (of_nat n) \<le> c" and "get_ceiling_message_size c = c"
  shows "unat (sc_block_buf_size (shm_update c)) < n + (ID_SIZE * 2 + 8) \<longleftrightarrow> 33555432 < n"
proof -
  have buf: "unat (sc_block_buf_size (shm_update c)) = unat c + 1024"
    using assms(3) by (cases rule: ceiling_cases [of c]) (simp_all add: shm_update_def Let_def get_block_buf_size_def shm_constants)
  have more: "unat MESSAGE_SIZE_MORE = 33554432" by (simp add: shm_constants)
  have c: "unat c \<le> 33554432"
    using ceiling_max [of c] assms(3) more by (simp add: word_le_nat_alt)
  have n: "unat (of_nat n :: u64) = n" using assms(1) by (simp add: unat_of_nat)
  show ?thesis
  proof (cases "n \<le> 33554432")
    case True
    then have "(of_nat n :: u64) \<le> MESSAGE_SIZE_MORE" using n more by (simp add: word_le_nat_alt)
    then have "(of_nat n :: u64) \<le> c" using ceiling_bound assms(2) by (metis order_trans)
    then have "n \<le> unat c" using n by (simp add: word_le_nat_alt)
    with True show ?thesis using buf by (simp add: ID_SIZE_def)
  next
    case False
    have "MESSAGE_SIZE_16M \<le> MESSAGE_SIZE_MORE" "unat MESSAGE_SIZE_16M = 16777216" by (simp_all add: shm_constants)
    moreover have "\<not> (of_nat n :: u64) \<le> MESSAGE_SIZE_MORE" using False n more by (simp add: word_le_nat_alt)
    ultimately have "get_ceiling_message_size (of_nat n) = MESSAGE_SIZE_MORE"
      by (simp add: get_ceiling_message_size_def shm_constants) (auto simp: word_le_nat_alt)
    with assms(2) have "33554432 \<le> unat c" using more by (simp add: word_le_nat_alt)
    with c show ?thesis using buf by (simp add: ID_SIZE_def)
  qed
qed

definition message_bytes :: "byte_order \<Rightarrow> byte list \<Rightarrow> message_info \<Rightarrow> byte list" where
  "message_bytes h payload mi =
     payload @ id_data (mi_sender_id mi) @ id_data (mi_spare_id mi) @ host_bytes h 8 (mi_seq_num mi)"

lemma length_message_bytes: "identities_sized mi \<Longrightarrow> length (message_bytes h payload mi) = length payload + (ID_SIZE * 2 + 8)"
  by (simp add: message_bytes_def identities_sized_def)

text \<open>The object once the message is in block \<open>i\<close>.\<close>

definition written :: "byte_order \<Rightarrow> byte list \<Rightarrow> message_info \<Rightarrow> nat \<Rightarrow> u32 \<Rightarrow> shm_object \<Rightarrow> shm_object" where
  "written h payload mi i seq ob = (let bs = message_bytes h payload mi
     in ob\<lparr>so_seq := seq, so_bufs := (so_bufs ob)[i := bs @ drop (length bs) (so_bufs ob ! i)],
          so_blocks := (so_blocks ob)[i := \<lparr>sb_lock_num = 0, sb_msg_size = of_nat (length payload),
            sb_msg_info_size = of_nat (ID_SIZE * 2 + 8)\<rparr>]\<rparr>)"

lemma block_updates [simp]:
  "b\<lparr>sb_msg_size := n, sb_msg_info_size := m, sb_lock_num := l\<rparr> = \<lparr>sb_lock_num = l, sb_msg_size = n, sb_msg_info_size = m\<rparr>"
  by (cases b) simp

lemma written_simps [simp]:
  "so_ceiling_msg_size (written h payload mi i seq ob) = so_ceiling_msg_size ob"
  "so_need_remap (written h payload mi i seq ob) = so_need_remap ob"
  by (simp_all add: written_def Let_def)

lemma written_ok:
  assumes "object_ok ob" and "i < length (so_blocks ob)" and "identities_sized mi"
    and "length payload + (ID_SIZE * 2 + 8) \<le> unat (sc_block_buf_size (shm_update (so_ceiling_msg_size ob)))"
  shows "object_ok (written h payload mi i seq ob)"
  using assms length_message_bytes [OF assms(3)]
  by (auto simp: object_ok_def written_def Let_def dest!: set_update_subset_insert [THEN subsetD])


lemma written_current:
  assumes "object_ok (written h payload mi i seq ob)" and "current sg w' a ob" and "world_ok w'" and "world_le w w'"
  defines "v \<equiv> put_object a (written h payload mi i seq ob) w'"
  shows "world_ok v" and "world_le w v" and "current sg v a (written h payload mi i seq ob)"
proof -
  have a: "w_objects w' a = Some ob" using assms(2) by (simp add: current_def)
  from put_object_ok [OF assms(3) a assms(1)] show "world_ok v" "world_le w v"
    using assms(4) by (auto simp: v_def intro: world_le_trans)
  show "current sg v a (written h payload mi i seq ob)"
    unfolding v_def using assms(2) by (rule put_object_current) simp
qed

text \<open>\<open>Transmit\<close> writes the message into some block of the current object, if it fits.\<close>

lemma shm_transmit_written:
  assumes ok: "world_ok w" and sg: "segment_ok w sg" and n: "length payload < 2 ^ 64" and mi: "identities_sized mi"
  shows "if 33555432 < length payload then shm_transmit h host_id payload mi sg w = Some (Inl OutOfBounds)
    else \<exists>sg' w' a ob i seq. shm_transmit h host_id payload mi sg w =
        Some (Inr (Some \<lparr>ri_host_id = host_id, ri_block_index = of_nat i, ri_channel_id = sg_channel_id sg\<rparr>,
          sg', put_object a (written h payload mi i seq ob) w')) \<and>
      i < length (so_blocks ob) \<and> current sg' w' a ob \<and> object_ok (written h payload mi i seq ob) \<and>
      world_ok w' \<and> world_le w w' \<and> sg_channel_id sg' = sg_channel_id sg"
proof -
  let ?m = "of_nat (length payload) :: u64"
  obtain sg' w' a ob i seq where acq: "acquire_block_to_write ?m sg w =
      Some (Inr (Some i, sg', put_object a (on_block i (\<lambda>b. b\<lparr>sb_lock_num := - 1\<rparr>) (ob\<lparr>so_seq := seq\<rparr>)) w'))"
    and cur: "current sg' w' a ob" and ok': "world_ok w'" "world_le w w'" "sg_channel_id sg' = sg_channel_id sg"
    and i: "i < unat (sc_block_num (sg_conf sg'))" and ceil: "get_ceiling_message_size ?m \<le> so_ceiling_msg_size ob"
    using acquire_block_to_write_current [OF assms(1,2), of ?m] by blast
  have a: "sg_map sg' = Some a" "w_objects w' a = Some ob" "sg_conf sg' = shm_update (so_ceiling_msg_size ob)"
    "sg_bufs sg' i = Some i" using cur i by (simp_all add: current_def all_bufs_def)
  have ob: "object_ok ob" using ok'(1) a(2) by (rule world_okD(3))
  have i': "i < length (so_blocks ob)" using object_okD(2) [OF ob] a(3) i by simp
  have small: "unat (sc_block_buf_size (sg_conf sg')) < length payload + (ID_SIZE * 2 + 8) \<longleftrightarrow> 33555432 < length payload"
    using buffer_too_small [OF n ceil] object_okD(1) [OF ob] a(3) by simp
  show ?thesis
  proof (cases "33555432 < length payload")
    case True
    with acq a(4) small show ?thesis by (simp add: shm_transmit_def)
  next
    case False
    have "shm_transmit h host_id payload mi sg w =
        Some (Inr (Some \<lparr>ri_host_id = host_id, ri_block_index = of_nat i, ri_channel_id = sg_channel_id sg\<rparr>,
          sg', put_object a (written h payload mi i seq ob) w'))"
      using acq a i i' small False
      by (simp add: shm_transmit_def update_mapped_def release_written_block_def fill_block_def on_block_def
          written_def message_bytes_def Let_def)
    moreover have "object_ok (written h payload mi i seq ob)"
      using written_ok [OF ob i' mi] small False a(3) by simp
    ultimately have "\<exists>sg' w' a ob i seq. shm_transmit h host_id payload mi sg w =
        Some (Inr (Some \<lparr>ri_host_id = host_id, ri_block_index = of_nat i, ri_channel_id = sg_channel_id sg\<rparr>,
          sg', put_object a (written h payload mi i seq ob) w')) \<and>
      i < length (so_blocks ob) \<and> current sg' w' a ob \<and> object_ok (written h payload mi i seq ob) \<and>
      world_ok w' \<and> world_le w w' \<and> sg_channel_id sg' = sg_channel_id sg" using i' cur ok' by blast
    with False show ?thesis by simp
  qed
qed

section \<open>Reading\<close>

lemma block_num_antimono:
  assumes "get_ceiling_message_size c = c" and "get_ceiling_message_size d = d" and "c \<le> d"
  shows "unat (sc_block_num (shm_update d)) \<le> unat (sc_block_num (shm_update c))"
  using assms by (cases rule: ceiling_cases [of c]; cases rule: ceiling_cases [of d])
    (simp_all add: shm_update_def Let_def get_block_num_def shm_constants)

text \<open>A block of the object of its key can be had by any reader, which then has the object open.\<close>

lemma acquire_block_to_read_current:
  assumes ok: "world_ok w" and sg: "segment_ok w sg" and b: "w_names w (shm_key sg) = Some b" "w_objects w b = Some ob"
    and i: "i < length (so_blocks ob)"
  shows "\<exists>sg' w' ob'. acquire_block_to_read i sg w =
      Inr (True, sg', put_object b (on_block i (\<lambda>b. b\<lparr>sb_lock_num := 1\<rparr>) ob') w') \<and>
    current sg' w' b ob' \<and> so_blocks ob' = so_blocks ob \<and> so_bufs ob' = so_bufs ob \<and>
    world_ok w' \<and> world_le w w' \<and> sg_channel_id sg' = sg_channel_id sg"
proof -
  have num: "length (so_blocks ob) = unat (sc_block_num (shm_update (so_ceiling_msg_size ob)))"
    and unlocked: "sb_lock_num (so_blocks ob ! i) = 0" and ceil: "get_ceiling_message_size (so_ceiling_msg_size ob) = so_ceiling_msg_size ob"
    using object_okD [OF world_okD(3) [OF ok b(2)]] i by simp_all
  let ?ob = "increase_reference_counts ob"
  have enough: ?thesis if "current sg2 w2 b ob2" "so_blocks ob2 = so_blocks ob" "so_bufs ob2 = so_bufs ob"
      "world_ok w2" "world_le w w2" "sg_channel_id sg2 = sg_channel_id sg"
      "acquire_block_to_read i sg w = (case mapped sg2 w2 of None \<Rightarrow> Inl NullPointer
        | Some ob \<Rightarrow> if length (so_blocks ob) \<le> i then Inl OutOfBounds
            else if sb_lock_num (so_blocks ob ! i) < 0 then Inr (False, sg2, w2)
            else Inr (True, sg2, update_mapped (on_block i (\<lambda>b. b\<lparr>sb_lock_num := sb_lock_num b + 1\<rparr>)) sg2 w2))"
    for sg2 w2 ob2
  proof -
    have "acquire_block_to_read i sg w = Inr (True, sg2, put_object b (on_block i (\<lambda>b. b\<lparr>sb_lock_num := 1\<rparr>) ob2) w2)"
      using that unlocked i by (simp add: current_def mapped_def update_mapped_def on_block_def)
    with that show ?thesis by blast
  qed
  show ?thesis
  proof (cases "sg_init sg")
    case False
    note closed = False
    have "sg_type sg = Xsi" using sg by (simp add: segment_ok_def)
    from open_only_current [OF ok this closed b] obtain sg' w' where
      o: "open_only sg w = (True, sg', w')" "current sg' w' b ?ob" "world_ok w'" "world_le w w'"
      "sg_channel_id sg' = sg_channel_id sg" by blast
    show ?thesis
    proof (cases "so_need_remap ob")
      case True
      have "segment_ok w' sg'" using o(2,3) by (rule current_segment_ok)
      moreover have m: "mapped sg' w' = Some ?ob" "sg_init sg'" "w_objects w' b = Some ?ob"
        "w_names w' (shm_key sg') = Some b" "sg_conf sg' = shm_update (so_ceiling_msg_size ob)"
        using o(2) by (simp_all add: current_def mapped_def)
      ultimately obtain sg2 w2 where
        "segment_remap sg' w' = (True, sg2, w2)" "current sg2 w2 b (increase_reference_counts ?ob)" "world_ok w2" "world_le w' w2"
        "sg_channel_id sg2 = sg_channel_id sg'" using remap_current [OF o(3), of sg' ?ob] True by auto
      then show ?thesis using True closed o m num i world_le_trans [OF o(4)]
        by (intro enough [of sg2 w2 "increase_reference_counts ?ob"]) (auto simp: acquire_block_to_read_def)
    next
      case False
      show ?thesis by (rule enough [OF o(2)]) (use False closed o num i in \<open>auto simp: acquire_block_to_read_def current_def mapped_def\<close>)
    qed
  next
    case True
    then obtain ob0 where ob0: "mapped sg w = Some ob0" "sg_conf sg = shm_update (so_ceiling_msg_size ob0)"
      using open_segment_mapped [OF sg] by blast
    show ?thesis
    proof (cases "so_need_remap ob0")
      case True
      from remap_current [OF ok sg \<open>sg_init sg\<close> ob0(1) True] b obtain sg' w' where
        m: "segment_remap sg w = (True, sg', w')" "current sg' w' b ?ob" "world_ok w'" "world_le w w'"
        "sg_channel_id sg' = sg_channel_id sg" "so_ceiling_msg_size ob0 \<le> so_ceiling_msg_size ob" by auto
      have "get_ceiling_message_size (so_ceiling_msg_size ob0) = so_ceiling_msg_size ob0"
        using ob0(1) ok object_okD(1) [OF world_okD(3)] by (auto simp: mapped_def bind_eq_Some_conv)
      from block_num_antimono [OF this ceil m(6)] num i ob0(2) have "\<not> unat (sc_block_num (sg_conf sg)) \<le> i" by simp
      then show ?thesis using True \<open>sg_init sg\<close> m ob0(1)
        by (intro enough [of sg' w' ?ob]) (auto simp: acquire_block_to_read_def)
    next
      case False
      from open_segment_current [OF sg \<open>sg_init sg\<close> ob0(1) False] b ob0(1) have "current sg w b ob" "ob0 = ob"
        by (auto simp: current_def mapped_def)
      then show ?thesis
        by (intro enough [of sg w ob]) (use False \<open>sg_init sg\<close> ob0 ok num i in \<open>auto simp: acquire_block_to_read_def\<close>)
    qed
  qed
qed


text \<open>What a reader gets from block \<open>i\<close>.\<close>

definition message_read :: "(byte list \<Rightarrow> u64) \<Rightarrow> byte_order \<Rightarrow> byte list \<Rightarrow> nat \<Rightarrow> byte list \<times> message_info" where
  "message_read hash h bs n = (let info = drop n bs; new = message_info_new hash in (take n bs, new\<lparr>
     mi_sender_id := (mi_sender_id new)\<lparr>id_data := take ID_SIZE info\<rparr>,
     mi_spare_id := (mi_spare_id new)\<lparr>id_data := take ID_SIZE (drop ID_SIZE info)\<rparr>,
     mi_seq_num := of_host_bytes h (take 8 (drop (2 * ID_SIZE) info))\<rparr>))"

lemma shm_read_message_current:
  assumes ok: "world_ok w" and sg: "segment_ok w sg" and b: "w_names w (shm_key sg) = Some b" "w_objects w b = Some ob"
    and i: "i < length (so_blocks ob)"
  defines "n \<equiv> unat (sb_msg_size (so_blocks ob ! i))"
  shows "if length (so_bufs ob ! i) < n + (ID_SIZE * 2 + 8) then shm_read_message hash h i sg w = Inl OutOfBounds
    else \<exists>sg' w'. shm_read_message hash h i sg w = Inr (message_read hash h (so_bufs ob ! i) n, sg', w') \<and>
      segment_ok w' sg' \<and> world_ok w' \<and> world_le w w' \<and> sg_channel_id sg' = sg_channel_id sg"
proof -
  obtain sg' w' ob' where acq: "acquire_block_to_read i sg w =
      Inr (True, sg', put_object b (on_block i (\<lambda>b. b\<lparr>sb_lock_num := 1\<rparr>) ob') w')"
    and cur: "current sg' w' b ob'" and same: "so_blocks ob' = so_blocks ob" "so_bufs ob' = so_bufs ob"
    and ok': "world_ok w'" "world_le w w'" "sg_channel_id sg' = sg_channel_id sg"
    using acquire_block_to_read_current [OF assms(1-5)] by blast
  have a: "sg_map sg' = Some b" "w_objects w' b = Some ob'" "sg_conf sg' = shm_update (so_ceiling_msg_size ob')"
    using cur by (simp_all add: current_def)
  have ob': "object_ok ob'" using ok'(1) a(2) by (rule world_okD(3))
  have num: "i < unat (sc_block_num (sg_conf sg'))" using object_okD(2) [OF ob'] a(3) same i by simp
  then have buf: "sg_bufs sg' i = Some i" using cur by (simp add: current_def all_bufs_def)
  let ?ob = "on_block i (\<lambda>b. b\<lparr>sb_lock_num := 0\<rparr>) ob'"
  have "object_ok ?ob"
    using ob' by (auto simp: object_ok_def on_block_def Let_def dest!: set_update_subset_insert [THEN subsetD])
  with put_object_ok [OF ok'(1) a(2), of ?ob] put_object_current [OF cur, of ?ob]
  have "world_ok (put_object b ?ob w')" "world_le w' (put_object b ?ob w')" "current sg' (put_object b ?ob w') b ?ob"
    by (simp_all add: on_block_def)
  moreover from this ok'(2) have "world_le w (put_object b ?ob w')" by (blast intro: world_le_trans)
  moreover have "segment_ok (put_object b ?ob w') sg'" using calculation(3,1) by (rule current_segment_ok)
  moreover have "shm_read_message hash h i sg w = (if length (so_bufs ob ! i) < n + (ID_SIZE * 2 + 8) then Inl OutOfBounds
      else Inr (message_read hash h (so_bufs ob ! i) n, sg', put_object b ?ob w'))"
    using acq a buf num same i
    by (simp add: shm_read_message_def block_bytes_def mapped_def n_def message_read_def release_read_block_def
        update_mapped_def on_block_def Let_def)
  ultimately show ?thesis using ok'(3) by auto
qed


lemma closed_segment_reads_named:
  assumes ok: "world_ok w" and xsi: "sg_type sg = Xsi" and closed: "\<not> sg_init sg"
    and read: "shm_read_message hash h i sg w = Inr x"
  shows "\<exists>b ob. w_names w (shm_key sg) = Some b \<and> w_objects w b = Some ob \<and> i < length (so_blocks ob)"
proof (cases "w_names w (shm_key sg)")
  case None
  then show ?thesis using read closed xsi by (simp add: shm_read_message_def acquire_block_to_read_def open_only_defs)
next
  case (Some b)
  with world_okD(4) [OF ok] obtain ob where ob: "w_objects w b = Some ob" by blast
  from open_only_current [OF assms(1-3) Some this] obtain sg' w' where
    o: "open_only sg w = (True, sg', w')" "current sg' w' b (increase_reference_counts ob)" by blast
  have num: "unat (sc_block_num (sg_conf sg')) = length (so_blocks ob)"
    using o(2) object_okD(2) [OF world_okD(3) [OF ok ob]] by (simp add: current_def)
  have "i < length (so_blocks ob)"
  proof (rule ccontr)
    assume "\<not> i < length (so_blocks ob)"
    with read closed xsi o(1) num show False by (simp add: shm_read_message_def acquire_block_to_read_def)
  qed
  with Some ob show ?thesis by blast
qed

lemma open_segment_reads_named:
  assumes ok: "world_ok w" and sg: "segment_ok w sg" and opened: "sg_init sg"
    and read: "shm_read_message hash h i sg w = Inr x"
  shows "\<exists>b ob. w_names w (shm_key sg) = Some b \<and> w_objects w b = Some ob \<and> i < length (so_blocks ob)"
proof -
  obtain b ob where b: "w_names w (shm_key sg) = Some b" "w_objects w b = Some ob"
    using sg opened unfolding segment_ok_def by blast
  obtain ob0 where ob0: "mapped sg w = Some ob0" using open_segment_mapped [OF sg opened] by blast
  have "i < length (so_blocks ob)"
  proof (rule ccontr)
    assume out: "\<not> i < length (so_blocks ob)"
    show False
    proof (cases "so_need_remap ob0")
      case True
      from remap_current [OF ok sg opened ob0 True] b obtain sg' w' where
        "segment_remap sg w = (True, sg', w')" "current sg' w' b (increase_reference_counts ob)" by auto
      then show False using read opened ob0 True out
        by (auto simp: shm_read_message_def acquire_block_to_read_def current_def mapped_def split: if_splits)
    next
      case False
      from open_segment_current [OF sg opened ob0 False] b have "mapped sg w = Some ob"
        by (auto simp: current_def mapped_def)
      then show False using read opened ob0 False out
        by (auto simp: shm_read_message_def acquire_block_to_read_def split: if_splits)
    qed
  qed
  with b show ?thesis by blast
qed

lemma shm_read_message_named:
  assumes "world_ok w" and "segment_ok w sg" and "shm_read_message hash h i sg w = Inr x"
  shows "\<exists>b ob. w_names w (shm_key sg) = Some b \<and> w_objects w b = Some ob \<and> i < length (so_blocks ob)"
  using assms closed_segment_reads_named [OF assms(1)] open_segment_reads_named [OF assms(1,2)]
  by (cases "sg_init sg") (auto simp: segment_ok_def)

section \<open>Every run keeps the invariant\<close>

lemma system_ok_start: "2 ^ 29 \<le> limit \<Longrightarrow> system_ok (shm_start limit channel_id)"
  by (simp add: system_ok_def shm_start_def world_ok_def segment_ok_def segment_new_def shm_conf_new_def)

lemma system_ok_put:
  assumes "system_ok s" and "world_le (ss_world s) w" and "world_ok w" and "segment_ok w sg"
  shows "system_ok (ss_put p sg w s)"
  using assms segment_ok_mono by (auto simp: system_ok_def ss_put_def)

lemma channels_put:
  "sg_channel_id sg = sg_channel_id (ss_seg s p) \<Longrightarrow> sg_channel_id (ss_seg (ss_put p sg w s) q) = sg_channel_id (ss_seg s q)"
  by (simp add: ss_put_def)

lemma system_ok_step:
  assumes ok: "system_ok s" and "shm_step hash h host_id p s t"
  shows "system_ok t \<and> (\<forall>q. sg_channel_id (ss_seg t q) = sg_channel_id (ss_seg s q))"
  using assms(2)
proof cases
  case (1 mi payload r sg w)
  have s: "world_ok (ss_world s)" "segment_ok (ss_world s) (ss_seg s p)" using ok by (simp_all add: system_ok_def)
  from shm_transmit_written [OF this 1(3,2), of h host_id] 1(4) obtain w' a ob i seq where
    w: "w = put_object a (written h payload mi i seq ob) w'" "object_ok (written h payload mi i seq ob)"
    "current sg w' a ob" "world_ok w'" "world_le (ss_world s) w'" and id: "sg_channel_id sg = sg_channel_id (ss_seg s p)"
    by (auto split: if_splits)
  from written_current [OF this(2-5)] w(1) have "world_le (ss_world s) w" "world_ok w" "segment_ok w sg"
    using current_segment_ok by auto
  with ok have "system_ok (ss_put p sg w s)" by (rule system_ok_put)
  with channels_put [OF id] show ?thesis unfolding 1(1) by blast
next
  case (2 i m sg w)
  have s: "world_ok (ss_world s)" "segment_ok (ss_world s) (ss_seg s p)" using ok by (simp_all add: system_ok_def)
  from shm_read_message_named [OF this 2(2)] obtain b ob where
    "w_names (ss_world s) (shm_key (ss_seg s p)) = Some b" "w_objects (ss_world s) b = Some ob" "i < length (so_blocks ob)"
    by blast
  from shm_read_message_current [OF s this, of hash h] 2(2) have
    w: "world_le (ss_world s) w" "world_ok w" "segment_ok w sg" and id: "sg_channel_id sg = sg_channel_id (ss_seg s p)"
    by (auto split: if_splits)
  from ok w have "system_ok (ss_put p sg w s)" by (rule system_ok_put)
  with channels_put [OF id] show ?thesis unfolding 2(1) by blast
qed


lemma system_ok_reachable:
  assumes "reachable (shm_step hash h host_id) (shm_start limit channel_id) s" and "2 ^ 29 \<le> limit"
  shows "system_ok s \<and> (\<forall>p. sg_channel_id (ss_seg s p) = channel_id p)"
  using assms(1)
proof (rule reachable_invariant)
  show "system_ok (shm_start limit channel_id) \<and> (\<forall>p. sg_channel_id (ss_seg (shm_start limit channel_id) p) = channel_id p)"
    using system_ok_start [OF assms(2)] by (simp add: shm_start_def segment_new_def)
qed (use system_ok_step in fastforce)

section \<open>Delivery\<close>

lemma message_read_bytes:
  assumes "identities_sized mi"
  shows "message_read hash h (message_bytes h payload mi @ rest) (length payload) =
    (payload, \<lparr>mi_sender_id = \<lparr>id_data = id_data (mi_sender_id mi), id_hash_value = 0\<rparr>,
       mi_spare_id = \<lparr>id_data = id_data (mi_spare_id mi), id_hash_value = 0\<rparr>,
       mi_channel_id = 0, mi_seq_num = mi_seq_num mi\<rparr>)"
proof -
  have take: "take n (xs @ ys) = xs" "drop n (xs @ ys) = ys" if "length xs = n" for n and xs ys :: "byte list"
    using that by auto
  have drop16: "drop (2 * ID_SIZE) (xs @ ys @ zs) = zs" if "length xs = ID_SIZE" "length ys = ID_SIZE" for xs ys zs :: "byte list"
    using that by (simp add: ID_SIZE_def)
  show ?thesis using assms
    by (simp add: message_read_def message_bytes_def identities_sized_def message_info_new_def identity_new_def
        Let_def take drop16 of_host_bytes_host_bytes)
qed

lemma shm_delivers_any:
  assumes "reachable (shm_step hash h host_id) (shm_start limit channel_id) s" and "2 ^ 29 \<le> limit"
    and "channel_id q = channel_id p" and "length payload \<le> 33555432" and "identities_sized mi"
  shows "\<exists>i sg w. i < 512 \<and> shm_transmit h host_id payload mi (ss_seg s p) (ss_world s) =
      Some (Inr (Some \<lparr>ri_host_id = host_id, ri_block_index = of_nat i, ri_channel_id = channel_id p\<rparr>, sg, w)) \<and>
    (\<exists>rest. shm_read_message hash h i (ss_seg (ss_put p sg w s) q) w =
      Inr ((payload, \<lparr>mi_sender_id = \<lparr>id_data = id_data (mi_sender_id mi), id_hash_value = 0\<rparr>,
        mi_spare_id = \<lparr>id_data = id_data (mi_spare_id mi), id_hash_value = 0\<rparr>,
        mi_channel_id = 0, mi_seq_num = mi_seq_num mi\<rparr>), rest))"
proof -
  have ok: "world_ok (ss_world s)" "\<And>p. segment_ok (ss_world s) (ss_seg s p)" and
    id: "\<And>p. sg_channel_id (ss_seg s p) = channel_id p"
    using system_ok_reachable [OF assms(1,2)] by (simp_all add: system_ok_def)
  let ?ri = "\<lambda>i. \<lparr>ri_host_id = host_id, ri_block_index = of_nat i, ri_channel_id = channel_id p\<rparr>"
  have n: "length payload < 2 ^ 64" using assms(4) by simp
  from shm_transmit_written [OF ok(1) ok(2) [of p] n assms(5), of h host_id] assms(4) id obtain sg' w' a ob i seq where
    sent: "shm_transmit h host_id payload mi (ss_seg s p) (ss_world s) =
      Some (Inr (Some (?ri i), sg', put_object a (written h payload mi i seq ob) w'))"
    and i: "i < length (so_blocks ob)" and w: "object_ok (written h payload mi i seq ob)" "current sg' w' a ob"
      "world_ok w'" "world_le (ss_world s) w'" and id': "sg_channel_id sg' = channel_id p" by auto
  define w where "w = put_object a (written h payload mi i seq ob) w'"
  let ?t = "ss_put p sg' w s"
  note cur = written_current [OF w, folded w_def]
  have sg: "segment_ok w (ss_seg ?t q)" "sg_channel_id (ss_seg ?t q) = channel_id p"
    using segment_ok_mono [OF ok(2) cur(2)] current_segment_ok [OF cur(3,1)] id id' assms(3)
    by (simp_all add: ss_put_def)
  then have key: "shm_key (ss_seg ?t q) = shm_key sg'"
    using cur(3) id' by (simp add: shm_key_defs segment_ok_def current_def)
  have b: "w_names w (shm_key (ss_seg ?t q)) = Some a" "w_objects w a = Some (written h payload mi i seq ob)"
    using cur(3) key by (simp_all add: current_def)
  have obj: "object_ok ob" using w(2,3) world_okD(3) by (auto simp: current_def)
  have lens: "length (so_blocks (written h payload mi i seq ob)) = length (so_blocks ob)" "i < length (so_bufs ob)"
    using i object_okD(2,3) [OF obj] by (simp_all add: written_def Let_def)
  have msg: "unat (sb_msg_size (so_blocks (written h payload mi i seq ob) ! i)) = length payload"
    "so_bufs (written h payload mi i seq ob) ! i = message_bytes h payload mi @
      drop (length (message_bytes h payload mi)) (so_bufs ob ! i)"
    using i lens n by (simp_all add: written_def Let_def unat_of_nat)
  have "\<exists>rest. shm_read_message hash h i (ss_seg ?t q) w = Inr ((payload,
      \<lparr>mi_sender_id = \<lparr>id_data = id_data (mi_sender_id mi), id_hash_value = 0\<rparr>,
        mi_spare_id = \<lparr>id_data = id_data (mi_spare_id mi), id_hash_value = 0\<rparr>,
        mi_channel_id = 0, mi_seq_num = mi_seq_num mi\<rparr>), rest)"
    using shm_read_message_current [OF cur(1) sg(1) b, of i hash h] i lens(1) msg
      length_message_bytes [OF assms(5)] message_read_bytes [OF assms(5)] by auto
  moreover have "i < 512"
    using i object_okD(2) [OF obj] by (cases rule: shm_update_cases [of "so_ceiling_msg_size ob"]) simp_all
  ultimately show ?thesis using sent w_def by blast
qed


text \<open>C40. A message that has more than 33555432 bytes, which is 32 MiB and the thousand bytes that the space for
  the message information leaves, is copied past the end of its block, in every run; every other
  message is not.\<close>

theorem oversized_message_overruns:
  assumes "reachable (shm_step hash h host_id) (shm_start limit channel_id) s" and "2 ^ 29 \<le> limit"
    and "length payload < 2 ^ 64" and "identities_sized mi"
  shows "shm_transmit h host_id payload mi (ss_seg s p) (ss_world s) = Some (Inl OutOfBounds) \<longleftrightarrow> 33555432 < length payload"
proof -
  have "world_ok (ss_world s)" "segment_ok (ss_world s) (ss_seg s p)"
    using system_ok_reachable [OF assms(1,2)] by (simp_all add: system_ok_def)
  from shm_transmit_written [OF this assms(3,4), of h host_id] show ?thesis by (auto split: if_splits)
qed


section \<open>Where delivery fails\<close>

text \<open>A reader that is late meets a segment that was created anew in the meantime: it has the old object open,
  which is marked for remapping, and the announced block exists there, but not in the new object, which has
  fewer blocks. The index is checked before \<open>Remap\<close> only, so \<open>blocks_\<close> is read past its end.\<close>

lemma late_reader_overruns:
  assumes "world_ok w" and "segment_ok w sg" and "sg_init sg" and "mapped sg w = Some old" and "so_need_remap old"
    and "w_names w (shm_key sg) = Some b" and "w_objects w b = Some ob"
    and "length (so_blocks ob) \<le> i" and "i < length (so_blocks old)"
  shows "shm_read_message hash h i sg w = Inl OutOfBounds"
proof -
  from remap_current [OF assms(1-5)] assms(6,7) obtain sg' w' where
    remap: "segment_remap sg w = (True, sg', w')" "current sg' w' b (increase_reference_counts ob)" by auto
  have "object_ok old" using assms(1,4) world_okD(3) by (auto simp: mapped_def bind_eq_Some_conv)
  then have "length (so_blocks old) = unat (sc_block_num (sg_conf sg))"
    using object_okD(2) open_segment_mapped [OF assms(2,3)] assms(4) by auto
  then show ?thesis using remap assms(3-5,8,9)
    by (simp add: shm_read_message_def acquire_block_to_read_def current_def mapped_def)
qed

text \<open>A process that has not itself created the segment never reads a message from a POSIX segment:
  \<open>OpenOnly\<close> computes the addresses of the buffers without storing them.\<close>

lemma posix_reader_never_reads:
  "shm_read_message hash h i (segment_new Posix channel_id) w \<noteq> Inr x"
proof -
  have only: "sg_bufs sg' = (\<lambda>_. None)" if "open_only sg v = (r, sg', v')" "sg_type sg = Posix" "sg_bufs sg = (\<lambda>_. None)"
    for sg v r sg' v' using that by (auto simp: open_only_defs Let_def split: if_splits option.splits)
  have kind: "sg_type sg' = sg_type sg" if "open_only sg v = (r, sg', v')" for sg v r sg' v'
    using that by (auto simp: open_only_defs Let_def split: if_splits option.splits segment_type.splits)
  have remap: "sg_bufs sg' = (\<lambda>_. None)" if "segment_remap sg v = (r, sg', v')" "sg_type sg = Posix" for sg v r sg' v'
    using only [of "segment_reset (sg\<lparr>sg_init := False\<rparr>)" v] that by (simp add: segment_remap_def segment_reset_eq)
  have "sg_bufs sg' = (\<lambda>_. None)" if "acquire_block_to_read i (segment_new Posix channel_id) w = Inr (True, sg', w')" for sg' w'
    using that only kind remap
    by (auto simp: acquire_block_to_read_def segment_new_def Let_def split: if_splits option.splits prod.splits)
  then show ?thesis
    by (auto simp: shm_read_message_def block_bytes_def split: sum.splits prod.splits)
qed

section \<open>Instances\<close>

definition sample_info :: message_info where
  "sample_info = \<lparr>mi_sender_id = \<lparr>id_data = [1, 2, 3, 4, 5, 6, 7, 8], id_hash_value = 9\<rparr>,
     mi_spare_id = \<lparr>id_data = replicate 8 0, id_hash_value = 0\<rparr>, mi_channel_id = 7, mi_seq_num = 3\<rparr>"

lemma sample_info_sized: "identities_sized sample_info"
  by (simp add: sample_info_def identities_sized_def ID_SIZE_def)


theorem oversized_message_overruns_witness:
  "shm_transmit LittleEndian 5 (replicate 33555433 0) sample_info (segment_new Xsi 7) (ss_world (shm_start 536870912 (\<lambda>_. 7))) =
     Some (Inl OutOfBounds)"
proof -
  have seg: "ss_seg (shm_start 536870912 (\<lambda>_. 7)) p = segment_new Xsi 7" for p by (simp add: shm_start_def)
  show ?thesis
    using oversized_message_overruns [OF reachable.start, of 536870912 "replicate 33555433 0" sample_info LittleEndian 5 "\<lambda>_. 7" 0]
      sample_info_sized unfolding seg length_replicate by simp
qed

text \<open>A segment of 16 KiB messages that was replaced by one of 128 KiB.\<close>

definition late_world :: shm_world where
  "late_world = \<lparr>w_names = [7 \<mapsto> 1], w_objects = [0 \<mapsto> (object_new (shm_update 0))\<lparr>so_need_remap := True\<rparr>,
     1 \<mapsto> object_new (shm_update 100000)], w_fresh = 2, w_shmmax = 2 ^ 29\<rparr>"

definition late_segment :: segment where
  "late_segment = (segment_new Xsi 7)\<lparr>sg_init := True, sg_map := Some 0, sg_conf := shm_update 0,
     sg_bufs := all_bufs (shm_update 0)\<rparr>"

lemma late_reader_overruns_witness:
  "shm_read_message (\<lambda>_. 9) LittleEndian 200 late_segment late_world = Inl OutOfBounds"
proof -
  let ?new = "\<lambda>n. object_new (shm_update n)"
  have obj: "object_ok (?new n)" for n using object_new_ok(1) [of "\<lparr>sg_type = Xsi, sg_init = False, sg_conf = shm_update n,
      sg_channel_id = 7, sg_map = None, sg_bufs = \<lambda>_. None\<rparr>" n] by simp
  then have "object_ok ((?new n)\<lparr>so_need_remap := True\<rparr>)" for n by (simp add: object_ok_def)
  with obj have "world_ok late_world" by (auto simp: world_ok_def late_world_def)
  moreover have ceil: "so_ceiling_msg_size (?new n) = get_ceiling_message_size n" for n by (simp add: object_new_def)
  moreover have key: "shm_key late_segment = 7" by (simp add: late_segment_def segment_new_def shm_key_defs)
  ultimately have "segment_ok late_world late_segment"
    by (simp add: segment_ok_def late_world_def late_segment_def segment_new_def ceiling_mono)
  moreover have "length (so_blocks (?new 100000)) = 128" "length (so_blocks (?new 0)) = 512"
    by (simp_all add: object_new_def shm_update_def Let_def get_ceiling_message_size_def get_block_num_def shm_constants)
  ultimately show ?thesis using \<open>world_ok late_world\<close> key
    by (intro late_reader_overruns [of _ _ "(?new 0)\<lparr>so_need_remap := True\<rparr>" 1 "?new 100000"])
      (simp_all add: late_world_def late_segment_def mapped_def)
qed

end
