(* ===== verification/Signals.thy ===== *)
theory Signals
  imports Cmw_Prelude
begin

text \<open>
  \<open>base/signal.h\<close>: a signal keeps a list of shared slots, a connection points to one slot and to the
  signal. Slots are addresses in \<open>sig_heap\<close>, which holds the callback, possibly an empty one, and the
  flag \<open>connected_\<close>. A callback is a name; what it does, to this signal as well, is the parameter
  \<open>run\<close>. \<open>sig_user\<close> is whatever else the callbacks change.
\<close>

section \<open>Slots, connections, the signal\<close>

record 'c slot =
  slot_cb :: "'c option"
  slot_connected :: bool

record ('c, 'u) signal =
  sig_slots :: "nat list"
  sig_heap :: "nat \<Rightarrow> 'c slot option"
  sig_fresh :: nat
  sig_user :: 'u

record connection =
  conn_slot :: "nat option"
  conn_signal :: bool

type_synonym ('c, 'a, 'u) callbacks = "'c \<Rightarrow> 'a \<Rightarrow> ('c, 'u) signal \<Rightarrow> ('c, 'u) signal"

definition new_slot :: "'c option \<Rightarrow> 'c slot" where
  "new_slot cb = \<lparr>slot_cb = cb, slot_connected = True\<rparr>"

definition sig_new :: "'u \<Rightarrow> ('c, 'u) signal" where
  "sig_new u = \<lparr>sig_slots = [], sig_heap = (\<lambda>_. None), sig_fresh = 0, sig_user = u\<rparr>"

definition connected :: "nat \<Rightarrow> ('c, 'u) signal \<Rightarrow> bool" where
  "connected a s = (case sig_heap s a of Some sl \<Rightarrow> slot_connected sl | None \<Rightarrow> False)"

definition slot_disconnect :: "nat \<Rightarrow> ('c, 'u) signal \<Rightarrow> ('c, 'u) signal" where
  "slot_disconnect a s = s\<lparr>sig_heap := (sig_heap s)(a := map_option (\<lambda>sl. sl\<lparr>slot_connected := False\<rparr>) (sig_heap s a))\<rparr>"

definition slot_call :: "('c, 'a, 'u) callbacks \<Rightarrow> 'a \<Rightarrow> nat \<Rightarrow> ('c, 'u) signal \<Rightarrow> ('c, 'u) signal" where
  "slot_call run arg a s =
     (case sig_heap s a of None \<Rightarrow> s
      | Some sl \<Rightarrow> if slot_connected sl then (case slot_cb sl of None \<Rightarrow> s | Some c \<Rightarrow> run c arg s) else s)"

definition sig_connect :: "'c option \<Rightarrow> ('c, 'u) signal \<Rightarrow> connection \<times> ('c, 'u) signal" where
  "sig_connect cb s =
     (\<lparr>conn_slot = Some (sig_fresh s), conn_signal = True\<rparr>,
      s\<lparr>sig_slots := sig_slots s @ [sig_fresh s], sig_heap := (sig_heap s)(sig_fresh s \<mapsto> new_slot cb),
        sig_fresh := sig_fresh s + 1\<rparr>)"

definition clear_disconnected :: "('c, 'u) signal \<Rightarrow> ('c, 'u) signal" where
  "clear_disconnected s = s\<lparr>sig_slots := filter (\<lambda>a. connected a s) (sig_slots s)\<rparr>"

definition conn_has_slot :: "connection \<Rightarrow> nat \<Rightarrow> bool" where
  "conn_has_slot conn a \<longleftrightarrow> conn_slot conn = Some a"

definition sig_disconnect :: "connection \<Rightarrow> ('c, 'u) signal \<Rightarrow> bool \<times> ('c, 'u) signal" where
  "sig_disconnect conn s =
     (let (find, s1) = fold (\<lambda>a (find, s). if conn_has_slot conn a then (True, slot_disconnect a s) else (find, s))
        (sig_slots s) (False, s)
      in (find, if find then clear_disconnected s1 else s1))"

definition disconnect_all_slots :: "('c, 'u) signal \<Rightarrow> ('c, 'u) signal" where
  "disconnect_all_slots s = (fold slot_disconnect (sig_slots s) s)\<lparr>sig_slots := []\<rparr>"

text \<open>The call operator runs over a copy of the list.\<close>

definition sig_emit :: "('c, 'a, 'u) callbacks \<Rightarrow> 'a \<Rightarrow> ('c, 'u) signal \<Rightarrow> ('c, 'u) signal" where
  "sig_emit run arg s = clear_disconnected (fold (slot_call run arg) (sig_slots s) s)"

definition conn_is_connected :: "connection \<Rightarrow> ('c, 'u) signal \<Rightarrow> bool" where
  "conn_is_connected conn s = (case conn_slot conn of Some a \<Rightarrow> connected a s | None \<Rightarrow> False)"

definition conn_disconnect :: "connection \<Rightarrow> ('c, 'u) signal \<Rightarrow> bool \<times> ('c, 'u) signal" where
  "conn_disconnect conn s =
     (if conn_signal conn \<and> conn_slot conn \<noteq> None then sig_disconnect conn s else (False, s))"

section \<open>What a signal promises\<close>

text \<open>Calls of a signal whose callbacks record that they ran; connections are numbered as made.\<close>

datatype ('c, 'a) signal_op = Connect "'c option" | Disconnect nat | DisconnectAll | Emit 'a

text \<open>The promise: the live connections in the order they were made, what ran, what \<open>Disconnect\<close> said.\<close>

record ('c, 'a) signal_spec =
  sp_made :: nat
  sp_live :: "(nat \<times> 'c option) list"
  sp_ran :: "('c \<times> 'a) list"
  sp_found :: "bool list"

fun spec_step :: "('c, 'a) signal_op \<Rightarrow> ('c, 'a) signal_spec \<Rightarrow> ('c, 'a) signal_spec" where
  "spec_step (Connect cb) s = s\<lparr>sp_made := sp_made s + 1, sp_live := sp_live s @ [(sp_made s, cb)]\<rparr>"
| "spec_step (Disconnect k) s = s\<lparr>sp_live := filter (\<lambda>(i, _). i \<noteq> k) (sp_live s),
     sp_found := sp_found s @ [k \<in> fst ` set (sp_live s)]\<rparr>"
| "spec_step DisconnectAll s = s\<lparr>sp_live := []\<rparr>"
| "spec_step (Emit arg) s = s\<lparr>sp_ran := sp_ran s @ [(c, arg). (i, Some c) \<leftarrow> sp_live s]\<rparr>"

definition spec_new :: "('c, 'a) signal_spec" where
  "spec_new = \<lparr>sp_made = 0, sp_live = [], sp_ran = [], sp_found = []\<rparr>"

text \<open>The signal itself: what ran and what was found is kept in \<open>sig_user\<close>.\<close>

type_synonym ('c, 'a) recorder = "('c, ('c \<times> 'a) list \<times> bool list) signal"

definition record_call :: "'c \<Rightarrow> 'a \<Rightarrow> ('c, 'a) recorder \<Rightarrow> ('c, 'a) recorder" where
  "record_call c arg s = s\<lparr>sig_user := (fst (sig_user s) @ [(c, arg)], snd (sig_user s))\<rparr>"

fun sig_step :: "('c, 'a) signal_op \<Rightarrow> ('c, 'a) recorder \<Rightarrow> ('c, 'a) recorder" where
  "sig_step (Connect cb) s = snd (sig_connect cb s)"
| "sig_step (Disconnect k) s =
     (let (found, s') = conn_disconnect \<lparr>conn_slot = Some k, conn_signal = True\<rparr> s
      in s'\<lparr>sig_user := (fst (sig_user s'), snd (sig_user s') @ [found])\<rparr>)"
| "sig_step DisconnectAll s = disconnect_all_slots s"
| "sig_step (Emit arg) s = sig_emit record_call arg s"

text \<open>The list of a signal holds the connected slots, and its addresses are below the fresh one.\<close>

definition sig_abs :: "('c, 'a) recorder \<Rightarrow> ('c, 'a) signal_spec" where
  "sig_abs s = \<lparr>sp_made = sig_fresh s,
     sp_live = map (\<lambda>a. (a, Option.bind (sig_heap s a) slot_cb)) (sig_slots s),
     sp_ran = fst (sig_user s), sp_found = snd (sig_user s)\<rparr>"

definition sig_ok :: "('c, 'u) signal \<Rightarrow> bool" where
  "sig_ok s \<longleftrightarrow> distinct (sig_slots s) \<and> (\<forall>a \<in> set (sig_slots s). a < sig_fresh s \<and> connected a s)"

lemma clear_all_connected: "sig_ok s \<Longrightarrow> clear_disconnected s = s"
  by (simp add: sig_ok_def clear_disconnected_def filter_id_conv)

lemma emit_records:
  assumes "\<forall>a \<in> set xs. connected a s"
  shows "fold (slot_call record_call arg) xs s =
    s\<lparr>sig_user := (fst (sig_user s) @ [(c, arg). (i, Some c) \<leftarrow> map (\<lambda>a. (a, Option.bind (sig_heap s a) slot_cb)) xs],
      snd (sig_user s))\<rparr>"
  using assms
proof (induction xs arbitrary: s)
  case (Cons a xs)
  then obtain sl where sl: "sig_heap s a = Some sl" "slot_connected sl" by (auto simp: connected_def split: option.splits)
  show ?case
  proof (cases "slot_cb sl")
    case None
    with sl have "slot_call record_call arg a s = s" by (simp add: slot_call_def)
    with Cons sl None show ?thesis by simp
  next
    case (Some c)
    with sl have call: "slot_call record_call arg a s = record_call c arg s" by (simp add: slot_call_def)
    have "\<forall>b \<in> set xs. connected b (record_call c arg s)" using Cons.prems by (simp add: connected_def record_call_def)
    from Cons.IH [OF this] show ?thesis using sl Some by (simp add: call) (simp add: record_call_def)
  qed
qed simp

lemma disconnect_walk:
  "a \<notin> set xs \<Longrightarrow> fold (\<lambda>b (find, s). if conn_has_slot \<lparr>conn_slot = Some a, conn_signal = c\<rparr> b
     then (True, slot_disconnect b s) else (find, s)) xs (f, s) = (f, s)"
  by (induction xs) (auto simp: conn_has_slot_def)

lemma disconnect_found:
  assumes "distinct xs"
  shows "fold (\<lambda>b (find, s). if conn_has_slot \<lparr>conn_slot = Some a, conn_signal = c\<rparr> b
     then (True, slot_disconnect b s) else (find, s)) xs (False, s) =
     (a \<in> set xs, if a \<in> set xs then slot_disconnect a s else s)"
  using assms
proof (induction xs)
  case (Cons b xs)
  show ?case
  proof (cases "b = a")
    case True
    with Cons.prems disconnect_walk [of a xs c True "slot_disconnect a s"] show ?thesis by (simp add: conn_has_slot_def)
  next
    case False
    with Cons show ?thesis by (simp add: conn_has_slot_def)
  qed
qed simp

lemma slot_disconnect_simps:
  "sig_slots (slot_disconnect a s) = sig_slots s" "sig_fresh (slot_disconnect a s) = sig_fresh s"
  "sig_user (slot_disconnect a s) = sig_user s"
  "connected b (slot_disconnect a s) \<longleftrightarrow> b \<noteq> a \<and> connected b s"
  "Option.bind (sig_heap (slot_disconnect a s) b) slot_cb = Option.bind (sig_heap s b) slot_cb"
  by (auto simp: slot_disconnect_def connected_def split: option.splits) (cases "sig_heap s a"; simp)+

lemma connected_updates:
  "connected a (s\<lparr>sig_user := u\<rparr>) = connected a s" "connected a (s\<lparr>sig_slots := xs\<rparr>) = connected a s"
  by (simp_all add: connected_def)

lemma disconnect_all_simps:
  "sig_fresh (fold slot_disconnect xs s) = sig_fresh s" "sig_user (fold slot_disconnect xs s) = sig_user s"
  by (induction xs arbitrary: s) (simp_all add: slot_disconnect_simps)

lemma sig_step_refines:
  assumes "sig_ok s"
  shows "sig_ok (sig_step x s) \<and> sig_abs (sig_step x s) = spec_step x (sig_abs s)"
proof (cases x)
  case (Connect cb)
  have "a \<in> set (sig_slots s) \<Longrightarrow> a \<noteq> sig_fresh s" for a using assms by (auto simp: sig_ok_def)
  with assms show ?thesis
    by (auto simp: Connect sig_connect_def sig_ok_def sig_abs_def connected_def new_slot_def)
next
  case (Disconnect k)
  have d: "distinct (sig_slots s)" using assms by (simp add: sig_ok_def)
  have "filter (\<lambda>a. connected a (slot_disconnect k s)) (sig_slots s) = filter (\<lambda>a. a \<noteq> k) (sig_slots s)"
    using assms by (intro filter_cong) (auto simp: slot_disconnect_simps sig_ok_def)
  moreover have "k \<notin> set (sig_slots s) \<Longrightarrow> filter (\<lambda>a. a \<noteq> k) (sig_slots s) = sig_slots s"
    by (auto simp: filter_id_conv)
  ultimately show ?thesis
    using assms unfolding Disconnect
    by (auto simp: conn_disconnect_def sig_disconnect_def disconnect_found [OF d] clear_disconnected_def sig_ok_def
        sig_abs_def slot_disconnect_simps connected_updates filter_map o_def image_iff)
next
  case DisconnectAll
  then show ?thesis
    by (simp add: disconnect_all_slots_def sig_ok_def sig_abs_def disconnect_all_simps)
next
  case (Emit arg)
  have on: "\<forall>a \<in> set (sig_slots s). connected a s" using assms by (simp add: sig_ok_def)
  have "sig_ok (s\<lparr>sig_user := u\<rparr>)" for u using assms by (simp add: sig_ok_def connected_def)
  with emit_records [OF on, of arg] assms show ?thesis
    by (simp add: Emit sig_emit_def clear_all_connected) (simp add: sig_abs_def)
qed

text \<open>A signal runs its callbacks in the order they were connected: after any sequence of \<open>Connect\<close>,
  \<open>Disconnect\<close>, \<open>DisconnectAllSlots\<close> and emissions, what has run is, emission by emission, the callbacks
  of the connections made and not disconnected by then, each once, empty ones passed over, and
  \<open>Disconnect\<close> has told each time whether the connection was one of them.\<close>

lemma signal_notifies_live:
  fixes xs :: "('c, 'a) signal_op list"
  shows "sig_abs (fold sig_step xs (sig_new ([], []))) = fold spec_step xs spec_new"
proof -
  have "sig_ok s \<Longrightarrow> sig_abs (fold sig_step xs s) = fold spec_step xs (sig_abs s)" for s :: "('c, 'a) recorder"
    by (induction xs arbitrary: s) (simp_all add: sig_step_refines)
  moreover have "sig_ok (sig_new ([], []) :: ('c, 'a) recorder)" by (simp add: sig_ok_def sig_new_def)
  moreover have "sig_abs (sig_new ([], [])) = (spec_new :: ('c, 'a) signal_spec)"
    by (simp add: sig_abs_def sig_new_def spec_new_def)
  ultimately show ?thesis by metis
qed

end
