(* ===== verification/Listener_Handler.thy ===== *)
theory Listener_Handler
  imports Signals
begin

text \<open>
  \<open>transport/message/listener_handler.h\<close>: the listeners of one channel in one process, those of every
  writer in one signal, those of a single writer in a signal of that writer, with the connections kept
  under the id of the reader. What the handler needs of a signal is stated as a locale, which
  the model of \<open>base/signal.h\<close> interprets. The read-write lock makes every operation one step. What the
  listeners do is the parameter \<open>run\<close>, which sees the signal it is called by and a common state.
\<close>

section \<open>The handler\<close>

record ('c, 'u) handler =
  lh_signal :: "('c, 'u) signal"
  lh_conns :: "u64 \<Rightarrow> connection option"
  lh_signals :: "u64 \<Rightarrow> ('c, 'u) signal option"
  lh_signals_conns :: "u64 \<Rightarrow> (u64 \<Rightarrow> connection option) option"

definition lh_new :: "'u \<Rightarrow> ('c, 'u) handler" where
  "lh_new u = \<lparr>lh_signal = sig_new u, lh_conns = (\<lambda>_. None), lh_signals = (\<lambda>_. None), lh_signals_conns = (\<lambda>_. None)\<rparr>"

definition lh_connect :: "u64 \<Rightarrow> 'c \<Rightarrow> ('c, 'u) handler \<Rightarrow> ('c, 'u) handler" where
  "lh_connect self_id listener h =
     (let (conn, s) = sig_connect (Some listener) (lh_signal h); h1 = h\<lparr>lh_signal := s\<rparr>
      in if \<not> conn_is_connected conn s then h1 else h1\<lparr>lh_conns := (lh_conns h1)(self_id \<mapsto> conn)\<rparr>)"

definition lh_connect_to :: "'u \<Rightarrow> u64 \<Rightarrow> u64 \<Rightarrow> 'c \<Rightarrow> ('c, 'u) handler \<Rightarrow> ('c, 'u) handler" where
  "lh_connect_to u self_id oppo_id listener h =
     (let h1 = (if lh_signals h oppo_id = None then h\<lparr>lh_signals := (lh_signals h)(oppo_id \<mapsto> sig_new u)\<rparr> else h);
          (conn, s) = sig_connect (Some listener) (the (lh_signals h1 oppo_id));
          h2 = h1\<lparr>lh_signals := (lh_signals h1)(oppo_id \<mapsto> s)\<rparr>;
          h3 = (if lh_signals_conns h2 oppo_id = None
                then h2\<lparr>lh_signals_conns := (lh_signals_conns h2)(oppo_id \<mapsto> (\<lambda>_. None))\<rparr> else h2)
      in h3\<lparr>lh_signals_conns := (lh_signals_conns h3)(oppo_id \<mapsto> (the (lh_signals_conns h3 oppo_id))(self_id \<mapsto> conn))\<rparr>)"

definition lh_disconnect :: "u64 \<Rightarrow> ('c, 'u) handler \<Rightarrow> ('c, 'u) handler" where
  "lh_disconnect self_id h =
     (case lh_conns h self_id of None \<Rightarrow> h
      | Some conn \<Rightarrow> h\<lparr>lh_signal := snd (conn_disconnect conn (lh_signal h)), lh_conns := (lh_conns h)(self_id := None)\<rparr>)"

text \<open>A connection knows its signal; that of \<open>signals_conns_[oppo_id]\<close> is \<open>signals_[oppo_id]\<close>.\<close>

definition lh_disconnect_from :: "u64 \<Rightarrow> u64 \<Rightarrow> ('c, 'u) handler \<Rightarrow> ('c, 'u) handler" where
  "lh_disconnect_from self_id oppo_id h =
     (case lh_signals_conns h oppo_id of None \<Rightarrow> h
      | Some conns \<Rightarrow> (case conns self_id of None \<Rightarrow> h
        | Some conn \<Rightarrow> h\<lparr>lh_signals := (lh_signals h)(oppo_id := map_option (snd \<circ> conn_disconnect conn) (lh_signals h oppo_id)),
            lh_signals_conns := (lh_signals_conns h)(oppo_id \<mapsto> conns(self_id := None))\<rparr>))"

text \<open>\<open>u\<close> is what the listeners have changed so far; every signal passes it on.\<close>

definition lh_run :: "('c, 'a, 'u) callbacks \<Rightarrow> 'a \<Rightarrow> u64 \<Rightarrow> 'u \<Rightarrow> ('c, 'u) handler \<Rightarrow> 'u \<times> ('c, 'u) handler" where
  "lh_run run arg oppo_id u h =
     (let s = sig_emit run arg ((lh_signal h)\<lparr>sig_user := u\<rparr>); h1 = h\<lparr>lh_signal := s\<rparr>
      in case lh_signals h1 oppo_id of None \<Rightarrow> (sig_user s, h1)
         | Some so \<Rightarrow> let so' = sig_emit run arg (so\<lparr>sig_user := sig_user s\<rparr>)
             in (sig_user so', h1\<lparr>lh_signals := (lh_signals h1)(oppo_id \<mapsto> so')\<rparr>))"

section \<open>What a handler needs of a signal\<close>

text \<open>A live connection and a listener correspond under the connections kept by id.\<close>

definition entry :: "('i \<Rightarrow> 'k option) \<Rightarrow> 'k \<times> 'c \<Rightarrow> 'i option \<times> 'c \<Rightarrow> bool" where
  "entry conns e x \<longleftrightarrow> snd x = snd e \<and> (\<forall>i. fst x = Some i \<longleftrightarrow> conns i = Some (fst e))"

definition taken_over :: "'i \<Rightarrow> ('i option \<times> 'c) list \<Rightarrow> ('i option \<times> 'c) list" where
  "taken_over i xs = map (\<lambda>x. (if fst x = Some i then None else fst x, snd x)) xs"

definition let_go :: "'i \<Rightarrow> ('i option \<times> 'c) list \<Rightarrow> ('i option \<times> 'c) list" where
  "let_go i xs = filter (\<lambda>x. fst x \<noteq> Some i) xs"

lemma entries_filter:
  assumes "list_all2 (entry conns) ks xs" and "conns i = Some k0"
  shows "list_all2 (entry (conns(i := None))) (filter (\<lambda>e. fst e \<noteq> k0) ks) (let_go i xs)"
  using assms(1) unfolding let_go_def
proof (induction rule: list_all2_induct)
  case (Cons x ks y xs)
  have "fst x = k0 \<longleftrightarrow> fst y = Some i" using Cons(1) assms(2) by (auto simp: entry_def)
  moreover have "fst y \<noteq> Some i \<Longrightarrow> entry (conns(i := None)) x y" using Cons(1) by (auto simp: entry_def)
  ultimately show ?case using Cons by (cases "fst y = Some i") (simp_all del: fun_upd_apply)
qed simp

lemma entries_take_over:
  assumes "list_all2 (entry conns) ks xs" and "k \<notin> fst ` set ks"
  shows "list_all2 (entry (conns(i \<mapsto> k))) ks (taken_over i xs)"
  using assms unfolding taken_over_def
proof (induction rule: list_all2_induct)
  case (Cons x ks y xs)
  have "conns j = Some (fst x) \<Longrightarrow> fst y = Some i \<Longrightarrow> j = i" for j
    using Cons(1) unfolding entry_def by (metis option.inject)
  moreover have "fst x \<noteq> k" using Cons by auto
  ultimately have "entry (conns(i \<mapsto> k)) x (if fst y = Some i then None else fst y, snd y)"
    using Cons(1) by (auto simp: entry_def)
  with Cons show ?case by (cases "fst y = Some i") (simp_all del: fun_upd_apply)
qed simp

locale signal_contract =
  fixes connect :: "'c \<Rightarrow> 's \<Rightarrow> 'k \<times> 's"
    and disconnect :: "'k \<Rightarrow> 's \<Rightarrow> 's"
    and live :: "'s \<Rightarrow> ('k \<times> 'c) list"
    and ok :: "'s \<Rightarrow> bool"
  assumes connect_law: "ok s \<Longrightarrow> connect c s = (k, s') \<Longrightarrow>
      ok s' \<and> k \<notin> fst ` set (live s) \<and> live s' = live s @ [(k, c)]"
    and disconnect_law: "ok s \<Longrightarrow> ok (disconnect k s) \<and> live (disconnect k s) = filter (\<lambda>e. fst e \<noteq> k) (live s)"
begin

text \<open>
  The signal and the connections kept by id stand for a list of listeners: each has an id, or none if
  another connection took its id, after which nothing can disconnect it.
\<close>

definition stands_for :: "'s \<Rightarrow> ('i \<Rightarrow> 'k option) \<Rightarrow> ('i option \<times> 'c) list \<Rightarrow> bool" where
  "stands_for s conns xs \<longleftrightarrow> ok s \<and> list_all2 (entry conns) (live s) xs \<and> ran conns \<subseteq> fst ` set (live s)"

lemma stands_for_connect:
  assumes "stands_for s conns xs" and "connect c s = (k, s')"
  shows "stands_for s' (conns(i \<mapsto> k)) (taken_over i xs @ [(Some i, c)])"
proof -
  have ok: "ok s" using assms(1) by (simp add: stands_for_def)
  note law = connect_law [OF ok assms(2)]
  have "list_all2 (entry (conns(i \<mapsto> k))) (live s) (taken_over i xs)"
    using assms(1) law by (simp add: stands_for_def entries_take_over)
  moreover have "conns j \<noteq> Some k" for j using assms(1) law by (auto simp: stands_for_def ran_def)
  moreover have "entry (conns(i \<mapsto> k)) (k, c) (Some i, c)" using calculation(2) by (auto simp: entry_def)
  ultimately show ?thesis using law assms(1)
    by (auto simp: stands_for_def ran_def intro: list_all2_appendI)
qed

lemma stands_for_disconnect:
  assumes "stands_for s conns xs" and "conns i = Some k"
  shows "stands_for (disconnect k s) (conns(i := None)) (let_go i xs)"
proof -
  have ok: "ok s" and ents: "list_all2 (entry conns) (live s) xs" and sub: "ran conns \<subseteq> fst ` set (live s)"
    using assms(1) by (simp_all add: stands_for_def)
  have one: "j = i" if "conns j = Some k" for j
  proof -
    from sub that obtain e where "e \<in> set (live s)" "fst e = k" by (force simp: ran_def)
    with ents obtain x where "entry conns e x" by (metis in_set_conv_nth list_all2_conv_all_nth)
    with that assms(2) \<open>fst e = k\<close> show ?thesis by (metis entry_def option.inject)
  qed
  have "ran (conns(i := None)) \<subseteq> fst ` set (filter (\<lambda>e. fst e \<noteq> k) (live s))"
  proof
    fix k' assume "k' \<in> ran (conns(i := None))"
    then obtain j where j: "conns j = Some k'" "j \<noteq> i" by (auto simp: ran_def split: if_splits)
    with sub obtain e where "e \<in> set (live s)" "fst e = k'" by (force simp: ran_def)
    with one j show "k' \<in> fst ` set (filter (\<lambda>e. fst e \<noteq> k) (live s))" by force
  qed
  with disconnect_law [OF ok, of k] entries_filter [OF ents assms(2)] show ?thesis
    by (simp add: stands_for_def)
qed

lemma stands_for_empty: "ok s \<Longrightarrow> live s = [] \<Longrightarrow> stands_for s (\<lambda>_. None) []"
  by (simp add: stands_for_def ran_def)

lemma stands_for_callbacks: "stands_for s conns xs \<Longrightarrow> map snd (live s) = map snd xs"
  unfolding stands_for_def by (auto simp: entry_def list_all2_conv_all_nth intro!: nth_equalityI)

end

section \<open>The signal meets the contract\<close>

text \<open>A signal all whose slots are connected and have a listener.\<close>

definition sig_live :: "('c, 'u) signal \<Rightarrow> (connection \<times> 'c) list" where
  "sig_live s = map (\<lambda>a. (\<lparr>conn_slot = Some a, conn_signal = True\<rparr>, the (Option.bind (sig_heap s a) slot_cb))) (sig_slots s)"

definition sig_full :: "('c, 'u) signal \<Rightarrow> bool" where
  "sig_full s \<longleftrightarrow> sig_ok s \<and> (\<forall>a \<in> set (sig_slots s). Option.bind (sig_heap s a) slot_cb \<noteq> None)"


lemma conn_disconnect_live:
  assumes "sig_full s"
  shows "sig_full (snd (conn_disconnect k s))" and "sig_live (snd (conn_disconnect k s)) = filter (\<lambda>e. fst e \<noteq> k) (sig_live s)"
proof -
  have ok: "sig_ok s" using assms by (simp add: sig_full_def)
  consider a where "k = \<lparr>conn_slot = Some a, conn_signal = True\<rparr>" | "\<not> conn_signal k" | "conn_slot k = None"
    by (cases k; cases "conn_slot k") auto
  then have "sig_full (snd (conn_disconnect k s)) \<and> sig_live (snd (conn_disconnect k s)) = filter (\<lambda>e. fst e \<noteq> k) (sig_live s)"
  proof cases
    case (1 a)
    have d: "distinct (sig_slots s)" using ok by (simp add: sig_ok_def)
    have "filter (\<lambda>b. connected b (slot_disconnect a s)) (sig_slots s) = filter (\<lambda>b. b \<noteq> a) (sig_slots s)"
      using ok by (intro filter_cong) (auto simp: slot_disconnect_simps sig_ok_def)
    moreover have "a \<notin> set (sig_slots s) \<Longrightarrow> filter (\<lambda>b. b \<noteq> a) (sig_slots s) = sig_slots s"
      by (auto simp: filter_id_conv)
    ultimately show ?thesis using assms unfolding 1
      by (auto simp: conn_disconnect_def sig_disconnect_def disconnect_found [OF d] clear_disconnected_def sig_ok_def
          sig_full_def sig_live_def slot_disconnect_simps connected_updates filter_map o_def)
  next
    case 2
    then have "k \<notin> fst ` set (sig_live s)" by (auto simp: sig_live_def)
    then have "filter (\<lambda>e. fst e \<noteq> k) (sig_live s) = sig_live s" by (intro filter_True) auto
    with 2 assms show ?thesis by (simp add: conn_disconnect_def)
  next
    case 3
    then have "k \<notin> fst ` set (sig_live s)" by (auto simp: sig_live_def)
    then have "filter (\<lambda>e. fst e \<noteq> k) (sig_live s) = sig_live s" by (intro filter_True) auto
    with 3 assms show ?thesis by (simp add: conn_disconnect_def)
  qed
  then show "sig_full (snd (conn_disconnect k s))"
    and "sig_live (snd (conn_disconnect k s)) = filter (\<lambda>e. fst e \<noteq> k) (sig_live s)" by simp_all
qed

lemma sig_connect_live:
  assumes "sig_full s" and "sig_connect (Some c) s = (k, s')"
  shows "sig_full s' \<and> k \<notin> fst ` set (sig_live s) \<and> sig_live s' = sig_live s @ [(k, c)] \<and> conn_is_connected k s'"
proof -
  have "a \<in> set (sig_slots s) \<Longrightarrow> a \<noteq> sig_fresh s \<and> a < Suc (sig_fresh s)" for a
    using assms(1) by (auto simp: sig_ok_def sig_full_def less_Suc_eq)
  with assms show ?thesis
    by (auto simp: sig_connect_def sig_full_def sig_ok_def sig_live_def connected_def new_slot_def conn_is_connected_def)
qed

interpretation sg: signal_contract "\<lambda>c. sig_connect (Some c)" "\<lambda>k s. snd (conn_disconnect k s)" sig_live sig_full
proof unfold_locales
  fix s s' :: "('a, 'b) signal" and c k
  assume "sig_full s" and "sig_connect (Some c) s = (k, s')"
  from sig_connect_live [OF this]
  show "sig_full s' \<and> k \<notin> fst ` set (sig_live s) \<and> sig_live s' = sig_live s @ [(k, c)]" by simp
qed (simp add: conn_disconnect_live)

lemma sig_emit_live:
  assumes "sig_full s"
  shows "sig_emit record_call arg (s\<lparr>sig_user := u\<rparr>) = s\<lparr>sig_user := (fst u @ map (\<lambda>(k, c). (c, arg)) (sig_live s), snd u)\<rparr>"
proof -
  have ok: "sig_ok (s\<lparr>sig_user := v\<rparr>)" for v using assms by (simp add: sig_full_def sig_ok_def connected_updates)
  have on: "\<forall>a \<in> set (sig_slots s). connected a (s\<lparr>sig_user := u\<rparr>)"
    using assms by (simp add: sig_full_def sig_ok_def connected_updates)
  have "[(c, arg). (i, Some c) \<leftarrow> map (\<lambda>a. (a, Option.bind (sig_heap s a) slot_cb)) xs] =
      map (\<lambda>a. (the (Option.bind (sig_heap s a) slot_cb), arg)) xs" if "set xs \<subseteq> set (sig_slots s)" for xs
    using that assms by (induction xs) (auto simp: sig_full_def split: option.splits)
  with emit_records [OF on, of arg] clear_all_connected [OF ok] show ?thesis
    by (simp add: sig_emit_def sig_live_def o_def)
qed


section \<open>What a handler promises\<close>

record ('c, 'a) handler_spec =
  hs_all :: "(u64 option \<times> 'c) list"
  hs_of :: "u64 \<Rightarrow> (u64 option \<times> 'c) list"
  hs_ran :: "('c \<times> 'a) list"

datatype ('c, 'a) handler_op = Listen u64 'c | ListenTo u64 u64 'c | Leave u64 | LeaveFrom u64 u64 | Deliver 'a u64

fun hs_step :: "('c, 'a) handler_op \<Rightarrow> ('c, 'a) handler_spec \<Rightarrow> ('c, 'a) handler_spec" where
  "hs_step (Listen i c) s = s\<lparr>hs_all := taken_over i (hs_all s) @ [(Some i, c)]\<rparr>"
| "hs_step (ListenTo i oppo c) s = s\<lparr>hs_of := (hs_of s)(oppo := taken_over i (hs_of s oppo) @ [(Some i, c)])\<rparr>"
| "hs_step (Leave i) s = s\<lparr>hs_all := let_go i (hs_all s)\<rparr>"
| "hs_step (LeaveFrom i oppo) s = s\<lparr>hs_of := (hs_of s)(oppo := let_go i (hs_of s oppo))\<rparr>"
| "hs_step (Deliver arg oppo) s = s\<lparr>hs_ran := hs_ran s @ map (\<lambda>(_, c). (c, arg)) (hs_all s @ hs_of s oppo)\<rparr>"

definition hs_new :: "('c, 'a) handler_spec" where
  "hs_new = \<lparr>hs_all = [], hs_of = (\<lambda>_. []), hs_ran = []\<rparr>"

type_synonym ('c, 'a) log = "('c \<times> 'a) list \<times> bool list"

fun lh_step :: "('c, 'a) handler_op \<Rightarrow> ('c, 'a) log \<times> ('c, ('c, 'a) log) handler \<Rightarrow> ('c, 'a) log \<times> ('c, ('c, 'a) log) handler" where
  "lh_step (Listen i c) (u, h) = (u, lh_connect i c h)"
| "lh_step (ListenTo i oppo c) (u, h) = (u, lh_connect_to ([], []) i oppo c h)"
| "lh_step (Leave i) (u, h) = (u, lh_disconnect i h)"
| "lh_step (LeaveFrom i oppo) (u, h) = (u, lh_disconnect_from i oppo h)"
| "lh_step (Deliver arg oppo) (u, h) = lh_run record_call arg oppo u h"

fun writer_ok :: "('c, 'u) signal option \<Rightarrow> (u64 \<Rightarrow> connection option) option \<Rightarrow> (u64 option \<times> 'c) list \<Rightarrow> bool" where
  "writer_ok None None xs \<longleftrightarrow> xs = []"
| "writer_ok (Some s) (Some conns) xs \<longleftrightarrow> sg.stands_for s conns xs"
| "writer_ok _ _ xs \<longleftrightarrow> False"

definition lh_refines :: "('c, 'a) log \<times> ('c, ('c, 'a) log) handler \<Rightarrow> ('c, 'a) handler_spec \<Rightarrow> bool" where
  "lh_refines = (\<lambda>(u, h) sp. sg.stands_for (lh_signal h) (lh_conns h) (hs_all sp) \<and>
     (\<forall>oppo. writer_ok (lh_signals h oppo) (lh_signals_conns h oppo) (hs_of sp oppo)) \<and> fst u = hs_ran sp)"

lemma sig_new_full: "sig_full (sig_new u)" "sig_live (sig_new u) = []"
  by (simp_all add: sig_full_def sig_ok_def sig_new_def sig_live_def)

lemma sig_user_full: "sig_full (s\<lparr>sig_user := u\<rparr>) = sig_full s" "sig_live (s\<lparr>sig_user := u\<rparr>) = sig_live s"
  by (simp_all add: sig_full_def sig_ok_def sig_live_def connected_updates)

lemma stands_for_user: "sg.stands_for (s\<lparr>sig_user := u\<rparr>) conns xs = sg.stands_for s conns xs"
  by (simp add: sg.stands_for_def sig_user_full)

lemma writer_ok_cases:
  assumes "writer_ok so co xs"
  obtains "so = None" "co = None" "xs = []" | s conns where "so = Some s" "co = Some conns" "sg.stands_for s conns xs"
  using assms by (cases so; cases co) auto

lemma let_go_unknown:
  assumes "sg.stands_for s conns xs" and "conns i = None"
  shows "let_go i xs = xs"
proof -
  have "fst y \<noteq> Some i" if "y \<in> set xs" for y
    using assms that by (auto simp: sg.stands_for_def list_all2_conv_all_nth in_set_conv_nth entry_def)
  then show ?thesis by (auto simp: let_go_def filter_id_conv)
qed

lemma delivered: "sg.stands_for s conns xs \<Longrightarrow> map (\<lambda>(k, c). (c, arg)) (sig_live s) = map (\<lambda>(_, c). (c, arg)) xs"
  using arg_cong [OF sg.stands_for_callbacks, of s conns xs "map (\<lambda>c. (c, arg))"] by (simp add: o_def case_prod_beta')

lemma lh_step_refines:
  assumes "lh_refines uh sp"
  shows "lh_refines (lh_step x uh) (hs_step x sp)"
proof -
  obtain u h where uh: "uh = (u, h)" by (cases uh)
  have all: "sg.stands_for (lh_signal h) (lh_conns h) (hs_all sp)"
    and of: "writer_ok (lh_signals h oppo) (lh_signals_conns h oppo) (hs_of sp oppo)"
    and ran: "fst u = hs_ran sp" for oppo
    using assms by (simp_all add: lh_refines_def uh)
  show ?thesis
  proof (cases x)
    case (Listen i c)
    obtain k s where conn: "sig_connect (Some c) (lh_signal h) = (k, s)" by (cases "sig_connect (Some c) (lh_signal h)")
    moreover have "conn_is_connected k s" using sig_connect_live [OF _ conn] all by (simp add: sg.stands_for_def)
    ultimately show ?thesis using sg.stands_for_connect [OF all conn] of ran
      by (simp add: Listen uh lh_connect_def lh_refines_def)
  next
    case (ListenTo i oppo c)
    define s0 where "s0 = (case lh_signals h oppo of None \<Rightarrow> sig_new ([], []) | Some s \<Rightarrow> s)"
    define conns0 where "conns0 = (case lh_signals_conns h oppo of None \<Rightarrow> (\<lambda>_. None) | Some m \<Rightarrow> m)"
    have st: "sg.stands_for s0 conns0 (hs_of sp oppo)"
      using of [of oppo] sg.stands_for_empty [OF sig_new_full]
      by (cases rule: writer_ok_cases) (simp_all add: s0_def conns0_def)
    obtain k s where conn: "sig_connect (Some c) s0 = (k, s)" by (cases "sig_connect (Some c) s0")
    have "lh_connect_to ([], []) i oppo c h = h\<lparr>lh_signals := (lh_signals h)(oppo \<mapsto> s),
        lh_signals_conns := (lh_signals_conns h)(oppo \<mapsto> conns0(i \<mapsto> k))\<rparr>"
      using of [of oppo] conn by (cases rule: writer_ok_cases) (simp_all add: lh_connect_to_def s0_def conns0_def)
    with sg.stands_for_connect [OF st conn] all of ran show ?thesis
      by (simp add: ListenTo uh lh_refines_def)
  next
    case (Leave i)
    show ?thesis
    proof (cases "lh_conns h i")
      case None
      with let_go_unknown [OF all] all of ran show ?thesis by (simp add: Leave uh lh_disconnect_def lh_refines_def)
    next
      case (Some k)
      with sg.stands_for_disconnect [OF all] of ran show ?thesis by (simp add: Leave uh lh_disconnect_def lh_refines_def)
    qed
  next
    case (LeaveFrom i oppo)
    from of [of oppo] show ?thesis
    proof (cases rule: writer_ok_cases)
      case 1
      with all of ran show ?thesis by (simp add: LeaveFrom uh lh_disconnect_from_def lh_refines_def let_go_def)
    next
      case (2 s conns)
      show ?thesis
      proof (cases "conns i")
        case None
        with 2 let_go_unknown [OF 2(3)] all of ran show ?thesis
          by (simp add: LeaveFrom uh lh_disconnect_from_def lh_refines_def)
      next
        case (Some k)
        with 2 sg.stands_for_disconnect [OF 2(3)] all of ran show ?thesis
          by (simp add: LeaveFrom uh lh_disconnect_from_def lh_refines_def)
      qed
    qed
  next
    case (Deliver arg oppo)
    define u1 where "u1 = (fst u @ map (\<lambda>(k, c). (c, arg)) (sig_live (lh_signal h)), snd u)"
    have full: "sig_full (lh_signal h)" using all by (simp add: sg.stands_for_def)
    have emit: "sig_emit record_call arg ((lh_signal h)\<lparr>sig_user := u\<rparr>) = (lh_signal h)\<lparr>sig_user := u1\<rparr>"
      unfolding u1_def using full by (rule sig_emit_live)
    from of [of oppo] show ?thesis
    proof (cases rule: writer_ok_cases)
      case 1
      with all of ran emit delivered [OF all, of arg] show ?thesis
        by (simp add: Deliver uh lh_run_def lh_refines_def stands_for_user u1_def)
    next
      case (2 s conns)
      have "sig_full s" using 2(3) by (simp add: sg.stands_for_def)
      from sig_emit_live [OF this, of arg u1] 2 all of ran emit delivered [OF all, of arg] delivered [OF 2(3), of arg]
      show ?thesis by (simp add: Deliver uh lh_run_def lh_refines_def stands_for_user) (simp add: u1_def)
    qed
  qed
qed

lemma listeners_called_log:
  fixes xs :: "('c, 'a) handler_op list"
  shows "fst (fst (fold lh_step xs (([], []), lh_new ([], [])))) = hs_ran (fold hs_step xs hs_new)"
proof -
  have "lh_refines uh sp \<Longrightarrow> lh_refines (fold lh_step xs uh) (fold hs_step xs sp)" for uh and sp :: "('c, 'a) handler_spec"
    by (induction xs arbitrary: uh sp) (simp_all add: lh_step_refines)
  moreover have "lh_refines (([], []), lh_new ([], [])) (hs_new :: ('c, 'a) handler_spec)"
    using sg.stands_for_empty [OF sig_new_full] by (simp add: lh_refines_def lh_new_def hs_new_def)
  ultimately have "lh_refines (fold lh_step xs (([], []), lh_new ([], []))) (fold hs_step xs hs_new)" by blast
  then show ?thesis by (simp add: lh_refines_def case_prod_beta')
qed

text \<open>C28. A message reaches exactly the listeners that are due: after any sequence of connections,
  disconnections and messages, each message has run the listeners connected for every writer and those
  connected for its sender, in the order they were connected and each once; a disconnection takes out the
  connection made last under its id, and a connection that was replaced under its id stays for good.\<close>

theorem listeners_called:
  fixes xs :: "('c, 'a) handler_op list"
  shows "fst (fst (fold lh_step xs (([], []), lh_new ([], [])))) = hs_ran (fold hs_step xs hs_new)"
  by (rule listeners_called_log)

end
