(* ===== verification/Dispatcher.thy ===== *)
theory Dispatcher
  imports Listener_Handler Role_Warehouse
begin

text \<open>
  \<open>transport/dispatcher/dispatcher.h\<close>: the common part of the shared-memory and the RTPS dispatcher, whose
  states extend its record. The table of handlers is a finite map, which is what \<open>AtomicHashMap\<close> is
  proved to be. A handler has the type of its messages as a tag, as \<open>dynamic_pointer_cast\<close> tells it.
\<close>

record ('c, 'u) dispatcher =
  dp_is_shutdown :: bool
  dp_msg_listeners :: "u64 \<Rightarrow> (nat \<times> ('c, 'u) handler) option"

definition add_listener :: "nat \<Rightarrow> 'u \<Rightarrow> role_attributes \<Rightarrow> 'c \<Rightarrow> ('c, 'u, 'z) dispatcher_scheme \<Rightarrow> ('c, 'u, 'z) dispatcher_scheme" where
  "add_listener typ u self_attr listener d =
     (if dp_is_shutdown d then d
      else let channel_id = ra_channel_id self_attr in
        case dp_msg_listeners d channel_id of
          Some (typ', h) \<Rightarrow> if typ' \<noteq> typ then d
            else d\<lparr>dp_msg_listeners := (dp_msg_listeners d)(channel_id \<mapsto> (typ', lh_connect (ra_id self_attr) listener h))\<rparr>
        | None \<Rightarrow> d\<lparr>dp_msg_listeners := (dp_msg_listeners d)(channel_id \<mapsto> (typ, lh_connect (ra_id self_attr) listener (lh_new u)))\<rparr>)"

definition add_listener_to :: "nat \<Rightarrow> 'u \<Rightarrow> role_attributes \<Rightarrow> role_attributes \<Rightarrow> 'c \<Rightarrow> ('c, 'u, 'z) dispatcher_scheme \<Rightarrow> ('c, 'u, 'z) dispatcher_scheme" where
  "add_listener_to typ u self_attr opposite_attr listener d =
     (if dp_is_shutdown d then d
      else let channel_id = ra_channel_id self_attr; connect = lh_connect_to u (ra_id self_attr) (ra_id opposite_attr) listener in
        case dp_msg_listeners d channel_id of
          Some (typ', h) \<Rightarrow> if typ' \<noteq> typ then d
            else d\<lparr>dp_msg_listeners := (dp_msg_listeners d)(channel_id \<mapsto> (typ', connect h))\<rparr>
        | None \<Rightarrow> d\<lparr>dp_msg_listeners := (dp_msg_listeners d)(channel_id \<mapsto> (typ, connect (lh_new u)))\<rparr>)"

definition remove_listener :: "role_attributes \<Rightarrow> ('c, 'u, 'z) dispatcher_scheme \<Rightarrow> ('c, 'u, 'z) dispatcher_scheme" where
  "remove_listener self_attr d =
     (if dp_is_shutdown d then d
      else case dp_msg_listeners d (ra_channel_id self_attr) of None \<Rightarrow> d
        | Some (typ, h) \<Rightarrow> d\<lparr>dp_msg_listeners := (dp_msg_listeners d)(ra_channel_id self_attr \<mapsto>
            (typ, lh_disconnect (ra_id self_attr) h))\<rparr>)"

definition remove_listener_from :: "role_attributes \<Rightarrow> role_attributes \<Rightarrow> ('c, 'u, 'z) dispatcher_scheme \<Rightarrow> ('c, 'u, 'z) dispatcher_scheme" where
  "remove_listener_from self_attr opposite_attr d =
     (if dp_is_shutdown d then d
      else case dp_msg_listeners d (ra_channel_id self_attr) of None \<Rightarrow> d
        | Some (typ, h) \<Rightarrow> d\<lparr>dp_msg_listeners := (dp_msg_listeners d)(ra_channel_id self_attr \<mapsto>
            (typ, lh_disconnect_from (ra_id self_attr) (ra_id opposite_attr) h))\<rparr>)"

definition has_channel :: "u64 \<Rightarrow> ('c, 'u, 'z) dispatcher_scheme \<Rightarrow> bool" where
  "has_channel channel_id d \<longleftrightarrow> dp_msg_listeners d channel_id \<noteq> None"

section \<open>What a handler does with a message\<close>

lemma handler_delivers:
  assumes "fold lh_step xs (([], []), lh_new ([], [])) = (u, h)"
  shows "\<exists>u' h'. lh_run record_call arg oppo u h = (u', h') \<and> fst u = hs_ran (fold hs_step xs hs_new) \<and>
    fst u' = fst u @ map (\<lambda>(_, c). (c, arg)) (hs_all (fold hs_step xs hs_new) @ hs_of (fold hs_step xs hs_new) oppo)"
proof -
  have before: "fst u = hs_ran (fold hs_step xs hs_new)" using listeners_called_log [of xs] assms by simp
  obtain u' h' where run: "lh_run record_call arg oppo u h = (u', h')" by (cases "lh_run record_call arg oppo u h")
  have "fst u' = hs_ran (fold hs_step (xs @ [Deliver arg oppo]) hs_new)"
    using listeners_called_log [of "xs @ [Deliver arg oppo]"] assms run by simp
  with before run show ?thesis by simp
qed

end
