(* ===== verification/Shm_Dispatch.thy ===== *)
theory Shm_Dispatch
  imports Shm_Transport Dispatcher
begin

text \<open>
  The receiving end of a process over shared memory: \<open>transport/dispatcher/shm_dispatcher.h\<close> and
  \<open>shm_dispatcher.cpp\<close>, which keep the segments of the channels and turn an announcement into calls of
  the listeners of the common dispatcher, with \<open>receiver/shm_receiver.h\<close> and
  \<open>transmitter/transmitter.h\<close> at the two ends.
\<close>

section \<open>The dispatcher\<close>

type_synonym shm_message = "byte list \<times> message_info"

record ('c, 'u) shm_dispatcher = "('c, 'u) dispatcher" +
  sd_host_id :: u64
  sd_segments :: "u64 \<Rightarrow> segment option"
  sd_previous_indexs :: "u64 \<Rightarrow> u32 option"

text \<open>The tag of \<open>ReadableBlock\<close>, the message type of every listener over shared memory.\<close>

definition readable_block :: nat where "readable_block = 0"

definition dispatcher_new :: "u64 \<Rightarrow> ('c, 'u) shm_dispatcher" where
  "dispatcher_new host_id = \<lparr>dp_is_shutdown = False, dp_msg_listeners = (\<lambda>_. None), sd_host_id = host_id,
     sd_segments = (\<lambda>_. None), sd_previous_indexs = (\<lambda>_. None)\<rparr>"

definition add_segment :: "role_attributes \<Rightarrow> ('c, 'u) shm_dispatcher \<Rightarrow> ('c, 'u) shm_dispatcher" where
  "add_segment self_attr d =
     (let channel_id = ra_channel_id self_attr in
      if sd_segments d channel_id \<noteq> None then d
      else d\<lparr>sd_segments := (sd_segments d)(channel_id \<mapsto> segment_new Xsi channel_id),
             sd_previous_indexs := (sd_previous_indexs d)(channel_id \<mapsto> - 1)\<rparr>)"

definition shm_add_listener :: "'u \<Rightarrow> role_attributes \<Rightarrow> 'c \<Rightarrow> ('c, 'u) shm_dispatcher \<Rightarrow> ('c, 'u) shm_dispatcher" where
  "shm_add_listener u self_attr listener d = add_segment self_attr (add_listener readable_block u self_attr listener d)"

definition shm_add_listener_to :: "'u \<Rightarrow> role_attributes \<Rightarrow> role_attributes \<Rightarrow> 'c \<Rightarrow> ('c, 'u) shm_dispatcher \<Rightarrow> ('c, 'u) shm_dispatcher" where
  "shm_add_listener_to u self_attr opposite_attr listener d =
     add_segment self_attr (add_listener_to readable_block u self_attr opposite_attr listener d)"

definition shm_shutdown :: "('c, 'u) shm_dispatcher \<Rightarrow> ('c, 'u) shm_dispatcher" where
  "shm_shutdown d = (if dp_is_shutdown d then d else d\<lparr>dp_is_shutdown := True, sd_segments := (\<lambda>_. None)\<rparr>)"

section \<open>From an announcement to the listeners\<close>

definition on_message :: "('c, shm_message, 'u) callbacks \<Rightarrow> u64 \<Rightarrow> shm_message \<Rightarrow> 'u \<Rightarrow> ('c, 'u) shm_dispatcher \<Rightarrow>
    ub + 'u \<times> ('c, 'u) shm_dispatcher" where
  "on_message run channel_id m u d =
     (if dp_is_shutdown d then Inr (u, d)
      else case dp_msg_listeners d channel_id of None \<Rightarrow> Inr (u, d)
        | Some (typ, h) \<Rightarrow> if typ \<noteq> readable_block then Inl NullPointer
            else (let (u', h') = lh_run run m (id_hash_value (mi_sender_id (snd m))) u h
              in Inr (u', d\<lparr>dp_msg_listeners := (dp_msg_listeners d)(channel_id \<mapsto> (typ, h'))\<rparr>)))"

text \<open>
  One round of \<open>ThreadFunc\<close> after \<open>Listen\<close> returned true. The listeners run while the block is locked for
  reading; they see the bytes of the message. A channel without a previous index gets zero, as the
  assignment that should set it is a comparison.
\<close>

definition handle_announcement :: "('c, shm_message, 'u) callbacks \<Rightarrow> (byte list \<Rightarrow> u64) \<Rightarrow> byte_order \<Rightarrow> readable_info \<Rightarrow>
    'u \<Rightarrow> ('c, 'u) shm_dispatcher \<Rightarrow> shm_world \<Rightarrow> ub + 'u \<times> ('c, 'u) shm_dispatcher \<times> shm_world" where
  "handle_announcement run hash hb ri u d w =
     (if ri_host_id ri \<noteq> sd_host_id d then Inr (u, d, w)
      else let channel_id = ri_channel_id ri in
        case sd_segments d channel_id of None \<Rightarrow> Inr (u, d, w)
        | Some sg \<Rightarrow> let d1 = d\<lparr>sd_previous_indexs := (sd_previous_indexs d)(channel_id \<mapsto> ri_block_index ri)\<rparr>
            in sbind (shm_read_message hash hb (unat (ri_block_index ri)) sg w) (\<lambda>(m, sg', w').
               sbind (on_message run channel_id m u (d1\<lparr>sd_segments := (sd_segments d1)(channel_id \<mapsto> sg')\<rparr>)) (\<lambda>(u', d').
                 Inr (u', d', w'))))"

section \<open>Receivers and transmitters\<close>

text \<open>A receiver listens by \<open>OnNewMessage\<close>, a call bound to it, which \<open>listener\<close> names.\<close>

record 'c receiver =
  rc_enabled :: bool
  rc_attr :: role_attributes
  rc_listener :: 'c

definition receiver_enable :: "'u \<Rightarrow> 'c receiver \<times> ('c, 'u) shm_dispatcher \<Rightarrow> 'c receiver \<times> ('c, 'u) shm_dispatcher" where
  "receiver_enable u = (\<lambda>(rc, d). if rc_enabled rc then (rc, d)
     else (rc\<lparr>rc_enabled := True\<rparr>, shm_add_listener u (rc_attr rc) (rc_listener rc) d))"

definition receiver_disable :: "'c receiver \<times> ('c, 'u) shm_dispatcher \<Rightarrow> 'c receiver \<times> ('c, 'u) shm_dispatcher" where
  "receiver_disable = (\<lambda>(rc, d). if \<not> rc_enabled rc then (rc, d)
     else (rc\<lparr>rc_enabled := False\<rparr>, remove_listener (rc_attr rc) d))"

definition receiver_enable_to :: "'u \<Rightarrow> role_attributes \<Rightarrow> 'c receiver \<times> ('c, 'u) shm_dispatcher \<Rightarrow> 'c receiver \<times> ('c, 'u) shm_dispatcher" where
  "receiver_enable_to u opposite_attr = (\<lambda>(rc, d). (rc, shm_add_listener_to u (rc_attr rc) opposite_attr (rc_listener rc) d))"

definition receiver_disable_to :: "role_attributes \<Rightarrow> 'c receiver \<times> ('c, 'u) shm_dispatcher \<Rightarrow> 'c receiver \<times> ('c, 'u) shm_dispatcher" where
  "receiver_disable_to opposite_attr = (\<lambda>(rc, d). (rc, remove_listener_from (rc_attr rc) opposite_attr d))"

record transmitter =
  tr_enabled :: bool
  tr_seq_num :: u64
  tr_msg_info :: message_info
  tr_channel_id :: u64
  tr_host_id :: u64
  tr_segment :: "segment option"

definition transmitter_new :: "(byte list \<Rightarrow> u64) \<Rightarrow> identity \<Rightarrow> u64 \<Rightarrow> u64 \<Rightarrow> transmitter" where
  "transmitter_new hash i channel_id host_id = \<lparr>tr_enabled = False, tr_seq_num = 0,
     tr_msg_info = (message_info_new hash)\<lparr>mi_sender_id := i, mi_seq_num := 0\<rparr>,
     tr_channel_id = channel_id, tr_host_id = host_id, tr_segment = None\<rparr>"

definition transmitter_enable :: "transmitter \<Rightarrow> transmitter" where
  "transmitter_enable tr = (if tr_enabled tr then tr
     else tr\<lparr>tr_segment := Some (segment_new Xsi (tr_channel_id tr)), tr_enabled := True\<rparr>)"

definition transmitter_disable :: "transmitter \<Rightarrow> transmitter" where
  "transmitter_disable tr = (if tr_enabled tr then tr\<lparr>tr_segment := None, tr_enabled := False\<rparr> else tr)"

text \<open>\<open>Transmit(msg)\<close>: the next sequence number goes into the message information, then the message is written.\<close>

definition transmitter_transmit :: "byte_order \<Rightarrow> byte list \<Rightarrow> transmitter \<Rightarrow> shm_world \<Rightarrow>
    (ub + readable_info option \<times> transmitter \<times> shm_world) option" where
  "transmitter_transmit hb payload tr w =
     (let seq = tr_seq_num tr + 1; tr1 = tr\<lparr>tr_seq_num := seq, tr_msg_info := (tr_msg_info tr)\<lparr>mi_seq_num := seq\<rparr>\<rparr>
      in if \<not> tr_enabled tr1 then Some (Inr (None, tr1, w))
         else case tr_segment tr1 of None \<Rightarrow> Some (Inl NullPointer)
           | Some sg \<Rightarrow> map_option (map_sum id (\<lambda>(ri, sg', w'). (ri, tr1\<lparr>tr_segment := Some sg'\<rparr>, w')))
               (shm_transmit hb (tr_host_id tr1) payload (tr_msg_info tr1) sg w))"


section \<open>From \<open>Transmit\<close> to the listeners\<close>


text \<open>A receiver that was enabled for a single writer is still called after it was disabled as its destructor
  does: \<open>Enable(opposite_attr)\<close> leaves \<open>enabled_\<close> false, so \<open>Disable\<close> returns at once.\<close>

lemma receiver_called_after_disable:
  "\<exists>d. on_message record_call (ra_channel_id attr) (payload, message_info_new (\<lambda>_. 0)) ([], [])
     (snd (receiver_disable (receiver_enable_to ([], []) (opposite\<lparr>ra_id := 0\<rparr>)
        (\<lparr>rc_enabled = False, rc_attr = attr, rc_listener = c\<rparr>, dispatcher_new host_id)))) =
   Inr (([(c, payload, message_info_new (\<lambda>_. 0))], []), d)"
  by (simp add: receiver_disable_def receiver_enable_to_def shm_add_listener_to_def add_listener_to_def dispatcher_new_def
      add_segment_def on_message_def readable_block_def Let_def lh_connect_to_def lh_new_def sig_new_def sig_connect_def
      lh_run_def message_info_new_def identity_new_def sig_emit_def slot_call_def new_slot_def record_call_def
      clear_disconnected_def connected_def)


definition sample_reader :: role_attributes where
  "sample_reader = \<lparr>ra_host_name = ''h'', ra_host_ip = ''1'', ra_process_id = 1, ra_channel_name = ''c'', ra_channel_id = 7,
     ra_qos = qos_default, ra_id = 9, ra_node_name = ''n'', ra_node_id = 3, ra_message_type = ''t''\<rparr>"


end
