(* ===== verification/Croutine.thy ===== *)
theory Croutine
  imports Cmw_Prelude
begin

text \<open>
  Coroutines as the scheduler sees them (\<open>croutine/croutine.h\<close>, \<open>croutine.cpp\<close>) and the loop of the
  routines that process messages (\<open>croutine_factory.h\<close>). Time is the steady clock in microseconds. The
  function of a routine is given by its slices: what it does from one \<open>Resume\<close> to the next \<open>Yield\<close>, which is all
  that the exchange of stacks lets a caller see. The stacks themselves (\<open>croutine_context\<close>, the assembly of
  \<open>ctx_swap\<close>) and the pool they come from are left out.
\<close>

section \<open>State and operations\<close>

datatype routine_state = READY | FINISHED | SLEEP | IO_WAIT | DATA_WAIT

record croutine =
  cr_name :: string
  cr_wake_time :: int
  cr_state :: routine_state
  cr_lock :: bool
  cr_updated :: bool
  cr_force_stop :: bool
  cr_processor_id :: "32 word"
  cr_priority :: u32
  cr_id :: u64
  cr_group_name :: string

definition croutine_new :: "int \<Rightarrow> croutine" where
  "croutine_new now = \<lparr>cr_name = '''', cr_wake_time = now, cr_state = READY, cr_lock = False, cr_updated = True,
     cr_force_stop = False, cr_processor_id = - 1, cr_priority = 0, cr_id = 0, cr_group_name = ''''\<rparr>"

definition cr_acquire :: "croutine \<Rightarrow> bool \<times> croutine" where
  "cr_acquire r = (\<not> cr_lock r, r\<lparr>cr_lock := True\<rparr>)"

definition cr_release :: "croutine \<Rightarrow> croutine" where
  "cr_release r = r\<lparr>cr_lock := False\<rparr>"

definition set_update_flag :: "croutine \<Rightarrow> croutine" where
  "set_update_flag r = r\<lparr>cr_updated := False\<rparr>"

definition cr_stop :: "croutine \<Rightarrow> croutine" where
  "cr_stop r = r\<lparr>cr_force_stop := True\<rparr>"

definition cr_wake :: "croutine \<Rightarrow> croutine" where
  "cr_wake r = r\<lparr>cr_state := READY\<rparr>"

text \<open>What \<open>Yield(state)\<close>, \<open>HangUp\<close> and \<open>Sleep\<close> do before they leave the routine.\<close>

definition yield_as :: "routine_state \<Rightarrow> croutine \<Rightarrow> croutine" where
  "yield_as st r = r\<lparr>cr_state := st\<rparr>"

definition hang_up :: "croutine \<Rightarrow> croutine" where
  "hang_up r = yield_as DATA_WAIT r"

definition cr_sleep :: "int \<Rightarrow> int \<Rightarrow> croutine \<Rightarrow> croutine" where
  "cr_sleep now sleep_duration r = yield_as SLEEP (r\<lparr>cr_wake_time := now + sleep_duration\<rparr>)"

definition update_state :: "int \<Rightarrow> croutine \<Rightarrow> routine_state \<times> croutine" where
  "update_state now r =
     (if cr_state r = SLEEP \<and> cr_wake_time r < now then (READY, r\<lparr>cr_state := READY\<rparr>)
      else let r1 = (if cr_updated r then r
          else if cr_state r = DATA_WAIT \<or> cr_state r = IO_WAIT then r\<lparr>cr_updated := True, cr_state := READY\<rparr>
          else r\<lparr>cr_updated := True\<rparr>)
        in (cr_state r1, r1))"

definition resume :: "(croutine \<times> 'w \<Rightarrow> croutine \<times> 'w) \<Rightarrow> croutine \<times> 'w \<Rightarrow> routine_state \<times> croutine \<times> 'w" where
  "resume body = (\<lambda>(r, w).
     if cr_force_stop r then (FINISHED, r\<lparr>cr_state := FINISHED\<rparr>, w)
     else if cr_state r \<noteq> READY then (cr_state r, r, w)
     else (let (r', w') = body (r, w) in (cr_state r', r', w')))"

text \<open>\<open>CRoutineEntry\<close> for a function that yields nowhere, and the loop of \<open>CreateRoutineFactory\<close>.\<close>

definition entry_slice :: "('w \<Rightarrow> 'w) \<Rightarrow> croutine \<times> 'w \<Rightarrow> croutine \<times> 'w" where
  "entry_slice f = (\<lambda>(r, w). (yield_as FINISHED r, f w))"

definition data_slice :: "('w \<Rightarrow> ('m \<times> 'w) option) \<Rightarrow> ('m \<Rightarrow> 'w \<Rightarrow> 'w) \<Rightarrow> croutine \<times> 'w \<Rightarrow> croutine \<times> 'w" where
  "data_slice try_fetch f = (\<lambda>(r, w). let r1 = r\<lparr>cr_state := DATA_WAIT\<rparr> in
     case try_fetch w of Some (msg, w') \<Rightarrow> (yield_as READY r1, f msg w') | None \<Rightarrow> (r1, w))"

section \<open>Which routines run\<close>

text \<open>Whether \<open>UpdateState\<close> makes a routine ready.\<close>

definition awake :: "int \<Rightarrow> croutine \<Rightarrow> bool" where
  "awake now r \<longleftrightarrow> (case cr_state r of READY \<Rightarrow> True | FINISHED \<Rightarrow> False | SLEEP \<Rightarrow> cr_wake_time r < now
     | IO_WAIT \<Rightarrow> \<not> cr_updated r | DATA_WAIT \<Rightarrow> \<not> cr_updated r)"

lemma update_state_ready: "fst (update_state now r) = READY \<longleftrightarrow> awake now r"
  by (cases "cr_state r") (simp_all add: update_state_def awake_def Let_def)

lemma update_state_result [simp]: "cr_state (snd (update_state now r)) = fst (update_state now r)"
  by (simp add: update_state_def Let_def)

text \<open>Looking at a routine that is not ready leaves it as it is, but for its flag.\<close>

lemma update_state_unready:
  "\<not> awake now r \<Longrightarrow> snd (update_state now r) = r\<lparr>cr_updated := True\<rparr> \<or> snd (update_state now r) = r"
  by (cases "cr_state r") (simp_all add: update_state_def awake_def Let_def)

lemma awake_again: "\<not> awake now r \<Longrightarrow> \<not> awake now (snd (update_state now r))"
  by (cases "cr_state r") (auto simp: update_state_def awake_def Let_def)

text \<open>The fields that say where a routine belongs.\<close>

definition identity_of :: "croutine \<Rightarrow> string \<times> u64 \<times> string \<times> u32" where
  "identity_of r = (cr_name r, cr_id r, cr_group_name r, cr_priority r)"

lemma identity_of_ops [simp]:
  "identity_of (snd (cr_acquire r)) = identity_of r" "identity_of (cr_release r) = identity_of r"
  "identity_of (set_update_flag r) = identity_of r" "identity_of (cr_stop r) = identity_of r"
  "identity_of (snd (update_state now r)) = identity_of r"
  by (simp_all add: identity_of_def cr_acquire_def cr_release_def set_update_flag_def cr_stop_def update_state_def Let_def)

end
