(* ===== verification/Routine_Steps.thy ===== *)
theory Routine_Steps
  imports Croutine Interleaving
begin

text \<open>
  Routines under any interleaving of the threads that deal with them: processors that search the queues of
  their group (\<open>ClassicContext::NextRoutine\<close>), update, run and release routines; the loop of a routine that
  processes messages (\<open>croutine_factory.h\<close>); threads that fill its buffer and notify it
  (\<open>SchedulerClassic::NotifyProcessor\<close>); threads that dispatch and remove routines. A routine may do the latter
  three as well while it runs: then the operation goes back to it.

  One step is one access to shared state. The reader-writer locks of the queues and of the table of ids are taken
  when no thread is in a section that excludes it, which is what \<open>AtomicRWLock\<close> is proved to guarantee, and the
  mutex of an id keeps dispatching and removing apart. The flag of a routine remembers who set it. A buffer is
  the number of messages put in and the number up to which the routine has read: a fetch delivers or passes over
  at least one message. The field \<open>state_\<close> is a plain variable in the code; here its accesses are atomic.
\<close>

section \<open>State\<close>

datatype body_pc = BWait | BFetch | BWork | BReady | BYield

text \<open>A routine that calls an operation is named by it, \<open>None\<close> is a thread of its own.\<close>

type_synonym caller = "nat option"

datatype rs_pc = RsIdle | RsLock nat | RsScan nat "nat list" | RsUpdate nat nat "nat list" | RsTest nat nat "nat list"
  | RsFlag nat nat "nat list" | RsLook nat nat "nat list" | RsGot nat | RsRun nat body_pc | RsRelease nat
  | RsNotify nat caller | RsState nat caller | RsState2 nat caller | RsClear nat caller | RsSignal caller
  | RsPush nat caller | RmQueue nat caller | RmSpin nat caller | RmErase nat caller | RmFree nat caller

text \<open>Whether a routine was created, is in \<open>id_cr_\<close> (\<open>Pushing\<close>, \<open>Live\<close>), or was taken out of it, and by which thread.\<close>

datatype rs_phase = New | Pushing nat | Live | Removing nat | Gone

record rs_state =
  rs_st :: "nat \<Rightarrow> routine_state"
  rs_lock :: "nat \<Rightarrow> nat option"
  rs_updated :: "nat \<Rightarrow> bool"
  rs_stop :: "nat \<Rightarrow> bool"
  rs_at :: "nat \<Rightarrow> body_pc"
  rs_wake :: "nat \<Rightarrow> int"
  rs_phase :: "nat \<Rightarrow> rs_phase"
  rs_rq :: "nat \<Rightarrow> nat list"
  rs_filled :: "nat \<Rightarrow> nat"
  rs_pos :: "nat \<Rightarrow> nat"
  rs_now :: int
  rs_notify_grp :: int
  rs_pcs :: "nat \<Rightarrow> rs_pc"

definition rs_start :: rs_state where
  "rs_start = \<lparr>rs_st = (\<lambda>_. READY), rs_lock = (\<lambda>_. None), rs_updated = (\<lambda>_. True), rs_stop = (\<lambda>_. False), rs_at = (\<lambda>_. BWait),
     rs_wake = (\<lambda>_. 0), rs_phase = (\<lambda>_. New), rs_rq = (\<lambda>_. []), rs_filled = (\<lambda>_. 0), rs_pos = (\<lambda>_. 0), rs_now = 0,
     rs_notify_grp = 0, rs_pcs = (\<lambda>_. RsIdle)\<rparr>"

definition rs_goto :: "nat \<Rightarrow> rs_pc \<Rightarrow> rs_state \<Rightarrow> rs_state" where
  "rs_goto i p s = s\<lparr>rs_pcs := (rs_pcs s)(i := p)\<rparr>"

fun in_table :: "rs_phase \<Rightarrow> bool" where
  "in_table (Pushing i) = True"
| "in_table Live = True"
| "in_table _ = False"

definition in_id_cr :: "rs_state \<Rightarrow> nat \<Rightarrow> bool" where
  "in_id_cr s r \<longleftrightarrow> in_table (rs_phase s r)"

fun return_to :: "caller \<Rightarrow> rs_pc" where
  "return_to None = RsIdle"
| "return_to (Some r) = RsRun r BWork"

text \<open>The sections under the locks: of a queue for reading and for writing, of the table of ids for reading.\<close>

fun reads_queue :: "rs_pc \<Rightarrow> nat option" where
  "reads_queue (RsScan p q) = Some p"
| "reads_queue (RsUpdate p r q) = Some p"
| "reads_queue (RsTest p r q) = Some p"
| "reads_queue (RsFlag p r q) = Some p"
| "reads_queue (RsLook p r q) = Some p"
| "reads_queue _ = None"

fun writes_queue :: "(nat \<Rightarrow> nat) \<Rightarrow> rs_pc \<Rightarrow> nat option" where
  "writes_queue prio (RmSpin r k) = Some (prio r)"
| "writes_queue prio (RmErase r k) = Some (prio r)"
| "writes_queue prio (RmFree r k) = Some (prio r)"
| "writes_queue prio _ = None"

fun reads_ids :: "rs_pc \<Rightarrow> bool" where
  "reads_ids (RsState r k) = True"
| "reads_ids (RsState2 r k) = True"
| "reads_ids (RsClear r k) = True"
| "reads_ids (RsSignal k) = True"
| "reads_ids _ = False"

section \<open>Steps\<close>

inductive rs_step :: "(nat \<Rightarrow> nat) \<Rightarrow> nat \<Rightarrow> rs_state \<Rightarrow> rs_state \<Rightarrow> bool" for prio where
  begin_next: "rs_pcs s i = RsIdle \<Longrightarrow> rs_step prio i s (rs_goto i (RsLock 20) s)"
| wait: "rs_pcs s i = RsLock 0 \<Longrightarrow> rs_step prio i s (rs_goto i RsIdle
    (s\<lparr>rs_notify_grp := (if 0 < rs_notify_grp s then rs_notify_grp s - 1 else rs_notify_grp s)\<rparr>))"
| enter: "rs_pcs s i = RsLock (Suc p) \<Longrightarrow> \<forall>j. writes_queue prio (rs_pcs s j) \<noteq> Some p \<Longrightarrow>
    rs_step prio i s (rs_goto i (RsScan p (rs_rq s p)) s)"
| leave: "rs_pcs s i = RsScan p [] \<Longrightarrow> rs_step prio i s (rs_goto i (RsLock p) s)"
| busy: "rs_pcs s i = RsScan p (r # q) \<Longrightarrow> rs_lock s r \<noteq> None \<Longrightarrow> rs_step prio i s (rs_goto i (RsScan p q) s)"
| acquire: "rs_pcs s i = RsScan p (r # q) \<Longrightarrow> rs_lock s r = None \<Longrightarrow>
    rs_step prio i s (rs_goto i (RsUpdate p r q) (s\<lparr>rs_lock := (rs_lock s)(r := Some i)\<rparr>))"
| woken: "rs_pcs s i = RsUpdate p r q \<Longrightarrow> rs_st s r = SLEEP \<Longrightarrow> rs_wake s r < rs_now s \<Longrightarrow>
    rs_step prio i s (rs_goto i (RsLook p r q) (s\<lparr>rs_st := (rs_st s)(r := READY)\<rparr>))"
| not_woken: "rs_pcs s i = RsUpdate p r q \<Longrightarrow> \<not> (rs_st s r = SLEEP \<and> rs_wake s r < rs_now s) \<Longrightarrow>
    rs_step prio i s (rs_goto i (RsTest p r q) s)"
| flag_set: "rs_pcs s i = RsTest p r q \<Longrightarrow> rs_updated s r \<Longrightarrow> rs_step prio i s (rs_goto i (RsLook p r q) s)"
| flag_clear: "rs_pcs s i = RsTest p r q \<Longrightarrow> \<not> rs_updated s r \<Longrightarrow>
    rs_step prio i s (rs_goto i (RsFlag p r q) (s\<lparr>rs_updated := (rs_updated s)(r := True)\<rparr>))"
| made_ready: "rs_pcs s i = RsFlag p r q \<Longrightarrow> rs_st s r = DATA_WAIT \<or> rs_st s r = IO_WAIT \<Longrightarrow>
    rs_step prio i s (rs_goto i (RsLook p r q) (s\<lparr>rs_st := (rs_st s)(r := READY)\<rparr>))"
| not_waiting: "rs_pcs s i = RsFlag p r q \<Longrightarrow> rs_st s r \<noteq> DATA_WAIT \<Longrightarrow> rs_st s r \<noteq> IO_WAIT \<Longrightarrow>
    rs_step prio i s (rs_goto i (RsLook p r q) s)"
| take: "rs_pcs s i = RsLook p r q \<Longrightarrow> rs_st s r = READY \<Longrightarrow> rs_step prio i s (rs_goto i (RsGot r) s)"
| pass: "rs_pcs s i = RsLook p r q \<Longrightarrow> rs_st s r \<noteq> READY \<Longrightarrow>
    rs_step prio i s (rs_goto i (RsScan p q) (s\<lparr>rs_lock := (rs_lock s)(r := None)\<rparr>))"
| stopped: "rs_pcs s i = RsGot r \<Longrightarrow> rs_stop s r \<Longrightarrow>
    rs_step prio i s (rs_goto i (RsRelease r) (s\<lparr>rs_st := (rs_st s)(r := FINISHED)\<rparr>))"
| resumed: "rs_pcs s i = RsGot r \<Longrightarrow> \<not> rs_stop s r \<Longrightarrow> rs_st s r = READY \<Longrightarrow>
    rs_step prio i s (rs_goto i (RsRun r (rs_at s r)) s)"
| invalid: "rs_pcs s i = RsGot r \<Longrightarrow> \<not> rs_stop s r \<Longrightarrow> rs_st s r \<noteq> READY \<Longrightarrow> rs_step prio i s (rs_goto i (RsRelease r) s)"
| release: "rs_pcs s i = RsRelease r \<Longrightarrow> rs_step prio i s (rs_goto i RsIdle (s\<lparr>rs_lock := (rs_lock s)(r := None)\<rparr>))"
| set_wait: "rs_pcs s i = RsRun r BWait \<Longrightarrow>
    rs_step prio i s (rs_goto i (RsRun r BFetch) (s\<lparr>rs_st := (rs_st s)(r := DATA_WAIT)\<rparr>))"
| fetched: "rs_pcs s i = RsRun r BFetch \<Longrightarrow> rs_pos s r < n \<Longrightarrow> n \<le> rs_filled s r \<Longrightarrow>
    rs_step prio i s (rs_goto i (RsRun r BWork) (s\<lparr>rs_pos := (rs_pos s)(r := n)\<rparr>))"
| not_fetched: "rs_pcs s i = RsRun r BFetch \<Longrightarrow> rs_filled s r \<le> rs_pos s r \<Longrightarrow> rs_step prio i s (rs_goto i (RsRun r BYield) s)"
| worked: "rs_pcs s i = RsRun r BWork \<Longrightarrow> rs_step prio i s (rs_goto i (RsRun r BReady) s)"
| sleep: "rs_pcs s i = RsRun r BWork \<Longrightarrow> rs_step prio i s (rs_goto i (RsRelease r)
    (s\<lparr>rs_wake := (rs_wake s)(r := rs_now s + d), rs_st := (rs_st s)(r := SLEEP), rs_at := (rs_at s)(r := BWork)\<rparr>))"
| yield_ready: "rs_pcs s i = RsRun r BReady \<Longrightarrow>
    rs_step prio i s (rs_goto i (RsRelease r) (s\<lparr>rs_st := (rs_st s)(r := READY), rs_at := (rs_at s)(r := BWait)\<rparr>))"
| yield: "rs_pcs s i = RsRun r BYield \<Longrightarrow>
    rs_step prio i s (rs_goto i (RsRelease r) (s\<lparr>rs_at := (rs_at s)(r := BWait)\<rparr>))"
| fill: "rs_pcs s i = return_to k \<Longrightarrow>
    rs_step prio i s (rs_goto i (RsNotify r k) (s\<lparr>rs_filled := (rs_filled s)(r := rs_filled s r + 1)\<rparr>))"
| unknown: "rs_pcs s i = RsNotify r k \<Longrightarrow> \<not> in_id_cr s r \<Longrightarrow> rs_step prio i s (rs_goto i (return_to k) s)"
| known: "rs_pcs s i = RsNotify r k \<Longrightarrow> in_id_cr s r \<Longrightarrow> rs_step prio i s (rs_goto i (RsState r k) s)"
| waits: "rs_pcs s i = RsState r k \<Longrightarrow> rs_st s r = DATA_WAIT \<Longrightarrow> rs_step prio i s (rs_goto i (RsClear r k) s)"
| waits_not: "rs_pcs s i = RsState r k \<Longrightarrow> rs_st s r \<noteq> DATA_WAIT \<Longrightarrow> rs_step prio i s (rs_goto i (RsState2 r k) s)"
| io_waits: "rs_pcs s i = RsState2 r k \<Longrightarrow> rs_st s r = IO_WAIT \<Longrightarrow> rs_step prio i s (rs_goto i (RsClear r k) s)"
| io_waits_not: "rs_pcs s i = RsState2 r k \<Longrightarrow> rs_st s r \<noteq> IO_WAIT \<Longrightarrow> rs_step prio i s (rs_goto i (RsSignal k) s)"
| clear: "rs_pcs s i = RsClear r k \<Longrightarrow>
    rs_step prio i s (rs_goto i (RsSignal k) (s\<lparr>rs_updated := (rs_updated s)(r := False)\<rparr>))"
| signal: "rs_pcs s i = RsSignal k \<Longrightarrow> rs_step prio i s (rs_goto i (return_to k) (s\<lparr>rs_notify_grp := rs_notify_grp s + 1\<rparr>))"
| create: "rs_pcs s i = return_to k \<Longrightarrow> rs_phase s r = New \<Longrightarrow> \<forall>j. \<not> reads_ids (rs_pcs s j) \<Longrightarrow>
    rs_step prio i s (rs_goto i (RsPush r k) (s\<lparr>rs_st := (rs_st s)(r := READY), rs_updated := (rs_updated s)(r := True),
      rs_phase := (rs_phase s)(r := Pushing i)\<rparr>))"
| push: "rs_pcs s i = RsPush r k \<Longrightarrow>
    \<forall>j. reads_queue (rs_pcs s j) \<noteq> Some (prio r) \<and> writes_queue prio (rs_pcs s j) \<noteq> Some (prio r) \<Longrightarrow>
    rs_step prio i s (rs_goto i (RsSignal k) (s\<lparr>rs_phase := (rs_phase s)(r := Live),
      rs_rq := (rs_rq s)(prio r := rs_rq s (prio r) @ [r])\<rparr>))"
| remove: "rs_pcs s i = return_to k \<Longrightarrow> rs_phase s r = Live \<Longrightarrow> \<forall>j. \<not> reads_ids (rs_pcs s j) \<Longrightarrow>
    rs_step prio i s (rs_goto i (RmQueue r k) (s\<lparr>rs_stop := (rs_stop s)(r := True), rs_phase := (rs_phase s)(r := Removing i)\<rparr>))"
| lock_queue: "rs_pcs s i = RmQueue r k \<Longrightarrow>
    \<forall>j. reads_queue (rs_pcs s j) \<noteq> Some (prio r) \<and> writes_queue prio (rs_pcs s j) \<noteq> Some (prio r) \<Longrightarrow>
    r \<in> set (rs_rq s (prio r)) \<Longrightarrow> rs_step prio i s (rs_goto i (RmSpin r k) (s\<lparr>rs_stop := (rs_stop s)(r := True)\<rparr>))"
| not_found: "rs_pcs s i = RmQueue r k \<Longrightarrow>
    \<forall>j. reads_queue (rs_pcs s j) \<noteq> Some (prio r) \<and> writes_queue prio (rs_pcs s j) \<noteq> Some (prio r) \<Longrightarrow>
    r \<notin> set (rs_rq s (prio r)) \<Longrightarrow> rs_step prio i s (rs_goto i (return_to k) (s\<lparr>rs_phase := (rs_phase s)(r := Gone)\<rparr>))"
| spin: "rs_pcs s i = RmSpin r k \<Longrightarrow> rs_lock s r \<noteq> None \<Longrightarrow> rs_step prio i s s"
| remover_acquire: "rs_pcs s i = RmSpin r k \<Longrightarrow> rs_lock s r = None \<Longrightarrow>
    rs_step prio i s (rs_goto i (RmErase r k) (s\<lparr>rs_lock := (rs_lock s)(r := Some i)\<rparr>))"
| erase: "rs_pcs s i = RmErase r k \<Longrightarrow>
    rs_step prio i s (rs_goto i (RmFree r k) (s\<lparr>rs_rq := (rs_rq s)(prio r := remove1 r (rs_rq s (prio r)))\<rparr>))"
| free: "rs_pcs s i = RmFree r k \<Longrightarrow>
    rs_step prio i s (rs_goto i (return_to k) (s\<lparr>rs_lock := (rs_lock s)(r := None), rs_phase := (rs_phase s)(r := Gone)\<rparr>))"
| tick: "rs_now s \<le> t \<Longrightarrow> rs_step prio i s (s\<lparr>rs_now := t\<rparr>)"

lemma rs_goto_simps [simp]:
  "rs_st (rs_goto i p s) = rs_st s" "rs_lock (rs_goto i p s) = rs_lock s" "rs_updated (rs_goto i p s) = rs_updated s"
  "rs_stop (rs_goto i p s) = rs_stop s" "rs_at (rs_goto i p s) = rs_at s" "rs_wake (rs_goto i p s) = rs_wake s"
  "rs_phase (rs_goto i p s) = rs_phase s" "rs_rq (rs_goto i p s) = rs_rq s" "rs_filled (rs_goto i p s) = rs_filled s"
  "rs_pos (rs_goto i p s) = rs_pos s" "rs_now (rs_goto i p s) = rs_now s" "rs_notify_grp (rs_goto i p s) = rs_notify_grp s"
  "rs_pcs (rs_goto i p s) = (rs_pcs s)(i := p)"
  by (simp_all add: rs_goto_def)

section \<open>Invariants\<close>

text \<open>The routines a thread holds.\<close>

fun holds :: "rs_pc \<Rightarrow> nat set" where
  "holds (RsUpdate p r q) = {r}"
| "holds (RsTest p r q) = {r}"
| "holds (RsFlag p r q) = {r}"
| "holds (RsLook p r q) = {r}"
| "holds (RsGot r) = {r}"
| "holds (RsRun r b) = {r}"
| "holds (RsRelease r) = {r}"
| "holds (RsNotify r k) = set_option k"
| "holds (RsState r k) = set_option k"
| "holds (RsState2 r k) = set_option k"
| "holds (RsClear r k) = set_option k"
| "holds (RsSignal k) = set_option k"
| "holds (RsPush r k) = set_option k"
| "holds (RmQueue r k) = set_option k"
| "holds (RmSpin r k) = set_option k"
| "holds (RmErase r k) = insert r (set_option k)"
| "holds (RmFree r k) = insert r (set_option k)"
| "holds _ = {}"

lemma holds_return_to [simp]: "holds (return_to k) = set_option k"
  by (cases k) auto

text \<open>A remover holds its routine besides the one it runs in.\<close>

fun separate :: "rs_pc \<Rightarrow> bool" where
  "separate (RmErase r k) \<longleftrightarrow> k \<noteq> Some r"
| "separate (RmFree r k) \<longleftrightarrow> k \<noteq> Some r"
| "separate _ \<longleftrightarrow> True"

lemma separate_return_to [simp]: "separate (return_to k)"
  by (cases k) auto

definition lock_ok :: "rs_state \<Rightarrow> bool" where
  "lock_ok s \<longleftrightarrow> (\<forall>i r. r \<in> holds (rs_pcs s i) \<longleftrightarrow> rs_lock s r = Some i) \<and> (\<forall>i. separate (rs_pcs s i))"

lemma lock_okD: "lock_ok s \<Longrightarrow> r \<in> holds (rs_pcs s i) \<longleftrightarrow> rs_lock s r = Some i" "lock_ok s \<Longrightarrow> separate (rs_pcs s i)"
  by (simp_all add: lock_ok_def)

lemma lock_ok_goto:
  assumes "lock_ok s" and "rs_pcs t = rs_pcs s" and "rs_lock t = rs_lock s"
    and "holds p = holds (rs_pcs s i)" and "separate p"
  shows "lock_ok (rs_goto i p t)"
  using assms by (simp add: lock_ok_def)

lemma lock_ok_acquire:
  assumes "lock_ok s" and "rs_pcs t = (rs_pcs s)(i := p)" and "rs_lock s r = None" and "rs_lock t = (rs_lock s)(r := Some i)"
    and "holds p = insert r (holds (rs_pcs s i))" and "separate p"
  shows "lock_ok t"
proof -
  have "r \<notin> holds (rs_pcs s j)" for j using assms(3) lock_okD(1) [OF assms(1)] by simp
  then show ?thesis using assms by (auto simp: lock_ok_def)
qed

lemma lock_ok_release:
  assumes "lock_ok s" and "rs_pcs t = (rs_pcs s)(i := p)" and "rs_lock t = (rs_lock s)(r := None)"
    and "r \<in> holds (rs_pcs s i)" and "holds p = holds (rs_pcs s i) - {r}" and "separate p"
  shows "lock_ok t"
proof -
  have "r \<in> holds (rs_pcs s j) \<longleftrightarrow> j = i" for j using assms(4) lock_okD(1) [OF assms(1)] by auto
  then show ?thesis using assms by (auto simp: lock_ok_def)
qed

lemma lock_ok_step:
  assumes "rs_step prio i s t" and ok: "lock_ok s"
  shows "lock_ok t"
  using assms(1)
proof cases
  case (acquire p r q)
  with ok show ?thesis by (intro lock_ok_acquire [of s t i _ r]) auto
next
  case (remover_acquire r k)
  moreover from this lock_okD(1) [OF ok, of r i] have "k \<noteq> Some r" by auto
  ultimately show ?thesis by (intro lock_ok_acquire [OF ok, of t i _ r]) auto
next
  case (pass p r q)
  with ok show ?thesis by (intro lock_ok_release [of s t i _ r]) auto
next
  case (release r)
  with ok show ?thesis by (intro lock_ok_release [of s t i _ r]) auto
next
  case (free r k)
  with lock_okD(2) [OF ok, of i] show ?thesis by (intro lock_ok_release [OF ok, of t i _ r]) (auto dest: sym)
next
  case (erase r k)
  with lock_okD(2) [OF ok, of i] show ?thesis by (auto intro!: lock_ok_goto [OF ok])
next
  case spin
  with ok show ?thesis by simp
next
  case tick
  with ok show ?thesis by (simp add: lock_ok_def)
qed (auto intro!: lock_ok_goto [OF ok])

text \<open>What a thread is about to add, is taking out, still finds in its queue, and has taken from it.\<close>

fun pushes :: "rs_pc \<Rightarrow> nat option" where
  "pushes (RsPush r k) = Some r"
| "pushes _ = None"

fun removes :: "rs_pc \<Rightarrow> nat option" where
  "removes (RmQueue r k) = Some r"
| "removes (RmSpin r k) = Some r"
| "removes (RmErase r k) = Some r"
| "removes (RmFree r k) = Some r"
| "removes _ = None"

fun erased :: "rs_pc \<Rightarrow> bool" where
  "erased (RmFree r k) = True"
| "erased _ = False"

lemma return_to_roles [simp]:
  "pushes (return_to k) = None" "removes (return_to k) = None" "\<not> erased (return_to k)"
  "reads_queue (return_to k) = None" "writes_queue prio (return_to k) = None" "\<not> reads_ids (return_to k)"
  by (cases k; simp)+

definition phase_ok :: "rs_state \<Rightarrow> bool" where
  "phase_ok s \<longleftrightarrow> (\<forall>i r. pushes (rs_pcs s i) = Some r \<longleftrightarrow> rs_phase s r = Pushing i) \<and>
     (\<forall>i r. removes (rs_pcs s i) = Some r \<longleftrightarrow> rs_phase s r = Removing i)"

lemma phase_okD:
  "phase_ok s \<Longrightarrow> pushes (rs_pcs s i) = Some r \<longleftrightarrow> rs_phase s r = Pushing i"
  "phase_ok s \<Longrightarrow> removes (rs_pcs s i) = Some r \<longleftrightarrow> rs_phase s r = Removing i"
  by (simp_all add: phase_ok_def)

lemma phase_ok_goto:
  assumes "phase_ok s" and "rs_pcs t = rs_pcs s" and "rs_phase t = rs_phase s"
    and "pushes p = pushes (rs_pcs s i)" and "removes p = removes (rs_pcs s i)"
  shows "phase_ok (rs_goto i p t)"
  using assms by (simp add: phase_ok_def)

text \<open>A thread moves a routine on from one phase to the next.\<close>

lemma phase_ok_move:
  assumes ok: "phase_ok s" and "rs_pcs t = rs_pcs s" and "rs_phase t = (rs_phase s)(r := x)"
    and old: "pushes (rs_pcs s i) = (if rs_phase s r = Pushing i then Some r else None)"
      "removes (rs_pcs s i) = (if rs_phase s r = Removing i then Some r else None)"
    and was: "\<And>j. j \<noteq> i \<Longrightarrow> rs_phase s r \<noteq> Pushing j \<and> rs_phase s r \<noteq> Removing j"
    and becomes: "\<And>j. j \<noteq> i \<Longrightarrow> x \<noteq> Pushing j \<and> x \<noteq> Removing j"
    and new: "pushes p = (if x = Pushing i then Some r else None)" "removes p = (if x = Removing i then Some r else None)"
  shows "phase_ok (rs_goto i p t)"
proof -
  have others: "rs_phase s r' \<noteq> Pushing i" "rs_phase s r' \<noteq> Removing i" if "r' \<noteq> r" for r'
    using that old phase_okD [OF ok, of i r'] by (auto split: if_splits)
  show ?thesis unfolding phase_ok_def
  proof (intro conjI allI)
    fix j r'
    show "pushes (rs_pcs (rs_goto i p t) j) = Some r' \<longleftrightarrow> rs_phase (rs_goto i p t) r' = Pushing j"
      using assms(2,3) new(1) others [of r'] was becomes phase_okD(1) [OF ok, of j r'] by (cases "j = i"; cases "r' = r") auto
    show "removes (rs_pcs (rs_goto i p t) j) = Some r' \<longleftrightarrow> rs_phase (rs_goto i p t) r' = Removing j"
      using assms(2,3) new(2) others [of r'] was becomes phase_okD(2) [OF ok, of j r'] by (cases "j = i"; cases "r' = r") auto
  qed
qed

lemma phase_ok_step:
  assumes "rs_step prio i s t" and ok: "phase_ok s"
  shows "phase_ok t"
  using assms(1)
proof cases
  case (create k r)
  then show ?thesis by (auto intro!: phase_ok_move [OF ok, where r = r and x = "Pushing i"])
next
  case (push r k)
  with phase_okD(1) [OF ok, of i r] show ?thesis by (auto intro!: phase_ok_move [OF ok, where r = r and x = Live])
next
  case (remove k r)
  then show ?thesis by (auto intro!: phase_ok_move [OF ok, where r = r and x = "Removing i"])
next
  case (not_found r k)
  with phase_okD(2) [OF ok, of i r] show ?thesis by (auto intro!: phase_ok_move [OF ok, where r = r and x = Gone])
next
  case (free r k)
  with phase_okD(2) [OF ok, of i r] show ?thesis by (auto intro!: phase_ok_move [OF ok, where r = r and x = Gone])
next
  case spin
  with ok show ?thesis by simp
next
  case tick
  with ok show ?thesis by (simp add: phase_ok_def)
qed (auto intro!: phase_ok_goto [OF ok])

definition queue_ok :: "(nat \<Rightarrow> nat) \<Rightarrow> rs_state \<Rightarrow> bool" where
  "queue_ok prio s \<longleftrightarrow> (\<forall>p. distinct (rs_rq s p)) \<and>
     (\<forall>p r. r \<in> set (rs_rq s p) \<longleftrightarrow> p = prio r \<and> (rs_phase s r = Live \<or> (\<exists>i. rs_phase s r = Removing i \<and> \<not> erased (rs_pcs s i))))"

lemma queue_okD:
  "queue_ok prio s \<Longrightarrow> distinct (rs_rq s p)"
  "queue_ok prio s \<Longrightarrow> r \<in> set (rs_rq s p) \<longleftrightarrow> p = prio r \<and> (rs_phase s r = Live \<or> (\<exists>i. rs_phase s r = Removing i \<and> \<not> erased (rs_pcs s i)))"
  by (simp_all add: queue_ok_def)

lemma queue_ok_goto:
  assumes "queue_ok prio s" and "rs_pcs t = rs_pcs s" and "rs_phase t = rs_phase s" and "rs_rq t = rs_rq s"
    and "erased p = erased (rs_pcs s i)"
  shows "queue_ok prio (rs_goto i p t)"
proof -
  have "erased (((rs_pcs s)(i := p)) j) = erased (rs_pcs s j)" for j using assms(5) by simp
  then show ?thesis using assms(1-4) unfolding queue_ok_def rs_goto_simps assms(2-4) by simp
qed

text \<open>A routine whose place changes: the thread is not at the end of a removal, and the others are unchanged.\<close>

lemma queue_ok_move:
  assumes ok: "queue_ok prio s" and "rs_pcs t = rs_pcs s"
    and "rs_phase t = (rs_phase s)(r := x)" and "rs_rq t = (rs_rq s)(prio r := q)" and "distinct q"
    and q: "\<And>r'. r' \<in> set q \<longleftrightarrow> (if r' = r then x = Live \<or> x = Removing i \<and> \<not> erased p else r' \<in> set (rs_rq s (prio r)))"
    and x: "\<And>j. j \<noteq> i \<Longrightarrow> x \<noteq> Removing j" and others: "\<And>r'. r' \<noteq> r \<Longrightarrow> rs_phase s r' \<noteq> Removing i"
    and out: "\<And>p. p \<noteq> prio r \<Longrightarrow> r \<notin> set (rs_rq s p)"
  shows "queue_ok prio (rs_goto i p t)"
  unfolding queue_ok_def
proof (intro conjI allI)
  fix p'
  show "distinct (rs_rq (rs_goto i p t) p')" using queue_okD(1) [OF ok] assms(4,5) by simp
next
  fix p' r'
  show "r' \<in> set (rs_rq (rs_goto i p t) p') \<longleftrightarrow> p' = prio r' \<and> (rs_phase (rs_goto i p t) r' = Live \<or>
    (\<exists>j. rs_phase (rs_goto i p t) r' = Removing j \<and> \<not> erased (rs_pcs (rs_goto i p t) j)))"
  proof (cases "r' = r")
    case True
    have "(\<exists>j. x = Removing j \<and> \<not> erased (((rs_pcs s)(i := p)) j)) \<longleftrightarrow> x = Removing i \<and> \<not> erased p"
      using x by (metis fun_upd_same)
    then show ?thesis using True assms(2-4) q [of r] out by (cases "p' = prio r") auto
  next
    case False
    then have "(\<exists>j. rs_phase s r' = Removing j \<and> \<not> erased (((rs_pcs s)(i := p)) j)) \<longleftrightarrow>
      (\<exists>j. rs_phase s r' = Removing j \<and> \<not> erased (rs_pcs s j))" using others by (metis fun_upd_other)
    then show ?thesis using False assms(2-4) q [of r'] queue_okD(2) [OF ok, of r' p'] queue_okD(2) [OF ok, of r' "prio r"] by auto
  qed
qed

lemma queue_ok_step:
  assumes "rs_step prio i s t" and ph: "phase_ok s" and ok: "queue_ok prio s"
  shows "queue_ok prio t"
  using assms(1)
proof cases
  case (create k r)
  have "r \<notin> set (rs_rq s p)" for p using create(3) by (simp add: queue_okD(2) [OF ok])
  with create phase_okD(2) [OF ph, of i] show ?thesis
    by (auto intro!: queue_ok_move [OF ok, where r = r and x = "Pushing i" and q = "rs_rq s (prio r)"] queue_okD(1) [OF ok] split: if_splits)
next
  case (push r k)
  then have "rs_phase s r = Pushing i" using phase_okD(1) [OF ph, of i r] by simp
  then have "r \<notin> set (rs_rq s p)" for p by (simp add: queue_okD(2) [OF ok])
  with push phase_okD(2) [OF ph, of i] show ?thesis
    by (auto intro!: queue_ok_move [OF ok, where r = r and x = Live and q = "rs_rq s (prio r) @ [r]"] simp: queue_okD(1) [OF ok] split: if_splits)
next
  case (remove k r)
  then have "r \<in> set (rs_rq s p) \<longleftrightarrow> p = prio r" for p by (simp add: queue_okD(2) [OF ok])
  with remove phase_okD(2) [OF ph, of i] show ?thesis
    by (auto intro!: queue_ok_move [OF ok, where r = r and x = "Removing i" and q = "rs_rq s (prio r)"] queue_okD(1) [OF ok] split: if_splits)
next
  case (not_found r k)
  then have "rs_phase s r = Removing i" using phase_okD(2) [OF ph, of i r] by simp
  with not_found show ?thesis by (simp add: queue_okD(2) [OF ok])
next
  case (erase r k)
  then have r: "rs_phase s r = Removing i" "\<And>r'. r' \<noteq> r \<Longrightarrow> rs_phase s r' \<noteq> Removing i"
    using phase_okD(2) [OF ph, of i] by (auto, metis)
  then have "(rs_phase s)(r := Removing i) = rs_phase s" by auto
  moreover have "r \<notin> set (rs_rq s p)" if "p \<noteq> prio r" for p using that by (simp add: queue_okD(2) [OF ok])
  ultimately show ?thesis using erase r queue_okD(1) [OF ok]
    by (auto intro!: queue_ok_move [OF ok, where r = r and x = "Removing i" and q = "remove1 r (rs_rq s (prio r))"] split: if_splits)
next
  case (free r k)
  then have r: "rs_phase s r = Removing i" "\<And>r'. r' \<noteq> r \<Longrightarrow> rs_phase s r' \<noteq> Removing i"
    using phase_okD(2) [OF ph, of i] by (auto, metis)
  then have "r \<notin> set (rs_rq s p)" for p using free by (auto simp: queue_okD(2) [OF ok])
  with free r show ?thesis
    by (auto intro!: queue_ok_move [OF ok, where r = r and x = Gone and q = "rs_rq s (prio r)"] queue_okD(1) [OF ok] split: if_splits)
next
  case spin
  with ok show ?thesis by simp
next
  case tick
  with ok show ?thesis by (simp add: queue_ok_def)
qed (auto intro!: queue_ok_goto [OF ok])

text \<open>Who searches a queue finds it unchanged; whoever holds a routine found it there or has just erased it.\<close>

fun looks :: "rs_pc \<Rightarrow> nat set" where
  "looks (RsScan p q) = set q"
| "looks (RsUpdate p r q) = insert r (set q)"
| "looks (RsTest p r q) = insert r (set q)"
| "looks (RsFlag p r q) = insert r (set q)"
| "looks (RsLook p r q) = insert r (set q)"
| "looks _ = {}"

definition search_ok :: "(nat \<Rightarrow> nat) \<Rightarrow> rs_state \<Rightarrow> bool" where
  "search_ok prio s \<longleftrightarrow> (\<forall>i j p. writes_queue prio (rs_pcs s i) = Some p \<longrightarrow> reads_queue (rs_pcs s j) \<noteq> Some p) \<and>
     (\<forall>i j p. writes_queue prio (rs_pcs s i) = Some p \<longrightarrow> writes_queue prio (rs_pcs s j) = Some p \<longrightarrow> i = j) \<and>
     (\<forall>i p. reads_queue (rs_pcs s i) = Some p \<longrightarrow> looks (rs_pcs s i) \<subseteq> set (rs_rq s p))"

lemma search_okD:
  "search_ok prio s \<Longrightarrow> writes_queue prio (rs_pcs s i) = Some p \<Longrightarrow> reads_queue (rs_pcs s j) \<noteq> Some p"
  "search_ok prio s \<Longrightarrow> writes_queue prio (rs_pcs s i) = Some p \<Longrightarrow> writes_queue prio (rs_pcs s j) = Some p \<Longrightarrow> i = j"
  "search_ok prio s \<Longrightarrow> reads_queue (rs_pcs s i) = Some p \<Longrightarrow> looks (rs_pcs s i) \<subseteq> set (rs_rq s p)"
  by (auto simp: search_ok_def)

lemma search_ok_goto:
  assumes ok: "search_ok prio s" and "rs_pcs t = rs_pcs s" and "rs_rq t = rs_rq s"
    and p: "reads_queue p = reads_queue (rs_pcs s i) \<and> looks p \<subseteq> looks (rs_pcs s i) \<or> reads_queue p = None"
      "writes_queue prio p = writes_queue prio (rs_pcs s i) \<or> writes_queue prio p = None"
  shows "search_ok prio (rs_goto i p t)"
  unfolding search_ok_def
proof (intro conjI allI impI)
  fix j k n
  have w: "writes_queue prio (rs_pcs (rs_goto i p t) l) = Some n \<Longrightarrow> writes_queue prio (rs_pcs s l) = Some n" for l n
    using assms(2) p(2) by (cases "l = i") auto
  have rd: "reads_queue (rs_pcs (rs_goto i p t) l) = Some n \<Longrightarrow> reads_queue (rs_pcs s l) = Some n \<and>
      looks (rs_pcs (rs_goto i p t) l) \<subseteq> looks (rs_pcs s l)" for l n
    using assms(2) p(1) by (cases "l = i") auto
  {
    assume wj: "writes_queue prio (rs_pcs (rs_goto i p t) j) = Some n"
    show "reads_queue (rs_pcs (rs_goto i p t) k) \<noteq> Some n" using rd search_okD(1) [OF ok w [OF wj]] by blast
    show "j = k" if "writes_queue prio (rs_pcs (rs_goto i p t) k) = Some n" using search_okD(2) [OF ok w [OF wj] w [OF that]] .
  }
  show "looks (rs_pcs (rs_goto i p t) j) \<subseteq> set (rs_rq (rs_goto i p t) n)" if "reads_queue (rs_pcs (rs_goto i p t) j) = Some n"
    using rd [OF that] search_okD(3) [OF ok] assms(3) by fastforce
qed

text \<open>A queue that nobody else is in can be locked or changed.\<close>

lemma search_ok_alone:
  assumes ok: "search_ok prio s" and "rs_pcs t = rs_pcs s"
    and alone: "\<forall>j. j \<noteq> i \<longrightarrow> reads_queue (rs_pcs s j) \<noteq> Some n \<and> writes_queue prio (rs_pcs s j) \<noteq> Some n"
    and rq: "\<And>m. m \<noteq> n \<Longrightarrow> rs_rq t m = rs_rq s m"
    and p: "reads_queue p = None" "writes_queue prio p = None \<or> writes_queue prio p = Some n"
  shows "search_ok prio (rs_goto i p t)"
  unfolding search_ok_def
proof (intro conjI allI impI)
  fix j k m
  {
    assume wj: "writes_queue prio (rs_pcs (rs_goto i p t) j) = Some m"
    show "reads_queue (rs_pcs (rs_goto i p t) k) \<noteq> Some m"
      using wj assms(2) alone p search_okD(1) [OF ok, of j m k] by (cases "j = i"; cases "k = i") auto
    show "j = k" if "writes_queue prio (rs_pcs (rs_goto i p t) k) = Some m"
      using wj that assms(2) alone p search_okD(2) [OF ok, of j m k] by (cases "j = i"; cases "k = i") auto
  }
  show "looks (rs_pcs (rs_goto i p t) j) \<subseteq> set (rs_rq (rs_goto i p t) m)" if "reads_queue (rs_pcs (rs_goto i p t) j) = Some m"
    using that assms(2) alone p rq [of m] search_okD(3) [OF ok, of j m] by (cases "j = i"; cases "m = n") auto
qed

lemma search_ok_step:
  assumes "rs_step prio i s t" and ok: "search_ok prio s"
  shows "search_ok prio t"
  using assms(1)
proof cases
  case (enter p)
  show ?thesis unfolding enter(1) search_ok_def
  proof (intro conjI allI impI)
    fix j k m
    {
      assume wj: "writes_queue prio (rs_pcs (rs_goto i (RsScan p (rs_rq s p)) s) j) = Some m"
      show "reads_queue (rs_pcs (rs_goto i (RsScan p (rs_rq s p)) s) k) \<noteq> Some m"
        using wj enter search_okD(1) [OF ok, of j m k] by (cases "j = i"; cases "k = i") auto
      show "j = k" if "writes_queue prio (rs_pcs (rs_goto i (RsScan p (rs_rq s p)) s) k) = Some m"
        using wj that search_okD(2) [OF ok, of j m k] by (cases "j = i"; cases "k = i") auto
    }
    show "looks (rs_pcs (rs_goto i (RsScan p (rs_rq s p)) s) j) \<subseteq> set (rs_rq (rs_goto i (RsScan p (rs_rq s p)) s) m)"
      if "reads_queue (rs_pcs (rs_goto i (RsScan p (rs_rq s p)) s) j) = Some m"
      using that search_okD(3) [OF ok, of j m] by (cases "j = i") auto
  qed
next
  case (push r k)
  then show ?thesis by (auto intro!: search_ok_alone [OF ok, where n = "prio r"])
next
  case (lock_queue r k)
  then show ?thesis by (auto intro!: search_ok_alone [OF ok, where n = "prio r"])
next
  case (erase r k)
  then have "\<forall>j. j \<noteq> i \<longrightarrow> reads_queue (rs_pcs s j) \<noteq> Some (prio r) \<and> writes_queue prio (rs_pcs s j) \<noteq> Some (prio r)"
    using search_okD(1,2) [OF ok, of i "prio r"] by fastforce
  with erase show ?thesis by (auto intro!: search_ok_alone [OF ok, where n = "prio r"])
next
  case spin
  with ok show ?thesis by simp
next
  case tick
  with ok show ?thesis by (simp add: search_ok_def)
qed (auto intro!: search_ok_goto [OF ok])

definition holder_ok :: "(nat \<Rightarrow> nat) \<Rightarrow> rs_state \<Rightarrow> bool" where
  "holder_ok prio s \<longleftrightarrow> (\<forall>i r. r \<in> holds (rs_pcs s i) \<longrightarrow> r \<in> set (rs_rq s (prio r)) \<or> (\<exists>k. rs_pcs s i = RmFree r k))"

definition rs_inv :: "(nat \<Rightarrow> nat) \<Rightarrow> rs_state \<Rightarrow> bool" where
  "rs_inv prio s \<longleftrightarrow> lock_ok s \<and> phase_ok s \<and> queue_ok prio s \<and> search_ok prio s \<and> holder_ok prio s"

lemma holder_ok_goto:
  assumes "holder_ok prio s" and "rs_pcs t = rs_pcs s" and "rs_rq t = rs_rq s"
    and "\<And>r. r \<in> holds p \<Longrightarrow> r \<in> set (rs_rq s (prio r)) \<or> (\<exists>k. p = RmFree r k)"
  shows "holder_ok prio (rs_goto i p t)"
  using assms by (auto simp: holder_ok_def)

lemma holder_ok_step:
  assumes step: "rs_step prio i s t" and inv: "rs_inv prio s"
  shows "holder_ok prio t"
proof -
  have lock: "lock_ok s" and ph: "phase_ok s" and qu: "queue_ok prio s" and se: "search_ok prio s" and ok: "holder_ok prio s"
    using inv by (simp_all add: rs_inv_def)
  have old: "r \<in> holds (rs_pcs s i) \<Longrightarrow> r \<in> set (rs_rq s (prio r)) \<or> (\<exists>k. rs_pcs s i = RmFree r k)" for i r
    using ok by (simp add: holder_ok_def)
  note frame = holder_ok_goto [OF ok]
  from step show ?thesis
  proof cases
    case (acquire p r q)
    then have "r \<in> set (rs_rq s p)" using search_okD(3) [OF se, of i p] by simp
    moreover from this have "p = prio r" by (simp add: queue_okD(2) [OF qu])
    ultimately show ?thesis using acquire by (auto intro!: frame)
  next
    case (remover_acquire r k)
    then have "r \<in> set (rs_rq s (prio r))" using phase_okD(2) [OF ph, of i r] queue_okD(2) [OF qu, of r "prio r"] by auto
    with remover_acquire old [of _ i] show ?thesis by (auto intro!: frame)
  next
    case (push r k)
    show ?thesis unfolding holder_ok_def
    proof (intro allI impI)
      fix j r' assume "r' \<in> holds (rs_pcs t j)"
      with push have "r' \<in> holds (rs_pcs s j)" "\<And>k. rs_pcs s j = RmFree r' k \<Longrightarrow> rs_pcs t j = RmFree r' k"
        by (auto split: if_splits)
      with old [of r' j] push show "r' \<in> set (rs_rq t (prio r')) \<or> (\<exists>k. rs_pcs t j = RmFree r' k)" by auto
    qed
  next
    case (erase r k)
    have "r' \<noteq> r" if "r' \<in> holds (rs_pcs s j)" "j \<noteq> i" for r' j
      using that erase lock_okD(1) [OF lock, of r j] lock_okD(1) [OF lock, of r i] by auto
    note alone = this
    show ?thesis unfolding holder_ok_def
    proof (intro allI impI)
      fix j r' assume r': "r' \<in> holds (rs_pcs t j)"
      have "separate (rs_pcs s i)" by (rule lock_okD(2) [OF lock])
      with r' erase have "r' \<in> holds (rs_pcs s j)" "j = i \<and> r' = r \<or> r' \<noteq> r"
        using alone [of r' j] by (auto split: if_splits)
      with old [of r' j] erase show "r' \<in> set (rs_rq t (prio r')) \<or> (\<exists>k. rs_pcs t j = RmFree r' k)"
        by (cases "j = i") auto
    qed
  next
    case spin
    with ok show ?thesis by simp
  next
    case tick
    with ok show ?thesis by (simp add: holder_ok_def)
  next
    case (free r k)
    have "r' \<in> set (rs_rq s (prio r'))" if "k = Some r'" for r'
      using that free old [of r' i] lock_okD(2) [OF lock, of i] by auto
    with free show ?thesis by (auto intro!: frame)
  qed (use old [of _ i] in \<open>auto intro!: frame\<close>)
qed

lemma rs_inv_step: "rs_step prio i s t \<Longrightarrow> rs_inv prio s \<Longrightarrow> rs_inv prio t"
  using lock_ok_step phase_ok_step queue_ok_step search_ok_step holder_ok_step unfolding rs_inv_def by metis

lemma rs_inv_start: "rs_inv prio rs_start"
  by (simp add: rs_inv_def rs_start_def lock_ok_def phase_ok_def queue_ok_def search_ok_def holder_ok_def)

lemma rs_inv_reachable: "reachable (rs_step prio) rs_start s \<Longrightarrow> rs_inv prio s"
  by (erule reachable_invariant) (auto intro: rs_inv_start rs_inv_step)

section \<open>One at a time, and never after removal\<close>


section \<open>Notifications\<close>

text \<open>A thread that has put a message into the buffer of a routine and not yet looked at its state or cleared its flag.\<close>

fun notifies :: "rs_pc \<Rightarrow> nat option" where
  "notifies (RsNotify r k) = Some r"
| "notifies (RsState r k) = Some r"
| "notifies (RsClear r k) = Some r"
| "notifies _ = None"

text \<open>The routines in the middle of their loop: the thread runs them, or an operation they called.\<close>

fun amid :: "rs_pc \<Rightarrow> nat set" where
  "amid (RsRun r b) = (if b = BWait \<or> b = BYield then {} else {r})"
| "amid (RsNotify r k) = set_option k"
| "amid (RsState r k) = set_option k"
| "amid (RsState2 r k) = set_option k"
| "amid (RsClear r k) = set_option k"
| "amid (RsSignal k) = set_option k"
| "amid (RsPush r k) = set_option k"
| "amid (RmQueue r k) = set_option k"
| "amid (RmSpin r k) = set_option k"
| "amid (RmErase r k) = set_option k"
| "amid (RmFree r k) = set_option k"
| "amid _ = {}"

lemma notifies_return_to [simp]: "notifies (return_to k) = None" "amid (return_to k) = set_option k"
  by (cases k; simp)+

text \<open>A waiting routine with an unread message will be woken, unless that is already under way.\<close>

definition noticed :: "rs_state \<Rightarrow> nat \<Rightarrow> bool" where
  "noticed s r \<longleftrightarrow> \<not> rs_updated s r \<or> (\<exists>i. notifies (rs_pcs s i) = Some r) \<or> (\<exists>i p q. rs_pcs s i = RsFlag p r q)"

definition wake_ok :: "rs_state \<Rightarrow> bool" where
  "wake_ok s \<longleftrightarrow> (\<forall>r. in_id_cr s r \<and> rs_st s r = DATA_WAIT \<and> (\<forall>i. r \<notin> amid (rs_pcs s i)) \<and> rs_pos s r < rs_filled s r \<longrightarrow> noticed s r)"

fun flags :: "rs_pc \<Rightarrow> nat option" where
  "flags (RsFlag p r q) = Some r"
| "flags _ = None"

lemma flags_return_to [simp]: "flags (return_to k) = None"
  by (cases k; simp)

lemma flags_iff: "(\<exists>p q. x = RsFlag p r q) \<longleftrightarrow> flags x = Some r"
  by (cases x) auto

lemma wake_ok_goto:
  assumes ok: "wake_ok s" and "rs_pcs t = rs_pcs s"
    and each: "\<And>r. \<not> in_id_cr t r \<or> rs_st t r \<noteq> DATA_WAIT \<or> r \<in> amid p \<or> rs_filled t r \<le> rs_pos t r \<or> \<not> rs_updated t r \<or>
        notifies p = Some r \<or> flags p = Some r \<or>
      in_id_cr s r \<and> rs_st s r = DATA_WAIT \<and> r \<notin> amid (rs_pcs s i) \<and> rs_pos s r < rs_filled s r \<and> rs_updated s r \<and>
        notifies (rs_pcs s i) \<noteq> Some r \<and> flags (rs_pcs s i) \<noteq> Some r"
  shows "wake_ok (rs_goto i p t)"
  unfolding wake_ok_def
proof (intro allI impI)
  fix r
  assume r: "in_id_cr (rs_goto i p t) r \<and> rs_st (rs_goto i p t) r = DATA_WAIT \<and> (\<forall>j. r \<notin> amid (rs_pcs (rs_goto i p t) j)) \<and>
    rs_pos (rs_goto i p t) r < rs_filled (rs_goto i p t) r"
  then have "r \<notin> amid p" and others: "\<And>j. j \<noteq> i \<Longrightarrow> r \<notin> amid (rs_pcs s j)" using assms(2) by (auto split: if_splits)
  consider "\<not> rs_updated t r \<or> notifies p = Some r \<or> flags p = Some r"
    | "in_id_cr s r" "rs_st s r = DATA_WAIT" "r \<notin> amid (rs_pcs s i)" "rs_pos s r < rs_filled s r" "rs_updated s r"
        "notifies (rs_pcs s i) \<noteq> Some r" "flags (rs_pcs s i) \<noteq> Some r"
    using each [of r] r \<open>r \<notin> amid p\<close> by (auto simp: in_id_cr_def)
  then show "noticed (rs_goto i p t) r"
  proof cases
    case 1
    then show ?thesis by (auto simp: noticed_def flags_iff)
  next
    case 2
    then have "r \<notin> amid (rs_pcs s j)" for j using others by (cases "j = i") auto
    with 2 ok have "noticed s r" by (simp add: wake_ok_def)
    then obtain j where "notifies (rs_pcs s j) = Some r \<or> flags (rs_pcs s j) = Some r"
      using 2(5) by (auto simp: noticed_def flags_iff)
    moreover from this 2(6,7) have "j \<noteq> i" by auto
    ultimately show ?thesis using assms(2) by (auto simp: noticed_def flags_iff)
  qed
qed

lemma wake_ok_step:
  assumes "rs_step prio i s t" and ph: "phase_ok s" and ok: "wake_ok s"
  shows "wake_ok t"
  using assms(1)
proof cases
  case spin
  with ok show ?thesis by simp
next
  case tick
  with ok show ?thesis by (simp add: wake_ok_def noticed_def in_id_cr_def)
next
  case (push r k)
  then have "in_table (rs_phase s r)" using phase_okD(1) [OF ph, of i r] by simp
  with push show ?thesis
    by (simp only:) (rule wake_ok_goto [OF ok], simp, force simp: in_id_cr_def split: if_splits)
qed (simp_all only:, (rule wake_ok_goto [OF ok], simp, (simp add: in_id_cr_def; fail | (force simp: in_id_cr_def split: if_splits)))+)

text \<open>Only a routine that is being removed or was removed is stopped.\<close>

definition stop_ok :: "rs_state \<Rightarrow> bool" where
  "stop_ok s \<longleftrightarrow> (\<forall>r. rs_stop s r \<longrightarrow> \<not> in_table (rs_phase s r) \<and> rs_phase s r \<noteq> New)"

lemma stop_ok_step:
  assumes "rs_step prio i s t" and ph: "phase_ok s" and ok: "stop_ok s"
  shows "stop_ok t"
  using assms(1)
proof cases
  case (push r k)
  with ok phase_okD(1) [OF ph, of i r] show ?thesis by (auto simp: stop_ok_def)
next
  case (lock_queue r k)
  with ok phase_okD(2) [OF ph, of i r] show ?thesis by (auto simp: stop_ok_def)
qed (use ok in \<open>auto simp: stop_ok_def\<close>)

lemma wake_reachable:
  assumes "reachable (rs_step prio) rs_start s"
  shows "rs_inv prio s \<and> wake_ok s \<and> stop_ok s"
  using assms
proof (induction rule: reachable_invariant)
  case start
  have "wake_ok rs_start" "stop_ok rs_start" by (simp_all add: wake_ok_def stop_ok_def rs_start_def in_id_cr_def)
  then show ?case using rs_inv_start by blast
next
  case (step i s t)
  then have "phase_ok s" by (simp add: rs_inv_def)
  with step rs_inv_step wake_ok_step stop_ok_step show ?case by blast
qed

lemma amid_holds: "amid x \<subseteq> holds x"
  by (cases x) auto

lemma flags_holds: "flags x = Some r \<Longrightarrow> r \<in> holds x"
  by (cases x) auto

text \<open>The routines that wait although they have a message they have not read, with nobody at work on them.\<close>

definition waits_unread :: "rs_state \<Rightarrow> nat set" where
  "waits_unread s = {r. rs_phase s r = Live \<and> rs_lock s r = None \<and> rs_st s r = DATA_WAIT \<and> rs_pos s r < rs_filled s r \<and>
     (\<forall>i. notifies (rs_pcs s i) \<noteq> Some r)}"

lemma waits_unread_flag:
  assumes "reachable (rs_step prio) rs_start s" and "r \<in> waits_unread s"
  shows "r \<in> set (rs_rq s (prio r))" and "\<not> rs_updated s r" and "\<not> rs_stop s r"
proof -
  have inv: "lock_ok s" "queue_ok prio s" "wake_ok s" "stop_ok s"
    using wake_reachable [OF assms(1)] by (simp_all add: rs_inv_def)
  from assms(2) have r: "rs_phase s r = Live" "rs_lock s r = None" "rs_st s r = DATA_WAIT" "rs_pos s r < rs_filled s r"
    "\<And>i. notifies (rs_pcs s i) \<noteq> Some r" by (auto simp: waits_unread_def)
  show "r \<in> set (rs_rq s (prio r))" using r(1) queue_okD(2) [OF inv(2)] by simp
  have free: "r \<notin> holds (rs_pcs s i)" for i using r(2) lock_okD(1) [OF inv(1)] by simp
  then have "r \<notin> amid (rs_pcs s i)" "flags (rs_pcs s i) \<noteq> Some r" for i
    using amid_holds flags_holds by blast+
  moreover from this have "noticed s r" using inv(3) r by (simp add: wake_ok_def in_id_cr_def)
  ultimately show "\<not> rs_updated s r" using r(5) by (auto simp: noticed_def flags_iff)
  show "\<not> rs_stop s r" using inv(4) r(1) by (auto simp: stop_ok_def)
qed



section \<open>A routine that removes itself\<close>

lemma return_to_not_spin [simp]: "return_to k \<noteq> RmSpin r k'" "RmSpin r k' \<noteq> return_to k"
  by (cases k; simp)+

lemma others_stay: "rs_step prio j s t \<Longrightarrow> j \<noteq> i \<Longrightarrow> rs_pcs t i = rs_pcs s i"
  by (erule rs_step.cases) simp_all

text \<open>A routine that removes its own task never returns: once it waits for its flag, which it holds itself, it
  waits in every continuation, and as it has locked the queue for writing, no processor of the group ever
  searches the queue of that priority again.\<close>

lemma self_removal_hangs:
  assumes "reachable (rs_step prio) rs_start s" and "rs_pcs s i = RmSpin r (Some r)" and "reachable (rs_step prio) s t"
  shows "rs_pcs t i = RmSpin r (Some r) \<and> (\<forall>j. reads_queue (rs_pcs t j) \<noteq> Some (prio r))"
proof -
  have "rs_inv prio t \<and> rs_pcs t i = RmSpin r (Some r)"
    using assms(3)
  proof (induction rule: reachable_invariant)
    case start
    show ?case using assms(1,2) rs_inv_reachable by blast
  next
    case (step j s t)
    then have "rs_lock s r = Some i" using lock_okD(1) [of s r i] by (simp add: rs_inv_def)
    with step have "rs_pcs t i = RmSpin r (Some r)"
    proof (cases "j = i")
      case True
      with \<open>rs_step prio j s t\<close> step(1) \<open>rs_lock s r = Some i\<close> show ?thesis by cases auto
    qed (simp add: others_stay)
    with step rs_inv_step show ?case by blast
  qed
  then show ?thesis using search_okD(1) [of prio t i "prio r"] by (auto simp: rs_inv_def)
qed

section \<open>Runs of one thread\<close>

text \<open>Thread 0 with routine 0 in the queue of priority 19; the other threads are idle.\<close>

definition rs_one :: "rs_pc \<Rightarrow> rs_phase \<Rightarrow> nat list \<Rightarrow> routine_state \<Rightarrow> nat option \<Rightarrow> bool \<Rightarrow> bool \<Rightarrow> nat \<Rightarrow> nat \<Rightarrow> int \<Rightarrow> rs_state" where
  "rs_one pc ph q st lk up stp filled pos ng = rs_start\<lparr>rs_pcs := (\<lambda>_. RsIdle)(0 := pc), rs_phase := (\<lambda>_. New)(0 := ph),
     rs_rq := (\<lambda>_. [])(19 := q), rs_st := (\<lambda>_. READY)(0 := st), rs_lock := (\<lambda>_. None)(0 := lk),
     rs_stop := (\<lambda>_. False)(0 := stp), rs_updated := (\<lambda>_. True)(0 := up), rs_filled := (\<lambda>_. 0)(0 := filled), rs_pos := (\<lambda>_. 0)(0 := pos), rs_notify_grp := ng\<rparr>"

lemma rs_one_start: "rs_one RsIdle New [] READY None True False 0 0 0 = rs_start"
  by (simp add: rs_one_def rs_start_def fun_upd_idem)

lemma rs_reach: "reachable (rs_step prio) s0 s \<Longrightarrow> rs_step prio i s t \<Longrightarrow> reachable (rs_step prio) s0 t"
  by (rule reachable.step)

lemma rs_step_eq: "rs_step prio i s t \<Longrightarrow> t = t' \<Longrightarrow> rs_step prio i s t'"
  by simp

lemmas rs_one_state = rs_one_def rs_start_def rs_goto_def fun_upd_idem

lemma rs_one_simps [simp]:
  "rs_pcs (rs_one pc ph q st lk up stp fl ps ng) = (\<lambda>_. RsIdle)(0 := pc)" "rs_phase (rs_one pc ph q st lk up stp fl ps ng) = (\<lambda>_. New)(0 := ph)"
  "rs_rq (rs_one pc ph q st lk up stp fl ps ng) = (\<lambda>_. [])(19 := q)" "rs_st (rs_one pc ph q st lk up stp fl ps ng) = (\<lambda>_. READY)(0 := st)"
  "rs_lock (rs_one pc ph q st lk up stp fl ps ng) = (\<lambda>_. None)(0 := lk)" "rs_stop (rs_one pc ph q st lk up stp fl ps ng) = (\<lambda>_. False)(0 := stp)"
  "rs_filled (rs_one pc ph q st lk up stp fl ps ng) = (\<lambda>_. 0)(0 := fl)" "rs_pos (rs_one pc ph q st lk up stp fl ps ng) = (\<lambda>_. 0)(0 := ps)"
  "rs_notify_grp (rs_one pc ph q st lk up stp fl ps ng) = ng" "rs_updated (rs_one pc ph q st lk up stp fl ps ng) = (\<lambda>_. True)(0 := up)"
  "rs_at (rs_one pc ph q st lk up stp fl ps ng) = (\<lambda>_. BWait)"
  by (simp_all add: rs_one_def rs_start_def)

text \<open>The first round of a routine with one message, step by step.\<close>

lemma rs_one_steps:
  defines "S \<equiv> rs_step (\<lambda>_. 19) 0"
  shows "S (rs_one RsIdle New [] READY None True False 0 0 0) (rs_one (RsPush 0 None) (Pushing 0) [] READY None True False 0 0 0)"
    "S (rs_one (RsPush 0 None) (Pushing 0) [] READY None True False 0 0 0) (rs_one (RsSignal None) Live [0] READY None True False 0 0 0)"
    "S (rs_one (RsSignal None) Live [0] st None up False fl ps ng) (rs_one RsIdle Live [0] st None up False fl ps (ng + 1))"
    "S (rs_one RsIdle Live [0] st None up False fl ps ng) (rs_one (RsNotify 0 None) Live [0] st None up False (fl + 1) ps ng)"
    "S (rs_one RsIdle Live [0] st None up False fl ps ng) (rs_one (RsLock 20) Live [0] st None up False fl ps ng)"
    "S (rs_one (RsLock 20) Live [0] st None up False fl ps ng) (rs_one (RsScan 19 [0]) Live [0] st None up False fl ps ng)"
    "S (rs_one (RsScan 19 [0]) Live [0] READY None up False fl ps ng) (rs_one (RsUpdate 19 0 []) Live [0] READY (Some 0) up False fl ps ng)"
    "S (rs_one (RsUpdate 19 0 []) Live [0] READY (Some 0) up False fl ps ng) (rs_one (RsTest 19 0 []) Live [0] READY (Some 0) up False fl ps ng)"
    "S (rs_one (RsTest 19 0 []) Live [0] READY (Some 0) True False fl ps ng) (rs_one (RsLook 19 0 []) Live [0] READY (Some 0) True False fl ps ng)"
    "S (rs_one (RsLook 19 0 []) Live [0] READY (Some 0) up False fl ps ng) (rs_one (RsGot 0) Live [0] READY (Some 0) up False fl ps ng)"
    "S (rs_one (RsGot 0) Live [0] READY (Some 0) up False fl ps ng) (rs_one (RsRun 0 BWait) Live [0] READY (Some 0) up False fl ps ng)"
    "S (rs_one (RsRun 0 BWait) Live [0] READY (Some 0) up False fl ps ng) (rs_one (RsRun 0 BFetch) Live [0] DATA_WAIT (Some 0) up False fl ps ng)"
    "0 < fl \<Longrightarrow> S (rs_one (RsRun 0 BFetch) Live [0] DATA_WAIT (Some 0) up False fl 0 ng) (rs_one (RsRun 0 BWork) Live [0] DATA_WAIT (Some 0) up False fl fl ng)"
    "S (rs_one (RsRun 0 BWork) Live [0] DATA_WAIT (Some 0) up False fl fl ng) (rs_one (RmQueue 0 (Some 0)) (Removing 0) [0] DATA_WAIT (Some 0) up True fl fl ng)"
    "S (rs_one (RsRun 0 BFetch) Live [0] DATA_WAIT (Some 0) up False 0 0 ng) (rs_one (RsRun 0 BYield) Live [0] DATA_WAIT (Some 0) up False 0 0 ng)"
    "S (rs_one (RsRun 0 BYield) Live [0] DATA_WAIT (Some 0) up False fl ps ng) (rs_one (RsRelease 0) Live [0] DATA_WAIT (Some 0) up False fl ps ng)"
    "S (rs_one (RsRelease 0) Live [0] DATA_WAIT (Some 0) up False fl ps ng) (rs_one RsIdle Live [0] DATA_WAIT None up False fl ps ng)"
    "S (rs_one (RsNotify 0 None) Live [0] st None up False fl ps ng) (rs_one (RsState 0 None) Live [0] st None up False fl ps ng)"
    "S (rs_one (RsState 0 None) Live [0] DATA_WAIT None up False fl ps ng) (rs_one (RsClear 0 None) Live [0] DATA_WAIT None up False fl ps ng)"
    "S (rs_one (RsClear 0 None) Live [0] DATA_WAIT None up False fl ps ng) (rs_one (RsSignal None) Live [0] DATA_WAIT None False False fl ps ng)"
    "S (rs_one (RsState 0 None) Live [0] READY None up False fl ps ng) (rs_one (RsState2 0 None) Live [0] READY None up False fl ps ng)"
    "S (rs_one (RsState2 0 None) Live [0] READY None up False fl ps ng) (rs_one (RsSignal None) Live [0] READY None up False fl ps ng)"
    "S (rs_one (RmQueue 0 (Some 0)) (Removing 0) [0] DATA_WAIT (Some 0) up True fl fl ng) (rs_one (RmSpin 0 (Some 0)) (Removing 0) [0] DATA_WAIT (Some 0) up True fl fl ng)"
  unfolding S_def
  by ((rule rs_step_eq [OF rs_step.create [where k = None and r = 0]]; simp add: rs_one_state),
      (rule rs_step_eq [OF rs_step.push [where r = 0 and k = None]]; simp add: rs_one_state),
      (rule rs_step_eq [OF rs_step.signal [where k = None]]; simp add: rs_one_state),
      (rule rs_step_eq [OF rs_step.fill [where k = None and r = 0]]; simp add: rs_one_state),
      (rule rs_step_eq [OF rs_step.begin_next]; simp add: rs_one_state),
      (rule rs_step_eq [OF rs_step.enter [where p = 19]]; simp add: rs_one_state),
      (rule rs_step_eq [OF rs_step.acquire [where p = 19 and r = 0 and q = "[]"]]; simp add: rs_one_state),
      (rule rs_step_eq [OF rs_step.not_woken [where p = 19 and r = 0 and q = "[]"]]; simp add: rs_one_state),
      (rule rs_step_eq [OF rs_step.flag_set [where p = 19 and r = 0 and q = "[]"]]; simp add: rs_one_state),
      (rule rs_step_eq [OF rs_step.take [where p = 19 and r = 0 and q = "[]"]]; simp add: rs_one_state),
      (rule rs_step_eq [OF rs_step.resumed [where r = 0]]; simp add: rs_one_state),
      (rule rs_step_eq [OF rs_step.set_wait [where r = 0]]; simp add: rs_one_state),
      (rule rs_step_eq [OF rs_step.fetched [where r = 0 and n = fl]]; simp add: rs_one_state),
      (rule rs_step_eq [OF rs_step.remove [where k = "Some 0" and r = 0]]; simp add: rs_one_state),
      (rule rs_step_eq [OF rs_step.not_fetched [where r = 0]]; simp add: rs_one_state in_id_cr_def),
      (rule rs_step_eq [OF rs_step.yield [where r = 0]]; simp add: rs_one_state in_id_cr_def),
      (rule rs_step_eq [OF rs_step.release [where r = 0]]; simp add: rs_one_state in_id_cr_def),
      (rule rs_step_eq [OF rs_step.known [where r = 0 and k = None]]; simp add: rs_one_state in_id_cr_def),
      (rule rs_step_eq [OF rs_step.waits [where r = 0 and k = None]]; simp add: rs_one_state in_id_cr_def),
      (rule rs_step_eq [OF rs_step.clear [where r = 0 and k = None]]; simp add: rs_one_state in_id_cr_def),
      (rule rs_step_eq [OF rs_step.waits_not [where r = 0 and k = None]]; simp add: rs_one_state),
      (rule rs_step_eq [OF rs_step.io_waits_not [where r = 0 and k = None]]; simp add: rs_one_state),
      (rule rs_step_eq [OF rs_step.lock_queue [where r = 0 and k = "Some 0"]]; simp add: rs_one_state))

text \<open>A routine that found nothing is notified of a message; one that found a message is at work.\<close>

lemma rs_one_notified: "reachable (rs_step (\<lambda>_. 19)) rs_start (rs_one (RsSignal None) Live [0] DATA_WAIT None False False 1 0 1)"
proof -
  let ?R = "reachable (rs_step (\<lambda>_. 19)) rs_start"
  have "?R (rs_one RsIdle New [] READY None True False 0 0 0)" unfolding rs_one_start by (rule reachable.start)
  from rs_reach [OF this rs_one_steps(1)] have "?R (rs_one (RsPush 0 None) (Pushing 0) [] READY None True False 0 0 0)" .
  from rs_reach [OF this rs_one_steps(2)] have "?R (rs_one (RsSignal None) Live [0] READY None True False 0 0 0)" .
  from rs_reach [OF this rs_one_steps(3)] have "?R (rs_one RsIdle Live [0] READY None True False 0 0 (0 + 1))" .
  from rs_reach [OF this rs_one_steps(5)] have "?R (rs_one (RsLock 20) Live [0] READY None True False 0 0 (0 + 1))" .
  from rs_reach [OF this rs_one_steps(6)] have "?R (rs_one (RsScan 19 [0]) Live [0] READY None True False 0 0 (0 + 1))" .
  from rs_reach [OF this rs_one_steps(7)] have "?R (rs_one (RsUpdate 19 0 []) Live [0] READY (Some 0) True False 0 0 (0 + 1))" .
  from rs_reach [OF this rs_one_steps(8)] have "?R (rs_one (RsTest 19 0 []) Live [0] READY (Some 0) True False 0 0 (0 + 1))" .
  from rs_reach [OF this rs_one_steps(9)] have "?R (rs_one (RsLook 19 0 []) Live [0] READY (Some 0) True False 0 0 (0 + 1))" .
  from rs_reach [OF this rs_one_steps(10)] have "?R (rs_one (RsGot 0) Live [0] READY (Some 0) True False 0 0 (0 + 1))" .
  from rs_reach [OF this rs_one_steps(11)] have "?R (rs_one (RsRun 0 BWait) Live [0] READY (Some 0) True False 0 0 (0 + 1))" .
  from rs_reach [OF this rs_one_steps(12)] have "?R (rs_one (RsRun 0 BFetch) Live [0] DATA_WAIT (Some 0) True False 0 0 (0 + 1))" .
  from rs_reach [OF this rs_one_steps(15)] have "?R (rs_one (RsRun 0 BYield) Live [0] DATA_WAIT (Some 0) True False 0 0 (0 + 1))" .
  from rs_reach [OF this rs_one_steps(16)] have "?R (rs_one (RsRelease 0) Live [0] DATA_WAIT (Some 0) True False 0 0 (0 + 1))" .
  from rs_reach [OF this rs_one_steps(17)] have "?R (rs_one RsIdle Live [0] DATA_WAIT None True False 0 0 (0 + 1))" .
  from rs_reach [OF this rs_one_steps(4)] have "?R (rs_one (RsNotify 0 None) Live [0] DATA_WAIT None True False (0 + 1) 0 (0 + 1))" .
  from rs_reach [OF this rs_one_steps(18)] have "?R (rs_one (RsState 0 None) Live [0] DATA_WAIT None True False (0 + 1) 0 (0 + 1))" .
  from rs_reach [OF this rs_one_steps(19)] have "?R (rs_one (RsClear 0 None) Live [0] DATA_WAIT None True False (0 + 1) 0 (0 + 1))" .
  from rs_reach [OF this rs_one_steps(20)] have "?R (rs_one (RsSignal None) Live [0] DATA_WAIT None False False (0 + 1) 0 (0 + 1))" .
  then show ?thesis by simp
qed

lemma rs_one_working: "reachable (rs_step (\<lambda>_. 19)) rs_start (rs_one (RsRun 0 BWork) Live [0] DATA_WAIT (Some 0) True False 1 1 2)"
proof -
  let ?R = "reachable (rs_step (\<lambda>_. 19)) rs_start"
  have "?R (rs_one RsIdle New [] READY None True False 0 0 0)" unfolding rs_one_start by (rule reachable.start)
  from rs_reach [OF this rs_one_steps(1)] have "?R (rs_one (RsPush 0 None) (Pushing 0) [] READY None True False 0 0 0)" .
  from rs_reach [OF this rs_one_steps(2)] have "?R (rs_one (RsSignal None) Live [0] READY None True False 0 0 0)" .
  from rs_reach [OF this rs_one_steps(3)] have "?R (rs_one RsIdle Live [0] READY None True False 0 0 (0 + 1))" .
  from rs_reach [OF this rs_one_steps(4)] have "?R (rs_one (RsNotify 0 None) Live [0] READY None True False (0 + 1) 0 (0 + 1))" .
  from rs_reach [OF this rs_one_steps(18)] have "?R (rs_one (RsState 0 None) Live [0] READY None True False (0 + 1) 0 (0 + 1))" .
  from rs_reach [OF this rs_one_steps(21)] have "?R (rs_one (RsState2 0 None) Live [0] READY None True False (0 + 1) 0 (0 + 1))" .
  from rs_reach [OF this rs_one_steps(22)] have "?R (rs_one (RsSignal None) Live [0] READY None True False (0 + 1) 0 (0 + 1))" .
  from rs_reach [OF this rs_one_steps(3)] have "?R (rs_one RsIdle Live [0] READY None True False (0 + 1) 0 (0 + 1 + 1))" .
  from rs_reach [OF this rs_one_steps(5)] have "?R (rs_one (RsLock 20) Live [0] READY None True False (0 + 1) 0 (0 + 1 + 1))" .
  from rs_reach [OF this rs_one_steps(6)] have "?R (rs_one (RsScan 19 [0]) Live [0] READY None True False (0 + 1) 0 (0 + 1 + 1))" .
  from rs_reach [OF this rs_one_steps(7)] have "?R (rs_one (RsUpdate 19 0 []) Live [0] READY (Some 0) True False (0 + 1) 0 (0 + 1 + 1))" .
  from rs_reach [OF this rs_one_steps(8)] have "?R (rs_one (RsTest 19 0 []) Live [0] READY (Some 0) True False (0 + 1) 0 (0 + 1 + 1))" .
  from rs_reach [OF this rs_one_steps(9)] have "?R (rs_one (RsLook 19 0 []) Live [0] READY (Some 0) True False (0 + 1) 0 (0 + 1 + 1))" .
  from rs_reach [OF this rs_one_steps(10)] have "?R (rs_one (RsGot 0) Live [0] READY (Some 0) True False (0 + 1) 0 (0 + 1 + 1))" .
  from rs_reach [OF this rs_one_steps(11)] have "?R (rs_one (RsRun 0 BWait) Live [0] READY (Some 0) True False (0 + 1) 0 (0 + 1 + 1))" .
  from rs_reach [OF this rs_one_steps(12)] have "?R (rs_one (RsRun 0 BFetch) Live [0] DATA_WAIT (Some 0) True False (0 + 1) 0 (0 + 1 + 1))" .
  from rs_reach [OF this rs_one_steps(13)] show ?thesis by simp
qed




lemma self_removal_hangs_witness:
  "\<exists>s. reachable (rs_step (\<lambda>_. 19)) rs_start s \<and> rs_pcs s 0 = RmSpin 0 (Some 0) \<and> (\<forall>j. reads_queue (rs_pcs s j) \<noteq> Some 19)"
proof -
  let ?s = "rs_one (RmSpin 0 (Some 0)) (Removing 0) [0] DATA_WAIT (Some 0) True True 1 1 2"
  from rs_reach [OF rs_one_working rs_one_steps(14)] have
    "reachable (rs_step (\<lambda>_. 19)) rs_start (rs_one (RmQueue 0 (Some 0)) (Removing 0) [0] DATA_WAIT (Some 0) True True 1 1 2)" .
  from rs_reach [OF this rs_one_steps(23)] have reach: "reachable (rs_step (\<lambda>_. 19)) rs_start ?s" .
  have "rs_pcs ?s 0 = RmSpin 0 (Some 0)" by simp
  from self_removal_hangs [OF reach this reachable.start] reach show ?thesis by blast
qed

end
