(* ===== verification/Rtps_Transport.thy ===== *)
theory Rtps_Transport
  imports Dispatcher Shm_Format Topology_Wire
begin

text \<open>
  The transport over Fast DDS: the settings of a writer and a reader (\<open>rtps/attributes_filler.cpp\<close>), the
  transmitter (\<open>transmitter/transmitter.h\<close>, \<open>rtps_transmitter.h\<close>), the dispatcher with its readers
  (\<open>dispatcher/rtps_dispatcher.h\<close>, \<open>rtps_dispatcher.cpp\<close>, \<open>rtps/rea_listener.cpp\<close>), the
  receiver (\<open>receiver/rtps_receiver.h\<close>) and \<open>transport.h\<close>, which makes them. Fast DDS itself is a
  parameter: whether it registers an endpoint or accepts a change, how much room a payload has, and the
  settings its constructors start from. A change that was accepted is appended to the changes sent.
\<close>

section \<open>Settings of writers and readers\<close>

datatype dds_durability = TRANSIENT_LOCAL_DURABILITY_QOS | VOLATILE_DURABILITY_QOS | DdsDurability nat
datatype dds_reliability = BEST_EFFORT_RELIABILITY_QOS | RELIABLE_RELIABILITY_QOS | DdsReliability nat
datatype dds_history = KEEP_LAST_HISTORY_QOS | KEEP_ALL_HISTORY_QOS | DdsHistory nat

record rtps_attributes =
  at_topic_name :: string
  at_topic_data_type :: string
  at_no_key :: bool
  at_payload_max_size :: u32
  at_maximum_reserved_caches :: u32
  at_endpoint_best_effort :: bool
  at_durability :: dds_durability
  at_reliability :: dds_reliability
  at_history :: dds_history
  at_history_depth :: u32
  at_heartbeat_seconds :: u32
  at_heartbeat_nanosec :: u32

text \<open>The switches compare the numbers of the enumerations; a missing \<open>break\<close> before \<open>default\<close> changes nothing.\<close>

definition fill_qos :: "qos_profile \<Rightarrow> rtps_attributes \<Rightarrow> rtps_attributes" where
  "fill_qos qos a0 =
     (let a1 = (if durability_int (q_durability qos) = history_int HISTORY_KEEP_LAST
                then a0\<lparr>at_durability := TRANSIENT_LOCAL_DURABILITY_QOS\<rparr>
                else if durability_int (q_durability qos) = durability_int DURABILITY_VOLATILE
                then a0\<lparr>at_durability := VOLATILE_DURABILITY_QOS\<rparr> else a0);
          a2 = (if q_reliability qos = RELIABILITY_BEST_EFFORT then a1\<lparr>at_reliability := BEST_EFFORT_RELIABILITY_QOS\<rparr>
                else if q_reliability qos = RELIABILITY_RELIABLE then a1\<lparr>at_reliability := RELIABLE_RELIABILITY_QOS\<rparr>
                else a1)
      in if q_history qos = HISTORY_KEEP_LAST then a2\<lparr>at_history := KEEP_LAST_HISTORY_QOS\<rparr>
         else if q_history qos = HISTORY_KEEP_ALL then a2\<lparr>at_history := KEEP_ALL_HISTORY_QOS\<rparr> else a2)"

definition fill_depth :: "qos_profile \<Rightarrow> rtps_attributes \<Rightarrow> bool \<times> rtps_attributes" where
  "fill_depth qos a =
     (let a1 = (if q_depth qos \<noteq> 0 then a\<lparr>at_history_depth := q_depth qos\<rparr> else a)
      in (if sint (at_history_depth a1) < 0 then False else True, a1))"

text \<open>The heartbeat period of \<open>256 / mps\<close> seconds in units of \<open>2\<^sup>-\<^sup>3\<^sup>2\<close>, split into its two halves.\<close>

definition fill_heartbeat :: "qos_profile \<Rightarrow> rtps_attributes \<Rightarrow> rtps_attributes" where
  "fill_heartbeat qos a =
     (if q_mps qos \<noteq> 0
      then let mps = ucast (q_mps qos) :: u64;
               mps1 = (if mps > 1024 then 1024 else if mps < 64 then 64 else mps);
               fractions = push_bit 32 256 div mps1
           in a\<lparr>at_heartbeat_seconds := ucast (drop_bit 32 fractions),
                at_heartbeat_nanosec := ucast (fractions AND 0xffffffff)\<rparr>
      else a)"

definition fill_in_writer_attr :: "string \<Rightarrow> qos_profile \<Rightarrow> rtps_attributes \<Rightarrow> bool \<times> rtps_attributes" where
  "fill_in_writer_attr channel_name qos writer_attr =
     fill_depth qos (fill_heartbeat qos (fill_qos qos (writer_attr\<lparr>at_topic_name := channel_name,
       at_topic_data_type := ''string'', at_no_key := True, at_payload_max_size := q_msg_size qos + 255,
       at_maximum_reserved_caches := 50, at_endpoint_best_effort := True\<rparr>)))"

definition fill_in_reader_attr :: "string \<Rightarrow> qos_profile \<Rightarrow> rtps_attributes \<Rightarrow> bool \<times> rtps_attributes" where
  "fill_in_reader_attr channel_name qos reader_attr =
     fill_depth qos (fill_qos qos (reader_attr\<lparr>at_topic_name := channel_name,
       at_topic_data_type := ''string'', at_no_key := True, at_payload_max_size := 255,
       at_endpoint_best_effort := True\<rparr>))"

section \<open>The outside world\<close>

text \<open>
  What an operation gets from outside: the clock, sixteen bytes of a new identifier, whether the process has a
  Fast DDS participant and Fast DDS registers the endpoint, whether the first and the second attempt to add a
  change succeed, the room of a payload, the attributes Fast DDS starts from, and the indeterminate integers
  of a default-constructed \<open>RoleAttributes\<close>.
\<close>

record outside =
  ou_now :: u64
  ou_uuid :: "byte list"
  ou_participant :: bool
  ou_registered :: bool
  ou_added :: bool
  ou_added_again :: bool
  ou_room :: nat
  ou_defaults :: rtps_attributes
  ou_junk :: role_attributes

text \<open>A change: the sixteen bytes of the related sample identity, the two sequence numbers and the payload.\<close>

record rtps_change =
  ch_topic :: string
  ch_guid :: "byte list"
  ch_related_seq :: "u32 \<times> u32"
  ch_payload :: "byte list"

section \<open>Transmitter\<close>

record rtps_transmitter =
  rt_endpoint :: endpoint
  rt_seq_num :: u64
  rt_msg_info :: message_info
  rt_writer :: "rtps_attributes option"

definition rtps_transmitter_new :: "(byte list \<Rightarrow> u64) \<Rightarrow> outside \<Rightarrow> string \<Rightarrow> u32 \<Rightarrow> role_attributes \<Rightarrow> rtps_transmitter" where
  "rtps_transmitter_new hash ou host pid attr =
     (let e = endpoint_new hash (ou_uuid ou) host pid attr
      in \<lparr>rt_endpoint = e, rt_seq_num = 0,
          rt_msg_info = (message_info_new hash)\<lparr>mi_sender_id := ep_id e, mi_seq_num := 0\<rparr>, rt_writer = None\<rparr>)"

definition rt_enabled :: "rtps_transmitter \<Rightarrow> bool" where
  "rt_enabled tr = ep_enabled (rt_endpoint tr)"

text \<open>The writer made by the previous \<open>Enable\<close> is forgotten, not removed; \<open>registerWriter\<close> is called on the participant.\<close>

definition rtps_transmitter_enable :: "outside \<Rightarrow> rtps_transmitter \<Rightarrow> ub + rtps_transmitter" where
  "rtps_transmitter_enable ou tr =
     (if rt_enabled tr then Inr tr
      else let attr = snd (fill_in_writer_attr (ra_channel_name (ep_attr (rt_endpoint tr)))
                 (ra_qos (ep_attr (rt_endpoint tr))) (ou_defaults ou))
        in if \<not> ou_participant ou then Inl NullPointer
           else let tr1 = tr\<lparr>rt_writer := Some attr\<rparr>
             in Inr (if ou_registered ou then tr1\<lparr>rt_endpoint := (rt_endpoint tr1)\<lparr>ep_enabled := True\<rparr>\<rparr> else tr1))"

definition rtps_transmitter_disable :: "rtps_transmitter \<Rightarrow> rtps_transmitter" where
  "rtps_transmitter_disable tr =
     (if rt_enabled tr then tr\<lparr>rt_writer := None, rt_endpoint := (rt_endpoint tr)\<lparr>ep_enabled := False\<rparr>\<rparr> else tr)"

text \<open>\<open>Transmitter::Enable(opposite_attr)\<close> and \<open>Disable(opposite_attr)\<close> ignore for whom.\<close>

definition transmitter_enable_to :: "outside \<Rightarrow> role_attributes \<Rightarrow> rtps_transmitter \<Rightarrow> ub + rtps_transmitter" where
  "transmitter_enable_to ou opposite_attr tr = rtps_transmitter_enable ou tr"

definition transmitter_disable_to :: "role_attributes \<Rightarrow> rtps_transmitter \<Rightarrow> rtps_transmitter" where
  "transmitter_disable_to opposite_attr tr = rtps_transmitter_disable tr"

text \<open>\<open>payload\<close> are the bytes \<open>DataStream\<close> makes of the message; the answer is the change sent, if any.\<close>

definition rtps_transmit :: "outside \<Rightarrow> byte list \<Rightarrow> message_info \<Rightarrow> rtps_transmitter \<Rightarrow> ub + bool \<times> rtps_change option" where
  "rtps_transmit ou payload msg_info tr =
     (if \<not> rt_enabled tr then Inr (False, None)
      else case rt_writer tr of None \<Rightarrow> Inl NullPointer
        | Some attr \<Rightarrow>
            if ou_room ou < length payload then Inl OutOfBounds
            else let ch = \<lparr>ch_topic = at_topic_name attr,
                     ch_guid = id_data (mi_sender_id msg_info) @ id_data (mi_spare_id msg_info),
                     ch_related_seq = (ucast (drop_bit 32 (mi_seq_num msg_info AND 0xFFFFFFFF00000000)),
                        ucast (mi_seq_num msg_info AND 0xFFFFFFFF)),
                     ch_payload = payload\<rparr>
              in Inr (ou_participant ou, if ou_added ou \<or> ou_added_again ou then Some ch else None))"

definition rtps_transmit_next :: "outside \<Rightarrow> byte list \<Rightarrow> rtps_transmitter \<Rightarrow>
    ub + bool \<times> rtps_change option \<times> rtps_transmitter" where
  "rtps_transmit_next ou payload tr =
     (let seq = rt_seq_num tr + 1;
          tr1 = tr\<lparr>rt_seq_num := seq, rt_msg_info := (rt_msg_info tr)\<lparr>mi_seq_num := seq\<rparr>\<rparr>
      in map_sum id (\<lambda>(ok, ch). (ok, ch, tr1)) (rtps_transmit ou payload (rt_msg_info tr1) tr1))"

section \<open>Dispatcher and readers\<close>

text \<open>The tag of \<open>std::string\<close>, the message type of every listener over RTPS.\<close>

definition std_string :: nat where "std_string = 1"

type_synonym rtps_message = "byte list \<times> message_info"

text \<open>A reader with the name its \<open>ReaListener\<close> keeps and the \<open>msg_info_\<close> it reuses.\<close>

record rtps_reader =
  rr_channel_name :: string
  rr_attr :: rtps_attributes
  rr_msg_info :: message_info

record ('c, 'u) rtps_dispatcher = "('c, 'u) dispatcher" +
  rd_readers :: "u64 \<Rightarrow> rtps_reader option"
  rd_participant :: bool

definition rtps_dispatcher_new :: "('c, 'u) rtps_dispatcher" where
  "rtps_dispatcher_new = \<lparr>dp_is_shutdown = False, dp_msg_listeners = (\<lambda>_. None), rd_readers = (\<lambda>_. None),
     rd_participant = False\<rparr>"

definition rtps_dispatcher_shutdown :: "('c, 'u) rtps_dispatcher \<Rightarrow> ('c, 'u) rtps_dispatcher" where
  "rtps_dispatcher_shutdown d = (if dp_is_shutdown d then d else d\<lparr>dp_is_shutdown := True, rd_participant := False\<rparr>)"

definition add_reader :: "(byte list \<Rightarrow> u64) \<Rightarrow> outside \<Rightarrow> role_attributes \<Rightarrow> ('c, 'u) rtps_dispatcher \<Rightarrow>
    ub + ('c, 'u) rtps_dispatcher" where
  "add_reader hash ou self_attr d =
     (if \<not> rd_participant d then Inr d
      else if rd_readers d (ra_channel_id self_attr) \<noteq> None then Inr d
      else if \<not> ou_participant ou then Inl NullPointer
      else Inr (d\<lparr>rd_readers := (rd_readers d)(ra_channel_id self_attr \<mapsto>
        \<lparr>rr_channel_name = ra_channel_name self_attr,
         rr_attr = snd (fill_in_reader_attr (ra_channel_name self_attr) (ra_qos self_attr) (ou_defaults ou)),
         rr_msg_info = message_info_new hash\<rparr>)\<rparr>))"

definition rtps_add_listener :: "(byte list \<Rightarrow> u64) \<Rightarrow> outside \<Rightarrow> 'u \<Rightarrow> role_attributes \<Rightarrow> 'c \<Rightarrow>
    ('c, 'u) rtps_dispatcher \<Rightarrow> ub + ('c, 'u) rtps_dispatcher" where
  "rtps_add_listener hash ou u self_attr listener d =
     add_reader hash ou self_attr (add_listener std_string u self_attr listener d)"

definition rtps_add_listener_to :: "(byte list \<Rightarrow> u64) \<Rightarrow> outside \<Rightarrow> 'u \<Rightarrow> role_attributes \<Rightarrow> role_attributes \<Rightarrow> 'c \<Rightarrow>
    ('c, 'u) rtps_dispatcher \<Rightarrow> ub + ('c, 'u) rtps_dispatcher" where
  "rtps_add_listener_to hash ou u self_attr opposite_attr listener d =
     add_reader hash ou self_attr (add_listener_to std_string u self_attr opposite_attr listener d)"

definition rtps_on_message :: "('c, rtps_message, 'u) callbacks \<Rightarrow> u64 \<Rightarrow> rtps_message \<Rightarrow> 'u \<Rightarrow> ('c, 'u) rtps_dispatcher \<Rightarrow>
    ub + 'u \<times> ('c, 'u) rtps_dispatcher" where
  "rtps_on_message run channel_id m u d =
     (if dp_is_shutdown d then Inr (u, d)
      else case dp_msg_listeners d channel_id of None \<Rightarrow> Inr (u, d)
        | Some (typ, h) \<Rightarrow> if typ \<noteq> std_string then Inl NullPointer
            else (let (u', h') = lh_run run m (id_hash_value (mi_sender_id (snd m))) u h
              in Inr (u', d\<lparr>dp_msg_listeners := (dp_msg_listeners d)(channel_id \<mapsto> (typ, h'))\<rparr>)))"

text \<open>
  \<open>onNewCacheChangeAdded\<close> of the listener of the reader at \<open>key\<close>. Fast DDS hands the related sample identity
  of the writer over as the sample identity; \<open>seq\<close> is the number it gave to the change. The id of the channel
  is computed anew from its name.
\<close>

definition on_new_cache_change :: "('c, rtps_message, 'u) callbacks \<Rightarrow> (byte list \<Rightarrow> u64) \<Rightarrow> (string \<Rightarrow> u64) \<Rightarrow> u64 \<Rightarrow>
    u32 \<times> u32 \<Rightarrow> rtps_change \<Rightarrow> 'u \<Rightarrow> ('c, 'u) rtps_dispatcher \<Rightarrow> ub + 'u \<times> ('c, 'u) rtps_dispatcher" where
  "on_new_cache_change run hash name_hash key seq ch u d =
     (case rd_readers d key of None \<Rightarrow> Inl NullPointer
      | Some r \<Rightarrow>
          let channel_id = name_hash (rr_channel_name r);
              sender_id = identity_set_data hash (Some (ch_guid ch)) (identity_new hash None);
              spare_id = identity_set_data hash (Some (drop ID_SIZE (ch_guid ch))) (identity_new hash None);
              seq_num = push_bit 32 (scast (fst seq)) OR ucast (snd seq);
              info = (rr_msg_info r)\<lparr>mi_sender_id := sender_id, mi_spare_id := spare_id, mi_seq_num := seq_num\<rparr>
          in rtps_on_message run channel_id (ch_payload ch, info) u
               (d\<lparr>rd_readers := (rd_readers d)(key \<mapsto> r\<lparr>rr_msg_info := info\<rparr>)\<rparr>))"

section \<open>Receiver\<close>

record 'c rtps_receiver =
  rv_endpoint :: endpoint
  rv_listener :: 'c

definition rtps_receiver_new :: "(byte list \<Rightarrow> u64) \<Rightarrow> outside \<Rightarrow> string \<Rightarrow> u32 \<Rightarrow> role_attributes \<Rightarrow> 'c \<Rightarrow> 'c rtps_receiver" where
  "rtps_receiver_new hash ou host pid attr listener =
     \<lparr>rv_endpoint = endpoint_new hash (ou_uuid ou) host pid attr, rv_listener = listener\<rparr>"

definition rv_attr :: "'c rtps_receiver \<Rightarrow> role_attributes" where
  "rv_attr rv = ep_attr (rv_endpoint rv)"

definition rtps_receiver_enable :: "(byte list \<Rightarrow> u64) \<Rightarrow> outside \<Rightarrow> 'u \<Rightarrow> 'c rtps_receiver \<Rightarrow> ('c, 'u) rtps_dispatcher \<Rightarrow>
    ub + 'c rtps_receiver \<times> ('c, 'u) rtps_dispatcher" where
  "rtps_receiver_enable hash ou u rv d =
     (if ep_enabled (rv_endpoint rv) then Inr (rv, d)
      else map_sum id (\<lambda>d1. (rv\<lparr>rv_endpoint := (rv_endpoint rv)\<lparr>ep_enabled := True\<rparr>\<rparr>, d1))
        (rtps_add_listener hash ou u (rv_attr rv) (rv_listener rv) d))"

definition rtps_receiver_disable :: "'c rtps_receiver \<Rightarrow> ('c, 'u) rtps_dispatcher \<Rightarrow>
    'c rtps_receiver \<times> ('c, 'u) rtps_dispatcher" where
  "rtps_receiver_disable rv d =
     (if \<not> ep_enabled (rv_endpoint rv) then (rv, d)
      else (rv\<lparr>rv_endpoint := (rv_endpoint rv)\<lparr>ep_enabled := False\<rparr>\<rparr>, remove_listener (rv_attr rv) d))"

definition rtps_receiver_enable_to :: "(byte list \<Rightarrow> u64) \<Rightarrow> outside \<Rightarrow> 'u \<Rightarrow> role_attributes \<Rightarrow> 'c rtps_receiver \<Rightarrow>
    ('c, 'u) rtps_dispatcher \<Rightarrow> ub + ('c, 'u) rtps_dispatcher" where
  "rtps_receiver_enable_to hash ou u opposite_attr rv d =
     rtps_add_listener_to hash ou u (rv_attr rv) opposite_attr (rv_listener rv) d"

definition rtps_receiver_disable_to :: "role_attributes \<Rightarrow> 'c rtps_receiver \<Rightarrow> ('c, 'u) rtps_dispatcher \<Rightarrow>
    ('c, 'u) rtps_dispatcher" where
  "rtps_receiver_disable_to opposite_attr rv d = remove_listener_from (rv_attr rv) opposite_attr d"

section \<open>Transport\<close>

text \<open>Both with the default mode \<open>RTPS\<close>, which everybody uses: the object is made and enabled.\<close>

definition create_transmitter :: "(byte list \<Rightarrow> u64) \<Rightarrow> outside \<Rightarrow> string \<Rightarrow> u32 \<Rightarrow> bool \<Rightarrow> role_attributes \<Rightarrow>
    ub + rtps_transmitter option" where
  "create_transmitter hash ou host pid is_shutdown attr =
     (if is_shutdown then Inr None
      else map_sum id Some (rtps_transmitter_enable ou (rtps_transmitter_new hash ou host pid attr)))"

definition create_receiver :: "(byte list \<Rightarrow> u64) \<Rightarrow> outside \<Rightarrow> 'u \<Rightarrow> string \<Rightarrow> u32 \<Rightarrow> bool \<Rightarrow> role_attributes \<Rightarrow> 'c \<Rightarrow>
    ('c, 'u) rtps_dispatcher \<Rightarrow> ub + 'c rtps_receiver option \<times> ('c, 'u) rtps_dispatcher" where
  "create_receiver hash ou u host pid is_shutdown attr listener d =
     (if is_shutdown then Inr (None, d)
      else map_sum id (\<lambda>(rv, d1). (Some rv, d1))
        (rtps_receiver_enable hash ou u (rtps_receiver_new hash ou host pid attr listener) d))"

end
