(* ===== verification/Scheduler_Classic.thy ===== *)
theory Scheduler_Classic
  imports Croutine Global_Data
begin

text \<open>
  The scheduler (\<open>scheduler/scheduler.h\<close>, \<open>scheduler.cpp\<close>) with its classic policy
  (\<open>policy/scheduler_classic.cpp\<close>, \<open>policy/classic_context.cpp\<close>) and the loop of a processor
  (\<open>processor.cpp\<close>), one operation after the other: which routine is in which queue, which one a processor
  takes, what the creation, the notification and the removal of tasks do. Routines are shared by pointers, so
  they live at addresses. An operation that does not return is \<open>None\<close>.
\<close>

section \<open>Configuration and state\<close>

record classic_task =
  ct_name :: string
  ct_prio :: u32
  ct_group_name :: string

record sched_group =
  sg_name :: string
  sg_processor_num :: u32
  sg_affinity :: string
  sg_cpuset :: string
  sg_processor_policy :: string
  sg_processor_prio :: "32 word"
  sg_tasks :: "classic_task list"

record inner_thread =
  it_name :: string
  it_cpuset :: string
  it_policy :: string
  it_prio :: u32

record scheduler_conf =
  sf_policy :: string
  sf_routine_num :: u32
  sf_default_proc_num :: u32
  sf_process_level_cpuset :: string
  sf_threads :: "inner_thread list"
  sf_groups :: "sched_group list"

definition MAX_PRIO :: u32 where "MAX_PRIO = 20"

text \<open>A \<open>ClassicContext\<close> has its flag and the name of its group; the queues it points to are those of the group.\<close>

record classic_context =
  cx_stop :: bool
  cx_current_grp :: string

record scheduler =
  sc_stop :: bool
  sc_task_pool_size :: u32
  sc_process_level_cpuset :: string
  sc_inner_thr_confs :: "string \<Rightarrow> inner_thread option"
  sc_groups :: "sched_group list"
  sc_cr_confs :: "string \<Rightarrow> classic_task option"
  sc_id_cr :: "u64 \<Rightarrow> nat option"
  sc_routines :: "nat \<Rightarrow> croutine"
  sc_next :: nat
  sc_pctxs :: "classic_context list"
  sc_cr_group :: "string \<Rightarrow> nat \<Rightarrow> nat list"
  sc_notify_grp :: "string \<Rightarrow> int"

section \<open>Construction\<close>

definition init_group :: "string \<Rightarrow> scheduler \<Rightarrow> classic_context \<times> scheduler" where
  "init_group group_name s = (\<lparr>cx_stop = False, cx_current_grp = group_name\<rparr>,
     s\<lparr>sc_notify_grp := (sc_notify_grp s)(group_name := 0)\<rparr>)"

definition create_contexts :: "string \<Rightarrow> scheduler \<Rightarrow> scheduler" where
  "create_contexts group_name s = (let (ctx, s1) = init_group group_name s in s1\<lparr>sc_pctxs := sc_pctxs s1 @ [ctx]\<rparr>)"

definition create_processors :: "sched_group \<Rightarrow> scheduler \<Rightarrow> scheduler" where
  "create_processors grp s =
     (let s1 = (if sc_task_pool_size s = 0 then s\<lparr>sc_task_pool_size := sg_processor_num grp\<rparr> else s)
      in (create_contexts (sg_name grp) ^^ unat (sg_processor_num grp)) s1)"

definition add_tasks :: "sched_group \<Rightarrow> (string \<Rightarrow> classic_task option) \<Rightarrow> string \<Rightarrow> classic_task option" where
  "add_tasks grp confs = fold (\<lambda>task confs. confs(ct_name task \<mapsto> task\<lparr>ct_group_name := sg_name grp\<rparr>)) (sg_tasks grp) confs"

definition default_group :: "u32 \<Rightarrow> sched_group" where
  "default_group proc_num = \<lparr>sg_name = ''default_grp'', sg_processor_num = proc_num, sg_affinity = '''', sg_cpuset = '''',
     sg_processor_policy = '''', sg_processor_prio = 0, sg_tasks = []\<rparr>"

definition scheduler_empty :: scheduler where
  "scheduler_empty = \<lparr>sc_stop = False, sc_task_pool_size = 0, sc_process_level_cpuset = '''', sc_inner_thr_confs = (\<lambda>_. None),
     sc_groups = [], sc_cr_confs = (\<lambda>_. None), sc_id_cr = (\<lambda>_. None), sc_routines = (\<lambda>_. croutine_new 0), sc_next = 0,
     sc_pctxs = [], sc_cr_group = (\<lambda>_ _. []), sc_notify_grp = (\<lambda>_. 0)\<rparr>"

text \<open>The constructor, given what the file of the process group says and the default number of processors.\<close>

definition scheduler_new :: "scheduler_conf option \<Rightarrow> u32 \<Rightarrow> scheduler" where
  "scheduler_new cfg default_proc_num =
     (let s = (case cfg of
          Some cfg \<Rightarrow> scheduler_empty\<lparr>
            sc_inner_thr_confs := fold (\<lambda>thr confs. confs(it_name thr \<mapsto> thr)) (sf_threads cfg) (\<lambda>_. None),
            sc_process_level_cpuset := sf_process_level_cpuset cfg,
            sc_groups := sf_groups cfg, sc_cr_confs := fold add_tasks (sf_groups cfg) (\<lambda>_. None)\<rparr>
        | None \<Rightarrow> (let proc_num = (if default_proc_num \<noteq> 0 then default_proc_num else 2)
            in scheduler_empty\<lparr>sc_task_pool_size := proc_num, sc_groups := [default_group proc_num]\<rparr>))
      in fold create_processors (sc_groups s) s)"

section \<open>Queues of routines\<close>

fun scan_queue :: "(nat \<Rightarrow> int) \<Rightarrow> nat list \<Rightarrow> (nat \<Rightarrow> croutine) \<Rightarrow> nat option \<times> (nat \<Rightarrow> croutine)" where
  "scan_queue now [] h = (None, h)"
| "scan_queue now (a # as) h =
     (let (got, r) = cr_acquire (h a) in
      if \<not> got then scan_queue now as (h(a := r))
      else let (st, r1) = update_state (now a) r in
        if st = READY then (Some a, h(a := r1)) else scan_queue now as (h(a := cr_release r1)))"

text \<open>The priorities from \<open>n - 1\<close> down to zero.\<close>

fun scan_priorities :: "(nat \<Rightarrow> int) \<Rightarrow> (nat \<Rightarrow> nat list) \<Rightarrow> nat \<Rightarrow> (nat \<Rightarrow> croutine) \<Rightarrow> nat option \<times> (nat \<Rightarrow> croutine)" where
  "scan_priorities now rq 0 h = (None, h)"
| "scan_priorities now rq (Suc i) h =
     (let (found, h1) = scan_queue now (rq i) h in if found \<noteq> None then (found, h1) else scan_priorities now rq i h1)"

definition next_routine :: "(nat \<Rightarrow> int) \<Rightarrow> classic_context \<Rightarrow> scheduler \<Rightarrow> nat option \<times> scheduler" where
  "next_routine now ctx s =
     (if cx_stop ctx then (None, s)
      else let (found, h) = scan_priorities now (sc_cr_group s (cx_current_grp ctx)) (unat MAX_PRIO) (sc_routines s)
        in (found, s\<lparr>sc_routines := h\<rparr>))"

definition ctx_notify :: "string \<Rightarrow> scheduler \<Rightarrow> scheduler" where
  "ctx_notify group_name s = s\<lparr>sc_notify_grp := (sc_notify_grp s)(group_name := sc_notify_grp s group_name + 1)\<rparr>"

text \<open>A wait that has ended, by a notification or after a millisecond.\<close>

definition ctx_wait :: "classic_context \<Rightarrow> scheduler \<Rightarrow> scheduler" where
  "ctx_wait ctx s = (let g = cx_current_grp ctx in
     if 0 < sc_notify_grp s g then s\<lparr>sc_notify_grp := (sc_notify_grp s)(g := sc_notify_grp s g - 1)\<rparr> else s)"

definition ctx_shutdown :: "classic_context \<Rightarrow> scheduler \<Rightarrow> classic_context \<times> scheduler" where
  "ctx_shutdown ctx s = (ctx\<lparr>cx_stop := True\<rparr>, s\<lparr>sc_notify_grp := (sc_notify_grp s)(cx_current_grp ctx := 255)\<rparr>)"

text \<open>
  \<open>ClassicContext::RemoveCRoutine\<close>: the queue is searched for the id; the routine found is stopped and must be
  acquired, which does not end while it is held.
\<close>

definition ctx_remove_croutine :: "nat \<Rightarrow> scheduler \<Rightarrow> (bool \<times> scheduler) option" where
  "ctx_remove_croutine a s =
     (let cr = sc_routines s a; q = sc_cr_group s (cr_group_name cr) (unat (cr_priority cr)) in
      case find (\<lambda>b. cr_id (sc_routines s b) = cr_id cr) q of
        None \<Rightarrow> Some (False, s)
      | Some b \<Rightarrow> let r = cr_stop (sc_routines s b); (got, r1) = cr_acquire r in
          if \<not> got then None
          else Some (True, s\<lparr>sc_routines := (sc_routines s)(b := cr_release r1),
            sc_cr_group := (sc_cr_group s)(cr_group_name cr :=
              (sc_cr_group s (cr_group_name cr))(unat (cr_priority cr) := remove1 b q))\<rparr>))"

section \<open>Tasks\<close>

definition enqueue_routine :: "nat \<Rightarrow> scheduler \<Rightarrow> scheduler" where
  "enqueue_routine a s =
     (let cr = sc_routines s a; q = sc_cr_group s (cr_group_name cr) in
      s\<lparr>sc_cr_group := (sc_cr_group s)(cr_group_name cr := q(unat (cr_priority cr) := q (unat (cr_priority cr)) @ [a]))\<rparr>)"

definition dispatch_task :: "nat \<Rightarrow> scheduler \<Rightarrow> ub + bool \<times> scheduler" where
  "dispatch_task a s =
     (let cr = sc_routines s a in
      if sc_id_cr s (cr_id cr) \<noteq> None then Inr (False, s)
      else sbind (case sc_cr_confs s (cr_name cr) of
             Some task \<Rightarrow> Inr (cr\<lparr>cr_priority := ct_prio task, cr_group_name := ct_group_name task\<rparr>)
           | None \<Rightarrow> (case sc_groups s of [] \<Rightarrow> Inl OutOfBounds | g # _ \<Rightarrow> Inr (cr\<lparr>cr_group_name := sg_name g\<rparr>)))
         (\<lambda>cr1. let cr2 = (if MAX_PRIO \<le> cr_priority cr1 then cr1\<lparr>cr_priority := MAX_PRIO - 1\<rparr> else cr1) in
            Inr (True, ctx_notify (cr_group_name cr2) (enqueue_routine a
              (s\<lparr>sc_id_cr := (sc_id_cr s)(cr_id cr \<mapsto> a), sc_routines := (sc_routines s)(a := cr2)\<rparr>)))))"

definition create_task :: "(string \<Rightarrow> u64) \<Rightarrow> int \<Rightarrow> string \<Rightarrow> scheduler \<times> global_data \<Rightarrow>
    (ub + bool \<times> scheduler \<times> global_data) option" where
  "create_task hash now name = (\<lambda>(s, g).
     if sc_stop s then Some (Inr (False, s, g))
     else map_option (\<lambda>(task_id, g'). let a = sc_next s; cr = (croutine_new now)\<lparr>cr_id := task_id, cr_name := name\<rparr> in
         sbind (dispatch_task a (s\<lparr>sc_next := a + 1, sc_routines := (sc_routines s)(a := cr)\<rparr>)) (\<lambda>(ok, s'). Inr (ok, s', g')))
       (register_task_name hash name g))"

definition notify_processor :: "u64 \<Rightarrow> scheduler \<Rightarrow> bool \<times> scheduler" where
  "notify_processor crid s =
     (if sc_stop s then (True, s)
      else case sc_id_cr s crid of None \<Rightarrow> (False, s)
        | Some a \<Rightarrow> let cr = sc_routines s a;
            s1 = (if cr_state cr = DATA_WAIT \<or> cr_state cr = IO_WAIT
              then s\<lparr>sc_routines := (sc_routines s)(a := set_update_flag cr)\<rparr> else s)
          in (True, ctx_notify (cr_group_name cr) s1))"

definition notify_task :: "u64 \<Rightarrow> scheduler \<Rightarrow> bool \<times> scheduler" where
  "notify_task crid s = (if sc_stop s then (True, s) else notify_processor crid s)"

definition remove_croutine :: "u64 \<Rightarrow> scheduler \<Rightarrow> (bool \<times> scheduler) option" where
  "remove_croutine crid s =
     (case sc_id_cr s crid of None \<Rightarrow> Some (False, s)
      | Some a \<Rightarrow> ctx_remove_croutine a (s\<lparr>sc_routines := (sc_routines s)(a := cr_stop (sc_routines s a)),
          sc_id_cr := (sc_id_cr s)(crid := None)\<rparr>))"

definition remove_task :: "(string \<Rightarrow> u64) \<Rightarrow> string \<Rightarrow> scheduler \<Rightarrow> (bool \<times> scheduler) option" where
  "remove_task hash name s = (if sc_stop s then Some (True, s) else remove_croutine (hash name) s)"

text \<open>One round of \<open>Processor::Run\<close>, with the slices of the routines.\<close>

definition processor_round :: "(nat \<Rightarrow> int) \<Rightarrow> (nat \<Rightarrow> croutine \<times> 'w \<Rightarrow> croutine \<times> 'w) \<Rightarrow> classic_context \<Rightarrow> scheduler \<times> 'w \<Rightarrow> scheduler \<times> 'w" where
  "processor_round now body ctx = (\<lambda>(s, w). case next_routine now ctx s of
       (Some a, s1) \<Rightarrow> (let (_, r, w') = resume (body a) (sc_routines s1 a, w)
         in (s1\<lparr>sc_routines := (sc_routines s1)(a := cr_release r)\<rparr>, w'))
     | (None, s1) \<Rightarrow> (ctx_wait ctx s1, w))"

text \<open>
  \<open>Scheduler::Shutdown\<close>; \<open>cr_list\<close> are the ids of \<open>id_cr_\<close> in the order of its hash table. The processors
  are stopped after it, each by a further shutdown of its context.
\<close>

fun shutdown_contexts :: "classic_context list \<Rightarrow> scheduler \<Rightarrow> classic_context list \<times> scheduler" where
  "shutdown_contexts [] s = ([], s)"
| "shutdown_contexts (c # cs) s = (let (c', s1) = ctx_shutdown c s; (cs', s2) = shutdown_contexts cs s1 in (c' # cs', s2))"

fun remove_all :: "u64 list \<Rightarrow> scheduler \<Rightarrow> scheduler option" where
  "remove_all [] s = Some s"
| "remove_all (i # is) s = Option.bind (remove_croutine i s) (\<lambda>(_, s1). remove_all is s1)"

definition scheduler_shutdown :: "u64 list \<Rightarrow> scheduler \<Rightarrow> scheduler option" where
  "scheduler_shutdown cr_list s =
     (if sc_stop s then Some s
      else let (ctxs, s1) = shutdown_contexts (sc_pctxs s) (s\<lparr>sc_stop := True\<rparr>) in
        map_option (\<lambda>s2. (snd (shutdown_contexts ctxs s2))\<lparr>sc_pctxs := []\<rparr>) (remove_all cr_list (s1\<lparr>sc_pctxs := ctxs\<rparr>)))"

section \<open>The routine a processor takes\<close>

definition runnable :: "(nat \<Rightarrow> int) \<Rightarrow> (nat \<Rightarrow> croutine) \<Rightarrow> nat \<Rightarrow> bool" where
  "runnable now h a \<longleftrightarrow> \<not> cr_lock (h a) \<and> awake (now a) (h a)"

text \<open>What looking at routines that are not taken may change.\<close>

definition looked_at :: "(nat \<Rightarrow> croutine) \<Rightarrow> (nat \<Rightarrow> croutine) \<Rightarrow> bool" where
  "looked_at h h' \<longleftrightarrow> (\<forall>b. h' b = h b \<or> h' b = (h b)\<lparr>cr_updated := True\<rparr>)"

text \<open>The outcome of a search: nothing was found, or one routine is ready and held.\<close>

definition taken_from :: "(nat \<Rightarrow> croutine) \<Rightarrow> nat option \<Rightarrow> (nat \<Rightarrow> croutine) \<Rightarrow> bool" where
  "taken_from h found h' \<longleftrightarrow> (case found of None \<Rightarrow> looked_at h h'
     | Some a \<Rightarrow> cr_lock (h' a) \<and> cr_state (h' a) = READY \<and> identity_of (h' a) = identity_of (h a) \<and>
         cr_force_stop (h' a) = cr_force_stop (h a) \<and> looked_at h (h'(a := h a)))"

lemma looked_at_refl [simp]: "looked_at h h"
  by (simp add: looked_at_def)

lemma looked_at_trans: "looked_at h h1 \<Longrightarrow> looked_at h1 h2 \<Longrightarrow> looked_at h h2"
proof -
  assume looks: "looked_at h h1" "looked_at h1 h2"
  have "h2 b = h b \<or> h2 b = (h b)\<lparr>cr_updated := True\<rparr>" for b
    using looks [unfolded looked_at_def, rule_format, of b] by auto
  then show ?thesis by (simp add: looked_at_def)
qed

lemma looked_at_then_taken: "looked_at h h1 \<Longrightarrow> taken_from h1 found h2 \<Longrightarrow> taken_from h found h2"
proof (cases found)
  case (Some a)
  assume "looked_at h h1" and t: "taken_from h1 found h2"
  then have "looked_at h (h1(a := h a))" by (auto simp: looked_at_def)
  moreover have "looked_at (h1(a := h a)) (h2(a := h a))"
  proof -
    have "looked_at h1 (h2(a := h1 a))" using t Some by (simp add: taken_from_def)
    then have "(h2(a := h a)) b = (h1(a := h a)) b \<or> (h2(a := h a)) b = ((h1(a := h a)) b)\<lparr>cr_updated := True\<rparr>" for b
      unfolding looked_at_def by (cases "b = a") (auto dest: spec [of _ b])
    then show ?thesis by (simp add: looked_at_def)
  qed
  moreover have "identity_of (h1 a) = identity_of (h a) \<and> cr_force_stop (h1 a) = cr_force_stop (h a)"
    using \<open>looked_at h h1\<close> [unfolded looked_at_def, rule_format, of a] by (auto simp: identity_of_def)
  ultimately show ?thesis using t Some looked_at_trans [of h "h1(a := h a)"] by (simp add: taken_from_def)
qed (auto simp: taken_from_def intro: looked_at_trans)

lemma visit_unready:
  assumes "\<not> cr_lock r" and "\<not> awake t r"
  defines "r' \<equiv> cr_release (snd (update_state t (r\<lparr>cr_lock := True\<rparr>)))"
  shows "r' = r \<or> r' = r\<lparr>cr_updated := True\<rparr>" and "\<not> awake t r'" and "\<not> cr_lock r'"
  using assms by (cases "cr_state r"; simp add: update_state_def awake_def cr_release_def Let_def)+

lemma visit_ready:
  assumes "awake t r"
  defines "r' \<equiv> snd (update_state t (r\<lparr>cr_lock := True\<rparr>))"
  shows "cr_lock r'" "cr_state r' = READY" "identity_of r' = identity_of r" "cr_force_stop r' = cr_force_stop r"
  using assms by (cases "cr_state r"; simp add: update_state_def awake_def identity_of_def Let_def)+

lemma scan_queue_laws:
  assumes "scan_queue now q h = (found, h')"
  shows "found = find (runnable now h) q \<and> taken_from h found h' \<and> (found = None \<longrightarrow> runnable now h' = runnable now h)"
  using assms
proof (induction q arbitrary: h)
  case Nil
  then show ?case by (simp add: taken_from_def)
next
  case (Cons a q)
  let ?r = "(h a)\<lparr>cr_lock := True\<rparr>"
  consider "cr_lock (h a)" | "\<not> cr_lock (h a)" "awake (now a) (h a)" | "\<not> cr_lock (h a)" "\<not> awake (now a) (h a)" by blast
  then show ?case
  proof cases
    case 1
    then have "h(a := ?r) = h" by (auto simp: fun_eq_iff)
    with 1 Cons show ?thesis by (simp add: cr_acquire_def runnable_def)
  next
    case 2
    then have ready: "fst (update_state (now a) ?r) = READY" by (simp add: update_state_ready awake_def cong: routine_state.case_cong)
    have "found = Some a" "h' = h(a := snd (update_state (now a) ?r))"
      using Cons.prems 2(1) ready by (simp_all add: cr_acquire_def case_prod_beta)
    moreover have "h(a := v, a := h a) = h" for v by simp
    ultimately show ?thesis using 2 visit_ready [OF 2(2)] by (simp add: runnable_def taken_from_def del: fun_upd_apply) simp
  next
    case 3
    let ?h = "h(a := cr_release (snd (update_state (now a) ?r)))"
    have "fst (update_state (now a) ?r) \<noteq> READY" using 3 by (simp add: update_state_ready awake_def cong: routine_state.case_cong)
    then have rest: "scan_queue now q ?h = (found, h')"
      using Cons.prems 3(1) by (simp add: cr_acquire_def case_prod_beta)
    have same: "runnable now ?h = runnable now h" using visit_unready [OF 3] 3 by (auto simp: runnable_def fun_eq_iff)
    have "looked_at h ?h" using visit_unready(1) [OF 3] by (auto simp: looked_at_def)
    then have "taken_from h found h'" using Cons.IH [OF rest] looked_at_then_taken by blast
    moreover have "\<not> runnable now h a" using 3 by (simp add: runnable_def)
    ultimately show ?thesis using Cons.IH [OF rest] unfolding same by simp
  qed
qed

lemma find_append: "find P (xs @ ys) = (case find P xs of None \<Rightarrow> find P ys | Some x \<Rightarrow> Some x)"
  by (induction xs) auto

lemma scan_priorities_laws:
  assumes "scan_priorities now rq n h = (found, h')"
  shows "found = find (runnable now h) (concat (map rq (rev [0..<n]))) \<and> taken_from h found h'"
  using assms
proof (induction n arbitrary: h)
  case 0
  then show ?case by (simp add: taken_from_def)
next
  case (Suc n)
  obtain f1 h1 where q: "scan_queue now (rq n) h = (f1, h1)" by (cases "scan_queue now (rq n) h")
  note laws = scan_queue_laws [OF q]
  show ?case
  proof (cases f1)
    case None
    then have "scan_priorities now rq n h1 = (found, h')" using Suc.prems q by simp
    with Suc.IH [OF this] laws None show ?thesis
      by (auto simp: find_append taken_from_def [of _ None] intro: looked_at_then_taken)
  next
    case (Some a)
    then have "found = f1" "h' = h1" using Suc.prems q by simp_all
    with laws Some show ?thesis by (auto simp: find_append split: option.split)
  qed
qed

lemma next_routine_laws:
  assumes "next_routine now ctx s = (found, t)"
  shows "found = (if cx_stop ctx then None
      else find (runnable now (sc_routines s)) (concat (map (sc_cr_group s (cx_current_grp ctx)) (rev [0..<20]))))"
    and "taken_from (sc_routines s) found (sc_routines t)" and "t = s\<lparr>sc_routines := sc_routines t\<rparr>"
proof -
  obtain f h where scan: "scan_priorities now (sc_cr_group s (cx_current_grp ctx)) 20 (sc_routines s) = (f, h)"
    by (cases "scan_priorities now (sc_cr_group s (cx_current_grp ctx)) 20 (sc_routines s)")
  note laws = scan_priorities_laws [OF scan, THEN conjunct1] scan_priorities_laws [OF scan, THEN conjunct2]
  have t: "(found, t) = (if cx_stop ctx then (None, s) else (f, s\<lparr>sc_routines := h\<rparr>))"
    using assms scan by (simp add: next_routine_def MAX_PRIO_def split: if_splits)
  show "found = (if cx_stop ctx then None
      else find (runnable now (sc_routines s)) (concat (map (sc_cr_group s (cx_current_grp ctx)) (rev [0..<20]))))"
    using t unfolding laws(1) by (auto split: if_splits)
  show "taken_from (sc_routines s) found (sc_routines t)"
    using t laws(2) by (auto simp: taken_from_def [of _ None] split: if_splits)
  show "t = s\<lparr>sc_routines := sc_routines t\<rparr>" using t by (auto split: if_splits)
qed

text \<open>C20. \<open>NextRoutine\<close> takes the first routine that nobody holds and that is ready, in the order of priorities from
  the highest and within one in the order of the queue; ready is also a sleeper whose time is over and a waiting
  routine that was notified. The routine taken is held and ready; of the others at most the flag is consumed.\<close>

theorem next_routine_takes_first_ready:
  "fst (next_routine now ctx s) = (if cx_stop ctx then None
     else find (runnable now (sc_routines s)) (concat (map (sc_cr_group s (cx_current_grp ctx)) (rev [0..<20])))) \<and>
   taken_from (sc_routines s) (fst (next_routine now ctx s)) (sc_routines (snd (next_routine now ctx s))) \<and>
   snd (next_routine now ctx s) = s\<lparr>sc_routines := sc_routines (snd (next_routine now ctx s))\<rparr>"
  using next_routine_laws [OF prod.collapse [symmetric]] by blast

end
