(* ===== verification/Blockers.thy ===== *)
theory Blockers
  imports Cmw_Prelude
begin

text \<open>
  Intra-process blockers (\<open>blocker/blocker.h\<close>, \<open>blocker_manager.h\<close>, \<open>blocker_manager.cpp\<close>): the bounded
  queue of the latest messages of a channel with its snapshot and its callbacks, and the manager that keeps one
  blocker per channel. A list stands for \<open>std::list\<close>, newest message first, and an association list for
  the \<open>unordered_map\<close> of callbacks, in the order the container iterates. The message type \<open>T\<close> of a
  \<open>Blocker<T>\<close> is a tag that the \<open>dynamic_pointer_cast\<close> of the manager compares. \<open>Notify\<close> yields the
  list of calls it makes, each a callback with its argument.
\<close>

section \<open>Blocker\<close>

record blocker_attr =
  ba_capacity :: u64
  ba_channel_name :: string

definition BlockerAttr :: "string \<Rightarrow> blocker_attr" where
  "BlockerAttr channel = \<lparr>ba_capacity = 10, ba_channel_name = channel\<rparr>"

definition BlockerAttr_cap :: "u64 \<Rightarrow> string \<Rightarrow> blocker_attr" where
  "BlockerAttr_cap cap channel = \<lparr>ba_capacity = cap, ba_channel_name = channel\<rparr>"

record ('t, 'm, 'c) blocker =
  bl_type :: 't
  bl_attr :: blocker_attr
  bl_observed :: "'m list"
  bl_published :: "'m list"
  bl_callbacks :: "(string \<times> 'c) list"

definition bl_new :: "'t \<Rightarrow> blocker_attr \<Rightarrow> ('t, 'm, 'c) blocker" where
  "bl_new t attr = \<lparr>bl_type = t, bl_attr = attr, bl_observed = [], bl_published = [], bl_callbacks = []\<rparr>"

definition bl_capacity :: "('t, 'm, 'c) blocker \<Rightarrow> u64" where
  "bl_capacity b = ba_capacity (bl_attr b)"

definition bl_channel_name :: "('t, 'm, 'c) blocker \<Rightarrow> string" where
  "bl_channel_name b = ba_channel_name (bl_attr b)"

text \<open>The loop \<open>while (size() > capacity) pop_back()\<close> of \<open>set_capacity\<close> and \<open>Enqueue\<close>.\<close>

function pop_back_beyond :: "nat \<Rightarrow> 'm list \<Rightarrow> 'm list" where
  "pop_back_beyond capacity q =
     (if capacity < length q then pop_back_beyond capacity (butlast q) else q)"
  by pat_completeness auto
termination by (relation "measure (\<lambda>(_, q). length q)") auto

declare pop_back_beyond.simps [simp del]

definition bl_enqueue :: "'m \<Rightarrow> ('t, 'm, 'c) blocker \<Rightarrow> ('t, 'm, 'c) blocker" where
  "bl_enqueue msg b =
     (if bl_capacity b = 0 then b
      else b\<lparr>bl_published := pop_back_beyond (unat (bl_capacity b)) (msg # bl_published b)\<rparr>)"

definition bl_notify :: "'m \<Rightarrow> ('t, 'm, 'c) blocker \<Rightarrow> ('c \<times> 'm) list" where
  "bl_notify msg b = map (\<lambda>item. (snd item, msg)) (bl_callbacks b)"

definition bl_publish :: "'m \<Rightarrow> ('t, 'm, 'c) blocker \<Rightarrow> ('t, 'm, 'c) blocker \<times> ('c \<times> 'm) list" where
  "bl_publish msg b = (let b1 = bl_enqueue msg b in (b1, bl_notify msg b1))"

definition bl_reset :: "('t, 'm, 'c) blocker \<Rightarrow> ('t, 'm, 'c) blocker" where
  "bl_reset b = b\<lparr>bl_observed := [], bl_published := [], bl_callbacks := []\<rparr>"

definition bl_clear_observed :: "('t, 'm, 'c) blocker \<Rightarrow> ('t, 'm, 'c) blocker" where
  "bl_clear_observed b = b\<lparr>bl_observed := []\<rparr>"

definition bl_clear_published :: "('t, 'm, 'c) blocker \<Rightarrow> ('t, 'm, 'c) blocker" where
  "bl_clear_published b = b\<lparr>bl_published := []\<rparr>"

definition bl_observe :: "('t, 'm, 'c) blocker \<Rightarrow> ('t, 'm, 'c) blocker" where
  "bl_observe b = b\<lparr>bl_observed := bl_published b\<rparr>"

definition bl_is_observed_empty :: "('t, 'm, 'c) blocker \<Rightarrow> bool" where
  "bl_is_observed_empty b \<longleftrightarrow> bl_observed b = []"

definition bl_is_published_empty :: "('t, 'm, 'c) blocker \<Rightarrow> bool" where
  "bl_is_published_empty b \<longleftrightarrow> bl_published b = []"

definition bl_subscribe :: "string \<Rightarrow> 'c \<Rightarrow> ('t, 'm, 'c) blocker \<Rightarrow> ('t, 'm, 'c) blocker \<times> bool" where
  "bl_subscribe callback_id callback b =
     (case map_of (bl_callbacks b) callback_id of
        Some _ \<Rightarrow> (b, False)
      | None \<Rightarrow> (b\<lparr>bl_callbacks := (callback_id, callback) # bl_callbacks b\<rparr>, True))"

definition bl_unsubscribe :: "string \<Rightarrow> ('t, 'm, 'c) blocker \<Rightarrow> ('t, 'm, 'c) blocker \<times> bool" where
  "bl_unsubscribe callback_id b =
     (b\<lparr>bl_callbacks := filter (\<lambda>item. fst item \<noteq> callback_id) (bl_callbacks b)\<rparr>,
      callback_id \<in> fst ` set (bl_callbacks b))"

definition bl_latest_observed_ptr :: "('t, 'm, 'c) blocker \<Rightarrow> 'm option" where
  "bl_latest_observed_ptr b = (case bl_observed b of [] \<Rightarrow> None | m # _ \<Rightarrow> Some m)"

text \<open>\<open>GetLatestObserved\<close> gives a default-constructed message where \<open>GetLatestObservedPtr\<close> gives null.\<close>

definition bl_latest_observed :: "'m \<Rightarrow> ('t, 'm, 'c) blocker \<Rightarrow> 'm" where
  "bl_latest_observed dummy b = (case bl_observed b of [] \<Rightarrow> dummy | m # _ \<Rightarrow> m)"

definition bl_oldest_observed_ptr :: "('t, 'm, 'c) blocker \<Rightarrow> 'm option" where
  "bl_oldest_observed_ptr b = (if bl_observed b = [] then None else Some (last (bl_observed b)))"

definition bl_latest_published_ptr :: "('t, 'm, 'c) blocker \<Rightarrow> 'm option" where
  "bl_latest_published_ptr b = (case bl_published b of [] \<Rightarrow> None | m # _ \<Rightarrow> Some m)"

definition bl_set_capacity :: "u64 \<Rightarrow> ('t, 'm, 'c) blocker \<Rightarrow> ('t, 'm, 'c) blocker" where
  "bl_set_capacity capacity b =
     b\<lparr>bl_attr := (bl_attr b)\<lparr>ba_capacity := capacity\<rparr>,
       bl_published := pop_back_beyond (unat capacity) (bl_published b)\<rparr>"

section \<open>Manager\<close>

type_synonym ('t, 'm, 'c) blocker_map = "string \<Rightarrow> ('t, 'm, 'c) blocker option"

text \<open>\<open>GetOrCreateBlocker<T>\<close>: null when the blocker of the channel is one of another message type.\<close>

definition get_or_create_blocker ::
  "'t \<Rightarrow> blocker_attr \<Rightarrow> ('t, 'm, 'c) blocker_map \<Rightarrow> ('t, 'm, 'c) blocker_map \<times> ('t, 'm, 'c) blocker option" where
  "get_or_create_blocker t attr bs =
     (case bs (ba_channel_name attr) of
        Some b \<Rightarrow> (bs, if bl_type b = t then Some b else None)
      | None \<Rightarrow> let b = bl_new t attr in (bs(ba_channel_name attr \<mapsto> b), Some b))"

definition get_blocker :: "'t \<Rightarrow> string \<Rightarrow> ('t, 'm, 'c) blocker_map \<Rightarrow> ('t, 'm, 'c) blocker option" where
  "get_blocker t channel_name bs =
     (case bs channel_name of
        Some b \<Rightarrow> if bl_type b = t then Some b else None
      | None \<Rightarrow> None)"

definition bm_publish ::
  "'t \<Rightarrow> string \<Rightarrow> 'm \<Rightarrow> ('t, 'm, 'c) blocker_map \<Rightarrow> ('t, 'm, 'c) blocker_map \<times> ('c \<times> 'm) list \<times> bool" where
  "bm_publish t channel_name msg bs =
     (case get_or_create_blocker t (BlockerAttr channel_name) bs of
        (bs1, None) \<Rightarrow> (bs1, [], False)
      | (bs1, Some b) \<Rightarrow>
          let (b1, calls) = bl_publish msg b in (bs1(channel_name \<mapsto> b1), calls, True))"

definition bm_subscribe ::
  "'t \<Rightarrow> string \<Rightarrow> u64 \<Rightarrow> string \<Rightarrow> 'c \<Rightarrow> ('t, 'm, 'c) blocker_map \<Rightarrow> ('t, 'm, 'c) blocker_map \<times> bool" where
  "bm_subscribe t channel_name capacity callback_id callback bs =
     (case get_or_create_blocker t (BlockerAttr_cap capacity channel_name) bs of
        (bs1, None) \<Rightarrow> (bs1, False)
      | (bs1, Some b) \<Rightarrow>
          let (b1, ok) = bl_subscribe callback_id callback b in (bs1(channel_name \<mapsto> b1), ok))"

definition bm_unsubscribe ::
  "'t \<Rightarrow> string \<Rightarrow> string \<Rightarrow> ('t, 'm, 'c) blocker_map \<Rightarrow> ('t, 'm, 'c) blocker_map \<times> bool" where
  "bm_unsubscribe t channel_name callback_id bs =
     (case get_blocker t channel_name bs of
        None \<Rightarrow> (bs, False)
      | Some b \<Rightarrow> let (b1, ok) = bl_unsubscribe callback_id b in (bs(channel_name \<mapsto> b1), ok))"

definition bm_observe :: "('t, 'm, 'c) blocker_map \<Rightarrow> ('t, 'm, 'c) blocker_map" where
  "bm_observe bs = (\<lambda>name. map_option bl_observe (bs name))"

text \<open>\<open>Reset\<close> also empties every blocker, which those who hold a pointer to one can still see.\<close>

definition bm_reset ::
  "('t, 'm, 'c) blocker_map \<Rightarrow> ('t, 'm, 'c) blocker_map \<times> ('t, 'm, 'c) blocker_map" where
  "bm_reset bs = (Map.empty, \<lambda>name. map_option bl_reset (bs name))"

lemma pop_back_beyond_take: "pop_back_beyond n q = take n q"
proof (induction n q rule: pop_back_beyond.induct)
  case (1 n q)
  show ?case
  proof (cases "n < length q")
    case True
    then have "take n (butlast q) = take n q" by (simp add: take_butlast)
    with 1 True show ?thesis by (subst pop_back_beyond.simps) simp
  qed (subst pop_back_beyond.simps, simp)
qed

section \<open>Runs of the manager\<close>

datatype ('t, 'm, 'c) blocker_op =
    Publish 't string 'm
  | Subscribe 't string u64 string 'c
  | Unsubscribe 't string string
  | Observe
  | Reset

fun blocker_step :: "('t, 'm, 'c) blocker_op \<Rightarrow> ('t, 'm, 'c) blocker_map \<Rightarrow> ('t, 'm, 'c) blocker_map" where
  "blocker_step (Publish t ch m) bs = fst (bm_publish t ch m bs)"
| "blocker_step (Subscribe t ch cap i c) bs = fst (bm_subscribe t ch cap i c bs)"
| "blocker_step (Unsubscribe t ch i) bs = fst (bm_unsubscribe t ch i bs)"
| "blocker_step Observe bs = bm_observe bs"
| "blocker_step Reset bs = fst (bm_reset bs)"

definition run_blockers :: "('t, 'm, 'c) blocker_op list \<Rightarrow> ('t, 'm, 'c) blocker_map" where
  "run_blockers ops = fold blocker_step ops Map.empty"

text \<open>
  The specification reads the history of calls. Only those since the last \<open>Reset\<close> matter; the first one that
  names the channel fixes the message type and the capacity; the messages of a channel are those published
  with that type; the callback of an id is the one first given after the last \<open>Unsubscribe\<close> of it.
\<close>

definition since_reset :: "('t, 'm, 'c) blocker_op list \<Rightarrow> ('t, 'm, 'c) blocker_op list" where
  "since_reset ops = rev (takeWhile (\<lambda>oper. oper \<noteq> Reset) (rev ops))"

fun founds :: "string \<Rightarrow> ('t, 'm, 'c) blocker_op \<Rightarrow> ('t \<times> u64) option" where
  "founds ch (Publish t c _) = (if c = ch then Some (t, 10) else None)"
| "founds ch (Subscribe t c cap _ _) = (if c = ch then Some (t, cap) else None)"
| "founds ch _ = None"

definition founded :: "string \<Rightarrow> ('t, 'm, 'c) blocker_op list \<Rightarrow> ('t \<times> u64) option" where
  "founded ch ops = (case List.map_filter (founds ch) ops of [] \<Rightarrow> None | f # _ \<Rightarrow> Some f)"

fun message_of :: "'t \<Rightarrow> string \<Rightarrow> ('t, 'm, 'c) blocker_op \<Rightarrow> 'm option" where
  "message_of t ch (Publish t' c m) = (if t' = t \<and> c = ch then Some m else None)"
| "message_of t ch _ = None"

definition messages :: "'t \<Rightarrow> string \<Rightarrow> ('t, 'm, 'c) blocker_op list \<Rightarrow> 'm list" where
  "messages t ch ops = List.map_filter (message_of t ch) ops"

definition until_observe :: "('t, 'm, 'c) blocker_op list \<Rightarrow> ('t, 'm, 'c) blocker_op list" where
  "until_observe ops = rev (dropWhile (\<lambda>oper. oper \<noteq> Observe) (rev ops))"

definition newest :: "u64 \<Rightarrow> 'm list \<Rightarrow> 'm list" where
  "newest cap ms = take (unat cap) (rev ms)"

definition since_unsubscribe ::
  "'t \<Rightarrow> string \<Rightarrow> string \<Rightarrow> ('t, 'm, 'c) blocker_op list \<Rightarrow> ('t, 'm, 'c) blocker_op list" where
  "since_unsubscribe t ch i ops = rev (takeWhile (\<lambda>oper. oper \<noteq> Unsubscribe t ch i) (rev ops))"

fun callback_of :: "'t \<Rightarrow> string \<Rightarrow> string \<Rightarrow> ('t, 'm, 'c) blocker_op \<Rightarrow> 'c option" where
  "callback_of t ch i (Subscribe t' c _ i' f) = (if t' = t \<and> c = ch \<and> i' = i then Some f else None)"
| "callback_of t ch i _ = None"

definition live_callback :: "'t \<Rightarrow> string \<Rightarrow> string \<Rightarrow> ('t, 'm, 'c) blocker_op list \<Rightarrow> 'c option" where
  "live_callback t ch i ops =
     (case List.map_filter (callback_of t ch i) (since_unsubscribe t ch i ops) of
        [] \<Rightarrow> None | f # _ \<Rightarrow> Some f)"

text \<open>What the blocker of a channel has to be after a history without \<open>Reset\<close>.\<close>

definition holds_history ::
  "('t, 'm, 'c) blocker_op list \<Rightarrow> string \<Rightarrow> ('t, 'm, 'c) blocker option \<Rightarrow> bool" where
  "holds_history h ch entry \<longleftrightarrow>
     (case founded ch h of
        None \<Rightarrow> entry = None
      | Some (t, cap) \<Rightarrow>
          (case entry of
             None \<Rightarrow> False
           | Some b \<Rightarrow>
               bl_type b = t \<and> bl_attr b = BlockerAttr_cap cap ch \<and>
               bl_published b = newest cap (messages t ch h) \<and>
               bl_observed b = newest cap (messages t ch (until_observe h)) \<and>
               distinct (map fst (bl_callbacks b)) \<and>
               map_of (bl_callbacks b) = (\<lambda>i. live_callback t ch i h)))"

lemma since_reset_snoc [simp]:
  "since_reset [] = []"
  "since_reset (h @ [x]) = (if x = Reset then [] else since_reset h @ [x])"
  by (simp_all add: since_reset_def)

lemma founded_snoc:
  "founded ch (h @ [x]) = (case founded ch h of None \<Rightarrow> founds ch x | Some f \<Rightarrow> Some f)"
  by (cases "founds ch x") (auto simp: founded_def map_filter_def split: list.split)

lemma messages_snoc [simp]:
  "messages t ch [] = []"
  "messages t ch (h @ [x]) = messages t ch h @ (case message_of t ch x of None \<Rightarrow> [] | Some m \<Rightarrow> [m])"
  by (simp_all add: messages_def map_filter_def split: option.split)

lemma until_observe_snoc [simp]:
  "until_observe [] = []"
  "until_observe (h @ [x]) = (if x = Observe then h @ [x] else until_observe h)"
  by (simp_all add: until_observe_def)

lemma live_callback_snoc:
  "live_callback t ch i (h @ [x]) =
     (if x = Unsubscribe t ch i then None
      else case live_callback t ch i h of None \<Rightarrow> callback_of t ch i x | Some f \<Rightarrow> Some f)"
  by (cases "callback_of t ch i x"; cases "x = Unsubscribe t ch i")
    (auto simp: live_callback_def since_unsubscribe_def map_filter_def split: list.split)

lemma newest_snoc [simp]:
  "newest cap [] = []"
  "newest cap (ms @ [m]) = take (unat cap) (m # newest cap ms)"
proof -
  show "newest cap [] = []" by (simp add: newest_def)
  show "newest cap (ms @ [m]) = take (unat cap) (m # newest cap ms)"
    by (cases "unat cap") (simp_all add: newest_def)
qed

lemma not_founded:
  assumes "founded ch h = None"
  shows "messages t ch h = []" and "live_callback t ch i h = None"
    and "messages t ch (until_observe h) = []"
  using assms
proof (induction h rule: rev_induct)
  case Nil
  { case 1 show ?case by simp next case 2 show ?case by (simp add: live_callback_def since_unsubscribe_def map_filter_def)
    next case 3 show ?case by simp }
next
  case (snoc x h)
  { case 1 with snoc show ?case
      by (cases x) (auto simp: founded_snoc split: option.splits if_splits)
  next
    case 2 with snoc show ?case
      by (cases x) (auto simp: founded_snoc live_callback_snoc split: option.splits if_splits)
  next
    case 3 with snoc show ?case
      by (cases x) (auto simp: founded_snoc split: option.splits if_splits) }
qed

lemma bl_publish_simps:
  "bl_publish m b =
     (b\<lparr>bl_published := take (unat (bl_capacity b)) (m # bl_published b)\<rparr>,
      map (\<lambda>item. (snd item, m)) (bl_callbacks b))" if "length (bl_published b) \<le> unat (bl_capacity b)"
  using that
  by (auto simp: bl_publish_def bl_enqueue_def bl_notify_def pop_back_beyond_take Let_def)

lemma map_of_filter_key: "map_of (filter (\<lambda>item. fst item \<noteq> k) xs) = (map_of xs)(k := None)"
  by (induction xs) (auto simp: fun_eq_iff)

lemma distinct_filter_key: "distinct (map fst xs) \<Longrightarrow> distinct (map fst (filter P xs))"
  by (induction xs) auto

lemma length_newest: "length (newest cap ms) \<le> unat cap"
  by (simp add: newest_def)

lemma founded_publish:
  assumes "holds_history h ch (bs ch)"
  shows "holds_history (h @ [Publish t ch m]) ch (blocker_step (Publish t ch m) bs ch)"
proof (cases "founded ch h")
  case None
  with assms have "bs ch = None" by (simp add: holds_history_def)
  with None not_founded [OF None] show ?thesis
    by (simp add: holds_history_def founded_snoc bm_publish_def get_or_create_blocker_def
        bl_new_def bl_publish_simps BlockerAttr_def BlockerAttr_cap_def bl_capacity_def live_callback_snoc fun_eq_iff
        newest_snoc(2) [where ms = "[]", simplified] Let_def)
next
  case (Some f)
  with assms obtain b where b: "bs ch = Some b" by (cases f) (auto simp: holds_history_def split: option.splits)
  with assms Some have "length (bl_published b) \<le> unat (bl_capacity b)"
    by (cases f) (simp add: holds_history_def bl_capacity_def BlockerAttr_cap_def length_newest)
  with assms Some b show ?thesis
    by (cases f) (auto simp: holds_history_def founded_snoc bm_publish_def get_or_create_blocker_def
        bl_publish_simps BlockerAttr_def BlockerAttr_cap_def bl_capacity_def live_callback_snoc fun_eq_iff
        split: option.split)
qed

lemma founded_subscribe:
  assumes "holds_history h ch (bs ch)"
  shows "holds_history (h @ [Subscribe t ch cap i c]) ch (blocker_step (Subscribe t ch cap i c) bs ch)"
proof (cases "founded ch h")
  case None
  with assms have "bs ch = None" by (simp add: holds_history_def)
  with None not_founded [OF None] show ?thesis
    by (auto simp: holds_history_def founded_snoc bm_subscribe_def get_or_create_blocker_def
        bl_new_def bl_subscribe_def BlockerAttr_cap_def live_callback_snoc fun_eq_iff Let_def)
next
  case (Some f)
  with assms obtain b where "bs ch = Some b" by (cases f) (auto simp: holds_history_def split: option.splits)
  moreover have "i \<notin> fst ` set (bl_callbacks b)" if "map_of (bl_callbacks b) i = None"
    using that by (simp add: map_of_eq_None_iff)
  ultimately show ?thesis
    using assms Some
    by (cases f) (auto simp: holds_history_def founded_snoc bm_subscribe_def get_or_create_blocker_def
        bl_subscribe_def BlockerAttr_cap_def live_callback_snoc fun_eq_iff Let_def
        split: option.split)
qed

lemma founded_unsubscribe:
  assumes "holds_history h ch (bs ch)"
  shows "holds_history (h @ [Unsubscribe t ch i]) ch (blocker_step (Unsubscribe t ch i) bs ch)"
  using assms
  by (auto simp: holds_history_def founded_snoc bm_unsubscribe_def get_blocker_def bl_unsubscribe_def
      live_callback_snoc map_of_filter_key distinct_filter_key fun_eq_iff split: option.splits)

lemma founded_observe:
  assumes "holds_history h ch (bs ch)"
  shows "holds_history (h @ [Observe]) ch (blocker_step Observe bs ch)"
  using assms
  by (auto simp: holds_history_def founded_snoc bm_observe_def bl_observe_def live_callback_snoc fun_eq_iff
      split: option.splits)

text \<open>An operation on another channel is invisible to a channel.\<close>

fun channel_of :: "('t, 'm, 'c) blocker_op \<Rightarrow> string option" where
  "channel_of (Publish _ c _) = Some c"
| "channel_of (Subscribe _ c _ _ _) = Some c"
| "channel_of (Unsubscribe _ c _) = Some c"
| "channel_of _ = None"

lemma founded_other:
  assumes "holds_history h ch (bs ch)" and x: "channel_of x = Some c" "c \<noteq> ch"
  shows "holds_history (h @ [x]) ch (blocker_step x bs ch)"
proof -
  from x have "founds ch x = None" and "\<And>t. message_of t ch x = None" and "x \<noteq> Observe"
    and "\<And>t i. x \<noteq> Unsubscribe t ch i" and "\<And>t i. callback_of t ch i x = None"
    by (cases x; auto)+
  moreover from x have "blocker_step x bs ch = bs ch"
    by (cases x) (auto simp: bm_publish_def bm_subscribe_def bm_unsubscribe_def get_or_create_blocker_def
        get_blocker_def BlockerAttr_def BlockerAttr_cap_def Let_def split: option.split prod.split)
  ultimately show ?thesis
    using assms(1)
    by (auto simp: holds_history_def founded_snoc live_callback_snoc fun_eq_iff split: option.splits)
qed

lemma blocker_step_holds:
  assumes "holds_history (since_reset ops) ch (bs ch)"
  shows "holds_history (since_reset (ops @ [x])) ch (blocker_step x bs ch)"
proof (cases x)
  case Reset
  then show ?thesis by (simp add: holds_history_def bm_reset_def founded_def map_filter_def)
next
  case Observe
  with founded_observe [where bs = bs, OF assms] show ?thesis by simp
next
  case (Publish t c m)
  with founded_publish [where bs = bs, OF assms] founded_other [where bs = bs, OF assms, of x c] show ?thesis by (cases "c = ch") auto
next
  case (Subscribe t c cap i f)
  with founded_subscribe [where bs = bs, OF assms] founded_other [where bs = bs, OF assms, of x c] show ?thesis by (cases "c = ch") auto
next
  case (Unsubscribe t c i)
  with founded_unsubscribe [where bs = bs, OF assms] founded_other [where bs = bs, OF assms, of x c] show ?thesis by (cases "c = ch") auto
qed

lemma run_blockers_hold: "holds_history (since_reset ops) ch (run_blockers ops ch)"
proof (induction ops rule: rev_induct)
  case Nil
  show ?case by (simp add: run_blockers_def holds_history_def founded_def map_filter_def)
next
  case (snoc x ops)
  from blocker_step_holds [where bs = "run_blockers ops", OF this, of x] show ?case by (simp add: run_blockers_def)
qed

section \<open>Properties\<close>

lemma publish_calls:
  fixes h :: "('t, 'm, 'c) blocker_op list"
  assumes holds: "holds_history h ch (bs ch)"
    and res: "bm_publish t ch m bs = (bs1, calls, ok)"
  shows "ok = (case founded ch h of None \<Rightarrow> True | Some (t1, _) \<Rightarrow> t1 = t)"
    and "\<exists>ids. distinct ids \<and> set ids = {i. ok \<and> live_callback t ch i h \<noteq> None} \<and>
      calls = map (\<lambda>i. (the (live_callback t ch i h), m)) ids"
proof -
  show ok: "ok = (case founded ch h of None \<Rightarrow> True | Some (t1, _) \<Rightarrow> t1 = t)"
    using holds res
    by (auto simp: holds_history_def bm_publish_def get_or_create_blocker_def BlockerAttr_def Let_def
        split: option.splits if_splits prod.splits)
  show "\<exists>ids. distinct ids \<and> set ids = {i. ok \<and> live_callback t ch i h \<noteq> None} \<and>
      calls = map (\<lambda>i. (the (live_callback t ch i h), m)) ids"
  proof (cases "bs ch")
    case None
    with holds have "founded ch h = None" by (auto simp: holds_history_def split: option.splits)
    with None res not_founded [OF this] show ?thesis
      by (auto simp: bm_publish_def get_or_create_blocker_def BlockerAttr_def bl_publish_def bl_notify_def
          bl_enqueue_def bl_new_def Let_def)
  next
    case (Some b)
    with holds obtain cap where f: "founded ch h = Some (bl_type b, cap)"
      and d: "distinct (map fst (bl_callbacks b))"
      and live: "map_of (bl_callbacks b) = (\<lambda>i. live_callback (bl_type b) ch i h)"
      by (auto simp: holds_history_def split: option.splits)
    show ?thesis
    proof (cases "bl_type b = t")
      case True
      with res Some have "calls = map (\<lambda>item. (snd item, m)) (bl_callbacks b)"
        by (auto simp: bm_publish_def get_or_create_blocker_def BlockerAttr_def bl_publish_def bl_notify_def
            bl_enqueue_def Let_def split: if_splits)
      also have "\<dots> = map (\<lambda>i. (the (live_callback t ch i h), m)) (map fst (bl_callbacks b))"
        using map_of_is_SomeI [OF d] by (auto simp: True [symmetric] fun_cong [OF live, symmetric])
      finally have "calls = map (\<lambda>i. (the (live_callback t ch i h), m)) (map fst (bl_callbacks b))" .
      moreover have "set (map fst (bl_callbacks b)) = {i. ok \<and> live_callback t ch i h \<noteq> None}"
        using ok f True by (auto simp: weak_map_of_SomeI dom_map_of_conv_image_fst [symmetric] live)
      ultimately show ?thesis using d by blast
    next
      case False
      with res Some have "calls = []"
        by (auto simp: bm_publish_def get_or_create_blocker_def BlockerAttr_def)
      with ok f False show ?thesis by (intro exI [of _ "[]"]) simp
    qed
  qed
qed

text \<open>C23. Whatever was called on the blocker manager before, the blocker of a channel is what the calls since
  the last \<open>Reset\<close> make it: its type and capacity are those of the first call that named the channel, the
  published queue holds the latest messages up to the capacity, newest first, and the observed queue the
  latest messages at the time of the last \<open>Observe\<close>. A publication succeeds unless the channel has another
  message type, and then calls the callback of every live subscription exactly once with the message.\<close>
theorem blockers_replay_history:
  fixes ops :: "('t, 'm, 'c) blocker_op list"
  shows "holds_history (since_reset ops) ch (run_blockers ops ch) \<and>
    (case bm_publish t ch m (run_blockers ops) of (_, calls, ok) \<Rightarrow>
      ok = (case founded ch (since_reset ops) of None \<Rightarrow> True | Some (t1, _) \<Rightarrow> t1 = t) \<and>
      (\<exists>ids. distinct ids \<and> set ids = {i. ok \<and> live_callback t ch i (since_reset ops) \<noteq> None} \<and>
        calls = map (\<lambda>i. (the (live_callback t ch i (since_reset ops)), m)) ids))"
proof -
  note holds = run_blockers_hold [of ops ch]
  obtain bs1 calls ok where res: "bm_publish t ch m (run_blockers ops) = (bs1, calls, ok)"
    by (metis prod_cases3)
  from publish_calls [where bs = "run_blockers ops", OF holds res] holds res show ?thesis by simp
qed

end
