(* ===== verification/Node_Channel.thy ===== *)
theory Node_Channel
  imports Rtps_Transport Discovery_Managers Scheduler_Classic Channel_Data Blockers
begin

text \<open>
  The objects a user of the library works with: \<open>node/publisher.h\<close>, \<open>node/subscriber.h\<close>,
  \<open>node/subscriber_base.h\<close> (the receivers), \<open>node/node_channel_impl.h\<close> and \<open>node/node.h\<close>. They tie the
  other components together, so the state is that of a process: the name registries, the two managers of
  the topology, the scheduler, the RTPS dispatcher, the data layer, and the publishers and subscribers by
  address. The slots of the channel manager's signal are the live connections in their order, which is
  what the signal is proved to promise. A message is the bytes \<open>DataStream\<close> makes of it. A result is
  \<open>None\<close> when the call does not return.
\<close>

section \<open>State\<close>

type_synonym 'a result = "(ub + 'a) option"

definition rbind :: "'a result \<Rightarrow> ('a \<Rightarrow> 'b result) \<Rightarrow> 'b result" where
  "rbind m f = Option.bind m (\<lambda>r. case r of Inl e \<Rightarrow> Some (Inl e) | Inr x \<Rightarrow> f x)"

text \<open>The hash functions and the byte order do not change.\<close>

record platform =
  pf_hash :: "byte list \<Rightarrow> u64"
  pf_name_hash :: "string \<Rightarrow> u64"
  pf_order :: byte_order

datatype change_slot = Sub_slot nat | Pub_slot nat

text \<open>A receiver calls \<open>DataDispatcher<MessageT>::Dispatch\<close> with the id of its channel.\<close>

type_synonym data_listener = "nat \<times> u64"
type_synonym call_log = "(data_listener, rtps_message) log"

record subscriber =
  su_type :: nat
  su_attr :: role_attributes
  su_init :: bool
  su_callback :: "nat option"
  su_pending :: u32
  su_blocker :: "(nat, byte list, nat) blocker"
  su_croutine_name :: string
  su_receiver :: bool
  su_visitor :: "visitor option"

record publisher =
  pb_type :: nat
  pb_attr :: role_attributes
  pb_init :: bool
  pb_transmitter :: "rtps_transmitter option"

record process =
  pr_global :: global_data
  pr_node_mgr :: node_manager
  pr_channel_mgr :: channel_manager
  pr_slots :: "change_slot list"
  pr_scheduler :: scheduler
  pr_transport_shutdown :: bool
  pr_dispatcher :: "(data_listener, call_log) rtps_dispatcher"
  pr_receivers :: "nat \<times> string \<Rightarrow> data_listener rtps_receiver option option"
  pr_data :: "byte list data_sys"
  pr_subs :: "nat \<Rightarrow> subscriber option"
  pr_pubs :: "nat \<Rightarrow> publisher option"
  pr_next :: nat
  pr_sent :: "rtps_change list"
  pr_called :: "(nat \<times> byte list) list"

section \<open>Topology changes\<close>

text \<open>\<open>Subscriber::OnChannelChange\<close>; all subscribers of a channel and message type share one receiver.\<close>

definition sub_on_channel_change :: "platform \<Rightarrow> outside \<Rightarrow> change_msg \<Rightarrow> nat \<Rightarrow> process \<Rightarrow> ub + process" where
  "sub_on_channel_change pf ou msg i p =
     (case pr_subs p i of None \<Rightarrow> Inl NullPointer
      | Some su \<Rightarrow>
          if cm_role_type msg \<noteq> ROLE_WRITER then Inr p
          else if ra_channel_name (cm_role_attr msg) \<noteq> ra_channel_name (su_attr su) then Inr p
          else case pr_receivers p (su_type su, ra_channel_name (su_attr su)) of
            Some (Some rv) \<Rightarrow>
              if cm_operate_type msg = OPT_JOIN
              then map_sum id (\<lambda>d. p\<lparr>pr_dispatcher := d\<rparr>)
                (rtps_receiver_enable_to (pf_hash pf) ou ([], []) (cm_role_attr msg) rv (pr_dispatcher p))
              else Inr (p\<lparr>pr_dispatcher := rtps_receiver_disable_to (cm_role_attr msg) rv (pr_dispatcher p)\<rparr>)
          | _ \<Rightarrow> Inl NullPointer)"

definition publisher_change :: "outside \<Rightarrow> change_msg \<Rightarrow> publisher \<Rightarrow> ub + publisher" where
  "publisher_change ou msg pb =
     (if cm_role_type msg \<noteq> ROLE_READER then Inr pb
      else if ra_channel_name (cm_role_attr msg) \<noteq> ra_channel_name (pb_attr pb) then Inr pb
      else case pb_transmitter pb of None \<Rightarrow> Inl NullPointer
        | Some tr \<Rightarrow>
            if cm_operate_type msg = OPT_JOIN
            then map_sum id (\<lambda>tr1. pb\<lparr>pb_transmitter := Some tr1\<rparr>) (transmitter_enable_to ou (cm_role_attr msg) tr)
            else Inr (pb\<lparr>pb_transmitter := Some (transmitter_disable_to (cm_role_attr msg) tr)\<rparr>))"

definition pub_on_channel_change :: "outside \<Rightarrow> change_msg \<Rightarrow> nat \<Rightarrow> process \<Rightarrow> ub + process" where
  "pub_on_channel_change ou msg i p =
     (case pr_pubs p i of None \<Rightarrow> Inl NullPointer
      | Some pb \<Rightarrow> map_sum id (\<lambda>pb1. p\<lparr>pr_pubs := (pr_pubs p)(i \<mapsto> pb1)\<rparr>) (publisher_change ou msg pb))"

fun run_slot :: "platform \<Rightarrow> outside \<Rightarrow> change_msg \<Rightarrow> change_slot \<Rightarrow> process \<Rightarrow> ub + process" where
  "run_slot pf ou msg (Sub_slot i) p = sub_on_channel_change pf ou msg i p"
| "run_slot pf ou msg (Pub_slot i) p = pub_on_channel_change ou msg i p"

fun run_slots :: "platform \<Rightarrow> outside \<Rightarrow> change_msg \<Rightarrow> change_slot list \<Rightarrow> process \<Rightarrow> ub + process" where
  "run_slots pf ou msg [] p = Inr p"
| "run_slots pf ou msg (s # ss) p = sbind (run_slot pf ou msg s p) (run_slots pf ou msg ss)"

fun run_changes :: "platform \<Rightarrow> outside \<Rightarrow> change_msg list \<Rightarrow> process \<Rightarrow> ub + process" where
  "run_changes pf ou [] p = Inr p"
| "run_changes pf ou (msg # msgs) p = sbind (run_slots pf ou msg (pr_slots p) p) (run_changes pf ou msgs)"

text \<open>
  An operation of the channel manager with the slots of its signal: what it emitted is run through them. They
  do not touch the manager, so running them after \<open>Write\<close> instead of before makes no difference.
\<close>

definition with_changes :: "platform \<Rightarrow> outside \<Rightarrow> ub + bool \<times> channel_manager \<Rightarrow> process \<Rightarrow> ub + bool \<times> process" where
  "with_changes pf ou res p =
     sbind res (\<lambda>(ok, m). map_sum id (\<lambda>p1. (ok, p1))
       (run_changes pf ou (drop (length (mg_emitted (pr_channel_mgr p))) (mg_emitted m)) (p\<lparr>pr_channel_mgr := m\<rparr>)))"

definition channel_join :: "platform \<Rightarrow> outside \<Rightarrow> role_attributes \<Rightarrow> role_type \<Rightarrow> process \<Rightarrow> ub + bool \<times> process" where
  "channel_join pf ou attr role p = with_changes pf ou
     (manager_join (pf_order pf) channel_check channel_dispose (ou_now ou) attr role True (pr_channel_mgr p)) p"

definition channel_leave :: "platform \<Rightarrow> outside \<Rightarrow> role_attributes \<Rightarrow> role_type \<Rightarrow> process \<Rightarrow> ub + bool \<times> process" where
  "channel_leave pf ou attr role p = with_changes pf ou
     (manager_leave (pf_order pf) channel_check channel_dispose (ou_now ou) attr role (pr_channel_mgr p)) p"

text \<open>A topology message from another process; \<open>fresh\<close> is the message object before it is read.\<close>

definition channel_remote_change :: "platform \<Rightarrow> outside \<Rightarrow> change_msg \<Rightarrow> byte list \<Rightarrow> process \<Rightarrow> ub + bool \<times> process" where
  "channel_remote_change pf ou fresh str_msg p = with_changes pf ou
     (map_sum id (Pair True) (on_remote_change (pf_order pf) channel_check channel_dispose fresh str_msg (pr_channel_mgr p))) p"

section \<open>Subscriber\<close>

definition subscriber_new :: "nat \<Rightarrow> role_attributes \<Rightarrow> nat option \<Rightarrow> u32 \<Rightarrow> subscriber" where
  "subscriber_new typ role_attr callback pending_queue_size =
     \<lparr>su_type = typ, su_attr = role_attr, su_init = False, su_callback = callback, su_pending = pending_queue_size,
      su_blocker = bl_new typ (BlockerAttr_cap (ucast (q_depth (ra_qos role_attr))) (ra_channel_name role_attr)),
      su_croutine_name = '''', su_receiver = False, su_visitor = None\<rparr>"

definition put_sub :: "nat \<Rightarrow> subscriber \<Rightarrow> process \<Rightarrow> process" where
  "put_sub i su p = p\<lparr>pr_subs := (pr_subs p)(i \<mapsto> su)\<rparr>"

text \<open>\<open>ReceiverManager<MessageT>::GetReceiver\<close>; a null receiver is kept as well.\<close>

definition get_receiver :: "platform \<Rightarrow> outside \<Rightarrow> nat \<Rightarrow> role_attributes \<Rightarrow> process \<Rightarrow> ub + bool \<times> process" where
  "get_receiver pf ou typ role_attr p =
     (case pr_receivers p (typ, ra_channel_name role_attr) of
        Some r \<Rightarrow> Inr (r \<noteq> None, p)
      | None \<Rightarrow> map_sum id (\<lambda>(r, d). (r \<noteq> None, p\<lparr>pr_dispatcher := d,
            pr_receivers := (pr_receivers p)((typ, ra_channel_name role_attr) \<mapsto> r)\<rparr>))
          (create_receiver (pf_hash pf) ou ([], []) (gd_host_name (pr_global p)) (gd_process_id (pr_global p))
            (pr_transport_shutdown p) role_attr (typ, ra_channel_id role_attr) (pr_dispatcher p)))"

fun enable_writers :: "platform \<Rightarrow> outside \<Rightarrow> nat \<times> string \<Rightarrow> role_attributes list \<Rightarrow> process \<Rightarrow> ub + process" where
  "enable_writers pf ou key [] p = Inr p"
| "enable_writers pf ou key (w # ws) p =
     (case pr_receivers p key of
        Some (Some rv) \<Rightarrow> sbind (rtps_receiver_enable_to (pf_hash pf) ou ([], []) w rv (pr_dispatcher p))
          (\<lambda>d. enable_writers pf ou key ws (p\<lparr>pr_dispatcher := d\<rparr>))
      | _ \<Rightarrow> Inl NullPointer)"

definition sub_join_topology :: "platform \<Rightarrow> outside \<Rightarrow> nat \<Rightarrow> subscriber \<Rightarrow> process \<Rightarrow> process result" where
  "sub_join_topology pf ou i su p =
     (let p1 = p\<lparr>pr_slots := pr_slots p @ [Sub_slot i]\<rparr>; channel_name = ra_channel_name (su_attr su) in
      Option.bind (get_writers_of_channel (pf_name_hash pf) (pr_channel_mgr p1) channel_name [] (pr_global p1))
        (\<lambda>(publishers, g). Some (sbind (enable_writers pf ou (su_type su, channel_name) publishers (p1\<lparr>pr_global := g\<rparr>))
          (\<lambda>p2. map_sum id snd (channel_join pf ou (su_attr su) ROLE_READER p2)))))"

text \<open>
  \<open>Init\<close>: the visitor is made before the task, and destroyed with its buffer when the task cannot be made; its
  notifier stays registered. The two addresses are those of the buffer and the notifier.
\<close>

definition drop_buffer :: "visitor \<Rightarrow> process \<Rightarrow> process" where
  "drop_buffer v p = p\<lparr>pr_data := (pr_data p)\<lparr>sys_bufs := (sys_bufs (pr_data p))(v_buffer v := None)\<rparr>\<rparr>"

definition subscriber_init :: "platform \<Rightarrow> outside \<Rightarrow> nat \<Rightarrow> process \<Rightarrow> (bool \<times> process) result" where
  "subscriber_init pf ou i p =
     (case pr_subs p i of None \<Rightarrow> Some (Inl NullPointer)
      | Some su \<Rightarrow> if su_init su then Some (Inr (True, p))
      else let croutine_name = ra_node_name (su_attr su) @ ''_'' @ ra_channel_name (su_attr su);
          (v, data) = new_visitor \<lparr>vc_type = su_type su, vc_channel = ra_channel_id (su_attr su),
              vc_queue_size = unat (su_pending su)\<rparr> [] (pr_next p) [] (pr_next p + 1) 0 (pr_data p);
          su1 = su\<lparr>su_init := True, su_croutine_name := croutine_name\<rparr>;
          p1 = put_sub i su1 (p\<lparr>pr_data := data, pr_next := pr_next p + 2\<rparr>)
        in rbind (create_task (pf_name_hash pf) (uint (ou_now ou)) croutine_name (pr_scheduler p1, pr_global p1))
          (\<lambda>(ok, sched, g). let p2 = p1\<lparr>pr_scheduler := sched, pr_global := g\<rparr> in
            if \<not> ok then Some (Inr (False, drop_buffer v (put_sub i (su1\<lparr>su_init := False\<rparr>) p2)))
            else let task_id = cr_id (sc_routines sched (sc_next (pr_scheduler p1)));
                p3 = p2\<lparr>pr_data := register_notify_callback v (unat task_id) (pr_data p2)\<rparr>
              in rbind (Some (get_receiver pf ou (su_type su) (su_attr su) p3)) (\<lambda>(has, p4).
                let su2 = su1\<lparr>su_receiver := has, su_visitor := Some v\<rparr> in
                rbind (sub_join_topology pf ou i su2 (put_sub i su2 p4)) (\<lambda>p5. Some (Inr (True, p5))))))"

definition subscriber_shutdown :: "platform \<Rightarrow> outside \<Rightarrow> nat \<Rightarrow> process \<Rightarrow> process result" where
  "subscriber_shutdown pf ou i p =
     (case pr_subs p i of None \<Rightarrow> Some (Inl NullPointer)
      | Some su \<Rightarrow> if \<not> su_init su then Some (Inr p)
      else let p1 = put_sub i (su\<lparr>su_init := False\<rparr>) (p\<lparr>pr_slots := filter (\<lambda>s. s \<noteq> Sub_slot i) (pr_slots p)\<rparr>)
        in rbind (Some (channel_leave pf ou (su_attr su) ROLE_READER p1)) (\<lambda>(_, p2).
          let p3 = put_sub i (su\<lparr>su_init := False, su_receiver := False, su_visitor := None\<rparr>) p2 in
          if su_croutine_name su = '''' then Some (Inr p3)
          else Option.bind (remove_task (pf_name_hash pf) (su_croutine_name su) (pr_scheduler p3)) (\<lambda>(ok, sched).
            let p4 = p3\<lparr>pr_scheduler := sched\<rparr> in
            Some (Inr (if ok \<and> \<not> sc_stop sched then (case su_visitor su of Some v \<Rightarrow> drop_buffer v p4 | None \<Rightarrow> p4) else p4)))))"

text \<open>
  The function of the routine, called with a message the visitor fetched: \<open>Enqueue\<close>, then the user's callback.
  The queries are those of the blocker.
\<close>

definition subscriber_enqueue :: "byte list \<Rightarrow> subscriber \<Rightarrow> subscriber \<times> (nat \<times> byte list) list" where
  "subscriber_enqueue msg su = (let (b, calls) = bl_publish msg (su_blocker su) in (su\<lparr>su_blocker := b\<rparr>, calls))"

definition subscriber_func :: "byte list \<Rightarrow> subscriber \<Rightarrow> subscriber \<times> (nat \<times> byte list) list" where
  "subscriber_func msg su = (let (su1, calls) = subscriber_enqueue msg su in
     (su1, calls @ (case su_callback su of None \<Rightarrow> [] | Some c \<Rightarrow> [(c, msg)])))"

definition subscriber_observe :: "subscriber \<Rightarrow> subscriber" where
  "subscriber_observe su = su\<lparr>su_blocker := bl_observe (su_blocker su)\<rparr>"

definition subscriber_clear_data :: "subscriber \<Rightarrow> subscriber" where
  "subscriber_clear_data su = su\<lparr>su_blocker := bl_clear_observed (bl_clear_published (su_blocker su))\<rparr>"

definition subscriber_has_received :: "subscriber \<Rightarrow> bool" where
  "subscriber_has_received su \<longleftrightarrow> \<not> bl_is_published_empty (su_blocker su)"

definition subscriber_empty :: "subscriber \<Rightarrow> bool" where
  "subscriber_empty su = bl_is_observed_empty (su_blocker su)"

definition set_history_depth :: "u32 \<Rightarrow> subscriber \<Rightarrow> subscriber" where
  "set_history_depth depth su = su\<lparr>su_blocker := bl_set_capacity (ucast depth) (su_blocker su)\<rparr>"

definition get_history_depth :: "subscriber \<Rightarrow> u32" where
  "get_history_depth su = ucast (bl_capacity (su_blocker su))"

definition subscriber_latest_observed :: "subscriber \<Rightarrow> byte list option" where
  "subscriber_latest_observed su = bl_latest_observed_ptr (su_blocker su)"

definition subscriber_oldest_observed :: "subscriber \<Rightarrow> byte list option" where
  "subscriber_oldest_observed su = bl_oldest_observed_ptr (su_blocker su)"

section \<open>Publisher\<close>

definition publisher_new :: "nat \<Rightarrow> role_attributes \<Rightarrow> publisher" where
  "publisher_new typ role_attr = \<lparr>pb_type = typ, pb_attr = role_attr, pb_init = False, pb_transmitter = None\<rparr>"

definition put_pub :: "nat \<Rightarrow> publisher \<Rightarrow> process \<Rightarrow> process" where
  "put_pub i pb p = p\<lparr>pr_pubs := (pr_pubs p)(i \<mapsto> pb)\<rparr>"

definition publisher_init :: "platform \<Rightarrow> outside \<Rightarrow> nat \<Rightarrow> process \<Rightarrow> ub + bool \<times> process" where
  "publisher_init pf ou i p =
     (case pr_pubs p i of None \<Rightarrow> Inl NullPointer
      | Some pb \<Rightarrow> if pb_init pb then Inr (True, p)
      else sbind (create_transmitter (pf_hash pf) ou (gd_host_name (pr_global p)) (gd_process_id (pr_global p))
          (pr_transport_shutdown p) (pb_attr pb)) (\<lambda>t. case t of
        None \<Rightarrow> Inr (False, p)
      | Some tr \<Rightarrow> let pb1 = pb\<lparr>pb_init := True, pb_transmitter := Some tr,
            pb_attr := (pb_attr pb)\<lparr>ra_id := id_hash_value (ep_id (rt_endpoint tr))\<rparr>\<rparr>
          in map_sum id (\<lambda>(_, p1). (True, p1)) (channel_join pf ou (pb_attr pb1) ROLE_WRITER
            (put_pub i pb1 (p\<lparr>pr_slots := pr_slots p @ [Pub_slot i]\<rparr>)))))"

definition publisher_shutdown :: "platform \<Rightarrow> outside \<Rightarrow> nat \<Rightarrow> process \<Rightarrow> ub + process" where
  "publisher_shutdown pf ou i p =
     (case pr_pubs p i of None \<Rightarrow> Inl NullPointer
      | Some pb \<Rightarrow> if \<not> pb_init pb then Inr p
      else map_sum id (\<lambda>(_, p1). put_pub i (pb\<lparr>pb_init := False, pb_transmitter := None\<rparr>) p1)
        (channel_leave pf ou (pb_attr pb) ROLE_WRITER (put_pub i (pb\<lparr>pb_init := False\<rparr>)
          (p\<lparr>pr_slots := filter (\<lambda>s. s \<noteq> Pub_slot i) (pr_slots p)\<rparr>))))"

text \<open>\<open>Publish\<close>: \<open>None\<close> is the value of a function that ends without a \<open>return\<close>.\<close>

definition publisher_publish :: "outside \<Rightarrow> byte list \<Rightarrow> nat \<Rightarrow> process \<Rightarrow> ub + bool option \<times> process" where
  "publisher_publish ou payload i p =
     (case pr_pubs p i of None \<Rightarrow> Inl NullPointer
      | Some pb \<Rightarrow> if \<not> pb_init pb then Inr (Some False, p)
      else case pb_transmitter pb of None \<Rightarrow> Inl NullPointer
        | Some tr \<Rightarrow> map_sum id (\<lambda>(_, ch, tr1). (None, (put_pub i (pb\<lparr>pb_transmitter := Some tr1\<rparr>) p)
            \<lparr>pr_sent := pr_sent p @ (case ch of None \<Rightarrow> [] | Some c \<Rightarrow> [c])\<rparr>)) (rtps_transmit_next ou payload tr))"

definition publisher_has_subscriber :: "platform \<Rightarrow> nat \<Rightarrow> process \<Rightarrow> (bool \<times> process) result" where
  "publisher_has_subscriber pf i p =
     (case pr_pubs p i of None \<Rightarrow> Some (Inl NullPointer)
      | Some pb \<Rightarrow> if \<not> pb_init pb then Some (Inr (False, p))
      else map_option (\<lambda>(has, g). Inr (has, p\<lparr>pr_global := g\<rparr>))
        (has_reader (pf_name_hash pf) (ra_channel_name (pb_attr pb)) (pr_channel_mgr p) (pr_global p)))"

definition publisher_get_subscribers :: "platform \<Rightarrow> nat \<Rightarrow> role_attributes list \<Rightarrow> process \<Rightarrow>
    (role_attributes list \<times> process) result" where
  "publisher_get_subscribers pf i subscribers p =
     (case pr_pubs p i of None \<Rightarrow> Some (Inl NullPointer)
      | Some pb \<Rightarrow> if \<not> pb_init pb then Some (Inr (subscribers, p))
      else map_option (\<lambda>(rs, g). Inr (rs, p\<lparr>pr_global := g\<rparr>))
        (get_readers_of_channel (pf_name_hash pf) (pr_channel_mgr p) (ra_channel_name (pb_attr pb)) subscribers (pr_global p)))"

section \<open>From the network to the callback\<close>

text \<open>What the listeners of the dispatcher do with each call: dispatch the message, then wake the routines notified.\<close>

fun dispatch_calls :: "(data_listener \<times> rtps_message) list \<Rightarrow> process \<Rightarrow> process" where
  "dispatch_calls [] p = p"
| "dispatch_calls (((typ, channel_id), m) # cs) p =
     (let (_, data) = dispatch typ channel_id (fst m) (pr_data p);
          woken = drop (length (sys_log (pr_data p))) (sys_log data);
          sched = fold (\<lambda>t s. if sc_stop s then s else snd (notify_processor (of_nat t) s)) woken (pr_scheduler p)
      in dispatch_calls cs (p\<lparr>pr_data := data, pr_scheduler := sched\<rparr>))"

definition process_receive :: "platform \<Rightarrow> u64 \<Rightarrow> u32 \<times> u32 \<Rightarrow> rtps_change \<Rightarrow> process \<Rightarrow> ub + process" where
  "process_receive pf key seq ch p =
     map_sum id (\<lambda>(u, d). dispatch_calls (fst u) (p\<lparr>pr_dispatcher := d\<rparr>))
       (on_new_cache_change record_call (pf_hash pf) (pf_name_hash pf) key seq ch ([], []) (pr_dispatcher p))"

text \<open>One slice of the routine of a subscriber: \<open>TryFetch\<close> and, if there is a message, its function.\<close>

definition subscriber_slice :: "nat \<Rightarrow> process \<Rightarrow> process" where
  "subscriber_slice i p =
     (case pr_subs p i of None \<Rightarrow> p
      | Some su \<Rightarrow> (case su_visitor su of None \<Rightarrow> p
        | Some v \<Rightarrow> (case visitor_try_fetch v (pr_data p) of
            (True, v1, m # _) \<Rightarrow> (let (su1, calls) = subscriber_func m (su\<lparr>su_visitor := Some v1\<rparr>)
              in (put_sub i su1 p)\<lparr>pr_called := pr_called p @ calls\<rparr>)
          | (_, v1, _) \<Rightarrow> put_sub i (su\<lparr>su_visitor := Some v1\<rparr>) p)))"

end
