(* ===== verification/Node_Api.thy ===== *)
theory Node_Api
  imports Node_Channel
begin

text \<open>
  \<open>node/node_channel_impl.h\<close> and \<open>node/node.h\<close>: a node creates publishers and subscribers in its name.
  The message type of a template is a tag. A null pointer is \<open>None\<close>.
\<close>

section \<open>NodeChannelImpl\<close>

record subscriber_config =
  sbc_channel_name :: string
  sbc_qos_profile :: qos_profile
  sbc_pending_queue_size :: u32

text \<open>The constructor leaves \<open>pending_queue_size\<close> indeterminate.\<close>

definition SubscriberConfig :: "u32 \<Rightarrow> subscriber_config" where
  "SubscriberConfig junk = \<lparr>sbc_channel_name = '''', sbc_qos_profile = qos_default\<lparr>q_history := HISTORY_KEEP_LAST,
     q_depth := 1, q_mps := 0, q_reliability := RELIABILITY_RELIABLE, q_durability := DURABILITY_VOLATILE\<rparr>,
     sbc_pending_queue_size = junk\<rparr>"

definition DEFAULT_PENDING_QUEUE_SIZE :: u32 where "DEFAULT_PENDING_QUEUE_SIZE = 1"

record node_channel =
  nc_is_reality_mode :: bool
  nc_node_name :: string
  nc_node_attr :: role_attributes

definition node_join :: "platform \<Rightarrow> outside \<Rightarrow> role_attributes \<Rightarrow> process \<Rightarrow> ub + bool \<times> process" where
  "node_join pf ou attr p = map_sum id (\<lambda>(ok, m). (ok, p\<lparr>pr_node_mgr := m\<rparr>))
     (manager_join (pf_order pf) node_check node_dispose (ou_now ou) attr ROLE_NODE True (pr_node_mgr p))"

definition node_leave :: "platform \<Rightarrow> outside \<Rightarrow> role_attributes \<Rightarrow> process \<Rightarrow> ub + bool \<times> process" where
  "node_leave pf ou attr p = map_sum id (\<lambda>(ok, m). (ok, p\<lparr>pr_node_mgr := m\<rparr>))
     (manager_leave (pf_order pf) node_check node_dispose (ou_now ou) attr ROLE_NODE (pr_node_mgr p))"

definition node_channel_new :: "platform \<Rightarrow> outside \<Rightarrow> string \<Rightarrow> process \<Rightarrow> (node_channel \<times> process) result" where
  "node_channel_new pf ou node_name p =
     Option.bind (register_node (pf_name_hash pf) node_name (pr_global p)) (\<lambda>(node_id, g).
       let attr = (new_attributes (ou_junk ou))\<lparr>ra_host_name := gd_host_name (pr_global p),
             ra_host_ip := gd_host_ip (pr_global p), ra_process_id := gd_process_id (pr_global p),
             ra_node_name := node_name, ra_node_id := node_id\<rparr>
       in Some (map_sum id (\<lambda>(_, p1). (\<lparr>nc_is_reality_mode = True, nc_node_name = node_name, nc_node_attr = attr\<rparr>, p1))
            (node_join pf ou attr (p\<lparr>pr_global := g\<rparr>))))"

definition node_channel_destroy :: "platform \<Rightarrow> outside \<Rightarrow> node_channel \<Rightarrow> process \<Rightarrow> ub + process" where
  "node_channel_destroy pf ou nc p =
     (if nc_is_reality_mode nc then map_sum id snd (node_leave pf ou (nc_node_attr nc) p) else Inr p)"

text \<open>
  \<open>FillInAttr\<close>: the assignment of the 64-bit \<open>node_id\<close> to the string \<open>node_name\<close> is that of a \<open>char\<close>,
  which keeps the lowest eight bits.
\<close>

definition string_assign_u64 :: "u64 \<Rightarrow> string" where
  "string_assign_u64 n = [char_of (unat n)]"

definition fill_in_attr :: "platform \<Rightarrow> node_channel \<Rightarrow> role_attributes \<Rightarrow> process \<Rightarrow> (role_attributes \<times> process) option" where
  "fill_in_attr pf nc attr p =
     map_option (\<lambda>(channel_id, g). (attr\<lparr>ra_host_name := ra_host_name (nc_node_attr nc),
         ra_host_ip := ra_host_ip (nc_node_attr nc), ra_process_id := ra_process_id (nc_node_attr nc),
         ra_node_name := string_assign_u64 (ra_node_id (nc_node_attr nc)),
         ra_node_id := ra_node_id (nc_node_attr nc), ra_channel_id := channel_id\<rparr>, p\<lparr>pr_global := g\<rparr>))
       (register_channel (pf_name_hash pf) (ra_channel_name attr) (pr_global p))"

definition create_publisher :: "platform \<Rightarrow> outside \<Rightarrow> node_channel \<Rightarrow> nat \<Rightarrow> role_attributes \<Rightarrow> process \<Rightarrow>
    (nat option \<times> process) result" where
  "create_publisher pf ou nc typ role_attr p =
     (if ra_channel_name role_attr = '''' then Some (Inr (None, p))
      else Option.bind (fill_in_attr pf nc role_attr p) (\<lambda>(new_attr, p1).
        let i = pr_next p1; p2 = put_pub i (publisher_new typ new_attr) (p1\<lparr>pr_next := i + 1\<rparr>)
        in Some (map_sum id (\<lambda>(ok, p3). if ok then (Some i, p3) else (None, p3\<lparr>pr_pubs := (pr_pubs p3)(i := None)\<rparr>))
             (publisher_init pf ou i p2))))"

definition create_publisher_named :: "platform \<Rightarrow> outside \<Rightarrow> node_channel \<Rightarrow> nat \<Rightarrow> string \<Rightarrow> process \<Rightarrow>
    (nat option \<times> process) result" where
  "create_publisher_named pf ou nc typ channel_name p =
     create_publisher pf ou nc typ ((new_attributes (ou_junk ou))\<lparr>ra_channel_name := channel_name\<rparr>) p"

definition create_subscriber :: "platform \<Rightarrow> outside \<Rightarrow> node_channel \<Rightarrow> nat \<Rightarrow> role_attributes \<Rightarrow> nat option \<Rightarrow> u32 \<Rightarrow>
    process \<Rightarrow> (nat option \<times> process) result" where
  "create_subscriber pf ou nc typ role_attr reader_func pending_queue_size p =
     (if ra_channel_name role_attr = '''' then Some (Inr (None, p))
      else Option.bind (fill_in_attr pf nc role_attr p) (\<lambda>(new_attr, p1).
        let i = pr_next p1;
            p2 = put_sub i (subscriber_new typ new_attr reader_func pending_queue_size) (p1\<lparr>pr_next := i + 1\<rparr>)
        in rbind (subscriber_init pf ou i p2) (\<lambda>(ok, p3).
             Some (Inr (if ok then (Some i, p3) else (None, p3\<lparr>pr_subs := (pr_subs p3)(i := None)\<rparr>))))))"

definition create_subscriber_named :: "platform \<Rightarrow> outside \<Rightarrow> node_channel \<Rightarrow> nat \<Rightarrow> string \<Rightarrow> nat option \<Rightarrow> process \<Rightarrow>
    (nat option \<times> process) result" where
  "create_subscriber_named pf ou nc typ channel_name reader_func p =
     create_subscriber pf ou nc typ ((new_attributes (ou_junk ou))\<lparr>ra_channel_name := channel_name\<rparr>) reader_func
       DEFAULT_PENDING_QUEUE_SIZE p"

definition create_subscriber_config :: "platform \<Rightarrow> outside \<Rightarrow> node_channel \<Rightarrow> nat \<Rightarrow> subscriber_config \<Rightarrow> nat option \<Rightarrow>
    process \<Rightarrow> (nat option \<times> process) result" where
  "create_subscriber_config pf ou nc typ config reader_func p =
     create_subscriber pf ou nc typ ((new_attributes (ou_junk ou))\<lparr>ra_channel_name := sbc_channel_name config,
       ra_qos := sbc_qos_profile config\<rparr>) reader_func (sbc_pending_queue_size config) p"

section \<open>Node\<close>

record node =
  nd_node_name :: string
  nd_name_space :: string
  nd_subscribers :: "(string \<times> nat) list"
  nd_channel_impl :: node_channel

definition node_new :: "platform \<Rightarrow> outside \<Rightarrow> string \<Rightarrow> string \<Rightarrow> process \<Rightarrow> (node \<times> process) result" where
  "node_new pf ou node_name name_space p = rbind (node_channel_new pf ou node_name p) (\<lambda>(nc, p1).
     Some (Inr (\<lparr>nd_node_name = node_name, nd_name_space = name_space, nd_subscribers = [], nd_channel_impl = nc\<rparr>, p1)))"

text \<open>The three overloads of \<open>CreateSubscriber\<close> differ in the call of \<open>NodeChannelImpl\<close> they make.\<close>

definition node_add_subscriber :: "string \<Rightarrow> (node_channel \<Rightarrow> process \<Rightarrow> (nat option \<times> process) result) \<Rightarrow>
    node \<times> process \<Rightarrow> (nat option \<times> node \<times> process) result" where
  "node_add_subscriber channel_name create = (\<lambda>(nd, p).
     if map_of (nd_subscribers nd) channel_name \<noteq> None then Some (Inr (None, nd, p))
     else rbind (create (nd_channel_impl nd) p) (\<lambda>(s, p1). Some (Inr (case s of
         None \<Rightarrow> (None, nd, p1)
       | Some i \<Rightarrow> (Some i, nd\<lparr>nd_subscribers := nd_subscribers nd @ [(channel_name, i)]\<rparr>, p1)))))"

definition node_create_subscriber :: "platform \<Rightarrow> outside \<Rightarrow> nat \<Rightarrow> role_attributes \<Rightarrow> nat option \<Rightarrow> node \<times> process \<Rightarrow>
    (nat option \<times> node \<times> process) result" where
  "node_create_subscriber pf ou typ role_attr reader_func = node_add_subscriber (ra_channel_name role_attr)
     (\<lambda>nc. create_subscriber pf ou nc typ role_attr reader_func DEFAULT_PENDING_QUEUE_SIZE)"

definition node_create_subscriber_named :: "platform \<Rightarrow> outside \<Rightarrow> nat \<Rightarrow> string \<Rightarrow> nat option \<Rightarrow> node \<times> process \<Rightarrow>
    (nat option \<times> node \<times> process) result" where
  "node_create_subscriber_named pf ou typ channel_name reader_func = node_add_subscriber channel_name
     (\<lambda>nc. create_subscriber_named pf ou nc typ channel_name reader_func)"

definition node_create_subscriber_config :: "platform \<Rightarrow> outside \<Rightarrow> nat \<Rightarrow> subscriber_config \<Rightarrow> nat option \<Rightarrow> node \<times> process \<Rightarrow>
    (nat option \<times> node \<times> process) result" where
  "node_create_subscriber_config pf ou typ config reader_func = node_add_subscriber (sbc_channel_name config)
     (\<lambda>nc. create_subscriber_config pf ou nc typ config reader_func)"

definition node_create_publisher :: "platform \<Rightarrow> outside \<Rightarrow> nat \<Rightarrow> role_attributes \<Rightarrow> node \<times> process \<Rightarrow> (nat option \<times> process) result" where
  "node_create_publisher pf ou typ role_attr = (\<lambda>(nd, p). create_publisher pf ou (nd_channel_impl nd) typ role_attr p)"

definition node_create_publisher_named :: "platform \<Rightarrow> outside \<Rightarrow> nat \<Rightarrow> string \<Rightarrow> node \<times> process \<Rightarrow> (nat option \<times> process) result" where
  "node_create_publisher_named pf ou typ channel_name =
     (\<lambda>(nd, p). create_publisher_named pf ou (nd_channel_impl nd) typ channel_name p)"

text \<open>\<open>GetSubscriber<MessageT>\<close>: null for a subscriber of another message type.\<close>

definition node_get_subscriber :: "nat \<Rightarrow> string \<Rightarrow> node \<times> process \<Rightarrow> nat option" where
  "node_get_subscriber typ channel_name = (\<lambda>(nd, p).
     case map_of (nd_subscribers nd) channel_name of None \<Rightarrow> None
     | Some i \<Rightarrow> (case pr_subs p i of None \<Rightarrow> None | Some su \<Rightarrow> if su_type su = typ then Some i else None))"

definition update_subs :: "(subscriber \<Rightarrow> subscriber) \<Rightarrow> nat list \<Rightarrow> process \<Rightarrow> process" where
  "update_subs f is p = p\<lparr>pr_subs := fold (\<lambda>i subs. subs(i := map_option f (subs i))) is (pr_subs p)\<rparr>"

definition node_observe :: "node \<times> process \<Rightarrow> process" where
  "node_observe = (\<lambda>(nd, p). update_subs subscriber_observe (map snd (nd_subscribers nd)) p)"

definition node_clear_data :: "node \<times> process \<Rightarrow> process" where
  "node_clear_data = (\<lambda>(nd, p). update_subs subscriber_clear_data (map snd (nd_subscribers nd)) p)"

end
