(* ===== verification/Node_Claims.thy ===== *)
theory Node_Claims
  imports Node_Api
begin

text \<open>
  What publishers and subscribers promise, and what the wiring of the components makes of them.
\<close>

section \<open>A process to try things on\<close>

definition sample_platform :: platform where
  "sample_platform = \<lparr>pf_hash = (\<lambda>_. 5), pf_name_hash = (\<lambda>n. of_nat (length n)), pf_order = LittleEndian\<rparr>"

definition sample_outside :: outside where
  "sample_outside = \<lparr>ou_now = 1, ou_uuid = replicate 16 0, ou_participant = True, ou_registered = True, ou_added = True,
     ou_added_again = True, ou_room = 1024, ou_defaults = \<lparr>at_topic_name = '''', at_topic_data_type = '''', at_no_key = False,
       at_payload_max_size = 0, at_maximum_reserved_caches = 0, at_endpoint_best_effort = False,
       at_durability = VOLATILE_DURABILITY_QOS, at_reliability = BEST_EFFORT_RELIABILITY_QOS,
       at_history = KEEP_LAST_HISTORY_QOS, at_history_depth = 1, at_heartbeat_seconds = 3, at_heartbeat_nanosec = 0\<rparr>,
     ou_junk = sample_attr\<rparr>"

definition sample_process :: process where
  "sample_process = \<lparr>pr_global = gd_new ''h'' ''127.0.0.1'' 7 ''g'', pr_node_mgr = node_manager_new ''h'' 7,
     pr_channel_mgr = channel_manager_new ''h'' 7, pr_slots = [], pr_scheduler = scheduler_new None 0,
     pr_transport_shutdown = False, pr_dispatcher = rtps_dispatcher_new\<lparr>rd_participant := True\<rparr>,
     pr_receivers = (\<lambda>_. None), pr_data = sys_new, pr_subs = (\<lambda>_. None), pr_pubs = (\<lambda>_. None), pr_next = 0,
     pr_sent = [], pr_called = []\<rparr>"

definition sample_node_channel :: node_channel where
  "sample_node_channel = \<lparr>nc_is_reality_mode = True, nc_node_name = ''n'', nc_node_attr = sample_attr\<rparr>"

definition sample_publisher :: publisher where
  "sample_publisher = \<lparr>pb_type = 0, pb_attr = sample_attr, pb_init = True,
     pb_transmitter = Some (rtps_transmitter_new (\<lambda>_. 5) sample_outside ''h'' 7 sample_attr)\<rparr>"

section \<open>Emissions of the channel manager\<close>

lemma map_sum_Inr: "map_sum id f r = Inr y \<longleftrightarrow> (\<exists>x. r = Inr x \<and> y = f x)"
  by (cases r) auto

lemmas res_simps = sbind_Inr_conv map_sum_Inr

text \<open>What running the slots leaves alone.\<close>

definition calls_frame :: "process \<Rightarrow> process \<Rightarrow> bool" where
  "calls_frame p q \<longleftrightarrow> pr_global q = pr_global p \<and> pr_node_mgr q = pr_node_mgr p \<and> pr_channel_mgr q = pr_channel_mgr p \<and>
     pr_slots q = pr_slots p \<and> pr_scheduler q = pr_scheduler p \<and> pr_receivers q = pr_receivers p \<and>
     pr_data q = pr_data p \<and> pr_subs q = pr_subs p \<and> pr_next q = pr_next p \<and> pr_sent q = pr_sent p \<and>
     pr_called q = pr_called p \<and> dom (pr_pubs q) = dom (pr_pubs p)"

lemma calls_frame_refl [simp]: "calls_frame p p" by (simp add: calls_frame_def)

lemma calls_frame_trans: "calls_frame p q \<Longrightarrow> calls_frame q r \<Longrightarrow> calls_frame p r" by (simp add: calls_frame_def)

lemma sub_slot_frame:
  "run_slot pf ou msg (Sub_slot i) p = Inr q \<Longrightarrow> calls_frame p q \<and> pr_pubs q = pr_pubs p"
  by (auto simp: sub_on_channel_change_def res_simps calls_frame_def split: option.splits if_splits)

lemma pub_slot_frame:
  "run_slot pf ou msg (Pub_slot i) p = Inr q \<Longrightarrow> calls_frame p q \<and> pr_dispatcher q = pr_dispatcher p \<and>
     (\<exists>pb pb1. pr_pubs p i = Some pb \<and> publisher_change ou msg pb = Inr pb1 \<and> pr_pubs q = (pr_pubs p)(i \<mapsto> pb1))"
  by (auto simp: pub_on_channel_change_def res_simps calls_frame_def split: option.splits if_splits)

lemma run_slots_frame: "run_slots pf ou msg ss p = Inr q \<Longrightarrow> calls_frame p q"
proof (induction ss arbitrary: p)
  case (Cons s ss)
  then obtain p1 where step: "run_slot pf ou msg s p = Inr p1" and rest: "calls_frame p1 q"
    by (auto simp: sbind_Inr_conv)
  have "calls_frame p p1" using step sub_slot_frame pub_slot_frame by (cases s) blast+
  with rest show ?case using calls_frame_trans by blast
qed simp

text \<open>Every connected publisher handles an emission exactly once, the others are not touched.\<close>

lemma run_slots_publisher:
  assumes "run_slots pf ou msg ss p = Inr q" and "distinct ss" and "pr_pubs p i = Some pb"
  shows "if Pub_slot i \<in> set ss then \<exists>pb1. publisher_change ou msg pb = Inr pb1 \<and> pr_pubs q i = Some pb1
    else pr_pubs q i = Some pb"
  using assms
proof (induction ss arbitrary: p pb)
  case (Cons s ss)
  then obtain p1 where step: "run_slot pf ou msg s p = Inr p1" and rest: "run_slots pf ou msg ss p1 = Inr q"
    by (auto simp: sbind_Inr_conv)
  show ?case
  proof (cases s)
    case (Sub_slot j)
    with step sub_slot_frame have "pr_pubs p1 = pr_pubs p" by blast
    with Cons.IH [OF rest] Cons.prems Sub_slot show ?thesis by simp
  next
    case (Pub_slot j)
    with step pub_slot_frame obtain pb0 pb1 where j: "pr_pubs p j = Some pb0" "publisher_change ou msg pb0 = Inr pb1"
      "pr_pubs p1 = (pr_pubs p)(j \<mapsto> pb1)" by blast
    show ?thesis
    proof (cases "j = i")
      case True
      with j Cons.prems Pub_slot have "pr_pubs p1 i = Some pb1" "Pub_slot i \<notin> set ss" "pb0 = pb" by auto
      with Cons.IH [OF rest _ this(1)] Cons.prems j True Pub_slot show ?thesis by simp
    next
      case False
      with j Cons.prems have "pr_pubs p1 i = Some pb" by simp
      with Cons.IH [OF rest _ this] Cons.prems False Pub_slot show ?thesis by simp
    qed
  qed
qed simp

section \<open>A publisher follows the last change\<close>

definition concerns :: "publisher \<Rightarrow> change_msg \<Rightarrow> bool" where
  "concerns pb msg \<longleftrightarrow> cm_role_type msg = ROLE_READER \<and> ra_channel_name (cm_role_attr msg) = ra_channel_name (pb_attr pb)"

lemma rt_enabled_updates:
  assumes "ou_participant ou" and "ou_registered ou"
  shows "\<exists>tr1. rtps_transmitter_enable ou tr = Inr tr1 \<and> rt_enabled tr1"
    and "\<not> rt_enabled (rtps_transmitter_disable tr)"
  using assms by (auto simp: rtps_transmitter_enable_def rtps_transmitter_disable_def rt_enabled_def Let_def)

lemma publisher_change_follows:
  assumes "ou_participant ou" and "ou_registered ou" and "pb_transmitter pb = Some tr"
  shows "\<exists>pb1 tr1. publisher_change ou msg pb = Inr pb1 \<and> pb_attr pb1 = pb_attr pb \<and> pb_init pb1 = pb_init pb \<and>
    pb_transmitter pb1 = Some tr1 \<and>
    rt_enabled tr1 = (if concerns pb msg then cm_operate_type msg = OPT_JOIN else rt_enabled tr)"
  using assms rt_enabled_updates [OF assms(1,2), of tr]
  by (auto simp: publisher_change_def concerns_def transmitter_enable_to_def transmitter_disable_to_def)

lemma publisher_change_leave:
  assumes "concerns pb msg" and "cm_operate_type msg \<noteq> OPT_JOIN" and "publisher_change ou msg pb = Inr pb1"
  shows "pb_init pb1 = pb_init pb \<and> (\<exists>tr1. pb_transmitter pb1 = Some tr1 \<and> \<not> rt_enabled tr1)"
  using assms
  by (auto simp: publisher_change_def concerns_def transmitter_disable_to_def rtps_transmitter_disable_def rt_enabled_def
      split: option.splits if_splits)

fun publisher_changes :: "outside \<Rightarrow> change_msg list \<Rightarrow> publisher \<Rightarrow> ub + publisher" where
  "publisher_changes ou [] pb = Inr pb"
| "publisher_changes ou (m # ms) pb = sbind (publisher_change ou m pb) (publisher_changes ou ms)"

definition last_change :: "publisher \<Rightarrow> change_msg list \<Rightarrow> change_msg option" where
  "last_change pb msgs = find (concerns pb) (rev msgs)"

lemma publisher_changes_follow:
  assumes "ou_participant ou" and "ou_registered ou" and "pb_transmitter pb = Some tr"
  shows "\<exists>pb1 tr1. publisher_changes ou msgs pb = Inr pb1 \<and> pb_attr pb1 = pb_attr pb \<and> pb_init pb1 = pb_init pb \<and>
    pb_transmitter pb1 = Some tr1 \<and>
    rt_enabled tr1 = (case last_change pb msgs of None \<Rightarrow> rt_enabled tr | Some m \<Rightarrow> cm_operate_type m = OPT_JOIN)"
  using assms(3)
proof (induction msgs arbitrary: pb tr)
  case (Cons m ms)
  from publisher_change_follows [OF assms(1,2) Cons.prems, of m] obtain pb1 tr1 where
    one: "publisher_change ou m pb = Inr pb1" "pb_attr pb1 = pb_attr pb" "pb_init pb1 = pb_init pb"
      "pb_transmitter pb1 = Some tr1"
      "rt_enabled tr1 = (if concerns pb m then cm_operate_type m = OPT_JOIN else rt_enabled tr)" by blast
  have "concerns pb1 = concerns pb" using one(2) by (simp add: concerns_def fun_eq_iff)
  then have "last_change pb (m # ms) = (case last_change pb1 ms of None \<Rightarrow> if concerns pb m then Some m else None | x \<Rightarrow> x)"
    by (simp add: last_change_def find_append split: option.split)
  with Cons.IH [OF one(4)] one show ?case by (auto split: option.splits)
qed (simp add: last_change_def)

text \<open>C26. As long as Fast DDS registers the writers, the transmitter of a publisher is enabled after any sequence of
  topology changes exactly if the last one that reported a reader of its channel was a join, or if there was
  none and it was enabled before. It does not count the readers. A disabled transmitter sends nothing,
  which \<open>Publish\<close> does not tell its caller.\<close>
theorem publisher_follows_last_change:
  assumes "ou_participant ou" and "ou_registered ou" and "pb_transmitter pb = Some tr"
  shows "\<exists>pb1 tr1. publisher_changes ou msgs pb = Inr pb1 \<and> pb_transmitter pb1 = Some tr1 \<and>
    rt_enabled tr1 = (case last_change pb msgs of None \<Rightarrow> rt_enabled tr | Some m \<Rightarrow> cm_operate_type m = OPT_JOIN) \<and>
    (rt_enabled tr1 \<or> rtps_transmit_next ou payload tr1 = Inr (False, None, tr1\<lparr>rt_seq_num := rt_seq_num tr1 + 1,
       rt_msg_info := (rt_msg_info tr1)\<lparr>mi_seq_num := rt_seq_num tr1 + 1\<rparr>\<rparr>))"
  using publisher_changes_follow [OF assms, of msgs]
  by (auto simp: rtps_transmit_next_def rtps_transmit_def rt_enabled_def Let_def)

theorem publisher_follows_last_change_witness:
  "\<exists>pb1 tr1. publisher_changes sample_outside [sample_change\<lparr>cm_role_type := ROLE_READER\<rparr>,
       sample_change\<lparr>cm_role_type := ROLE_READER, cm_operate_type := OPT_LEAVE\<rparr>] sample_publisher = Inr pb1 \<and>
     pb_transmitter pb1 = Some tr1 \<and> \<not> rt_enabled tr1"
proof -
  have ou: "ou_participant sample_outside" "ou_registered sample_outside" by (simp_all add: sample_outside_def)
  have tr: "pb_transmitter sample_publisher = Some (rtps_transmitter_new (\<lambda>_. 5) sample_outside ''h'' 7 sample_attr)"
    by (simp add: sample_publisher_def)
  have "last_change sample_publisher [sample_change\<lparr>cm_role_type := ROLE_READER\<rparr>,
       sample_change\<lparr>cm_role_type := ROLE_READER, cm_operate_type := OPT_LEAVE\<rparr>] =
     Some (sample_change\<lparr>cm_role_type := ROLE_READER, cm_operate_type := OPT_LEAVE\<rparr>)"
    by (simp add: last_change_def concerns_def sample_publisher_def sample_change_def)
  with publisher_follows_last_change [OF ou tr, of "[sample_change\<lparr>cm_role_type := ROLE_READER\<rparr>,
       sample_change\<lparr>cm_role_type := ROLE_READER, cm_operate_type := OPT_LEAVE\<rparr>]" "[]"]
  show ?thesis by auto
qed

section \<open>A reader that leaves\<close>

lemma dispose_emits:
  "mg_emitted (channel_dispose msg m) = mg_emitted m @ [msg]"
  "mg_emitted (node_dispose msg nm) = mg_emitted nm @ [msg]"
  by (simp_all add: channel_dispose_def channel_dispose_join_def channel_dispose_leave_def node_dispose_def
      node_dispose_join_def node_dispose_leave_def notify_change_def Let_def split: prod.split option.split bool.split)

lemma dispose_started: "mg_is_discovery_started (channel_dispose msg m) = mg_is_discovery_started m"
  by (simp add: channel_dispose_def channel_dispose_join_def channel_dispose_leave_def notify_change_def Let_def
      split: prod.split option.split bool.split)

lemma manager_write_frame:
  "manager_write h msg m = Inr (ok, m1) \<Longrightarrow> m1 = m\<lparr>mg_written := mg_written m1\<rparr>"
  by (auto simp: manager_write_def Let_def split: if_splits)

text \<open>A leave that the manager accepts is emitted once, after the tables were updated.\<close>

lemma channel_leave_emits:
  assumes "channel_leave pf ou attr role p = Inr (ok, q)"
    and "\<not> mg_is_shutdown (pr_channel_mgr p)" and "role_allowed role (pr_channel_mgr p)" and "channel_check attr"
  defines "msg \<equiv> convert (ou_now ou) attr role OPT_LEAVE (pr_channel_mgr p)"
  shows "\<exists>w p1. p1 = p\<lparr>pr_channel_mgr := (channel_dispose msg (pr_channel_mgr p))\<lparr>mg_written := w\<rparr>\<rparr> \<and>
    run_slots pf ou msg (pr_slots p) p1 = Inr q"
proof -
  let ?m = "pr_channel_mgr p"
  from assms obtain m1 where w: "manager_write (pf_order pf) msg (channel_dispose msg ?m) = Inr (ok, m1)"
    and run: "run_changes pf ou (drop (length (mg_emitted ?m)) (mg_emitted m1)) (p\<lparr>pr_channel_mgr := m1\<rparr>) = Inr q"
    by (auto simp: channel_leave_def with_changes_def manager_leave_def need_publish_def res_simps Let_def)
  have m1: "m1 = (channel_dispose msg ?m)\<lparr>mg_written := mg_written m1\<rparr>" by (rule manager_write_frame [OF w])
  then have "mg_emitted m1 = mg_emitted ?m @ [msg]"
    using dispose_emits(1) [of msg ?m] by (metis manager.select_convs(10) manager.surjective manager.update_convs(9))
  with run have "run_slots pf ou msg (pr_slots p) (p\<lparr>pr_channel_mgr := m1\<rparr>) = Inr q"
    by (auto simp: res_simps)
  with m1 show ?thesis by metis
qed

text \<open>When one of several readers of a channel leaves, a publisher of that channel in the process stops
  sending although the topology still lists the other readers: the next \<open>Publish\<close> sends nothing.\<close>
lemma leave_silences_publisher:
  assumes "channel_leave pf ou attr ROLE_READER p = Inr (ok, q)"
    and "\<not> mg_is_shutdown (pr_channel_mgr p)" and "role_allowed ROLE_READER (pr_channel_mgr p)" and "channel_check attr"
    and "distinct (pr_slots p)" and "Pub_slot i \<in> set (pr_slots p)" and "pr_pubs p i = Some pb" and "pb_init pb"
    and "ra_channel_name attr = ra_channel_name (pb_attr pb)"
    and "(ra_channel_id attr, other) \<in> set (chm_channel_readers (pr_channel_mgr p))"
    and "r_class other = RoleWriter" and "ra_id (r_attributes other) \<noteq> ra_id attr"
  shows "mw_search (ra_channel_id attr) (chm_channel_readers (pr_channel_mgr q)) \<and>
    (\<exists>r. publisher_publish ou' payload i q = Inr (None, r) \<and> pr_sent r = pr_sent q)"
proof -
  let ?msg = "convert (ou_now ou) attr ROLE_READER OPT_LEAVE (pr_channel_mgr p)"
  from channel_leave_emits [OF assms(1-4)] obtain w p1 where
    p1: "p1 = p\<lparr>pr_channel_mgr := (channel_dispose ?msg (pr_channel_mgr p))\<lparr>mg_written := w\<rparr>\<rparr>"
    and run: "run_slots pf ou ?msg (pr_slots p) p1 = Inr q" by blast
  have msg: "cm_role_type ?msg = ROLE_READER" "cm_operate_type ?msg = OPT_LEAVE"
    "ra_channel_name (cm_role_attr ?msg) = ra_channel_name attr" "ra_channel_id (cm_role_attr ?msg) = ra_channel_id attr"
    "ra_id (cm_role_attr ?msg) = ra_id attr"
    by (simp_all add: convert_def Let_def)
  have "pr_pubs p1 i = Some pb" using p1 assms(7) by simp
  from run_slots_publisher [OF run assms(5) this] assms(6) obtain pb1 where
    pb1: "publisher_change ou ?msg pb = Inr pb1" "pr_pubs q i = Some pb1" by auto
  have "concerns pb ?msg" using msg assms(9) by (simp add: concerns_def)
  from publisher_change_leave [OF this _ pb1(1)] msg assms(8) obtain tr1 where
    "pb_init pb1" "pb_transmitter pb1 = Some tr1" "\<not> rt_enabled tr1" by auto
  then have "\<exists>r. publisher_publish ou' payload i q = Inr (None, r) \<and> pr_sent r = pr_sent q"
    using pb1(2) by (simp add: publisher_publish_def rtps_transmit_next_def rtps_transmit_def rt_enabled_def put_pub_def Let_def)
  moreover have "chm_channel_readers (pr_channel_mgr q) = chm_channel_readers (channel_dispose ?msg (pr_channel_mgr p))"
    using run_slots_frame [OF run] p1 by (simp add: calls_frame_def)
  moreover have "(ra_channel_id attr, other) \<in> set (chm_channel_readers (channel_dispose ?msg (pr_channel_mgr p)))"
    using assms(10-12) msg
    by (simp add: channel_dispose_def notify_change_def channel_dispose_leave_def mw_remove_role_def role_match_def
        writer_match_def Let_def)
  ultimately show ?thesis by (auto simp: mw_search_def mw_search_role_def map_of_eq_None_iff rev_image_eqI)
qed

lemma leave_silences_publisher_witness:
  "\<exists>ok q. channel_leave sample_platform sample_outside sample_attr ROLE_READER (sample_process\<lparr>pr_slots := [Pub_slot 0],
       pr_pubs := [0 \<mapsto> sample_publisher], pr_channel_mgr := (channel_manager_new ''h'' 7)\<lparr>chm_channel_readers :=
         [(42, \<lparr>r_class = RoleWriter, r_attributes = sample_attr\<lparr>ra_id := 6\<rparr>, r_timestamp_ns = 0\<rparr>)]\<rparr>\<rparr>) = Inr (ok, q) \<and>
     mw_search 42 (chm_channel_readers (pr_channel_mgr q)) \<and>
     (\<exists>r. publisher_publish sample_outside [] 0 q = Inr (None, r) \<and> pr_sent r = pr_sent q)"
proof -
  let ?p = "sample_process\<lparr>pr_slots := [Pub_slot 0],
       pr_pubs := [0 \<mapsto> sample_publisher], pr_channel_mgr := (channel_manager_new ''h'' 7)\<lparr>chm_channel_readers :=
         [(42, \<lparr>r_class = RoleWriter, r_attributes = sample_attr\<lparr>ra_id := 6\<rparr>, r_timestamp_ns = 0\<rparr>)]\<rparr>\<rparr>"
  let ?msg = "convert 1 sample_attr ROLE_READER OPT_LEAVE (pr_channel_mgr ?p)"
  have mgr: "\<not> mg_is_shutdown (pr_channel_mgr ?p)" "role_allowed ROLE_READER (pr_channel_mgr ?p)" "channel_check sample_attr"
    "\<not> mg_is_discovery_started (channel_dispose ?msg (pr_channel_mgr ?p))" "mg_emitted (pr_channel_mgr ?p) = []"
    by (simp_all add: channel_manager_new_def role_allowed_def channel_check_def sample_attr_def dispose_started)
  have leave: "manager_leave LittleEndian channel_check channel_dispose 1 sample_attr ROLE_READER (pr_channel_mgr ?p) =
      Inr (False, channel_dispose ?msg (pr_channel_mgr ?p))"
    using mgr by (simp add: manager_leave_def manager_write_def need_publish_def Let_def)
  have "\<exists>ok q. channel_leave sample_platform sample_outside sample_attr ROLE_READER ?p = Inr (ok, q)"
    using leave mgr(5) dispose_emits(1) [of ?msg "pr_channel_mgr ?p"]
    by (auto simp: channel_leave_def with_changes_def sample_platform_def sample_outside_def pub_on_channel_change_def
        publisher_change_def transmitter_disable_to_def sample_publisher_def convert_def Let_def)
  then obtain ok q where q: "channel_leave sample_platform sample_outside sample_attr ROLE_READER ?p = Inr (ok, q)" by blast
  from leave_silences_publisher [OF q mgr(1-3), of 0 sample_publisher "\<lparr>r_class = RoleWriter,
      r_attributes = sample_attr\<lparr>ra_id := 6\<rparr>, r_timestamp_ns = 0\<rparr>" sample_outside "[]"]
  have "mw_search 42 (chm_channel_readers (pr_channel_mgr q)) \<and>
     (\<exists>r. publisher_publish sample_outside [] 0 q = Inr (None, r) \<and> pr_sent r = pr_sent q)"
    by (simp add: sample_publisher_def sample_attr_def)
  with q show ?thesis by blast
qed

section \<open>Messages of a discovered writer\<close>

text \<open>The change of a writer as Fast DDS hands it over: its guid starts with the identity of the transmitter.\<close>

definition sent_by :: "platform \<Rightarrow> u64 \<Rightarrow> rtps_change \<Rightarrow> bool" where
  "sent_by pf writer ch \<longleftrightarrow> pf_hash pf (take ID_SIZE (ch_guid ch)) = writer"

lemma receive_calls_listeners:
  assumes "rd_readers (pr_dispatcher p) key = Some r" and "pf_name_hash pf (rr_channel_name r) = cid"
    and "\<not> dp_is_shutdown (pr_dispatcher p)" and "dp_msg_listeners (pr_dispatcher p) cid = Some (std_string, h)"
    and "fold lh_step xs (([], []), lh_new ([], [])) = (([], []), h)" and "sent_by pf writer ch"
  shows "\<exists>info d. process_receive pf key seq ch p = Inr (dispatch_calls (map (\<lambda>(_, c). (c, ch_payload ch, info))
      (hs_all (fold hs_step xs hs_new) @ hs_of (fold hs_step xs hs_new) writer)) (p\<lparr>pr_dispatcher := d\<rparr>)) \<and>
    id_hash_value (mi_sender_id info) = writer"
proof -
  let ?info = "(rr_msg_info r)\<lparr>mi_sender_id := identity_set_data (pf_hash pf) (Some (ch_guid ch)) (identity_new (pf_hash pf) None),
      mi_spare_id := identity_set_data (pf_hash pf) (Some (drop ID_SIZE (ch_guid ch))) (identity_new (pf_hash pf) None),
      mi_seq_num := push_bit 32 (scast (fst seq)) OR ucast (snd seq)\<rparr>"
  have writer: "id_hash_value (mi_sender_id ?info) = writer"
    using assms(6) by (simp add: sent_by_def identity_set_data_def)
  from handler_delivers [OF assms(5), of "(ch_payload ch, ?info)" writer] obtain u h' where
    run: "lh_run record_call (ch_payload ch, ?info) writer ([], []) h = (u, h')"
    "fst u = map (\<lambda>(_, c). (c, ch_payload ch, ?info)) (hs_all (fold hs_step xs hs_new) @ hs_of (fold hs_step xs hs_new) writer)"
    by auto
  have "\<exists>d. on_new_cache_change record_call (pf_hash pf) (pf_name_hash pf) key seq ch ([], []) (pr_dispatcher p) = Inr (u, d)"
    using assms(1-4) run(1) writer by (simp add: on_new_cache_change_def rtps_on_message_def Let_def)
  with run(2) writer show ?thesis by (auto simp: process_receive_def intro!: exI [of _ ?info])
qed

text \<open>The listener for every writer and, for each writer, as many as it was enabled times.\<close>

lemma enabled_listeners:
  "hs_all (fold hs_step (map (\<lambda>w. ListenTo i (ra_id w) c) ws) s) = hs_all s"
  "map snd (hs_of (fold hs_step (map (\<lambda>w. ListenTo i (ra_id w) c) ws) s) x) =
     map snd (hs_of s x) @ replicate (count_list (map ra_id ws) x) c"
  by (induction ws arbitrary: s) (simp_all add: taken_over_def o_def replicate_app_Cons_same)

lemma enabled_handler:
  "fold lh_step (map (\<lambda>w. ListenTo i (ra_id w) c) ws) (u, h) = (u, fold (\<lambda>w. lh_connect_to ([], []) i (ra_id w) c) ws h)"
  by (induction ws arbitrary: h) simp_all

lemma map_replicated:
  assumes "map snd xs = replicate n c"
  shows "map (\<lambda>(_, c). (c, a, b)) xs = replicate n (c, a, b)"
proof -
  have "map (\<lambda>(_, c). (c, a, b)) xs = map (\<lambda>c. (c, a, b)) (map snd xs)" by (simp add: case_prod_beta' o_def)
  with assms show ?thesis by simp
qed

text \<open>A process whose dispatcher has a reader and a handler of the channel.\<close>

definition channel_open :: "u64 \<Rightarrow> string \<Rightarrow> (data_listener, call_log) handler \<Rightarrow> process \<Rightarrow> bool" where
  "channel_open cid name h p \<longleftrightarrow> \<not> dp_is_shutdown (pr_dispatcher p) \<and>
     dp_msg_listeners (pr_dispatcher p) cid = Some (std_string, h) \<and>
     (\<exists>r. rd_readers (pr_dispatcher p) cid = Some r \<and> rr_channel_name r = name)"

lemma create_receiver_opens:
  assumes "create_receiver hash ou ([], []) host pid False attr c d = Inr (r, d1)" and "\<not> dp_is_shutdown d"
    and "rd_participant d" and "rd_readers d (ra_channel_id attr) = None" and "dp_msg_listeners d (ra_channel_id attr) = None"
  shows "\<exists>rv. r = Some rv \<and> rv_listener rv = c \<and> ra_channel_id (rv_attr rv) = ra_channel_id attr \<and>
    \<not> dp_is_shutdown d1 \<and>
    dp_msg_listeners d1 (ra_channel_id attr) = Some (std_string, lh_connect (ra_id (rv_attr rv)) c (lh_new ([], []))) \<and>
    (\<exists>rr. rd_readers d1 (ra_channel_id attr) = Some rr \<and> rr_channel_name rr = ra_channel_name attr)"
proof -
  define e where "e = endpoint_new hash (ou_uuid ou) host pid attr"
  have e: "ra_channel_id (ep_attr e) = ra_channel_id attr" "ra_channel_name (ep_attr e) = ra_channel_name attr" "\<not> ep_enabled e"
    by (simp_all add: e_def endpoint_new_def Let_def)
  show ?thesis
    using assms e unfolding create_receiver_def rtps_receiver_new_def e_def [symmetric]
    by (auto simp: rtps_receiver_enable_def rtps_add_listener_def add_listener_def add_reader_def rv_attr_def res_simps
        Let_def split: if_splits)
qed

lemma enable_writers_connects:
  assumes "enable_writers pf ou key ws p = Inr q" and "pr_receivers p key = Some (Some rv)"
    and "channel_open (ra_channel_id (rv_attr rv)) name h p"
  shows "channel_open (ra_channel_id (rv_attr rv)) name
      (fold (\<lambda>w. lh_connect_to ([], []) (ra_id (rv_attr rv)) (ra_id w) (rv_listener rv)) ws h) q \<and>
    q = p\<lparr>pr_dispatcher := pr_dispatcher q\<rparr>"
  using assms
proof (induction ws arbitrary: p h)
  case (Cons w ws)
  from Cons.prems obtain d where
    d: "rtps_receiver_enable_to (pf_hash pf) ou ([], []) w rv (pr_dispatcher p) = Inr d"
    and rest: "enable_writers pf ou key ws (p\<lparr>pr_dispatcher := d\<rparr>) = Inr q" by (auto simp: res_simps)
  have "channel_open (ra_channel_id (rv_attr rv)) name
      (lh_connect_to ([], []) (ra_id (rv_attr rv)) (ra_id w) (rv_listener rv) h) (p\<lparr>pr_dispatcher := d\<rparr>)"
    using d Cons.prems(3)
    by (auto simp: channel_open_def rtps_receiver_enable_to_def rtps_add_listener_to_def add_listener_to_def add_reader_def
        Let_def split: if_splits)
  from Cons.IH [OF rest _ this] Cons.prems(2) show ?case by (auto simp del: enable_writers.simps)
qed simp

lemma reader_change_frame:
  assumes "run_slots pf ou msg ss p = Inr q" and "cm_role_type msg \<noteq> ROLE_WRITER"
  shows "pr_dispatcher q = pr_dispatcher p"
  using assms(1)
proof (induction ss arbitrary: p)
  case (Cons s ss)
  then obtain p1 where step: "run_slot pf ou msg s p = Inr p1" and rest: "pr_dispatcher q = pr_dispatcher p1"
    by (auto simp: sbind_Inr_conv)
  have "pr_dispatcher p1 = pr_dispatcher p"
    using step assms(2) pub_slot_frame [of pf ou msg _ p p1]
    by (cases s) (auto simp: sub_on_channel_change_def split: option.splits if_splits)
  with rest show ?case by simp
qed simp

text \<open>Joining emits the join of a reader, or nothing.\<close>

lemma channel_join_emits:
  assumes "channel_join pf ou attr role p = Inr (ok, q)"
  shows "\<exists>m. q = p\<lparr>pr_channel_mgr := m\<rparr> \<or>
    run_slots pf ou (convert (ou_now ou) attr role OPT_JOIN (pr_channel_mgr p)) (pr_slots p) (p\<lparr>pr_channel_mgr := m\<rparr>) = Inr q"
proof -
  let ?m = "pr_channel_mgr p" and ?msg = "convert (ou_now ou) attr role OPT_JOIN (pr_channel_mgr p)"
  from assms obtain m1 where
    res: "manager_join (pf_order pf) channel_check channel_dispose (ou_now ou) attr role True ?m = Inr (ok, m1)"
    and run: "run_changes pf ou (drop (length (mg_emitted ?m)) (mg_emitted m1)) (p\<lparr>pr_channel_mgr := m1\<rparr>) = Inr q"
    by (auto simp: channel_join_def with_changes_def res_simps)
  from res consider "m1 = ?m" | "manager_write (pf_order pf) ?msg (channel_dispose ?msg ?m) = Inr (ok, m1)"
    by (auto simp: manager_join_def Let_def split: if_splits)
  then show ?thesis
  proof cases
    case 1
    with run have "q = p\<lparr>pr_channel_mgr := ?m\<rparr>" by simp
    then show ?thesis by blast
  next
    case 2
    then have "m1 = (channel_dispose ?msg ?m)\<lparr>mg_written := mg_written m1\<rparr>" by (rule manager_write_frame)
    then have "mg_emitted m1 = mg_emitted ?m @ [?msg]"
      using dispose_emits(1) [of ?msg ?m] by (metis manager.select_convs(10) manager.surjective manager.update_convs(9))
    with run show ?thesis by (auto simp: res_simps)
  qed
qed

lemma channel_join_frame:
  assumes "channel_join pf ou attr role p = Inr (ok, q)"
  shows "\<exists>m. calls_frame (p\<lparr>pr_channel_mgr := m\<rparr>) q" and "role \<noteq> ROLE_WRITER \<Longrightarrow> pr_dispatcher q = pr_dispatcher p"
proof -
  from channel_join_emits [OF assms] obtain m where
    m: "q = p\<lparr>pr_channel_mgr := m\<rparr> \<or>
      run_slots pf ou (convert (ou_now ou) attr role OPT_JOIN (pr_channel_mgr p)) (pr_slots p) (p\<lparr>pr_channel_mgr := m\<rparr>) = Inr q"
    by blast
  then show "\<exists>m. calls_frame (p\<lparr>pr_channel_mgr := m\<rparr>) q" using run_slots_frame calls_frame_refl by blast
  assume "role \<noteq> ROLE_WRITER"
  then have "cm_role_type (convert (ou_now ou) attr role OPT_JOIN (pr_channel_mgr p)) \<noteq> ROLE_WRITER"
    by (simp add: convert_def Let_def)
  from m reader_change_frame [OF _ this] show "pr_dispatcher q = pr_dispatcher p" by auto
qed

text \<open>A task is made without touching the channels.\<close>

lemma create_task_frame:
  assumes "create_task h now name (s, g) = Some (Inr (ok, s1, g1))"
  shows "gd_channels g1 = gd_channels g" and "gd_host_name g1 = gd_host_name g" and "gd_process_id g1 = gd_process_id g"
  using assms by (auto simp: create_task_def register_task_name_def res_simps Let_def split: if_splits)

lemma rbind_Some: "rbind m f = Some (Inr y) \<longleftrightarrow> (\<exists>x. m = Some (Inr x) \<and> f x = Some (Inr y))"
  by (cases m) (auto simp: rbind_def split: sum.splits)

lemma put_sub_simps [simp]:
  "pr_subs (put_sub i su p) = (pr_subs p)(i \<mapsto> su)" "pr_pubs (put_sub i su p) = pr_pubs p"
  "pr_global (put_sub i su p) = pr_global p" "pr_channel_mgr (put_sub i su p) = pr_channel_mgr p"
  "pr_node_mgr (put_sub i su p) = pr_node_mgr p" "pr_slots (put_sub i su p) = pr_slots p"
  "pr_scheduler (put_sub i su p) = pr_scheduler p" "pr_dispatcher (put_sub i su p) = pr_dispatcher p"
  "pr_receivers (put_sub i su p) = pr_receivers p" "pr_data (put_sub i su p) = pr_data p"
  "pr_next (put_sub i su p) = pr_next p" "pr_transport_shutdown (put_sub i su p) = pr_transport_shutdown p"
  "pr_sent (put_sub i su p) = pr_sent p" "pr_called (put_sub i su p) = pr_called p"
  by (simp_all add: put_sub_def)

text \<open>The stages of a successful \<open>Init\<close>.\<close>

abbreviation joined_sub :: "subscriber \<Rightarrow> bool \<Rightarrow> visitor \<Rightarrow> subscriber" where
  "joined_sub su has v \<equiv> su\<lparr>su_init := True, su_croutine_name := ra_node_name (su_attr su) @ ''_'' @ ra_channel_name (su_attr su),
     su_receiver := has, su_visitor := Some v\<rparr>"

lemma subscriber_init_stages:
  assumes "subscriber_init pf ou i p = Some (Inr (True, q))" and "pr_subs p i = Some su" and "\<not> su_init su"
  shows "\<exists>v p4 has p5. create_task (pf_name_hash pf) (uint (ou_now ou))
        (ra_node_name (su_attr su) @ ''_'' @ ra_channel_name (su_attr su)) (pr_scheduler p, pr_global p) =
      Some (Inr (True, pr_scheduler p4, pr_global p4)) \<and>
    pr_slots p4 = pr_slots p \<and> pr_pubs p4 = pr_pubs p \<and> pr_next p4 = pr_next p + 2 \<and>
    pr_channel_mgr p4 = pr_channel_mgr p \<and> pr_receivers p4 = pr_receivers p \<and> pr_dispatcher p4 = pr_dispatcher p \<and>
    pr_transport_shutdown p4 = pr_transport_shutdown p \<and> (\<exists>su1. pr_subs p4 = (pr_subs p)(i \<mapsto> su1)) \<and>
    pr_called p4 = pr_called p \<and> (\<exists>t data. pr_data p4 = register_notify_callback v t data \<and>
      new_visitor \<lparr>vc_type = su_type su, vc_channel = ra_channel_id (su_attr su), vc_queue_size = unat (su_pending su)\<rparr> []
        (pr_next p) [] (pr_next p + 1) 0 (pr_data p) = (v, data)) \<and>
    get_receiver pf ou (su_type su) (su_attr su) p4 = Inr (has, p5) \<and>
    sub_join_topology pf ou i (joined_sub su has v) (put_sub i (joined_sub su has v) p5) = Some (Inr q)"
proof -
  let ?name = "ra_node_name (su_attr su) @ ''_'' @ ra_channel_name (su_attr su)"
  obtain v data where vd: "new_visitor \<lparr>vc_type = su_type su, vc_channel = ra_channel_id (su_attr su),
      vc_queue_size = unat (su_pending su)\<rparr> [] (pr_next p) [] (pr_next p + 1) 0 (pr_data p) = (v, data)"
    by (metis surj_pair)
  let ?su1 = "su\<lparr>su_init := True, su_croutine_name := ?name\<rparr>"
  let ?p1 = "put_sub i ?su1 (p\<lparr>pr_data := data, pr_next := pr_next p + 2\<rparr>)"
  from assms vd obtain sched g where
    task: "create_task (pf_name_hash pf) (uint (ou_now ou)) ?name (pr_scheduler p, pr_global p) = Some (Inr (True, sched, g))"
    and rest: "rbind (Some (get_receiver pf ou (su_type su) (su_attr su)
        (?p1\<lparr>pr_scheduler := sched, pr_global := g,
          pr_data := register_notify_callback v (unat (cr_id (sc_routines sched (sc_next (pr_scheduler p))))) data\<rparr>)))
      (\<lambda>(has, p4). let su2 = ?su1\<lparr>su_receiver := has, su_visitor := Some v\<rparr> in
        rbind (sub_join_topology pf ou i su2 (put_sub i su2 p4)) (\<lambda>p5. Some (Inr (True, p5)))) = Some (Inr (True, q))"
    by (auto simp: subscriber_init_def rbind_Some Let_def split: if_splits)
  let ?p4 = "?p1\<lparr>pr_scheduler := sched, pr_global := g,
          pr_data := register_notify_callback v (unat (cr_id (sc_routines sched (sc_next (pr_scheduler p))))) data\<rparr>"
  from rest obtain has p5 where "get_receiver pf ou (su_type su) (su_attr su) ?p4 = Inr (has, p5)"
    "sub_join_topology pf ou i (?su1\<lparr>su_receiver := has, su_visitor := Some v\<rparr>)
      (put_sub i (?su1\<lparr>su_receiver := has, su_visitor := Some v\<rparr>) p5) = Some (Inr q)"
    by (auto simp: rbind_Some Let_def)
  with task vd show ?thesis
    by (intro exI [of _ v] exI [of _ ?p4] exI [of _ has] exI [of _ p5]) auto
qed

section \<open>The name a node gives to its endpoints\<close>

text \<open>Registering a name that is known finds its id and changes nothing.\<close>

lemma register_known:
  assumes "reg_inv h t" and "card (dom (hm_map t)) < 2 ^ 64" and "hm_map t cid = Some n"
  shows "\<exists>t1. register_name h n t = Some (cid, t1) \<and> reg_inv h t1 \<and> hm_map t1 = hm_map t"
proof -
  from register_name_laws [OF assms(1,2), of n] obtain c t1 where
    t1: "register_name h n t = Some (c, t1)" "reg_inv h t1" "hm_map t1 = (hm_map t)(c \<mapsto> n)" .
  then have "c = cid" using reg_inv_unique [OF t1(2), of c n cid] assms(3) by simp
  with t1 assms(3) show ?thesis by (simp add: fun_upd_idem)
qed

lemma register_again:
  assumes "reg_inv h t" and "card (dom (hm_map t)) + 1 < 2 ^ 64" and "register_name h n t = Some (cid, t1)"
  shows "\<exists>t2. register_name h n t1 = Some (cid, t2) \<and> (\<exists>t3. register_name h n t2 = Some (cid, t3))"
proof -
  have card: "card (dom (hm_map t)) < 2 ^ 64" using assms(2) by simp
  from register_name_laws [OF assms(1) card, of n] obtain c u where
    "register_name h n t = Some (c, u)" "reg_inv h u" "hm_map u = (hm_map t)(c \<mapsto> n)" .
  with assms(3) have t1: "reg_inv h t1" "hm_map t1 = (hm_map t)(cid \<mapsto> n)" by simp_all
  then have card1: "card (dom (hm_map t1)) < 2 ^ 64" "hm_map t1 cid = Some n" using assms(2) by (simp_all add: card_insert_if)
  from register_known [OF t1(1) this] obtain t2 where
    t2: "register_name h n t1 = Some (cid, t2)" "reg_inv h t2" "hm_map t2 = hm_map t1" by blast
  with register_known [OF t2(2), of cid n] card1 show ?thesis by auto
qed

lemma dispatched_known:
  assumes "dispatch_task a s = Inr (True, s1)"
  shows "sc_id_cr s1 (cr_id (sc_routines s a)) \<noteq> None"
  using assms by (auto simp: dispatch_task_def ctx_notify_def enqueue_routine_def sbind_Inr_conv Let_def split: if_splits)

lemma create_task_again:
  assumes "create_task h now n (s, g) = Some (Inr (True, s1, g1))" and "sc_id_cr s2 = sc_id_cr s1"
    and "gd_tasks g2 = gd_tasks g1" and "reg_inv h (gd_tasks g)" and "card (dom (hm_map (gd_tasks g))) + 1 < 2 ^ 64"
  shows "\<exists>s3 g3. create_task h now2 n (s2, g2) = Some (Inr (False, s3, g3))"
proof -
  from assms(1) obtain cid t where reg: "register_name h n (gd_tasks g) = Some (cid, t)" and g1: "gd_tasks g1 = t"
    and disp: "dispatch_task (sc_next s) (s\<lparr>sc_next := sc_next s + 1, sc_routines := (sc_routines s)(sc_next s :=
      (croutine_new now)\<lparr>cr_id := cid, cr_name := n\<rparr>)\<rparr>) = Inr (True, s1)"
    by (auto simp: create_task_def register_task_name_def res_simps Let_def split: if_splits)
  from register_again [OF assms(4,5) reg] obtain t2 where "register_name h n t = Some (cid, t2)" by blast
  moreover have "sc_id_cr s1 cid \<noteq> None" using dispatched_known [OF disp] by simp
  ultimately show ?thesis
    using assms(2,3) g1 by (auto simp: create_task_def register_task_name_def dispatch_task_def Let_def)
qed

lemma get_receiver_frame:
  assumes "get_receiver pf ou typ attr p = Inr (has, q)"
  shows "pr_scheduler q = pr_scheduler p" and "pr_global q = pr_global p" and "pr_channel_mgr q = pr_channel_mgr p"
    and "pr_slots q = pr_slots p" and "pr_subs q = pr_subs p" and "pr_pubs q = pr_pubs p" and "pr_next q = pr_next p"
    and "pr_data q = pr_data p" and "pr_called q = pr_called p"
  using assms by (auto simp: get_receiver_def map_sum_Inr split: option.splits)

lemma enable_writers_frame: "enable_writers pf ou key ws p = Inr q \<Longrightarrow> q = p\<lparr>pr_dispatcher := pr_dispatcher q\<rparr>"
  by (induction ws arbitrary: p) (fastforce simp: sbind_Inr_conv split: option.splits)+

lemma sub_join_frame:
  assumes "sub_join_topology pf ou i su p = Some (Inr q)"
  shows "pr_scheduler q = pr_scheduler p" and "gd_tasks (pr_global q) = gd_tasks (pr_global p)"
    and "pr_slots q = pr_slots p @ [Sub_slot i]" and "pr_subs q = pr_subs p" and "dom (pr_pubs q) = dom (pr_pubs p)"
    and "pr_next q = pr_next p"
    and "\<exists>c. register_name (pf_name_hash pf) (ra_channel_name (su_attr su)) (gd_channels (pr_global p)) = Some (c, gd_channels (pr_global q))"
    and "pr_data q = pr_data p" and "pr_called q = pr_called p"
proof -
  from assms obtain cid t p2 ok where en: "enable_writers pf ou (su_type su, ra_channel_name (su_attr su))
      (snd (mw_search_attrs cid (chm_channel_writers (pr_channel_mgr p)) []))
      (p\<lparr>pr_slots := pr_slots p @ [Sub_slot i], pr_global := (pr_global p)\<lparr>gd_channels := t\<rparr>\<rparr>) = Inr p2"
    and jn: "channel_join pf ou (su_attr su) ROLE_READER p2 = Inr (ok, q)"
    and reg: "register_name (pf_name_hash pf) (ra_channel_name (su_attr su)) (gd_channels (pr_global p)) = Some (cid, t)"
    by (auto simp: sub_join_topology_def get_writers_of_channel_def register_channel_def res_simps Let_def
        Option.bind_eq_Some_conv simp del: enable_writers.simps)
  from channel_join_frame(1) [OF jn] obtain m where "calls_frame (p2\<lparr>pr_channel_mgr := m\<rparr>) q" by blast
  moreover note enable_writers_frame [OF en]
  moreover have "pr_scheduler p2 = pr_scheduler p" "pr_global p2 = (pr_global p)\<lparr>gd_channels := t\<rparr>" "pr_slots p2 = pr_slots p @ [Sub_slot i]"
    "pr_subs p2 = pr_subs p" "pr_pubs p2 = pr_pubs p" "pr_next p2 = pr_next p" "pr_data p2 = pr_data p" "pr_called p2 = pr_called p"
    by (subst calculation(2), simp)+
  ultimately show "pr_scheduler q = pr_scheduler p" "gd_tasks (pr_global q) = gd_tasks (pr_global p)"
    "pr_slots q = pr_slots p @ [Sub_slot i]" "pr_subs q = pr_subs p" "dom (pr_pubs q) = dom (pr_pubs p)"
    "pr_next q = pr_next p"
    "\<exists>c. register_name (pf_name_hash pf) (ra_channel_name (su_attr su)) (gd_channels (pr_global p)) = Some (c, gd_channels (pr_global q))"
    "pr_data q = pr_data p" "pr_called q = pr_called p"
    using reg by (simp_all add: calls_frame_def)
qed

text \<open>A successful \<open>Init\<close> from the outside.\<close>

lemma subscriber_init_frame:
  assumes "subscriber_init pf ou i p = Some (Inr (True, q))" and "pr_subs p i = Some su" and "\<not> su_init su"
  shows "\<exists>g. create_task (pf_name_hash pf) (uint (ou_now ou)) (ra_node_name (su_attr su) @ ''_'' @ ra_channel_name (su_attr su))
      (pr_scheduler p, pr_global p) = Some (Inr (True, pr_scheduler q, g)) \<and> gd_tasks g = gd_tasks (pr_global q)"
    and "\<exists>has v. pr_subs q = (pr_subs p)(i \<mapsto> joined_sub su has v)" and "pr_slots q = pr_slots p @ [Sub_slot i]"
    and "dom (pr_pubs q) = dom (pr_pubs p)" and "pr_next q = pr_next p + 2"
    and "\<exists>c. register_name (pf_name_hash pf) (ra_channel_name (su_attr su)) (gd_channels (pr_global p)) = Some (c, gd_channels (pr_global q))"
proof -
  from subscriber_init_stages [OF assms] obtain v p4 has p5 where
    task: "create_task (pf_name_hash pf) (uint (ou_now ou)) (ra_node_name (su_attr su) @ ''_'' @ ra_channel_name (su_attr su))
      (pr_scheduler p, pr_global p) = Some (Inr (True, pr_scheduler p4, pr_global p4))"
    and p4: "pr_slots p4 = pr_slots p" "pr_pubs p4 = pr_pubs p" "pr_next p4 = pr_next p + 2" "\<exists>su1. pr_subs p4 = (pr_subs p)(i \<mapsto> su1)"
    and recv: "get_receiver pf ou (su_type su) (su_attr su) p4 = Inr (has, p5)"
    and join: "sub_join_topology pf ou i (joined_sub su has v) (put_sub i (joined_sub su has v) p5) = Some (Inr q)"
    by blast
  note frames = get_receiver_frame [OF recv] sub_join_frame [OF join]
  show "\<exists>g. create_task (pf_name_hash pf) (uint (ou_now ou)) (ra_node_name (su_attr su) @ ''_'' @ ra_channel_name (su_attr su))
      (pr_scheduler p, pr_global p) = Some (Inr (True, pr_scheduler q, g)) \<and> gd_tasks g = gd_tasks (pr_global q)"
    using task frames by auto
  have "pr_subs q = (pr_subs p)(i \<mapsto> joined_sub su has v)" using p4(4) frames by auto
  then show "\<exists>has v. pr_subs q = (pr_subs p)(i \<mapsto> joined_sub su has v)" by blast
  show "pr_slots q = pr_slots p @ [Sub_slot i]" "dom (pr_pubs q) = dom (pr_pubs p)" "pr_next q = pr_next p + 2"
    using p4 frames by simp_all
  show "\<exists>c. register_name (pf_name_hash pf) (ra_channel_name (su_attr su)) (gd_channels (pr_global p)) = Some (c, gd_channels (pr_global q))"
    using frames(8,2) create_task_frame(1) [OF task] frames by auto
qed

lemma fill_in_attr_laws:
  assumes "fill_in_attr pf nc attr p = Some (new_attr, q)"
  shows "ra_node_name new_attr = string_assign_u64 (ra_node_id (nc_node_attr nc))" and "ra_channel_name new_attr = ra_channel_name attr"
    and "ra_id new_attr = ra_id attr" and "\<exists>t. q = p\<lparr>pr_global := (pr_global p)\<lparr>gd_channels := t\<rparr>\<rparr>"
  using assms by (auto simp: fill_in_attr_def register_channel_def)

lemma create_subscriber_unfold:
  assumes "create_subscriber pf ou nc typ attr cb n p = Some (Inr (r, q))" and "ra_channel_name attr \<noteq> ''''"
  shows "\<exists>new_attr p1 ok p3. fill_in_attr pf nc attr p = Some (new_attr, p1) \<and>
    subscriber_init pf ou (pr_next p) (put_sub (pr_next p) (subscriber_new typ new_attr cb n)
      (p1\<lparr>pr_next := pr_next p + 1\<rparr>)) = Some (Inr (ok, p3)) \<and>
    (if ok then r = Some (pr_next p) \<and> q = p3 else r = None \<and> q = p3\<lparr>pr_subs := (pr_subs p3)(pr_next p := None)\<rparr>)"
proof -
  from assms obtain new_attr p1 where fill: "fill_in_attr pf nc attr p = Some (new_attr, p1)"
    and rest: "rbind (subscriber_init pf ou (pr_next p1) (put_sub (pr_next p1) (subscriber_new typ new_attr cb n)
        (p1\<lparr>pr_next := pr_next p1 + 1\<rparr>)))
      (\<lambda>(ok, p3). Some (Inr (if ok then (Some (pr_next p1), p3) else (None, p3\<lparr>pr_subs := (pr_subs p3)(pr_next p1 := None)\<rparr>))))
      = Some (Inr (r, q))"
    by (auto simp: create_subscriber_def Option.bind_eq_Some_conv Let_def)
  have nx: "pr_next p1 = pr_next p" using fill_in_attr_laws(4) [OF fill] by auto
  from rest obtain ok p3 where "subscriber_init pf ou (pr_next p1) (put_sub (pr_next p1) (subscriber_new typ new_attr cb n)
      (p1\<lparr>pr_next := pr_next p1 + 1\<rparr>)) = Some (Inr (ok, p3))"
    "(r, q) = (if ok then (Some (pr_next p1), p3) else (None, p3\<lparr>pr_subs := (pr_subs p3)(pr_next p1 := None)\<rparr>))"
    unfolding rbind_Some by auto
  with fill nx show ?thesis by (intro exI [of _ new_attr] exI [of _ p1] exI [of _ ok] exI [of _ p3]) (simp split: if_splits)
qed

end
