(* ===== verification/Node_Safety.thy ===== *)
theory Node_Safety
  imports Node_Claims
begin

text \<open>
  Whatever a process does with its nodes, publishers and subscribers and whatever arrives from other processes,
  the connections of the topology's signal belong to live objects and no null pointer is followed.
\<close>

section \<open>Reading never follows a null pointer\<close>

definition no_null :: "ub + 'a \<Rightarrow> bool" where
  "no_null r \<longleftrightarrow> r \<noteq> Inl NullPointer"

lemma no_null_Inr [simp]: "no_null (Inr x)" by (simp add: no_null_def)

lemma no_null_Inl [simp]: "no_null (Inl e) \<longleftrightarrow> e \<noteq> NullPointer" by (simp add: no_null_def)

lemma no_null_sbind: "no_null m \<Longrightarrow> (\<And>x. no_null (f x)) \<Longrightarrow> no_null (sbind m f)"
  by (cases m) simp_all

lemma no_null_map_sum [simp]: "no_null (map_sum id f r) \<longleftrightarrow> no_null r"
  by (cases r) simp_all

named_theorems null_free

lemma bytes_at_no_null [null_free]: "no_null (bytes_at n s)"
  by (simp add: bytes_at_def)

lemma read_tag_no_null [null_free]: "no_null (read_tag t s)"
  by (auto simp: read_tag_def peek_def Let_def intro!: no_null_sbind)

lemma read_scalar_no_null [null_free]: "no_null (read_scalar h t n v s)"
  by (auto simp: read_scalar_def Let_def intro!: no_null_sbind null_free)

lemma read_len_no_null [null_free]: "no_null (read_len h s)"
  by (auto simp: read_len_def read_int32_def intro!: no_null_sbind null_free split: option.split)

lemma read_string_no_null [null_free]: "no_null (read_string h v s)"
  by (auto simp: read_string_def intro!: no_null_sbind null_free)

lemma read_enum_no_null [null_free]: "no_null (read_enum h f g v s)"
  by (auto simp: read_enum_def read_int32_def intro!: no_null_sbind null_free)

lemma read_args_no_null:
  assumes "\<And>f r s. f \<in> set fs \<Longrightarrow> no_null (f r s)"
  shows "no_null (read_args fs r s)"
  using assms by (induction fs arbitrary: r s) (auto intro!: no_null_sbind)

lemma unserialize_no_null:
  assumes "\<And>f r s. f \<in> set fs \<Longrightarrow> no_null (f r s)"
  shows "no_null (unserialize fs r s)"
  using assms by (auto simp: unserialize_def read_raw_def intro!: no_null_sbind null_free read_args_no_null)

lemma field_of_no_null: "(\<And>v s. no_null (rd v s)) \<Longrightarrow> no_null (field_of get put rd r s)"
  by (auto simp: field_of_def intro!: no_null_sbind)

lemma object_field_no_null: "(\<And>r s. no_null (uns r s)) \<Longrightarrow> no_null (object_field get put uns r s)"
  by (auto simp: object_field_def intro!: no_null_sbind)

lemma read_int_no_null [null_free]: "no_null (read_int32 h v s)" "no_null (read_uint32 h v s)" "no_null (read_uint64 h u s)"
  by (simp_all add: read_int32_def read_uint32_def read_uint64_def null_free)

lemma qos_unserialize_no_null: "no_null (qos_unserialize h r s)"
  unfolding qos_unserialize_def
  by (rule unserialize_no_null) (auto intro: field_of_no_null null_free)

lemma attr_unserialize_no_null: "no_null (attr_unserialize h r s)"
  unfolding attr_unserialize_def string_field_def
  by (rule unserialize_no_null) (auto intro: field_of_no_null object_field_no_null qos_unserialize_no_null null_free)

lemma change_unserialize_no_null: "no_null (change_unserialize h r s)"
  unfolding change_unserialize_def
  by (rule unserialize_no_null) (auto intro: field_of_no_null object_field_no_null attr_unserialize_no_null null_free)

lemma manager_no_null:
  "no_null (manager_join h chk dis now attr role w m)" "no_null (manager_leave h chk dis now attr role m)"
  "no_null (on_remote_change h chk dis fresh bs m)"
  by (auto simp: manager_join_def manager_leave_def manager_write_def on_remote_change_def Let_def
      intro!: no_null_sbind change_unserialize_no_null)

section \<open>The wiring of a process\<close>

definition tags_ok :: "(data_listener, call_log) rtps_dispatcher \<Rightarrow> bool" where
  "tags_ok d \<longleftrightarrow> (\<forall>c typ h. dp_msg_listeners d c = Some (typ, h) \<longrightarrow> typ = std_string)"

definition transmitter_ok :: "rtps_transmitter \<Rightarrow> bool" where
  "transmitter_ok tr \<longleftrightarrow> (rt_enabled tr \<longrightarrow> rt_writer tr \<noteq> None)"

definition subs_wired :: "process \<Rightarrow> bool" where
  "subs_wired p \<longleftrightarrow> (\<forall>i. Sub_slot i \<in> set (pr_slots p) \<longleftrightarrow> (\<exists>su. pr_subs p i = Some su \<and> su_init su)) \<and>
     (\<forall>i su. pr_subs p i = Some su \<longrightarrow> i < pr_next p \<and> (su_init su \<longrightarrow>
        (\<exists>rv. pr_receivers p (su_type su, ra_channel_name (su_attr su)) = Some (Some rv))))"

definition pubs_wired :: "process \<Rightarrow> bool" where
  "pubs_wired p \<longleftrightarrow> (\<forall>i. Pub_slot i \<in> set (pr_slots p) \<longleftrightarrow> (\<exists>pb. pr_pubs p i = Some pb \<and> pb_init pb)) \<and>
     (\<forall>i pb. pr_pubs p i = Some pb \<longrightarrow> i < pr_next p \<and> (pb_init pb \<longrightarrow>
        (\<exists>tr. pb_transmitter pb = Some tr \<and> transmitter_ok tr)))"

definition wired :: "process \<Rightarrow> bool" where
  "wired p \<longleftrightarrow> distinct (pr_slots p) \<and> subs_wired p \<and> pubs_wired p \<and> (\<forall>key. pr_receivers p key \<noteq> Some None) \<and>
     \<not> pr_transport_shutdown p \<and> tags_ok (pr_dispatcher p)"

definition safe :: "process result \<Rightarrow> bool" where
  "safe r \<longleftrightarrow> (case r of None \<Rightarrow> True | Some (Inl e) \<Rightarrow> e \<noteq> NullPointer | Some (Inr p) \<Rightarrow> wired p)"

lemma wiredD:
  assumes "wired p"
  shows "distinct (pr_slots p)" "subs_wired p" "pubs_wired p" "\<And>key. pr_receivers p key \<noteq> Some None"
    "\<not> pr_transport_shutdown p" "tags_ok (pr_dispatcher p)"
  using assms unfolding wired_def by blast+

lemma wired_frame:
  assumes "wired p" and "pr_slots q = pr_slots p" and "pr_subs q = pr_subs p" and "pr_pubs q = pr_pubs p"
    and "pr_receivers q = pr_receivers p" and "pr_next q = pr_next p" and "pr_transport_shutdown q = pr_transport_shutdown p"
    and "tags_ok (pr_dispatcher q)"
  shows "wired q"
  using assms by (simp add: wired_def subs_wired_def pubs_wired_def)

lemma listeners_tags_ok:
  assumes "tags_ok d"
  shows "tags_ok (add_listener_to std_string u a b c d)" and "tags_ok (add_listener std_string u a c d)"
    and "tags_ok (remove_listener_from a b d)" and "tags_ok (remove_listener a d)"
  using assms by (auto simp: tags_ok_def add_listener_to_def add_listener_def remove_listener_from_def remove_listener_def
      Let_def split: option.splits if_splits)

lemma add_reader_ok:
  assumes "ou_participant ou" and "tags_ok d"
  shows "\<exists>d1. add_reader hash ou a d = Inr d1 \<and> tags_ok d1"
  using assms by (auto simp: add_reader_def tags_ok_def)

lemma enable_to_ok:
  assumes "ou_participant ou" and "tags_ok d"
  shows "\<exists>d1. rtps_receiver_enable_to hash ou u a rv d = Inr d1 \<and> tags_ok d1"
  using add_reader_ok [OF assms(1) listeners_tags_ok(1) [OF assms(2)]]
  by (simp add: rtps_receiver_enable_to_def rtps_add_listener_to_def)

lemma transmitter_enable_ok:
  assumes "ou_participant ou" and "transmitter_ok tr"
  shows "\<exists>tr1. rtps_transmitter_enable ou tr = Inr tr1 \<and> transmitter_ok tr1" and "transmitter_ok (rtps_transmitter_disable tr)"
  using assms by (auto simp: rtps_transmitter_enable_def rtps_transmitter_disable_def transmitter_ok_def rt_enabled_def Let_def)

section \<open>Running the slots\<close>

lemma run_slot_safe:
  assumes "wired p" and "s \<in> set (pr_slots p)" and "ou_participant ou"
  shows "\<exists>q. run_slot pf ou msg s p = Inr q \<and> wired q"
proof (cases s)
  case (Sub_slot i)
  with assms wiredD(2) [OF assms(1)] obtain su rv where su: "pr_subs p i = Some su"
    "pr_receivers p (su_type su, ra_channel_name (su_attr su)) = Some (Some rv)"
    by (metis subs_wired_def)
  from enable_to_ok [OF assms(3) wiredD(6) [OF assms(1)]] obtain d where
    d: "rtps_receiver_enable_to (pf_hash pf) ou ([], []) (cm_role_attr msg) rv (pr_dispatcher p) = Inr d" "tags_ok d" by blast
  have "tags_ok (rtps_receiver_disable_to (cm_role_attr msg) rv (pr_dispatcher p))"
    using listeners_tags_ok(3) [OF wiredD(6) [OF assms(1)]] by (simp add: rtps_receiver_disable_to_def)
  with su d assms(1) Sub_slot show ?thesis
    by (auto simp: sub_on_channel_change_def intro: wired_frame [OF assms(1)])
next
  case (Pub_slot i)
  with assms wiredD(3) [OF assms(1)] obtain pb tr where pb: "pr_pubs p i = Some pb" "pb_init pb" "i < pr_next p"
    "pb_transmitter pb = Some tr" "transmitter_ok tr"
    by (metis pubs_wired_def)
  have change: "\<exists>pb1 tr1. publisher_change ou msg pb = Inr pb1 \<and> pb_init pb1 \<and> pb_transmitter pb1 = Some tr1 \<and> transmitter_ok tr1"
    using pb transmitter_enable_ok [OF assms(3) pb(5)]
    by (auto simp: publisher_change_def transmitter_enable_to_def transmitter_disable_to_def)
  then obtain pb1 tr1 where pb1: "publisher_change ou msg pb = Inr pb1" "pb_init pb1" "pb_transmitter pb1 = Some tr1"
    "transmitter_ok tr1" by blast
  have "wired (p\<lparr>pr_pubs := (pr_pubs p)(i \<mapsto> pb1)\<rparr>)"
    using assms(1) pb pb1 by (auto simp: wired_def subs_wired_def pubs_wired_def)
  with pb pb1(1) Pub_slot show ?thesis by (simp add: pub_on_channel_change_def)
qed

lemma run_slot_slots: "run_slot pf ou msg s p = Inr q \<Longrightarrow> pr_slots q = pr_slots p"
  using sub_slot_frame pub_slot_frame by (cases s) (fastforce simp: calls_frame_def simp del: run_slot.simps)+

lemma run_slots_safe:
  assumes "wired p" and "set ss \<subseteq> set (pr_slots p)" and "ou_participant ou"
  shows "\<exists>q. run_slots pf ou msg ss p = Inr q \<and> wired q"
  using assms(1,2)
proof (induction ss arbitrary: p)
  case (Cons s ss)
  then have "s \<in> set (pr_slots p)" by simp
  from run_slot_safe [OF Cons.prems(1) this assms(3), of pf msg] obtain p1 where
    p1: "run_slot pf ou msg s p = Inr p1" "wired p1" by blast
  with run_slot_slots Cons.prems(2) have "set ss \<subseteq> set (pr_slots p1)" by (metis list.set_intros(2) subset_code(1))
  from Cons.IH [OF p1(2) this] p1(1) show ?case by simp
qed simp

lemma run_changes_safe:
  assumes "wired p" and "ou_participant ou"
  shows "\<exists>q. run_changes pf ou msgs p = Inr q \<and> wired q"
  using assms(1)
proof (induction msgs arbitrary: p)
  case (Cons msg msgs)
  from run_slots_safe [OF Cons.prems order_refl assms(2)] obtain p1 where
    "run_slots pf ou msg (pr_slots p) p = Inr p1" "wired p1" by blast
  with Cons.IH show ?case by simp
qed simp

lemma with_changes_safe:
  assumes "wired p" and "ou_participant ou" and "no_null res"
  shows "safe (Some (map_sum id snd (with_changes pf ou res p)))"
proof (cases res)
  case (Inl e)
  with assms(3) show ?thesis by (simp add: with_changes_def safe_def)
next
  case (Inr r)
  have "wired (p\<lparr>pr_channel_mgr := snd r\<rparr>)" by (rule wired_frame [OF assms(1)]) (simp_all add: wiredD [OF assms(1)])
  from run_changes_safe [OF this assms(2), of pf "drop (length (mg_emitted (pr_channel_mgr p))) (mg_emitted (snd r))"]
  obtain q where "run_changes pf ou (drop (length (mg_emitted (pr_channel_mgr p))) (mg_emitted (snd r)))
    (p\<lparr>pr_channel_mgr := snd r\<rparr>) = Inr q" "wired q" by blast
  with Inr show ?thesis by (simp add: with_changes_def safe_def case_prod_beta)
qed

lemma channel_ops_safe:
  assumes "wired p" and "ou_participant ou"
  shows "safe (Some (map_sum id snd (channel_join pf ou attr role p)))"
    and "safe (Some (map_sum id snd (channel_leave pf ou attr role p)))"
    and "safe (Some (map_sum id snd (channel_remote_change pf ou fresh bs p)))"
  using assms by (auto simp: channel_join_def channel_leave_def channel_remote_change_def
      intro!: with_changes_safe manager_no_null)

section \<open>The operations of a process\<close>

datatype process_op =
    MakeSub outside node_channel nat role_attributes "nat option" u32
  | MakePub outside node_channel nat role_attributes
  | EndSub outside nat
  | EndPub outside nat
  | RemoteChange outside change_msg "byte list"
  | Send outside "byte list" nat
  | Receive u64 "u32 \<times> u32" rtps_change
  | Slice nat

text \<open>The end of an object is its destructor, which calls \<open>Shutdown\<close>. Fast DDS calls readers that exist.\<close>

fun process_step :: "platform \<Rightarrow> process_op \<Rightarrow> process \<Rightarrow> process result" where
  "process_step pf (MakeSub ou nc typ attr cb n) p = map_option (map_sum id snd) (create_subscriber pf ou nc typ attr cb n p)"
| "process_step pf (MakePub ou nc typ attr) p = map_option (map_sum id snd) (create_publisher pf ou nc typ attr p)"
| "process_step pf (EndSub ou i) p = (if pr_subs p i = None then Some (Inr p)
     else rbind (subscriber_shutdown pf ou i p) (\<lambda>q. Some (Inr (q\<lparr>pr_subs := (pr_subs q)(i := None)\<rparr>))))"
| "process_step pf (EndPub ou i) p = (if pr_pubs p i = None then Some (Inr p)
     else Some (map_sum id (\<lambda>q. q\<lparr>pr_pubs := (pr_pubs q)(i := None)\<rparr>) (publisher_shutdown pf ou i p)))"
| "process_step pf (RemoteChange ou fresh bs) p = Some (map_sum id snd (channel_remote_change pf ou fresh bs p))"
| "process_step pf (Send ou payload i) p = (if pr_pubs p i = None then Some (Inr p)
     else Some (map_sum id snd (publisher_publish ou payload i p)))"
| "process_step pf (Receive key seq ch) p = (if rd_readers (pr_dispatcher p) key = None then Some (Inr p)
     else Some (process_receive pf key seq ch p))"
| "process_step pf (Slice i) p = Some (Inr (subscriber_slice i p))"

fun run_process :: "platform \<Rightarrow> process_op list \<Rightarrow> process \<Rightarrow> process result" where
  "run_process pf [] p = Some (Inr p)"
| "run_process pf (x # xs) p = rbind (process_step pf x p) (run_process pf xs)"

fun has_participant :: "process_op \<Rightarrow> bool" where
  "has_participant (MakeSub ou _ _ _ _ _) = ou_participant ou"
| "has_participant (MakePub ou _ _ _) = ou_participant ou"
| "has_participant (EndSub ou _) = ou_participant ou"
| "has_participant (EndPub ou _) = ou_participant ou"
| "has_participant (RemoteChange ou _ _) = ou_participant ou"
| "has_participant _ = True"

section \<open>Every operation is safe\<close>

lemma run_changes_frame: "run_changes pf ou msgs p = Inr q \<Longrightarrow> calls_frame p q"
proof (induction msgs arbitrary: p)
  case (Cons msg msgs)
  then obtain p1 where "run_slots pf ou msg (pr_slots p) p = Inr p1" "calls_frame p1 q" by (auto simp: sbind_Inr_conv)
  with run_slots_frame calls_frame_trans show ?case by blast
qed simp

lemma with_changes_frame:
  assumes "with_changes pf ou res p = Inr (ok, q)"
  shows "pr_slots q = pr_slots p" and "pr_subs q = pr_subs p" and "pr_next q = pr_next p" and "dom (pr_pubs q) = dom (pr_pubs p)"
proof -
  from assms obtain m where "run_changes pf ou (drop (length (mg_emitted (pr_channel_mgr p))) (mg_emitted m))
      (p\<lparr>pr_channel_mgr := m\<rparr>) = Inr q"
    by (auto simp: with_changes_def sbind_Inr_conv map_sum_Inr)
  from run_changes_frame [OF this] show "pr_slots q = pr_slots p" "pr_subs q = pr_subs p" "pr_next q = pr_next p"
    "dom (pr_pubs q) = dom (pr_pubs p)" by (simp_all add: calls_frame_def)
qed

lemma safe_Inr [simp]: "safe (Some (Inr p)) \<longleftrightarrow> wired p" by (simp add: safe_def)

lemma safe_Inl [simp]: "safe (Some (Inl e)) \<longleftrightarrow> e \<noteq> NullPointer" by (simp add: safe_def)

lemma safe_None [simp]: "safe None" by (simp add: safe_def)

lemma wired_set_sub:
  assumes "wired p" and "Sub_slot i \<notin> set (pr_slots p)" and "\<And>su. x = Some su \<Longrightarrow> \<not> su_init su \<and> i < pr_next p"
  shows "wired (p\<lparr>pr_subs := (pr_subs p)(i := x)\<rparr>)"
  using assms by (auto simp: wired_def subs_wired_def pubs_wired_def)

lemma wired_set_pub:
  assumes "wired p" and "Pub_slot i \<notin> set (pr_slots p)" and "\<And>pb. x = Some pb \<Longrightarrow> \<not> pb_init pb \<and> i < pr_next p"
  shows "wired (p\<lparr>pr_pubs := (pr_pubs p)(i := x)\<rparr>)"
  using assms by (auto simp: wired_def subs_wired_def pubs_wired_def)

lemma sub_slot_iff: "wired p \<Longrightarrow> Sub_slot i \<in> set (pr_slots p) \<longleftrightarrow> (\<exists>su. pr_subs p i = Some su \<and> su_init su)"
  by (simp add: wired_def subs_wired_def)

lemma pub_slot_iff: "wired p \<Longrightarrow> Pub_slot i \<in> set (pr_slots p) \<longleftrightarrow> (\<exists>pb. pr_pubs p i = Some pb \<and> pb_init pb)"
  by (simp add: wired_def pubs_wired_def)

lemma wired_known: "wired p \<Longrightarrow> pr_subs p i = Some su \<Longrightarrow> i < pr_next p" "wired p \<Longrightarrow> pr_pubs p i = Some pb \<Longrightarrow> i < pr_next p"
  by (auto simp: wired_def subs_wired_def pubs_wired_def)

lemma drop_buffer_simps [simp]:
  "pr_subs (drop_buffer v p) = pr_subs p" "pr_pubs (drop_buffer v p) = pr_pubs p" "pr_slots (drop_buffer v p) = pr_slots p"
  "pr_receivers (drop_buffer v p) = pr_receivers p" "pr_dispatcher (drop_buffer v p) = pr_dispatcher p"
  "pr_next (drop_buffer v p) = pr_next p" "pr_transport_shutdown (drop_buffer v p) = pr_transport_shutdown p"
  by (simp_all add: drop_buffer_def)

lemma end_sub_safe:
  assumes p: "wired p" and su: "pr_subs p i = Some su" and ou: "ou_participant ou"
  shows "safe (rbind (subscriber_shutdown pf ou i p) (\<lambda>q. Some (Inr (q\<lparr>pr_subs := (pr_subs q)(i := None)\<rparr>))))"
proof (cases "su_init su")
  case False
  with p su sub_slot_iff [OF p, of i] wired_set_sub [OF p, of i None] show ?thesis
    by (simp add: subscriber_shutdown_def rbind_def)
next
  case True
  let ?p1 = "put_sub i (su\<lparr>su_init := False\<rparr>) (p\<lparr>pr_slots := filter (\<lambda>s. s \<noteq> Sub_slot i) (pr_slots p)\<rparr>)"
  have p1: "wired ?p1" using p su by (auto simp: wired_def subs_wired_def pubs_wired_def)
  show ?thesis
  proof (cases "channel_leave pf ou (su_attr su) ROLE_READER ?p1")
    case (Inl e)
    with channel_ops_safe(2) [OF p1 ou, of pf "su_attr su" ROLE_READER] su True show ?thesis
      by (simp add: subscriber_shutdown_def rbind_def Let_def)
  next
    case (Inr r)
    then obtain ok p2 where leave: "channel_leave pf ou (su_attr su) ROLE_READER ?p1 = Inr (ok, p2)" by (cases r) simp
    have p2: "wired p2" using channel_ops_safe(2) [OF p1 ou, of pf "su_attr su" ROLE_READER] leave by simp
    moreover have "Sub_slot i \<notin> set (pr_slots p2)"
      using with_changes_frame(1) [OF leave [unfolded channel_leave_def]] by simp
    ultimately have gone: "wired (p2\<lparr>pr_subs := (pr_subs p2)(i := None)\<rparr>)" by (rule wired_set_sub) simp
    have ended: "wired q"
      if "pr_slots q = pr_slots p2" "pr_subs q = (pr_subs p2)(i := None)" "pr_pubs q = pr_pubs p2"
        "pr_receivers q = pr_receivers p2" "pr_next q = pr_next p2" "pr_transport_shutdown q = pr_transport_shutdown p2"
        "pr_dispatcher q = pr_dispatcher p2" for q
      by (rule wired_frame [OF gone]) (use that p2 in \<open>simp_all add: wiredD\<close>)
    show ?thesis
    proof (cases "remove_task (pf_name_hash pf) (su_croutine_name su) (pr_scheduler p2)")
      case None
      with leave su True show ?thesis
        by (auto simp: subscriber_shutdown_def rbind_def Let_def intro!: ended)
    next
      case (Some r)
      with leave su True show ?thesis
        by (cases r) (auto simp: subscriber_shutdown_def rbind_def Let_def intro!: ended split: option.split)
    qed
  qed
qed

lemma put_pub_simps [simp]:
  "pr_subs (put_pub i pb p) = pr_subs p" "pr_pubs (put_pub i pb p) = (pr_pubs p)(i \<mapsto> pb)" "pr_slots (put_pub i pb p) = pr_slots p"
  "pr_receivers (put_pub i pb p) = pr_receivers p" "pr_dispatcher (put_pub i pb p) = pr_dispatcher p"
  "pr_next (put_pub i pb p) = pr_next p" "pr_transport_shutdown (put_pub i pb p) = pr_transport_shutdown p"
  by (simp_all add: put_pub_def)

lemma end_pub_safe:
  assumes p: "wired p" and pb: "pr_pubs p i = Some pb" and ou: "ou_participant ou"
  shows "safe (Some (map_sum id (\<lambda>q. q\<lparr>pr_pubs := (pr_pubs q)(i := None)\<rparr>) (publisher_shutdown pf ou i p)))"
proof (cases "pb_init pb")
  case False
  with p pb pub_slot_iff [OF p, of i] wired_set_pub [OF p, of i None] show ?thesis
    by (simp add: publisher_shutdown_def)
next
  case True
  let ?p1 = "put_pub i (pb\<lparr>pb_init := False\<rparr>) (p\<lparr>pr_slots := filter (\<lambda>s. s \<noteq> Pub_slot i) (pr_slots p)\<rparr>)"
  have p1: "wired ?p1" using p pb by (auto simp: wired_def subs_wired_def pubs_wired_def)
  note leave_safe = channel_ops_safe(2) [OF p1 ou, of pf "pb_attr pb" ROLE_WRITER]
  show ?thesis
  proof (cases "channel_leave pf ou (pb_attr pb) ROLE_WRITER ?p1")
    case (Inl e)
    with leave_safe pb True show ?thesis by (simp add: publisher_shutdown_def)
  next
    case (Inr r)
    then obtain ok p2 where leave: "channel_leave pf ou (pb_attr pb) ROLE_WRITER ?p1 = Inr (ok, p2)" by (cases r) simp
    have p2: "wired p2" using leave_safe leave by simp
    moreover have "Pub_slot i \<notin> set (pr_slots p2)"
      using with_changes_frame(1) [OF leave [unfolded channel_leave_def]] by simp
    ultimately have gone: "wired (p2\<lparr>pr_pubs := (pr_pubs p2)(i := None)\<rparr>)" by (rule wired_set_pub) simp
    have "wired (put_pub i (pb\<lparr>pb_init := False, pb_transmitter := None\<rparr>) p2\<lparr>pr_pubs := (pr_pubs p2)(i := None)\<rparr>)"
      by (rule wired_frame [OF gone]) (use p2 in \<open>simp_all add: wiredD\<close>)
    with leave pb True show ?thesis by (simp add: publisher_shutdown_def)
  qed
qed

lemma send_safe:
  assumes p: "wired p" and pb: "pr_pubs p i = Some pb"
  shows "safe (Some (map_sum id snd (publisher_publish ou payload i p)))"
proof (cases "pb_init pb")
  case False
  with p pb show ?thesis by (simp add: publisher_publish_def)
next
  case True
  with p pb obtain tr where tr: "pb_transmitter pb = Some tr" "transmitter_ok tr" "i < pr_next p"
    by (metis pubs_wired_def wiredD(3))
  have keep: "wired (put_pub i (pb\<lparr>pb_transmitter := Some tr1\<rparr>) p\<lparr>pr_sent := x\<rparr>)" if "transmitter_ok tr1" for tr1 x
    using p pb that by (auto simp: wired_def subs_wired_def pubs_wired_def)
  have "transmitter_ok (tr\<lparr>rt_seq_num := n, rt_msg_info := mi\<rparr>)" for n mi
    using tr(2) by (simp add: transmitter_ok_def rt_enabled_def)
  with keep tr pb True show ?thesis
    by (auto simp: publisher_publish_def rtps_transmit_next_def rtps_transmit_def transmitter_ok_def rt_enabled_def Let_def
        split: option.splits)
qed

lemma dispatch_calls_frame:
  "pr_subs (dispatch_calls cs p) = pr_subs p \<and> pr_pubs (dispatch_calls cs p) = pr_pubs p \<and>
   pr_slots (dispatch_calls cs p) = pr_slots p \<and> pr_receivers (dispatch_calls cs p) = pr_receivers p \<and>
   pr_dispatcher (dispatch_calls cs p) = pr_dispatcher p \<and> pr_next (dispatch_calls cs p) = pr_next p \<and>
   pr_transport_shutdown (dispatch_calls cs p) = pr_transport_shutdown p"
proof (induction cs p rule: dispatch_calls.induct)
  case (2 tn cid m cs p)
  then show ?case by (simp add: Let_def split: prod.split)
qed simp

lemma receive_safe:
  assumes p: "wired p" and r: "rd_readers (pr_dispatcher p) key = Some r"
  shows "safe (Some (process_receive pf key seq ch p))"
proof -
  have tags: "\<And>c typ h. dp_msg_listeners (pr_dispatcher p) c = Some (typ, h) \<Longrightarrow> typ = std_string"
    using wiredD(6) [OF p] unfolding tags_ok_def by blast
  have "\<exists>u d. on_new_cache_change record_call (pf_hash pf) (pf_name_hash pf) key seq ch ([], []) (pr_dispatcher p) = Inr (u, d) \<and> tags_ok d"
    using r tags wiredD(6) [OF p] by (auto simp: on_new_cache_change_def rtps_on_message_def tags_ok_def Let_def
        split: option.splits prod.splits)
  then obtain u d where
    ud: "on_new_cache_change record_call (pf_hash pf) (pf_name_hash pf) key seq ch ([], []) (pr_dispatcher p) = Inr (u, d)" "tags_ok d"
    by blast
  have "wired (dispatch_calls (fst u) (p\<lparr>pr_dispatcher := d\<rparr>))"
    by (rule wired_frame [OF p]) (simp_all add: dispatch_calls_frame ud(2))
  with ud(1) show ?thesis by (simp add: process_receive_def)
qed

lemma slice_safe:
  assumes p: "wired p"
  shows "wired (subscriber_slice i p)"
proof -
  have keep: "wired (put_sub i su1 p)" if "pr_subs p i = Some su" "su_init su1 = su_init su" "su_type su1 = su_type su"
    "su_attr su1 = su_attr su" for su su1
    using p that by (auto simp: wired_def subs_wired_def pubs_wired_def)
  have called: "wired (q\<lparr>pr_called := x\<rparr>)" if "wired q" for q x
    by (rule wired_frame [OF that]) (simp_all add: wiredD [OF that])
  show ?thesis
    using p by (auto simp: subscriber_slice_def subscriber_func_def subscriber_enqueue_def Let_def
        split: option.split prod.split bool.split list.split intro!: called keep)
qed

section \<open>Making objects\<close>

lemma wired_connect_pub:
  assumes p: "wired p" and new: "Pub_slot i \<notin> set (pr_slots p)" and "i < pr_next p"
    and "pb_init pb" and "pb_transmitter pb = Some tr" and "transmitter_ok tr"
  shows "wired (put_pub i pb (p\<lparr>pr_slots := pr_slots p @ [Pub_slot i]\<rparr>))"
proof -
  have "pubs_wired (put_pub i pb (p\<lparr>pr_slots := pr_slots p @ [Pub_slot i]\<rparr>))"
    using wiredD(3) [OF p] assms(3-6) unfolding pubs_wired_def by simp
  moreover have "subs_wired (put_pub i pb (p\<lparr>pr_slots := pr_slots p @ [Pub_slot i]\<rparr>))"
    using wiredD(2) [OF p] unfolding subs_wired_def by simp
  ultimately show ?thesis using p new by (simp add: wired_def)
qed

lemma wired_connect_sub:
  assumes p: "wired p" and new: "Sub_slot i \<notin> set (pr_slots p)" and "i < pr_next p" and "su_init su"
    and "pr_receivers p (su_type su, ra_channel_name (su_attr su)) = Some (Some rv)"
  shows "wired (put_sub i su (p\<lparr>pr_slots := pr_slots p @ [Sub_slot i]\<rparr>))"
proof -
  have "subs_wired (put_sub i su (p\<lparr>pr_slots := pr_slots p @ [Sub_slot i]\<rparr>))"
    using wiredD(2) [OF p] assms(3-5) unfolding subs_wired_def by simp
  moreover have "pubs_wired (put_sub i su (p\<lparr>pr_slots := pr_slots p @ [Sub_slot i]\<rparr>))"
    using wiredD(3) [OF p] unfolding pubs_wired_def by simp
  ultimately show ?thesis using p new by (simp add: wired_def)
qed

lemma make_pub_safe:
  assumes p: "wired p" and ou: "ou_participant ou"
  shows "safe (map_option (map_sum id snd) (create_publisher pf ou nc typ attr p))"
proof (cases "ra_channel_name attr = ''''")
  case True
  with p show ?thesis by (simp add: create_publisher_def)
next
  case False
  show ?thesis
  proof (cases "fill_in_attr pf nc attr p")
    case None
    with False show ?thesis by (simp add: create_publisher_def)
  next
    case (Some r)
    then obtain a1 p1 where fill: "fill_in_attr pf nc attr p = Some (a1, p1)" by (cases r) simp
    then obtain t where p1: "p1 = p\<lparr>pr_global := (pr_global p)\<lparr>gd_channels := t\<rparr>\<rparr>" using fill_in_attr_laws(4) by blast
    let ?i = "pr_next p" and ?pb = "publisher_new typ a1"
    let ?p2 = "put_pub ?i ?pb (p1\<lparr>pr_next := ?i + 1\<rparr>)"
    have new: "Sub_slot ?i \<notin> set (pr_slots p)" "Pub_slot ?i \<notin> set (pr_slots p)"
      using wired_known [OF p, of ?i] sub_slot_iff [OF p] pub_slot_iff [OF p] by auto
    have p2: "wired ?p2"
      using p new by (auto simp: p1 wired_def subs_wired_def pubs_wired_def publisher_new_def less_Suc_eq)
    have tr0: "transmitter_ok (rtps_transmitter_new h ou host pid a)" for h host pid a
      by (simp add: transmitter_ok_def rtps_transmitter_new_def rt_enabled_def endpoint_new_def Let_def)
    from transmitter_enable_ok(1) [OF ou tr0 [of "pf_hash pf" "gd_host_name (pr_global ?p2)" "gd_process_id (pr_global ?p2)" "pb_attr ?pb"]]
    obtain tr where
      tr: "create_transmitter (pf_hash pf) ou (gd_host_name (pr_global ?p2)) (gd_process_id (pr_global ?p2))
        (pr_transport_shutdown ?p2) (pb_attr ?pb) = Inr (Some tr)" "transmitter_ok tr"
      using wiredD(5) [OF p2] by (auto simp: create_transmitter_def)
    let ?pb1 = "?pb\<lparr>pb_init := True, pb_transmitter := Some tr, pb_attr := (pb_attr ?pb)\<lparr>ra_id := id_hash_value (ep_id (rt_endpoint tr))\<rparr>\<rparr>"
    let ?p3 = "put_pub ?i ?pb1 (?p2\<lparr>pr_slots := pr_slots ?p2 @ [Pub_slot ?i]\<rparr>)"
    have p3: "wired ?p3"
      by (rule wired_connect_pub [OF p2, of _ _ tr]) (use new tr(2) in \<open>simp_all add: p1\<close>)
    note join = channel_ops_safe(1) [OF p3 ou, of pf "pb_attr ?pb1" ROLE_WRITER]
    have init: "publisher_init pf ou ?i ?p2 = map_sum id (\<lambda>(_, p1). (True, p1)) (channel_join pf ou (pb_attr ?pb1) ROLE_WRITER ?p3)"
      using tr(1) by (simp add: publisher_init_def publisher_new_def Let_def)
    have nx: "pr_next p1 = ?i" using p1 by simp
    show ?thesis
    proof (cases "channel_join pf ou (pb_attr ?pb1) ROLE_WRITER ?p3")
      case (Inl e)
      with join False fill init nx show ?thesis by (simp add: create_publisher_def Let_def)
    next
      case (Inr r)
      with join False fill init nx show ?thesis by (cases r) (simp add: create_publisher_def Let_def)
    qed
  qed
qed


lemma get_receiver_ok:
  assumes ou: "ou_participant ou" and "\<not> pr_transport_shutdown p" and tags: "tags_ok (pr_dispatcher p)"
    and none: "\<And>key. pr_receivers p key \<noteq> Some None"
  shows "\<exists>d r rv. get_receiver pf ou typ attr p = Inr (True, p\<lparr>pr_dispatcher := d, pr_receivers := r\<rparr>) \<and> tags_ok d \<and>
    r (typ, ra_channel_name attr) = Some (Some rv) \<and> (\<forall>key. r key \<noteq> Some None) \<and> pr_receivers p \<subseteq>\<^sub>m r"
proof (cases "pr_receivers p (typ, ra_channel_name attr)")
  case (Some x)
  with none obtain rv where "x = Some rv" by (cases x) auto
  with Some tags none show ?thesis
    by (intro exI [of _ "pr_dispatcher p"] exI [of _ "pr_receivers p"] exI [of _ rv]) (simp add: get_receiver_def)
next
  case None
  let ?rv = "rtps_receiver_new (pf_hash pf) ou (gd_host_name (pr_global p)) (gd_process_id (pr_global p)) attr (typ, ra_channel_id attr)"
  have new: "\<not> ep_enabled (rv_endpoint ?rv)" by (simp add: rtps_receiver_new_def endpoint_new_def Let_def)
  from add_reader_ok [OF ou listeners_tags_ok(2) [OF tags]] obtain d where
    d: "rtps_add_listener (pf_hash pf) ou ([], []) (rv_attr ?rv) (rv_listener ?rv) (pr_dispatcher p) = Inr d" "tags_ok d"
    unfolding rtps_add_listener_def by blast
  let ?rv1 = "?rv\<lparr>rv_endpoint := (rv_endpoint ?rv)\<lparr>ep_enabled := True\<rparr>\<rparr>"
  have "create_receiver (pf_hash pf) ou ([], []) (gd_host_name (pr_global p)) (gd_process_id (pr_global p))
      (pr_transport_shutdown p) attr (typ, ra_channel_id attr) (pr_dispatcher p) = Inr (Some ?rv1, d)"
    using new d(1) assms(2) by (simp add: create_receiver_def rtps_receiver_enable_def)
  with None d(2) none show ?thesis
    by (intro exI [of _ d] exI [of _ "(pr_receivers p)((typ, ra_channel_name attr) \<mapsto> Some ?rv1)"] exI [of _ ?rv1])
      (auto simp: get_receiver_def map_le_def)
qed

lemma enable_writers_ok:
  assumes ou: "ou_participant ou" and "pr_receivers p key = Some (Some rv)" and "tags_ok (pr_dispatcher p)"
  shows "\<exists>d. enable_writers pf ou key ws p = Inr (p\<lparr>pr_dispatcher := d\<rparr>) \<and> tags_ok d"
  using assms(2,3)
proof (induction ws arbitrary: p)
  case Nil
  then show ?case by (intro exI [of _ "pr_dispatcher p"]) simp
next
  case (Cons w ws)
  from enable_to_ok [OF ou Cons.prems(2)] obtain d where
    d: "rtps_receiver_enable_to (pf_hash pf) ou ([], []) w rv (pr_dispatcher p) = Inr d" "tags_ok d" by blast
  with Cons.IH [of "p\<lparr>pr_dispatcher := d\<rparr>"] Cons.prems show ?case by simp
qed

text \<open>What a process becomes when a subscriber connects: the joining of the topology starts from a wired state.\<close>

lemma sub_join_safe:
  assumes p: "wired p" and i: "Sub_slot i \<notin> set (pr_slots p)" "i < pr_next p" "su_init su" and ou: "ou_participant ou"
    and rv: "pr_receivers p (su_type su, ra_channel_name (su_attr su)) = Some (Some rv)"
  shows "safe (sub_join_topology pf ou i su (put_sub i su p))"
proof (cases "get_writers_of_channel (pf_name_hash pf) (pr_channel_mgr p) (ra_channel_name (su_attr su)) [] (pr_global p)")
  case None
  then show ?thesis by (simp add: sub_join_topology_def Let_def)
next
  case (Some r)
  let ?p1 = "(put_sub i su p)\<lparr>pr_slots := pr_slots p @ [Sub_slot i], pr_global := snd r\<rparr>"
  from enable_writers_ok [OF ou, of ?p1 _ rv] rv wiredD(6) [OF p] obtain d where
    d: "enable_writers pf ou (su_type su, ra_channel_name (su_attr su)) (fst r) ?p1 = Inr (?p1\<lparr>pr_dispatcher := d\<rparr>)" "tags_ok d"
    by fastforce
  have "wired (put_sub i su (p\<lparr>pr_slots := pr_slots p @ [Sub_slot i]\<rparr>))" by (rule wired_connect_sub [OF p i rv])
  then have "wired (?p1\<lparr>pr_dispatcher := d\<rparr>)" by (rule wired_frame) (simp_all add: d(2))
  from channel_ops_safe(1) [OF this ou, of pf "su_attr su" ROLE_READER] Some d(1) show ?thesis
    by (simp add: sub_join_topology_def Let_def case_prod_beta)
qed

lemma dispatch_task_no_null: "no_null (dispatch_task a s)"
  by (auto simp: dispatch_task_def Let_def intro!: no_null_sbind split: option.splits list.splits)

lemma create_task_no_null: "create_task h now name sg = Some r \<Longrightarrow> no_null r"
  by (cases sg) (auto simp: create_task_def Let_def intro!: no_null_sbind dispatch_task_no_null split: if_splits)

lemma wired_mono:
  assumes p: "wired p" and same: "pr_slots q = pr_slots p" "pr_subs q = pr_subs p" "pr_pubs q = pr_pubs p"
    "pr_transport_shutdown q = pr_transport_shutdown p" and le: "pr_next p \<le> pr_next q" "pr_receivers p \<subseteq>\<^sub>m pr_receivers q"
    and ok: "\<And>key. pr_receivers q key \<noteq> Some None" "tags_ok (pr_dispatcher q)"
  shows "wired q"
proof -
  have kept: "pr_receivers q k = Some x" if "pr_receivers p k = Some x" for k x
    using le(2) that unfolding map_le_def by (metis domI)
  have later: "j < pr_next q" if "j < pr_next p" for j
    using le(1) that by simp
  have "subs_wired q"
    using wiredD(2) [OF p] kept later unfolding subs_wired_def same by blast
  moreover have "pubs_wired q"
    using wiredD(3) [OF p] later unfolding pubs_wired_def same by blast
  ultimately show ?thesis using wiredD [OF p] ok unfolding wired_def same by blast
qed

text \<open>When the task could be made, \<open>Init\<close> comes to the joining of the topology, from a wired state.\<close>

lemma init_reaches_join:
  assumes p: "wired p" and su: "pr_subs p i = Some su" "\<not> su_init su" and ou: "ou_participant ou"
    and task: "create_task (pf_name_hash pf) (uint (ou_now ou)) (ra_node_name (su_attr su) @ ''_'' @ ra_channel_name (su_attr su))
      (pr_scheduler p, pr_global p) = Some (Inr (True, sched, g))"
  shows "\<exists>su2 p4 rv. subscriber_init pf ou i p = rbind (sub_join_topology pf ou i su2 (put_sub i su2 p4)) (\<lambda>p5. Some (Inr (True, p5))) \<and>
    wired p4 \<and> Sub_slot i \<notin> set (pr_slots p4) \<and> i < pr_next p4 \<and> su_init su2 \<and> su_attr su2 = su_attr su \<and>
    pr_receivers p4 (su_type su2, ra_channel_name (su_attr su2)) = Some (Some rv) \<and>
    pr_global p4 = g \<and> pr_channel_mgr p4 = pr_channel_mgr p"
proof -
  let ?name = "ra_node_name (su_attr su) @ ''_'' @ ra_channel_name (su_attr su)"
  obtain v data where vd: "new_visitor \<lparr>vc_type = su_type su, vc_channel = ra_channel_id (su_attr su),
      vc_queue_size = unat (su_pending su)\<rparr> [] (pr_next p) [] (pr_next p + 1) 0 (pr_data p) = (v, data)"
    by (metis surj_pair)
  let ?su1 = "su\<lparr>su_init := True, su_croutine_name := ?name\<rparr>"
  let ?p3 = "put_sub i ?su1 (p\<lparr>pr_data := data, pr_next := pr_next p + 2\<rparr>)\<lparr>pr_scheduler := sched, pr_global := g,
    pr_data := register_notify_callback v (unat (cr_id (sc_routines sched (sc_next (pr_scheduler p))))) data\<rparr>"
  have off: "Sub_slot i \<notin> set (pr_slots p)" using sub_slot_iff [OF p] su by simp
  from get_receiver_ok [OF ou, of ?p3 pf "su_type su" "su_attr su"] wiredD [OF p] obtain d rs rv where
    recv: "get_receiver pf ou (su_type su) (su_attr su) ?p3 = Inr (True, ?p3\<lparr>pr_dispatcher := d, pr_receivers := rs\<rparr>)"
    "tags_ok d" "rs (su_type su, ra_channel_name (su_attr su)) = Some (Some rv)" "\<forall>key. rs key \<noteq> Some None"
    "pr_receivers p \<subseteq>\<^sub>m rs" by auto
  let ?p4 = "?p3\<lparr>pr_dispatcher := d, pr_receivers := rs, pr_subs := (pr_subs p)(i \<mapsto> ?su1\<lparr>su_init := False\<rparr>)\<rparr>"
  let ?su2 = "?su1\<lparr>su_receiver := True, su_visitor := Some v\<rparr>"
  have none: "\<And>key. rs key \<noteq> Some None" using recv(4) by blast
  have "wired (p\<lparr>pr_subs := (pr_subs p)(i \<mapsto> ?su1\<lparr>su_init := False\<rparr>)\<rparr>)"
    using wired_set_sub [OF p off, of "Some (?su1\<lparr>su_init := False\<rparr>)"] wired_known(1) [OF p su(1)] by simp
  then have p4: "wired ?p4" by (rule wired_mono) (simp_all add: recv(2,5) none)
  have same: "put_sub i ?su2 (?p3\<lparr>pr_dispatcher := d, pr_receivers := rs\<rparr>) = put_sub i ?su2 ?p4"
    by (simp add: put_sub_def)
  have "subscriber_init pf ou i p = rbind (sub_join_topology pf ou i ?su2 (put_sub i ?su2 ?p4)) (\<lambda>p5. Some (Inr (True, p5)))"
    unfolding same [symmetric] using task vd su recv(1)
    by (simp add: subscriber_init_def rbind_def Let_def)
  with p4 off wired_known(1) [OF p su(1)] recv(3) show ?thesis
    by (intro exI [of _ ?su2] exI [of _ ?p4] exI [of _ rv] conjI) simp_all
qed

lemma safe_rbind: "safe m \<Longrightarrow> (\<And>p. m = Some (Inr p) \<Longrightarrow> wired p \<Longrightarrow> safe (f p)) \<Longrightarrow> safe (rbind m f)"
  by (cases m) (auto simp: rbind_def split: sum.splits)

lemma rbind_assoc: "rbind (rbind m f) g = rbind m (\<lambda>x. rbind (f x) g)"
  by (cases m) (auto simp: rbind_def split: sum.split)

lemma task_outcomes:
  "r = None \<or> (\<exists>e. r = Some (Inl e)) \<or> (\<exists>a b. r = Some (Inr (False, a, b))) \<or> (\<exists>a b. r = Some (Inr (True, a, b)))"
proof (cases r)
  case (Some x)
  show ?thesis
  proof (cases x)
    case (Inr y)
    obtain ok a b where "y = (ok, a, b)" by (cases y)
    with Some Inr show ?thesis by (cases ok) simp_all
  qed (simp add: Some)
qed simp

text \<open>A subscriber whose \<open>Init\<close> fails is destroyed at once.\<close>

lemma sub_init_safe:
  assumes p: "wired p" and su: "pr_subs p i = Some su" "\<not> su_init su" and ou: "ou_participant ou"
  shows "safe (rbind (subscriber_init pf ou i p)
    (\<lambda>(ok, q). Some (Inr (if ok then q else q\<lparr>pr_subs := (pr_subs q)(i := None)\<rparr>))))"
proof -
  let ?name = "ra_node_name (su_attr su) @ ''_'' @ ra_channel_name (su_attr su)"
  obtain v data where vd: "new_visitor \<lparr>vc_type = su_type su, vc_channel = ra_channel_id (su_attr su),
      vc_queue_size = unat (su_pending su)\<rparr> [] (pr_next p) [] (pr_next p + 1) 0 (pr_data p) = (v, data)"
    by (metis surj_pair)
  consider "create_task (pf_name_hash pf) (uint (ou_now ou)) ?name (pr_scheduler p, pr_global p) = None"
    | e where "create_task (pf_name_hash pf) (uint (ou_now ou)) ?name (pr_scheduler p, pr_global p) = Some (Inl e)"
    | sched g where "create_task (pf_name_hash pf) (uint (ou_now ou)) ?name (pr_scheduler p, pr_global p) = Some (Inr (False, sched, g))"
    | sched g where "create_task (pf_name_hash pf) (uint (ou_now ou)) ?name (pr_scheduler p, pr_global p) = Some (Inr (True, sched, g))"
    using task_outcomes [of "create_task (pf_name_hash pf) (uint (ou_now ou)) ?name (pr_scheduler p, pr_global p)"] by fast
  then show ?thesis
  proof cases
    case 1
    with vd su show ?thesis by (simp add: subscriber_init_def rbind_def)
  next
    case (2 e)
    with create_task_no_null [OF 2] vd su show ?thesis by (simp add: subscriber_init_def rbind_def)
  next
    case (3 sched g)
    let ?su0 = "su\<lparr>su_croutine_name := ?name, su_init := False\<rparr>"
    let ?q = "drop_buffer v (put_sub i (su\<lparr>su_init := True, su_croutine_name := ?name, su_init := False\<rparr>)
      (put_sub i (su\<lparr>su_init := True, su_croutine_name := ?name\<rparr>) (p\<lparr>pr_data := data, pr_next := pr_next p + 2\<rparr>)
        \<lparr>pr_scheduler := sched, pr_global := g\<rparr>))"
    have "wired (p\<lparr>pr_subs := (pr_subs p)(i := None)\<rparr>)" using wired_set_sub [OF p, of i None] sub_slot_iff [OF p] su by simp
    then have "wired (?q\<lparr>pr_subs := (pr_subs ?q)(i := None)\<rparr>)" by (rule wired_mono) (simp_all add: wiredD [OF p])
    with 3 vd su show ?thesis by (simp add: subscriber_init_def rbind_def Let_def)
  next
    case (4 sched g)
    from init_reaches_join [OF p su ou 4] obtain su2 p4 rv where
      init: "subscriber_init pf ou i p = rbind (sub_join_topology pf ou i su2 (put_sub i su2 p4)) (\<lambda>p5. Some (Inr (True, p5)))"
      and p4: "wired p4" "Sub_slot i \<notin> set (pr_slots p4)" "i < pr_next p4" "su_init su2"
      and rv: "pr_receivers p4 (su_type su2, ra_channel_name (su_attr su2)) = Some (Some rv)" by blast
    show ?thesis
      unfolding init rbind_assoc by (rule safe_rbind [OF sub_join_safe [OF p4 ou rv]]) (simp add: rbind_def)
  qed
qed

lemma make_sub_safe:
  assumes p: "wired p" and ou: "ou_participant ou"
  shows "safe (map_option (map_sum id snd) (create_subscriber pf ou nc typ attr cb n p))"
proof (cases "ra_channel_name attr = ''''")
  case True
  with p show ?thesis by (simp add: create_subscriber_def)
next
  case False
  show ?thesis
  proof (cases "fill_in_attr pf nc attr p")
    case None
    with False show ?thesis by (simp add: create_subscriber_def)
  next
    case (Some r)
    then obtain a1 p1 where fill: "fill_in_attr pf nc attr p = Some (a1, p1)" by (cases r) simp
    then obtain t where p1: "p1 = p\<lparr>pr_global := (pr_global p)\<lparr>gd_channels := t\<rparr>\<rparr>" using fill_in_attr_laws(4) by blast
    let ?i = "pr_next p" and ?su = "subscriber_new typ a1 cb n"
    let ?p2 = "put_sub ?i ?su (p1\<lparr>pr_next := ?i + 1\<rparr>)"
    have su: "\<not> su_init ?su" by (simp add: subscriber_new_def)
    have "Sub_slot ?i \<notin> set (pr_slots p)"
      using wired_known(1) [OF p, of ?i] sub_slot_iff [OF p, of ?i] by auto
    moreover have "wired (p1\<lparr>pr_next := ?i + 1\<rparr>)"
      by (rule wired_mono [OF p]) (simp_all add: p1 wiredD [OF p])
    ultimately have p2: "wired ?p2"
      using wired_set_sub [of "p1\<lparr>pr_next := ?i + 1\<rparr>" ?i "Some ?su"] su by (simp add: put_sub_def p1)
    have "create_subscriber pf ou nc typ attr cb n p = rbind (subscriber_init pf ou ?i ?p2)
        (\<lambda>(ok, q). Some (Inr (if ok then (Some ?i, q) else (None, q\<lparr>pr_subs := (pr_subs q)(?i := None)\<rparr>))))"
      using False fill by (simp add: create_subscriber_def p1 Let_def cong: prod.case_cong if_cong)
    then have "map_option (map_sum id snd) (create_subscriber pf ou nc typ attr cb n p) = rbind (subscriber_init pf ou ?i ?p2)
        (\<lambda>(ok, q). Some (Inr (if ok then q else q\<lparr>pr_subs := (pr_subs q)(?i := None)\<rparr>)))"
      by (auto simp: rbind_def split: bind_splits sum.split)
    with sub_init_safe [OF p2 _ su ou, of ?i pf] show ?thesis by simp
  qed
qed

lemma process_step_safe:
  assumes "wired p" and "has_participant x"
  shows "safe (process_step pf x p)"
  using assms by (cases x) (auto simp: make_sub_safe make_pub_safe channel_ops_safe slice_safe
      intro: end_sub_safe end_pub_safe send_safe receive_safe)

lemma run_process_wired:
  assumes "wired p" and "list_all has_participant ops"
  shows "safe (run_process pf ops p)"
  using assms by (induction ops arbitrary: p) (auto intro!: safe_rbind process_step_safe)

text \<open>A process that has made no publisher or subscriber yet.\<close>

definition just_started :: "process \<Rightarrow> bool" where
  "just_started p \<longleftrightarrow> pr_slots p = [] \<and> pr_subs p = Map.empty \<and> pr_pubs p = Map.empty \<and> pr_receivers p = Map.empty \<and>
     dp_msg_listeners (pr_dispatcher p) = Map.empty \<and> \<not> pr_transport_shutdown p"

lemma just_started_wired: "just_started p \<Longrightarrow> wired p"
  by (simp add: just_started_def wired_def subs_wired_def pubs_wired_def tags_ok_def)




end
