(* ===== verification/Task_Life.thy ===== *)
theory Task_Life
  imports Scheduler_Classic
begin

text \<open>
  What the creation and removal of tasks promise: the queues of the scheduler hold exactly the tasks that
  were created and not removed, each once, in the queue of its group and priority and in the order of creation,
  whatever the processors ran and whatever was notified in between.
\<close>

section \<open>Sequences of operations\<close>

datatype 'w task_op = Create int string | Remove string | Notify u64
  | Round "nat \<Rightarrow> int" "nat \<Rightarrow> croutine \<times> 'w \<Rightarrow> croutine \<times> 'w" classic_context

fun task_step :: "(string \<Rightarrow> u64) \<Rightarrow> 'w task_op \<Rightarrow> scheduler \<times> global_data \<times> 'w \<Rightarrow>
    (ub + bool \<times> scheduler \<times> global_data \<times> 'w) option" where
  "task_step hash (Create now n) (s, g, w) = map_option (map_sum id (\<lambda>(ok, s', g'). (ok, s', g', w))) (create_task hash now n (s, g))"
| "task_step hash (Remove n) (s, g, w) = map_option (\<lambda>(ok, s'). Inr (ok, s', g, w)) (remove_task hash n s)"
| "task_step hash (Notify c) (s, g, w) = (let (ok, s') = notify_task c s in Some (Inr (ok, s', g, w)))"
| "task_step hash (Round now body ctx) (s, g, w) = (let (s', w') = processor_round now body ctx (s, w) in Some (Inr (True, s', g, w')))"

fun run_tasks :: "(string \<Rightarrow> u64) \<Rightarrow> 'w task_op list \<Rightarrow> scheduler \<times> global_data \<times> 'w \<Rightarrow>
    (ub + bool list \<times> scheduler \<times> global_data \<times> 'w) option" where
  "run_tasks hash [] st = Some (Inr ([], st))"
| "run_tasks hash (x # xs) st = Option.bind (task_step hash x st) (\<lambda>r. case r of Inl e \<Rightarrow> Some (Inl e)
     | Inr (ok, st1) \<Rightarrow> map_option (map_sum id (\<lambda>(oks, st2). (ok # oks, st2))) (run_tasks hash xs st1))"

text \<open>The specification: the names of the live tasks.\<close>

fun live_step :: "(string \<Rightarrow> u64) \<Rightarrow> 'w task_op \<Rightarrow> string list \<Rightarrow> bool \<times> string list" where
  "live_step hash (Create now n) ts = (if n \<in> set ts then (False, ts) else (True, ts @ [n]))"
| "live_step hash (Remove n) ts = (n \<in> set ts, remove1 n ts)"
| "live_step hash (Notify c) ts = (c \<in> hash ` set ts, ts)"
| "live_step hash (Round now body ctx) ts = (True, ts)"

fun run_live :: "(string \<Rightarrow> u64) \<Rightarrow> 'w task_op list \<Rightarrow> string list \<Rightarrow> bool list \<times> string list" where
  "run_live hash [] ts = ([], ts)"
| "run_live hash (x # xs) ts = (let (ok, ts1) = live_step hash x ts; (oks, ts2) = run_live hash xs ts1 in (ok # oks, ts2))"

text \<open>The names an operation mentions; the slices of a routine do not change who it is.\<close>

fun names_in :: "string set \<Rightarrow> 'w task_op \<Rightarrow> bool" where
  "names_in N (Create now n) \<longleftrightarrow> n \<in> N"
| "names_in N (Remove n) \<longleftrightarrow> n \<in> N"
| "names_in N (Notify c) \<longleftrightarrow> True"
| "names_in N (Round now body ctx) \<longleftrightarrow> (\<forall>a r w. identity_of (fst (body a (r, w))) = identity_of r)"

text \<open>The group and the priority the configuration gives to a task.\<close>

definition place :: "scheduler \<Rightarrow> string \<Rightarrow> string \<times> u32" where
  "place s n = (case sc_cr_confs s n of
     Some task \<Rightarrow> (ct_group_name task, if MAX_PRIO \<le> ct_prio task then MAX_PRIO - 1 else ct_prio task)
   | None \<Rightarrow> (sg_name (hd (sc_groups s)), 0))"

definition placed_in :: "scheduler \<Rightarrow> string \<Rightarrow> nat \<Rightarrow> string \<Rightarrow> bool" where
  "placed_in s grp p n \<longleftrightarrow> fst (place s n) = grp \<and> unat (snd (place s n)) = p"

lemma place_cong:
  assumes "sc_cr_confs t = sc_cr_confs s" and "sc_groups t = sc_groups s"
  shows "place t = place s" and "placed_in t = placed_in s"
  by (simp_all add: place_def placed_in_def fun_eq_iff assms cong: option.case_cong)

section \<open>The invariant\<close>

definition tasks_ok :: "(string \<Rightarrow> u64) \<Rightarrow> string set \<Rightarrow> string list \<Rightarrow> (string \<Rightarrow> nat) \<Rightarrow> scheduler \<Rightarrow> global_data \<Rightarrow> bool" where
  "tasks_ok hash N ts at s g \<longleftrightarrow>
     set ts \<subseteq> N \<and> distinct ts \<and> \<not> sc_stop s \<and> sc_groups s \<noteq> [] \<and>
     hm_inv (gd_tasks g) \<and> (\<forall>c n. hm_map (gd_tasks g) c = Some n \<longrightarrow> n \<in> N \<and> c = hash n) \<and>
     inj_on at (set ts) \<and>
     (\<forall>n \<in> set ts. at n < sc_next s \<and> identity_of (sc_routines s (at n)) = (n, hash n, place s n)) \<and>
     (\<forall>a. \<not> cr_lock (sc_routines s a)) \<and>
     sc_id_cr s = (\<lambda>c. map_option at (find (\<lambda>n. hash n = c) ts)) \<and>
     (\<forall>grp p. sc_cr_group s grp p = map at (filter (placed_in s grp p) ts))"

lemma tasks_okD:
  assumes "tasks_ok hash N ts at s g"
  shows "set ts \<subseteq> N" "distinct ts" "\<not> sc_stop s" "sc_groups s \<noteq> []" "hm_inv (gd_tasks g)"
    "\<And>c n. hm_map (gd_tasks g) c = Some n \<Longrightarrow> n \<in> N \<and> c = hash n" "inj_on at (set ts)"
    "\<And>n. n \<in> set ts \<Longrightarrow> at n < sc_next s \<and> identity_of (sc_routines s (at n)) = (n, hash n, place s n)"
    "\<And>a. \<not> cr_lock (sc_routines s a)" "sc_id_cr s = (\<lambda>c. map_option at (find (\<lambda>n. hash n = c) ts))"
    "\<And>grp p. sc_cr_group s grp p = map at (filter (placed_in s grp p) ts)"
  using assms by (simp_all add: tasks_ok_def)

lemma find_hash:
  assumes "inj_on hash N" and "set ts \<subseteq> N" and "n \<in> N"
  shows "find (\<lambda>m. hash m = hash n) ts = (if n \<in> set ts then Some n else None)"
  using assms(2) by (induction ts) (use assms(1,3) in \<open>auto dest: inj_onD\<close>)

text \<open>Changes of routines that keep who they are and leave them free keep the invariant.\<close>

lemma tasks_ok_routines:
  assumes ok: "tasks_ok hash N ts at s g" and "\<And>a. identity_of (h a) = identity_of (sc_routines s a)" and "\<And>a. \<not> cr_lock (h a)"
  shows "tasks_ok hash N ts at (s\<lparr>sc_routines := h\<rparr>) g"
proof -
  have "place (s\<lparr>sc_routines := h\<rparr>) = place s" "placed_in (s\<lparr>sc_routines := h\<rparr>) = placed_in s"
    by (intro place_cong; simp)+
  note same = this
  show ?thesis using ok unfolding tasks_ok_def same by (simp add: assms(2,3))
qed

lemma tasks_ok_notify [simp]: "tasks_ok hash N ts at (ctx_notify grp s) g = tasks_ok hash N ts at s g"
  "tasks_ok hash N ts at (ctx_wait ctx s) g = tasks_ok hash N ts at s g"
proof -
  have "place (s\<lparr>sc_notify_grp := f\<rparr>) = place s" "placed_in (s\<lparr>sc_notify_grp := f\<rparr>) = placed_in s" for f
    by (intro place_cong; simp)+
  then show "tasks_ok hash N ts at (ctx_notify grp s) g = tasks_ok hash N ts at s g"
    "tasks_ok hash N ts at (ctx_wait ctx s) g = tasks_ok hash N ts at s g"
    by (simp_all add: tasks_ok_def ctx_notify_def ctx_wait_def Let_def)
qed

lemma registers_hash:
  assumes "inj_on hash N" and "n \<in> N" and ok: "tasks_ok hash N ts at s g"
  obtains g' where "register_task_name hash n g = Some (hash n, g')" "tasks_ok hash N ts at s g'"
proof -
  note T = tasks_okD [OF ok]
  have "slot_of (gd_tasks g) n (hash n)"
  proof (cases "hm_map (gd_tasks g) (hash n)")
    case (Some m)
    then have "m = n" using T(6) assms(1,2) by (metis inj_onD)
    with Some show ?thesis by (simp add: slot_of_def)
  qed (simp add: slot_of_def)
  then have "register_task_name hash n g = Some (hash n, g\<lparr>gd_tasks := hm_set (hash n) n (gd_tasks g)\<rparr>)"
    by (simp add: register_task_name_def register_name_def probe_unfold [OF T(5)])
  moreover have "tasks_ok hash N ts at s (g\<lparr>gd_tasks := hm_set (hash n) n (gd_tasks g)\<rparr>)"
    using ok T(6) assms(2) by (auto simp: tasks_ok_def hm.set_inv hm.set_abs split: if_splits)
  ultimately show thesis by (rule that)
qed

section \<open>Operations keep the invariant\<close>

lemma notify_keeps:
  assumes "inj_on hash N" and ok: "tasks_ok hash N ts at s g" and "notify_task c s = (b, s')"
  shows "b = (c \<in> hash ` set ts) \<and> tasks_ok hash N ts at s' g"
proof -
  note T = tasks_okD [OF ok]
  have found: "sc_id_cr s c \<noteq> None \<longleftrightarrow> c \<in> hash ` set ts" by (auto simp: T(10) find_None_iff)
  show ?thesis
  proof (cases "sc_id_cr s c")
    case None
    then show ?thesis using found assms(3) ok T(3) by (simp add: notify_task_def notify_processor_def)
  next
    case (Some a)
    let ?h = "\<lambda>r. (sc_routines s)(a := r)"
    have "tasks_ok hash N ts at (s\<lparr>sc_routines := ?h (set_update_flag (sc_routines s a))\<rparr>) g"
      by (rule tasks_ok_routines [OF ok]) (simp_all add: T(9) set_update_flag_def identity_of_def)
    then show ?thesis using found assms(3) ok T(3) Some
      by (auto simp: notify_task_def notify_processor_def Let_def split: if_splits)
  qed
qed

lemma resume_identity:
  "\<forall>r w. identity_of (fst (body (r, w))) = identity_of r \<Longrightarrow> resume body (r, w) = (st, r', w') \<Longrightarrow> identity_of r' = identity_of r"
  by (auto simp: resume_def identity_of_def split: if_splits prod.splits) (metis fst_conv)+

lemma taken_identity:
  assumes "taken_from h found h'"
  shows "identity_of (h' b) = identity_of (h b)"
proof -
  have same: "identity_of (r\<lparr>cr_updated := x\<rparr>) = identity_of r" for r x by (simp add: identity_of_def)
  show ?thesis
  proof (cases found)
    case None
    then have "h' b = h b \<or> h' b = (h b)\<lparr>cr_updated := True\<rparr>" using assms by (simp add: taken_from_def looked_at_def)
    then show ?thesis using same by auto
  next
    case (Some a)
    with assms have h: "looked_at h (h'(a := h a))" "identity_of (h' a) = identity_of (h a)" by (simp_all add: taken_from_def)
    show ?thesis
    proof (cases "b = a")
      case False
      then have "h' b = h b \<or> h' b = (h b)\<lparr>cr_updated := True\<rparr>"
        using h(1) unfolding looked_at_def by (metis fun_upd_other)
      then show ?thesis using same by auto
    qed (use h(2) in simp)
  qed
qed

text \<open>Only the routine that was taken is held.\<close>

lemma taken_lock:
  assumes "taken_from h found h'" and "\<And>b. \<not> cr_lock (h b)" and "found \<noteq> Some b"
  shows "\<not> cr_lock (h' b)"
proof (cases found)
  case None
  then have "h' b = h b \<or> h' b = (h b)\<lparr>cr_updated := True\<rparr>" using assms(1) by (simp add: taken_from_def looked_at_def)
  then show ?thesis using assms(2) [of b] by auto
next
  case (Some a)
  then have "looked_at h (h'(a := h a))" and "b \<noteq> a" using assms(1,3) by (simp_all add: taken_from_def)
  then have "h' b = h b \<or> h' b = (h b)\<lparr>cr_updated := True\<rparr>" unfolding looked_at_def by (metis fun_upd_other)
  then show ?thesis using assms(2) [of b] by auto
qed

lemma round_keeps:
  assumes ok: "tasks_ok hash N ts at s g" and body: "\<forall>a r w. identity_of (fst (body a (r, w))) = identity_of r"
    and round: "processor_round now body ctx (s, w) = (s', w')"
  shows "tasks_ok hash N ts at s' g"
proof -
  note T = tasks_okD [OF ok]
  obtain found s1 where nextr: "next_routine now ctx s = (found, s1)" by (cases "next_routine now ctx s")
  note taken = next_routine_laws(2) [OF nextr] and s1 = next_routine_laws(3) [OF nextr]
  show ?thesis
  proof (cases found)
    case None
    have "tasks_ok hash N ts at (s\<lparr>sc_routines := sc_routines s1\<rparr>) g"
      by (rule tasks_ok_routines [OF ok]) (use taken_identity [OF taken] taken_lock [OF taken T(9)] None in simp_all)
    then have "tasks_ok hash N ts at s1 g" using s1 by simp
    then show ?thesis using round nextr None by (auto simp: processor_round_def)
  next
    case (Some a)
    obtain st r w1 where res: "resume (body a) (sc_routines s1 a, w) = (st, r, w1)" by (cases "resume (body a) (sc_routines s1 a, w)")
    let ?h = "(sc_routines s1)(a := cr_release r)"
    have "identity_of (?h b) = identity_of (sc_routines s b)" for b
      using taken_identity [OF taken] resume_identity [OF _ res] body by simp
    moreover have "\<not> cr_lock (?h b)" for b
      using taken_lock [OF taken T(9), of b] Some by (simp add: cr_release_def)
    ultimately have "tasks_ok hash N ts at (s\<lparr>sc_routines := ?h\<rparr>) g" by (rule tasks_ok_routines [OF ok])
    moreover have "s1\<lparr>sc_routines := ?h\<rparr> = s\<lparr>sc_routines := ?h\<rparr>" by (subst s1) simp
    ultimately show ?thesis using round nextr Some res by (simp add: processor_round_def)
  qed
qed

lemma dispatch_new:
  assumes "sc_groups s \<noteq> []" and "sc_id_cr s (cr_id (sc_routines s a)) = None" and "cr_priority (sc_routines s a) = 0"
  defines "cr \<equiv> sc_routines s a"
  shows "dispatch_task a s = Inr (True, ctx_notify (fst (place s (cr_name cr))) (enqueue_routine a
    (s\<lparr>sc_id_cr := (sc_id_cr s)(cr_id cr \<mapsto> a), sc_routines := (sc_routines s)(a :=
       cr\<lparr>cr_priority := snd (place s (cr_name cr)), cr_group_name := fst (place s (cr_name cr))\<rparr>)\<rparr>)))"
proof (cases "sc_cr_confs s (cr_name cr)")
  case None
  obtain g gs where "sc_groups s = g # gs" using assms(1) by (cases "sc_groups s") auto
  moreover have same: "cr\<lparr>cr_priority := 0, cr_group_name := x\<rparr> = cr\<lparr>cr_group_name := x\<rparr>" for x
    using assms(3) by (cases cr) (simp add: cr_def)
  ultimately show ?thesis using assms(2,3) None
    by (simp add: dispatch_task_def place_def Let_def MAX_PRIO_def same flip: cr_def)
next
  case (Some task)
  have swap: "cr\<lparr>cr_group_name := x, cr_priority := y\<rparr> = cr\<lparr>cr_priority := y, cr_group_name := x\<rparr>" for x y by simp
  show ?thesis using assms(2) Some
    by (cases "MAX_PRIO \<le> ct_prio task") (simp_all add: dispatch_task_def place_def Let_def swap flip: cr_def)
qed

lemma create_keeps:
  assumes inj: "inj_on hash N" and n: "n \<in> N" and ok: "tasks_ok hash N ts at s g"
  shows "\<exists>s' g' at'. create_task hash now n (s, g) = Some (Inr (n \<notin> set ts, s', g')) \<and>
    tasks_ok hash N (if n \<in> set ts then ts else ts @ [n]) at' s' g' \<and> place s' = place s"
proof -
  from registers_hash [OF inj n ok] obtain g' where g': "register_task_name hash n g = Some (hash n, g')" "tasks_ok hash N ts at s g'" .
  note T = tasks_okD [OF g'(2)] and found = find_hash [OF inj tasks_okD(1) [OF ok] n]
  let ?a = "sc_next s" and ?cr = "(croutine_new now)\<lparr>cr_id := hash n, cr_name := n\<rparr>"
  let ?s1 = "s\<lparr>sc_next := ?a + 1, sc_routines := (sc_routines s)(?a := ?cr)\<rparr>"
  have place1: "place ?s1 = place s" "placed_in ?s1 = placed_in s" by (intro place_cong; simp)+
  have step: "create_task hash now n (s, g) = Some (sbind (dispatch_task ?a ?s1) (\<lambda>(ok, s'). Inr (ok, s', g')))"
    using T(3) g'(1) by (simp add: create_task_def Let_def)
  show ?thesis
  proof (cases "n \<in> set ts")
    case True
    have "dispatch_task ?a ?s1 = Inr (False, ?s1)" using True found by (simp add: dispatch_task_def T(10) Let_def)
    moreover have "tasks_ok hash N ts at ?s1 g'"
    proof -
      have "at m < ?a + 1 \<and> identity_of (((sc_routines s)(?a := ?cr)) (at m)) = (m, hash m, place s m)" if "m \<in> set ts" for m
        using T(8) [OF that] by auto
      moreover have "\<not> cr_lock (((sc_routines s)(?a := ?cr)) b)" for b using T(9) by (simp add: croutine_new_def)
      ultimately show ?thesis using g'(2) unfolding tasks_ok_def place1 by simp
    qed
    ultimately show ?thesis using True step place1 by auto
  next
    case False
    let ?at = "at(n := ?a)"
    let ?r = "?cr\<lparr>cr_priority := snd (place s n), cr_group_name := fst (place s n)\<rparr>"
    let ?s2 = "?s1\<lparr>sc_id_cr := (sc_id_cr s)(hash n \<mapsto> ?a), sc_routines := (sc_routines s)(?a := ?r)\<rparr>"
    let ?s3 = "enqueue_routine ?a ?s2"
    have "sc_id_cr ?s1 (hash n) = None" using False found by (simp add: T(10))
    with dispatch_new [of ?s1 ?a] T(4) have "dispatch_task ?a ?s1 = Inr (True, ctx_notify (fst (place s n)) ?s3)"
      unfolding place1 by (simp add: croutine_new_def)
    moreover have "tasks_ok hash N (ts @ [n]) ?at ?s3 g'"
    proof -
      have s3: "sc_stop ?s3 = sc_stop s" "sc_groups ?s3 = sc_groups s" "sc_next ?s3 = ?a + 1"
        "sc_routines ?s3 = (sc_routines s)(?a := ?r)" "sc_id_cr ?s3 = (sc_id_cr s)(hash n \<mapsto> ?a)"
        by (simp_all add: enqueue_routine_def Let_def)
      have queue: "sc_cr_group ?s3 grp p = sc_cr_group s grp p @ (if placed_in s grp p n then [?a] else [])" for grp p
        by (auto simp: enqueue_routine_def Let_def placed_in_def)
      have place3: "place ?s3 = place s" "placed_in ?s3 = placed_in s"
        by (intro place_cong; simp add: enqueue_routine_def Let_def)+
      have at: "?at m = at m" if "m \<in> set ts" for m using False that by auto
      have older: "at m < ?a" if "m \<in> set ts" for m using T(8) [OF that] by simp
      have "inj_on ?at (set ts)" using T(7) by (subst inj_on_cong [OF at])
      moreover have "?a \<notin> ?at ` (set ts - {n})" using older by (auto simp: image_iff) (metis order_less_irrefl)
      ultimately have "inj_on ?at (set (ts @ [n]))" by (simp only: set_append list.set Un_insert_right Un_empty_right inj_on_insert fun_upd_same simp_thms)
      moreover have "?at m < ?a + 1 \<and> identity_of (((sc_routines s)(?a := ?r)) (?at m)) = (m, hash m, place s m)"
        if "m \<in> set (ts @ [n])" for m
        using that T(8) [of m] False by (cases "m = n") (auto simp: identity_of_def)
      moreover have "\<not> cr_lock (((sc_routines s)(?a := ?r)) b)" for b using T(9) by (simp add: croutine_new_def)
      moreover have "((sc_id_cr s)(hash n \<mapsto> ?a)) c = map_option ?at (find (\<lambda>m. hash m = c) (ts @ [n]))" for c
      proof (cases "find (\<lambda>m. hash m = c) ts")
        case None
        then show ?thesis by (auto simp: T(10) find_append)
      next
        case (Some m)
        then have m: "m \<in> set ts" "hash m = c" by (auto simp: find_Some_iff)
        with False have "m \<noteq> n" by blast
        then have "c \<noteq> hash n" using m T(1) inj_onD [OF inj, of m n] n by auto
        then show ?thesis using Some at [OF m(1)] by (simp add: T(10) find_append)
      qed
      moreover have "sc_cr_group ?s3 grp p = map ?at (filter (placed_in s grp p) (ts @ [n]))" for grp p
        using at unfolding queue T(11) by simp
      ultimately show ?thesis using T(1-6) n False unfolding tasks_ok_def place3 s3 by auto
    qed
    moreover have "place (ctx_notify grp ?s3) = place s" for grp
      by (rule place_cong) (simp_all add: ctx_notify_def enqueue_routine_def Let_def)
    ultimately show ?thesis using False step by auto
  qed
qed

lemma find_map_conv: "find P (map f xs) = map_option f (find (\<lambda>x. P (f x)) xs)"
  by (induction xs) auto

lemma find_remove1: "\<not> P n \<Longrightarrow> find P (remove1 n xs) = find P xs"
  by (induction xs) auto

lemma remove1_map: "inj_on f (insert n (set xs)) \<Longrightarrow> remove1 (f n) (map f xs) = map f (remove1 n xs)"
  by (induction xs) (auto simp: inj_on_def)

lemma remove_keeps:
  assumes inj: "inj_on hash N" and n: "n \<in> N" and ok: "tasks_ok hash N ts at s g"
  shows "\<exists>s'. remove_task hash n s = Some (n \<in> set ts, s') \<and> tasks_ok hash N (remove1 n ts) at s' g \<and> place s' = place s"
proof (cases "n \<in> set ts")
  case False
  then have "sc_id_cr s (hash n) = None" using find_hash [OF inj tasks_okD(1) [OF ok] n] by (simp add: tasks_okD(10) [OF ok])
  then show ?thesis using ok tasks_okD(3) [OF ok] False by (simp add: remove_task_def remove_croutine_def remove1_idem)
next
  case True
  note T = tasks_okD [OF ok]
  let ?a = "at n" and ?grp = "fst (place s n)" and ?p = "unat (snd (place s n))"
  let ?h = "(sc_routines s)(at n := cr_stop (sc_routines s (at n)))"
  let ?h2 = "(sc_routines s)(at n := cr_release (snd (cr_acquire (cr_stop (cr_stop (sc_routines s (at n)))))))"
  let ?q = "filter (placed_in s ?grp ?p) ts"
  let ?id_cr = "(sc_id_cr s)(hash n := None)"
  let ?s1 = "s\<lparr>sc_routines := ?h, sc_id_cr := ?id_cr\<rparr>"
  let ?s2 = "s\<lparr>sc_routines := ?h2, sc_id_cr := ?id_cr,
    sc_cr_group := (sc_cr_group s)(?grp := (sc_cr_group s ?grp)(?p := remove1 ?a (map at ?q)))\<rparr>"
  have who: "cr_id (sc_routines s (at m)) = hash m" "cr_group_name (sc_routines s (at m)) = fst (place s m)"
    "cr_priority (sc_routines s (at m)) = snd (place s m)" if "m \<in> set ts" for m
    using T(8) [OF that] by (cases "place s m"; simp add: identity_of_def)+
  have ids: "cr_id (?h b) = cr_id (sc_routines s b)" for b by (simp add: cr_stop_def)
  have reg: "sc_id_cr s (hash n) = Some ?a" using find_hash [OF inj T(1) n] True by (simp add: T(10))
  have "find (\<lambda>b. cr_id (?h b) = hash n) (map at ?q) = map_option at (find (\<lambda>m. cr_id (sc_routines s (at m)) = hash n) ?q)"
    unfolding ids by (rule find_map_conv)
  also have "find (\<lambda>m. cr_id (sc_routines s (at m)) = hash n) ?q = find (\<lambda>m. hash m = hash n) ?q"
    by (rule find_cong [OF refl]) (simp add: who)
  also have "\<dots> = Some n" using find_hash [OF inj, of ?q n] T(1) n True by (auto simp: placed_in_def)
  finally have found: "find (\<lambda>b. cr_id (?h b) = hash n) (map at ?q) = Some ?a" by simp
  have "ctx_remove_croutine ?a ?s1 = Some (True, ?s2)"
  proof -
    have "cr_id (?h ?a) = hash n" "cr_group_name (?h ?a) = ?grp" "cr_priority (?h ?a) = snd (place s n)"
      using who [OF True] by (simp_all add: cr_stop_def)
    moreover have "\<not> cr_lock (cr_stop (?h ?a))" using T(9) by (simp add: cr_stop_def)
    ultimately show ?thesis
      using found unfolding ctx_remove_croutine_def Let_def by (simp add: T(11) cr_acquire_def)
  qed
  then have "remove_task hash n s = Some (True, ?s2)" using reg T(3) by (simp add: remove_task_def remove_croutine_def)
  moreover have "tasks_ok hash N (remove1 n ts) at ?s2 g"
  proof -
    have place2: "place ?s2 = place s" "placed_in ?s2 = placed_in s" by (intro place_cong; simp)+
    have sub: "set (remove1 n ts) \<subseteq> set ts" by (rule set_remove1_subset)
    have "identity_of (?h2 b) = identity_of (sc_routines s b) \<and> \<not> cr_lock (?h2 b)" for b
      using T(9) by (simp add: cr_release_def) (simp add: cr_stop_def cr_acquire_def identity_of_def)
    moreover have "?id_cr c = map_option at (find (\<lambda>m. hash m = c) (remove1 n ts))" for c
    proof (cases "c = hash n")
      case True
      then show ?thesis using find_hash [OF inj, of "remove1 n ts" n] sub T(1,2) n by auto
    next
      case False
      then show ?thesis by (simp add: T(10) find_remove1)
    qed
    moreover have "sc_cr_group ?s2 grp p = map at (filter (placed_in s grp p) (remove1 n ts))" for grp p
    proof (cases "placed_in s grp p n")
      case True
      then have "grp = ?grp" "p = ?p" by (simp_all add: placed_in_def)
      moreover have "inj_on at (insert n (set ?q))" using T(7) \<open>n \<in> set ts\<close> by (auto simp: inj_on_def)
      ultimately show ?thesis by (simp add: remove1_map filter_remove1)
    next
      case False
      then have "sc_cr_group ?s2 grp p = sc_cr_group s grp p" by (auto simp: placed_in_def)
      then show ?thesis using False by (simp add: T(11) filter_remove1 remove1_idem)
    qed
    moreover have "inj_on at (set (remove1 n ts))" using T(7) sub by (rule inj_on_subset)
    ultimately show ?thesis
      using T sub unfolding tasks_ok_def place2 by (auto simp: subset_iff simp del: fun_upd_apply)
  qed
  moreover have "place ?s2 = place s" by (rule place_cong) simp_all
  ultimately show ?thesis using True by (intro exI [of _ ?s2] conjI) simp_all
qed

lemma task_step_keeps:
  assumes "inj_on hash N" and "names_in N x" and ok: "tasks_ok hash N ts at s g"
  shows "\<exists>s' g' w' at'. task_step hash x (s, g, w) = Some (Inr (fst (live_step hash x ts), s', g', w')) \<and>
    tasks_ok hash N (snd (live_step hash x ts)) at' s' g' \<and> place s' = place s"
proof (cases x)
  case (Create now n)
  from create_keeps [OF assms(1) _ ok, of n now] assms(2) Create obtain s' g' at'
    where "create_task hash now n (s, g) = Some (Inr (n \<notin> set ts, s', g'))"
      "tasks_ok hash N (if n \<in> set ts then ts else ts @ [n]) at' s' g'" "place s' = place s" by auto
  with Create show ?thesis by auto
next
  case (Remove n)
  with remove_keeps [OF assms(1) _ ok, of n] assms(2) show ?thesis by auto
next
  case (Notify c)
  obtain b s' where step: "notify_task c s = (b, s')" by (cases "notify_task c s")
  then have "place s' = place s"
    by (intro place_cong) (auto simp: notify_task_def notify_processor_def ctx_notify_def Let_def split: if_splits option.splits)
  with notify_keeps [OF assms(1) ok step] step Notify show ?thesis by auto
next
  case (Round now body ctx)
  obtain s' w' where step: "processor_round now body ctx (s, w) = (s', w')" by (cases "processor_round now body ctx (s, w)")
  obtain found t where nextr: "next_routine now ctx s = (found, t)" by (cases "next_routine now ctx s")
  have "place t = place s" by (subst next_routine_laws(3) [OF nextr]) (rule place_cong; simp)
  then have "place s' = place s"
    using step nextr by (auto simp: processor_round_def ctx_wait_def Let_def place_cong [of "t\<lparr>sc_routines := _\<rparr>" t]
      place_cong [of "t\<lparr>sc_notify_grp := _\<rparr>" t] split: option.splits prod.splits)
  with round_keeps [OF ok _ step] assms(2) step Round show ?thesis by auto
qed

lemma run_tasks_keeps:
  assumes "inj_on hash N" and "list_all (names_in N) xs" and "tasks_ok hash N ts at s g"
  shows "\<exists>s' g' w' at'. run_tasks hash xs (s, g, w) = Some (Inr (fst (run_live hash xs ts), s', g', w')) \<and>
    tasks_ok hash N (snd (run_live hash xs ts)) at' s' g' \<and> place s' = place s"
  using assms(2,3)
proof (induction xs arbitrary: ts at s g w)
  case (Cons x xs)
  from task_step_keeps [OF assms(1) _ Cons.prems(2), of x w] Cons.prems(1) obtain s1 g1 w1 at1
    where x: "task_step hash x (s, g, w) = Some (Inr (fst (live_step hash x ts), s1, g1, w1))"
      "tasks_ok hash N (snd (live_step hash x ts)) at1 s1 g1" "place s1 = place s" by auto
  from Cons.IH [OF _ x(2), of w1] Cons.prems(1) x(1,3) show ?case by (auto simp: case_prod_beta Let_def)
qed auto

section \<open>From the start\<close>

lemma create_contexts_fields:
  defines "t grp n s \<equiv> (create_contexts grp ^^ n) s"
  shows "sc_stop (t grp n s) = sc_stop s" "sc_groups (t grp n s) = sc_groups s" "sc_cr_confs (t grp n s) = sc_cr_confs s"
    "sc_id_cr (t grp n s) = sc_id_cr s" "sc_routines (t grp n s) = sc_routines s" "sc_cr_group (t grp n s) = sc_cr_group s"
  by (induction n) (simp_all add: t_def create_contexts_def init_group_def)

lemma create_processors_fields:
  defines "t grp s \<equiv> create_processors grp s"
  shows "sc_stop (t grp s) = sc_stop s" "sc_groups (t grp s) = sc_groups s" "sc_cr_confs (t grp s) = sc_cr_confs s"
    "sc_id_cr (t grp s) = sc_id_cr s" "sc_routines (t grp s) = sc_routines s" "sc_cr_group (t grp s) = sc_cr_group s"
  by (simp_all add: t_def create_processors_def create_contexts_fields Let_def)

lemma all_processors_fields:
  defines "t gs s \<equiv> fold create_processors gs s"
  shows "sc_stop (t gs s) = sc_stop s" "sc_groups (t gs s) = sc_groups s" "sc_cr_confs (t gs s) = sc_cr_confs s"
    "sc_id_cr (t gs s) = sc_id_cr s" "sc_routines (t gs s) = sc_routines s" "sc_cr_group (t gs s) = sc_cr_group s"
  by (induction gs arbitrary: s) (simp_all add: t_def create_processors_fields)

lemmas start_fields = scheduler_new_def Let_def create_processors_fields all_processors_fields

lemma tasks_ok_start:
  assumes "sc_groups (scheduler_new cfg k) \<noteq> []"
  shows "tasks_ok hash N [] at (scheduler_new cfg k) (gd_new host ip pid grp)"
  using assms hm_new_inv [of 8, where ?'a = string] hm_map_new [of 8, where ?'a = string]
  by (cases cfg) (simp_all add: tasks_ok_def start_fields scheduler_empty_def
      gd_new_def croutine_new_def)



section \<open>Names with one hash\<close>

text \<open>\<open>RegisterTaskName\<close> on a table that has no name, or only one under the same hash.\<close>

lemma registers_second:
  assumes "hash m = hash n" and "m \<noteq> n"
  shows "\<exists>g1 g2. register_task_name hash n (gd_new host ip pid grp) = Some (hash n, g1) \<and>
    register_task_name hash m g1 = Some (hash n + 1, g2)"
proof -
  let ?g = "gd_new host ip pid grp"
  let ?t1 = "hm_set (hash n) n (gd_tasks ?g)"
  have inv: "hm_inv (gd_tasks ?g)" and none: "hm_map (gd_tasks ?g) c = None" for c
    using hm_new_inv [of 8, where ?'a = string] hm_map_new [of 8, where ?'a = string] by (simp_all add: gd_new_def)
  note inv1 = hm.set_inv [OF inv, of "hash n" n] and map1 = hm.set_abs [OF inv, of "hash n" n]
  have "register_task_name hash n ?g = Some (hash n, ?g\<lparr>gd_tasks := ?t1\<rparr>)"
    by (simp add: register_task_name_def register_name_def probe_unfold [OF inv] slot_of_def none)
  moreover have "probe m ?t1 (hash n) = Some (hash n + 1)"
    using assms(2) by (simp add: probe_unfold [OF inv1] slot_of_def map1 none)
  ultimately show ?thesis using assms(1) by (simp add: register_task_name_def register_name_def)
qed

text \<open>When two tasks have names with one hash, removing the second one removes the first:
  \<open>RemoveTask\<close> takes the hash for the id, which \<open>CreateTask\<close> had to make different. The task asked for stays in its queue.\<close>

lemma remove_takes_other_task:
  assumes "hash m = hash n" and "m \<noteq> n"
  shows "\<exists>s g. run_tasks hash [Create 0 n, Create 0 m, Remove m] (scheduler_new None k, gd_new host ip pid grp, ()) =
      Some (Inr ([True, True, True], s, g, ())) \<and>
    map (\<lambda>a. cr_name (sc_routines s a)) (sc_cr_group s ''default_grp'' 0) = [m]"
proof -
  from registers_second [OF assms] obtain g1 g2 where
    "register_task_name hash n (gd_new host ip pid grp) = Some (hash n, g1)" "register_task_name hash m g1 = Some (hash n + 1, g2)"
    by blast
  moreover have "sc_groups (scheduler_new None k) = [default_group (if k \<noteq> 0 then k else 2)]"
    "sc_cr_confs (scheduler_new None k) = (\<lambda>_. None)" "sc_id_cr (scheduler_new None k) = (\<lambda>_. None)"
    "sc_cr_group (scheduler_new None k) = (\<lambda>_ _. [])" "\<not> sc_stop (scheduler_new None k)"
    by (simp_all add: start_fields scheduler_empty_def)
  ultimately show ?thesis using assms
    by (simp add: create_task_def dispatch_task_def Let_def croutine_new_def MAX_PRIO_def enqueue_routine_def ctx_notify_def
        default_group_def remove_task_def remove_croutine_def ctx_remove_croutine_def cr_stop_def cr_acquire_def cr_release_def)
qed

lemma remove_takes_other_task_witness:
  "\<exists>s g. run_tasks (\<lambda>_. 7) [Create 0 ''a'', Create 0 ''b'', Remove ''b''] (scheduler_new None 0, gd_new ''h'' ''i'' 1 ''p'', ()) =
      Some (Inr ([True, True, True], s, g, ())) \<and>
    map (\<lambda>a. cr_name (sc_routines s a)) (sc_cr_group s ''default_grp'' 0) = [''b'']"
  by (rule remove_takes_other_task) simp_all

end
