(* ===== verification/Node_Delivery.thy ===== *)
theory Node_Delivery
  imports Node_Safety Task_Life
begin

text \<open>
  How the messages of a writer reach a subscriber, and the names a node gives to its subscribers; with a process
  on which all properties of publishers and subscribers are tried.
\<close>

section \<open>When a subscriber is initialised\<close>

lemma quiet_manager:
  assumes "\<not> mg_is_discovery_started m"
  shows "\<exists>r. manager_join h channel_check channel_dispose now attr role w m = Inr r"
    and "\<exists>r. manager_leave h channel_check channel_dispose now attr role m = Inr r"
  using assms by (auto simp: manager_join_def manager_leave_def manager_write_def dispose_started Let_def)

lemma with_changes_returns:
  assumes "wired p" and "ou_participant ou"
  shows "\<exists>q. with_changes pf ou (Inr (ok, m)) p = Inr (ok, q)"
proof -
  have "wired (p\<lparr>pr_channel_mgr := m\<rparr>)" by (rule wired_frame [OF assms(1)]) (simp_all add: wiredD [OF assms(1)])
  from run_changes_safe [OF this assms(2), of pf "drop (length (mg_emitted (pr_channel_mgr p))) (mg_emitted m)"]
  show ?thesis by (auto simp: with_changes_def)
qed

lemma channel_ops_return:
  assumes "wired p" and "ou_participant ou" and "\<not> mg_is_discovery_started (pr_channel_mgr p)"
  shows "\<exists>ok q. channel_join pf ou attr role p = Inr (ok, q)" and "\<exists>ok q. channel_leave pf ou attr role p = Inr (ok, q)"
proof -
  from quiet_manager(1) [OF assms(3), of "pf_order pf" "ou_now ou" attr role True] obtain ok m where
    "manager_join (pf_order pf) channel_check channel_dispose (ou_now ou) attr role True (pr_channel_mgr p) = Inr (ok, m)" by auto
  with with_changes_returns [OF assms(1,2), of pf ok m] show "\<exists>ok q. channel_join pf ou attr role p = Inr (ok, q)"
    by (auto simp: channel_join_def)
  from quiet_manager(2) [OF assms(3), of "pf_order pf" "ou_now ou" attr role] obtain ok m where
    "manager_leave (pf_order pf) channel_check channel_dispose (ou_now ou) attr role (pr_channel_mgr p) = Inr (ok, m)" by auto
  with with_changes_returns [OF assms(1,2), of pf ok m] show "\<exists>ok q. channel_leave pf ou attr role p = Inr (ok, q)"
    by (auto simp: channel_leave_def)
qed

lemma init_succeeds:
  assumes p: "wired p" and su: "pr_subs p i = Some su" "\<not> su_init su" and ou: "ou_participant ou"
    and task: "create_task (pf_name_hash pf) (uint (ou_now ou)) (ra_node_name (su_attr su) @ ''_'' @ ra_channel_name (su_attr su))
      (pr_scheduler p, pr_global p) = Some (Inr (True, sched, g))"
    and reg: "register_channel (pf_name_hash pf) (ra_channel_name (su_attr su)) g = Some (cid, g1)"
    and quiet: "\<not> mg_is_discovery_started (pr_channel_mgr p)"
  shows "\<exists>q. subscriber_init pf ou i p = Some (Inr (True, q))"
proof -
  from init_reaches_join [OF p su ou task] obtain su2 p4 rv where
    init: "subscriber_init pf ou i p = rbind (sub_join_topology pf ou i su2 (put_sub i su2 p4)) (\<lambda>p5. Some (Inr (True, p5)))"
    and p4: "wired p4" "Sub_slot i \<notin> set (pr_slots p4)" "i < pr_next p4" "su_init su2" and attr: "su_attr su2 = su_attr su"
    and rv: "pr_receivers p4 (su_type su2, ra_channel_name (su_attr su2)) = Some (Some rv)"
    and same: "pr_global p4 = g" "pr_channel_mgr p4 = pr_channel_mgr p" by blast
  let ?ws = "snd (mw_search_attrs cid (chm_channel_writers (pr_channel_mgr p)) [])"
  let ?p1 = "(put_sub i su2 p4)\<lparr>pr_slots := pr_slots p4 @ [Sub_slot i], pr_global := g1\<rparr>"
  from enable_writers_ok [OF ou, of ?p1 _ rv ] rv wiredD(6) [OF p4(1)] obtain d where
    d: "enable_writers pf ou (su_type su2, ra_channel_name (su_attr su2)) ?ws ?p1 = Inr (?p1\<lparr>pr_dispatcher := d\<rparr>)" "tags_ok d"
    by fastforce
  have "wired (put_sub i su2 (p4\<lparr>pr_slots := pr_slots p4 @ [Sub_slot i]\<rparr>))" by (rule wired_connect_sub [OF p4 rv])
  then have "wired (?p1\<lparr>pr_dispatcher := d\<rparr>)" by (rule wired_frame) (simp_all add: d(2))
  from channel_ops_return(1) [OF this ou] quiet same obtain ok q where
    "channel_join pf ou (su_attr su2) ROLE_READER (?p1\<lparr>pr_dispatcher := d\<rparr>) = Inr (ok, q)" by fastforce
  with d(1) reg same attr have "sub_join_topology pf ou i su2 (put_sub i su2 p4) = Some (Inr q)"
    by (simp add: sub_join_topology_def get_writers_of_channel_def Let_def)
  with init show ?thesis by (simp add: rbind_def)
qed

lemma registers_first:
  assumes "hm_inv t" and "\<And>c. hm_map t c = None"
  shows "register_name hash n t = Some (hash n, hm_set (hash n) n t)"
  by (simp add: register_name_def probe_unfold [OF assms(1)] slot_of_def assms(2))

lemma new_registry: "hm_inv (hm_new (2 ^ 8) :: string hash_map)" "hm_map (hm_new (2 ^ 8) :: string hash_map) c = None"
  using hm_new_inv [of 8, where ?'a = string] hm_map_new [of 8, where ?'a = string] by simp_all

lemma sample_scheduler:
  "\<not> sc_stop (scheduler_new None 0)" "sc_groups (scheduler_new None 0) = [default_group 2]"
  "sc_cr_confs (scheduler_new None 0) = (\<lambda>_. None)" "sc_id_cr (scheduler_new None 0) = (\<lambda>_. None)"
  by (simp_all add: start_fields scheduler_empty_def)

lemma sample_wired: "wired sample_process"
  by (rule just_started_wired) (simp add: just_started_def sample_process_def rtps_dispatcher_new_def)

lemma first_task_made:
  assumes "gd_tasks g0 = hm_new (2 ^ 8)"
  shows "\<exists>sched g. create_task hash now n (scheduler_new None 0, g0) = Some (Inr (True, sched, g)) \<and> gd_channels g = gd_channels g0"
  using registers_first [OF new_registry, of hash n] assms
  by (simp add: create_task_def register_task_name_def dispatch_task_def sample_scheduler Let_def)

text \<open>The first subscriber of a process can be initialised when its channel can be registered.\<close>

definition lone_subscriber :: "role_attributes \<Rightarrow> role_map \<Rightarrow> string hash_map \<Rightarrow> process" where
  "lone_subscriber a ws chans = sample_process\<lparr>pr_subs := [0 \<mapsto> subscriber_new 0 a (Some 3) 1], pr_next := 1,
     pr_channel_mgr := (channel_manager_new ''h'' 7)\<lparr>chm_channel_writers := ws\<rparr>,
     pr_global := (pr_global sample_process)\<lparr>gd_channels := chans\<rparr>\<rparr>"

lemma lone_subscriber_init:
  assumes "register_name (pf_name_hash sample_platform) (ra_channel_name a) chans = Some (cid, t)"
  shows "\<exists>q. subscriber_init sample_platform sample_outside 0 (lone_subscriber a ws chans) = Some (Inr (True, q))"
proof -
  let ?p = "lone_subscriber a ws chans" and ?su = "subscriber_new 0 a (Some 3) 1"
  have p: "wired ?p" using sample_wired
    by (auto simp: lone_subscriber_def wired_def subs_wired_def pubs_wired_def subscriber_new_def sample_process_def)
  have su: "pr_subs ?p 0 = Some ?su" "\<not> su_init ?su" "su_attr ?su = a" "ou_participant sample_outside"
    by (simp_all add: lone_subscriber_def subscriber_new_def sample_outside_def)
  from first_task_made [of "pr_global ?p"] obtain sched g where
    task: "create_task (pf_name_hash sample_platform) (uint (ou_now sample_outside))
      (ra_node_name (su_attr ?su) @ ''_'' @ ra_channel_name (su_attr ?su)) (pr_scheduler ?p, pr_global ?p) = Some (Inr (True, sched, g))"
    and g: "gd_channels g = chans"
    by (fastforce simp: lone_subscriber_def sample_process_def gd_new_def)
  from assms g su(3) have
    reg: "register_channel (pf_name_hash sample_platform) (ra_channel_name (su_attr ?su)) g = Some (cid, g\<lparr>gd_channels := t\<rparr>)"
    by (simp add: register_channel_def)
  have "\<not> mg_is_discovery_started (pr_channel_mgr ?p)"
    by (simp add: lone_subscriber_def channel_manager_new_def)
  from init_succeeds [OF p su(1,2,4) task reg this] show ?thesis .
qed

section \<open>Messages of a discovered writer\<close>

text \<open>What the initialisation of the first subscriber of a channel leaves in the dispatcher.\<close>

definition connected_to :: "u64 \<Rightarrow> string \<Rightarrow> data_listener \<Rightarrow> role_attributes list \<Rightarrow> process \<Rightarrow> bool" where
  "connected_to cid name c ws q \<longleftrightarrow> (\<exists>i. channel_open cid name
     (fold (\<lambda>w. lh_connect_to ([], []) i (ra_id w) c) ws (lh_connect i c (lh_new ([], [])))) q)"

lemma init_connects:
  assumes "subscriber_init pf ou i p = Some (Inr (True, q))" and "pr_subs p i = Some su" and "\<not> su_init su"
    and "pr_receivers p (su_type su, ra_channel_name (su_attr su)) = None" and "\<not> pr_transport_shutdown p"
    and "\<not> dp_is_shutdown (pr_dispatcher p)" and "rd_participant (pr_dispatcher p)"
    and "rd_readers (pr_dispatcher p) cid = None" and "dp_msg_listeners (pr_dispatcher p) cid = None"
    and "cid = ra_channel_id (su_attr su)"
    and "register_name (pf_name_hash pf) (ra_channel_name (su_attr su)) (gd_channels (pr_global p)) = Some (cid, t)"
  shows "connected_to cid (ra_channel_name (su_attr su)) (su_type su, cid)
    (snd (mw_search_attrs cid (chm_channel_writers (pr_channel_mgr p)) [])) q"
proof -
  let ?name = "ra_channel_name (su_attr su)" and ?c = "(su_type su, cid)"
  let ?ws = "snd (mw_search_attrs cid (chm_channel_writers (pr_channel_mgr p)) [])"
  from subscriber_init_stages [OF assms(1-3)] obtain v p4 has p5 where
    task: "create_task (pf_name_hash pf) (uint (ou_now ou)) (ra_node_name (su_attr su) @ ''_'' @ ?name)
      (pr_scheduler p, pr_global p) = Some (Inr (True, pr_scheduler p4, pr_global p4))"
    and p4: "pr_channel_mgr p4 = pr_channel_mgr p" "pr_receivers p4 = pr_receivers p" "pr_dispatcher p4 = pr_dispatcher p"
      "pr_transport_shutdown p4 = pr_transport_shutdown p"
    and recv: "get_receiver pf ou (su_type su) (su_attr su) p4 = Inr (has, p5)"
    and join: "sub_join_topology pf ou i (joined_sub su has v) (put_sub i (joined_sub su has v) p5) = Some (Inr q)"
    by blast
  from recv assms(4,5) p4 obtain r d where
    made: "create_receiver (pf_hash pf) ou ([], []) (gd_host_name (pr_global p4)) (gd_process_id (pr_global p4))
      False (su_attr su) ?c (pr_dispatcher p) = Inr (r, d)"
    and p5: "p5 = p4\<lparr>pr_dispatcher := d, pr_receivers := (pr_receivers p4)((su_type su, ?name) \<mapsto> r)\<rparr>"
    by (auto simp: get_receiver_def res_simps assms(10))
  from create_receiver_opens [OF made] assms(6-10) obtain rv where rv: "r = Some rv" "rv_listener rv = ?c"
    "ra_channel_id (rv_attr rv) = cid"
    "\<And>q. pr_dispatcher q = d \<Longrightarrow> channel_open cid ?name (lh_connect (ra_id (rv_attr rv)) ?c (lh_new ([], []))) q"
    by (auto simp: channel_open_def)
  have gd: "gd_channels (pr_global p5) = gd_channels (pr_global p)"
    using create_task_frame(1) [OF task] p5 by simp
  from join assms(11) gd p4 p5 obtain p6 p7 ok where
    en: "enable_writers pf ou (su_type su, ?name) ?ws p6 = Inr p7"
    and p6: "pr_receivers p6 (su_type su, ?name) = Some r" "pr_dispatcher p6 = d"
    and jn: "channel_join pf ou (su_attr su) ROLE_READER p7 = Inr (ok, q)"
    by (auto simp: sub_join_topology_def get_writers_of_channel_def register_channel_def res_simps Let_def
        simp del: enable_writers.simps)
  from enable_writers_connects [OF en, of rv ?name] p6 rv(1-3) rv(4) [OF p6(2)] have
    "channel_open cid ?name (fold (\<lambda>w. lh_connect_to ([], []) (ra_id (rv_attr rv)) (ra_id w) ?c) ?ws
      (lh_connect (ra_id (rv_attr rv)) ?c (lh_new ([], [])))) p7" by simp
  moreover have "pr_dispatcher q = pr_dispatcher p7" using channel_join_frame(2) [OF jn] by simp
  ultimately show ?thesis unfolding connected_to_def channel_open_def by auto
qed

lemma connected_listeners:
  fixes i c ws
  defines "xs \<equiv> Listen i c # map (\<lambda>w. ListenTo i (ra_id w) c) ws"
  shows "fold lh_step xs (([], []), lh_new ([], [])) =
      (([], []), fold (\<lambda>w. lh_connect_to ([], []) i (ra_id w) c) ws (lh_connect i c (lh_new ([], []))))"
    and "map snd (hs_all (fold hs_step xs hs_new) @ hs_of (fold hs_step xs hs_new) writer) =
      replicate (1 + count_list (map ra_id ws) writer) c"
  by (simp_all add: xs_def enabled_handler enabled_listeners taken_over_def hs_new_def)

text \<open>A subscriber on a channel that is new to the process gets every message of a writer twice if the
  writer was known when the subscriber was made, once more for every further time it is listed: its
  receiver listens to every writer from its creation and again to each writer it is enabled for, so the
  message is dispatched to the channel's buffers once for the first and once for each of the others.\<close>
lemma known_writer_delivers_twice:
  assumes "subscriber_init pf ou i p = Some (Inr (True, q))" and "pr_subs p i = Some su" and "\<not> su_init su"
    and "pr_receivers p (su_type su, ra_channel_name (su_attr su)) = None" and "\<not> pr_transport_shutdown p"
    and "\<not> dp_is_shutdown (pr_dispatcher p)" and "rd_participant (pr_dispatcher p)"
    and "rd_readers (pr_dispatcher p) cid = None" and "dp_msg_listeners (pr_dispatcher p) cid = None"
    and "cid = ra_channel_id (su_attr su)" and "cid = pf_name_hash pf (ra_channel_name (su_attr su))"
    and "register_name (pf_name_hash pf) (ra_channel_name (su_attr su)) (gd_channels (pr_global p)) = Some (cid, t)"
    and "sent_by pf writer ch"
  shows "\<exists>info d. process_receive pf cid seq ch q = Inr (dispatch_calls
      (replicate (1 + count_list (map ra_id (snd (mw_search_attrs cid (chm_channel_writers (pr_channel_mgr p)) []))) writer)
        ((su_type su, cid), ch_payload ch, info)) (q\<lparr>pr_dispatcher := d\<rparr>))"
proof -
  let ?ws = "snd (mw_search_attrs cid (chm_channel_writers (pr_channel_mgr p)) [])" and ?c = "(su_type su, cid)"
  from init_connects [OF assms(1-10,12)] obtain k r where
    open': "\<not> dp_is_shutdown (pr_dispatcher q)" "dp_msg_listeners (pr_dispatcher q) cid = Some (std_string,
      fold (\<lambda>w. lh_connect_to ([], []) k (ra_id w) ?c) ?ws (lh_connect k ?c (lh_new ([], []))))"
    "rd_readers (pr_dispatcher q) cid = Some r" "rr_channel_name r = ra_channel_name (su_attr su)"
    unfolding connected_to_def channel_open_def by blast
  have "pf_name_hash pf (rr_channel_name r) = cid" using open'(4) assms(11) by simp
  from receive_calls_listeners [OF open'(3) this open'(1,2) connected_listeners(1) assms(13), of seq] show ?thesis
    unfolding map_replicated [OF connected_listeners(2)] by blast
qed

lemma known_writer_delivers_twice_witness:
  "\<exists>q info d. subscriber_init sample_platform sample_outside 0 (lone_subscriber (sample_attr\<lparr>ra_channel_id := 1\<rparr>)
       [(1, \<lparr>r_class = RoleWriter, r_attributes = sample_attr, r_timestamp_ns = 0\<rparr>)] (hm_new (2 ^ 8))) = Some (Inr (True, q)) \<and>
     process_receive sample_platform 1 (0, 1) \<lparr>ch_topic = ''c'', ch_guid = [], ch_related_seq = (0, 1), ch_payload = [9]\<rparr> q =
       Inr (dispatch_calls [((0, 1), [9], info), ((0, 1), [9], info)] (q\<lparr>pr_dispatcher := d\<rparr>))"
proof -
  let ?a = "sample_attr\<lparr>ra_channel_id := 1\<rparr>" and ?ws = "[(1, \<lparr>r_class = RoleWriter, r_attributes = sample_attr, r_timestamp_ns = 0\<rparr>)]"
  let ?su = "subscriber_new 0 ?a (Some 3) 1" and ?p = "lone_subscriber ?a ?ws (hm_new (2 ^ 8))"
  let ?ch = "\<lparr>ch_topic = ''c'', ch_guid = [], ch_related_seq = (0, 1), ch_payload = [9]\<rparr>"
  have name: "pf_name_hash sample_platform (ra_channel_name sample_attr) = 1" by (simp add: sample_platform_def sample_attr_def)
  from registers_first [OF new_registry, of "pf_name_hash sample_platform" "ra_channel_name ?a"] obtain t where
    reg: "register_name (pf_name_hash sample_platform) (ra_channel_name ?a) (hm_new (2 ^ 8)) = Some (1, t)" by (auto simp: name)
  from lone_subscriber_init [OF reg, of ?ws] obtain q where
    q: "subscriber_init sample_platform sample_outside 0 ?p = Some (Inr (True, q))" by blast
  have fields: "pr_subs ?p 0 = Some ?su" "\<not> su_init ?su" "pr_receivers ?p (su_type ?su, ra_channel_name (su_attr ?su)) = None"
    "\<not> pr_transport_shutdown ?p" "\<not> dp_is_shutdown (pr_dispatcher ?p)" "rd_participant (pr_dispatcher ?p)"
    "rd_readers (pr_dispatcher ?p) 1 = None" "dp_msg_listeners (pr_dispatcher ?p) 1 = None" "1 = ra_channel_id (su_attr ?su)"
    "1 = pf_name_hash sample_platform (ra_channel_name (su_attr ?su))" "sent_by sample_platform 5 ?ch"
    "register_name (pf_name_hash sample_platform) (ra_channel_name (su_attr ?su)) (gd_channels (pr_global ?p)) = Some (1, t)"
    using reg by (simp_all add: lone_subscriber_def subscriber_new_def sample_process_def rtps_dispatcher_new_def sent_by_def
        sample_platform_def sample_attr_def)
  have listed: "count_list (map ra_id (snd (mw_search_attrs 1 (chm_channel_writers (pr_channel_mgr ?p)) []))) 5 = 1"
    by (simp add: lone_subscriber_def mw_search_attrs_def equal_range_def sample_attr_def)
  have type: "su_type ?su = 0" by (simp add: subscriber_new_def)
  from known_writer_delivers_twice [OF q fields(1-10,12,11), of "(0, 1)"] listed type q
  show ?thesis by (auto simp: numeral_2_eq_2)
qed

section \<open>Two nodes, one name\<close>

text \<open>\<open>FillInAttr\<close> gives every publisher and subscriber of a node a node name of a single character, the lowest
  byte of the node's id. Since the name of a subscriber's task is made of it and of the channel name, a process
  in which a subscriber of a node was made cannot make one on the same channel for a node whose id has the
  same lowest byte: the second creation returns null.\<close>
lemma one_byte_node_names:
  assumes "create_subscriber pf ou nc typ attr cb n p = Some (Inr (Some i, q))"
    and "ra_channel_name attr' = ra_channel_name attr"
    and "unat (ra_node_id (nc_node_attr nc')) mod 256 = unat (ra_node_id (nc_node_attr nc)) mod 256"
    and "reg_inv (pf_name_hash pf) (gd_tasks (pr_global p))" and "card (dom (hm_map (gd_tasks (pr_global p)))) + 1 < 2 ^ 64"
    and "reg_inv (pf_name_hash pf) (gd_channels (pr_global p))" and "card (dom (hm_map (gd_channels (pr_global p)))) + 1 < 2 ^ 64"
  shows "(\<exists>su. pr_subs q i = Some su \<and> ra_node_name (su_attr su) = [char_of (unat (ra_node_id (nc_node_attr nc)))]) \<and>
    (\<exists>q'. create_subscriber pf ou' nc' typ' attr' cb' n' q = Some (Inr (None, q')))"
proof -
  have ch: "ra_channel_name attr \<noteq> ''''" using assms(1) by (auto simp: create_subscriber_def)
  from create_subscriber_unfold [OF assms(1) ch] obtain a1 p1 where
    fill: "fill_in_attr pf nc attr p = Some (a1, p1)" and i: "i = pr_next p"
    and init: "subscriber_init pf ou i (put_sub i (subscriber_new typ a1 cb n) (p1\<lparr>pr_next := i + 1\<rparr>)) = Some (Inr (True, q))"
    by (auto split: if_splits)
  note a1 = fill_in_attr_laws(1,2) [OF fill]
  from fill obtain cid t where reg: "register_name (pf_name_hash pf) (ra_channel_name attr) (gd_channels (pr_global p)) = Some (cid, t)"
    and p1: "p1 = p\<lparr>pr_global := (pr_global p)\<lparr>gd_channels := t\<rparr>\<rparr>" by (auto simp: fill_in_attr_def register_channel_def)
  have new: "su_attr (subscriber_new typ a1 cb n) = a1" "\<not> su_init (subscriber_new typ a1 cb n)"
    by (simp_all add: subscriber_new_def)
  note frame = subscriber_init_frame [OF init, of "subscriber_new typ a1 cb n", simplified new, simplified]
  from frame(6) obtain c where "register_name (pf_name_hash pf) (ra_channel_name attr) t = Some (c, gd_channels (pr_global q))"
    by (auto simp: a1 p1)
  with register_again [OF assms(6,7) reg] obtain t3 where
    "register_name (pf_name_hash pf) (ra_channel_name attr) (gd_channels (pr_global q)) = Some (cid, t3)" by auto
  with assms(2) obtain a2 q1 where fill': "fill_in_attr pf nc' attr' q = Some (a2, q1)"
    and q1: "q1 = q\<lparr>pr_global := (pr_global q)\<lparr>gd_channels := t3\<rparr>\<rparr>"
    by (auto simp: fill_in_attr_def register_channel_def)
  let ?name = "string_assign_u64 (ra_node_id (nc_node_attr nc)) @ ''_'' @ ra_channel_name attr"
  have "string_assign_u64 (ra_node_id (nc_node_attr nc')) = string_assign_u64 (ra_node_id (nc_node_attr nc))"
    unfolding string_assign_u64_def by (metis assms(3) char_of_mod_256)
  then have name: "ra_node_name a2 @ ''_'' @ ra_channel_name a2 = ?name"
    using fill_in_attr_laws(1,2) [OF fill'] assms(2) by simp
  from frame(1) obtain g where task: "create_task (pf_name_hash pf) (uint (ou_now ou)) ?name
      (pr_scheduler p1, pr_global p1) = Some (Inr (True, pr_scheduler q, g))" and g: "gd_tasks g = gd_tasks (pr_global q)"
    by (auto simp: a1)
  have "\<exists>s3 g3. create_task (pf_name_hash pf) (uint (ou_now ou')) ?name (pr_scheduler q1, pr_global q1) = Some (Inr (False, s3, g3))"
    using assms(4,5) p1 q1 g by (intro create_task_again [OF task]) simp_all
  with name have "\<exists>q3. subscriber_init pf ou' (pr_next q) (put_sub (pr_next q) (subscriber_new typ' a2 cb' n')
      (q1\<lparr>pr_next := pr_next q + 1\<rparr>)) = Some (Inr (False, q3))"
    by (auto simp: subscriber_init_def subscriber_new_def rbind_Some Let_def split: prod.split)
  then have "\<exists>q'. create_subscriber pf ou' nc' typ' attr' cb' n' q = Some (Inr (None, q'))"
    using fill' ch assms(2) by (auto simp: create_subscriber_def rbind_def Let_def q1)
  moreover from frame(2) have "\<exists>su. pr_subs q i = Some su \<and> ra_node_name (su_attr su) = ra_node_name a1" by (auto simp: new(1))
  ultimately show ?thesis using a1(1) by (simp add: string_assign_u64_def)
qed

lemma one_byte_node_names_witness:
  "\<exists>i q q'. create_subscriber sample_platform sample_outside sample_node_channel 0 sample_attr (Some 3) 1 sample_process =
       Some (Inr (Some i, q)) \<and>
     create_subscriber sample_platform sample_outside (sample_node_channel\<lparr>nc_node_attr := sample_attr\<lparr>ra_node_id := 265\<rparr>\<rparr>) 0
       sample_attr None 1 q = Some (Inr (None, q'))"
proof -
  let ?pf = sample_platform and ?ou = sample_outside and ?p = sample_process
  from registers_first [OF new_registry, of "pf_name_hash ?pf" "ra_channel_name sample_attr"] obtain cid t where
    reg: "register_name (pf_name_hash ?pf) (ra_channel_name sample_attr) (hm_new (2 ^ 8)) = Some (cid, t)" by blast
  have tables: "gd_channels (pr_global ?p) = hm_new (2 ^ 8)" "gd_tasks (pr_global ?p) = hm_new (2 ^ 8)" "pr_next ?p = 0"
    by (simp_all add: sample_process_def gd_new_def)
  have "hm_map (hm_new (2 ^ 8) :: string hash_map) = Map.empty" by (rule ext) (rule new_registry)
  then have "card (dom (hm_map (hm_new (2 ^ 8) :: string hash_map))) = 0" by simp
  note known = reg_inv_new [of 8 "pf_name_hash ?pf"] this
  with register_again [of "pf_name_hash ?pf" "hm_new (2 ^ 8)", OF _ _ reg] obtain t2 where
    reg2: "register_name (pf_name_hash ?pf) (ra_channel_name sample_attr) t = Some (cid, t2)" by auto
  from reg tables obtain a1 where
    fill: "fill_in_attr ?pf sample_node_channel sample_attr ?p = Some (a1, ?p\<lparr>pr_global := (pr_global ?p)\<lparr>gd_channels := t\<rparr>\<rparr>)"
    and a1: "ra_channel_name a1 = ra_channel_name sample_attr"
    by (simp add: fill_in_attr_def register_channel_def)
  from lone_subscriber_init [of a1 t _ _ "[]"] reg2 a1 obtain q where
    "subscriber_init ?pf ?ou 0 (lone_subscriber a1 [] t) = Some (Inr (True, q))" by auto
  moreover have "lone_subscriber a1 [] t = put_sub 0 (subscriber_new 0 a1 (Some 3) 1)
      (?p\<lparr>pr_global := (pr_global ?p)\<lparr>gd_channels := t\<rparr>, pr_next := 1\<rparr>)"
    by (simp add: lone_subscriber_def put_sub_def sample_process_def channel_manager_new_def)
  ultimately have first: "create_subscriber ?pf ?ou sample_node_channel 0 sample_attr (Some 3) 1 ?p = Some (Inr (Some 0, q))"
    using fill tables(3) by (simp add: create_subscriber_def rbind_def Let_def sample_attr_def)
  have hyps: "unat (ra_node_id (nc_node_attr (sample_node_channel\<lparr>nc_node_attr := sample_attr\<lparr>ra_node_id := 265\<rparr>\<rparr>))) mod 256 =
      unat (ra_node_id (nc_node_attr sample_node_channel)) mod 256"
    by (simp add: sample_node_channel_def sample_attr_def)
  from one_byte_node_names [OF first refl hyps, of ?ou 0 None 1] known tables(1,2) first show ?thesis by auto
qed

end
