(* ===== verification/Node_Messages.thy ===== *)
theory Node_Messages
  imports Node_Delivery
begin

text \<open>
  From \<open>Publish\<close> to the callback of a subscriber: what a publisher hands to Fast DDS reaches the callback of
  a subscriber in another process.
\<close>

section \<open>Publishing\<close>

fun publish_all :: "outside \<Rightarrow> nat \<Rightarrow> byte list list \<Rightarrow> process \<Rightarrow> ub + process" where
  "publish_all ou j [] p = Inr p"
| "publish_all ou j (m # ms) p = sbind (publisher_publish ou m j p) (\<lambda>(_, p1). publish_all ou j ms p1)"

definition can_publish :: "nat \<Rightarrow> process \<Rightarrow> bool" where
  "can_publish j p \<longleftrightarrow> (\<exists>pb tr. pr_pubs p j = Some pb \<and> pb_init pb \<and> pb_transmitter pb = Some tr \<and> rt_enabled tr \<and>
     rt_writer tr \<noteq> None)"

definition accepts :: "outside \<Rightarrow> byte list \<Rightarrow> bool" where
  "accepts ou m \<longleftrightarrow> length m \<le> ou_room ou \<and> (ou_added ou \<or> ou_added_again ou)"

lemma publish_sends:
  assumes "can_publish j p" and "accepts ou m"
  shows "\<exists>p1 ch. publisher_publish ou m j p = Inr (None, p1) \<and> can_publish j p1 \<and> pr_sent p1 = pr_sent p @ [ch] \<and>
    ch_payload ch = m"
proof -
  from assms(1) obtain pb tr attr where "pr_pubs p j = Some pb" "pb_init pb" "pb_transmitter pb = Some tr" "rt_enabled tr"
    "rt_writer tr = Some attr" by (auto simp: can_publish_def)
  with assms(2) show ?thesis
    by (auto simp: publisher_publish_def rtps_transmit_next_def rtps_transmit_def accepts_def can_publish_def
        rt_enabled_def put_pub_def Let_def)
qed

lemma publish_all_sends:
  assumes "can_publish j p" and "list_all (accepts ou) ms"
  shows "\<exists>q chs. publish_all ou j ms p = Inr q \<and> pr_sent q = pr_sent p @ chs \<and> map ch_payload chs = ms"
  using assms
proof (induction ms arbitrary: p)
  case (Cons m ms)
  then obtain p1 ch where one: "publisher_publish ou m j p = Inr (None, p1)" "can_publish j p1"
    "pr_sent p1 = pr_sent p @ [ch]" "ch_payload ch = m" using publish_sends by fastforce
  with Cons.IH [OF one(2)] Cons.prems(2) obtain q chs where
    "publish_all ou j ms p1 = Inr q" "pr_sent q = pr_sent p1 @ chs" "map ch_payload chs = ms" by auto
  with one show ?case by (intro exI [of _ q] exI [of _ "ch # chs"]) simp
qed simp

section \<open>A channel with one listener\<close>

text \<open>Every message of the channel, whoever sent it, runs the listener of \<open>ty\<close> at least once and no other.\<close>

definition serves :: "platform \<Rightarrow> u64 \<Rightarrow> nat \<Rightarrow> process \<Rightarrow> bool" where
  "serves pf cid ty p \<longleftrightarrow> \<not> dp_is_shutdown (pr_dispatcher p) \<and>
     (\<exists>r. rd_readers (pr_dispatcher p) cid = Some r \<and> pf_name_hash pf (rr_channel_name r) = cid) \<and>
     (\<exists>h sp. dp_msg_listeners (pr_dispatcher p) cid = Some (std_string, h) \<and> lh_refines (([], []), h) sp \<and>
        (\<forall>w. \<exists>k. map snd (hs_all sp @ hs_of sp w) = replicate (Suc k) (ty, cid)))"

lemma serves_frame: "serves pf cid ty p \<Longrightarrow> pr_dispatcher q = pr_dispatcher p \<Longrightarrow> serves pf cid ty q"
  by (simp add: serves_def)

lemma run_served:
  assumes "lh_refines (([], []), h) sp" and "lh_run record_call arg w ([], []) h = (u, h')"
  shows "fst u = map (\<lambda>(_, c). (c, arg)) (hs_all sp @ hs_of sp w)" and "lh_refines (([], []), h') sp"
proof -
  have ran: "hs_ran sp = []" using assms(1) by (simp add: lh_refines_def)
  from lh_step_refines [OF assms(1), of "Deliver arg w"] assms(2) have
    "lh_refines (u, h') (sp\<lparr>hs_ran := map (\<lambda>(_, c). (c, arg)) (hs_all sp @ hs_of sp w)\<rparr>)" by (simp add: ran)
  then show "fst u = map (\<lambda>(_, c). (c, arg)) (hs_all sp @ hs_of sp w)" "lh_refines (([], []), h') sp"
    by (auto simp: lh_refines_def ran)
qed

lemma receive_served:
  assumes "serves pf cid ty p"
  shows "\<exists>k info d. process_receive pf cid seq ch p =
      Inr (dispatch_calls (replicate (Suc k) ((ty, cid), ch_payload ch, info)) (p\<lparr>pr_dispatcher := d\<rparr>)) \<and>
    serves pf cid ty (p\<lparr>pr_dispatcher := d\<rparr>)"
proof -
  from assms obtain r h sp where r: "\<not> dp_is_shutdown (pr_dispatcher p)" "rd_readers (pr_dispatcher p) cid = Some r"
    "pf_name_hash pf (rr_channel_name r) = cid" "dp_msg_listeners (pr_dispatcher p) cid = Some (std_string, h)"
    and sp: "lh_refines (([], []), h) sp" and one: "\<forall>w. \<exists>k. map snd (hs_all sp @ hs_of sp w) = replicate (Suc k) (ty, cid)"
    by (auto simp: serves_def)
  let ?info = "(rr_msg_info r)\<lparr>mi_sender_id := identity_set_data (pf_hash pf) (Some (ch_guid ch)) (identity_new (pf_hash pf) None),
      mi_spare_id := identity_set_data (pf_hash pf) (Some (drop ID_SIZE (ch_guid ch))) (identity_new (pf_hash pf) None),
      mi_seq_num := push_bit 32 (scast (fst seq)) OR ucast (snd seq)\<rparr>"
  let ?w = "id_hash_value (mi_sender_id ?info)"
  obtain u h' where run: "lh_run record_call (ch_payload ch, ?info) ?w ([], []) h = (u, h')" by (metis surj_pair)
  from one obtain k where k: "map snd (hs_all sp @ hs_of sp ?w) = replicate (Suc k) (ty, cid)" by blast
  have u: "fst u = replicate (Suc k) ((ty, cid), ch_payload ch, ?info)"
    using run_served(1) [OF sp run] map_replicated [OF k, of "ch_payload ch" ?info] by simp
  let ?d = "(pr_dispatcher p)\<lparr>rd_readers := (rd_readers (pr_dispatcher p))(cid \<mapsto> r\<lparr>rr_msg_info := ?info\<rparr>),
    dp_msg_listeners := (dp_msg_listeners (pr_dispatcher p))(cid \<mapsto> (std_string, h'))\<rparr>"
  have "on_new_cache_change record_call (pf_hash pf) (pf_name_hash pf) cid seq ch ([], []) (pr_dispatcher p) = Inr (u, ?d)"
    using r run by (simp add: on_new_cache_change_def rtps_on_message_def Let_def)
  moreover have "serves pf cid ty (p\<lparr>pr_dispatcher := ?d\<rparr>)"
    using r run_served(2) [OF sp run] one by (auto simp: serves_def)
  ultimately show ?thesis using u
    by (intro exI [of _ k] exI [of _ ?info] exI [of _ ?d]) (simp add: process_receive_def)
qed

section \<open>A subscriber that has read everything\<close>

definition up_to_date :: "nat \<Rightarrow> nat \<Rightarrow> visitor \<Rightarrow> byte list list \<Rightarrow> process \<Rightarrow> bool" where
  "up_to_date i c v ms p \<longleftrightarrow> (\<exists>su. pr_subs p i = Some su \<and> su_callback su = Some c \<and> su_visitor su = Some v \<and>
     bl_callbacks (su_blocker su) = []) \<and> v_fusion v = None \<and> v_next v = (if ms = [] then 0 else length ms + 1)"

definition buffered :: "nat \<Rightarrow> nat \<Rightarrow> u64 \<Rightarrow> nat \<Rightarrow> byte list list \<Rightarrow> byte list data_sys \<Rightarrow> bool" where
  "buffered b ty cid n ms sys \<longleftrightarrow> \<not> sys_shutdown sys \<and>
     (\<exists>bs. hm_get (sys_dispatch sys ty) cid = Some bs \<and> distinct bs \<and> b \<in> set bs) \<and>
     (\<exists>cb. sys_bufs sys b = Some cb \<and> cb_fusion cb = None \<and> history (map Some ms) n cb)"

lemma fold_fill_keeps [simp]:
  "sys_shutdown (fold (\<lambda>b. fill_buffer b m) bs sys) = sys_shutdown sys"
  "sys_dispatch (fold (\<lambda>b. fill_buffer b m) bs sys) = sys_dispatch sys"
  by (induction bs arbitrary: sys) simp_all

lemma dispatch_buffered:
  assumes "buffered b ty cid n ms sys"
  shows "buffered b ty cid n (ms @ [m]) (snd (dispatch ty cid m sys))"
proof -
  from assms obtain bs cb where b: "\<not> sys_shutdown sys" "hm_get (sys_dispatch sys ty) cid = Some bs" "distinct bs" "b \<in> set bs"
    "sys_bufs sys b = Some cb" "cb_fusion cb = None" "history (map Some ms) n cb" by (auto simp: buffered_def)
  let ?s = "fold (\<lambda>b. fill_buffer b m) bs sys"
  have "buffered b ty cid n (ms @ [m]) ?s"
    using b history_fill [OF b(7), of "Some m"] by (simp add: buffered_def fold_fill_buffer_bufs)
  then have "buffered b ty cid n (ms @ [m]) (snd (notify cid ?s))"
    by (auto simp: notify_def fold_run_notifier buffered_def split: option.split)
  with b(1,2) show ?thesis by (simp add: dispatch_def)
qed

lemma dispatch_calls_data:
  "pr_data (dispatch_calls cs p) = fold (\<lambda>((ty, cid), m) sys. snd (dispatch ty cid (fst m) sys)) cs (pr_data p)"
proof (induction cs p rule: dispatch_calls.induct)
  case (2 ty cid m cs p)
  then show ?case by (simp add: Let_def split: prod.split)
qed simp

lemma dispatch_calls_buffered:
  assumes "buffered b ty cid n ms (pr_data p)"
  shows "buffered b ty cid n (ms @ replicate k m) (pr_data (dispatch_calls (replicate k ((ty, cid), m, info)) p))"
proof -
  have "buffered b ty cid n (ms @ replicate k m)
      (fold (\<lambda>((ty, cid), m) sys. snd (dispatch ty cid (fst m) sys)) (replicate k ((ty, cid), m, info)) sys)"
    if "buffered b ty cid n ms sys" for sys
    using that
  proof (induction k arbitrary: ms sys)
    case (Suc k)
    from Suc.IH [OF dispatch_buffered [OF Suc.prems, of m]] show ?case by simp
  qed simp
  with assms show ?thesis by (simp add: dispatch_calls_data)
qed

lemma dispatch_calls_called: "pr_called (dispatch_calls cs p) = pr_called p"
proof (induction cs p rule: dispatch_calls.induct)
  case (2 ty cid m cs p)
  then show ?case by (simp add: Let_def split: prod.split)
qed simp

text \<open>With a queue of at most one message, a slice after copies of a message were received hands over one.\<close>

lemma slice_reads:
  assumes up: "up_to_date i c v ms p" and buf: "buffered (v_buffer v) ty cid n (ms @ replicate (Suc k) m) (pr_data p)"
    and n: "n \<le> 1"
  shows "\<exists>su1. subscriber_slice i p = (put_sub i su1 p)\<lparr>pr_called := pr_called p @ [(c, m)]\<rparr>"
    and "up_to_date i c (v\<lparr>v_next := length ms + k + 2\<rparr>) (ms @ replicate (Suc k) m) (subscriber_slice i p)"
proof -
  let ?xs = "ms @ replicate (Suc k) m" and ?v1 = "v\<lparr>v_next := length ms + k + 2\<rparr>"
  from buf obtain cb where cb: "sys_bufs (pr_data p) (v_buffer v) = Some cb" "history (map Some ?xs) n cb"
    unfolding buffered_def by blast
  from up obtain su where su: "pr_subs p i = Some su" "su_callback su = Some c" "su_visitor su = Some v"
    "bl_callbacks (su_blocker su) = []" and v: "v_fusion v = None" "v_next v = (if ms = [] then 0 else length ms + 1)"
    unfolding up_to_date_def by blast
  have "fetch (v_next v) cb = (True, length ?xs, Some (Some m))"
  proof (cases "v_next v = 0 \<or> v_next v + n \<le> length ?xs")
    case True
    with v show ?thesis by (auto simp: history_fetch [OF cb(2)] last_map split: if_splits)
  next
    case False
    with v n have "n = 1" "k = 0" "v_next v = length ?xs" by (auto split: if_splits)
    with False history_at [OF cb(2), of "v_next v"] show ?thesis by (auto simp: history_fetch [OF cb(2)] nth_append)
  qed
  then have fetched: "visitor_try_fetch v (pr_data p) = (True, ?v1, [m])"
    using v cb(1) by (simp add: visitor_try_fetch_def try_fetch_def)
  let ?su1 = "su\<lparr>su_visitor := Some ?v1, su_blocker := bl_enqueue m (su_blocker su)\<rparr>"
  have quiet: "bl_callbacks (bl_enqueue m (su_blocker su)) = []" using su by (simp add: bl_enqueue_def)
  then have "subscriber_func m (su\<lparr>su_visitor := Some ?v1\<rparr>) = (?su1, [(c, m)])"
    using su by (simp add: subscriber_func_def subscriber_enqueue_def bl_publish_def bl_notify_def Let_def)
  then have slice: "subscriber_slice i p = (put_sub i ?su1 p)\<lparr>pr_called := pr_called p @ [(c, m)]\<rparr>"
    using su fetched by (simp add: subscriber_slice_def Let_def)
  then show "\<exists>su1. subscriber_slice i p = (put_sub i su1 p)\<lparr>pr_called := pr_called p @ [(c, m)]\<rparr>" by blast
  show "up_to_date i c ?v1 ?xs (subscriber_slice i p)"
    unfolding slice up_to_date_def using su v quiet by simp
qed

definition follows :: "platform \<Rightarrow> nat \<Rightarrow> nat \<Rightarrow> nat \<Rightarrow> u64 \<Rightarrow> nat \<Rightarrow> byte list list \<Rightarrow> process \<Rightarrow> bool" where
  "follows pf i c ty cid n ms p \<longleftrightarrow> serves pf cid ty p \<and>
     (\<exists>v. up_to_date i c v ms p \<and> buffered (v_buffer v) ty cid n ms (pr_data p))"

lemma receive_then_slice:
  assumes "follows pf i c ty cid n ms p" and "n \<le> 1"
  shows "\<exists>r ms1. process_receive pf cid seq ch p = Inr r \<and> follows pf i c ty cid n ms1 (subscriber_slice i r) \<and>
    pr_called (subscriber_slice i r) = pr_called p @ [(c, ch_payload ch)]"
proof -
  from assms obtain v where v: "up_to_date i c v ms p" "buffered (v_buffer v) ty cid n ms (pr_data p)" "serves pf cid ty p"
    by (auto simp: follows_def)
  from receive_served [OF v(3), of seq ch] obtain k info d where
    recv: "process_receive pf cid seq ch p = Inr (dispatch_calls (replicate (Suc k) ((ty, cid), ch_payload ch, info)) (p\<lparr>pr_dispatcher := d\<rparr>))"
    and srv: "serves pf cid ty (p\<lparr>pr_dispatcher := d\<rparr>)" by blast
  define r where "r = dispatch_calls (replicate (Suc k) ((ty, cid), ch_payload ch, info)) (p\<lparr>pr_dispatcher := d\<rparr>)"
  have r: "pr_subs r = pr_subs p" "pr_dispatcher r = d" "pr_called r = pr_called p"
    using dispatch_calls_frame [of "replicate (Suc k) ((ty, cid), ch_payload ch, info)" "p\<lparr>pr_dispatcher := d\<rparr>"]
    by (simp_all add: r_def dispatch_calls_called del: replicate_Suc)
  let ?xs = "ms @ replicate (Suc k) (ch_payload ch)" and ?v1 = "v\<lparr>v_next := length ms + k + 2\<rparr>"
  have buf: "buffered (v_buffer v) ty cid n ?xs (pr_data r)"
    unfolding r_def by (rule dispatch_calls_buffered) (simp add: v(2))
  have up: "up_to_date i c v ms r" using v(1) by (simp add: up_to_date_def r(1))
  note slice = slice_reads [OF up buf assms(2)]
  from slice(1) obtain su1 where s: "subscriber_slice i r = (put_sub i su1 r)\<lparr>pr_called := pr_called r @ [(c, ch_payload ch)]\<rparr>" ..
  have "serves pf cid ty (subscriber_slice i r)" by (rule serves_frame [OF srv]) (simp add: s r(2))
  moreover have "buffered (v_buffer ?v1) ty cid n ?xs (pr_data (subscriber_slice i r))" using buf by (simp add: s)
  ultimately have "follows pf i c ty cid n ?xs (subscriber_slice i r)" using slice(2) unfolding follows_def by blast
  moreover have "pr_called (subscriber_slice i r) = pr_called p @ [(c, ch_payload ch)]" by (simp add: s r(3))
  ultimately show ?thesis using recv unfolding r_def by blast
qed

text \<open>Changes arrive one after the other, and after each the routine of the subscriber runs a slice.\<close>

fun deliver :: "platform \<Rightarrow> u64 \<Rightarrow> nat \<Rightarrow> (u32 \<times> u32) list \<Rightarrow> rtps_change list \<Rightarrow> process \<Rightarrow> ub + process" where
  "deliver pf cid i (seq # seqs) (ch # chs) p =
     sbind (process_receive pf cid seq ch p) (\<lambda>p1. deliver pf cid i seqs chs (subscriber_slice i p1))"
| "deliver pf cid i _ _ p = Inr p"

lemma deliver_calls:
  assumes "follows pf i c ty cid n ms p" and "n \<le> 1" and "length seqs = length chs"
  shows "\<exists>q. deliver pf cid i seqs chs p = Inr q \<and> pr_called q = pr_called p @ map (\<lambda>ch. (c, ch_payload ch)) chs"
  using assms(3,1)
proof (induction seqs chs arbitrary: p ms rule: list_induct2)
  case (Cons seq seqs ch chs)
  from receive_then_slice [OF Cons.prems assms(2), of seq ch] obtain r ms1 where
    one: "process_receive pf cid seq ch p = Inr r" "follows pf i c ty cid n ms1 (subscriber_slice i r)"
    "pr_called (subscriber_slice i r) = pr_called p @ [(c, ch_payload ch)]" by blast
  from Cons.IH [OF one(2)] one show ?case by auto
qed simp

section \<open>A new subscriber\<close>

lemma new_visitor_buffered:
  assumes "new_visitor \<lparr>vc_type = ty, vc_channel = cid, vc_queue_size = n\<rparr> [] b [] m f sys = (v, sys1)"
    and "hm_inv (sys_dispatch sys ty)" and "hm_map (sys_dispatch sys ty) cid = None" and "\<not> sys_shutdown sys"
  shows "v = \<lparr>v_next = 0, v_buffer = b, v_fusion = None, v_notifier = m\<rparr>" and "buffered b ty cid n [] sys1"
proof -
  let ?sys = "sys\<lparr>sys_callbacks := (sys_callbacks sys)(m \<mapsto> None), sys_bufs := (sys_bufs sys)(b \<mapsto> cb_new None n)\<rparr>"
  from assms(1) show "v = \<lparr>v_next = 0, v_buffer = b, v_fusion = None, v_notifier = m\<rparr>"
    by (simp add: new_visitor_def Let_def)
  have sys1: "sys1 = add_notifier cid m (add_buffer ty cid b ?sys)" using assms(1) by (simp add: new_visitor_def Let_def)
  have "hm_map (sys_dispatch (add_buffer ty cid b ?sys) ty) cid = Some [b]"
    using add_buffer_laws(2) [of ?sys ty cid b] assms(2,3) by simp
  then have "hm_get (sys_dispatch (add_buffer ty cid b ?sys) ty) cid = Some [b]"
    using add_buffer_laws(1) [of ?sys ty cid b] assms(2) by (simp add: hm_get_map)
  moreover have "cb_fusion (cb_new None n) = None" "history [] n (cb_new None n)" by (simp_all add: cb_new_def) (simp add: history_def)
  ultimately show "buffered b ty cid n [] sys1"
    using assms(4) by (simp add: buffered_def sys1)
qed

text \<open>The first subscriber of a channel and message type that the process has no data of.\<close>

definition first_on_channel :: "platform \<Rightarrow> subscriber \<Rightarrow> process \<Rightarrow> bool" where
  "first_on_channel pf su p \<longleftrightarrow> (let name = ra_channel_name (su_attr su); cid = ra_channel_id (su_attr su) in
     pr_receivers p (su_type su, name) = None \<and> \<not> pr_transport_shutdown p \<and> \<not> dp_is_shutdown (pr_dispatcher p) \<and>
     rd_participant (pr_dispatcher p) \<and> rd_readers (pr_dispatcher p) cid = None \<and> dp_msg_listeners (pr_dispatcher p) cid = None \<and>
     cid = pf_name_hash pf name \<and> (\<exists>t. register_name (pf_name_hash pf) name (gd_channels (pr_global p)) = Some (cid, t)) \<and>
     hm_inv (sys_dispatch (pr_data p) (su_type su)) \<and> hm_map (sys_dispatch (pr_data p) (su_type su)) cid = None \<and>
     \<not> sys_shutdown (pr_data p))"

lemma handler_new_refines: "lh_refines (([], []), lh_new ([], [])) hs_new"
  using sg.stands_for_empty [OF sig_new_full] by (simp add: lh_refines_def lh_new_def hs_new_def)

lemma fold_refines: "lh_refines uh sp \<Longrightarrow> lh_refines (fold lh_step xs uh) (fold hs_step xs sp)"
  by (induction xs arbitrary: uh sp) (simp_all add: lh_step_refines)

lemma init_follows:
  assumes init: "subscriber_init pf ou i p = Some (Inr (True, q))" and su: "pr_subs p i = Some su" "\<not> su_init su"
    and first: "first_on_channel pf su p" and c: "su_callback su = Some c" "bl_callbacks (su_blocker su) = []"
  shows "follows pf i c (su_type su) (ra_channel_id (su_attr su)) (unat (su_pending su)) [] q" and "pr_called q = pr_called p"
proof -
  let ?cid = "ra_channel_id (su_attr su)" and ?name = "ra_channel_name (su_attr su)"
  let ?ws = "snd (mw_search_attrs ?cid (chm_channel_writers (pr_channel_mgr p)) [])" and ?c = "(su_type su, ?cid)"
  note F = first [unfolded first_on_channel_def Let_def]
  from F obtain t where reg: "register_name (pf_name_hash pf) ?name (gd_channels (pr_global p)) = Some (?cid, t)" by blast
  from F init_connects [OF init su _ _ _ _ _ _ refl reg] obtain k r where
    open': "\<not> dp_is_shutdown (pr_dispatcher q)" "dp_msg_listeners (pr_dispatcher q) ?cid = Some (std_string,
      fold (\<lambda>w. lh_connect_to ([], []) k (ra_id w) ?c) ?ws (lh_connect k ?c (lh_new ([], []))))"
    "rd_readers (pr_dispatcher q) ?cid = Some r" "rr_channel_name r = ?name"
    unfolding connected_to_def channel_open_def by blast
  let ?xs = "Listen k ?c # map (\<lambda>w. ListenTo k (ra_id w) ?c) ?ws :: (data_listener, rtps_message) handler_op list"
  have "lh_refines (([], []), fold (\<lambda>w. lh_connect_to ([], []) k (ra_id w) ?c) ?ws (lh_connect k ?c (lh_new ([], []))))
      (fold hs_step ?xs hs_new)"
    using fold_refines [OF handler_new_refines, of ?xs] unfolding connected_listeners(1) .
  moreover have "\<exists>k'. map snd (hs_all (fold hs_step ?xs hs_new) @ hs_of (fold hs_step ?xs hs_new) w) = replicate (Suc k') ?c" for w
    unfolding connected_listeners(2) plus_1_eq_Suc by blast
  ultimately have serves: "serves pf ?cid (su_type su) q"
    using open' F unfolding serves_def by auto
  from subscriber_init_stages [OF init su] obtain v p4 has p5 t data where
    p4: "pr_called p4 = pr_called p" "pr_data p4 = register_notify_callback v t data"
    and vd: "new_visitor \<lparr>vc_type = su_type su, vc_channel = ?cid, vc_queue_size = unat (su_pending su)\<rparr> []
        (pr_next p) [] (pr_next p + 1) 0 (pr_data p) = (v, data)"
    and recv: "get_receiver pf ou (su_type su) (su_attr su) p4 = Inr (has, p5)"
    and join: "sub_join_topology pf ou i (joined_sub su has v) (put_sub i (joined_sub su has v) p5) = Some (Inr q)" by blast
  note frames = get_receiver_frame [OF recv] sub_join_frame [OF join]
  show "pr_called q = pr_called p" using frames p4(1) by simp
  have q: "pr_data q = register_notify_callback v t data" "pr_subs q i = Some (joined_sub su has v)" using frames p4(2) by simp_all
  from F have dispatch: "hm_inv (sys_dispatch (pr_data p) (su_type su))"
    "hm_map (sys_dispatch (pr_data p) (su_type su)) ?cid = None" "\<not> sys_shutdown (pr_data p)" by blast+
  note new = new_visitor_buffered [OF vd dispatch]
  have "buffered (v_buffer v) (su_type su) ?cid (unat (su_pending su)) [] (pr_data q)"
    using new by (simp add: q(1) buffered_def register_notify_callback_def)
  moreover have "up_to_date i c v [] q" using q(2) c new(1) by (simp add: up_to_date_def)
  ultimately show "follows pf i c (su_type su) ?cid (unat (su_pending su)) [] q" using serves unfolding follows_def by blast
qed

text \<open>C1. Messages travel from \<open>Publish\<close> to the callback: the messages a publisher with an enabled transmitter
  publishes are handed to Fast DDS each once and in order; and in a process in which the first subscriber of their
  channel was initialised, with a pending queue of at most one message, receiving them one after the other, each
  followed by a slice of the subscriber's routine, calls its callback with exactly these messages, each once
  and in order, whoever else was known to write to the channel.\<close>
theorem published_messages_reach_callback:
  assumes "can_publish j ps" and "list_all (accepts ou) msgs"
    and "subscriber_init pf ou' i p = Some (Inr (True, q))" and "pr_subs p i = Some su" and "\<not> su_init su"
    and "first_on_channel pf su p" and "su_callback su = Some c" and "bl_callbacks (su_blocker su) = []" and "su_pending su \<le> 1"
    and "length seqs = length msgs"
  shows "\<exists>ps' chs q'. publish_all ou j msgs ps = Inr ps' \<and> pr_sent ps' = pr_sent ps @ chs \<and>
    deliver pf (ra_channel_id (su_attr su)) i seqs chs q = Inr q' \<and> pr_called q' = pr_called p @ map (Pair c) msgs"
proof -
  from publish_all_sends [OF assms(1,2)] obtain ps' chs where
    sent: "publish_all ou j msgs ps = Inr ps'" "pr_sent ps' = pr_sent ps @ chs" "map ch_payload chs = msgs" by blast
  have n: "unat (su_pending su) \<le> 1" using assms(9) by (simp add: word_le_nat_alt)
  have len: "length seqs = length chs" using sent(3) assms(10) by auto
  note init = init_follows [OF assms(3-8)]
  from deliver_calls [OF init(1) n len] obtain q' where
    "deliver pf (ra_channel_id (su_attr su)) i seqs chs q = Inr q'" "pr_called q' = pr_called q @ map (\<lambda>ch. (c, ch_payload ch)) chs"
    by blast
  with sent init(2) show ?thesis by auto
qed

theorem published_messages_reach_callback_witness:
  "\<exists>ps ps' chs q q'. publish_all sample_outside 0 [[1], [2, 3]] ps = Inr ps' \<and> pr_sent ps' = chs \<and> length chs = 2 \<and>
     subscriber_init sample_platform sample_outside 0 (lone_subscriber (sample_attr\<lparr>ra_channel_id := 1\<rparr>)
       [(1, \<lparr>r_class = RoleWriter, r_attributes = sample_attr, r_timestamp_ns = 0\<rparr>)] (hm_new (2 ^ 8))) = Some (Inr (True, q)) \<and>
     deliver sample_platform 1 0 [(0, 1), (0, 2)] chs q = Inr q' \<and> pr_called q' = [(3, [1]), (3, [2, 3])]"
proof -
  let ?a = "sample_attr\<lparr>ra_channel_id := 1\<rparr>" and ?ws = "[(1, \<lparr>r_class = RoleWriter, r_attributes = sample_attr, r_timestamp_ns = 0\<rparr>)]"
  let ?su = "subscriber_new 0 ?a (Some 3) 1" and ?p = "lone_subscriber ?a ?ws (hm_new (2 ^ 8))"
  let ?tr = "(rtps_transmitter_new (\<lambda>_. 5) sample_outside ''h'' 7 sample_attr)"
  let ?tr1 = "?tr\<lparr>rt_writer := Some (ou_defaults sample_outside), rt_endpoint := (rt_endpoint ?tr)\<lparr>ep_enabled := True\<rparr>\<rparr>"
  let ?ps = "sample_process\<lparr>pr_pubs := [0 \<mapsto> sample_publisher\<lparr>pb_transmitter := Some ?tr1\<rparr>]\<rparr>"
  have can: "can_publish 0 ?ps" by (simp add: can_publish_def sample_publisher_def rt_enabled_def)
  have room: "list_all (accepts sample_outside) [[1], [2, 3]]" by (simp add: accepts_def sample_outside_def)
  have name: "pf_name_hash sample_platform (ra_channel_name sample_attr) = 1" by (simp add: sample_platform_def sample_attr_def)
  from registers_first [OF new_registry, of "pf_name_hash sample_platform" "ra_channel_name ?a"] obtain t where
    reg: "register_name (pf_name_hash sample_platform) (ra_channel_name ?a) (hm_new (2 ^ 8)) = Some (1, t)" by (auto simp: name)
  from lone_subscriber_init [OF reg, of ?ws] obtain q where
    q: "subscriber_init sample_platform sample_outside 0 ?p = Some (Inr (True, q))" by blast
  have su: "pr_subs ?p 0 = Some ?su" "\<not> su_init ?su" "su_callback ?su = Some 3" "bl_callbacks (su_blocker ?su) = []"
    "su_pending ?su \<le> 1" "ra_channel_id (su_attr ?su) = 1" "pr_called ?p = []" "pr_sent ?ps = []"
    by (simp_all add: lone_subscriber_def subscriber_new_def bl_new_def sample_process_def)
  have "first_on_channel sample_platform ?su ?p"
    using reg name by (simp add: first_on_channel_def lone_subscriber_def subscriber_new_def sample_process_def rtps_dispatcher_new_def
        sys_tables_new) (simp add: sys_new_def)
  from published_messages_reach_callback [OF can room q su(1,2) this su(3-5), of "[(0, 1), (0, 2)]"] obtain ps' chs q' where
    "publish_all sample_outside 0 [[1], [2, 3]] ?ps = Inr ps'" "pr_sent ps' = chs"
    "deliver sample_platform 1 0 [(0, 1), (0, 2)] chs q = Inr q'" "pr_called q' = [(3, [1]), (3, [2, 3])]"
    unfolding su(6-8) by auto
  moreover have "length chs = 2"
    using publish_all_sends [OF can room] calculation(1,2) su(8) by (auto dest: arg_cong [of _ _ length])
  ultimately show ?thesis using q by blast
qed

end
