(* ===== verification/Class_Loading.thy ===== *)
theory Class_Loading
  imports Data_Stream "HOL-Library.List_Lexorder" "HOL-Library.Char_ord"
begin

text \<open>
  Plugins: \<open>class_loader/class_loader.h\<close> and \<open>.cpp\<close>, \<open>class_loader/class_loader_manager.h\<close> and \<open>.cpp\<close>, and
  the registries of \<open>class_loader/utility\<close>. Class loaders and the objects they create are addressed by
  numbers. The operating system is a parameter: \<open>libs path\<close> are the registrations the static
  constructors of a shared library make when \<open>dlopen\<close> maps it (the type id of the base class, the names of
  the class and its base), or nothing when \<open>dlopen\<close> fails. A pointer to a destroyed loader or a null pointer
  that is followed is \<open>NullPointer\<close>.
\<close>

section \<open>State\<close>

type_synonym libraries = "string \<Rightarrow> (string \<times> string \<times> string) list option"

record class_factory =
  cf_loaders :: "nat option list"
  cf_library_path :: string
  cf_class_name :: string
  cf_base_class_name :: string

record class_loader =
  cl_library_path :: string
  cl_loadlib_ref_count :: int
  cl_classobj_ref_count :: int

record class_object =
  co_loader :: nat
  co_base :: string
  co_class :: string

type_synonym factory_map = "(string \<times> class_factory) list"

record loading =
  ld_open :: "string list"
  ld_factories :: "(string \<times> factory_map) list"
  ld_active :: "nat option"
  ld_loaders :: "nat \<Rightarrow> class_loader option"
  ld_objects :: "nat \<Rightarrow> class_object option"
  ld_next :: nat

definition loading_start :: loading where
  "loading_start = \<lparr>ld_open = [], ld_factories = [], ld_active = None, ld_loaders = (\<lambda>_. None), ld_objects = (\<lambda>_. None), ld_next = 0\<rparr>"

section \<open>Factories\<close>

definition class_factory_new :: "string \<Rightarrow> string \<Rightarrow> class_factory" where
  "class_factory_new class_name base_class_name = \<lparr>cf_loaders = [], cf_library_path = '''',
     cf_class_name = class_name, cf_base_class_name = base_class_name\<rparr>"

text \<open>A loader comes with its library path, which \<open>AddOwnedClassLoader\<close> asks it for.\<close>

definition add_owned_class_loader :: "(nat \<times> string) option \<Rightarrow> class_factory \<Rightarrow> class_factory" where
  "add_owned_class_loader loader f =
     (if map_option fst loader \<in> set (cf_loaders f) then f
      else let f1 = f\<lparr>cf_loaders := cf_loaders f @ [map_option fst loader]\<rparr>
        in case loader of None \<Rightarrow> f1 | Some (_, path) \<Rightarrow> f1\<lparr>cf_library_path := path\<rparr>)"

definition remove_owned_class_loader :: "nat option \<Rightarrow> class_factory \<Rightarrow> class_factory" where
  "remove_owned_class_loader loader f = f\<lparr>cf_loaders := remove1 loader (cf_loaders f)\<rparr>"

definition is_owned_by :: "nat option \<Rightarrow> class_factory \<Rightarrow> bool" where
  "is_owned_by loader f \<longleftrightarrow> loader \<in> set (cf_loaders f)"

definition is_owned_by_anybody :: "class_factory \<Rightarrow> bool" where
  "is_owned_by_anybody f \<longleftrightarrow> cf_loaders f \<noteq> []"

section \<open>Registries\<close>

definition factory_map_by_base_class :: "string \<Rightarrow> loading \<Rightarrow> factory_map \<times> loading" where
  "factory_map_by_base_class base s =
     (case map_of (ld_factories s) base of Some m \<Rightarrow> (m, s)
      | None \<Rightarrow> ([], s\<lparr>ld_factories := map_assign base [] (ld_factories s)\<rparr>))"

definition all_factories_of_library :: "string \<Rightarrow> loading \<Rightarrow> (string \<times> string) list" where
  "all_factories_of_library path s =
     concat (map (\<lambda>(b, m). map (\<lambda>(c, f). (b, c)) (filter (\<lambda>(c, f). cf_library_path f = path) m)) (ld_factories s))"

definition destroy_in_map :: "string \<Rightarrow> nat option \<Rightarrow> factory_map \<Rightarrow> factory_map" where
  "destroy_in_map path loader m = List.map_filter (\<lambda>(c, f).
     if cf_library_path f = path \<and> is_owned_by loader f
     then let f1 = remove_owned_class_loader loader f in if is_owned_by_anybody f1 then Some (c, f1) else None
     else Some (c, f)) m"

definition destroy_factories :: "string \<Rightarrow> nat option \<Rightarrow> loading \<Rightarrow> loading" where
  "destroy_factories path loader s =
     s\<lparr>ld_factories := map (\<lambda>(b, m). (b, destroy_in_map path loader m)) (ld_factories s)\<rparr>"

definition is_library_loaded :: "string \<Rightarrow> loading \<Rightarrow> bool" where
  "is_library_loaded path s \<longleftrightarrow> path \<in> set (ld_open s)"

definition path_of_loader :: "loading \<Rightarrow> nat \<Rightarrow> string" where
  "path_of_loader s l = (case ld_loaders s l of None \<Rightarrow> '''' | Some cl \<Rightarrow> cl_library_path cl)"

text \<open>\<open>RegisterClass<Derived, Base>\<close>, which the static constructors of a library call.\<close>

definition register_class :: "string \<times> string \<times> string \<Rightarrow> loading \<Rightarrow> loading" where
  "register_class = (\<lambda>(base, class_name, base_class_name) s.
     let f = add_owned_class_loader (map_option (\<lambda>l. (l, path_of_loader s l)) (ld_active s))
           (class_factory_new class_name base_class_name);
         (m, s1) = factory_map_by_base_class base s
     in s1\<lparr>ld_factories := map_assign base (map_assign class_name f m) (ld_factories s1)\<rparr>)"

definition attach_loader :: "string \<Rightarrow> nat \<Rightarrow> loading \<Rightarrow> loading" where
  "attach_loader path l s = s\<lparr>ld_factories := map (\<lambda>(b, m). (b, map (\<lambda>(c, f).
     (c, if cf_library_path f = path then add_owned_class_loader (Some (l, path_of_loader s l)) f else f)) m)) (ld_factories s)\<rparr>"

definition load_library :: "libraries \<Rightarrow> string \<Rightarrow> nat \<Rightarrow> loading \<Rightarrow> bool \<times> loading" where
  "load_library libs path l s =
     (if is_library_loaded path s then (True, attach_loader path l s)
      else case libs path of None \<Rightarrow> (False, s\<lparr>ld_active := None\<rparr>)
        | Some regs \<Rightarrow> let s1 = (fold register_class regs (s\<lparr>ld_active := Some l\<rparr>))\<lparr>ld_active := None\<rparr>
            in (True, s1\<lparr>ld_open := List.insert path (ld_open s1)\<rparr>))"

definition unload_library :: "string \<Rightarrow> nat \<Rightarrow> loading \<Rightarrow> loading" where
  "unload_library path l s =
     (if path \<notin> set (ld_open s) then s
      else let s1 = destroy_factories path (Some l) s
        in if all_factories_of_library path s1 = [] then s1\<lparr>ld_open := removeAll path (ld_open s1)\<rparr> else s1)"

definition create_class_obj :: "string \<Rightarrow> string \<Rightarrow> nat \<Rightarrow> loading \<Rightarrow> bool \<times> loading" where
  "create_class_obj base class_name l s =
     (let (m, s1) = factory_map_by_base_class base s
      in case map_of m class_name of None \<Rightarrow> (False, s1) | Some f \<Rightarrow> (is_owned_by (Some l) f, s1))"

definition valid_class_names :: "string \<Rightarrow> nat \<Rightarrow> loading \<Rightarrow> string list \<times> loading" where
  "valid_class_names base l s =
     (let (m, s1) = factory_map_by_base_class base s
      in (map fst (filter (\<lambda>(c, f). is_owned_by (Some l) f) m), s1))"

section \<open>ClassLoader\<close>

definition put_loader :: "nat \<Rightarrow> class_loader \<Rightarrow> loading \<Rightarrow> loading" where
  "put_loader l cl s = s\<lparr>ld_loaders := (ld_loaders s)(l \<mapsto> cl)\<rparr>"

definition loader_load :: "libraries \<Rightarrow> nat \<Rightarrow> loading \<Rightarrow> ub + bool \<times> loading" where
  "loader_load libs l s =
     (case ld_loaders s l of None \<Rightarrow> Inl NullPointer
      | Some cl \<Rightarrow> Inr (load_library libs (cl_library_path cl) l
          (put_loader l (cl\<lparr>cl_loadlib_ref_count := cl_loadlib_ref_count cl + 1\<rparr>) s)))"

definition loader_new :: "libraries \<Rightarrow> string \<Rightarrow> loading \<Rightarrow> ub + nat \<times> loading" where
  "loader_new libs path s =
     (let l = ld_next s
      in map_sum id (\<lambda>(_, s1). (l, s1)) (loader_load libs l (put_loader l
           \<lparr>cl_library_path = path, cl_loadlib_ref_count = 0, cl_classobj_ref_count = 0\<rparr> (s\<lparr>ld_next := l + 1\<rparr>))))"

definition loader_unload :: "nat \<Rightarrow> loading \<Rightarrow> ub + int \<times> loading" where
  "loader_unload l s =
     (case ld_loaders s l of None \<Rightarrow> Inl NullPointer
      | Some cl \<Rightarrow>
          if 0 < cl_classobj_ref_count cl then Inr (cl_loadlib_ref_count cl, s)
          else let n = cl_loadlib_ref_count cl - 1
            in if n = 0 then Inr (0, unload_library (cl_library_path cl) l (put_loader l (cl\<lparr>cl_loadlib_ref_count := n\<rparr>) s))
               else Inr (max n 0, put_loader l (cl\<lparr>cl_loadlib_ref_count := max n 0\<rparr>) s))"

definition loader_destroy :: "nat \<Rightarrow> loading \<Rightarrow> ub + loading" where
  "loader_destroy l s = map_sum id (\<lambda>(_, s1). s1\<lparr>ld_loaders := (ld_loaders s1)(l := None)\<rparr>) (loader_unload l s)"

definition loader_valid_class_names :: "string \<Rightarrow> nat \<Rightarrow> loading \<Rightarrow> ub + string list \<times> loading" where
  "loader_valid_class_names base l s =
     (if ld_loaders s l = None then Inl NullPointer else Inr (valid_class_names base l s))"

definition loader_is_class_valid :: "string \<Rightarrow> string \<Rightarrow> nat \<Rightarrow> loading \<Rightarrow> ub + bool \<times> loading" where
  "loader_is_class_valid base class_name l s =
     map_sum id (\<lambda>(names, s1). (class_name \<in> set names, s1)) (loader_valid_class_names base l s)"

text \<open>The answer is the address of the new object, or null.\<close>

definition loader_create :: "libraries \<Rightarrow> string \<Rightarrow> string \<Rightarrow> nat \<Rightarrow> loading \<Rightarrow> ub + nat option \<times> loading" where
  "loader_create libs base class_name l s =
     (case ld_loaders s l of None \<Rightarrow> Inl NullPointer
      | Some cl \<Rightarrow>
        sbind (if is_library_loaded (cl_library_path cl) s then Inr (True, s) else loader_load libs l s) (\<lambda>(_, s1).
          case create_class_obj base class_name l s1 of
            (False, s2) \<Rightarrow> Inr (None, s2)
          | (True, s2) \<Rightarrow> (case ld_loaders s2 l of None \<Rightarrow> Inl NullPointer
              | Some cl2 \<Rightarrow> let o1 = ld_next s2
                  in Inr (Some o1, (put_loader l (cl2\<lparr>cl_classobj_ref_count := cl_classobj_ref_count cl2 + 1\<rparr>) s2)
                       \<lparr>ld_next := o1 + 1, ld_objects := (ld_objects s2)(o1 \<mapsto> \<lparr>co_loader = l, co_base = base, co_class = class_name\<rparr>)\<rparr>))))"

text \<open>The last pointer to an object goes: \<open>OnClassObjDeleter\<close> is called on the loader that made it.\<close>

definition object_delete :: "nat \<Rightarrow> loading \<Rightarrow> ub + loading" where
  "object_delete o1 s =
     (case ld_objects s o1 of None \<Rightarrow> Inr s
      | Some obj \<Rightarrow> (case ld_loaders s (co_loader obj) of None \<Rightarrow> Inl NullPointer
          | Some cl \<Rightarrow> Inr ((put_loader (co_loader obj) (cl\<lparr>cl_classobj_ref_count := cl_classobj_ref_count cl - 1\<rparr>) s)
              \<lparr>ld_objects := (ld_objects s)(o1 := None)\<rparr>)))"

section \<open>ClassLoaderManager\<close>

text \<open>The manager is its map from library paths to loaders, which may be null.\<close>

type_synonym loader_manager = "(string \<times> nat option) list"

definition lm_loader_by_path :: "string \<Rightarrow> loader_manager \<Rightarrow> nat option \<times> loader_manager" where
  "lm_loader_by_path path lm = (case map_of lm path of Some l \<Rightarrow> (l, lm) | None \<Rightarrow> (None, map_assign path None lm))"

definition lm_all_loaders :: "loader_manager \<Rightarrow> nat option list" where
  "lm_all_loaders lm = map snd lm"

definition lm_all_lib_paths :: "loader_manager \<Rightarrow> string list" where
  "lm_all_lib_paths lm = map fst (filter (\<lambda>(_, l). l \<noteq> None) lm)"

definition lm_is_library_valid :: "string \<Rightarrow> loader_manager \<Rightarrow> bool" where
  "lm_is_library_valid path lm \<longleftrightarrow> path \<in> set (lm_all_lib_paths lm)"

definition lm_load :: "libraries \<Rightarrow> string \<Rightarrow> loader_manager \<times> loading \<Rightarrow> ub + bool \<times> loader_manager \<times> loading" where
  "lm_load libs path = (\<lambda>(lm, s).
     if lm_is_library_valid path lm then Inr (True, lm, s)
     else map_sum id (\<lambda>(l, s1). let lm1 = map_assign path (Some l) lm in (lm_is_library_valid path lm1, lm1, s1))
       (loader_new libs path s))"

definition lm_unload :: "string \<Rightarrow> loader_manager \<times> loading \<Rightarrow> ub + int \<times> loader_manager \<times> loading" where
  "lm_unload path = (\<lambda>(lm, s).
     if \<not> lm_is_library_valid path lm then Inr (0, lm, s)
     else case lm_loader_by_path path lm of
       (None, lm1) \<Rightarrow> Inl NullPointer
     | (Some l, lm1) \<Rightarrow> sbind (loader_unload l s) (\<lambda>(n, s1).
         if n = 0 then map_sum id (\<lambda>s2. (0, map_assign path None lm1, s2)) (loader_destroy l s1)
         else Inr (n, lm1, s1)))"

fun lm_unload_each :: "string list \<Rightarrow> loader_manager \<times> loading \<Rightarrow> ub + loader_manager \<times> loading" where
  "lm_unload_each [] ms = Inr ms"
| "lm_unload_each (p # ps) ms = sbind (lm_unload p ms) (\<lambda>(_, ms1). lm_unload_each ps ms1)"

definition lm_unload_all :: "loader_manager \<times> loading \<Rightarrow> ub + loader_manager \<times> loading" where
  "lm_unload_all ms = lm_unload_each (lm_all_lib_paths (fst ms)) ms"

fun lm_create_with :: "libraries \<Rightarrow> string \<Rightarrow> string \<Rightarrow> nat option list \<Rightarrow> loading \<Rightarrow> ub + nat option \<times> loading" where
  "lm_create_with libs base class_name [] s = Inr (None, s)"
| "lm_create_with libs base class_name (None # ls) s = Inl NullPointer"
| "lm_create_with libs base class_name (Some l # ls) s =
     sbind (loader_is_class_valid base class_name l s) (\<lambda>(valid, s1).
       if valid then loader_create libs base class_name l s1 else lm_create_with libs base class_name ls s1)"

definition lm_create :: "libraries \<Rightarrow> string \<Rightarrow> string \<Rightarrow> loader_manager \<times> loading \<Rightarrow> ub + nat option \<times> loading" where
  "lm_create libs base class_name = (\<lambda>(lm, s). lm_create_with libs base class_name (lm_all_loaders lm) s)"

definition lm_create_from :: "libraries \<Rightarrow> string \<Rightarrow> string \<Rightarrow> string \<Rightarrow> loader_manager \<times> loading \<Rightarrow>
    ub + nat option \<times> loader_manager \<times> loading" where
  "lm_create_from libs base class_name path = (\<lambda>(lm, s).
     case lm_loader_by_path path lm of
       (None, lm1) \<Rightarrow> Inr (None, lm1, s)
     | (Some l, lm1) \<Rightarrow> map_sum id (\<lambda>(r, s1). (r, lm1, s1)) (loader_create libs base class_name l s))"

fun lm_class_names_with :: "string \<Rightarrow> nat option list \<Rightarrow> loading \<Rightarrow> ub + string list \<times> loading" where
  "lm_class_names_with base [] s = Inr ([], s)"
| "lm_class_names_with base (None # ls) s = Inl NullPointer"
| "lm_class_names_with base (Some l # ls) s =
     sbind (loader_valid_class_names base l s) (\<lambda>(names, s1).
       map_sum id (\<lambda>(rest, s2). (names @ rest, s2)) (lm_class_names_with base ls s1))"

definition lm_valid_class_names :: "string \<Rightarrow> loader_manager \<times> loading \<Rightarrow> ub + string list \<times> loading" where
  "lm_valid_class_names base = (\<lambda>(lm, s). lm_class_names_with base (lm_all_loaders lm) s)"

definition lm_is_class_valid :: "string \<Rightarrow> string \<Rightarrow> loader_manager \<times> loading \<Rightarrow> ub + bool \<times> loading" where
  "lm_is_class_valid base class_name ms =
     map_sum id (\<lambda>(names, s1). (class_name \<in> set names, s1)) (lm_valid_class_names base ms)"


section \<open>The registry of factories\<close>

lemma map_of_map_assign [simp]: "map_of (map_assign k v m) = (map_of m)(k \<mapsto> v)"
  by (induction m rule: map_assign.induct) (auto simp: fun_eq_iff)

lemma keys_map_assign: "fst ` set (map_assign k v m) = insert k (fst ` set m)"
  by (induction m rule: map_assign.induct) auto

lemma sorted_map_assign: "sorted_wrt (<) (map fst m) \<Longrightarrow> sorted_wrt (<) (map fst (map_assign k v m))"
proof (induction m rule: map_assign.induct)
  case (2 k v k' v' m)
  then consider "k = k'" | "k < k'" | "k' < k" by fastforce
  then show ?case
  proof cases
    case 2
    with "2.prems" have "\<forall>x \<in> set (map fst m). k < x" by auto
    with 2 "2.prems" show ?thesis by simp
  next
    case 3
    with "2.IH" "2.prems" show ?thesis by (auto simp: keys_map_assign simp flip: ball_simps(9))
  qed (use 2 in simp)
qed simp

definition factory_of :: "loading \<Rightarrow> string \<Rightarrow> string \<Rightarrow> class_factory option" where
  "factory_of s b c = Option.bind (map_of (ld_factories s) b) (\<lambda>m. map_of m c)"

definition sorted_maps :: "loading \<Rightarrow> bool" where
  "sorted_maps s \<longleftrightarrow> sorted_wrt (<) (map fst (ld_factories s)) \<and> (\<forall>(b, m) \<in> set (ld_factories s). sorted_wrt (<) (map fst m))"

lemma sorted_keys_distinct: "sorted_wrt (<) (xs :: 'a::linorder list) \<Longrightarrow> distinct xs"
  by (induction xs) auto

lemma sorted_maps_distinct:
  assumes "sorted_maps s"
  shows "distinct (map fst (ld_factories s))" and "(b, m) \<in> set (ld_factories s) \<Longrightarrow> distinct (map fst m)"
  using assms sorted_keys_distinct by (auto simp: sorted_maps_def)

lemma factory_map_laws:
  assumes "sorted_maps s" and "factory_map_by_base_class b s = (m, s1)"
  shows "s1 = s\<lparr>ld_factories := ld_factories s1\<rparr>" and "factory_of s1 = factory_of s" and "sorted_maps s1"
    and "map_of m c = factory_of s b c" and "sorted_wrt (<) (map fst m)"
proof -
  show "s1 = s\<lparr>ld_factories := ld_factories s1\<rparr>" "factory_of s1 = factory_of s" "map_of m c = factory_of s b c"
    using assms(2) by (auto simp: factory_map_by_base_class_def factory_of_def fun_eq_iff split: option.splits)
  show "sorted_maps s1"
  proof (cases "map_of (ld_factories s) b")
    case None
    then have s1: "s1 = s\<lparr>ld_factories := map_assign b [] (ld_factories s)\<rparr>" using assms(2) by (simp add: factory_map_by_base_class_def)
    have "x \<in> set (map_assign b [] ms) \<Longrightarrow> x = (b, []) \<or> x \<in> set ms" for x :: "string \<times> factory_map" and ms
      by (induction ms rule: map_assign.induct) (auto split: if_splits)
    with assms(1) show ?thesis by (fastforce simp: s1 sorted_maps_def sorted_map_assign)
  qed (use assms in \<open>simp add: factory_map_by_base_class_def\<close>)
  show "sorted_wrt (<) (map fst m)"
    using assms by (auto simp: factory_map_by_base_class_def sorted_maps_def split: option.splits dest: map_of_SomeD)
qed

lemma factory_in: "sorted_maps s \<Longrightarrow> factory_of s b c = Some f \<longleftrightarrow> (\<exists>m. (b, m) \<in> set (ld_factories s) \<and> (c, f) \<in> set m)"
  using sorted_maps_distinct [of s]
  by (auto simp: factory_of_def bind_eq_Some_conv map_of_eq_Some_iff)

lemma all_factories_empty:
  assumes "sorted_maps s"
  shows "all_factories_of_library P s = [] \<longleftrightarrow> (\<forall>b c f. factory_of s b c = Some f \<longrightarrow> cf_library_path f \<noteq> P)"
  unfolding factory_in [OF assms] by (fastforce simp: all_factories_of_library_def filter_empty_conv)

text \<open>An operation that goes through all factories.\<close>

definition on_factories :: "(class_factory \<Rightarrow> class_factory option) \<Rightarrow> loading \<Rightarrow> loading" where
  "on_factories g s = s\<lparr>ld_factories := map (\<lambda>(b, m). (b, List.map_filter (\<lambda>(c, f). map_option (Pair c) (g f)) m)) (ld_factories s)\<rparr>"

lemma map_of_map_filter:
  "distinct (map fst m) \<Longrightarrow> map_of (List.map_filter (\<lambda>(c, f). map_option (Pair c) (g f)) m) c = Option.bind (map_of m c) g"
proof (induction m)
  case (Cons x m)
  obtain c' f where x: "x = (c', f)" by (cases x)
  with Cons have "c' \<notin> dom (map_of m)" by (simp add: dom_map_of_conv_image_fst)
  then have "map_of m c' = None" by auto
  with Cons x show ?case by (auto simp: List.map_filter_simps split: option.split)
qed (simp add: List.map_filter_simps)

lemma map_of_map_snd: "map_of (map (\<lambda>(b, m). (b, h m)) ms) b = map_option h (map_of ms b)"
  by (induction ms) auto

lemma keys_map_filter: "map fst (List.map_filter (\<lambda>(c, f). map_option (Pair c) (g f)) m) = map fst (filter (\<lambda>(c, f). g f \<noteq> None) m)"
  by (induction m) (auto simp: List.map_filter_simps split: option.split)

lemma on_factories_laws:
  assumes "sorted_maps s"
  shows "factory_of (on_factories g s) b c = Option.bind (factory_of s b c) g" and "sorted_maps (on_factories g s)"
proof -
  show "factory_of (on_factories g s) b c = Option.bind (factory_of s b c) g"
  proof (cases "map_of (ld_factories s) b")
    case (Some m)
    with assms sorted_maps_distinct(2) have "distinct (map fst m)" by (metis map_of_SomeD)
    with Some show ?thesis by (simp add: factory_of_def on_factories_def map_of_map_snd map_of_map_filter)
  qed (simp add: factory_of_def on_factories_def map_of_map_snd)
  have "map fst (ld_factories (on_factories g s)) = map fst (ld_factories s)" by (auto simp: on_factories_def)
  moreover have "sorted_wrt (<) (map fst (filter p m))" if "sorted_wrt (<) (map fst m)" for p and m :: factory_map
    using that by (simp add: sorted_wrt_map sorted_wrt_filter)
  then have "\<forall>(b, m) \<in> set (ld_factories (on_factories g s)). sorted_wrt (<) (map fst m)"
    using assms by (auto simp: sorted_maps_def on_factories_def keys_map_filter)
  ultimately show "sorted_maps (on_factories g s)" using assms by (simp only: sorted_maps_def)
qed

lemma attach_on_factories:
  "attach_loader P l s = on_factories (\<lambda>f. Some (if cf_library_path f = P then add_owned_class_loader (Some (l, path_of_loader s l)) f else f)) s"
proof -
  have "List.map_filter (\<lambda>(c, f). Some (c, h f)) m = map (\<lambda>(c, f). (c, h f)) m" for h :: "class_factory \<Rightarrow> class_factory" and m :: factory_map
    by (induction m) (auto simp: List.map_filter_simps)
  then show ?thesis by (simp add: attach_loader_def on_factories_def)
qed

lemma destroy_on_factories:
  "destroy_factories P x s = on_factories (\<lambda>f. if cf_library_path f = P \<and> is_owned_by x f
     then if is_owned_by_anybody (remove_owned_class_loader x f) then Some (remove_owned_class_loader x f) else None else Some f) s"
  unfolding destroy_factories_def on_factories_def destroy_in_map_def
  by (intro arg_cong [of _ _ "\<lambda>g. s\<lparr>ld_factories := map g (ld_factories s)\<rparr>"] ext) (auto simp: Let_def intro!: arg_cong2 [of _ _ _ _ List.map_filter])

section \<open>The invariant of loading\<close>

definition uses :: "loading \<Rightarrow> nat \<Rightarrow> string \<Rightarrow> bool" where
  "uses s l P \<longleftrightarrow> (case ld_loaders s l of None \<Rightarrow> False | Some cl \<Rightarrow> cl_library_path cl = P \<and> 0 < cl_loadlib_ref_count cl)"

definition registers :: "libraries \<Rightarrow> string \<Rightarrow> string \<Rightarrow> string \<Rightarrow> bool" where
  "registers libs P b c \<longleftrightarrow> (case libs P of None \<Rightarrow> False | Some regs \<Rightarrow> (b, c) \<in> set (map (\<lambda>(b, c, _). (b, c)) regs))"

text \<open>Every library registers something, and no two libraries register the same class for the same base.\<close>

definition proper_libraries :: "libraries \<Rightarrow> bool" where
  "proper_libraries libs \<longleftrightarrow> (\<forall>P. libs P \<noteq> Some []) \<and> (\<forall>P Q b c. registers libs P b c \<longrightarrow> registers libs Q b c \<longrightarrow> P = Q)"

definition owned_right :: "libraries \<Rightarrow> loading \<Rightarrow> string \<Rightarrow> string \<Rightarrow> class_factory \<Rightarrow> bool" where
  "owned_right libs s b c f \<longleftrightarrow> registers libs (cf_library_path f) b c \<and> cf_loaders f \<noteq> [] \<and> distinct (cf_loaders f) \<and>
     set (cf_loaders f) = Some ` {l. uses s l (cf_library_path f)}"

definition registry_ok :: "libraries \<Rightarrow> loading \<Rightarrow> bool" where
  "registry_ok libs s \<longleftrightarrow> sorted_maps s \<and> ld_active s = None \<and>
     (\<forall>b c f. factory_of s b c = Some f \<longrightarrow> owned_right libs s b c f) \<and>
     (\<forall>P. P \<in> set (ld_open s) \<longleftrightarrow> libs P \<noteq> None \<and> (\<exists>l. uses s l P)) \<and>
     (\<forall>P b c. P \<in> set (ld_open s) \<longrightarrow> registers libs P b c \<longrightarrow> (\<exists>f. factory_of s b c = Some f \<and> cf_library_path f = P))"

lemma uses_put:
  "uses (put_loader l cl s) l' P \<longleftrightarrow> (if l' = l then cl_library_path cl = P \<and> 0 < cl_loadlib_ref_count cl else uses s l' P)"
  by (simp add: uses_def put_loader_def)

lemma factory_of_put [simp]: "factory_of (put_loader l cl s) = factory_of s"
  by (simp add: factory_of_def put_loader_def fun_eq_iff)

lemma factory_of_cong: "ld_factories s = ld_factories t \<Longrightarrow> factory_of s = factory_of t"
  by (simp add: factory_of_def fun_eq_iff)

lemma sorted_maps_cong: "ld_factories s = ld_factories t \<Longrightarrow> sorted_maps s = sorted_maps t"
  by (simp add: sorted_maps_def)

lemma uses_cong: "ld_loaders s = ld_loaders t \<Longrightarrow> uses s = uses t"
  by (simp add: uses_def fun_eq_iff)

text \<open>A change of the loaders that keeps who uses what, and new empty maps, keep the invariant.\<close>

lemma registry_ok_cong:
  assumes "registry_ok libs s" and "sorted_maps t" and "factory_of t = factory_of s" and "uses t = uses s"
    and "set (ld_open t) = set (ld_open s)" and "ld_active t = None"
  shows "registry_ok libs t"
  using assms by (simp add: registry_ok_def owned_right_def)

lemma registry_okD:
  assumes "registry_ok libs s"
  shows "sorted_maps s" and "ld_active s = None" and "factory_of s b c = Some f \<Longrightarrow> owned_right libs s b c f"
    and "P \<in> set (ld_open s) \<longleftrightarrow> libs P \<noteq> None \<and> (\<exists>l. uses s l P)"
    and "P \<in> set (ld_open s) \<Longrightarrow> registers libs P b c \<Longrightarrow> \<exists>f. factory_of s b c = Some f \<and> cf_library_path f = P"
  using assms unfolding registry_ok_def by blast+

lemma registry_okI:
  assumes "sorted_maps s" and "ld_active s = None" and "\<And>b c f. factory_of s b c = Some f \<Longrightarrow> owned_right libs s b c f"
    and "\<And>P. P \<in> set (ld_open s) \<longleftrightarrow> libs P \<noteq> None \<and> (\<exists>l. uses s l P)"
    and "\<And>P b c. P \<in> set (ld_open s) \<Longrightarrow> registers libs P b c \<Longrightarrow> \<exists>f. factory_of s b c = Some f \<and> cf_library_path f = P"
  shows "registry_ok libs s"
  using assms unfolding registry_ok_def by blast

lemma attach_ok:
  assumes ok: "registry_ok libs s" and l: "uses t l P" and P: "P \<in> set (ld_open s)"
    and u: "\<And>l' Q. uses t l' Q \<longleftrightarrow> uses s l' Q \<or> l' = l \<and> Q = P"
    and t: "ld_factories t = ld_factories s" "ld_open t = ld_open s" "ld_active t = ld_active s"
  shows "registry_ok libs (attach_loader P l t)"
proof -
  have path: "path_of_loader t l = P" using l by (auto simp: uses_def path_of_loader_def split: option.splits)
  define h where "h f = (if cf_library_path f = P then add_owned_class_loader (Some (l, P)) f else f)" for f
  have st: "sorted_maps t" and fo: "factory_of t = factory_of s"
    using ok t sorted_maps_cong [OF t(1)] factory_of_cong [OF t(1)] by (auto simp: registry_ok_def)
  note laws = on_factories_laws [OF st, of "\<lambda>f. Some (h f)"]
  have at: "attach_loader P l t = on_factories (\<lambda>f. Some (h f)) t" by (simp add: attach_on_factories path h_def cong: if_cong)
  have fac: "factory_of (attach_loader P l t) b c = map_option h (factory_of s b c)" for b c
    using laws(1) [of b c] by (cases "factory_of s b c") (simp_all add: at fo)
  have hp: "cf_library_path (h f) = cf_library_path f" for f by (auto simp: h_def add_owned_class_loader_def Let_def)
  have us: "uses (attach_loader P l t) = uses t" by (rule uses_cong) (simp add: attach_loader_def)
  have op: "ld_open (attach_loader P l t) = ld_open s" using t by (simp add: attach_loader_def)
  show ?thesis
  proof (rule registry_okI)
    show "sorted_maps (attach_loader P l t)" using laws(2) by (simp add: at)
    show "ld_active (attach_loader P l t) = None" using registry_okD(2) [OF ok] t by (simp add: attach_loader_def)
    show "owned_right libs (attach_loader P l t) b c f" if "factory_of (attach_loader P l t) b c = Some f" for b c f
    proof -
      from that obtain f0 where f0: "factory_of s b c = Some f0" "f = h f0" by (auto simp: fac)
      with registry_okD(3) [OF ok f0(1)] u show ?thesis
        unfolding owned_right_def us f0(2) hp by (auto simp: h_def add_owned_class_loader_def Let_def)
    qed
    show "Q \<in> set (ld_open (attach_loader P l t)) \<longleftrightarrow> libs Q \<noteq> None \<and> (\<exists>l'. uses (attach_loader P l t) l' Q)" for Q
      using registry_okD(4) [OF ok] P u by (auto simp: op us)
    show "\<exists>f. factory_of (attach_loader P l t) b c = Some f \<and> cf_library_path f = Q"
      if "Q \<in> set (ld_open (attach_loader P l t))" "registers libs Q b c" for Q b c
      using registry_okD(5) [OF ok] that by (fastforce simp: op fac hp)
  qed
qed

lemma assign_in: "x \<in> set (map_assign k v m) \<Longrightarrow> x = (k, v) \<or> x \<in> set m"
  by (induction m rule: map_assign.induct) (auto split: if_splits)

lemma register_class_step:
  assumes "sorted_maps s" and "ld_active s = Some l"
  shows "factory_of (register_class (b, c, bn) s) b' c' = (if b' = b \<and> c' = c
      then Some \<lparr>cf_loaders = [Some l], cf_library_path = path_of_loader s l, cf_class_name = c, cf_base_class_name = bn\<rparr>
      else factory_of s b' c')"
    and "sorted_maps (register_class (b, c, bn) s)"
    and "register_class (b, c, bn) s = s\<lparr>ld_factories := ld_factories (register_class (b, c, bn) s)\<rparr>"
proof -
  obtain m s1 where m: "factory_map_by_base_class b s = (m, s1)" by fastforce
  note laws = factory_map_laws [OF assms(1) m]
  let ?f = "\<lparr>cf_loaders = [Some l], cf_library_path = path_of_loader s l, cf_class_name = c, cf_base_class_name = bn\<rparr>"
  have new: "register_class (b, c, bn) s = s1\<lparr>ld_factories := map_assign b (map_assign c ?f m) (ld_factories s1)\<rparr>"
    using assms(2) by (simp add: register_class_def m Let_def class_factory_new_def add_owned_class_loader_def)
  show "factory_of (register_class (b, c, bn) s) b' c' = (if b' = b \<and> c' = c then Some ?f else factory_of s b' c')"
    using laws(2) laws(4) by (auto simp: new factory_of_def fun_eq_iff)
  show "sorted_maps (register_class (b, c, bn) s)"
    using laws(3,5) by (auto simp: new sorted_maps_def sorted_map_assign dest!: assign_in)
  show "register_class (b, c, bn) s = s\<lparr>ld_factories := ld_factories (register_class (b, c, bn) s)\<rparr>"
    by (subst (2) new, subst laws(1), simp add: new, subst laws(1), simp)
qed

lemma register_classes:
  assumes "sorted_maps s" and "ld_active s = Some l"
  shows "sorted_maps (fold register_class regs s) \<and>
    fold register_class regs s = s\<lparr>ld_factories := ld_factories (fold register_class regs s)\<rparr> \<and>
    (\<forall>b c. if (b, c) \<in> set (map (\<lambda>(b, c, _). (b, c)) regs)
       then \<exists>bn. factory_of (fold register_class regs s) b c =
         Some \<lparr>cf_loaders = [Some l], cf_library_path = path_of_loader s l, cf_class_name = c, cf_base_class_name = bn\<rparr>
       else factory_of (fold register_class regs s) b c = factory_of s b c)"
  using assms
proof (induction regs arbitrary: s)
  case (Cons x regs)
  obtain xb xc xn where x: "x = (xb, xc, xn)" by (cases x)
  note step = register_class_step [OF Cons.prems, of xb xc xn]
  let ?t = "register_class (xb, xc, xn) s"
  have act: "ld_active ?t = Some l" and path: "path_of_loader ?t l = path_of_loader s l"
    by (subst step(3), use Cons.prems(2) in \<open>simp add: path_of_loader_def\<close>)+
  note IH = Cons.IH [OF step(2) act]
  have "fold register_class regs ?t = s\<lparr>ld_factories := ld_factories (fold register_class regs ?t)\<rparr>"
    using IH step(3) by (metis (no_types, lifting) loading.update_convs(2) loading.surjective loading.fold_congs(2))
  moreover have "if (b, c) \<in> set (map (\<lambda>(b, c, _). (b, c)) ((xb, xc, xn) # regs))
       then \<exists>bn. factory_of (fold register_class regs ?t) b c =
         Some \<lparr>cf_loaders = [Some l], cf_library_path = path_of_loader s l, cf_class_name = c, cf_base_class_name = bn\<rparr>
       else factory_of (fold register_class regs ?t) b c = factory_of s b c" for b c
  proof -
    from IH have "if (b, c) \<in> set (map (\<lambda>(b, c, _). (b, c)) regs)
       then \<exists>bn. factory_of (fold register_class regs ?t) b c =
         Some \<lparr>cf_loaders = [Some l], cf_library_path = path_of_loader s l, cf_class_name = c, cf_base_class_name = bn\<rparr>
       else factory_of (fold register_class regs ?t) b c = factory_of ?t b c" unfolding path by blast
    then show ?thesis by (cases "(b, c) \<in> set (map (\<lambda>(b, c, _). (b, c)) regs)") (auto simp: step(1))
  qed
  ultimately show ?case using IH unfolding x fold_simps comp_apply by blast
qed auto

lemma fresh_load_ok:
  assumes proper: "proper_libraries libs" and ok: "registry_ok libs s" and P: "P \<notin> set (ld_open s)" and regs: "libs P = Some regs"
    and l: "uses t l P" and u: "\<And>l' Q. uses t l' Q \<longleftrightarrow> uses s l' Q \<or> l' = l \<and> Q = P"
    and t: "ld_factories t = ld_factories s" "ld_open t = ld_open s"
  defines "v \<equiv> (fold register_class regs (t\<lparr>ld_active := Some l\<rparr>))\<lparr>ld_active := None\<rparr>"
  shows "registry_ok libs (v\<lparr>ld_open := List.insert P (ld_open v)\<rparr>)"
proof -
  let ?t = "t\<lparr>ld_active := Some l\<rparr>" and ?v = "v\<lparr>ld_open := List.insert P (ld_open v)\<rparr>"
  have st: "sorted_maps ?t" using registry_okD(1) [OF ok] sorted_maps_cong [of ?t s] t by simp
  have fo: "factory_of ?t = factory_of s" using t by (simp add: factory_of_def fun_eq_iff)
  have path: "path_of_loader ?t l = P" using l by (auto simp: uses_def path_of_loader_def split: option.splits)
  note cl = register_classes [OF st, of l regs, simplified path fo, simplified]
  have fac: "factory_of ?v b c = factory_of (fold register_class regs ?t) b c" for b c by (simp add: v_def factory_of_def)
  have cl': "if registers libs P b c
       then \<exists>bn. factory_of ?v b c = Some \<lparr>cf_loaders = [Some l], cf_library_path = P, cf_class_name = c, cf_base_class_name = bn\<rparr>
       else factory_of ?v b c = factory_of s b c" for b c
    using cl unfolding registers_def regs fac by simp
  have none: "\<not> uses s l' P" for l' using registry_okD(4) [OF ok, of P] P regs by auto
  obtain fs where "fold register_class regs ?t = ?t\<lparr>ld_factories := fs\<rparr>" using cl by blast
  then have ld: "ld_loaders ?v = ld_loaders t" and op: "set (ld_open ?v) = insert P (set (ld_open s))" using t by (simp_all add: v_def)
  have us: "uses ?v = uses t" by (rule uses_cong [OF ld])
  show ?thesis
  proof (rule registry_okI)
    show "sorted_maps ?v" using cl by (simp add: v_def sorted_maps_def)
    show "owned_right libs ?v b c f" if "factory_of ?v b c = Some f" for b c f
    proof (cases "registers libs P b c")
      case True
      with cl' [of b c] that show ?thesis by (auto simp: owned_right_def us u none)
    next
      case False
      with cl' [of b c] that have "owned_right libs s b c f" using registry_okD(3) [OF ok] by simp
      moreover from this False have "cf_library_path f \<noteq> P" by (auto simp: owned_right_def)
      ultimately show ?thesis by (simp add: owned_right_def us u)
    qed
    show "Q \<in> set (ld_open ?v) \<longleftrightarrow> libs Q \<noteq> None \<and> (\<exists>l'. uses ?v l' Q)" for Q
      using registry_okD(4) [OF ok, of Q] regs u unfolding op us by auto
    show "\<exists>f. factory_of ?v b c = Some f \<and> cf_library_path f = Q"
      if Q: "Q \<in> set (ld_open ?v)" "registers libs Q b c" for Q b c
    proof (cases "Q = P")
      case True
      with cl' [of b c] Q(2) show ?thesis by auto
    next
      case False
      with Q(2) proper have "\<not> registers libs P b c" by (auto simp: proper_libraries_def)
      with cl' [of b c] registry_okD(5) [OF ok _ Q(2)] Q(1) False op show ?thesis by auto
    qed
  qed (simp add: v_def)
qed

text \<open>The registry once loader \<open>l\<close>, which used library \<open>P\<close>, is off the factories of \<open>P\<close>.\<close>

lemma destroy_ok:
  assumes ok: "registry_ok libs s" and l: "uses s l P"
    and u: "\<And>l' Q. uses t l' Q \<longleftrightarrow> uses s l' Q \<and> \<not> (l' = l \<and> Q = P)" and t: "ld_factories t = ld_factories s"
  shows "factory_of (destroy_factories P (Some l) t) b c = Some f \<Longrightarrow> owned_right libs t b c f"
    and "P' \<in> set (ld_open s) \<Longrightarrow> registers libs P' b c \<Longrightarrow> \<exists>l'. uses t l' P' \<Longrightarrow>
      \<exists>f. factory_of (destroy_factories P (Some l) t) b c = Some f \<and> cf_library_path f = P'"
proof -
  have st: "sorted_maps t" and fo: "factory_of t = factory_of s"
    using registry_okD(1) [OF ok] sorted_maps_cong [OF t] factory_of_cong [OF t] by auto
  define h where "h = remove_owned_class_loader (Some l)"
  define g where "g f = (if cf_library_path f = P then if cf_loaders (h f) \<noteq> [] then Some (h f) else None else Some f)" for f
  have hp: "cf_library_path (h f) = cf_library_path f" for f by (simp add: h_def remove_owned_class_loader_def)
  have ow: "is_owned_by (Some l) f" if "factory_of s b c = Some f" "cf_library_path f = P" for b c f
    using registry_okD(3) [OF ok that(1)] that(2) l by (auto simp: owned_right_def is_owned_by_def)
  have fac: "factory_of (destroy_factories P (Some l) t) b c = Option.bind (factory_of s b c) g" for b c
    using ow [of b c] unfolding destroy_on_factories
    by (subst on_factories_laws(1) [OF st], cases "factory_of s b c") (simp_all add: fo g_def is_owned_by_anybody_def flip: h_def)
  have hset: "set (cf_loaders (h f)) = Some ` {l'. uses t l' P} \<and> distinct (cf_loaders (h f))"
    if "factory_of s b c = Some f" "cf_library_path f = P" for b c f
    using registry_okD(3) [OF ok that(1)] that(2) by (auto simp: owned_right_def h_def remove_owned_class_loader_def u)
  show "owned_right libs t b c f" if "factory_of (destroy_factories P (Some l) t) b c = Some f"
  proof -
    from that obtain f0 where f0: "factory_of s b c = Some f0" "g f0 = Some f" by (auto simp: fac bind_eq_Some_conv)
    note r = registry_okD(3) [OF ok f0(1)]
    show ?thesis
    proof (cases "cf_library_path f0 = P")
      case True
      with f0(2) have "f = h f0" "cf_loaders f \<noteq> []" by (auto simp: g_def split: if_splits)
      with r hset [OF f0(1) True] True show ?thesis by (simp add: owned_right_def hp)
    next
      case False
      with f0(2) r show ?thesis by (simp add: g_def owned_right_def u)
    qed
  qed
  show "\<exists>f. factory_of (destroy_factories P (Some l) t) b c = Some f \<and> cf_library_path f = P'"
    if Q: "P' \<in> set (ld_open s)" "registers libs P' b c" "\<exists>l'. uses t l' P'"
  proof -
    from registry_okD(5) [OF ok Q(1,2)] obtain f where f: "factory_of s b c = Some f" "cf_library_path f = P'" by blast
    moreover have "cf_loaders (h f) \<noteq> []" if "P' = P" using hset [OF f(1)] f(2) Q(3) that by force
    ultimately show ?thesis by (cases "P' = P") (auto simp: fac g_def hp)
  qed
qed

lemma unload_ok:
  assumes proper: "proper_libraries libs" and ok: "registry_ok libs s" and l: "uses s l P"
    and u: "\<And>l' Q. uses t l' Q \<longleftrightarrow> uses s l' Q \<and> \<not> (l' = l \<and> Q = P)"
    and t: "ld_factories t = ld_factories s" "ld_open t = ld_open s" "ld_active t = ld_active s"
  shows "registry_ok libs (unload_library P l t)"
proof (cases "P \<in> set (ld_open s)")
  case False
  then have no: "\<not> registers libs P b c" and nl: "libs P = None" for b c using registry_okD(4) [OF ok, of P] l by (auto simp: registers_def)
  have "owned_right libs t b c f" if f: "factory_of s b c = Some f" for b c f
  proof -
    from registry_okD(3) [OF ok f] no have "owned_right libs s b c f" "cf_library_path f \<noteq> P" by (auto simp: owned_right_def)
    then show ?thesis by (simp add: owned_right_def u)
  qed
  then have "registry_ok libs t"
    using registry_okD [OF ok] u nl sorted_maps_cong [OF t(1)] factory_of_cong [OF t(1)] t
    by (intro registry_okI) auto
  then show ?thesis using False by (simp add: unload_library_def t(2))
next
  case P: True
  let ?s1 = "destroy_factories P (Some l) t"
  note right = destroy_ok(1) [OF ok l u t(1)] and stay = destroy_ok(2) [OF ok l u t(1)]
  have s1: "sorted_maps ?s1" "ld_active ?s1 = None" "ld_open ?s1 = ld_open s" "uses ?s1 = uses t"
    using on_factories_laws(2) [of t] registry_okD(1,2) [OF ok] t sorted_maps_cong [OF t(1)] uses_cong [of ?s1 t]
    unfolding destroy_on_factories by (simp_all add: on_factories_def)
  have empty: "all_factories_of_library P ?s1 = [] \<longleftrightarrow> (\<forall>l'. \<not> uses t l' P)"
  proof
    assume none: "\<forall>l'. \<not> uses t l' P"
    have "cf_library_path f \<noteq> P" if "factory_of ?s1 b c = Some f" for b c f
      using right [OF that] none by (auto simp: owned_right_def)
    then show "all_factories_of_library P ?s1 = []" using all_factories_empty [OF s1(1)] by blast
  next
    assume "all_factories_of_library P ?s1 = []"
    then have none: "factory_of ?s1 b c = Some f \<Longrightarrow> cf_library_path f \<noteq> P" for b c f using all_factories_empty [OF s1(1)] by blast
    from P registry_okD(4) [OF ok, of P] obtain regs where regs: "libs P = Some regs" by auto
    with proper obtain b c bn where "(b, c, bn) \<in> set regs" unfolding proper_libraries_def by (metis list.set_intros(1) neq_Nil_conv prod.exhaust)
    with regs have "registers libs P b c" by (force simp: registers_def)
    with stay [OF P] none show "\<forall>l'. \<not> uses t l' P" by blast
  qed
  show ?thesis
  proof (cases "\<forall>l'. \<not> uses t l' P")
    case True
    let ?s2 = "?s1\<lparr>ld_open := removeAll P (ld_open ?s1)\<rparr>"
    have un: "unload_library P l t = ?s2" using P True empty by (simp add: unload_library_def t(2) Let_def)
    have "factory_of ?s2 = factory_of ?s1" "uses ?s2 = uses ?s1" "sorted_maps ?s2 = sorted_maps ?s1"
      by (rule factory_of_cong uses_cong sorted_maps_cong, simp)+
    then show ?thesis unfolding un
      using right True stay registry_okD(4) [OF ok] s1 u by (intro registry_okI) (auto simp: owned_right_def)
  next
    case False
    with empty have "all_factories_of_library P ?s1 \<noteq> []" by blast
    then have un: "unload_library P l t = ?s1" using P by (simp add: unload_library_def t(2) Let_def)
    have "\<exists>l'. uses t l' Q" if "Q \<in> set (ld_open s)" for Q
      using that False registry_okD(4) [OF ok, of Q] u by blast
    with stay have stay': "\<exists>f. factory_of ?s1 b c = Some f \<and> cf_library_path f = Q" if "Q \<in> set (ld_open s)" "registers libs Q b c" for Q b c
      using that by blast
    have "owned_right libs ?s1 b c f" if "factory_of ?s1 b c = Some f" for b c f using right [OF that] by (simp add: owned_right_def s1(4))
    moreover have "Q \<in> set (ld_open s) \<longleftrightarrow> libs Q \<noteq> None \<and> (\<exists>l'. uses t l' Q)" for Q
      using False registry_okD(4) [OF ok] u by blast
    ultimately show ?thesis unfolding un using stay' by (intro registry_okI) (simp_all add: s1)
  qed
qed

section \<open>Loaders and objects\<close>

definition made_by :: "loading \<Rightarrow> nat \<Rightarrow> nat set" where
  "made_by s l = {x. \<exists>obj. ld_objects s x = Some obj \<and> co_loader obj = l}"

definition counts_ok :: "libraries \<Rightarrow> loading \<Rightarrow> bool" where
  "counts_ok libs s \<longleftrightarrow>
     (\<forall>l cl. ld_loaders s l = Some cl \<longrightarrow> l < ld_next s \<and> 0 \<le> cl_loadlib_ref_count cl \<and>
        cl_classobj_ref_count cl = int (card (made_by s l)) \<and> (0 < cl_classobj_ref_count cl \<longrightarrow> 0 < cl_loadlib_ref_count cl)) \<and>
     (\<forall>x obj. ld_objects s x = Some obj \<longrightarrow> x < ld_next s \<and>
        (\<exists>cl. ld_loaders s (co_loader obj) = Some cl \<and> registers libs (cl_library_path cl) (co_base obj) (co_class obj)))"

lemma counts_okD:
  assumes "counts_ok libs s"
  shows "ld_loaders s l = Some cl \<Longrightarrow> l < ld_next s \<and> 0 \<le> cl_loadlib_ref_count cl"
    and "ld_loaders s l = Some cl \<Longrightarrow> cl_classobj_ref_count cl = int (card (made_by s l))"
    and "ld_loaders s l = Some cl \<Longrightarrow> 0 < cl_classobj_ref_count cl \<Longrightarrow> 0 < cl_loadlib_ref_count cl"
    and "ld_objects s x = Some obj \<Longrightarrow> x < ld_next s"
    and "ld_objects s x = Some obj \<Longrightarrow> \<exists>cl. ld_loaders s (co_loader obj) = Some cl \<and> registers libs (cl_library_path cl) (co_base obj) (co_class obj)"
  using assms unfolding counts_ok_def by blast+

lemma finite_made_by: "counts_ok libs s \<Longrightarrow> finite (made_by s l)"
  by (rule finite_subset [of _ "{..<ld_next s}"]) (auto simp: made_by_def dest: counts_okD)

lemma counts_ok_cong:
  "ld_loaders s = ld_loaders t \<Longrightarrow> ld_objects s = ld_objects t \<Longrightarrow> ld_next s = ld_next t \<Longrightarrow> counts_ok libs s = counts_ok libs t"
  by (simp add: counts_ok_def made_by_def)

lemma made_by_cong: "ld_objects s = ld_objects t \<Longrightarrow> made_by s = made_by t"
  by (simp add: made_by_def fun_eq_iff)

definition loading_ok :: "libraries \<Rightarrow> loading \<Rightarrow> bool" where
  "loading_ok libs s \<longleftrightarrow> registry_ok libs s \<and> counts_ok libs s"

text \<open>A loader whose load count changes, while the path and the object count stay.\<close>

lemma counts_ok_put:
  assumes "counts_ok libs s" and "ld_loaders s l = Some cl" and "0 \<le> n" and "0 < cl_classobj_ref_count cl \<Longrightarrow> 0 < n"
  shows "counts_ok libs (put_loader l (cl\<lparr>cl_loadlib_ref_count := n\<rparr>) s)"
proof -
  let ?t = "put_loader l (cl\<lparr>cl_loadlib_ref_count := n\<rparr>) s"
  have m: "made_by ?t = made_by s" by (rule made_by_cong) (simp add: put_loader_def)
  show ?thesis
    using assms counts_okD [OF assms(1)] unfolding counts_ok_def m
    by (auto simp: put_loader_def) (metis option.inject)+
qed

lemma load_library_frame:
  assumes "sorted_maps s"
  shows "ld_loaders (snd (load_library libs P l s)) = ld_loaders s" and "ld_objects (snd (load_library libs P l s)) = ld_objects s"
    and "ld_next (snd (load_library libs P l s)) = ld_next s"
proof -
  have "sorted_maps (s\<lparr>ld_active := Some l\<rparr>)" using assms by (simp add: sorted_maps_def)
  with register_classes [of "s\<lparr>ld_active := Some l\<rparr>" l]
  have "\<exists>fs. fold register_class regs (s\<lparr>ld_active := Some l\<rparr>) = s\<lparr>ld_active := Some l, ld_factories := fs\<rparr>" for regs by auto
  then obtain fs where "fold register_class regs (s\<lparr>ld_active := Some l\<rparr>) = s\<lparr>ld_active := Some l, ld_factories := fs regs\<rparr>" for regs by metis
  then show "ld_loaders (snd (load_library libs P l s)) = ld_loaders s" "ld_objects (snd (load_library libs P l s)) = ld_objects s"
    "ld_next (snd (load_library libs P l s)) = ld_next s"
    by (simp_all add: load_library_def attach_loader_def Let_def split: option.split)
qed

lemma load_ok:
  assumes proper: "proper_libraries libs" and ok: "loading_ok libs s" and cl: "ld_loaders s l = Some cl"
  obtains r s1 where "loader_load libs l s = Inr (r, s1)" and "loading_ok libs s1" and "ld_objects s1 = ld_objects s"
    and "ld_next s1 = ld_next s" and "ld_loaders s1 = (ld_loaders s)(l \<mapsto> cl\<lparr>cl_loadlib_ref_count := cl_loadlib_ref_count cl + 1\<rparr>)"
proof -
  let ?P = "cl_library_path cl" and ?cl = "cl\<lparr>cl_loadlib_ref_count := cl_loadlib_ref_count cl + 1\<rparr>"
  let ?t = "put_loader l ?cl s"
  from ok have reg: "registry_ok libs s" and cnt: "counts_ok libs s" by (auto simp: loading_ok_def)
  note n = counts_okD(1) [OF cnt cl]
  have st: "sorted_maps ?t" using registry_okD(1) [OF reg] by (simp add: sorted_maps_def put_loader_def)
  have use: "uses ?t l ?P" using n by (simp add: uses_put)
  have u: "uses ?t l' Q \<longleftrightarrow> uses s l' Q \<or> l' = l \<and> Q = ?P" for l' Q
    unfolding uses_put using n cl by (auto simp: uses_def)
  have t: "ld_factories ?t = ld_factories s" "ld_open ?t = ld_open s" "ld_active ?t = ld_active s" by (simp_all add: put_loader_def)
  obtain r s1 where s1: "load_library libs ?P l ?t = (r, s1)" by fastforce
  have "registry_ok libs s1"
  proof (cases "?P \<in> set (ld_open s)")
    case True
    then have "s1 = attach_loader ?P l ?t" using s1 t by (simp add: load_library_def is_library_loaded_def)
    with attach_ok [OF reg use True u t] show ?thesis by simp
  next
    case False
    show ?thesis
    proof (cases "libs ?P")
      case None
      have f: "owned_right libs ?t b c f" if "factory_of s b c = Some f" for b c f
      proof -
        from registry_okD(3) [OF reg that] have "owned_right libs s b c f" .
        moreover from this None have "cf_library_path f \<noteq> ?P" by (auto simp: owned_right_def registers_def)
        ultimately show ?thesis by (simp add: owned_right_def u)
      qed
      have "registry_ok libs ?t"
        using f registry_okD [OF reg] u None st t by (intro registry_okI) auto
      moreover have "?t\<lparr>ld_active := None\<rparr> = ?t" using registry_okD(2) [OF reg] t(3) by (intro loading.equality) simp_all
      then have "s1 = ?t" using s1 False None t by (simp add: load_library_def is_library_loaded_def)
      ultimately show ?thesis by simp
    next
      case (Some regs)
      with s1 False t have "s1 = (let v = (fold register_class regs (?t\<lparr>ld_active := Some l\<rparr>))\<lparr>ld_active := None\<rparr> in v\<lparr>ld_open := List.insert ?P (ld_open v)\<rparr>)"
        by (simp add: load_library_def is_library_loaded_def Let_def)
      with fresh_load_ok [OF proper reg False Some use u t(1,2)] show ?thesis by (simp add: Let_def)
    qed
  qed
  moreover have fr: "ld_loaders s1 = ld_loaders ?t" "ld_objects s1 = ld_objects ?t" "ld_next s1 = ld_next ?t"
    using load_library_frame [OF st, of libs ?P l] s1 by simp_all
  moreover have "counts_ok libs s1"
    using counts_ok_put [OF cnt cl, of "cl_loadlib_ref_count cl + 1"] n counts_ok_cong [OF fr] by simp
  ultimately show thesis
    using cl s1 by (intro that [of r s1]) (simp_all add: loader_load_def loading_ok_def put_loader_def)
qed

lemma unload_library_frame:
  "ld_loaders (unload_library P l s) = ld_loaders s" "ld_objects (unload_library P l s) = ld_objects s" "ld_next (unload_library P l s) = ld_next s"
  by (simp_all add: unload_library_def destroy_factories_def Let_def)

lemma unload_step_ok:
  assumes proper: "proper_libraries libs" and ok: "loading_ok libs s" and cl: "ld_loaders s l = Some cl"
  obtains r s1 cl1 where "loader_unload l s = Inr (r, s1)" and "loading_ok libs s1" and "ld_objects s1 = ld_objects s"
    and "ld_next s1 = ld_next s" and "ld_loaders s1 = (ld_loaders s)(l \<mapsto> cl1)" and "cl_library_path cl1 = cl_library_path cl"
    and "cl_classobj_ref_count cl1 = cl_classobj_ref_count cl"
    and "cl_loadlib_ref_count cl1 = (if 0 < cl_classobj_ref_count cl then cl_loadlib_ref_count cl else max (cl_loadlib_ref_count cl - 1) 0)"
proof -
  from ok have reg: "registry_ok libs s" and cnt: "counts_ok libs s" by (auto simp: loading_ok_def)
  note n = counts_okD(1) [OF cnt cl]
  define cl1 where "cl1 = cl\<lparr>cl_loadlib_ref_count := max (cl_loadlib_ref_count cl - 1) 0\<rparr>"
  let ?t = "put_loader l cl1 s" and ?P = "cl_library_path cl"
  have t: "ld_factories ?t = ld_factories s" "ld_open ?t = ld_open s" "ld_active ?t = ld_active s" by (simp_all add: put_loader_def)
  consider "0 < cl_classobj_ref_count cl" | "\<not> 0 < cl_classobj_ref_count cl" "cl_loadlib_ref_count cl = 1"
    | "\<not> 0 < cl_classobj_ref_count cl" "cl_loadlib_ref_count cl \<noteq> 1" by blast
  then show thesis
  proof cases
    case 1
    with ok cl show ?thesis by (intro that [of "cl_loadlib_ref_count cl" s cl]) (simp_all add: loader_unload_def fun_upd_idem)
  next
    case 2
    have "counts_ok libs ?t" unfolding cl1_def using 2 by (intro counts_ok_put [OF cnt cl]) auto
    moreover have "registry_ok libs (unload_library ?P l ?t)"
    proof (rule unload_ok [OF proper reg _ _ t])
      show "uses s l ?P" using cl 2 by (simp add: uses_def)
      show "uses ?t l' Q \<longleftrightarrow> uses s l' Q \<and> \<not> (l' = l \<and> Q = ?P)" for l' Q
        unfolding uses_put using cl 2 by (auto simp: uses_def cl1_def)
    qed
    ultimately have "loading_ok libs (unload_library ?P l ?t)"
      using counts_ok_cong [OF unload_library_frame] by (simp add: loading_ok_def)
    moreover have "loader_unload l s = Inr (0, unload_library ?P l ?t)" using cl 2 by (simp add: loader_unload_def cl1_def Let_def)
    ultimately show ?thesis using 2
      by (intro that [of 0 "unload_library ?P l ?t" cl1]) (simp_all add: unload_library_frame put_loader_def cl1_def)
  next
    case 3
    have "counts_ok libs ?t" unfolding cl1_def using 3 by (intro counts_ok_put [OF cnt cl]) auto
    moreover have "registry_ok libs ?t"
    proof (rule registry_ok_cong [OF reg])
      show "uses ?t = uses s" unfolding fun_eq_iff uses_put using cl 3 n by (auto simp: uses_def cl1_def)
    qed (use registry_okD [OF reg] t sorted_maps_cong [OF t(1)] in simp_all)
    ultimately have "loading_ok libs ?t" by (simp add: loading_ok_def)
    moreover have "loader_unload l s = Inr (max (cl_loadlib_ref_count cl - 1) 0, ?t)" using cl 3 by (simp add: loader_unload_def cl1_def Let_def)
    ultimately show ?thesis using 3
      by (intro that [of "max (cl_loadlib_ref_count cl - 1) 0" ?t cl1]) (simp_all add: put_loader_def cl1_def)
  qed
qed

lemma registry_new_maps:
  assumes "registry_ok libs s" and "factory_map_by_base_class b s = (m, s1)"
  shows "registry_ok libs s1" and "ld_loaders s1 = ld_loaders s" "ld_objects s1 = ld_objects s" "ld_next s1 = ld_next s" "ld_open s1 = ld_open s"
    and "map_of m c = factory_of s b c"
proof -
  note laws = factory_map_laws [OF registry_okD(1) [OF assms(1)] assms(2)]
  obtain fs where s1: "s1 = s\<lparr>ld_factories := fs\<rparr>" using laws(1) by blast
  then have us: "uses s1 = uses s" by (intro uses_cong) simp
  show "registry_ok libs s1" using registry_ok_cong [OF assms(1) laws(3,2) us] registry_okD(2) [OF assms(1)] s1 by simp
qed (use factory_map_laws [OF registry_okD(1) [OF assms(1)] assms(2)] in \<open>metis loading.surjective loading.update_convs loading.select_convs\<close>)+

lemma create_owned:
  assumes ok: "registry_ok libs s" and cl: "ld_loaders s l = Some cl"
  shows "fst (create_class_obj b c l s) \<longleftrightarrow> registers libs (cl_library_path cl) b c \<and> 0 < cl_loadlib_ref_count cl"
proof -
  obtain m s1 where m: "factory_map_by_base_class b s = (m, s1)" by fastforce
  have fac: "map_of m c = factory_of s b c" by (rule registry_new_maps(6) [OF ok m])
  have created: "fst (create_class_obj b c l s) \<longleftrightarrow> (\<exists>f. factory_of s b c = Some f \<and> Some l \<in> set (cf_loaders f))"
    using fac by (simp add: create_class_obj_def m is_owned_by_def split: option.split)
  have owner: "Some l \<in> set (cf_loaders f) \<longleftrightarrow> cf_library_path f = cl_library_path cl \<and> 0 < cl_loadlib_ref_count cl"
    if "factory_of s b c = Some f" for f
    using registry_okD(3) [OF ok that] cl by (auto simp: owned_right_def uses_def)
  show ?thesis
  proof
    assume "fst (create_class_obj b c l s)"
    with created obtain f where f: "factory_of s b c = Some f" "Some l \<in> set (cf_loaders f)" by blast
    with owner registry_okD(3) [OF ok f(1)] show "registers libs (cl_library_path cl) b c \<and> 0 < cl_loadlib_ref_count cl"
      by (simp add: owned_right_def)
  next
    assume r: "registers libs (cl_library_path cl) b c \<and> 0 < cl_loadlib_ref_count cl"
    then have "cl_library_path cl \<in> set (ld_open s)" using registry_okD(4) [OF ok] cl by (auto simp: registers_def uses_def split: option.splits)
    with registry_okD(5) [OF ok] r created owner show "fst (create_class_obj b c l s)" by blast
  qed
qed

text \<open>A new object of loader \<open>l\<close>.\<close>

lemma counts_ok_create:
  assumes cnt: "counts_ok libs s" and cl: "ld_loaders s l = Some cl" and "0 < cl_loadlib_ref_count cl" and "registers libs (cl_library_path cl) b c"
  defines "t \<equiv> (put_loader l (cl\<lparr>cl_classobj_ref_count := cl_classobj_ref_count cl + 1\<rparr>) s)
     \<lparr>ld_next := ld_next s + 1, ld_objects := (ld_objects s)(ld_next s \<mapsto> \<lparr>co_loader = l, co_base = b, co_class = c\<rparr>)\<rparr>"
  shows "counts_ok libs t"
proof -
  have fresh: "ld_objects s (ld_next s) = None" using counts_okD(4) [OF cnt] by (metis less_irrefl option.exhaust)
  have m: "made_by t l' = (if l' = l then insert (ld_next s) (made_by s l) else made_by s l')" for l'
    using fresh by (auto simp: t_def made_by_def put_loader_def)
  have "ld_next s \<notin> made_by s l" using fresh by (simp add: made_by_def)
  then have "card (insert (ld_next s) (made_by s l)) = card (made_by s l) + 1" using finite_made_by [OF cnt] by simp
  note card = this
  have look: "ld_loaders t l' = (if l' = l then Some (cl\<lparr>cl_classobj_ref_count := cl_classobj_ref_count cl + 1\<rparr>) else ld_loaders s l')"
    "ld_objects t x = (if x = ld_next s then Some \<lparr>co_loader = l, co_base = b, co_class = c\<rparr> else ld_objects s x)" "ld_next t = Suc (ld_next s)" for l' x
    by (simp_all add: t_def put_loader_def)
  show ?thesis unfolding counts_ok_def
  proof (intro conjI allI impI)
    fix l' cl' assume l': "ld_loaders t l' = Some cl'"
    show "l' < ld_next t" "0 \<le> cl_loadlib_ref_count cl'"
      using l' counts_okD(1) [OF cnt, of l'] counts_okD(1) [OF cnt cl] by (auto simp: look split: if_splits)
    show "cl_classobj_ref_count cl' = int (card (made_by t l'))"
      using l' counts_okD(2) [OF cnt, of l'] counts_okD(2) [OF cnt cl] card by (auto simp: look m split: if_splits)
    assume "0 < cl_classobj_ref_count cl'"
    then show "0 < cl_loadlib_ref_count cl'" using l' assms(3) counts_okD(3) [OF cnt, of l'] by (auto simp: look split: if_splits)
  next
    fix x obj assume x: "ld_objects t x = Some obj"
    show "x < ld_next t" using x counts_okD(4) [OF cnt, of x] by (auto simp: look split: if_splits)
    show "\<exists>cl. ld_loaders t (co_loader obj) = Some cl \<and> registers libs (cl_library_path cl) (co_base obj) (co_class obj)"
      using x cl assms(4) counts_okD(5) [OF cnt, of x obj] by (auto simp: look split: if_splits)
  qed
qed

lemma create_ok:
  assumes proper: "proper_libraries libs" and ok: "loading_ok libs s" and cl: "ld_loaders s l = Some cl"
  obtains r s1 where "loader_create libs b c l s = Inr (r, s1)" and "loading_ok libs s1"
    and "r \<noteq> None \<longleftrightarrow> registers libs (cl_library_path cl) b c \<and> (0 < cl_loadlib_ref_count cl \<or> \<not> is_library_loaded (cl_library_path cl) s)"
    and "r \<noteq> None \<Longrightarrow> ld_objects s1 = (ld_objects s)(the r \<mapsto> \<lparr>co_loader = l, co_base = b, co_class = c\<rparr>)"
    and "r = None \<Longrightarrow> ld_objects s1 = ld_objects s"
proof -
  let ?P = "cl_library_path cl"
  obtain r0 s0 cl0 where s0: "(if is_library_loaded ?P s then Inr (True, s) else loader_load libs l s) = Inr (r0, s0)"
    "loading_ok libs s0" "ld_objects s0 = ld_objects s" "ld_loaders s0 l = Some cl0" "cl_library_path cl0 = ?P"
    "0 < cl_loadlib_ref_count cl0 \<longleftrightarrow> 0 < cl_loadlib_ref_count cl \<or> \<not> is_library_loaded ?P s"
  proof (cases "is_library_loaded ?P s")
    case True
    with ok cl show ?thesis by (intro that [of True s cl]) simp_all
  next
    case False
    from load_ok [OF proper ok cl] obtain r1 s1 where s1: "loader_load libs l s = Inr (r1, s1)" "loading_ok libs s1" "ld_objects s1 = ld_objects s"
      "ld_loaders s1 = (ld_loaders s)(l \<mapsto> cl\<lparr>cl_loadlib_ref_count := cl_loadlib_ref_count cl + 1\<rparr>)" by blast
    moreover have "0 \<le> cl_loadlib_ref_count cl" using ok cl by (auto simp: loading_ok_def dest: counts_okD)
    ultimately show ?thesis using False
      by (intro that [of r1 s1 "cl\<lparr>cl_loadlib_ref_count := cl_loadlib_ref_count cl + 1\<rparr>"]) simp_all
  qed
  from s0(2) have reg: "registry_ok libs s0" and cnt: "counts_ok libs s0" by (auto simp: loading_ok_def)
  obtain m s2 where m: "factory_map_by_base_class b s0 = (m, s2)" by fastforce
  note new = registry_new_maps [OF reg m]
  have cnt2: "counts_ok libs s2" using cnt counts_ok_cong [OF new(2,3,4)] by simp
  define made where "made = fst (create_class_obj b c l s0)"
  then have made: "create_class_obj b c l s0 = (made, s2)" by (simp add: create_class_obj_def m split: option.split)
  have cond: "made \<longleftrightarrow> registers libs ?P b c \<and> 0 < cl_loadlib_ref_count cl0"
    using create_owned [OF reg s0(4), of b c] made s0(5) by simp
  have cl2: "ld_loaders s2 l = Some cl0" using new(2) s0(4) by simp
  show thesis
  proof (cases made)
    case False
    then have "loader_create libs b c l s = Inr (None, s2)" using cl s0(1) made by (simp add: loader_create_def)
    moreover have "loading_ok libs s2" using new(1) cnt2 by (simp add: loading_ok_def)
    ultimately show ?thesis using that [of None s2] False cond s0(3,6) new(3) by simp
  next
    case True
    let ?t = "(put_loader l (cl0\<lparr>cl_classobj_ref_count := cl_classobj_ref_count cl0 + 1\<rparr>) s2)
     \<lparr>ld_next := ld_next s2 + 1, ld_objects := (ld_objects s2)(ld_next s2 \<mapsto> \<lparr>co_loader = l, co_base = b, co_class = c\<rparr>)\<rparr>"
    have "counts_ok libs ?t" using True cond s0(5) by (intro counts_ok_create [OF cnt2 cl2]) auto
    moreover have "registry_ok libs ?t"
    proof (rule registry_ok_cong [OF new(1)])
      have "uses ?t = uses (put_loader l (cl0\<lparr>cl_classobj_ref_count := cl_classobj_ref_count cl0 + 1\<rparr>) s2)" by (rule uses_cong) simp
      also have "\<dots> = uses s2" unfolding fun_eq_iff uses_put using cl2 by (auto simp: uses_def)
      finally show "uses ?t = uses s2" .
    qed (use registry_okD [OF new(1)] in \<open>simp_all add: sorted_maps_def factory_of_def put_loader_def fun_eq_iff\<close>)
    moreover have "loader_create libs b c l s = Inr (Some (ld_next s2), ?t)" using cl s0(1) made True cl2 by (simp add: loader_create_def Let_def)
    ultimately show ?thesis using that [of "Some (ld_next s2)" ?t] True cond s0(3,6) new(3) by (simp add: loading_ok_def)
  qed
qed

lemma new_ok:
  assumes proper: "proper_libraries libs" and ok: "loading_ok libs s"
  obtains l s1 where "loader_new libs P s = Inr (l, s1)" and "loading_ok libs s1"
proof -
  let ?l = "ld_next s" and ?cl = "\<lparr>cl_library_path = P, cl_loadlib_ref_count = 0, cl_classobj_ref_count = 0\<rparr>"
  let ?t = "put_loader ?l ?cl (s\<lparr>ld_next := ?l + 1\<rparr>)"
  from ok have reg: "registry_ok libs s" and cnt: "counts_ok libs s" by (auto simp: loading_ok_def)
  have none: "ld_loaders s ?l = None" using counts_okD(1) [OF cnt, of ?l] by (metis less_irrefl option.exhaust)
  have other: "co_loader obj \<noteq> ?l" if "ld_objects s x = Some obj" for x obj using counts_okD(5) [OF cnt that] none by auto
  then have unmade: "made_by s ?l = {}" by (auto simp: made_by_def)
  have m: "made_by ?t = made_by s" by (rule made_by_cong) (simp add: put_loader_def)
  have "counts_ok libs ?t" unfolding counts_ok_def m
    using counts_okD [OF cnt] none unmade other by (auto simp: put_loader_def less_SucI)
  moreover have "registry_ok libs ?t"
  proof (rule registry_ok_cong [OF reg])
    show "uses ?t = uses s" unfolding fun_eq_iff uses_put using none by (auto simp: uses_def)
  qed (use registry_okD [OF reg] in \<open>simp_all add: sorted_maps_def factory_of_def put_loader_def fun_eq_iff\<close>)
  ultimately have ok': "loading_ok libs ?t" by (simp add: loading_ok_def)
  have "ld_loaders ?t ?l = Some ?cl" by (simp add: put_loader_def)
  from load_ok [OF proper ok' this] obtain r s1 where "loader_load libs ?l ?t = Inr (r, s1)" "loading_ok libs s1" by blast
  then show thesis by (intro that [of ?l s1]) (simp_all add: loader_new_def Let_def)
qed

lemma destroy_loader_ok:
  assumes proper: "proper_libraries libs" and ok: "loading_ok libs s" and cl: "ld_loaders s l = Some cl"
    and idle: "cl_classobj_ref_count cl = 0" and last: "cl_loadlib_ref_count cl \<le> 1"
  obtains s1 where "loader_destroy l s = Inr s1" and "loading_ok libs s1"
proof -
  from unload_step_ok [OF proper ok cl] obtain r s0 cl1 where s0: "loader_unload l s = Inr (r, s0)" "loading_ok libs s0"
    "ld_loaders s0 = (ld_loaders s)(l \<mapsto> cl1)" "cl_classobj_ref_count cl1 = cl_classobj_ref_count cl"
    "cl_loadlib_ref_count cl1 = (if 0 < cl_classobj_ref_count cl then cl_loadlib_ref_count cl else max (cl_loadlib_ref_count cl - 1) 0)" by blast
  let ?t = "s0\<lparr>ld_loaders := (ld_loaders s0)(l := None)\<rparr>"
  from s0(2) have reg: "registry_ok libs s0" and cnt: "counts_ok libs s0" by (auto simp: loading_ok_def)
  have cl1: "ld_loaders s0 l = Some cl1" "cl_classobj_ref_count cl1 = 0" "cl_loadlib_ref_count cl1 = 0"
    using s0(3,4,5) idle last counts_okD(1) [of libs s l cl] ok cl by (auto simp: loading_ok_def)
  with counts_okD(2) [OF cnt cl1(1)] finite_made_by [OF cnt, of l] have unmade: "made_by s0 l = {}" by simp
  have m: "made_by ?t = made_by s0" by (rule made_by_cong) simp
  have "co_loader obj \<noteq> l" if "ld_objects s0 x = Some obj" for x obj using unmade that by (auto simp: made_by_def)
  then have "counts_ok libs ?t" unfolding counts_ok_def m using counts_okD [OF cnt] by auto
  moreover have "registry_ok libs ?t"
  proof (rule registry_ok_cong [OF reg])
    show "uses ?t = uses s0" using cl1 by (auto simp: uses_def fun_eq_iff)
  qed (use registry_okD [OF reg] in \<open>simp_all add: sorted_maps_def factory_of_def fun_eq_iff\<close>)
  ultimately show thesis using s0(1) by (intro that [of ?t]) (simp_all add: loading_ok_def loader_destroy_def)
qed

lemma delete_ok:
  assumes ok: "loading_ok libs s"
  obtains s1 where "object_delete x s = Inr s1" and "loading_ok libs s1"
proof (cases "ld_objects s x")
  case None
  with ok show thesis by (intro that [of s]) (simp_all add: object_delete_def)
next
  case (Some obj)
  from ok have reg: "registry_ok libs s" and cnt: "counts_ok libs s" by (auto simp: loading_ok_def)
  from counts_okD(5) [OF cnt Some] obtain cl where cl: "ld_loaders s (co_loader obj) = Some cl" by blast
  let ?l = "co_loader obj" and ?cl = "cl\<lparr>cl_classobj_ref_count := cl_classobj_ref_count cl - 1\<rparr>"
  define t where "t = (put_loader ?l ?cl s)\<lparr>ld_objects := (ld_objects s)(x := None)\<rparr>"
  have m: "made_by t l = made_by s l - (if l = ?l then {x} else {})" for l
    using Some by (auto simp: t_def made_by_def put_loader_def)
  have "x \<in> made_by s ?l" using Some by (simp add: made_by_def)
  then have card: "card (made_by s ?l) = Suc (card (made_by s ?l - {x}))"
    using finite_made_by [OF cnt] by (metis card.remove)
  have look: "ld_loaders t l = (if l = ?l then Some ?cl else ld_loaders s l)" "ld_objects t y = (if y = x then None else ld_objects s y)"
    "ld_next t = ld_next s" for l y by (simp_all add: t_def put_loader_def)
  have "counts_ok libs t" unfolding counts_ok_def
  proof (intro conjI allI impI)
    fix l cl' assume l: "ld_loaders t l = Some cl'"
    show "l < ld_next t" "0 \<le> cl_loadlib_ref_count cl'"
      using l counts_okD(1) [OF cnt, of l] counts_okD(1) [OF cnt cl] by (auto simp: look split: if_splits)
    show "cl_classobj_ref_count cl' = int (card (made_by t l))"
      using l counts_okD(2) [OF cnt, of l] counts_okD(2) [OF cnt cl] card by (auto simp: look m split: if_splits)
    assume "0 < cl_classobj_ref_count cl'"
    then show "0 < cl_loadlib_ref_count cl'"
      using l counts_okD(3) [OF cnt, of l] counts_okD(3) [OF cnt cl] by (auto simp: look split: if_splits)
  next
    fix y obj' assume y: "ld_objects t y = Some obj'"
    show "y < ld_next t" using y counts_okD(4) [OF cnt, of y] by (auto simp: look split: if_splits)
    show "\<exists>cl. ld_loaders t (co_loader obj') = Some cl \<and> registers libs (cl_library_path cl) (co_base obj') (co_class obj')"
      using y cl counts_okD(5) [OF cnt, of y obj'] by (auto simp: look split: if_splits)
  qed
  moreover have "registry_ok libs t"
  proof (rule registry_ok_cong [OF reg])
    have "uses t = uses (put_loader ?l ?cl s)" by (rule uses_cong) (simp add: t_def)
    also have "\<dots> = uses s" unfolding fun_eq_iff uses_put using cl by (auto simp: uses_def)
    finally show "uses t = uses s" .
  qed (use registry_okD [OF reg] in \<open>simp_all add: t_def sorted_maps_def factory_of_def put_loader_def fun_eq_iff\<close>)
  ultimately show thesis using Some cl by (intro that [of t]) (simp_all add: loading_ok_def object_delete_def t_def)
qed

section \<open>Runs\<close>

text \<open>The operations on loaders and objects, and when a caller may use them: on a loader that has not been
  destroyed, and destroying one only with at most one load and no object left.\<close>

datatype class_op = NewLoader string | LoadLib nat | UnloadLib nat | DestroyLoader nat
  | CreateObj string string nat | DeleteObj nat | ClassNames string nat

fun class_step :: "libraries \<Rightarrow> class_op \<Rightarrow> loading \<Rightarrow> ub + loading" where
  "class_step libs (NewLoader P) s = map_sum id snd (loader_new libs P s)"
| "class_step libs (LoadLib l) s = map_sum id snd (loader_load libs l s)"
| "class_step libs (UnloadLib l) s = map_sum id snd (loader_unload l s)"
| "class_step libs (DestroyLoader l) s = loader_destroy l s"
| "class_step libs (CreateObj b c l) s = map_sum id snd (loader_create libs b c l s)"
| "class_step libs (DeleteObj x) s = object_delete x s"
| "class_step libs (ClassNames b l) s = map_sum id snd (loader_valid_class_names b l s)"

fun class_allowed :: "class_op \<Rightarrow> loading \<Rightarrow> bool" where
  "class_allowed (NewLoader P) s \<longleftrightarrow> True"
| "class_allowed (LoadLib l) s \<longleftrightarrow> ld_loaders s l \<noteq> None"
| "class_allowed (UnloadLib l) s \<longleftrightarrow> ld_loaders s l \<noteq> None"
| "class_allowed (DestroyLoader l) s \<longleftrightarrow> (case ld_loaders s l of None \<Rightarrow> False
     | Some cl \<Rightarrow> cl_classobj_ref_count cl = 0 \<and> cl_loadlib_ref_count cl \<le> 1)"
| "class_allowed (CreateObj b c l) s \<longleftrightarrow> ld_loaders s l \<noteq> None"
| "class_allowed (DeleteObj x) s \<longleftrightarrow> True"
| "class_allowed (ClassNames b l) s \<longleftrightarrow> ld_loaders s l \<noteq> None"

fun class_run :: "libraries \<Rightarrow> class_op list \<Rightarrow> loading \<Rightarrow> ub + loading" where
  "class_run libs [] s = Inr s"
| "class_run libs (op # ops) s = sbind (class_step libs op s) (class_run libs ops)"

fun class_run_allowed :: "libraries \<Rightarrow> class_op list \<Rightarrow> loading \<Rightarrow> bool" where
  "class_run_allowed libs [] s \<longleftrightarrow> True"
| "class_run_allowed libs (op # ops) s \<longleftrightarrow> class_allowed op s \<and>
     (case class_step libs op s of Inl _ \<Rightarrow> True | Inr s1 \<Rightarrow> class_run_allowed libs ops s1)"

lemma loading_start_ok: "loading_ok libs loading_start"
  by (simp add: loading_ok_def registry_ok_def counts_ok_def loading_start_def sorted_maps_def factory_of_def uses_def)

lemma class_step_ok:
  assumes proper: "proper_libraries libs" and ok: "loading_ok libs s" and allowed: "class_allowed op s"
  shows "\<exists>s1. class_step libs op s = Inr s1 \<and> loading_ok libs s1"
proof (cases op)
  case (NewLoader P)
  from new_ok [OF proper ok, of P] show ?thesis by (metis NewLoader class_step.simps(1) map_sum.simps(2) snd_conv)
next
  case (LoadLib l)
  with allowed obtain cl where "ld_loaders s l = Some cl" by auto
  from load_ok [OF proper ok this] show ?thesis by (metis LoadLib class_step.simps(2) map_sum.simps(2) snd_conv)
next
  case (UnloadLib l)
  with allowed obtain cl where "ld_loaders s l = Some cl" by auto
  from unload_step_ok [OF proper ok this] show ?thesis by (metis UnloadLib class_step.simps(3) map_sum.simps(2) snd_conv)
next
  case (DestroyLoader l)
  with allowed obtain cl where "ld_loaders s l = Some cl" "cl_classobj_ref_count cl = 0" "cl_loadlib_ref_count cl \<le> 1"
    by (auto split: option.splits)
  from destroy_loader_ok [OF proper ok this] show ?thesis by (metis DestroyLoader class_step.simps(4))
next
  case (CreateObj b c l)
  with allowed obtain cl where "ld_loaders s l = Some cl" by auto
  from create_ok [OF proper ok this, of b c] show ?thesis by (metis CreateObj class_step.simps(5) map_sum.simps(2) snd_conv)
next
  case (DeleteObj x)
  from delete_ok [OF ok, of x] show ?thesis by (metis DeleteObj class_step.simps(6))
next
  case (ClassNames b l)
  obtain m s1 where m: "factory_map_by_base_class b s = (m, s1)" by fastforce
  from ok have "registry_ok libs s" "counts_ok libs s" by (simp_all add: loading_ok_def)
  with registry_new_maps [OF _ m] counts_ok_cong have "loading_ok libs s1" unfolding loading_ok_def by metis
  with ClassNames allowed show ?thesis by (simp add: loader_valid_class_names_def valid_class_names_def m)
qed

lemma class_run_ok:
  assumes "proper_libraries libs" and "loading_ok libs s" and "class_run_allowed libs ops s"
  shows "\<exists>s1. class_run libs ops s = Inr s1 \<and> loading_ok libs s1"
  using assms(2,3)
proof (induction ops arbitrary: s)
  case (Cons op ops)
  from Cons.prems class_step_ok [OF assms(1), of s op] obtain s1 where "class_step libs op s = Inr s1" "loading_ok libs s1" by auto
  with Cons show ?case by simp
qed simp

lemma object_library_loaded:
  assumes ok: "loading_ok libs s" and obj: "ld_objects s x = Some obj"
  shows "is_library_loaded (path_of_loader s (co_loader obj)) s \<and>
    registers libs (path_of_loader s (co_loader obj)) (co_base obj) (co_class obj)"
proof -
  from ok have reg: "registry_ok libs s" and cnt: "counts_ok libs s" by (auto simp: loading_ok_def)
  from counts_okD(5) [OF cnt obj] obtain cl where cl: "ld_loaders s (co_loader obj) = Some cl"
    "registers libs (cl_library_path cl) (co_base obj) (co_class obj)" by blast
  have "x \<in> made_by s (co_loader obj)" using obj by (simp add: made_by_def)
  with finite_made_by [OF cnt] have "0 < card (made_by s (co_loader obj))" by (auto simp: card_gt_0_iff)
  with counts_okD(2,3) [OF cnt cl(1)] have "uses s (co_loader obj) (cl_library_path cl)" using cl(1) by (simp add: uses_def)
  with registry_okD(4) [OF reg, of "cl_library_path cl"] cl show ?thesis
    by (auto simp: is_library_loaded_def path_of_loader_def registers_def split: option.splits)
qed

section \<open>What plugins rely on\<close>


definition sample_libraries :: libraries where
  "sample_libraries P = (if P = ''a'' then Some [(''B'', ''C'', ''B'')] else None)"

definition sample_history :: "class_op list" where
  "sample_history = [NewLoader ''a'', NewLoader ''a'', CreateObj ''B'' ''C'' 1, UnloadLib 0]"

lemma sample_libraries_proper: "proper_libraries sample_libraries"
  by (auto simp: proper_libraries_def sample_libraries_def registers_def split: option.splits if_splits)

lemmas loading_simps = loading_start_def sample_libraries_def sample_history_def loader_new_def loader_load_def put_loader_def
  load_library_def is_library_loaded_def register_class_def factory_map_by_base_class_def class_factory_new_def
  add_owned_class_loader_def path_of_loader_def attach_loader_def loader_create_def create_class_obj_def is_owned_by_def
  loader_unload_def unload_library_def destroy_factories_def destroy_in_map_def remove_owned_class_loader_def
  is_owned_by_anybody_def all_factories_of_library_def uses_def

lemma sample_run: "class_run_allowed sample_libraries sample_history loading_start"
  by (simp add: loading_simps Let_def List.map_filter_simps)


text \<open>\<open>ClassLoader::CreateClassObj\<close> after any such history gives an object exactly when the loader's library
  registers the class for that base and either this loader has the library loaded or nobody has (then it is
  loaded on demand). A loader that has unloaded its library gets null as long as another one holds it.\<close>

lemma create_class_object_exactly:
  assumes "proper_libraries libs" and "class_run_allowed libs ops loading_start" and "class_run libs ops loading_start = Inr s"
    and "ld_loaders s l = Some cl"
  shows "\<exists>r s1. loader_create libs b c l s = Inr (r, s1) \<and>
    (r \<noteq> None \<longleftrightarrow> registers libs (cl_library_path cl) b c \<and>
       (0 < cl_loadlib_ref_count cl \<or> \<not> is_library_loaded (cl_library_path cl) s))"
proof -
  from class_run_ok [OF assms(1) loading_start_ok assms(2)] assms(3) have "loading_ok libs s" by auto
  from create_ok [OF assms(1) this assms(4), of b c] show ?thesis by metis
qed

lemma create_class_object_exactly_witness:
  "\<exists>s r1 s1 s2. class_run sample_libraries sample_history loading_start = Inr s \<and>
     loader_create sample_libraries ''B'' ''C'' 1 s = Inr (Some r1, s1) \<and> loader_create sample_libraries ''B'' ''C'' 0 s = Inr (None, s2)"
proof -
  from class_run_ok [OF sample_libraries_proper loading_start_ok sample_run]
  obtain s where s: "class_run sample_libraries sample_history loading_start = Inr s" by blast
  then obtain cl0 cl1 where cl: "ld_loaders s 0 = Some cl0" "cl_library_path cl0 = ''a''" "cl_loadlib_ref_count cl0 = 0"
    "ld_loaders s 1 = Some cl1" "cl_library_path cl1 = ''a''" "cl_loadlib_ref_count cl1 = 1" "is_library_loaded ''a'' s"
    by (auto simp: loading_simps Let_def List.map_filter_simps)
  have "registers sample_libraries ''a'' ''B'' ''C''" by (simp add: registers_def sample_libraries_def)
  with create_class_object_exactly [OF sample_libraries_proper sample_run s cl(1), of "''B''" "''C''"]
    create_class_object_exactly [OF sample_libraries_proper sample_run s cl(4), of "''B''" "''C''"] cl s
  show ?thesis by auto
qed

section \<open>The manager\<close>

lemma valid_single [simp]: "lm_is_library_valid P [(P, Some l)]" "\<not> lm_is_library_valid P []"
  by (auto simp: lm_is_library_valid_def lm_all_lib_paths_def)

text \<open>After a library was unloaded the manager keeps a null loader for it, which the next \<open>CreateClassObj\<close> by
  name follows.\<close>

lemma unloaded_manager_follows_null:
  "\<exists>ms1 ms2. lm_load libs P ([], loading_start) = Inr (True, ms1) \<and> lm_unload P ms1 = Inr (0, ms2) \<and>
     lm_create libs b c ms2 = Inl NullPointer"
proof -
  let ?t = "put_loader 0 \<lparr>cl_library_path = P, cl_loadlib_ref_count = 0, cl_classobj_ref_count = 0\<rparr> (loading_start\<lparr>ld_next := 1\<rparr>)"
  let ?u = "put_loader 0 \<lparr>cl_library_path = P, cl_loadlib_ref_count = 1, cl_classobj_ref_count = 0\<rparr> ?t"
  obtain r s1 where s1: "load_library libs P 0 ?u = (r, s1)" by fastforce
  have "sorted_maps ?u" by (simp add: sorted_maps_def put_loader_def loading_start_def)
  from load_library_frame(1) [OF this, of libs P 0] s1
  have l: "ld_loaders s1 0 = Some \<lparr>cl_library_path = P, cl_loadlib_ref_count = 1, cl_classobj_ref_count = 0\<rparr>"
    by (simp add: put_loader_def)
  have "loader_new libs P loading_start = Inr (0, s1)"
    using s1 by (simp add: loader_new_def loader_load_def loading_start_def put_loader_def)
  then have "lm_load libs P ([], loading_start) = Inr (True, [(P, Some 0)], s1)"
    by (simp add: lm_load_def)
  moreover have "\<exists>s2. lm_unload P ([(P, Some 0)], s1) = Inr (0, [(P, None)], s2)"
    using l by (simp add: lm_unload_def lm_loader_by_path_def loader_unload_def
      loader_destroy_def put_loader_def unload_library_frame Let_def)
  moreover have "lm_create libs b c ([(P, None)], s2) = Inl NullPointer" for s2
    by (simp add: lm_create_def lm_all_loaders_def)
  ultimately show ?thesis by blast
qed

end
