(* ===== verification/Time_Rate.thy ===== *)
theory Time_Rate
  imports Cmw_Prelude
begin

text \<open>
  Time and rates: \<open>time/time.cpp\<close>, \<open>time/duration.cpp\<close> and \<open>time/rate.cpp\<close>. A \<open>Time\<close> is an unsigned and a
  \<open>Duration\<close> a signed number of nanoseconds, both kept as the 64 bits they are; \<open>None\<close> is a signed overflow,
  which is undefined. The clock is a parameter: an operation that reads it takes what \<open>Time::Now\<close> returns, and
  \<open>Rate::Sleep\<close> answers the time it sleeps until, if it sleeps. Conversions from and to \<open>double\<close> and the
  printing of calendar dates are left out.
\<close>

section \<open>Time and Duration\<close>

type_synonym cmw_time = "64 word"
type_synonym cmw_duration = "64 word"

definition time_max :: cmw_time where "time_max = - 1"
definition time_min :: cmw_time where "time_min = 0"

definition time_of_int :: "32 word \<Rightarrow> cmw_time" where
  "time_of_int n = scast n"

definition time_of_parts :: "32 word \<Rightarrow> 32 word \<Rightarrow> cmw_time" where
  "time_of_parts seconds nanoseconds = ucast seconds * 1000000000 + ucast nanoseconds"

definition time_is_zero :: "cmw_time \<Rightarrow> bool" where
  "time_is_zero t \<longleftrightarrow> t = 0"

definition time_diff :: "cmw_time \<Rightarrow> cmw_time \<Rightarrow> cmw_duration" where
  "time_diff a b = a - b"

definition time_plus :: "cmw_time \<Rightarrow> cmw_duration \<Rightarrow> cmw_time" where
  "time_plus t d = t + d"

definition time_minus :: "cmw_time \<Rightarrow> cmw_duration \<Rightarrow> cmw_time" where
  "time_minus t d = t - d"

definition time_less :: "cmw_time \<Rightarrow> cmw_time \<Rightarrow> bool" where
  "time_less a b \<longleftrightarrow> uint a < uint b"

definition time_le :: "cmw_time \<Rightarrow> cmw_time \<Rightarrow> bool" where
  "time_le a b \<longleftrightarrow> uint a \<le> uint b"

text \<open>A signed result of 64 bits.\<close>

definition signed_result :: "int \<Rightarrow> cmw_duration option" where
  "signed_result n = (if - (2 ^ 63) \<le> n \<and> n < 2 ^ 63 then Some (word_of_int n) else None)"

definition duration_of_int :: "32 word \<Rightarrow> cmw_duration" where
  "duration_of_int n = scast n"

definition duration_of_parts :: "32 word \<Rightarrow> 32 word \<Rightarrow> cmw_duration" where
  "duration_of_parts seconds nanoseconds = ucast seconds * 1000000000 + ucast nanoseconds"

definition duration_is_zero :: "cmw_duration \<Rightarrow> bool" where
  "duration_is_zero d \<longleftrightarrow> d = 0"

definition duration_plus :: "cmw_duration \<Rightarrow> cmw_duration \<Rightarrow> cmw_duration option" where
  "duration_plus a b = signed_result (sint a + sint b)"

definition duration_minus :: "cmw_duration \<Rightarrow> cmw_duration \<Rightarrow> cmw_duration option" where
  "duration_minus a b = signed_result (sint a - sint b)"

definition duration_negate :: "cmw_duration \<Rightarrow> cmw_duration option" where
  "duration_negate a = signed_result (- sint a)"

definition duration_less :: "cmw_duration \<Rightarrow> cmw_duration \<Rightarrow> bool" where
  "duration_less a b \<longleftrightarrow> sint a < sint b"

definition duration_le :: "cmw_duration \<Rightarrow> cmw_duration \<Rightarrow> bool" where
  "duration_le a b \<longleftrightarrow> sint a \<le> sint b"

section \<open>Rate\<close>

record rate =
  rt_start :: cmw_time
  rt_expected :: cmw_duration
  rt_actual :: cmw_duration

definition rate_of_duration :: "cmw_time \<Rightarrow> cmw_duration \<Rightarrow> rate" where
  "rate_of_duration now d = \<lparr>rt_start = now, rt_expected = d, rt_actual = 0\<rparr>"

definition rate_of_nanoseconds :: "cmw_time \<Rightarrow> 64 word \<Rightarrow> rate" where
  "rate_of_nanoseconds now n = \<lparr>rt_start = now, rt_expected = n, rt_actual = 0\<rparr>"

definition rate_cycle_time :: "rate \<Rightarrow> cmw_duration" where
  "rate_cycle_time r = rt_actual r"

definition rate_reset :: "cmw_time \<Rightarrow> rate \<Rightarrow> rate" where
  "rate_reset now r = r\<lparr>rt_start := now\<rparr>"

definition rate_sleep :: "cmw_time \<Rightarrow> rate \<Rightarrow> rate \<times> cmw_time option" where
  "rate_sleep actual_end r =
     (let expected_end = if time_less actual_end (rt_start r) then time_plus actual_end (rt_expected r)
            else time_plus (rt_start r) (rt_expected r);
          sleep_time = time_diff expected_end actual_end;
          r1 = r\<lparr>rt_actual := time_diff actual_end (rt_start r), rt_start := expected_end\<rparr>
      in if duration_less sleep_time 0
         then (if time_less (time_plus expected_end (rt_expected r)) actual_end then r1\<lparr>rt_start := actual_end\<rparr> else r1, None)
         else (r1, Some expected_end))"

text \<open>The calls of a loop, at the times the clock shows.\<close>

fun rate_sleeps :: "cmw_time list \<Rightarrow> rate \<Rightarrow> rate \<times> cmw_time option list" where
  "rate_sleeps [] r = (r, [])"
| "rate_sleeps (now # nows) r = (let (r1, w) = rate_sleep now r; (r2, ws) = rate_sleeps nows r1 in (r2, w # ws))"

section \<open>Arithmetic\<close>

lemma signed_result_eq: "signed_result n = Some d \<Longrightarrow> sint d = n"
  by (auto simp: signed_result_def sint_sbintrunc' signed_take_bit_int_eq_self split: if_splits)

lemma duration_plus_exact: "duration_plus a b = Some c \<Longrightarrow> sint c = sint a + sint b"
  by (simp add: duration_plus_def signed_result_eq)

lemma uint_plus_small: "uint a + uint b < 2 ^ LENGTH('a) \<Longrightarrow> uint (a + b :: 'a::len word) = uint a + uint b"
  by (simp add: uint_word_ariths)

text \<open>The distance of two times as a signed number: right as long as it is less than 2^63.\<close>

lemma sint_time_diff:
  assumes "\<bar>uint a - uint b\<bar> < 2 ^ 63"
  shows "sint (time_diff a b) = uint a - uint b"
proof -
  have "sint (time_diff a b) = signed_take_bit 63 (uint a - uint b)"
    unfolding time_diff_def word_sub_wi sint_sbintrunc' by simp
  with assms show ?thesis by (simp add: signed_take_bit_int_eq_self)
qed

text \<open>Times before 2^63 nanoseconds (the year 2262) are ordered by the sign of their difference, which loses nothing:
  adding it back gives the time, and it is the number of nanoseconds between them.\<close>

lemma time_difference_round_trip:
  "time_plus b (time_diff a b) = a \<and> time_minus a (time_diff a b) = b \<and>
   (uint a < 2 ^ 63 \<and> uint b < 2 ^ 63 \<longrightarrow> sint (time_diff a b) = uint a - uint b \<and>
      (duration_less (time_diff a b) 0 \<longleftrightarrow> time_less a b) \<and> duration_negate (time_diff a b) = Some (time_diff b a))"
proof -
  have ab: "sint (time_diff a b) = uint a - uint b" "sint (time_diff b a) = uint b - uint a" if "uint a < 2 ^ 63" "uint b < 2 ^ 63"
    by (rule sint_time_diff, use that uint_ge_0 [of a] uint_ge_0 [of b] in arith)+
  show ?thesis
  proof (intro conjI impI)
    assume lt: "uint a < 2 ^ 63 \<and> uint b < 2 ^ 63"
    then show d: "sint (time_diff a b) = uint a - uint b" using ab by simp
    show "duration_less (time_diff a b) 0 \<longleftrightarrow> time_less a b" by (simp add: duration_less_def time_less_def d)
    have "0 \<le> uint a" "0 \<le> uint b" by simp_all
    with lt have in_range: "- (2 ^ 63) \<le> - (uint a - uint b)" "- (uint a - uint b) < 2 ^ 63" by linarith+
    have "word_of_int (- sint (time_diff a b)) = time_diff b a" by (simp add: time_diff_def)
    then show "duration_negate (time_diff a b) = Some (time_diff b a)"
      using lt in_range by (auto simp: duration_negate_def signed_result_def d)
  qed (simp_all add: time_plus_def time_minus_def time_diff_def)
qed

lemma parts_exact: "uint (time_of_parts s n) = uint s * 1000000000 + uint n" "sint (duration_of_parts s n) = uint s * 1000000000 + uint n"
proof -
  define N where "N = uint s * 1000000000 + uint n"
  have "uint s < 4294967296" "uint n < 4294967296" using uint_lt2p [of s] uint_lt2p [of n] by simp_all
  moreover have "0 \<le> uint s" "0 \<le> uint n" by (rule uint_ge_0)+
  ultimately have "0 \<le> N" "N < 9223372036854775808" unfolding N_def by linarith+
  then have lt: "0 \<le> N" "N < 2 ^ 63" "N < 2 ^ 64" by simp_all
  have "ucast s * 1000000000 + ucast n = (word_of_int N :: 64 word)" unfolding N_def ucast_eq by (simp only: of_int_add of_int_mult of_int_numeral)
  then have eq: "time_of_parts s n = word_of_int N" "duration_of_parts s n = word_of_int N"
    by (simp_all only: time_of_parts_def duration_of_parts_def)
  have "take_bit 64 N = N" "signed_take_bit 63 N = N" using lt by (auto intro: take_bit_int_eq_self signed_take_bit_int_eq_self)
  then show "uint (time_of_parts s n) = uint s * 1000000000 + uint n" "sint (duration_of_parts s n) = uint s * 1000000000 + uint n"
    unfolding eq uint_word_of_int_eq sint_sbintrunc' N_def [symmetric] by simp_all
qed

section \<open>The reference: a rate on unbounded integers\<close>

text \<open>Each call moves the start by one period, to at least a period from now when time jumped back, and to now
  when the call is more than a period late; it sleeps unless it is late.\<close>

definition rate_ideal :: "int \<Rightarrow> int \<Rightarrow> int \<Rightarrow> int \<times> int option" where
  "rate_ideal d start now =
     (let e = (if now < start then now else start) + d
      in if e < now then (if e + d < now then now else e, None) else (e, Some e))"

fun rate_ideals :: "int \<Rightarrow> int list \<Rightarrow> int \<Rightarrow> int \<times> int option list" where
  "rate_ideals d [] start = (start, [])"
| "rate_ideals d (now # nows) start =
     (let (s1, w) = rate_ideal d start now; (s2, ws) = rate_ideals d nows s1 in (s2, w # ws))"

text \<open>A rate with a period and a start, in times that leave room for two periods.\<close>

definition rate_at :: "int \<Rightarrow> int \<Rightarrow> rate \<Rightarrow> bool" where
  "rate_at d start r \<longleftrightarrow> uint (rt_start r) = start \<and> uint (rt_expected r) = d"

lemma rate_sleep_refines:
  assumes r: "rate_at d start r" and small: "d < 2 ^ 61" "start < 2 ^ 62 + 2 ^ 61" "uint now < 2 ^ 62"
  shows "rate_at d (fst (rate_ideal d start (uint now))) (fst (rate_sleep now r))"
    and "map_option uint (snd (rate_sleep now r)) = snd (rate_ideal d start (uint now))"
    and "sint (rt_actual (fst (rate_sleep now r))) = uint now - start"
    and "fst (rate_ideal d start (uint now)) < 2 ^ 62 + 2 ^ 61"
proof -
  define e where "e = (if uint now < start then now else rt_start r) + rt_expected r"
  from r have st: "uint (rt_start r) = start" and d: "uint (rt_expected r) = d" by (simp_all add: rate_at_def)
  have nn: "0 \<le> d" "0 \<le> start" "0 \<le> uint now" using st d uint_ge_0 by (auto simp flip: st d)
  have ue: "uint e = (if uint now < start then uint now else start) + d"
    using small nn st d unfolding e_def by (subst uint_plus_small) (auto simp: st d)
  have ued: "uint (e + rt_expected r) = uint e + d"
    using small nn ue d by (subst uint_plus_small) (auto simp: d split: if_splits)
  have exp: "(if time_less now (rt_start r) then time_plus now (rt_expected r) else time_plus (rt_start r) (rt_expected r)) = e"
    by (simp add: e_def time_less_def time_plus_def st)
  have late: "duration_less (time_diff e now) 0 \<longleftrightarrow> uint e < uint now"
  proof -
    have "\<bar>uint e - uint now\<bar> < 2 ^ 63" using ue small nn by (auto split: if_splits)
    then show ?thesis by (simp add: duration_less_def sint_time_diff)
  qed
  have res: "rate_sleep now r = (r\<lparr>rt_actual := time_diff now (rt_start r),
      rt_start := (if uint e < uint now \<and> uint e + d < uint now then now else e)\<rparr>, if uint e < uint now then None else Some e)"
  proof -
    have very: "time_less (time_plus e (rt_expected r)) now \<longleftrightarrow> uint e + d < uint now" by (simp add: time_less_def time_plus_def ued)
    show ?thesis unfolding rate_sleep_def exp Let_def late very by auto
  qed
  have ideal: "rate_ideal d start (uint now) = (if uint e < uint now \<and> uint e + d < uint now then uint now else uint e,
      if uint e < uint now then None else Some (uint e))"
    using ue nn by (auto simp: rate_ideal_def Let_def)
  show "rate_at d (fst (rate_ideal d start (uint now))) (fst (rate_sleep now r))"
    by (simp add: res ideal rate_at_def d)
  show "map_option uint (snd (rate_sleep now r)) = snd (rate_ideal d start (uint now))" by (simp add: res ideal)
  have "2 ^ 62 + 2 ^ 61 < (2 :: int) ^ 63" "0 < (2 :: int) ^ 61" by simp_all
  with small nn have "\<bar>uint now - start\<bar> < 2 ^ 63" by linarith
  then have "\<bar>uint now - uint (rt_start r)\<bar> < 2 ^ 63" by (simp add: st)
  then show "sint (rt_actual (fst (rate_sleep now r))) = uint now - start" by (simp add: res sint_time_diff st)
  show "fst (rate_ideal d start (uint now)) < 2 ^ 62 + 2 ^ 61" using ue small nn by (auto simp: ideal split: if_splits)
qed

lemma rate_sleeps_refine:
  assumes "rate_at d start r" and "d < 2 ^ 61" and "start < 2 ^ 62 + 2 ^ 61" and "\<forall>now \<in> set nows. uint now < 2 ^ 62"
  shows "rate_at d (fst (rate_ideals d (map uint nows) start)) (fst (rate_sleeps nows r)) \<and>
    map (map_option uint) (snd (rate_sleeps nows r)) = snd (rate_ideals d (map uint nows) start)"
  using assms
proof (induction nows arbitrary: r start)
  case (Cons now nows)
  obtain r1 w where r1: "rate_sleep now r = (r1, w)" by fastforce
  obtain s1 v where s1: "rate_ideal d start (uint now) = (s1, v)" by fastforce
  from rate_sleep_refines [OF Cons.prems(1,2,3), of now] Cons.prems(4) r1 s1
  have "rate_at d s1 r1" "map_option uint w = v" "s1 < 2 ^ 62 + 2 ^ 61" by simp_all
  with Cons.IH [of s1 r1] Cons.prems(2,4) show ?case by (simp add: r1 s1 case_prod_beta)
qed simp

lemma ideal_on_grid:
  assumes "0 \<le> d" and "\<forall>i < length nows. start + int i * d \<le> nows ! i \<and> nows ! i \<le> start + (int i + 2) * d"
  shows "rate_ideals d nows start = (start + int (length nows) * d,
    map (\<lambda>i. if nows ! i \<le> start + (int i + 1) * d then Some (start + (int i + 1) * d) else None) [0..<length nows])"
  using assms(2)
proof (induction nows arbitrary: start)
  case (Cons now nows)
  from Cons.prems have now: "start \<le> now" "now \<le> start + 2 * d" by (auto dest: spec [where x = 0])
  then have step: "rate_ideal d start now = (start + d, if now \<le> start + d then Some (start + d) else None)"
    by (auto simp: rate_ideal_def Let_def)
  have "start + d + int i * d \<le> nows ! i \<and> nows ! i \<le> start + d + (int i + 2) * d" if "i < length nows" for i
    using Cons.prems [rule_format, of "Suc i"] that by (simp add: algebra_simps)
  then have rest: "rate_ideals d nows (start + d) = (start + d + int (length nows) * d,
      map (\<lambda>i. if nows ! i \<le> start + d + (int i + 1) * d then Some (start + d + (int i + 1) * d) else None) [0..<length nows])"
    using Cons.IH [of "start + d"] by blast
  have up: "[0..<length (now # nows)] = 0 # map Suc [0..<length nows]" by (simp add: upt_conv_Cons map_Suc_upt del: upt_Suc)
  show ?case unfolding up by (simp add: step rest o_def) (auto simp: algebra_simps)
qed simp

text \<open>C38. A rate does not drift: in a loop whose calls of \<open>Sleep\<close> come no earlier than the start of their period and never
  more than a period late, the k-th period ends exactly k periods after the first start, however late single calls
  are; \<open>Sleep\<close> waits until that time when the call is not late, and returns at once when it is.\<close>

theorem rate_keeps_grid:
  assumes "rate_at d start r" and "d < 2 ^ 61" and "start < 2 ^ 62 + 2 ^ 61" and "\<forall>now \<in> set nows. uint now < 2 ^ 62"
    and "\<forall>i < length nows. start + int i * d \<le> uint (nows ! i) \<and> uint (nows ! i) \<le> start + (int i + 2) * d"
  shows "uint (rt_start (fst (rate_sleeps nows r))) = start + int (length nows) * d \<and>
    map (map_option uint) (snd (rate_sleeps nows r)) =
      map (\<lambda>i. if uint (nows ! i) \<le> start + (int i + 1) * d then Some (start + (int i + 1) * d) else None) [0..<length nows]"
proof -
  have "0 \<le> d" using assms(1) by (auto simp: rate_at_def)
  from ideal_on_grid [OF this, of "map uint nows" start] assms(5)
  have "rate_ideals d (map uint nows) start = (start + int (length nows) * d,
      map (\<lambda>i. if uint (nows ! i) \<le> start + (int i + 1) * d then Some (start + (int i + 1) * d) else None) [0..<length nows])"
    by (auto cong: if_cong)
  with rate_sleeps_refine [OF assms(1-4)] show ?thesis by (simp add: rate_at_def)
qed

theorem rate_keeps_grid_witness:
  "map (map_option uint) (snd (rate_sleeps [105, 125, 121] (rate_of_duration 100 10))) = [Some 110, None, Some 130]"
proof -
  have at: "rate_at 10 100 (rate_of_duration 100 10)" by (simp add: rate_at_def rate_of_duration_def)
  have grid: "\<forall>i < length [105, 125, 121]. 100 + int i * 10 \<le> uint ([105, 125, 121 :: cmw_time] ! i) \<and> uint ([105, 125, 121 :: cmw_time] ! i) \<le> 100 + (int i + 2) * 10"
    by (simp add: less_Suc_eq numeral_3_eq_3 All_less_Suc)
  from rate_keeps_grid [OF at _ _ _ grid] show ?thesis by (simp add: upt_rec del: rate_sleeps.simps)
qed

text \<open>A call that is more than a period late starts the next period at its own time, and one before the start (the clock
  was set back) a period after it.\<close>

lemma rate_restarts:
  assumes "rate_at d start r" and "d < 2 ^ 61" and "start < 2 ^ 62 + 2 ^ 61" and "uint now < 2 ^ 62"
  shows "start + 2 * d < uint now \<Longrightarrow> rate_at d (uint now) (fst (rate_sleep now r)) \<and> snd (rate_sleep now r) = None"
    and "uint now < start \<Longrightarrow> rate_at d (uint now + d) (fst (rate_sleep now r)) \<and>
      map_option uint (snd (rate_sleep now r)) = Some (uint now + d)"
proof -
  have "0 \<le> d" "0 \<le> start" using assms(1) by (auto simp: rate_at_def)
  with rate_sleep_refines(1,2) [OF assms]
  show "start + 2 * d < uint now \<Longrightarrow> rate_at d (uint now) (fst (rate_sleep now r)) \<and> snd (rate_sleep now r) = None"
    "uint now < start \<Longrightarrow> rate_at d (uint now + d) (fst (rate_sleep now r)) \<and>
      map_option uint (snd (rate_sleep now r)) = Some (uint now + d)"
    by (auto simp: rate_ideal_def Let_def split: if_splits)
qed

end
