(* ===== verification/Task_Pool.thy ===== *)
theory Task_Pool
  imports Interleaving
begin

text \<open>
  Pools that run tasks: \<open>TaskManager\<close> (\<open>task/task_manager.cpp\<close> and \<open>.h\<close>), whose workers are routines, and
  \<open>ThreadPool\<close> (\<open>base/thread_pool.h\<close>), whose workers are threads that wait on the condition variable of
  \<open>BlockWaitStrategy\<close> (\<open>base/wait_strategy.h\<close>). A task is a number, given when it is submitted. The bounded
  queue is the list that \<open>Bounded_Queue\<close> proves it to be, one step per operation; it may refuse a task (its result
  is ignored by both pools), also when it is not full, which \<open>Bounded_Queue\<close> shows it does. The routine of a
  worker has the state and the flag that \<open>Routine_Steps\<close> describes; a task runs without suspending its routine.
\<close>

section \<open>Tasks\<close>

text \<open>The queue, and as ghosts the tasks it took, those it refused and those a worker took out.\<close>

record task_state =
  ts_queue :: "nat list"
  ts_next :: nat
  ts_stop :: bool
  ts_accepted :: "nat list"
  ts_refused :: "nat list"
  ts_begun :: "nat list"

definition put_task :: "('b) task_state_scheme \<Rightarrow> ('b) task_state_scheme" where
  "put_task s = s\<lparr>ts_queue := ts_queue s @ [ts_next s], ts_accepted := ts_accepted s @ [ts_next s], ts_next := ts_next s + 1\<rparr>"

definition refuse_task :: "('b) task_state_scheme \<Rightarrow> ('b) task_state_scheme" where
  "refuse_task s = s\<lparr>ts_refused := ts_refused s @ [ts_next s], ts_next := ts_next s + 1\<rparr>"

definition take_task :: "('b) task_state_scheme \<Rightarrow> ('b) task_state_scheme" where
  "take_task s = s\<lparr>ts_queue := tl (ts_queue s), ts_begun := ts_begun s @ [hd (ts_queue s)]\<rparr>"

section \<open>TaskManager\<close>

datatype worker_pc = WkLoop | WkDequeue | WkHang | WkAway | WkRun nat | WkDone
datatype submit_pc = SbIdle | SbPut | SbNotify "nat list" | SbClear nat "nat list"

text \<open>A worker's routine waits (\<open>DATA_WAIT\<close>) and has its flag \<open>updated_\<close>, which a notification clears. The ghost
  \<open>tk_missed\<close> holds if since the worker's last try to dequeue a notification found its routine running.\<close>

record tk_state = task_state +
  tk_worker :: "nat \<Rightarrow> worker_pc"
  tk_wait :: "nat \<Rightarrow> bool"
  tk_updated :: "nat \<Rightarrow> bool"
  tk_missed :: "nat \<Rightarrow> bool"
  tk_submit :: "nat \<Rightarrow> submit_pc"

definition tk_start :: tk_state where
  "tk_start = \<lparr>ts_queue = [], ts_next = 0, ts_stop = False, ts_accepted = [], ts_refused = [], ts_begun = [],
     tk_worker = (\<lambda>_. WkLoop), tk_wait = (\<lambda>_. False), tk_updated = (\<lambda>_. True), tk_missed = (\<lambda>_. False), tk_submit = (\<lambda>_. SbIdle)\<rparr>"

definition tk_work :: "nat \<Rightarrow> worker_pc \<Rightarrow> tk_state \<Rightarrow> tk_state" where
  "tk_work w p s = s\<lparr>tk_worker := (tk_worker s)(w := p)\<rparr>"

definition tk_sub :: "nat \<Rightarrow> submit_pc \<Rightarrow> tk_state \<Rightarrow> tk_state" where
  "tk_sub i p s = s\<lparr>tk_submit := (tk_submit s)(i := p)\<rparr>"

text \<open>Steps with \<open>n\<close> workers: of worker \<open>i\<close>, of a thread \<open>i\<close> that submits, and the shutdown.\<close>

inductive tk_step :: "nat \<Rightarrow> nat \<Rightarrow> tk_state \<Rightarrow> tk_state \<Rightarrow> bool" for n where
  loop: "tk_worker s i = WkLoop \<Longrightarrow> i < n \<Longrightarrow> \<not> ts_stop s \<Longrightarrow>
    tk_step n i s (tk_work i WkDequeue (s\<lparr>tk_missed := (tk_missed s)(i := False)\<rparr>))"
| ended: "tk_worker s i = WkLoop \<Longrightarrow> i < n \<Longrightarrow> ts_stop s \<Longrightarrow> tk_step n i s (tk_work i WkDone s)"
| take: "tk_worker s i = WkDequeue \<Longrightarrow> ts_queue s \<noteq> [] \<Longrightarrow> tk_step n i s (tk_work i (WkRun (hd (ts_queue s))) (take_task s))"
| none: "tk_worker s i = WkDequeue \<Longrightarrow> ts_queue s = [] \<Longrightarrow> tk_step n i s (tk_work i WkHang s)"
| hang_up: "tk_worker s i = WkHang \<Longrightarrow> tk_step n i s (tk_work i WkAway (s\<lparr>tk_wait := (tk_wait s)(i := True)\<rparr>))"
| wake: "tk_worker s i = WkAway \<Longrightarrow> \<not> tk_updated s i \<Longrightarrow>
    tk_step n i s (tk_work i WkLoop (s\<lparr>tk_wait := (tk_wait s)(i := False), tk_updated := (tk_updated s)(i := True)\<rparr>))"
| removed: "tk_worker s i = WkAway \<Longrightarrow> ts_stop s \<Longrightarrow> tk_step n i s (tk_work i WkDone s)"
| ran: "tk_worker s i = WkRun t \<Longrightarrow> tk_step n i s (tk_work i WkLoop s)"
| submit: "tk_submit s i = SbIdle \<Longrightarrow> \<not> ts_stop s \<Longrightarrow> tk_step n i s (tk_sub i SbPut s)"
| put: "tk_submit s i = SbPut \<Longrightarrow> tk_step n i s (tk_sub i (SbNotify [0..<n]) (put_task s))"
| refused: "tk_submit s i = SbPut \<Longrightarrow> tk_step n i s (tk_sub i (SbNotify [0..<n]) (refuse_task s))"
| waiting: "tk_submit s i = SbNotify (w # ws) \<Longrightarrow> tk_wait s w \<Longrightarrow> tk_step n i s (tk_sub i (SbClear w ws) s)"
| running: "tk_submit s i = SbNotify (w # ws) \<Longrightarrow> \<not> tk_wait s w \<Longrightarrow>
    tk_step n i s (tk_sub i (SbNotify ws) (s\<lparr>tk_missed := (tk_missed s)(w := True)\<rparr>))"
| clear: "tk_submit s i = SbClear w ws \<Longrightarrow>
    tk_step n i s (tk_sub i (SbNotify ws) (s\<lparr>tk_updated := (tk_updated s)(w := False)\<rparr>))"
| notified: "tk_submit s i = SbNotify [] \<Longrightarrow> tk_step n i s (tk_sub i SbIdle s)"
| shutdown: "tk_step n i s (s\<lparr>ts_stop := True\<rparr>)"

inductive_simps tk_step_iff: "tk_step n i s t"

section \<open>ThreadPool\<close>

datatype thread_pc = ThTest | ThHead | ThDequeue | ThWait | ThAsleep | ThRun nat | ThExit
datatype pool_pc = PlIdle | PlPut | PlNotify
datatype dtor_pc = DtNone | DtBreak | DtNotify | DtJoin | DtDone

record pl_state = task_state +
  pl_break :: bool
  pl_worker :: "nat \<Rightarrow> thread_pc"
  pl_submit :: "nat \<Rightarrow> pool_pc"
  pl_dtor :: dtor_pc

definition pl_start :: pl_state where
  "pl_start = \<lparr>ts_queue = [], ts_next = 0, ts_stop = False, ts_accepted = [], ts_refused = [], ts_begun = [],
     pl_break = False, pl_worker = (\<lambda>_. ThTest), pl_submit = (\<lambda>_. PlIdle), pl_dtor = DtNone\<rparr>"

definition pl_work :: "nat \<Rightarrow> thread_pc \<Rightarrow> pl_state \<Rightarrow> pl_state" where
  "pl_work w p s = s\<lparr>pl_worker := (pl_worker s)(w := p)\<rparr>"

definition pl_sub :: "nat \<Rightarrow> pool_pc \<Rightarrow> pl_state \<Rightarrow> pl_state" where
  "pl_sub i p s = s\<lparr>pl_submit := (pl_submit s)(i := p)\<rparr>"

text \<open>The condition variable of \<open>BlockWaitStrategy\<close>: \<open>notify_all\<close> wakes all threads asleep.\<close>

definition wake_all :: "(nat \<Rightarrow> thread_pc) \<Rightarrow> nat \<Rightarrow> thread_pc" where
  "wake_all ws w = (if ws w = ThAsleep then ThHead else ws w)"

inductive pl_step :: "nat \<Rightarrow> nat \<Rightarrow> pl_state \<Rightarrow> pl_state \<Rightarrow> bool" for n where
  loop: "pl_worker s i = ThTest \<Longrightarrow> i < n \<Longrightarrow> \<not> ts_stop s \<Longrightarrow> pl_step n i s (pl_work i ThHead s)"
| exit: "pl_worker s i = ThTest \<Longrightarrow> i < n \<Longrightarrow> ts_stop s \<Longrightarrow> pl_step n i s (pl_work i ThExit s)"
| head: "pl_worker s i = ThHead \<Longrightarrow> \<not> pl_break s \<Longrightarrow> pl_step n i s (pl_work i ThDequeue s)"
| broken: "pl_worker s i = ThHead \<Longrightarrow> pl_break s \<Longrightarrow> pl_step n i s (pl_work i ThTest s)"
| take: "pl_worker s i = ThDequeue \<Longrightarrow> ts_queue s \<noteq> [] \<Longrightarrow> pl_step n i s (pl_work i (ThRun (hd (ts_queue s))) (take_task s))"
| none: "pl_worker s i = ThDequeue \<Longrightarrow> ts_queue s = [] \<Longrightarrow> pl_step n i s (pl_work i ThWait s)"
| wait: "pl_worker s i = ThWait \<Longrightarrow> pl_step n i s (pl_work i ThAsleep s)"
| spurious: "pl_worker s i = ThAsleep \<Longrightarrow> pl_step n i s (pl_work i ThHead s)"
| ran: "pl_worker s i = ThRun t \<Longrightarrow> pl_step n i s (pl_work i ThTest s)"
| submit: "pl_submit s i = PlIdle \<Longrightarrow> \<not> ts_stop s \<Longrightarrow> pl_step n i s (pl_sub i PlPut s)"
| put: "pl_submit s i = PlPut \<Longrightarrow> pl_step n i s (pl_sub i PlNotify (put_task s))"
| refused: "pl_submit s i = PlPut \<Longrightarrow> pl_step n i s (pl_sub i PlIdle (refuse_task s))"
| notify: "pl_submit s i = PlNotify \<Longrightarrow> pl_worker s w = ThAsleep \<Longrightarrow> pl_step n i s (pl_sub i PlIdle (pl_work w ThHead s))"
| notify_none: "pl_submit s i = PlNotify \<Longrightarrow> \<forall>w. pl_worker s w \<noteq> ThAsleep \<Longrightarrow> pl_step n i s (pl_sub i PlIdle s)"
| destroy: "pl_dtor s = DtNone \<Longrightarrow> pl_step n i s (s\<lparr>ts_stop := True, pl_dtor := DtBreak\<rparr>)"
| break_wait: "pl_dtor s = DtBreak \<Longrightarrow> pl_step n i s (s\<lparr>pl_break := True, pl_dtor := DtNotify\<rparr>)"
| break_notify: "pl_dtor s = DtNotify \<Longrightarrow> pl_step n i s (s\<lparr>pl_worker := wake_all (pl_worker s), pl_dtor := DtJoin\<rparr>)"
| join: "pl_dtor s = DtJoin \<Longrightarrow> \<forall>w < n. pl_worker s w = ThExit \<Longrightarrow> pl_step n i s (s\<lparr>pl_dtor := DtDone\<rparr>)"

inductive_simps pl_step_iff: "pl_step n i s t"

section \<open>Order\<close>

definition tasks_ok :: "('b) task_state_scheme \<Rightarrow> bool" where
  "tasks_ok s \<longleftrightarrow> ts_accepted s = ts_begun s @ ts_queue s \<and> sorted_wrt (<) (ts_accepted s) \<and>
     (\<forall>t \<in> set (ts_accepted s). t < ts_next s) \<and> (\<forall>t \<in> set (ts_refused s). t < ts_next s) \<and> set (ts_accepted s) \<inter> set (ts_refused s) = {}"

lemma put_task_ok: "tasks_ok s \<Longrightarrow> tasks_ok (put_task s)"
  by (auto simp: tasks_ok_def put_task_def sorted_wrt_append less_Suc_eq)

lemma refuse_task_ok: "tasks_ok s \<Longrightarrow> tasks_ok (refuse_task s)"
  by (auto simp: tasks_ok_def refuse_task_def less_Suc_eq)

lemma take_task_ok: "tasks_ok s \<Longrightarrow> ts_queue s \<noteq> [] \<Longrightarrow> tasks_ok (take_task s)"
  unfolding tasks_ok_def take_task_def by (cases "ts_queue s") auto

lemma task_ops_simps [simp]:
  "tk_worker (put_task s) = tk_worker s" "tk_worker (refuse_task s) = tk_worker s" "tk_worker (take_task s) = tk_worker s"
  "tk_submit (put_task s) = tk_submit s" "tk_submit (refuse_task s) = tk_submit s" "tk_submit (take_task s) = tk_submit s"
  "tk_wait (put_task s) = tk_wait s" "tk_wait (refuse_task s) = tk_wait s" "tk_wait (take_task s) = tk_wait s"
  "tk_updated (put_task s) = tk_updated s" "tk_updated (refuse_task s) = tk_updated s" "tk_updated (take_task s) = tk_updated s"
  "tk_missed (put_task s) = tk_missed s" "tk_missed (refuse_task s) = tk_missed s" "tk_missed (take_task s) = tk_missed s"
  by (simp_all add: put_task_def refuse_task_def take_task_def)

lemma pool_ops_simps [simp]:
  "pl_worker (put_task u) = pl_worker u" "pl_worker (refuse_task u) = pl_worker u" "pl_worker (take_task u) = pl_worker u"
  "pl_submit (put_task u) = pl_submit u" "pl_submit (refuse_task u) = pl_submit u" "pl_submit (take_task u) = pl_submit u"
  by (simp_all add: put_task_def refuse_task_def take_task_def)

lemma tasks_ok_frame [simp]:
  "tasks_ok (tk_work i p s) = tasks_ok s" "tasks_ok (tk_sub i q s) = tasks_ok s" "tasks_ok (pl_work i x u) = tasks_ok u"
  "tasks_ok (pl_sub i y u) = tasks_ok u" "tasks_ok (v\<lparr>ts_stop := b\<rparr>) = tasks_ok v"
  "tasks_ok (s\<lparr>tk_wait := f\<rparr>) = tasks_ok s" "tasks_ok (s\<lparr>tk_updated := f\<rparr>) = tasks_ok s" "tasks_ok (s\<lparr>tk_missed := f\<rparr>) = tasks_ok s"
  "tasks_ok (u\<lparr>pl_break := b\<rparr>) = tasks_ok u" "tasks_ok (u\<lparr>pl_worker := g\<rparr>) = tasks_ok u" "tasks_ok (u\<lparr>pl_dtor := d\<rparr>) = tasks_ok u"
  by (simp_all add: tasks_ok_def tk_work_def tk_sub_def pl_work_def pl_sub_def)

lemma fresh_head: "tasks_ok s \<Longrightarrow> ts_queue s \<noteq> [] \<Longrightarrow> hd (ts_queue s) \<notin> set (ts_begun s)"
  by (cases "ts_queue s") (auto simp: tasks_ok_def sorted_wrt_append)

text \<open>The tasks that run: begun, and each by one worker.\<close>

definition runs_ok :: "(nat \<Rightarrow> nat option) \<Rightarrow> nat list \<Rightarrow> bool" where
  "runs_ok run begun \<longleftrightarrow> (\<forall>i t. run i = Some t \<longrightarrow> t \<in> set begun) \<and> (\<forall>i j t. run i = Some t \<longrightarrow> run j = Some t \<longrightarrow> i = j)"

lemma runs_ok_other: "runs_ok run begun \<Longrightarrow> runs_ok (run(i := None)) begun"
  by (auto simp: runs_ok_def)

lemma runs_ok_take: "runs_ok run begun \<Longrightarrow> t \<notin> set begun \<Longrightarrow> runs_ok (run(i \<mapsto> t)) (begun @ [t])"
  by (auto simp: runs_ok_def)

fun task_of :: "worker_pc \<Rightarrow> nat option" where
  "task_of (WkRun t) = Some t"
| "task_of _ = None"

fun task_of_thread :: "thread_pc \<Rightarrow> nat option" where
  "task_of_thread (ThRun t) = Some t"
| "task_of_thread _ = None"

definition tk_ok :: "tk_state \<Rightarrow> bool" where
  "tk_ok s \<longleftrightarrow> tasks_ok s \<and> runs_ok (task_of \<circ> tk_worker s) (ts_begun s)"

definition pl_ok :: "pl_state \<Rightarrow> bool" where
  "pl_ok s \<longleftrightarrow> tasks_ok s \<and> runs_ok (task_of_thread \<circ> pl_worker s) (ts_begun s)"

lemma begun_frame [simp]:
  "ts_begun (tk_work i p s) = ts_begun s" "ts_begun (tk_sub i q s) = ts_begun s" "ts_begun (pl_work i x u) = ts_begun u"
  "ts_begun (pl_sub i y u) = ts_begun u" "ts_begun (put_task v) = ts_begun v" "ts_begun (refuse_task v) = ts_begun v"
  "ts_begun (take_task v) = ts_begun v @ [hd (ts_queue v)]"
  by (simp_all add: tk_work_def tk_sub_def pl_work_def pl_sub_def put_task_def refuse_task_def take_task_def)

lemma worker_frame [simp]:
  "tk_worker (tk_work i p s) = (tk_worker s)(i := p)" "tk_worker (tk_sub i q s) = tk_worker s"
  "tk_submit (tk_work i p s) = tk_submit s" "tk_submit (tk_sub i q s) = (tk_submit s)(i := q)"
  "tk_wait (tk_work i p s) = tk_wait s" "tk_wait (tk_sub i q s) = tk_wait s"
  "tk_updated (tk_work i p s) = tk_updated s" "tk_updated (tk_sub i q s) = tk_updated s"
  "tk_missed (tk_work i p s) = tk_missed s" "tk_missed (tk_sub i q s) = tk_missed s"
  "ts_queue (tk_work i p s) = ts_queue s" "ts_queue (tk_sub i q s) = ts_queue s"
  "pl_worker (pl_work i x u) = (pl_worker u)(i := x)" "pl_worker (pl_sub i y u) = pl_worker u"
  "ts_queue (put_task v) = ts_queue v @ [ts_next v]" "ts_queue (refuse_task v) = ts_queue v" "ts_queue (take_task v) = tl (ts_queue v)"
  by (simp_all add: tk_work_def tk_sub_def pl_work_def pl_sub_def put_task_def refuse_task_def take_task_def)

lemma comp_upd [simp]: "f \<circ> g(i := x) = (f \<circ> g)(i := f x)"
  by (simp add: fun_eq_iff)

lemma runs_ok_wake: "runs_ok (task_of_thread \<circ> ws) begun \<Longrightarrow> runs_ok (task_of_thread \<circ> wake_all ws) begun"
  by (auto simp: runs_ok_def wake_all_def split: if_splits)

lemma tk_step_ok: "tk_ok s \<Longrightarrow> tk_step n i s t \<Longrightarrow> tk_ok t"
  by (erule tk_step.cases) (auto simp: tk_ok_def intro!: runs_ok_other runs_ok_take put_task_ok refuse_task_ok take_task_ok dest: fresh_head)

lemma pl_step_ok: "pl_ok s \<Longrightarrow> pl_step n i s t \<Longrightarrow> pl_ok t"
  by (erule pl_step.cases)
    (auto simp: pl_ok_def intro!: runs_ok_other runs_ok_take runs_ok_wake put_task_ok refuse_task_ok take_task_ok dest: fresh_head)

lemma tk_start_ok: "tk_ok tk_start"
  by (simp add: tk_ok_def tk_start_def tasks_ok_def runs_ok_def)

lemma pl_start_ok: "pl_ok pl_start"
  by (simp add: pl_ok_def pl_start_def tasks_ok_def runs_ok_def)

lemma tasks_order:
  "tasks_ok s \<Longrightarrow> ts_begun s @ ts_queue s = ts_accepted s \<and> distinct (ts_accepted s) \<and> set (ts_begun s) \<inter> set (ts_refused s) = {}"
  using strict_sorted_iff [of "ts_accepted s"] by (auto simp: tasks_ok_def)


section \<open>Notifications of the TaskManager\<close>

text \<open>The workers a submission still has to notify.\<close>

fun to_notify :: "submit_pc \<Rightarrow> nat set" where
  "to_notify (SbNotify ws) = set ws"
| "to_notify (SbClear w ws) = insert w (set ws)"
| "to_notify _ = {}"

definition notice_ok :: "nat \<Rightarrow> tk_state \<Rightarrow> bool" where
  "notice_ok n s \<longleftrightarrow> (\<forall>w. tk_worker s w \<noteq> WkLoop \<and> tk_worker s w \<noteq> WkDone \<longrightarrow> w < n) \<and>
     (\<forall>w. tk_wait s w \<longrightarrow> tk_worker s w = WkAway \<or> tk_worker s w = WkDone) \<and> (\<forall>w. tk_worker s w = WkAway \<longrightarrow> tk_wait s w) \<and>
     (\<forall>w. (tk_worker s w = WkHang \<or> tk_worker s w = WkAway) \<longrightarrow> ts_queue s \<noteq> [] \<longrightarrow>
        \<not> tk_updated s w \<or> tk_missed s w \<or> (\<exists>i. w \<in> to_notify (tk_submit s i)))"

lemma notice_okI:
  assumes "\<And>w. tk_worker s w \<noteq> WkLoop \<Longrightarrow> tk_worker s w \<noteq> WkDone \<Longrightarrow> w < n"
    and "\<And>w. tk_wait s w \<Longrightarrow> tk_worker s w = WkAway \<or> tk_worker s w = WkDone" and "\<And>w. tk_worker s w = WkAway \<Longrightarrow> tk_wait s w"
    and "\<And>w. tk_worker s w = WkHang \<or> tk_worker s w = WkAway \<Longrightarrow> ts_queue s \<noteq> [] \<Longrightarrow> tk_updated s w \<Longrightarrow> \<not> tk_missed s w \<Longrightarrow>
      \<exists>i. w \<in> to_notify (tk_submit s i)"
  shows "notice_ok n s"
  using assms unfolding notice_ok_def by blast

lemma notice_okD:
  assumes "notice_ok n s"
  shows "tk_worker s w \<noteq> WkLoop \<Longrightarrow> tk_worker s w \<noteq> WkDone \<Longrightarrow> w < n"
    and "tk_wait s w \<Longrightarrow> tk_worker s w = WkAway \<or> tk_worker s w = WkDone" and "tk_worker s w = WkAway \<Longrightarrow> tk_wait s w"
    and "tk_worker s w = WkHang \<or> tk_worker s w = WkAway \<Longrightarrow> ts_queue s \<noteq> [] \<Longrightarrow> tk_updated s w \<Longrightarrow> \<not> tk_missed s w \<Longrightarrow>
      \<exists>i. w \<in> to_notify (tk_submit s i)"
  using assms unfolding notice_ok_def by blast+

text \<open>A step of submission \<open>i\<close> that leaves \<open>p\<close> to do.\<close>

lemma notice_submission:
  assumes ok: "notice_ok n s" and t: "tk_worker t = tk_worker s" "tk_wait t = tk_wait s" "tk_submit t = (tk_submit s)(i := p)"
    and left: "\<And>w. w < n \<Longrightarrow> ts_queue t \<noteq> [] \<Longrightarrow> tk_updated t w \<Longrightarrow> \<not> tk_missed t w \<Longrightarrow> w \<in> to_notify p \<or>
      ts_queue s \<noteq> [] \<and> tk_updated s w \<and> \<not> tk_missed s w \<and> w \<notin> to_notify (tk_submit s i)"
  shows "notice_ok n t"
proof (rule notice_okI, unfold t)
  fix w assume w: "tk_worker s w = WkHang \<or> tk_worker s w = WkAway" "ts_queue t \<noteq> []" "tk_updated t w" "\<not> tk_missed t w"
  have "w < n" using w(1) notice_okD(1) [OF ok, of w] by auto
  from left [OF this w(2-4)] show "\<exists>k. w \<in> to_notify (((tk_submit s)(i := p)) k)"
  proof
    assume "ts_queue s \<noteq> [] \<and> tk_updated s w \<and> \<not> tk_missed s w \<and> w \<notin> to_notify (tk_submit s i)"
    with notice_okD(4) [OF ok w(1)] obtain j where "w \<in> to_notify (tk_submit s j)" "j \<noteq> i" by metis
    then show ?thesis by (metis fun_upd_apply)
  qed (metis fun_upd_apply)
qed (use notice_okD [OF ok] in auto)

lemma notice_step:
  assumes ok: "notice_ok n s" and "tk_step n i s t"
  shows "notice_ok n t"
  using assms(2)
proof cases
  case submit
  then show ?thesis by (intro notice_submission [OF ok, where i = i and p = SbPut]) (auto dest: notice_okD [OF ok])
next
  case put
  then show ?thesis by (intro notice_submission [OF ok, where i = i and p = "SbNotify [0..<n]"]) auto
next
  case refused
  then show ?thesis by (intro notice_submission [OF ok, where i = i and p = "SbNotify [0..<n]"]) auto
next
  case (waiting w ws)
  then show ?thesis by (intro notice_submission [OF ok, where i = i and p = "SbClear w ws"]) auto
next
  case (running w ws)
  then show ?thesis by (intro notice_submission [OF ok, where i = i and p = "SbNotify ws"]) (auto split: if_splits)
next
  case (clear w ws)
  then show ?thesis by (intro notice_submission [OF ok, where i = i and p = "SbNotify ws"]) (auto split: if_splits)
next
  case notified
  then show ?thesis by (intro notice_submission [OF ok, where i = i and p = SbIdle]) auto
qed (rule notice_okI; (auto split: if_splits dest: notice_okD(1,2) [OF ok] notice_okD(4) [OF ok, rotated]; metis notice_okD [OF ok] worker_pc.distinct))+

lemma notice_reachable: "reachable (tk_step n) tk_start s \<Longrightarrow> notice_ok n s"
proof (erule reachable_invariant)
  show "notice_ok n tk_start" by (simp add: notice_ok_def tk_start_def)
qed (rule notice_step)

text \<open>Whatever submissions and workers do at the same time: if a task is queued and no submission has anyone left to
  notify, a worker whose routine waits has its flag cleared, so the next processor that looks at the routine lets it
  go on to the queue - unless a notification found it still running after its last look at the queue.\<close>

lemma parked_worker_wakes:
  assumes "reachable (tk_step n) tk_start s" and "ts_queue s \<noteq> []" and "tk_worker s w = WkAway"
    and "\<not> tk_missed s w" and "\<forall>i. w \<notin> to_notify (tk_submit s i)"
  shows "\<exists>t. tk_step n w s t \<and> tk_worker t w = WkLoop \<and> ts_queue t = ts_queue s"
proof -
  from notice_okD(4) [OF notice_reachable [OF assms(1)], of w] assms(2-5) have "\<not> tk_updated s w" by blast
  from tk_step.wake [OF assms(3) this, of n] show ?thesis by fastforce
qed

text \<open>States with one worker and one thread that submits.\<close>

definition tk_one :: "worker_pc \<Rightarrow> submit_pc \<Rightarrow> bool \<Rightarrow> bool \<Rightarrow> bool \<Rightarrow> nat list \<Rightarrow> tk_state" where
  "tk_one w p wt up ms q = \<lparr>ts_queue = q, ts_next = length q, ts_stop = False, ts_accepted = q, ts_refused = [], ts_begun = [],
     tk_worker = (\<lambda>_. WkLoop)(0 := w), tk_wait = (\<lambda>_. False)(0 := wt), tk_updated = (\<lambda>_. True)(0 := up),
     tk_missed = (\<lambda>_. False)(0 := ms), tk_submit = (\<lambda>_. SbIdle)(0 := p)\<rparr>"

lemma tk_then: "reachable (tk_step n) tk_start s \<Longrightarrow> tk_step n i s t' \<Longrightarrow> t' = t \<Longrightarrow> reachable (tk_step n) tk_start t"
  by (auto intro: reachable.step)

lemmas tk_eval = tk_one_def tk_work_def tk_sub_def put_task_def

lemma tk_one_hangs: "reachable (tk_step 1) tk_start (tk_one WkHang SbIdle False True False [])"
proof -
  have "reachable (tk_step 1) tk_start (tk_one WkLoop SbIdle False True False [])"
    using reachable.start [of "tk_step 1" tk_start] by (simp add: tk_one_def tk_start_def fun_upd_idem)
  from tk_then [OF this tk_step.loop [where i = 0]] have "reachable (tk_step 1) tk_start (tk_one WkDequeue SbIdle False True False [])"
    by (simp add: tk_eval)
  from tk_then [OF this tk_step.none [where i = 0]] show ?thesis by (simp add: tk_eval)
qed


lemma parked_worker_wakes_witness:
  "\<exists>s t. reachable (tk_step 1) tk_start s \<and> ts_queue s = [0] \<and> tk_worker s 0 = WkAway \<and> tk_step 1 0 s t \<and> tk_worker t 0 = WkLoop"
proof -
  let ?R = "reachable (tk_step 1) tk_start"
  from tk_then [OF tk_one_hangs tk_step.hang_up [where i = 0]] have "?R (tk_one WkAway SbIdle True True False [])" by (simp add: tk_eval)
  from tk_then [OF this tk_step.submit [where i = 0]] have "?R (tk_one WkAway SbPut True True False [])" by (simp add: tk_eval)
  from tk_then [OF this tk_step.put [where i = 0]] have "?R (tk_one WkAway (SbNotify [0]) True True False [0])" by (simp add: tk_eval)
  from tk_then [OF this tk_step.waiting [where i = 0]] have "?R (tk_one WkAway (SbClear 0 []) True True False [0])" by (simp add: tk_eval)
  from tk_then [OF this tk_step.clear [where i = 0]] have "?R (tk_one WkAway (SbNotify []) True False False [0])" by (simp add: tk_eval)
  from tk_then [OF this tk_step.notified [where i = 0]] have r: "?R (tk_one WkAway SbIdle True False False [0])" by (simp add: tk_eval)
  have "ts_queue (tk_one WkAway SbIdle True False False [0]) \<noteq> []" "tk_worker (tk_one WkAway SbIdle True False False [0]) 0 = WkAway"
    "\<not> tk_missed (tk_one WkAway SbIdle True False False [0]) 0"
    "\<forall>i. 0 \<notin> to_notify (tk_submit (tk_one WkAway SbIdle True False False [0]) i)" by (simp_all add: tk_one_def)
  from parked_worker_wakes [OF r this] r show ?thesis by (fastforce simp: tk_one_def)
qed

text \<open>The window exists: \<open>NotifyProcessor\<close> clears the flag only of a routine that waits already, and \<open>TaskManager\<close> looks at
  the queue before its routine waits. A task submitted in between stays in the queue while every worker waits and
  nothing but a further submission or the shutdown can happen.\<close>

lemma task_stranded:
  "\<exists>s. reachable (tk_step 1) tk_start s \<and> ts_queue s = [0] \<and> tk_worker s 0 = WkAway \<and> (\<forall>i. tk_submit s i = SbIdle) \<and>
     (\<forall>i t. tk_step 1 i s t \<longrightarrow> ts_stop t \<or> tk_submit t i = SbPut)"
proof -
  let ?R = "reachable (tk_step 1) tk_start"
  from tk_then [OF tk_one_hangs tk_step.submit [where i = 0]] have "?R (tk_one WkHang SbPut False True False [])" by (simp add: tk_eval)
  from tk_then [OF this tk_step.put [where i = 0]] have "?R (tk_one WkHang (SbNotify [0]) False True False [0])" by (simp add: tk_eval)
  from tk_then [OF this tk_step.running [where i = 0]] have "?R (tk_one WkHang (SbNotify []) False True True [0])" by (simp add: tk_eval)
  from tk_then [OF this tk_step.notified [where i = 0]] have "?R (tk_one WkHang SbIdle False True True [0])" by (simp add: tk_eval)
  from tk_then [OF this tk_step.hang_up [where i = 0]] have "?R (tk_one WkAway SbIdle True True True [0])" by (simp add: tk_eval)
  moreover have "ts_stop t \<or> tk_submit t i = SbPut" if "tk_step 1 i (tk_one WkAway SbIdle True True True [0]) t" for i t
    using that by (cases rule: tk_step.cases) (auto simp: tk_one_def tk_sub_def split: if_splits)
  ultimately show ?thesis by (intro exI [of _ "tk_one WkAway SbIdle True True True [0]"]) (simp add: tk_one_def)
qed

section \<open>Ending the ThreadPool\<close>

definition pl_one :: "thread_pc \<Rightarrow> bool \<Rightarrow> bool \<Rightarrow> dtor_pc \<Rightarrow> pl_state" where
  "pl_one w st br d = \<lparr>ts_queue = [], ts_next = 0, ts_stop = st, ts_accepted = [], ts_refused = [], ts_begun = [],
     pl_break = br, pl_worker = (\<lambda>_. ThTest)(0 := w), pl_submit = (\<lambda>_. PlIdle), pl_dtor = d\<rparr>"

lemma pl_then: "reachable (pl_step n) pl_start s \<Longrightarrow> pl_step n i s t' \<Longrightarrow> t' = t \<Longrightarrow> reachable (pl_step n) pl_start t"
  by (auto intro: reachable.step)

lemma wake_none: "wake_all ((\<lambda>_. ThTest)(0 := ThWait)) = (\<lambda>_. ThTest)(0 := ThWait)"
  by (simp add: wake_all_def fun_eq_iff)

text \<open>The destructor may wait for ever: a worker that looked at \<open>break_all_wait_\<close> and at the queue before the destructor
  set it sleeps after \<open>notify_all\<close>, and then only a spurious wake-up of the condition variable helps.\<close>

lemma pool_destructor_may_hang:
  "\<exists>s. reachable (pl_step 1) pl_start s \<and> pl_dtor s = DtJoin \<and> pl_worker s 0 = ThAsleep \<and>
     (\<forall>i t. pl_step 1 i s t \<longrightarrow> i = 0 \<and> t = pl_work 0 ThHead s)"
proof -
  let ?R = "reachable (pl_step 1) pl_start"
  have "?R (pl_one ThTest False False DtNone)"
    using reachable.start [of "pl_step 1" pl_start] by (simp add: pl_one_def pl_start_def fun_upd_idem)
  from pl_then [OF this pl_step.loop [where i = 0]] have "?R (pl_one ThHead False False DtNone)" by (simp add: pl_one_def pl_work_def)
  from pl_then [OF this pl_step.head [where i = 0]] have "?R (pl_one ThDequeue False False DtNone)" by (simp add: pl_one_def pl_work_def)
  from pl_then [OF this pl_step.none [where i = 0]] have "?R (pl_one ThWait False False DtNone)" by (simp add: pl_one_def pl_work_def)
  from pl_then [OF this pl_step.destroy [where i = 0]] have "?R (pl_one ThWait True False DtBreak)" by (simp add: pl_one_def)
  from pl_then [OF this pl_step.break_wait [where i = 0]] have "?R (pl_one ThWait True True DtNotify)" by (simp add: pl_one_def)
  from pl_then [OF this pl_step.break_notify [where i = 0]] have "?R (pl_one ThWait True True DtJoin)"
    by (simp add: pl_one_def wake_none)
  from pl_then [OF this pl_step.wait [where i = 0]] have "?R (pl_one ThAsleep True True DtJoin)" by (simp add: pl_one_def pl_work_def)
  moreover have "i = 0 \<and> t = pl_work 0 ThHead (pl_one ThAsleep True True DtJoin)" if "pl_step 1 i (pl_one ThAsleep True True DtJoin) t" for i t
    using that by (cases rule: pl_step.cases) (auto simp: pl_one_def split: if_splits)
  ultimately show ?thesis by (intro exI [of _ "pl_one ThAsleep True True DtJoin"]) (simp add: pl_one_def)
qed

end
