(* ===== verification/Cpu_Sets.thy ===== *)
theory Cpu_Sets
  imports Topology_Manager Scheduler_Classic
begin

text \<open>
  Where threads run: \<open>scheduler/common/pin_thread.cpp\<close>, and the two users of it in \<open>scheduler/scheduler.cpp\<close>. The
  calls to the operating system are answers: the cpus a thread is bound to, the policy and priority that are
  asked for, \<open>None\<close> when the function makes no call. \<open>CPU_SET\<close> ignores cpus that are not in a \<open>cpu_set_t\<close>.
\<close>

section \<open>Parsing cpu sets\<close>

text \<open>\<open>while (getline(ss, l, d))\<close> over a string: a delimiter at the end does not start a further piece.\<close>

function getlines :: "char \<Rightarrow> string \<Rightarrow> string list" where
  "getlines d str = (if str = [] then [] else takeWhile (\<lambda>c. c \<noteq> d) str # getlines d (drop 1 (dropWhile (\<lambda>c. c \<noteq> d) str)))"
  by pat_completeness auto

termination
proof (relation "measure (\<lambda>(d, str). length str)")
  fix d str assume "str \<noteq> ([] :: string)"
  then show "((d, drop 1 (dropWhile (\<lambda>c. c \<noteq> d) str)), d, str) \<in> measure (\<lambda>(d, str). length str)"
    using length_dropWhile_le [of "\<lambda>c. c \<noteq> d" str] by (cases str) auto
qed simp

declare getlines.simps [simp del]

text \<open>What ends \<open>ParseCpuset\<close> early: an exception of \<open>stoi\<close>, \<open>exit(0)\<close>, and a range up to the largest \<open>int\<close>, which is
  never left.\<close>

datatype cpuset_error = NotANumber | FormatError | NoEnd

definition parse_range :: "string \<Rightarrow> cpuset_error + int list" where
  "parse_range line = (case getlines (CHR ''-'') line of
     [a] \<Rightarrow> (case stoi a of None \<Rightarrow> Inl NotANumber | Some i \<Rightarrow> Inr [i])
   | [a, b] \<Rightarrow> (case stoi a of None \<Rightarrow> Inl NotANumber
       | Some i \<Rightarrow> (case stoi b of None \<Rightarrow> Inl NotANumber
           | Some e \<Rightarrow> if e = 2 ^ 31 - 1 then Inl NoEnd else Inr [i..e]))
   | _ \<Rightarrow> Inl FormatError)"

fun parse_ranges :: "string list \<Rightarrow> int list \<Rightarrow> cpuset_error + int list" where
  "parse_ranges [] cpuset = Inr cpuset"
| "parse_ranges (line # lines) cpuset = sbind (parse_range line) (\<lambda>cpus. parse_ranges lines (cpuset @ cpus))"

definition parse_cpuset :: "string \<Rightarrow> int list \<Rightarrow> cpuset_error + int list" where
  "parse_cpuset str cpuset = parse_ranges (getlines (CHR '','') str) cpuset"

section \<open>Affinity and policy\<close>

definition cpu_set :: "int list \<Rightarrow> int set" where
  "cpu_set cpus = set (filter (\<lambda>cpu. 0 \<le> cpu \<and> cpu < 1024) cpus)"

definition set_sched_affinity :: "int list \<Rightarrow> string \<Rightarrow> int \<Rightarrow> int set option" where
  "set_sched_affinity cpus affinity cpu_id =
     (if cpus = [] then None
      else if affinity \<noteq> ''range'' then Some (cpu_set cpus)
      else if affinity = ''1to1'' then
        (if cpu_id = - 1 \<or> int (length cpus) \<le> cpu_id mod 2 ^ 32 then None
         else Some (cpu_set [cpus ! nat (cpu_id mod 2 ^ 32)]))
      else None)"

datatype sched_call = SetSchedParam string int | SetPriority int int

definition set_sched_policy :: "string \<Rightarrow> int \<Rightarrow> int \<Rightarrow> sched_call option" where
  "set_sched_policy spolicy sched_priority tid =
     (let sp = 0
      in if spolicy = ''SCHED_FIFO'' then Some (SetSchedParam spolicy sp)
         else if spolicy = ''SCHED_RR'' then Some (SetSchedParam spolicy sp)
         else if spolicy = ''SCHED_OTHER'' then Some (SetPriority tid sched_priority) else None)"

definition process_level_resource_control :: "string \<Rightarrow> cpuset_error + int set" where
  "process_level_resource_control process_level_cpuset = map_sum id cpu_set (parse_cpuset process_level_cpuset [])"

text \<open>The calls for a named thread of the process; the default id of \<open>SetSchedPolicy\<close> is \<open>- 1\<close>.\<close>

definition set_inner_thread_attr :: "(string \<Rightarrow> inner_thread option) \<Rightarrow> string \<Rightarrow> cpuset_error + (int set option \<times> sched_call option)" where
  "set_inner_thread_attr inner_thr_confs name =
     (case inner_thr_confs name of None \<Rightarrow> Inr (None, None)
      | Some th_conf \<Rightarrow> map_sum id (\<lambda>cpus. (set_sched_affinity cpus ''range'' (- 1), set_sched_policy (it_policy th_conf) (sint (it_prio th_conf)) (- 1)))
          (parse_cpuset (it_cpuset th_conf) []))"

section \<open>Printed sets are read back\<close>

lemma getlines_Nil [simp]: "getlines d [] = []"
  by (simp add: getlines.simps)

lemma getlines_one: "d \<notin> set x \<Longrightarrow> x \<noteq> [] \<Longrightarrow> getlines d x = [x]"
proof -
  assume x: "d \<notin> set x" "x \<noteq> []"
  then have pieces: "takeWhile (\<lambda>c. c \<noteq> d) x = x" "dropWhile (\<lambda>c. c \<noteq> d) x = []" by (auto simp: takeWhile_eq_all_conv)
  show ?thesis unfolding getlines.simps [of d x] pieces using x(2) by simp
qed

lemma getlines_more: "d \<notin> set x \<Longrightarrow> getlines d (x @ d # rest) = x # getlines d rest"
proof -
  assume x: "d \<notin> set x"
  then have "takeWhile (\<lambda>c. c \<noteq> d) (x @ d # rest) = x" "dropWhile (\<lambda>c. c \<noteq> d) (x @ d # rest) = d # rest"
    by (auto simp: takeWhile_append dropWhile_append)
  then show ?thesis by (simp add: getlines.simps [of d "x @ d # rest"])
qed

lemma to_string_plain:
  assumes "0 \<le> i"
  shows "to_string i \<noteq> []" and "CHR '','' \<notin> set (to_string i)" and "CHR ''-'' \<notin> set (to_string i)"
proof -
  have "\<forall>c \<in> set (to_string i). is_digit c" using assms dec_digits by (simp add: to_string_def)
  moreover have "\<not> is_digit (CHR '','')" "\<not> is_digit (CHR ''-'')" by (simp_all add: is_digit_def)
  ultimately show "CHR '','' \<notin> set (to_string i)" "CHR ''-'' \<notin> set (to_string i)" by blast+
  show "to_string i \<noteq> []" using assms dec_nonempty by (simp add: to_string_def)
qed

text \<open>A set is written as single cpus and ranges \<open>a-b\<close>, separated by commas.\<close>

fun show_range :: "int \<times> int option \<Rightarrow> string" where
  "show_range (a, None) = to_string a"
| "show_range (a, Some b) = to_string a @ CHR ''-'' # to_string b"

fun show_ranges :: "(int \<times> int option) list \<Rightarrow> string" where
  "show_ranges [] = []"
| "show_ranges [r] = show_range r"
| "show_ranges (r # rs) = show_range r @ CHR '','' # show_ranges rs"

fun range_cpus :: "int \<times> int option \<Rightarrow> int list" where
  "range_cpus (a, None) = [a]"
| "range_cpus (a, Some b) = [a..b]"

fun range_fits :: "int \<times> int option \<Rightarrow> bool" where
  "range_fits (a, None) \<longleftrightarrow> 0 \<le> a \<and> a < 2 ^ 31"
| "range_fits (a, Some b) \<longleftrightarrow> 0 \<le> a \<and> a < 2 ^ 31 \<and> 0 \<le> b \<and> b < 2 ^ 31 - 1"

lemma parse_show_range:
  assumes "range_fits r"
  shows "parse_range (show_range r) = Inr (range_cpus r)" and "CHR '','' \<notin> set (show_range r)" and "show_range r \<noteq> []"
  using assms
  by (cases r rule: range_cpus.cases;
      auto simp: parse_range_def getlines_one getlines_more to_string_plain stoi_to_string)+

lemma getlines_show_ranges:
  "\<forall>r \<in> set rs. range_fits r \<Longrightarrow> getlines (CHR '','') (show_ranges rs) = map show_range rs"
  by (induction rs rule: show_ranges.induct) (auto simp: getlines_one getlines_more parse_show_range)

text \<open>\<open>ParseCpuset\<close> reads back every printed set of cpus and ranges that an \<open>int\<close> can hold and appends its cpus in
  order; the empty set is read from the empty string.\<close>

lemma cpuset_round_trip:
  assumes "\<forall>r \<in> set rs. range_fits r"
  shows "parse_cpuset (show_ranges rs) cpuset = Inr (cpuset @ concat (map range_cpus rs))"
proof -
  have "parse_ranges (map show_range rs) cpuset = Inr (cpuset @ concat (map range_cpus rs))"
    using assms by (induction rs arbitrary: cpuset) (auto simp: parse_show_range)
  then show ?thesis using getlines_show_ranges [OF assms] by (simp add: parse_cpuset_def)
qed

lemma cpuset_round_trip_witness:
  "parse_cpuset (show_ranges [(0, Some 2), (5, None)]) [] = Inr [0, 1, 2, 5]"
  using cpuset_round_trip [of "[(0, Some 2), (5, None)]" "[]"] by (simp add: upto.simps)

section \<open>What affinity does\<close>

text \<open>The comparison with \<open>range\<close> is inverted: for a thread with a set of cpus the affinity \<open>range\<close> sets nothing, every
  other one, \<open>1to1\<close> included, binds the thread to the whole set, and no affinity and no number of the thread binds it
  to a cpu of its own. Threads of the process that have a set of cpus (\<open>SetInnerThreadAttr\<close>) are never bound.\<close>

lemma affinity_inverted:
  "set_sched_affinity cpus ''range'' cpu_id = None \<and>
   set_sched_affinity cpus ''1to1'' cpu_id = (if cpus = [] then None else Some (cpu_set cpus)) \<and>
   set_sched_affinity cpus affinity cpu_id \<in> {None, Some (cpu_set cpus)} \<and>
   (\<exists>policy. set_inner_thread_attr confs name \<in> range Inl \<union> {Inr (None, policy)})"
proof -
  have "\<exists>policy. set_inner_thread_attr confs name \<in> range Inl \<union> {Inr (None, policy)}"
  proof (cases "confs name")
    case (Some conf)
    then show ?thesis by (cases "parse_cpuset (it_cpuset conf) []") (simp_all add: set_inner_thread_attr_def set_sched_affinity_def)
  qed (simp add: set_inner_thread_attr_def)
  then show ?thesis by (simp add: set_sched_affinity_def)
qed

text \<open>Real-time policies are always asked for with priority 0, which the operating system refuses.\<close>

lemma realtime_priority_dropped:
  "policy = ''SCHED_FIFO'' \<or> policy = ''SCHED_RR'' \<Longrightarrow> set_sched_policy policy prio tid = Some (SetSchedParam policy 0)"
  by (auto simp: set_sched_policy_def)

lemma cpuset_errors:
  "parse_cpuset ''0,,1'' cs = Inl FormatError" "parse_cpuset ''1-2-3'' cs = Inl FormatError" "parse_cpuset ''a'' cs = Inl NotANumber"
  "parse_cpuset ''0-2147483647'' cs = Inl NoEnd" "parse_cpuset ''3-1'' cs = Inr cs"
  by (simp_all add: parse_cpuset_def parse_range_def getlines.simps stoi_def is_space_def is_digit_def digits_value_def upto.simps)

end
