(* ===== verification/Notifiers.thy ===== *)
theory Notifiers
  imports Shm_Format
begin

text \<open>
  How notifiers come and go: the System V segment of the \<open>ConditionNotifier\<close> (\<open>transport/shm/condition_notifier.cpp\<close>;
  the protocol on the ring inside it is in \<open>Condition_Notifier\<close>), the sockets of the \<open>MulticastNotifier\<close>
  (\<open>multicast_notifier.cpp\<close>) and the choice between them (\<open>notifier_factory.cpp\<close>). The operating system is the
  set of segments and the answers of its calls; of the ring only the next sequence number is kept.
\<close>

section \<open>ConditionNotifier: the segment\<close>

text \<open>The segment the key names, the rings in all segments, the largest size, and the next address.\<close>

record sysv =
  sv_key :: "nat option"
  sv_rings :: "nat \<Rightarrow> u64 option"
  sv_limit :: nat
  sv_fresh :: nat

datatype shmget_result = ShmId nat | EINVAL | EEXIST | ENOENT

definition shmget_create :: "nat \<Rightarrow> sysv \<Rightarrow> shmget_result \<times> sysv" where
  "shmget_create bytes w =
     (if sv_key w \<noteq> None then (EEXIST, w) else if sv_limit w < bytes then (EINVAL, w)
      else (ShmId (sv_fresh w), w\<lparr>sv_key := Some (sv_fresh w), sv_fresh := sv_fresh w + 1\<rparr>))"

definition shmget_open :: "sysv \<Rightarrow> shmget_result" where
  "shmget_open w = (case sv_key w of None \<Rightarrow> ENOENT | Some a \<Rightarrow> ShmId a)"

text \<open>\<open>IPC_RMID\<close> takes the segment away from the key; those who have it mapped keep it.\<close>

definition ipc_rmid :: "nat \<Rightarrow> sysv \<Rightarrow> sysv" where
  "ipc_rmid a w = (if sv_key w = Some a then w\<lparr>sv_key := None\<rparr> else w)"

text \<open>\<open>managed_shm_\<close>: null, the value of a failed \<open>shmat\<close>, or a mapped segment.\<close>

datatype mapping_ptr = NullMap | BadMap | MapAt nat

record cond_notifier =
  cn_managed_shm :: mapping_ptr
  cn_shm_size :: nat
  cn_indicator :: "nat option"
  cn_next_seq :: u64
  cn_shutdown :: bool

definition cn_reset :: "cond_notifier \<Rightarrow> cond_notifier" where
  "cn_reset cn = cn\<lparr>cn_indicator := None, cn_managed_shm := NullMap\<rparr>"

definition cn_remove :: "sysv \<Rightarrow> bool \<times> sysv" where
  "cn_remove w = (case shmget_open w of ShmId a \<Rightarrow> (True, ipc_rmid a w) | _ \<Rightarrow> (False, w))"

text \<open>\<open>attach\<close> tells whether \<open>shmat\<close> succeeds.\<close>

definition cn_open_only :: "bool \<Rightarrow> cond_notifier \<Rightarrow> sysv \<Rightarrow> bool \<times> cond_notifier \<times> sysv" where
  "cn_open_only attach cn w =
     (case shmget_open w of
        ShmId a \<Rightarrow> if \<not> attach then (False, cn\<lparr>cn_managed_shm := BadMap\<rparr>, ipc_rmid a w)
          else (True, cn\<lparr>cn_managed_shm := MapAt a, cn_indicator := Some a\<rparr>, w)
      | _ \<Rightarrow> (False, cn, w))"

fun cn_create_retry :: "nat \<Rightarrow> bool \<Rightarrow> cond_notifier \<Rightarrow> sysv \<Rightarrow> bool \<times> cond_notifier \<times> sysv" where
  "cn_create_retry 0 attach cn w = (False, cn, w)"
| "cn_create_retry (Suc n) attach cn w =
     (case shmget_create (cn_shm_size cn) w of
        (ShmId a, w1) \<Rightarrow> if \<not> attach then (False, cn\<lparr>cn_managed_shm := BadMap\<rparr>, ipc_rmid a w1)
          else (True, cn\<lparr>cn_managed_shm := MapAt a, cn_indicator := Some a\<rparr>, w1\<lparr>sv_rings := (sv_rings w1)(a \<mapsto> 0)\<rparr>)
      | (EINVAL, w1) \<Rightarrow> cn_create_retry n attach (cn_reset cn) (snd (cn_remove w1))
      | (EEXIST, w1) \<Rightarrow> cn_open_only attach cn w1
      | (ENOENT, w1) \<Rightarrow> (False, cn, w1))"

definition cn_open_or_create :: "bool \<Rightarrow> cond_notifier \<Rightarrow> sysv \<Rightarrow> bool \<times> cond_notifier \<times> sysv" where
  "cn_open_or_create attach cn w = cn_create_retry 2 attach cn w"

text \<open>The constructor; \<open>None\<close> where it follows a null pointer.\<close>

definition cn_new :: "nat \<Rightarrow> bool \<Rightarrow> sysv \<Rightarrow> (cond_notifier \<times> sysv) option" where
  "cn_new bytes attach w =
     (case cn_open_or_create attach \<lparr>cn_managed_shm = NullMap, cn_shm_size = bytes, cn_indicator = None, cn_next_seq = 0, cn_shutdown = False\<rparr> w of
        (False, cn, w1) \<Rightarrow> Some (cn\<lparr>cn_shutdown := True\<rparr>, w1)
      | (True, cn, w1) \<Rightarrow> (case Option.bind (cn_indicator cn) (sv_rings w1) of None \<Rightarrow> None
          | Some n \<Rightarrow> Some (cn\<lparr>cn_next_seq := n\<rparr>, w1)))"

definition cn_do_shutdown :: "cond_notifier \<Rightarrow> cond_notifier" where
  "cn_do_shutdown cn = (if cn_shutdown cn then cn else cn_reset (cn\<lparr>cn_shutdown := True\<rparr>))"

text \<open>The first step of \<open>Notify\<close>, which takes a sequence number: none after a shutdown.\<close>

definition cn_take_seq :: "cond_notifier \<Rightarrow> sysv \<Rightarrow> (u64 option \<times> sysv) option" where
  "cn_take_seq cn w =
     (if cn_shutdown cn then Some (None, w)
      else case cn_indicator cn of None \<Rightarrow> None
        | Some a \<Rightarrow> (case sv_rings w a of None \<Rightarrow> None
            | Some n \<Rightarrow> Some (Some n, w\<lparr>sv_rings := (sv_rings w)(a \<mapsto> n + 1)\<rparr>)))"

section \<open>Many processes\<close>

text \<open>The notifier of each process, and as history the sequence numbers handed out.\<close>

record notifiers =
  nf_world :: sysv
  nf_of :: "nat \<Rightarrow> cond_notifier option"
  nf_seqs :: "u64 list"

datatype notifier_op = MakeNotifier nat bool | ShutNotifier nat | TakeSeq nat

definition nf_start :: "nat \<Rightarrow> notifiers" where
  "nf_start limit = \<lparr>nf_world = \<lparr>sv_key = None, sv_rings = (\<lambda>_. None), sv_limit = limit, sv_fresh = 0\<rparr>, nf_of = (\<lambda>_. None), nf_seqs = []\<rparr>"

text \<open>An operation of a process; \<open>None\<close> where it follows a null pointer. A process makes its notifier once.\<close>

fun nf_op :: "nat \<Rightarrow> notifier_op \<Rightarrow> notifiers \<Rightarrow> notifiers option" where
  "nf_op bytes (MakeNotifier i attach) s =
     (if nf_of s i \<noteq> None then Some s
      else map_option (\<lambda>(cn, w). s\<lparr>nf_of := (nf_of s)(i \<mapsto> cn), nf_world := w\<rparr>) (cn_new bytes attach (nf_world s)))"
| "nf_op bytes (ShutNotifier i) s = Some (s\<lparr>nf_of := (nf_of s)(i := map_option cn_do_shutdown (nf_of s i))\<rparr>)"
| "nf_op bytes (TakeSeq i) s =
     (case nf_of s i of None \<Rightarrow> Some s
      | Some cn \<Rightarrow> map_option (\<lambda>(r, w). s\<lparr>nf_world := w, nf_seqs := nf_seqs s @ (case r of None \<Rightarrow> [] | Some n \<Rightarrow> [n])\<rparr>)
          (cn_take_seq cn (nf_world s)))"

fun nf_run :: "nat \<Rightarrow> notifier_op list \<Rightarrow> notifiers \<Rightarrow> notifiers option" where
  "nf_run bytes [] s = Some s"
| "nf_run bytes (op # ops) s = Option.bind (nf_op bytes op s) (nf_run bytes ops)"

fun attaches :: "notifier_op \<Rightarrow> bool" where
  "attaches (MakeNotifier i attach) = attach"
| "attaches _ = True"

text \<open>All processes share the ring of the key, whose next number is the number of those handed out.\<close>

definition nf_ok :: "notifiers \<Rightarrow> bool" where
  "nf_ok s \<longleftrightarrow> nf_seqs s = map of_nat [0..<length (nf_seqs s)] \<and>
     (\<forall>i cn. nf_of s i = Some cn \<longrightarrow> \<not> cn_shutdown cn \<longrightarrow> (\<exists>a. cn_indicator cn = Some a \<and> sv_key (nf_world s) = Some a)) \<and>
     (case sv_key (nf_world s) of None \<Rightarrow> nf_seqs s = [] | Some a \<Rightarrow> sv_rings (nf_world s) a = Some (of_nat (length (nf_seqs s))))"

lemma cn_new_attached:
  assumes "bytes \<le> sv_limit w" and "case sv_key w of None \<Rightarrow> True | Some a \<Rightarrow> sv_rings w a \<noteq> None"
  shows "\<exists>cn a. cn_new bytes True w = Some (cn, if sv_key w = None
      then w\<lparr>sv_key := Some (sv_fresh w), sv_fresh := sv_fresh w + 1, sv_rings := (sv_rings w)(sv_fresh w \<mapsto> 0)\<rparr> else w) \<and>
    \<not> cn_shutdown cn \<and> cn_indicator cn = Some a \<and> a = (case sv_key w of None \<Rightarrow> sv_fresh w | Some a \<Rightarrow> a)"
  using assms
  by (auto simp: cn_new_def cn_open_or_create_def numeral_2_eq_2 shmget_create_def cn_open_only_def shmget_open_def split: option.splits)

lemma nf_op_ok:
  assumes ok: "nf_ok s" and bytes: "bytes \<le> sv_limit (nf_world s)" and att: "attaches op"
  shows "\<exists>t. nf_op bytes op s = Some t \<and> nf_ok t \<and> sv_limit (nf_world t) = sv_limit (nf_world s)"
proof (cases op)
  case (MakeNotifier i attach)
  show ?thesis
  proof (cases "nf_of s i")
    case None
    have "case sv_key (nf_world s) of None \<Rightarrow> True | Some a \<Rightarrow> sv_rings (nf_world s) a \<noteq> None"
      using ok by (auto simp: nf_ok_def split: option.splits)
    from cn_new_attached [OF bytes this] att None show ?thesis
      using ok by (fastforce simp: MakeNotifier nf_ok_def split: option.splits if_splits)
  qed (use ok MakeNotifier in simp)
next
  case (ShutNotifier i)
  then show ?thesis using ok by (auto simp: nf_ok_def cn_do_shutdown_def cn_reset_def split: if_splits option.splits)
next
  case (TakeSeq i)
  show ?thesis
  proof (cases "nf_of s i")
    case (Some cn)
    show ?thesis
    proof (cases "cn_shutdown cn")
      case False
      with ok Some obtain a where a: "cn_indicator cn = Some a" "sv_key (nf_world s) = Some a"
        "sv_rings (nf_world s) a = Some (of_nat (length (nf_seqs s)))" by (fastforce simp: nf_ok_def split: option.splits)
      with ok Some False show ?thesis by (auto simp: TakeSeq cn_take_seq_def nf_ok_def)
    qed (use ok Some TakeSeq in \<open>simp add: cn_take_seq_def nf_ok_def\<close>)
  qed (use ok TakeSeq in simp)
qed



text \<open>A process that cannot attach removes the ring from the key although it did not create it; the notifier of the next
  process makes a ring of its own, on which it hears nothing of the processes before it.\<close>

lemma failed_attach_splits_ring:
  "\<exists>s cn0 cn2. nf_run 5 [MakeNotifier 0 True, MakeNotifier 1 False, MakeNotifier 2 True] (nf_start 9) = Some s \<and>
     nf_of s 0 = Some cn0 \<and> nf_of s 2 = Some cn2 \<and> \<not> cn_shutdown cn0 \<and> \<not> cn_shutdown cn2 \<and> cn_indicator cn0 \<noteq> cn_indicator cn2"
  by (simp add: nf_start_def cn_new_def cn_open_or_create_def numeral_2_eq_2 shmget_create_def cn_open_only_def shmget_open_def ipc_rmid_def)

section \<open>MulticastNotifier\<close>

text \<open>The results of the seven calls of \<open>Init\<close>.\<close>

record socket_calls =
  sk_notify :: int
  sk_listen :: int
  sk_nonblock :: int
  sk_reuse :: int
  sk_bind :: int
  sk_loop :: int
  sk_member :: int

record multicast =
  mn_notify_fd :: int
  mn_listen_fd :: int
  mn_shutdown :: bool

definition mn_init :: "socket_calls \<Rightarrow> multicast \<Rightarrow> bool \<times> multicast" where
  "mn_init sk mn =
     (let m1 = mn\<lparr>mn_notify_fd := sk_notify sk\<rparr>; m2 = m1\<lparr>mn_listen_fd := sk_listen sk\<rparr>
      in if sk_notify sk = - 1 then (False, m1) else if sk_listen sk = - 1 then (False, m2)
         else if sk_nonblock sk = - 1 then (False, m2) else if sk_reuse sk < 0 then (False, m2)
         else if sk_bind sk < 0 then (False, m2) else if sk_loop sk < 0 then (False, m2)
         else if sk_member sk < 0 then (False, m2) else (True, m2))"

text \<open>The descriptors \<open>Shutdown\<close> closes, in order.\<close>

definition mn_do_shutdown :: "multicast \<Rightarrow> int list \<times> multicast" where
  "mn_do_shutdown mn =
     (if mn_shutdown mn then ([], mn)
      else (filter (\<lambda>fd. fd \<noteq> - 1) [mn_notify_fd mn, mn_listen_fd mn], \<lparr>mn_notify_fd = - 1, mn_listen_fd = - 1, mn_shutdown = True\<rparr>))"

definition mn_new :: "socket_calls \<Rightarrow> int list \<times> multicast" where
  "mn_new sk = (case mn_init sk \<lparr>mn_notify_fd = - 1, mn_listen_fd = - 1, mn_shutdown = False\<rparr> of
     (True, mn) \<Rightarrow> ([], mn) | (False, mn) \<Rightarrow> mn_do_shutdown mn)"

text \<open>\<open>Notify\<close> sends a datagram, of which \<open>sendto\<close> tells how much was sent.\<close>

definition mn_notify :: "byte_order \<Rightarrow> (byte list \<Rightarrow> int) \<Rightarrow> readable_info \<Rightarrow> multicast \<Rightarrow> bool \<times> byte list option" where
  "mn_notify h sendto info mn =
     (if mn_shutdown mn then (False, None)
      else let info_str = readable_serialize_to h info in (0 < sendto info_str, Some info_str))"

text \<open>\<open>Listen\<close> takes what \<open>poll\<close> answers and the datagram \<open>recvfrom\<close> finds, \<open>None\<close> when it fails; a longer one is cut to
  the 32 bytes of the buffer.\<close>

definition mn_listen :: "byte_order \<Rightarrow> int \<Rightarrow> byte list option \<Rightarrow> readable_info option \<Rightarrow> multicast \<Rightarrow> bool \<times> readable_info option" where
  "mn_listen h ready_num datagram info mn =
     (if mn_shutdown mn then (False, info)
      else case info of None \<Rightarrow> (False, None)
        | Some ri \<Rightarrow> if 0 < ready_num then
            (case datagram of None \<Rightarrow> (False, info)
             | Some bs \<Rightarrow> map_prod id Some (readable_deserialize_from h (Some (take 32 bs)) ri))
          else (False, info))"

text \<open>A constructor that fails leaves no descriptor open, and a shutdown closes each open one once.\<close>

lemma multicast_descriptors:
  "mn_shutdown (snd (mn_new sk)) \<Longrightarrow> set (fst (mn_new sk)) \<union> {- 1} \<supseteq> {sk_notify sk} \<union> (if sk_notify sk = - 1 then {} else {sk_listen sk})"
  "\<not> mn_shutdown (snd (mn_new sk)) \<Longrightarrow> fst (mn_do_shutdown (snd (mn_new sk))) = [sk_notify sk, sk_listen sk]"
  "fst (mn_do_shutdown (snd (mn_do_shutdown mn))) = []"
  by (auto simp: mn_new_def mn_init_def mn_do_shutdown_def Let_def split: if_splits)

text \<open>What one process announces, another one of the same byte order reads, whatever the datagram is padded with.\<close>

lemma multicast_round_trip:
  assumes "\<not> mn_shutdown mn" and "\<not> mn_shutdown mn'" and "0 < ready_num"
  shows "\<exists>bs. mn_notify h sendto info mn = (0 < sendto bs, Some bs) \<and> mn_listen h ready_num (Some (bs @ rest)) (Some ri) mn' = (True, Some info)"
proof -
  have "length (readable_serialize_to h info) = 20" by (simp add: readable_serialize_to_def)
  then have "take 32 (readable_serialize_to h info @ rest) = readable_serialize_to h info @ take 12 rest" by simp
  moreover have "readable_deserialize_from h (Some (readable_serialize_to h info @ ys)) ri = (True, info)" for ys
    by (simp add: readable_deserialize_from_def readable_serialize_to_def readable_ksize_def of_host_bytes_host_bytes)
  ultimately show ?thesis using assms by (simp add: mn_notify_def mn_listen_def Let_def)
qed

section \<open>NotifierFactory\<close>

datatype notifier_kind = ConditionKind | MulticastKind

definition condition_type :: string where "condition_type = ''contion''"
definition multicast_type :: string where "multicast_type = ''multicast''"

definition create_notifier :: notifier_kind where
  "create_notifier = (let notifier_type = condition_type
     in if notifier_type = multicast_type then MulticastKind else if notifier_type = condition_type then ConditionKind else ConditionKind)"

lemma condition_notifier_chosen: "create_notifier = ConditionKind"
  by (simp add: create_notifier_def condition_type_def multicast_type_def)

end
