(* ===== verification/Logging.thy ===== *)
theory Logging
  imports Topology_Manager
begin

text \<open>
  The logger, \<open>log/logger.cpp\<close> and \<open>log/logstream.h\<close>, on a file system that maps names to contents. What
  \<open>strftime\<close> makes of the clock and what \<open>vsnprintf\<close> makes of the arguments are parameters, and so is whether
  the system opens and renames a file. Lengths are integers: a log stays below 2^31 characters between rotations.
  The calls come one after the other; the code takes no lock.
\<close>

section \<open>State\<close>

datatype level = LOG_DEBUG | LOG_INFO | LOG_WARN | LOG_ERROR | LOG_FATAL

fun level_number :: "level \<Rightarrow> int" where
  "level_number LOG_DEBUG = 0"
| "level_number LOG_INFO = 1"
| "level_number LOG_WARN = 2"
| "level_number LOG_ERROR = 3"
| "level_number LOG_FATAL = 4"

text \<open>Levels are ordered by their numbers.\<close>

instantiation level :: linorder
begin

definition less_eq_level :: "level \<Rightarrow> level \<Rightarrow> bool" where
  "a \<le> b \<longleftrightarrow> level_number a \<le> level_number b"

definition less_level :: "level \<Rightarrow> level \<Rightarrow> bool" where
  "a < b \<longleftrightarrow> level_number a < level_number b"

instance
proof
  fix a b :: level
  show "a \<le> b \<Longrightarrow> b \<le> a \<Longrightarrow> a = b" by (cases a; cases b) (simp_all add: less_eq_level_def)
qed (auto simp: less_eq_level_def less_level_def)

end

fun s_level :: "level \<Rightarrow> string" where
  "s_level LOG_DEBUG = ''DEBUG''"
| "s_level LOG_INFO = ''INFO''"
| "s_level LOG_WARN = ''WARN''"
| "s_level LOG_ERROR = ''ERROR''"
| "s_level LOG_FATAL = ''FATAL''"

text \<open>The stream is open or not, and may have failed. \<open>lg_shown\<close> is what went to the console, \<open>lg_rotated\<close> as history the
  names given by \<open>rotate\<close>.\<close>

record logger =
  lg_filename :: string
  lg_is_open :: bool
  lg_fail :: bool
  lg_max :: int
  lg_len :: int
  lg_level :: int
  lg_console :: bool
  lg_files :: "string \<Rightarrow> string option"
  lg_shown :: string
  lg_rotated :: "string list"

definition logger_new :: "(string \<Rightarrow> string option) \<Rightarrow> logger" where
  "logger_new files = \<lparr>lg_filename = '''', lg_is_open = False, lg_fail = False, lg_max = 0, lg_len = 0, lg_level = 0,
     lg_console = True, lg_files = files, lg_shown = '''', lg_rotated = []\<rparr>"

datatype log_error = OpenFailed | RenameFailed

section \<open>Operations\<close>

definition logger_max :: "int \<Rightarrow> logger \<Rightarrow> logger" where
  "logger_max bytes lg = lg\<lparr>lg_max := bytes\<rparr>"

definition logger_level :: "int \<Rightarrow> logger \<Rightarrow> logger" where
  "logger_level lv lg = lg\<lparr>lg_level := lv\<rparr>"

definition logger_console :: "bool \<Rightarrow> logger \<Rightarrow> logger" where
  "logger_console b lg = lg\<lparr>lg_console := b\<rparr>"

text \<open>Closing a stream that is not open makes it fail.\<close>

definition logger_close :: "logger \<Rightarrow> logger" where
  "logger_close lg = (if lg_is_open lg then lg\<lparr>lg_is_open := False\<rparr> else lg\<lparr>lg_fail := True\<rparr>)"

text \<open>\<open>ofstream::open\<close> in append mode makes a missing file; on a stream that is open it fails.\<close>

definition logger_open :: "bool \<Rightarrow> string \<Rightarrow> logger \<Rightarrow> log_error + logger" where
  "logger_open can_open filename lg =
     (let l1 = lg\<lparr>lg_filename := filename\<rparr>
      in if \<not> can_open \<or> lg_is_open lg then Inl OpenFailed
         else let content = case lg_files l1 filename of None \<Rightarrow> '''' | Some c \<Rightarrow> c
           in Inr (l1\<lparr>lg_is_open := True, lg_fail := False, lg_files := (lg_files l1)(filename \<mapsto> content), lg_len := int (length content)\<rparr>))"

text \<open>\<open>rename\<close> replaces a file of the new name.\<close>

definition logger_rotate :: "bool \<Rightarrow> string \<Rightarrow> logger \<Rightarrow> log_error + logger" where
  "logger_rotate can_open timestamp lg =
     (let l1 = logger_close lg; filename = lg_filename l1 @ timestamp
      in case lg_files l1 (lg_filename l1) of None \<Rightarrow> Inl RenameFailed
        | Some c \<Rightarrow> logger_open can_open (lg_filename l1) (l1\<lparr>lg_files := (lg_files l1)(lg_filename l1 := None, filename := Some c),
            lg_rotated := lg_rotated l1 @ [filename]\<rparr>))"

definition log_header :: "string \<Rightarrow> level \<Rightarrow> string \<Rightarrow> int \<Rightarrow> string" where
  "log_header timestamp lv file line = timestamp @ '' '' @ s_level lv @ '' '' @ file @ '':'' @ to_string line @ '' ''"

definition log_line :: "string \<Rightarrow> level \<Rightarrow> string \<Rightarrow> int \<Rightarrow> string \<Rightarrow> string" where
  "log_line timestamp lv file line content = log_header timestamp lv file line @ content @ [CHR 0x0A]"

text \<open>Output to a stream that is not open makes it fail.\<close>

definition stream_write :: "string \<Rightarrow> logger \<Rightarrow> logger" where
  "stream_write str lg =
     (if \<not> lg_is_open lg then lg\<lparr>lg_fail := True\<rparr>
      else lg\<lparr>lg_files := (lg_files lg)(lg_filename lg \<mapsto> (case lg_files lg (lg_filename lg) of None \<Rightarrow> '''' | Some c \<Rightarrow> c) @ str)\<rparr>)"

record log_call =
  lc_level :: level
  lc_file :: string
  lc_line :: int
  lc_content :: string
  lc_stamp :: string
  lc_rotate_stamp :: string
  lc_can_open :: bool

definition logger_log :: "log_call \<Rightarrow> logger \<Rightarrow> log_error + logger" where
  "logger_log c lg =
     (if level_number (lc_level c) < lg_level lg \<or> lg_fail lg then Inr lg
      else let header = log_header (lc_stamp c) (lc_level c) (lc_file c) (lc_line c);
               str = header @ lc_content c @ [CHR 0x0A];
               l1 = lg\<lparr>lg_len := lg_len lg + int (length header) + int (length (lc_content c))\<rparr>;
               l2 = (if lg_console l1 then l1\<lparr>lg_shown := lg_shown l1 @ str @ [CHR 0x0A]\<rparr> else l1);
               l3 = stream_write str l2
           in if 0 < lg_max l3 \<and> lg_max l3 \<le> lg_len l3 then logger_rotate (lc_can_open c) (lc_rotate_stamp c) l3 else Inr l3)"

text \<open>A \<open>LogStream\<close> collects what is written to it and logs it when it is destroyed, as the C string it is.\<close>

record log_stream =
  ls_level :: level
  ls_file :: string
  ls_line :: int
  ls_stream :: string

definition log_stream_new :: "level \<Rightarrow> string \<Rightarrow> int \<Rightarrow> log_stream" where
  "log_stream_new lv file line = \<lparr>ls_level = lv, ls_file = file, ls_line = line, ls_stream = ''''\<rparr>"

definition log_stream_put :: "string \<Rightarrow> log_stream \<Rightarrow> log_stream" where
  "log_stream_put msg ls = ls\<lparr>ls_stream := ls_stream ls @ msg\<rparr>"

definition log_stream_destroy :: "string \<Rightarrow> string \<Rightarrow> bool \<Rightarrow> log_stream \<Rightarrow> logger \<Rightarrow> log_error + logger" where
  "log_stream_destroy stamp rotate_stamp can_open ls = logger_log \<lparr>lc_level = ls_level ls, lc_file = ls_file ls, lc_line = ls_line ls,
     lc_content = takeWhile (\<lambda>c. c \<noteq> CHR 0x00) (ls_stream ls), lc_stamp = stamp, lc_rotate_stamp = rotate_stamp, lc_can_open = can_open\<rparr>"

fun log_calls :: "log_call list \<Rightarrow> logger \<Rightarrow> log_error + logger" where
  "log_calls [] lg = Inr lg"
| "log_calls (c # cs) lg = sbind (logger_log c lg) (log_calls cs)"

section \<open>No line is lost\<close>

text \<open>The lines that are at or above the level.\<close>

definition lines_of :: "int \<Rightarrow> log_call list \<Rightarrow> string" where
  "lines_of lv cs = concat (map (\<lambda>c. log_line (lc_stamp c) (lc_level c) (lc_file c) (lc_line c) (lc_content c))
     (filter (\<lambda>c. lv \<le> level_number (lc_level c)) cs))"

text \<open>The rotated files, oldest first, and the current one.\<close>

definition logged :: "logger \<Rightarrow> string" where
  "logged lg = concat (map (\<lambda>f. case lg_files lg f of None \<Rightarrow> '''' | Some c \<Rightarrow> c) (lg_rotated lg @ [lg_filename lg]))"

definition logger_ok :: "logger \<Rightarrow> bool" where
  "logger_ok lg \<longleftrightarrow> lg_is_open lg \<and> \<not> lg_fail lg \<and> lg_files lg (lg_filename lg) \<noteq> None \<and>
     (\<forall>f \<in> set (lg_rotated lg). lg_files lg f \<noteq> None \<and> f \<noteq> lg_filename lg)"

text \<open>The names \<open>rotate\<close> may give are new: no file has them and no two calls have the same.\<close>

definition fresh_names :: "log_call list \<Rightarrow> logger \<Rightarrow> bool" where
  "fresh_names cs lg \<longleftrightarrow> distinct (map lc_rotate_stamp cs) \<and>
     (\<forall>c \<in> set cs. lc_can_open c \<and> lc_rotate_stamp c \<noteq> '''' \<and> lg_files lg (lg_filename lg @ lc_rotate_stamp c) = None)"

lemma log_step:
  assumes ok: "logger_ok lg" and c: "lc_can_open c" "lc_rotate_stamp c \<noteq> ''''" "lg_files lg (lg_filename lg @ lc_rotate_stamp c) = None"
  obtains l1 where "logger_log c lg = Inr l1" and "logger_ok l1" and "logged l1 = logged lg @ lines_of (lg_level lg) [c]"
    and "lg_level l1 = lg_level lg" and "lg_filename l1 = lg_filename lg"
    and "\<forall>f. lg_files lg f = None \<longrightarrow> f \<noteq> lg_filename lg @ lc_rotate_stamp c \<longrightarrow> lg_files l1 f = None"
proof (cases "level_number (lc_level c) < lg_level lg")
  case True
  with ok show thesis by (intro that [of lg]) (simp_all add: logger_log_def lines_of_def)
next
  case False
  let ?str = "log_line (lc_stamp c) (lc_level c) (lc_file c) (lc_line c) (lc_content c)"
  from ok obtain old where old: "lg_files lg (lg_filename lg) = Some old" and op: "lg_is_open lg" "\<not> lg_fail lg"
    and rot: "\<And>f. f \<in> set (lg_rotated lg) \<Longrightarrow> lg_files lg f \<noteq> None \<and> f \<noteq> lg_filename lg" by (auto simp: logger_ok_def)
  define l1 where "l1 = lg\<lparr>lg_len := lg_len lg + int (length (log_header (lc_stamp c) (lc_level c) (lc_file c) (lc_line c))) +
    int (length (lc_content c))\<rparr>"
  define l3 where "l3 = stream_write ?str (if lg_console l1 then l1\<lparr>lg_shown := lg_shown l1 @ ?str @ [CHR 0x0A]\<rparr> else l1)"
  have l3: "lg_filename l3 = lg_filename lg" "lg_is_open l3" "\<not> lg_fail l3" "lg_level l3 = lg_level lg" "lg_rotated l3 = lg_rotated lg"
    "lg_files l3 = (lg_files lg)(lg_filename lg \<mapsto> old @ ?str)" "lg_max l3 = lg_max lg"
    using op by (simp_all add: l3_def l1_def stream_write_def old)
  have log: "logger_log c lg = (if 0 < lg_max l3 \<and> lg_max l3 \<le> lg_len l3 then logger_rotate (lc_can_open c) (lc_rotate_stamp c) l3 else Inr l3)"
    using False op(2) unfolding logger_log_def Let_def l3_def l1_def log_line_def append_assoc by simp
  have ok3: "logger_ok l3" using rot by (simp add: logger_ok_def l3)
  have same: "map (\<lambda>f. case lg_files l3 f of None \<Rightarrow> '''' | Some c \<Rightarrow> c) (lg_rotated lg) =
      map (\<lambda>f. case lg_files lg f of None \<Rightarrow> '''' | Some c \<Rightarrow> c) (lg_rotated lg)"
    using rot by (auto simp: l3)
  have all3: "logged l3 = logged lg @ lines_of (lg_level lg) [c]"
    using False unfolding logged_def l3(1,5) map_append concat_append same by (simp add: l3 old lines_of_def)
  show thesis
  proof (cases "0 < lg_max l3 \<and> lg_max l3 \<le> lg_len l3")
    case rotates: True
    let ?new = "lg_filename lg @ lc_rotate_stamp c"
    have new: "?new \<noteq> lg_filename lg" "?new \<notin> set (lg_rotated lg)" using c(2,3) rot [of ?new] by auto
    define l4 where "l4 = l3\<lparr>lg_is_open := True, lg_fail := False, lg_len := 0, lg_rotated := lg_rotated lg @ [?new],
      lg_files := (lg_files lg)(?new \<mapsto> old @ ?str, lg_filename lg \<mapsto> '''')\<rparr>"
    have "logger_rotate (lc_can_open c) (lc_rotate_stamp c) l3 = Inr l4"
      using c(1) new(1) l3(2,3)
      by (simp add: logger_rotate_def logger_close_def logger_open_def Let_def l3 l4_def fun_upd_twist)
    moreover have "logger_ok l4" using rot new by (auto simp: logger_ok_def l4_def l3)
    moreover have "logged l4 = logged l3"
    proof -
      have "map (\<lambda>f. case lg_files l4 f of None \<Rightarrow> '''' | Some c \<Rightarrow> c) (lg_rotated lg) =
          map (\<lambda>f. case lg_files l3 f of None \<Rightarrow> '''' | Some c \<Rightarrow> c) (lg_rotated lg)"
        using rot new by (auto simp: l4_def l3)
      note keep = this
      have rot4: "lg_rotated l4 = lg_rotated lg @ [?new]" by (simp add: l4_def)
      show ?thesis unfolding logged_def rot4 l3(5) map_append concat_append keep using new by (simp add: l4_def l3)
    qed
    ultimately show ?thesis using rotates log all3 by (intro that [of l4]) (auto simp: l4_def l3 old)
  next
    case False
    with log ok3 all3 show ?thesis by (intro that [of l3]) (auto simp: l3 old)
  qed
qed


text \<open>With a threshold set to a level, the lines kept are those of the levels from it on.\<close>

lemma lines_from_level: "lines_of (level_number th) cs =
    concat (map (\<lambda>c. log_line (lc_stamp c) (lc_level c) (lc_file c) (lc_line c) (lc_content c)) (filter (\<lambda>c. th \<le> lc_level c) cs))"
  by (simp add: lines_of_def less_eq_level_def)

definition sample_log :: "string \<Rightarrow> string \<Rightarrow> log_call" where
  "sample_log content rotate_stamp = \<lparr>lc_level = LOG_INFO, lc_file = ''f'', lc_line = 1, lc_content = content, lc_stamp = ''t'',
     lc_rotate_stamp = rotate_stamp, lc_can_open = True\<rparr>"

definition sample_logger :: logger where
  "sample_logger = (logger_new (\<lambda>_. None))\<lparr>lg_filename := ''l'', lg_is_open := True, lg_files := (\<lambda>_. None)(''l'' \<mapsto> ''''), lg_max := 1\<rparr>"


text \<open>Two rotations in one second have the same name: the second replaces the file of the first, whose lines are gone.\<close>

lemma rotation_overwrites:
  "\<exists>l1. log_calls [sample_log ''a'' ''.1'', sample_log ''b'' ''.1''] sample_logger = Inr l1 \<and>
     lg_files l1 ''l'' = Some '''' \<and> lg_files l1 ''l.1'' = Some (log_line ''t'' LOG_INFO ''f'' 1 ''b'') \<and> (\<forall>f. f \<notin> {''l'', ''l.1''} \<longrightarrow> lg_files l1 f = None)"
  by (simp add: sample_log_def sample_logger_def logger_new_def logger_log_def log_header_def log_line_def Let_def stream_write_def
      logger_rotate_def logger_close_def logger_open_def)

end
