(* ===== verification/Configuration.thy ===== *)
theory Configuration
  imports Scheduler_Classic
begin

text \<open>
  Configuration files (\<open>config/conf_parse.cpp\<close>, \<open>GlobalData::InitConfig\<close>), the names of the files
  (\<open>common/file.cpp\<close>, \<open>common/environment.h\<close>, the process group of \<open>GlobalData\<close>) and the choice and the only
  instance of the scheduler (\<open>scheduler/scheduler_factory.cpp\<close>). The text of a file is what the vendored parser
  makes of it: a value of \<open>nlohmann::json\<close>, or the exception of a syntax error. Reading a value follows the
  conversions of that library (\<open>from_json\<close> of strings, numbers and vectors, \<open>contains\<close> and \<open>at\<close>).
\<close>

section \<open>JSON values\<close>

text \<open>A value by its \<open>value_t\<close>; of a floating point number only what the cast to 32 bits gives matters.\<close>

datatype json =
    JNull
  | JBool bool
  | JInteger u64
  | JUnsigned u64
  | JFloat u32
  | JString string
  | JArray "json list"
  | JObject "(string \<times> json) list"

datatype config_error = TypeError | OutOfRange | ParseError

definition json_contains :: "json \<Rightarrow> string \<Rightarrow> bool" where
  "json_contains j key = (case j of JObject members \<Rightarrow> map_of members key \<noteq> None | _ \<Rightarrow> False)"

definition json_at :: "json \<Rightarrow> string \<Rightarrow> config_error + json" where
  "json_at j key = (case j of
     JObject members \<Rightarrow> (case map_of members key of Some v \<Rightarrow> Inr v | None \<Rightarrow> Inl OutOfRange)
   | _ \<Rightarrow> Inl TypeError)"

fun get_string :: "json \<Rightarrow> config_error + string" where
  "get_string (JString s) = Inr s"
| "get_string _ = Inl TypeError"

fun get_u32 :: "json \<Rightarrow> config_error + u32" where
  "get_u32 (JUnsigned n) = Inr (ucast n)"
| "get_u32 (JInteger n) = Inr (ucast n)"
| "get_u32 (JFloat n) = Inr n"
| "get_u32 (JBool b) = Inr (if b then 1 else 0)"
| "get_u32 _ = Inl TypeError"

fun get_each :: "(json \<Rightarrow> config_error + 'a) \<Rightarrow> json list \<Rightarrow> config_error + 'a list" where
  "get_each get [] = Inr []"
| "get_each get (v # vs) = sbind (get v) (\<lambda>x. sbind (get_each get vs) (\<lambda>xs. Inr (x # xs)))"

fun get_vector :: "(json \<Rightarrow> config_error + 'a) \<Rightarrow> json \<Rightarrow> config_error + 'a list" where
  "get_vector get (JArray vs) = get_each get vs"
| "get_vector get _ = Inl TypeError"

section \<open>Converters\<close>

text \<open>One line of a converter, \<open>if (j.contains(key)) j.at(key).get_to(x.field)\<close>, and its lines in order.\<close>

definition read_field :: "(json \<Rightarrow> config_error + 'a) \<Rightarrow> ('a \<Rightarrow> 'r \<Rightarrow> 'r) \<Rightarrow> string \<Rightarrow> json \<Rightarrow> 'r \<Rightarrow> config_error + 'r" where
  "read_field get put key j x =
     (if json_contains j key then sbind (json_at j key) (\<lambda>v. sbind (get v) (\<lambda>a. Inr (put a x))) else Inr x)"

definition read_fields :: "(json \<Rightarrow> 'r \<Rightarrow> config_error + 'r) list \<Rightarrow> json \<Rightarrow> 'r \<Rightarrow> config_error + 'r" where
  "read_fields readers j x = fold (\<lambda>rd r. sbind r (rd j)) readers (Inr x)"

definition thread_new :: inner_thread where
  "thread_new = \<lparr>it_name = '''', it_cpuset = '''', it_policy = '''', it_prio = 0\<rparr>"

definition task_new :: classic_task where
  "task_new = \<lparr>ct_name = '''', ct_prio = 0, ct_group_name = ''''\<rparr>"

definition group_new :: sched_group where
  "group_new = \<lparr>sg_name = '''', sg_processor_num = 0, sg_affinity = '''', sg_cpuset = '''', sg_processor_policy = '''',
     sg_processor_prio = 0, sg_tasks = []\<rparr>"

definition conf_new :: scheduler_conf where
  "conf_new = \<lparr>sf_policy = '''', sf_routine_num = 0, sf_default_proc_num = 0, sf_process_level_cpuset = '''', sf_threads = [],
     sf_groups = []\<rparr>"

definition thread_from_json :: "json \<Rightarrow> inner_thread \<Rightarrow> config_error + inner_thread" where
  "thread_from_json = read_fields
     [read_field get_string (\<lambda>v t. t\<lparr>it_name := v\<rparr>) ''name'',
      read_field get_string (\<lambda>v t. t\<lparr>it_cpuset := v\<rparr>) ''cpuset'',
      read_field get_string (\<lambda>v t. t\<lparr>it_policy := v\<rparr>) ''policy'',
      read_field get_u32 (\<lambda>v t. t\<lparr>it_prio := v\<rparr>) ''prio'']"

definition task_from_json :: "json \<Rightarrow> classic_task \<Rightarrow> config_error + classic_task" where
  "task_from_json = read_fields
     [read_field get_string (\<lambda>v t. t\<lparr>ct_name := v\<rparr>) ''name'',
      read_field get_u32 (\<lambda>v t. t\<lparr>ct_prio := v\<rparr>) ''prio'',
      read_field get_string (\<lambda>v t. t\<lparr>ct_group_name := v\<rparr>) ''group_name'']"

definition group_from_json :: "json \<Rightarrow> sched_group \<Rightarrow> config_error + sched_group" where
  "group_from_json = read_fields
     [read_field get_string (\<lambda>v g. g\<lparr>sg_name := v\<rparr>) ''name'',
      read_field get_u32 (\<lambda>v g. g\<lparr>sg_processor_num := v\<rparr>) ''processor_num'',
      read_field get_string (\<lambda>v g. g\<lparr>sg_affinity := v\<rparr>) ''affinity'',
      read_field get_string (\<lambda>v g. g\<lparr>sg_cpuset := v\<rparr>) ''cpuset'',
      read_field get_string (\<lambda>v g. g\<lparr>sg_processor_policy := v\<rparr>) ''processor_policy'',
      read_field get_u32 (\<lambda>v g. g\<lparr>sg_processor_prio := v\<rparr>) ''processor_prio'',
      read_field (get_vector (\<lambda>j. task_from_json j task_new)) (\<lambda>v g. g\<lparr>sg_tasks := v\<rparr>) ''tasks'']"

definition classic_from_json :: "json \<Rightarrow> sched_group list \<Rightarrow> config_error + sched_group list" where
  "classic_from_json = read_fields [read_field (get_vector (\<lambda>j. group_from_json j group_new)) (\<lambda>v _. v) ''groups'']"

definition scheduler_from_json :: "json \<Rightarrow> scheduler_conf \<Rightarrow> config_error + scheduler_conf" where
  "scheduler_from_json = read_fields
     [read_field get_string (\<lambda>v c. c\<lparr>sf_policy := v\<rparr>) ''policy'',
      read_field get_u32 (\<lambda>v c. c\<lparr>sf_routine_num := v\<rparr>) ''routine_num'',
      read_field get_u32 (\<lambda>v c. c\<lparr>sf_default_proc_num := v\<rparr>) ''default_proc_num'',
      read_field get_string (\<lambda>v c. c\<lparr>sf_process_level_cpuset := v\<rparr>) ''process_level_cpuset'',
      read_field (get_vector (\<lambda>j. thread_from_json j thread_new)) (\<lambda>v c. c\<lparr>sf_threads := v\<rparr>) ''threads'',
      read_field (\<lambda>j. classic_from_json j []) (\<lambda>v c. c\<lparr>sf_groups := v\<rparr>) ''classic_conf'']"

text \<open>Of \<open>CmwConfig\<close> the converter reads \<open>scheduler_conf\<close> alone, so the configuration is that part of it.\<close>

definition config_from_json :: "json \<Rightarrow> scheduler_conf \<Rightarrow> config_error + scheduler_conf" where
  "config_from_json j c =
     (if json_contains j ''scheduler_conf'' then sbind (json_at j ''scheduler_conf'') (\<lambda>v. scheduler_from_json v c) else Inr c)"

section \<open>Files\<close>

text \<open>A path names nothing, something that cannot be opened, or a text with the value the parser reads in it.\<close>

datatype file_state = Missing | Closed | Text "json option"
type_synonym file_system = "string \<Rightarrow> file_state"

definition path_exists :: "file_system \<Rightarrow> string \<Rightarrow> bool" where
  "path_exists files path = (files path \<noteq> Missing)"

text \<open>\<open>Inr None\<close> is the result \<open>false\<close>, an \<open>Inl\<close> an exception of the parser or of a converter.\<close>

definition conf_from_file :: "file_system \<Rightarrow> string \<Rightarrow> config_error + scheduler_conf option" where
  "conf_from_file files path = (case files path of
     Text (Some j) \<Rightarrow> sbind (config_from_json j conf_new) (\<lambda>c. Inr (Some c))
   | Text None \<Rightarrow> Inl ParseError
   | _ \<Rightarrow> Inr None)"

definition absolute_path :: "string \<Rightarrow> string \<Rightarrow> string" where
  "absolute_path pre rel =
     (if rel = [] then pre
      else if pre = [] \<or> hd rel = CHR ''/'' then rel
      else if last pre = CHR ''/'' then pre @ rel
      else pre @ ''/'' @ rel)"

definition work_root :: "string option \<Rightarrow> string" where
  "work_root cmw_path = (let root = (case cmw_path of Some v \<Rightarrow> v | None \<Rightarrow> '''') in if root = '''' then ''/cmw'' else root)"

text \<open>\<open>rfind\<close> and \<open>substr\<close>: the name starts after the last slash; an extension is what follows the last dot, unless
  that dot is before the name.\<close>

fun rfind :: "char \<Rightarrow> string \<Rightarrow> nat option" where
  "rfind c [] = None"
| "rfind c (x # xs) = (case rfind c xs of Some i \<Rightarrow> Some (Suc i) | None \<Rightarrow> if x = c then Some 0 else None)"

definition file_name :: "bool \<Rightarrow> string \<Rightarrow> string" where
  "file_name remove_extension path =
     (let start = (case rfind CHR ''/'' path of None \<Rightarrow> 0 | Some i \<Rightarrow> Suc i);
          end_pos = (if remove_extension then (case rfind CHR ''.'' path of Some i \<Rightarrow> if i < start then None else Some i | None \<Rightarrow> None)
            else None)
      in (case end_pos of Some e \<Rightarrow> take (e - start) (drop start path) | None \<Rightarrow> drop start path))"

text \<open>The process group, from the answer of \<open>readlink\<close> and the process id as decimal digits.\<close>

definition process_group :: "string option \<Rightarrow> string \<Rightarrow> string" where
  "process_group link pid =
     (let prog = (case link of Some p \<Rightarrow> p | None \<Rightarrow> '''')
      in if prog \<noteq> '''' then file_name False prog @ ''_'' @ pid else ''cmw_default_'' @ pid)"

definition group_conf_file :: "string \<Rightarrow> string" where
  "group_conf_file grp = ''conf/'' @ grp @ ''.conf''"

text \<open>\<open>InitConfig\<close> leaves the configuration alone where it fails.\<close>

definition global_config :: "file_system \<Rightarrow> string option \<Rightarrow> config_error + scheduler_conf" where
  "global_config files cmw_path = sbind (conf_from_file files (absolute_path (work_root cmw_path) ''conf/cmw.pb.conf''))
     (\<lambda>c. Inr (case c of Some c \<Rightarrow> c | None \<Rightarrow> conf_new))"

section \<open>The instance of the scheduler\<close>

definition conf_if_exists :: "file_system \<Rightarrow> string \<Rightarrow> config_error + scheduler_conf option" where
  "conf_if_exists files path = (if path_exists files path then conf_from_file files path else Inr None)"

definition classic_scheduler :: "file_system \<Rightarrow> string option \<Rightarrow> string \<Rightarrow> scheduler_conf \<Rightarrow> config_error + scheduler" where
  "classic_scheduler files cmw_path grp global =
     sbind (conf_if_exists files (absolute_path (work_root cmw_path) (group_conf_file grp)))
       (\<lambda>cfg. Inr (scheduler_new cfg (sf_default_proc_num global)))"

definition chosen_policy :: "file_system \<Rightarrow> string option \<Rightarrow> string \<Rightarrow> config_error + string" where
  "chosen_policy files cmw_path grp =
     sbind (conf_if_exists files (group_conf_file grp)) (\<lambda>c. case c of
       Some c \<Rightarrow> Inr (sf_policy c)
     | None \<Rightarrow> sbind (conf_if_exists files (absolute_path (work_root cmw_path) (group_conf_file grp))) (\<lambda>c. case c of
         Some c \<Rightarrow> Inr (sf_policy c)
       | None \<Rightarrow> Inr ''classic''))"

text \<open>\<open>Instance()\<close>: the pointer it returns is the one it stores. An exception leaves what was stored.\<close>

definition scheduler_instance ::
    "file_system \<Rightarrow> string option \<Rightarrow> string \<Rightarrow> scheduler_conf \<Rightarrow> scheduler option \<Rightarrow> config_error + scheduler option" where
  "scheduler_instance files cmw_path grp global inst = (case inst of
     Some s \<Rightarrow> Inr (Some s)
   | None \<Rightarrow> sbind (chosen_policy files cmw_path grp) (\<lambda>policy.
       if policy = ''classic'' then sbind (classic_scheduler files cmw_path grp global) (\<lambda>s. Inr (Some s))
       else if policy = ''choreography'' then Inr None
       else sbind (classic_scheduler files cmw_path grp global) (\<lambda>s. Inr (Some s))))"

section \<open>Documents with the right types\<close>

text \<open>What a converter expects of a value: a member that is present has its type, and a value that is no object where one
  is expected counts as an object without members.\<close>

datatype shape = SString | SNumber | SArray shape | SObject "(string \<times> shape) list"

fun is_number :: "json \<Rightarrow> bool" where
  "is_number (JString _) = False"
| "is_number (JArray _) = False"
| "is_number (JObject _) = False"
| "is_number JNull = False"
| "is_number _ = True"

fun fits :: "shape \<Rightarrow> json \<Rightarrow> bool" where
  "fits SString j = (\<exists>s. j = JString s)"
| "fits SNumber j = is_number j"
| "fits (SArray sh) j = (case j of JArray vs \<Rightarrow> list_all (fits sh) vs | _ \<Rightarrow> False)"
| "fits (SObject ms) j = (case j of
     JObject vs \<Rightarrow> list_all (\<lambda>m. case map_of vs (fst m) of Some v \<Rightarrow> fits (snd m) v | None \<Rightarrow> True) ms
   | _ \<Rightarrow> True)"

definition task_shape :: shape where
  "task_shape = SObject [(''name'', SString), (''prio'', SNumber), (''group_name'', SString)]"

definition group_shape :: shape where
  "group_shape = SObject [(''name'', SString), (''processor_num'', SNumber), (''affinity'', SString), (''cpuset'', SString),
     (''processor_policy'', SString), (''processor_prio'', SNumber), (''tasks'', SArray task_shape)]"

definition thread_shape :: shape where
  "thread_shape = SObject [(''name'', SString), (''cpuset'', SString), (''policy'', SString), (''prio'', SNumber)]"

definition config_shape :: shape where
  "config_shape = SObject [(''scheduler_conf'', SObject [(''policy'', SString), (''routine_num'', SNumber),
     (''default_proc_num'', SNumber), (''process_level_cpuset'', SString), (''threads'', SArray thread_shape),
     (''classic_conf'', SObject [(''groups'', SArray group_shape)])])]"

text \<open>A function reads values of a type: those it accepts are those that fit, any other is a type error.\<close>

definition reads :: "(json \<Rightarrow> config_error + 'a) \<Rightarrow> shape \<Rightarrow> bool" where
  "reads get sh = (\<forall>j. if fits sh j then \<exists>x. get j = Inr x else get j = Inl TypeError)"

definition reads_member :: "(json \<Rightarrow> 'r \<Rightarrow> config_error + 'r) \<Rightarrow> string \<times> shape \<Rightarrow> bool" where
  "reads_member rd m = (\<forall>x. reads (\<lambda>j. rd j x) (SObject [m]))"

lemma get_string_reads: "reads get_string SString"
  unfolding reads_def
proof
  fix j show "if fits SString j then \<exists>x. get_string j = Inr x else get_string j = Inl TypeError"
    by (cases j) simp_all
qed

lemma get_u32_reads: "reads get_u32 SNumber"
  unfolding reads_def
proof
  fix j show "if fits SNumber j then \<exists>x. get_u32 j = Inr x else get_u32 j = Inl TypeError"
    by (cases j) simp_all
qed

lemma get_each_reads:
  assumes "reads get sh"
  shows "if list_all (fits sh) vs then \<exists>x. get_each get vs = Inr x else get_each get vs = Inl TypeError"
proof (induction vs)
  case (Cons v vs)
  from assms have "if fits sh v then \<exists>x. get v = Inr x else get v = Inl TypeError" by (simp add: reads_def)
  with Cons show ?case by (auto split: if_splits)
qed simp

lemma get_vector_reads: "reads get sh \<Longrightarrow> reads (get_vector get) (SArray sh)"
  using get_each_reads [of get sh] by (auto simp: reads_def split: json.split)

lemma read_field_reads:
  assumes "reads get sh"
  shows "reads_member (read_field get put key) (key, sh)"
  unfolding reads_member_def reads_def
proof (intro allI)
  fix x j
  show "if fits (SObject [(key, sh)]) j then \<exists>y. read_field get put key j x = Inr y else read_field get put key j x = Inl TypeError"
  proof (cases "\<exists>ms v. j = JObject ms \<and> map_of ms key = Some v")
    case True
    then obtain ms v where j: "j = JObject ms" "map_of ms key = Some v" by blast
    from assms have "if fits sh v then \<exists>a. get v = Inr a else get v = Inl TypeError" by (simp add: reads_def)
    with j show ?thesis by (auto simp: read_field_def json_contains_def json_at_def)
  next
    case False
    then show ?thesis by (cases j) (simp_all add: read_field_def json_contains_def)
  qed
qed

lemma fits_object_Cons: "fits (SObject (m # ms)) j \<longleftrightarrow> fits (SObject [m]) j \<and> fits (SObject ms) j"
  by (simp split: json.split)

lemma fits_object_Nil: "fits (SObject []) j"
  by (simp split: json.split)

lemma read_fields_stuck: "fold (\<lambda>rd r. sbind r (rd j)) rds (Inl e) = Inl e"
  by (induction rds) simp_all

lemma read_fields_reads:
  assumes "list_all2 reads_member rds ms"
  shows "reads (\<lambda>j. read_fields rds j x) (SObject ms)"
  using assms
proof (induction arbitrary: x rule: list_all2_induct)
  case Nil
  show ?case unfolding reads_def read_fields_def by (simp add: fits_object_Nil del: fits.simps)
next
  case (Cons rd rds m ms)
  show ?case unfolding reads_def
  proof
    fix j
    from Cons.hyps(1) have rd: "if fits (SObject [m]) j then \<exists>y. rd j x = Inr y else rd j x = Inl TypeError"
      unfolding reads_member_def reads_def by blast
    from Cons.IH have rest: "if fits (SObject ms) j then \<exists>z. read_fields rds j y = Inr z else read_fields rds j y = Inl TypeError" for y
      unfolding reads_def by blast
    have step: "read_fields (rd # rds) j x = sbind (rd j x) (read_fields rds j)"
      by (cases "rd j x") (simp_all add: read_fields_def read_fields_stuck)
    show "if fits (SObject (m # ms)) j then \<exists>z. read_fields (rd # rds) j x = Inr z else read_fields (rd # rds) j x = Inl TypeError"
      using rd rest by (auto simp: step fits_object_Cons [of m ms] simp del: fits.simps split: if_splits)
  qed
qed

lemmas member_readers = read_field_reads get_string_reads get_u32_reads get_vector_reads

lemma task_reads: "reads (\<lambda>j. task_from_json j x) task_shape"
  unfolding task_from_json_def task_shape_def by (intro read_fields_reads list.rel_intros member_readers)

lemma thread_reads: "reads (\<lambda>j. thread_from_json j x) thread_shape"
  unfolding thread_from_json_def thread_shape_def by (intro read_fields_reads list.rel_intros member_readers)

lemma group_reads: "reads (\<lambda>j. group_from_json j x) group_shape"
  unfolding group_from_json_def group_shape_def by (intro read_fields_reads list.rel_intros member_readers task_reads)

lemma classic_reads: "reads (\<lambda>j. classic_from_json j x) (SObject [(''groups'', SArray group_shape)])"
  unfolding classic_from_json_def by (intro read_fields_reads list.rel_intros member_readers group_reads)

lemma scheduler_conf_reads: "reads (\<lambda>j. scheduler_from_json j x) (SObject [(''policy'', SString), (''routine_num'', SNumber),
     (''default_proc_num'', SNumber), (''process_level_cpuset'', SString), (''threads'', SArray thread_shape),
     (''classic_conf'', SObject [(''groups'', SArray group_shape)])])"
  unfolding scheduler_from_json_def
  by (intro read_fields_reads list.rel_intros member_readers thread_reads classic_reads)

text \<open>C33. Reading a configuration succeeds exactly for the documents whose members have the types of \<open>config_shape\<close>, where
  members may be missing and unknown ones are ignored; for every other document it ends with the type error of the JSON
  library. No document makes it ask for a member that is missing.\<close>

theorem config_reads_well_typed:
  "(if fits config_shape j then \<exists>d. config_from_json j c = Inr d else config_from_json j c = Inl TypeError)"
proof -
  have "config_from_json j c = read_field (\<lambda>v. scheduler_from_json v c) (\<lambda>d _. d) ''scheduler_conf'' j c"
    by (cases "json_at j ''scheduler_conf''") (simp_all add: config_from_json_def read_field_def sbind_split split: sum.split)
  moreover have "reads (\<lambda>j. read_field (\<lambda>v. scheduler_from_json v c) (\<lambda>d _. d) ''scheduler_conf'' j c) config_shape"
    using read_field_reads [OF scheduler_conf_reads [of c], of "\<lambda>d _. d" "''scheduler_conf''"]
    unfolding reads_member_def config_shape_def by blast
  ultimately show ?thesis by (simp add: reads_def)
qed

section \<open>Written configurations\<close>

text \<open>The document that writes every member of a configuration.\<close>

definition task_to_json :: "classic_task \<Rightarrow> json" where
  "task_to_json t = JObject [(''name'', JString (ct_name t)), (''prio'', JUnsigned (ucast (ct_prio t))),
     (''group_name'', JString (ct_group_name t))]"

definition thread_to_json :: "inner_thread \<Rightarrow> json" where
  "thread_to_json t = JObject [(''name'', JString (it_name t)), (''cpuset'', JString (it_cpuset t)),
     (''policy'', JString (it_policy t)), (''prio'', JUnsigned (ucast (it_prio t)))]"

definition group_to_json :: "sched_group \<Rightarrow> json" where
  "group_to_json g = JObject [(''name'', JString (sg_name g)), (''processor_num'', JUnsigned (ucast (sg_processor_num g))),
     (''affinity'', JString (sg_affinity g)), (''cpuset'', JString (sg_cpuset g)),
     (''processor_policy'', JString (sg_processor_policy g)), (''processor_prio'', JInteger (scast (sg_processor_prio g))),
     (''tasks'', JArray (map task_to_json (sg_tasks g)))]"

definition config_to_json :: "scheduler_conf \<Rightarrow> json" where
  "config_to_json c = JObject [(''scheduler_conf'', JObject [(''policy'', JString (sf_policy c)),
     (''routine_num'', JUnsigned (ucast (sf_routine_num c))), (''default_proc_num'', JUnsigned (ucast (sf_default_proc_num c))),
     (''process_level_cpuset'', JString (sf_process_level_cpuset c)), (''threads'', JArray (map thread_to_json (sf_threads c))),
     (''classic_conf'', JObject [(''groups'', JArray (map group_to_json (sf_groups c)))])])]"

lemma narrow_wide [simp]: "(ucast (ucast (n :: u32) :: u64) :: u32) = n" "(ucast (scast (n :: u32) :: u64) :: u32) = n"
  by (simp_all add: bit_eq_iff bit_simps)

lemma get_each_map: "(\<And>x. get (put x) = Inr x) \<Longrightarrow> get_each get (map put xs) = Inr xs"
  by (induction xs) simp_all

lemmas reading = read_fields_def read_field_def json_contains_def json_at_def

lemma task_back: "task_from_json (task_to_json t) x = Inr t"
  by (simp add: task_from_json_def task_to_json_def reading)

lemma thread_back: "thread_from_json (thread_to_json t) x = Inr t"
  by (simp add: thread_from_json_def thread_to_json_def reading)

lemma group_back: "group_from_json (group_to_json g) x = Inr g"
  by (simp add: group_from_json_def group_to_json_def reading get_each_map task_back)

lemma config_back: "config_from_json (config_to_json c) x = Inr c"
  by (simp add: config_from_json_def scheduler_from_json_def classic_from_json_def config_to_json_def reading get_each_map
      thread_back group_back)

section \<open>The configuration of the process\<close>

text \<open>C34. Where the file of the process group under the working root holds a configuration and the relative file of that name
  does not exist or holds the same, the first call of \<open>Instance\<close> makes the scheduler of that configuration, whatever
  policy it names but \<open>choreography\<close>; without both files it makes the default scheduler with the processors of the
  global configuration, or two; and every later call returns the same.\<close>

theorem instance_follows_configuration:
  assumes "p = absolute_path (work_root root) (group_conf_file grp)"
    and "files p = Missing \<and> cfg = None \<or> files p = Text (Some (config_to_json c)) \<and> sf_policy c \<noteq> ''choreography'' \<and> cfg = Some c"
    and "files (group_conf_file grp) = Missing \<or> files (group_conf_file grp) = files p"
  shows "\<exists>s. scheduler_instance files root grp global None = Inr (Some s) \<and>
     s = scheduler_new cfg (sf_default_proc_num global) \<and>
     (\<forall>files' root' grp' global'. scheduler_instance files' root' grp' global' (Some s) = Inr (Some s))"
proof -
  have "conf_if_exists files p = Inr cfg" using assms(2)
    by (auto simp: conf_if_exists_def path_exists_def conf_from_file_def config_back)
  moreover have "conf_if_exists files (group_conf_file grp) = Inr None \<or> conf_if_exists files (group_conf_file grp) = Inr cfg"
    using assms(2,3) by (auto simp: conf_if_exists_def path_exists_def conf_from_file_def config_back)
  ultimately have "scheduler_instance files root grp global None = Inr (Some (scheduler_new cfg (sf_default_proc_num global)))"
    using assms(1,2) by (auto simp: scheduler_instance_def classic_scheduler_def chosen_policy_def)
  then show ?thesis by (simp add: scheduler_instance_def)
qed

definition sample_conf :: scheduler_conf where
  "sample_conf = conf_new\<lparr>sf_policy := ''classic'', sf_groups := [group_new\<lparr>sg_name := ''g1'', sg_processor_num := 3\<rparr>]\<rparr>"

definition sample_files :: "string \<Rightarrow> file_system" where
  "sample_files p q = (if q = p then Text (Some (config_to_json sample_conf)) else Missing)"

lemma sample_policy: "sf_policy sample_conf = ''classic''"
  by (simp add: sample_conf_def)

theorem instance_follows_configuration_witness:
  "scheduler_instance (sample_files ''/cmw/conf/g.conf'') None ''g'' conf_new None = Inr (Some (scheduler_new (Some sample_conf) 0))"
  using instance_follows_configuration [of "''/cmw/conf/g.conf''" None "''g''" "sample_files ''/cmw/conf/g.conf''" "Some sample_conf"
      sample_conf conf_new]
  by (simp add: absolute_path_def work_root_def group_conf_file_def sample_files_def sample_policy conf_new_def)

text \<open>A file that is found only relative to the working directory decides the policy, but the scheduler it chooses looks
  below the working root alone and starts with its defaults.\<close>

lemma local_file_gives_defaults:
  "scheduler_instance (sample_files ''conf/g.conf'') None ''g'' conf_new None = Inr (Some (scheduler_new None 0)) \<and>
   chosen_policy (sample_files ''conf/g.conf'') None ''g'' = Inr ''classic''"
  by (simp add: scheduler_instance_def chosen_policy_def classic_scheduler_def conf_if_exists_def path_exists_def conf_from_file_def
      absolute_path_def work_root_def group_conf_file_def sample_files_def config_back sample_policy conf_new_def)

text \<open>A file without a document, such as the empty files of \<open>conf/\<close>, makes the first call of \<open>Instance\<close> throw, and the
  policy \<open>choreography\<close> leaves the instance null.\<close>

lemma instance_may_fail:
  "files (group_conf_file grp) = Text None \<Longrightarrow> scheduler_instance files root grp global None = Inl ParseError"
  "files (group_conf_file grp) = Text (Some (config_to_json (conf_new\<lparr>sf_policy := ''choreography''\<rparr>))) \<Longrightarrow>
   scheduler_instance files root grp global None = Inr None"
  by (simp_all add: scheduler_instance_def chosen_policy_def conf_if_exists_def path_exists_def conf_from_file_def config_back)

section \<open>Names of files\<close>

lemma rfind_none: "rfind c xs = None \<longleftrightarrow> c \<notin> set xs"
  by (induction xs) (auto split: option.split)

lemma rfind_last: "rfind c xs = Some i \<Longrightarrow> i < length xs \<and> xs ! i = c \<and> c \<notin> set (drop (Suc i) xs)"
  by (induction xs arbitrary: i) (auto split: option.splits if_splits simp: rfind_none)

text \<open>\<open>GetFileName\<close> without removal of the extension cuts the path after its last slash.\<close>

lemma file_name_splits:
  "\<exists>dir. path = dir @ file_name False path \<and> CHR ''/'' \<notin> set (file_name False path) \<and> (dir = [] \<or> last dir = CHR ''/'')"
proof (cases "rfind CHR ''/'' path")
  case None
  from None have "CHR ''/'' \<notin> set path" by (rule iffD1 [OF rfind_none])
  moreover from None have "file_name False path = path" by (simp add: file_name_def)
  ultimately show ?thesis by (intro exI [of _ "[]"]) simp
next
  case (Some i)
  from rfind_last [OF Some] have "last (take (Suc i) path) = CHR ''/''" by (simp add: take_Suc_conv_app_nth)
  with rfind_last [OF Some] Some show ?thesis by (intro exI [of _ "take (Suc i) path"]) (simp add: file_name_def)
qed

lemma absolute_path_absolute: "hd pre = CHR ''/'' \<Longrightarrow> pre \<noteq> [] \<Longrightarrow> hd (absolute_path pre rel) = CHR ''/''"
  by (simp add: absolute_path_def)

end
