(* ===== verification/Shared_Libraries.thy ===== *)
theory Shared_Libraries
  imports Cmw_Prelude
begin

text \<open>
  The wrapper of the dynamic linker (\<open>class_loader/shared_library/shared_library.cpp\<close>, \<open>shared_library.h\<close>,
  \<open>exceptions.h\<close>). The linker is a parameter: which object a path names and the addresses of its symbols; it counts, as
  documented, how often an object was opened and keeps it in memory until it was closed as often.
\<close>

section \<open>The linker and the wrapper\<close>

datatype library_error = LibraryAlreadyLoaded string | LibraryLoad string | SymbolNotFound string

record linker =
  dl_resolve :: "string \<Rightarrow> nat option"
  dl_symbols :: "nat \<Rightarrow> string \<Rightarrow> nat option"
  dl_count :: "nat \<Rightarrow> nat"

record shared_library =
  sl_handle :: "nat option"
  sl_path :: string

definition shared_library_new :: shared_library where
  "shared_library_new = \<lparr>sl_handle = None, sl_path = ''''\<rparr>"

definition SHLIB_GLOBAL :: "32 word" where "SHLIB_GLOBAL = 1"
definition SHLIB_LOCAL :: "32 word" where "SHLIB_LOCAL = 2"

text \<open>The flags of \<open>dlfcn.h\<close> on Linux.\<close>

definition RTLD_LAZY :: "32 word" where "RTLD_LAZY = 1"
definition RTLD_NOW :: "32 word" where "RTLD_NOW = 2"
definition RTLD_GLOBAL :: "32 word" where "RTLD_GLOBAL = 0x100"

definition real_flag :: "32 word \<Rightarrow> 32 word" where
  "real_flag flags = (if flags AND SHLIB_LOCAL \<noteq> 0 then RTLD_LAZY OR SHLIB_LOCAL else RTLD_LAZY OR SHLIB_GLOBAL)"

text \<open>The operations on a wrapper and the linker. The message of \<open>dlerror\<close>, which may be null, is \<open>err\<close>.\<close>

definition sl_load :: "string option \<Rightarrow> string \<Rightarrow> shared_library \<Rightarrow> linker \<Rightarrow> (library_error + unit) \<times> shared_library \<times> linker" where
  "sl_load err path l d = (if sl_handle l \<noteq> None then (Inl (LibraryAlreadyLoaded path), l, d)
     else case dl_resolve d path of
       None \<Rightarrow> (Inl (LibraryAlreadyLoaded (case err of Some e \<Rightarrow> e | None \<Rightarrow> path)), l\<lparr>sl_handle := None\<rparr>, d)
     | Some h \<Rightarrow> (Inr (), l\<lparr>sl_handle := Some h, sl_path := path\<rparr>, d\<lparr>dl_count := (dl_count d)(h := dl_count d h + 1)\<rparr>))"

definition sl_unload :: "shared_library \<Rightarrow> linker \<Rightarrow> shared_library \<times> linker" where
  "sl_unload l d = (case sl_handle l of
     Some h \<Rightarrow> (l\<lparr>sl_handle := None\<rparr>, d\<lparr>dl_count := (dl_count d)(h := dl_count d h - 1)\<rparr>)
   | None \<Rightarrow> (l, d))"

definition sl_is_loaded :: "shared_library \<Rightarrow> bool" where
  "sl_is_loaded l = (sl_handle l \<noteq> None)"

definition sl_get_symbol :: "string \<Rightarrow> shared_library \<Rightarrow> linker \<Rightarrow> library_error + nat option" where
  "sl_get_symbol name l d = (case sl_handle l of
     None \<Rightarrow> Inr None
   | Some h \<Rightarrow> (case dl_symbols d h name of None \<Rightarrow> Inl (SymbolNotFound name) | Some a \<Rightarrow> Inr (Some a)))"

definition sl_has_symbol :: "string \<Rightarrow> shared_library \<Rightarrow> linker \<Rightarrow> library_error + bool" where
  "sl_has_symbol name l d = sbind (sl_get_symbol name l d) (\<lambda>a. Inr (a \<noteq> None))"

text \<open>The destructor does nothing: the handle is lost and the object stays open.\<close>

definition sl_destroy :: "shared_library \<Rightarrow> linker \<Rightarrow> linker" where
  "sl_destroy l d = d"

text \<open>The constructor with a path; where it throws there is no wrapper.\<close>

definition sl_new :: "string option \<Rightarrow> string \<Rightarrow> linker \<Rightarrow> (library_error + shared_library) \<times> linker" where
  "sl_new err path d = (case sl_load err path shared_library_new d of
     (Inl e, _, d1) \<Rightarrow> (Inl e, d1) | (Inr _, l, d1) \<Rightarrow> (Inr l, d1))"

section \<open>Wrappers of a process\<close>

text \<open>The wrappers alive, with the handles that destructors lost, under any sequence of operations.\<close>

record library_world =
  lw_libs :: "shared_library option list"
  lw_linker :: linker
  lw_lost :: "nat list"

datatype library_op = LibNew | LibOpen string | LibLoad nat string | LibUnload nat | LibDestroy nat

definition put_lib :: "nat \<Rightarrow> shared_library option \<Rightarrow> library_world \<Rightarrow> library_world" where
  "put_lib i l w = w\<lparr>lw_libs := (lw_libs w)[i := l]\<rparr>"

definition on_lib :: "nat \<Rightarrow> (shared_library \<Rightarrow> library_world \<Rightarrow> library_world) \<Rightarrow> library_world \<Rightarrow> library_world" where
  "on_lib i f w = (if i < length (lw_libs w) then (case lw_libs w ! i of Some l \<Rightarrow> f l w | None \<Rightarrow> w) else w)"

fun library_step :: "library_op \<Rightarrow> library_world \<Rightarrow> library_world" where
  "library_step LibNew w = w\<lparr>lw_libs := lw_libs w @ [Some shared_library_new]\<rparr>"
| "library_step (LibOpen path) w = (case sl_new None path (lw_linker w) of
     (Inl _, d) \<Rightarrow> w\<lparr>lw_linker := d\<rparr> | (Inr l, d) \<Rightarrow> w\<lparr>lw_libs := lw_libs w @ [Some l], lw_linker := d\<rparr>)"
| "library_step (LibLoad i path) w = on_lib i (\<lambda>l w. case sl_load None path l (lw_linker w) of
     (_, l1, d) \<Rightarrow> put_lib i (Some l1) (w\<lparr>lw_linker := d\<rparr>)) w"
| "library_step (LibUnload i) w = on_lib i (\<lambda>l w. case sl_unload l (lw_linker w) of
     (l1, d) \<Rightarrow> put_lib i (Some l1) (w\<lparr>lw_linker := d\<rparr>)) w"
| "library_step (LibDestroy i) w = on_lib i (\<lambda>l w. put_lib i None (w\<lparr>lw_linker := sl_destroy l (lw_linker w),
     lw_lost := (case sl_handle l of Some h \<Rightarrow> [h] | None \<Rightarrow> []) @ lw_lost w\<rparr>)) w"

definition library_run :: "library_op list \<Rightarrow> library_world \<Rightarrow> library_world" where
  "library_run ops = fold library_step ops"

definition library_start :: "linker \<Rightarrow> library_world" where
  "library_start d = \<lparr>lw_libs = [], lw_linker = d\<lparr>dl_count := (\<lambda>_. 0)\<rparr>, lw_lost = []\<rparr>"

section \<open>Counting\<close>

definition handle_of :: "shared_library option \<Rightarrow> nat option" where
  "handle_of l = Option.bind l sl_handle"

definition holders :: "library_world \<Rightarrow> nat \<Rightarrow> nat" where
  "holders w h = count_list (map handle_of (lw_libs w)) (Some h)"

definition counts_right :: "library_world \<Rightarrow> bool" where
  "counts_right w = (\<forall>h. dl_count (lw_linker w) h = holders w h + count_list (lw_lost w) h)"

lemma count_list_update:
  "i < length xs \<Longrightarrow> count_list (xs[i := y]) x + (if xs ! i = x then 1 else 0) = count_list xs x + (if y = x then 1 else 0)"
proof (induction xs arbitrary: i)
  case (Cons a xs)
  show ?case
  proof (cases i)
    case (Suc j)
    with Cons.IH [of j] Cons.prems show ?thesis by (auto split: if_splits)
  qed simp
qed simp

lemma holders_put:
  assumes "i < length (lw_libs w)"
  shows "holders (put_lib i l w) h + (if handle_of (lw_libs w ! i) = Some h then 1 else 0)
    = holders w h + (if handle_of l = Some h then 1 else 0)"
  using count_list_update [of i "map handle_of (lw_libs w)" "handle_of l" "Some h"] assms
  by (simp add: holders_def put_lib_def map_update)

lemma holders_frame [simp]: "holders (w\<lparr>lw_linker := d\<rparr>) = holders w" "holders (w\<lparr>lw_lost := xs\<rparr>) = holders w"
  by (simp_all add: fun_eq_iff holders_def)

lemma put_lib_frame [simp]: "lw_linker (put_lib i l w) = lw_linker w" "lw_lost (put_lib i l w) = lw_lost w"
  by (simp_all add: put_lib_def)

lemma on_lib_right:
  assumes "counts_right w" and "\<And>l. i < length (lw_libs w) \<Longrightarrow> lw_libs w ! i = Some l \<Longrightarrow> counts_right (f l w)"
  shows "counts_right (on_lib i f w)"
  using assms by (auto simp: on_lib_def split: option.split)

lemma holders_append: "holders (w\<lparr>lw_libs := lw_libs w @ [l]\<rparr>) h = holders w h + (if handle_of l = Some h then 1 else 0)"
  by (simp add: holders_def)

lemma load_right:
  assumes "counts_right w" and "i < length (lw_libs w)" and "lw_libs w ! i = Some l" and "sl_load err path l (lw_linker w) = (r, l1, d)"
  shows "counts_right (put_lib i (Some l1) (w\<lparr>lw_linker := d\<rparr>))"
  unfolding counts_right_def
proof
  fix h
  show "dl_count (lw_linker (put_lib i (Some l1) (w\<lparr>lw_linker := d\<rparr>))) h =
      holders (put_lib i (Some l1) (w\<lparr>lw_linker := d\<rparr>)) h + count_list (lw_lost (put_lib i (Some l1) (w\<lparr>lw_linker := d\<rparr>))) h"
    using assms holders_put [of i "w\<lparr>lw_linker := d\<rparr>" "Some l1" h]
    by (auto simp: counts_right_def sl_load_def handle_of_def split: if_splits option.splits)
qed

lemma unload_right:
  assumes "counts_right w" and "i < length (lw_libs w)" and "lw_libs w ! i = Some l" and "sl_unload l (lw_linker w) = (l1, d)"
  shows "counts_right (put_lib i (Some l1) (w\<lparr>lw_linker := d\<rparr>))"
  unfolding counts_right_def
proof
  fix h
  show "dl_count (lw_linker (put_lib i (Some l1) (w\<lparr>lw_linker := d\<rparr>))) h =
      holders (put_lib i (Some l1) (w\<lparr>lw_linker := d\<rparr>)) h + count_list (lw_lost (put_lib i (Some l1) (w\<lparr>lw_linker := d\<rparr>))) h"
    using assms holders_put [of i "w\<lparr>lw_linker := d\<rparr>" "Some l1" h]
    by (auto simp: counts_right_def sl_unload_def handle_of_def split: if_splits option.splits)
qed

lemma destroy_right:
  assumes "counts_right w" and "i < length (lw_libs w)" and "lw_libs w ! i = Some l"
  shows "counts_right (put_lib i None (w\<lparr>lw_linker := sl_destroy l (lw_linker w),
     lw_lost := (case sl_handle l of Some h \<Rightarrow> [h] | None \<Rightarrow> []) @ lw_lost w\<rparr>))" (is "counts_right (put_lib i None ?v)")
  unfolding counts_right_def
proof
  fix h
  show "dl_count (lw_linker (put_lib i None ?v)) h = holders (put_lib i None ?v) h + count_list (lw_lost (put_lib i None ?v)) h"
    using assms holders_put [of i ?v None h]
    by (auto simp: counts_right_def sl_destroy_def handle_of_def holders_def split: if_splits option.splits)
qed

lemma library_step_right: "counts_right w \<Longrightarrow> counts_right (library_step op w)"
proof (induction op w rule: library_step.induct)
  case (1 w)
  then show ?case by (simp add: counts_right_def holders_def handle_of_def shared_library_new_def)
next
  case (2 path w)
  then show ?case
    by (auto simp: counts_right_def holders_def handle_of_def sl_new_def sl_load_def shared_library_new_def split: option.splits)
next
  case (3 i path w)
  show ?case unfolding library_step.simps
    by (rule on_lib_right [OF 3]) (simp add: load_right [OF 3] split: prod.split)
next
  case (4 i w)
  show ?case unfolding library_step.simps
    by (rule on_lib_right [OF 4]) (simp add: unload_right [OF 4] split: prod.split)
next
  case (5 i w)
  then show ?case by (auto intro: on_lib_right destroy_right)
qed

lemma library_run_right: "counts_right (library_run ops (library_start d))"
proof -
  have "counts_right w \<Longrightarrow> counts_right (library_run ops w)" for w
    by (induction ops arbitrary: w) (simp_all add: library_run_def library_step_right)
  then show ?thesis by (simp add: library_start_def counts_right_def holders_def)
qed

text \<open>However wrappers are made, loaded, unloaded and destroyed, the linker has an object open exactly as often as there
  are wrappers that hold it and wrappers that were destroyed while they held it; in particular an object stays mapped while
  a wrapper reports it as loaded, and is unmapped once every wrapper that loaded it was unloaded.\<close>

lemma library_open_while_held:
  "dl_count (lw_linker (library_run ops (library_start d))) h =
     holders (library_run ops (library_start d)) h + count_list (lw_lost (library_run ops (library_start d))) h \<and>
   (0 < dl_count (lw_linker (library_run ops (library_start d))) h \<longleftrightarrow>
     Some h \<in> handle_of ` set (lw_libs (library_run ops (library_start d))) \<or> h \<in> set (lw_lost (library_run ops (library_start d))))"
  using library_run_right [of ops d] by (auto simp: counts_right_def holders_def count_list_0_iff neq0_conv [symmetric] simp del: neq0_conv)

text \<open>What the code makes of the flags: the constants of the class are not those of \<open>dlfcn.h\<close>, so no library is ever
  opened with \<open>RTLD_GLOBAL\<close>, and \<open>SHLIB_LOCAL\<close> asks for \<open>RTLD_NOW\<close>.\<close>

lemma flags_never_global:
  "real_flag flags AND RTLD_GLOBAL = 0" "flags AND SHLIB_LOCAL \<noteq> 0 \<Longrightarrow> real_flag flags = RTLD_LAZY OR RTLD_NOW"
  by (simp_all add: real_flag_def RTLD_LAZY_def RTLD_NOW_def RTLD_GLOBAL_def SHLIB_GLOBAL_def SHLIB_LOCAL_def)

text \<open>\<open>HasSymbol\<close> answers no for a wrapper without a library alone; for a library without the symbol it throws.\<close>

lemma has_symbol_cases:
  "sl_has_symbol name l d = (case sl_handle l of None \<Rightarrow> Inr False
     | Some h \<Rightarrow> if dl_symbols d h name = None then Inl (SymbolNotFound name) else Inr True)"
  by (auto simp: sl_has_symbol_def sl_get_symbol_def split: option.split)

lemma load_failures:
  "fst (sl_load err path l d) \<noteq> Inl (LibraryLoad e)"
  "sl_handle l = None \<Longrightarrow> dl_resolve d path = None \<Longrightarrow> fst (sl_load (Some e) path l d) = Inl (LibraryAlreadyLoaded e)"
  by (auto simp: sl_load_def split: option.split)

end
