(* ===== verification/Bounded_Waiting.thy ===== *)
theory Bounded_Waiting
  imports Bounded_Queue
begin

text \<open>
  The wait strategies (\<open>base/wait_strategy.h\<close>) and the waiting operations of the bounded queue under each of them
  (\<open>WaitEnqueue\<close>, \<open>WaitDequeue\<close>, \<open>Init\<close> and \<open>SetWaitStrategy\<close> of \<open>base/bounded_queue.h\<close>), in rounds: what other threads
  did to the queue until the round begins, and whether a wait that follows its attempt ran into the timeout. That a wait
  ends at all is in the rounds; \<open>Bounded_Queue\<close> has the steps in which the condition variable is notified.
\<close>

section \<open>Strategies\<close>

datatype wait_strategy =
    BlockWaitStrategy
  | SleepWaitStrategy u64
  | YieldWaitStrategy
  | BusySpinWaitStrategy
  | TimeoutBlockWaitStrategy u64

definition empty_wait :: "wait_strategy \<Rightarrow> bool \<Rightarrow> bool" where
  "empty_wait strategy timed_out = (case strategy of TimeoutBlockWaitStrategy _ \<Rightarrow> \<not> timed_out | _ \<Rightarrow> True)"

fun set_sleep_time :: "u64 \<Rightarrow> wait_strategy \<Rightarrow> wait_strategy" where
  "set_sleep_time us (SleepWaitStrategy _) = SleepWaitStrategy us"
| "set_sleep_time _ strategy = strategy"

fun set_timeout :: "u64 \<Rightarrow> wait_strategy \<Rightarrow> wait_strategy" where
  "set_timeout ms (TimeoutBlockWaitStrategy _) = TimeoutBlockWaitStrategy ms"
| "set_timeout _ strategy = strategy"

definition default_sleep :: wait_strategy where
  "default_sleep = SleepWaitStrategy 10000"

text \<open>\<open>Init\<close> keeps the strategy it is given only where there was memory for the pool; the strategy of a queue that was
  not initialised is null.\<close>

definition bq_init_with :: "bool \<Rightarrow> 'a \<Rightarrow> nat \<Rightarrow> wait_strategy \<Rightarrow> 'a bounded_queue \<times> wait_strategy option \<Rightarrow>
    bool \<times> 'a bounded_queue \<times> wait_strategy option" where
  "bq_init_with alloc d sz strategy q =
     (case bq_init alloc d sz (fst q) of (ok, q1) \<Rightarrow> (ok, q1, if ok then Some strategy else snd q))"

definition bq_init_default :: "bool \<Rightarrow> 'a \<Rightarrow> nat \<Rightarrow> 'a bounded_queue \<times> wait_strategy option \<Rightarrow>
    bool \<times> 'a bounded_queue \<times> wait_strategy option" where
  "bq_init_default alloc d sz = bq_init_with alloc d sz default_sleep"

definition bq_set_wait_strategy :: "wait_strategy \<Rightarrow> 'a bounded_queue \<times> wait_strategy option \<Rightarrow> 'a bounded_queue \<times> wait_strategy option" where
  "bq_set_wait_strategy strategy q = (fst q, Some strategy)"

definition bq_break_all :: "'a bounded_queue \<Rightarrow> 'a bounded_queue" where
  "bq_break_all q = q\<lparr>bq_break_all_wait := True\<rparr>"

section \<open>Waiting\<close>

type_synonym 'a wait_round = "('a bounded_queue \<Rightarrow> 'a bounded_queue) \<times> bool"

text \<open>The loop of both operations around an attempt; \<open>None\<close> while it has not returned after the rounds.\<close>

fun wait_loop :: "('a bounded_queue \<Rightarrow> ('r option \<times> 'a bounded_queue) option) \<Rightarrow> wait_strategy \<Rightarrow> 'a wait_round list \<Rightarrow>
    'a bounded_queue \<Rightarrow> ('r option \<times> 'a bounded_queue) option" where
  "wait_loop attempt strategy [] q = None"
| "wait_loop attempt strategy ((others, timed_out) # rounds) q =
     (let q1 = others q
      in if bq_break_all_wait q1 then Some (None, q1)
         else (case attempt q1 of
             None \<Rightarrow> None
           | Some (Some r, q2) \<Rightarrow> Some (Some r, q2)
           | Some (None, q2) \<Rightarrow> if empty_wait strategy timed_out then wait_loop attempt strategy rounds q2 else Some (None, q2)))"

definition bq_wait_enqueue :: "wait_strategy \<Rightarrow> 'a \<Rightarrow> 'a wait_round list \<Rightarrow> 'a bounded_queue \<Rightarrow> (bool \<times> 'a bounded_queue) option" where
  "bq_wait_enqueue strategy element rounds q = map_option (map_prod (\<lambda>r. r \<noteq> None) id)
     (wait_loop (\<lambda>q. map_option (map_prod (\<lambda>ok. if ok then Some () else None) id) (bq_enqueue element q)) strategy rounds q)"

definition bq_wait_dequeue :: "wait_strategy \<Rightarrow> 'a wait_round list \<Rightarrow> 'a bounded_queue \<Rightarrow> ('a option \<times> 'a bounded_queue) option" where
  "bq_wait_dequeue strategy rounds q = wait_loop bq_dequeue strategy rounds q"

section \<open>What the operations promise\<close>

text \<open>An attempt on a queue in order answers and leaves it in order; one that fails leaves it as it was.\<close>

definition answers :: "(nat \<Rightarrow> bool) \<Rightarrow> ('a bounded_queue \<Rightarrow> ('r option \<times> 'a bounded_queue) option) \<Rightarrow>
    ('a list \<Rightarrow> 'r option \<Rightarrow> 'a list \<Rightarrow> bool) \<Rightarrow> bool" where
  "answers room attempt spec = (\<forall>q. bq_quiet room q \<longrightarrow>
     (\<exists>r q'. attempt q = Some (r, q') \<and> bq_quiet room q' \<and> spec (bq_items q) r (bq_items q') \<and> (r = None \<longrightarrow> q' = q)))"

definition in_order :: "(nat \<Rightarrow> bool) \<Rightarrow> 'a wait_round list \<Rightarrow> bool" where
  "in_order room rounds = (\<forall>(others, _) \<in> set rounds. \<forall>q. bq_quiet room q \<longrightarrow> bq_quiet room (others q))"

text \<open>The queue as an operation finds it in round \<open>k\<close>, when nothing of it came through before.\<close>

definition found_in :: "nat \<Rightarrow> 'a wait_round list \<Rightarrow> 'a bounded_queue \<Rightarrow> 'a bounded_queue" where
  "found_in k rounds q = fold fst (take (Suc k) rounds) q"

definition waits_with_timeout :: "wait_strategy \<Rightarrow> bool" where
  "waits_with_timeout strategy = (\<exists>ms. strategy = TimeoutBlockWaitStrategy ms)"

lemma empty_wait_cases: "empty_wait strategy t \<longleftrightarrow> \<not> (waits_with_timeout strategy \<and> t)"
  by (cases strategy) (simp_all add: empty_wait_def waits_with_timeout_def)

lemma found_in_0 [simp]: "found_in 0 (r # rounds) q = fst r q"
  and found_in_Suc [simp]: "found_in (Suc k) (r # rounds) q = found_in k rounds (fst r q)"
  by (simp_all add: found_in_def)

lemma wait_loop_result:
  assumes "answers room attempt spec" and "in_order room rounds" and "bq_quiet room q" and "wait_loop attempt strategy rounds q = Some (r, q')"
  shows "\<exists>k < length rounds. let q1 = found_in k rounds q in
    if bq_break_all_wait q1 then r = None \<and> q' = q1
    else spec (bq_items q1) r (bq_items q') \<and> (r = None \<longrightarrow> waits_with_timeout strategy \<and> snd (rounds ! k))"
  using assms(2-4)
proof (induction rounds arbitrary: q)
  case (Cons rd rounds)
  obtain others timed_out where rd: "rd = (others, timed_out)" by (cases rd)
  from Cons.prems rd have quiet: "bq_quiet room (others q)" and rest: "in_order room rounds" by (auto simp: in_order_def)
  from assms(1) quiet obtain r1 q2 where att: "attempt (others q) = Some (r1, q2)" "bq_quiet room q2"
    "spec (bq_items (others q)) r1 (bq_items q2)" "r1 = None \<Longrightarrow> q2 = others q" by (auto simp: answers_def)
  show ?case
  proof (cases "\<not> bq_break_all_wait (others q) \<and> r1 = None \<and> empty_wait strategy timed_out")
    case True
    with Cons.prems(3) rd att have "wait_loop attempt strategy rounds (others q) = Some (r, q')" by simp
    from Cons.IH [OF rest quiet this] obtain k where "k < length rounds" "let q1 = found_in k rounds (others q) in
      if bq_break_all_wait q1 then r = None \<and> q' = q1
      else spec (bq_items q1) r (bq_items q') \<and> (r = None \<longrightarrow> waits_with_timeout strategy \<and> snd (rounds ! k))" by blast
    with rd show ?thesis by (intro exI [of _ "Suc k"]) (simp add: Let_def)
  next
    case False
    with Cons.prems(3) rd att show ?thesis
      by (intro exI [of _ 0]) (auto simp: Let_def empty_wait_cases split: if_splits option.splits)
  qed
qed simp

lemma wait_loop_ends:
  assumes "answers room attempt spec" and "in_order room rounds" and "bq_quiet room q"
    and "(others, t) \<in> set rounds" and "\<And>q. bq_break_all_wait (others q)"
  shows "wait_loop attempt strategy rounds q \<noteq> None"
  using assms(2-4)
proof (induction rounds arbitrary: q)
  case (Cons rd rounds)
  obtain oth timed_out where rd: "rd = (oth, timed_out)" by (cases rd)
  from Cons.prems rd have quiet: "bq_quiet room (oth q)" and rest: "in_order room rounds" by (auto simp: in_order_def)
  from assms(1) quiet obtain r1 q2 where att: "attempt (oth q) = Some (r1, q2)" "bq_quiet room q2" by (auto simp: answers_def)
  show ?case
  proof (cases "bq_break_all_wait (oth q)")
    case False
    with assms(5) rd Cons.prems(3) have "(others, t) \<in> set rounds" by auto
    with Cons.IH rest att(2) have "wait_loop attempt strategy rounds q2 \<noteq> None" by blast
    with False att rd show ?thesis by (auto split: option.split)
  qed (simp add: rd)
qed simp

definition put_spec :: "(nat \<Rightarrow> bool) \<Rightarrow> 'a \<Rightarrow> 'a list \<Rightarrow> unit option \<Rightarrow> 'a list \<Rightarrow> bool" where
  "put_spec room x xs r ys = (if room (length xs) then r = Some () \<and> ys = xs @ [x] else r = None \<and> ys = xs)"

definition get_spec :: "'a list \<Rightarrow> 'a option \<Rightarrow> 'a list \<Rightarrow> bool" where
  "get_spec xs r ys = (case xs of [] \<Rightarrow> r = None \<and> ys = [] | x # xs' \<Rightarrow> r = Some x \<and> ys = xs')"

lemma failed_keeps: "bq_enqueue x q = Some (False, q') \<Longrightarrow> q' = q" "bq_dequeue q = Some (None, q') \<Longrightarrow> q' = q"
  by (auto simp: bq_enqueue_def bq_dequeue_def Let_def split: if_splits)

abbreviation put_once :: "'a \<Rightarrow> 'a bounded_queue \<Rightarrow> (unit option \<times> 'a bounded_queue) option" where
  "put_once x q \<equiv> map_option (map_prod (\<lambda>ok. if ok then Some () else None) id) (bq_enqueue x q)"

lemma enqueue_answers: "answers room (put_once x) (put_spec room x)"
  unfolding answers_def
proof (intro allI impI)
  fix q :: "'a bounded_queue" assume "bq_quiet room q"
  from bq_enqueue_law [OF this, of x] obtain q' where "bq_enqueue x q = Some (room (length (bq_items q)), q')" "bq_quiet room q'"
    "bq_items q' = (if room (length (bq_items q)) then bq_items q @ [x] else bq_items q)" by blast
  then show "\<exists>r q'. put_once x q = Some (r, q') \<and> bq_quiet room q' \<and> put_spec room x (bq_items q) r (bq_items q') \<and>
      (r = None \<longrightarrow> q' = q)" using failed_keeps(1) [of x q] by (auto simp: put_spec_def)
qed

lemma dequeue_answers: "answers room bq_dequeue get_spec"
  unfolding answers_def
proof (intro allI impI)
  fix q :: "'a bounded_queue" assume "bq_quiet room q"
  from bq_dequeue_law [OF this] show "\<exists>r q'. bq_dequeue q = Some (r, q') \<and> bq_quiet room q' \<and> get_spec (bq_items q) r (bq_items q') \<and>
      (r = None \<longrightarrow> q' = q)" using failed_keeps(2) [of q] by (cases "bq_items q") (auto simp: get_spec_def)
qed

lemma wait_enqueue_result:
  assumes "in_order room rounds" and "bq_quiet room q" and "bq_wait_enqueue strategy x rounds q = Some (b, q')"
  shows "\<exists>k < length rounds. let q1 = found_in k rounds q in
    if bq_break_all_wait q1 then \<not> b \<and> q' = q1
    else if room (length (bq_items q1)) then b \<and> bq_items q' = bq_items q1 @ [x]
    else \<not> b \<and> bq_items q' = bq_items q1 \<and> waits_with_timeout strategy \<and> snd (rounds ! k)"
proof -
  from assms(3) obtain r where r: "wait_loop (put_once x) strategy rounds q = Some (r, q')" "b \<longleftrightarrow> r \<noteq> None"
    by (auto simp: bq_wait_enqueue_def)
  from wait_loop_result [OF enqueue_answers assms(1,2) r(1)] r(2) show ?thesis
    by (auto simp: Let_def put_spec_def split: if_splits)
qed

lemma wait_dequeue_result:
  assumes "in_order room rounds" and "bq_quiet room q" and "bq_wait_dequeue strategy rounds q = Some (r, q')"
  shows "\<exists>k < length rounds. let q1 = found_in k rounds q in
    if bq_break_all_wait q1 then r = None \<and> q' = q1
    else case bq_items q1 of y # ys \<Rightarrow> r = Some y \<and> bq_items q' = ys
      | [] \<Rightarrow> r = None \<and> bq_items q' = [] \<and> waits_with_timeout strategy \<and> snd (rounds ! k)"
proof -
  from wait_loop_result [OF dequeue_answers assms(1,2) assms(3) [unfolded bq_wait_dequeue_def]]
  obtain k where "k < length rounds" "let q1 = found_in k rounds q in
    if bq_break_all_wait q1 then r = None \<and> q' = q1
    else get_spec (bq_items q1) r (bq_items q') \<and> (r = None \<longrightarrow> waits_with_timeout strategy \<and> snd (rounds ! k))" by blast
  then show ?thesis
    by (intro exI [of _ k]) (cases "bq_items (found_in k rounds q)", simp_all add: Let_def get_spec_def split: if_splits)
qed

text \<open>In any rounds that keep the queue in order, \<open>WaitEnqueue\<close> and \<open>WaitDequeue\<close> return in a round in which they found
  the waits broken off, without an element; or else found room, and appended the element; or an element, and took the first
  one; or, under \<open>TimeoutBlockWaitStrategy\<close> alone, ran into the timeout with the queue full or empty. Once a round begins
  with the flag of \<open>BreakAllWait\<close> set, both have returned.\<close>

lemma bounded_waits_end_right:
  assumes "bq_quiet room q" and "in_order room rounds"
  shows "(\<forall>b q'. bq_wait_enqueue strategy x rounds q = Some (b, q') \<longrightarrow> (\<exists>k < length rounds. let q1 = found_in k rounds q in
      if bq_break_all_wait q1 then \<not> b \<and> q' = q1
      else if room (length (bq_items q1)) then b \<and> bq_items q' = bq_items q1 @ [x]
      else \<not> b \<and> bq_items q' = bq_items q1 \<and> waits_with_timeout strategy \<and> snd (rounds ! k))) \<and>
    (\<forall>r q'. bq_wait_dequeue strategy rounds q = Some (r, q') \<longrightarrow> (\<exists>k < length rounds. let q1 = found_in k rounds q in
      if bq_break_all_wait q1 then r = None \<and> q' = q1
      else case bq_items q1 of y # ys \<Rightarrow> r = Some y \<and> bq_items q' = ys
        | [] \<Rightarrow> r = None \<and> bq_items q' = [] \<and> waits_with_timeout strategy \<and> snd (rounds ! k))) \<and>
    (\<forall>t. (bq_break_all, t) \<in> set rounds \<longrightarrow> bq_wait_enqueue strategy x rounds q \<noteq> None \<and> bq_wait_dequeue strategy rounds q \<noteq> None)"
proof -
  have broken: "bq_break_all_wait (bq_break_all q)" for q :: "'a bounded_queue" by (simp add: bq_break_all_def)
  have "bq_wait_enqueue strategy x rounds q \<noteq> None \<and> bq_wait_dequeue strategy rounds q \<noteq> None" if "(bq_break_all, t) \<in> set rounds" for t
    using wait_loop_ends [OF enqueue_answers assms(2,1) that broken] wait_loop_ends [OF dequeue_answers assms(2,1) that broken]
    by (simp add: bq_wait_enqueue_def bq_wait_dequeue_def)
  then show ?thesis using wait_enqueue_result [OF assms(2,1)] wait_dequeue_result [OF assms(2,1)] by blast
qed

text \<open>Nothing but \<open>Dequeue\<close> makes room, so without it a full queue keeps \<open>WaitEnqueue\<close> waiting under every strategy
  without timeout, whatever the number of rounds.\<close>

lemma full_queue_keeps_waiting:
  assumes "bq_quiet room q" and "\<not> room (length (bq_items q))" and "\<not> bq_break_all_wait q" and "\<forall>ms. strategy \<noteq> TimeoutBlockWaitStrategy ms"
  shows "bq_wait_enqueue strategy x (replicate n (id, t)) q = None"
proof -
  from bq_enqueue_law [OF assms(1), of x] assms(1,2) bq_room have "bq_enqueue x q = Some (False, q)"
    by (fastforce simp: bq_enqueue_def Let_def split: if_splits)
  moreover have "empty_wait strategy t" using assms(4) by (cases strategy) (simp_all add: empty_wait_def)
  ultimately show ?thesis using assms(3) by (induction n) (simp_all add: bq_wait_enqueue_def)
qed

definition sample_queue :: "nat bounded_queue" where
  "sample_queue = snd (bq_init True 0 1 bq_new)"

text \<open>A queue of one place: the first element goes in, a second one waits until a consumer has taken the first.\<close>

definition take_one :: "nat bounded_queue \<Rightarrow> nat bounded_queue" where
  "take_one q = (case bq_dequeue q of Some (_, q') \<Rightarrow> q' | None \<Rightarrow> q)"

definition fill_one :: "nat bounded_queue \<Rightarrow> nat bounded_queue" where
  "fill_one q = (case bq_enqueue 7 q of Some (_, q') \<Rightarrow> q' | None \<Rightarrow> q)"

definition sample_rounds :: "nat wait_round list" where
  "sample_rounds = [(fill_one, False), (take_one, False)]"

lemma sample_in_order: "in_order (\<lambda>n. n < 1) sample_rounds"
proof -
  have "bq_quiet (\<lambda>n. n < 1) (take_one q)" if "bq_quiet (\<lambda>n. n < 1) q" for q
    using dequeue_answers [of "\<lambda>n. n < 1"] that by (fastforce simp: answers_def take_one_def)
  moreover have "bq_quiet (\<lambda>n. n < 1) (fill_one q)" if "bq_quiet (\<lambda>n. n < 1) q" for q
    using bq_enqueue_law [OF that, of 7] by (auto simp: fill_one_def)
  ultimately show ?thesis by (auto simp: in_order_def sample_rounds_def)
qed

lemmas waiting_simps = sample_rounds_def sample_queue_def bq_wait_enqueue_def fill_one_def take_one_def bq_enqueue_def
  bq_dequeue_def bq_init_def bq_new_def bq_index_def empty_wait_def

lemma sample_waits: "\<exists>q'. bq_wait_enqueue YieldWaitStrategy 8 sample_rounds sample_queue = Some (True, q') \<and> bq_items q' = [8]"
  by (simp add: waiting_simps bq_items_def)

lemma bounded_waits_end_right_witness:
  "\<exists>q'. bq_wait_enqueue YieldWaitStrategy 8 sample_rounds sample_queue = Some (True, q') \<and>
     (\<exists>k < 2. bq_items q' = bq_items (found_in k sample_rounds sample_queue) @ [8])"
proof -
  from sample_waits obtain q' where w: "bq_wait_enqueue YieldWaitStrategy 8 sample_rounds sample_queue = Some (True, q')" by blast
  have "bq_quiet (\<lambda>n. n < 1) sample_queue" using bq_init_quiet(1) [of 1 0] by (simp add: sample_queue_def)
  from conjunct1 [OF bounded_waits_end_right [OF this sample_in_order, of YieldWaitStrategy 8]] w
  obtain k where "k < length sample_rounds" "let q1 = found_in k sample_rounds sample_queue in
      if bq_break_all_wait q1 then \<not> True \<and> q' = q1
      else if length (bq_items q1) < 1 then True \<and> bq_items q' = bq_items q1 @ [8]
      else \<not> True \<and> bq_items q' = bq_items q1 \<and> waits_with_timeout YieldWaitStrategy \<and> snd (sample_rounds ! k)" by blast
  then have "k < 2" "bq_items q' = bq_items (found_in k sample_rounds sample_queue) @ [8]"
    by (simp_all add: sample_rounds_def Let_def split: if_splits)
  with w show ?thesis by blast
qed

end
