(* ===== verification/Perf_Events.thy ===== *)
theory Perf_Events
  imports Topology_Manager Bounded_Waiting
begin

text \<open>
  Performance events (\<open>event/perf_event.h\<close>, \<open>event/perf_event_cache.cpp\<close>): the record of an event and its line, the cache
  that queues events and the thread that writes them to a file, one call or one round of the thread after the
  other. The cache is never enabled by the code; the operations are modelled for both values of \<open>enable_\<close>.
\<close>

section \<open>Events\<close>

datatype event_type = SCHED_EVENT | TRANS_EVENT | TRY_FETCH_EVENT

fun event_type_int :: "event_type \<Rightarrow> int" where
  "event_type_int SCHED_EVENT = 0"
| "event_type_int TRANS_EVENT = 1"
| "event_type_int TRY_FETCH_EVENT = 3"

datatype trans_perf = TRANSMIT_BEGIN | SERIALIZE | SEND | MESSAGE_ARRIVE | OBTAIN | DESERIALIZE | DISPATCH | NOTIFY | FETCH
  | CALLBACK | TRANS_END

fun trans_perf_int :: "trans_perf \<Rightarrow> int" where
  "trans_perf_int TRANSMIT_BEGIN = 0"
| "trans_perf_int SERIALIZE = 1"
| "trans_perf_int SEND = 2"
| "trans_perf_int MESSAGE_ARRIVE = 3"
| "trans_perf_int OBTAIN = 4"
| "trans_perf_int DESERIALIZE = 5"
| "trans_perf_int DISPATCH = 6"
| "trans_perf_int NOTIFY = 7"
| "trans_perf_int FETCH = 8"
| "trans_perf_int CALLBACK = 9"
| "trans_perf_int TRANS_END = 10"

fun show_trans_perf :: "trans_perf \<Rightarrow> string" where
  "show_trans_perf TRANSMIT_BEGIN = ''TRANSMIT_BEGIN''"
| "show_trans_perf SERIALIZE = ''SERIALIZE''"
| "show_trans_perf SEND = ''SEND''"
| "show_trans_perf MESSAGE_ARRIVE = ''MESSAGE_ARRIVE''"
| "show_trans_perf OBTAIN = ''OBTAIN''"
| "show_trans_perf DESERIALIZE = ''DESERIALIZE''"
| "show_trans_perf DISPATCH = ''DISPATCH''"
| "show_trans_perf NOTIFY = ''NOTIFY''"
| "show_trans_perf FETCH = ''FETCH''"
| "show_trans_perf CALLBACK = ''CALLBACK''"
| "show_trans_perf TRANS_END = ''''"

record transport_event =
  te_etype :: int
  te_eid :: int
  te_stamp :: u64
  te_adder :: string
  te_msg_seq :: u64
  te_channel_id :: u64

definition event_new :: "int \<Rightarrow> u64 \<Rightarrow> transport_event" where
  "event_new eid stamp = \<lparr>te_etype = event_type_int TRANS_EVENT, te_eid = eid, te_stamp = stamp, te_adder = '''', te_msg_seq = 0,
     te_channel_id = - 1\<rparr>"

definition tab :: string where "tab = [CHR 0x09]"

text \<open>\<open>channel_of\<close> is \<open>GlobalData::GetChannelById\<close> at the time the line is written.\<close>

definition serialize_event :: "(u64 \<Rightarrow> string) \<Rightarrow> transport_event \<Rightarrow> string" where
  "serialize_event channel_of e = to_string (te_etype e) @ tab @ to_string (te_eid e) @ tab @ channel_of (te_channel_id e) @ tab
     @ dec (unat (te_msg_seq e)) @ tab @ dec (unat (te_stamp e)) @ tab @ te_adder e @ tab"

section \<open>The cache\<close>

record perf_cache =
  pe_enable :: bool
  pe_shutdown :: bool
  pe_started :: bool
  pe_queue :: "transport_event bounded_queue"
  pe_file :: "string list"
  pe_flushed :: nat
  pe_buf :: nat

definition kFlushSize :: nat where "kFlushSize = 512"
definition kEventQueueSize :: nat where "kEventQueueSize = 8192"

definition perf_start :: "perf_cache \<Rightarrow> perf_cache" where
  "perf_start s = s\<lparr>pe_started := True, pe_file := [], pe_flushed := 0, pe_buf := 0\<rparr>"

text \<open>The constructor; \<open>None\<close> is the exception of a queue that got no memory.\<close>

definition perf_new :: "bool \<Rightarrow> bool \<Rightarrow> perf_cache option" where
  "perf_new enable alloc =
     (let s = \<lparr>pe_enable = enable, pe_shutdown = False, pe_started = False, pe_queue = bq_new, pe_file = [], pe_flushed = 0, pe_buf = 0\<rparr>
      in if \<not> enable then Some s
         else (case bq_init alloc (event_new 0 0) kEventQueueSize (pe_queue s) of
             (False, _) \<Rightarrow> None | (True, q) \<Rightarrow> Some (perf_start (s\<lparr>pe_queue := q\<rparr>))))"

text \<open>The result of \<open>Enqueue\<close> is not looked at, so an event that finds the queue full is dropped.\<close>

definition add_transport_event :: "trans_perf \<Rightarrow> u64 \<Rightarrow> u64 \<Rightarrow> u64 \<Rightarrow> string \<Rightarrow> perf_cache \<Rightarrow> perf_cache option" where
  "add_transport_event event_id channel_id msg_seq stamp adder s =
     (if \<not> pe_enable s then Some s
      else map_option (\<lambda>(_, q). s\<lparr>pe_queue := q\<rparr>) (bq_enqueue ((event_new (trans_perf_int event_id) stamp)
        \<lparr>te_channel_id := channel_id, te_msg_seq := msg_seq, te_adder := adder\<rparr>) (pe_queue s)))"

definition write_event :: "(u64 \<Rightarrow> string) \<Rightarrow> transport_event \<Rightarrow> perf_cache \<Rightarrow> perf_cache" where
  "write_event channel_of e s =
     (let s1 = s\<lparr>pe_file := pe_file s @ [serialize_event channel_of e], pe_flushed := length (pe_file s) + 1, pe_buf := pe_buf s + 1\<rparr>
      in if kFlushSize \<le> pe_buf s1 then s1\<lparr>pe_buf := 0\<rparr> else s1)"

text \<open>A round of \<open>Run\<close> in which \<open>WaitDequeue\<close> tries once; \<open>std::endl\<close> flushes with every line.\<close>

definition perf_round :: "(u64 \<Rightarrow> string) \<Rightarrow> perf_cache \<Rightarrow> perf_cache option" where
  "perf_round channel_of s =
     (if pe_shutdown s \<or> \<not> pe_started s \<or> bq_break_all_wait (pe_queue s) then Some s
      else map_option (\<lambda>(r, q). case r of Some e \<Rightarrow> write_event channel_of e (s\<lparr>pe_queue := q\<rparr>) | None \<Rightarrow> s\<lparr>pe_queue := q\<rparr>)
        (bq_dequeue (pe_queue s)))"

definition perf_shutdown :: "perf_cache \<Rightarrow> perf_cache" where
  "perf_shutdown s = (if \<not> pe_enable s then s
     else s\<lparr>pe_shutdown := True, pe_queue := bq_break_all (pe_queue s), pe_flushed := length (pe_file s)\<rparr>)"

datatype perf_op = Add trans_perf u64 u64 u64 string | Round | Stop

fun perf_step :: "(u64 \<Rightarrow> string) \<Rightarrow> perf_op \<Rightarrow> perf_cache \<Rightarrow> perf_cache option" where
  "perf_step channel_of (Add p c m t a) s = add_transport_event p c m t a s"
| "perf_step channel_of Round s = perf_round channel_of s"
| "perf_step channel_of Stop s = Some (perf_shutdown s)"

fun perf_run :: "(u64 \<Rightarrow> string) \<Rightarrow> perf_op list \<Rightarrow> perf_cache \<Rightarrow> perf_cache option" where
  "perf_run channel_of [] s = Some s"
| "perf_run channel_of (op # ops) s = Option.bind (perf_step channel_of op s) (perf_run channel_of ops)"

section \<open>What is written\<close>

text \<open>The events the queue takes, which depends only on how many of them wait.\<close>

fun event_of :: "perf_op \<Rightarrow> transport_event option" where
  "event_of (Add p c m t a) = Some ((event_new (trans_perf_int p) t)\<lparr>te_channel_id := c, te_msg_seq := m, te_adder := a\<rparr>)"
| "event_of _ = None"

fun accepted_events :: "nat \<Rightarrow> bool \<Rightarrow> perf_op list \<Rightarrow> transport_event list" where
  "accepted_events waiting stopped [] = []"
| "accepted_events waiting stopped (Add p c m t a # ops) =
     (if waiting < kEventQueueSize then the (event_of (Add p c m t a)) # accepted_events (waiting + 1) stopped ops
      else accepted_events waiting stopped ops)"
| "accepted_events waiting stopped (Round # ops) = accepted_events (if stopped then waiting else waiting - 1) stopped ops"
| "accepted_events waiting stopped (Stop # ops) = accepted_events waiting True ops"

definition perf_ok :: "perf_cache \<Rightarrow> bool" where
  "perf_ok s \<longleftrightarrow> pe_enable s \<and> pe_started s \<and> bq_quiet (\<lambda>n. n < kEventQueueSize) (pe_queue s) \<and>
     bq_break_all_wait (pe_queue s) = pe_shutdown s \<and> pe_buf s < kFlushSize \<and> pe_flushed s = length (pe_file s)"

definition recorded :: "(u64 \<Rightarrow> string) \<Rightarrow> perf_cache \<Rightarrow> string list" where
  "recorded channel_of s = pe_file s @ map (serialize_event channel_of) (bq_items (pe_queue s))"

lemma flag_kept: "bq_enqueue x q = Some (b, q') \<Longrightarrow> bq_break_all_wait q' = bq_break_all_wait q"
  "bq_dequeue q = Some (r, q') \<Longrightarrow> bq_break_all_wait q' = bq_break_all_wait q"
  by (auto simp: bq_enqueue_def bq_dequeue_def Let_def split: if_splits)

lemma quiet_break: "bq_quiet room (bq_break_all q) = bq_quiet room q" "bq_items (bq_break_all q) = bq_items q"
  by (simp_all add: bq_break_all_def bq_quiet_def bq_ok_def bq_items_def bq_index_def)

lemma add_records:
  assumes "perf_ok s"
  shows "\<exists>t. add_transport_event p c m stamp a s = Some t \<and> perf_ok t \<and> pe_shutdown t = pe_shutdown s \<and> pe_file t = pe_file s \<and>
     bq_items (pe_queue t) = bq_items (pe_queue s) @
       (if length (bq_items (pe_queue s)) < kEventQueueSize then [the (event_of (Add p c m stamp a))] else [])"
proof -
  let ?e = "(event_new (trans_perf_int p) stamp)\<lparr>te_channel_id := c, te_msg_seq := m, te_adder := a\<rparr>"
  have "bq_quiet (\<lambda>n. n < kEventQueueSize) (pe_queue s)" using assms by (simp add: perf_ok_def)
  from bq_enqueue_law [OF this, of ?e] obtain b q where q: "bq_enqueue ?e (pe_queue s) = Some (b, q)"
    "bq_quiet (\<lambda>n. n < kEventQueueSize) q" "bq_items q = (if length (bq_items (pe_queue s)) < kEventQueueSize
      then bq_items (pe_queue s) @ [?e] else bq_items (pe_queue s))" by blast
  from q(1) assms have "add_transport_event p c m stamp a s = Some (s\<lparr>pe_queue := q\<rparr>)"
    by (simp add: add_transport_event_def perf_ok_def)
  moreover have "perf_ok (s\<lparr>pe_queue := q\<rparr>)" using assms q(2) flag_kept(1) [OF q(1)] by (simp add: perf_ok_def)
  ultimately show ?thesis using q(3) by simp
qed

lemma write_event_ok: "perf_ok s \<Longrightarrow> perf_ok (write_event f e s)"
  "pe_file (write_event f e s) = pe_file s @ [serialize_event f e]" "pe_queue (write_event f e s) = pe_queue s"
  "pe_shutdown (write_event f e s) = pe_shutdown s"
  by (auto simp: write_event_def perf_ok_def Let_def kFlushSize_def)

lemma round_records:
  assumes "perf_ok s"
  shows "\<exists>t. perf_round f s = Some t \<and> perf_ok t \<and> pe_shutdown t = pe_shutdown s \<and> recorded f t = recorded f s \<and>
     length (bq_items (pe_queue t)) = (if pe_shutdown s then length (bq_items (pe_queue s)) else length (bq_items (pe_queue s)) - 1)"
proof (cases "pe_shutdown s")
  case True
  with assms show ?thesis by (simp add: perf_round_def)
next
  case False
  from assms dequeue_answers [of "\<lambda>n. n < kEventQueueSize"] obtain r q where q: "bq_dequeue (pe_queue s) = Some (r, q)"
    "bq_quiet (\<lambda>n. n < kEventQueueSize) q" "get_spec (bq_items (pe_queue s)) r (bq_items q)" by (auto simp: answers_def perf_ok_def)
  with flag_kept(2) [OF q(1)] assms have ok: "perf_ok (s\<lparr>pe_queue := q\<rparr>)" by (simp add: perf_ok_def)
  from False assms q(1) have "perf_round f s = Some (case r of Some e \<Rightarrow> write_event f e (s\<lparr>pe_queue := q\<rparr>) | None \<Rightarrow> s\<lparr>pe_queue := q\<rparr>)"
    by (simp add: perf_round_def perf_ok_def split: option.split)
  with False ok q(3) write_event_ok(1) [OF ok] show ?thesis
    by (auto simp: recorded_def get_spec_def write_event_ok(2-) split: option.splits list.splits)
qed

lemma stop_records:
  "perf_ok s \<Longrightarrow> perf_ok (perf_shutdown s) \<and> recorded f (perf_shutdown s) = recorded f s \<and> pe_shutdown (perf_shutdown s) \<and>
     pe_queue (perf_shutdown s) = bq_break_all (pe_queue s)"
  by (auto simp: perf_shutdown_def perf_ok_def recorded_def quiet_break) (simp_all add: bq_break_all_def)

text \<open>An enabled cache never stops on an event, and the lines of its file followed by the events that still wait are the
  lines of the events that found room in the queue, in the order they were added: none is written twice or out of order,
  and only events added while the queue is full are missing.\<close>

lemma events_recorded:
  assumes "perf_ok s"
  shows "\<exists>t. perf_run f ops s = Some t \<and> perf_ok t \<and>
    recorded f t = recorded f s @ map (serialize_event f) (accepted_events (length (bq_items (pe_queue s))) (pe_shutdown s) ops)"
  using assms
proof (induction ops arbitrary: s)
  case (Cons op ops)
  show ?case
  proof (cases op)
    case (Add p c m stamp a)
    from add_records [OF Cons.prems, of p c m stamp a] obtain t where t: "add_transport_event p c m stamp a s = Some t" "perf_ok t"
      "pe_shutdown t = pe_shutdown s" "pe_file t = pe_file s" "bq_items (pe_queue t) = bq_items (pe_queue s) @
       (if length (bq_items (pe_queue s)) < kEventQueueSize then [the (event_of (Add p c m stamp a))] else [])" by blast
    from Cons.IH [OF t(2)] t Add show ?thesis by (auto simp: recorded_def split: if_splits)
  next
    case Round
    from round_records [OF Cons.prems, of f] obtain t where t: "perf_round f s = Some t" "perf_ok t" "pe_shutdown t = pe_shutdown s"
      "recorded f t = recorded f s" "length (bq_items (pe_queue t)) =
        (if pe_shutdown s then length (bq_items (pe_queue s)) else length (bq_items (pe_queue s)) - 1)" by blast
    from Cons.IH [OF t(2)] t Round show ?thesis by simp
  next
    case Stop
    from stop_records [OF Cons.prems, of f] Cons.IH [of "perf_shutdown s"] Stop show ?thesis by (simp add: quiet_break)
  qed
qed simp

lemma perf_new_ok: "\<exists>s. perf_new True True = Some s \<and> perf_ok s \<and> recorded f s = [] \<and> \<not> pe_shutdown s"
  using bq_init_quiet(1) [of kEventQueueSize "event_new 0 0"] bq_init_quiet(2) [of "event_new 0 0" kEventQueueSize]
  by (auto simp: perf_new_def perf_start_def perf_ok_def recorded_def kFlushSize_def bq_init_def bq_new_def Let_def)

text \<open>As the code has it, with \<open>enable_\<close> false, every call does nothing.\<close>

lemma disabled_cache_idle: "perf_new False alloc = Some s \<Longrightarrow> perf_run f ops s = Some s"
proof (induction ops)
  case (Cons op ops)
  then have "\<not> pe_enable s" "\<not> pe_started s" by (auto simp: perf_new_def Let_def)
  then have "perf_step f op s = Some s"
    by (cases op) (simp_all add: add_transport_event_def perf_round_def perf_shutdown_def)
  with Cons show ?case by simp
qed simp

text \<open>Events that wait when \<open>Shutdown\<close> is called are never written.\<close>

lemma shutdown_loses_events:
  "perf_ok s \<Longrightarrow> pe_shutdown s \<Longrightarrow> perf_round f s = Some s"
  by (simp add: perf_round_def)

lemma events_recorded_witness:
  "\<exists>s t. perf_new True True = Some s \<and> perf_run (\<lambda>_. ''ch'') [Add SEND 1 2 3 ''-'', Round, Stop] s = Some t \<and>
     recorded (\<lambda>_. ''ch'') t = [serialize_event (\<lambda>_. ''ch'') (the (event_of (Add SEND 1 2 3 ''-'')))]"
proof -
  from perf_new_ok [of "\<lambda>_. ''ch''"] obtain s where s: "perf_new True True = Some s" "perf_ok s" "recorded (\<lambda>_. ''ch'') s = []" "\<not> pe_shutdown s"
    by blast
  then have "bq_items (pe_queue s) = []" by (simp add: recorded_def)
  with events_recorded [OF s(2), of "\<lambda>_. ''ch''" "[Add SEND 1 2 3 ''-'', Round, Stop]"] s show ?thesis
    by (auto simp: kEventQueueSize_def)
qed

end
