(* ===== verification/Spec2Isabelle.thy ===== *)
theory Spec2Isabelle
  imports Hash_Map_Concurrent Channel_Data Discovery_Claims Topology_Manager Unbounded_Queue Rw_Locks
    Object_Pools Condition_Notifier Shm_Dispatch Routine_Steps Node_Messages
    Class_Loading Time_Rate Task_Pool Cpu_Sets Notifiers Logging
    Configuration Shared_Libraries Bounded_Waiting Perf_Events
begin

text \<open>
  A verification library for the communication middleware cmw, which moves messages between the nodes of one
  or several processes and runs the callbacks of their subscribers on coroutines. All paths are below src/.

  \<^bold>\<open>The program.\<close> A process makes nodes (node/), and with them publishers and subscribers of named channels.
  Each joins the topology (discovery/), whose managers tell the other processes over Fast DDS and keep the graph of
  nodes and the tables of readers and writers; a change of the topology enables or disables transmitters and
  receivers (transport/). A published message is a byte stream (serialize/) that travels over Fast DDS
  (transport/rtps) or through a segment of shared memory (transport/shm), whose reader is told by a notifier. The
  dispatcher of the receiving process runs the listeners of the channel, which put the message into the
  rings of the data layer (data/) and the blockers (blocker/) and notify the coroutine of the
  subscriber (croutine/). The scheduler (scheduler/) keeps the coroutines in queues by group and priority, from
  which its processors take them. base/ has the containers and locks all this uses; class_loader/, task/,
  time/ and log/ stand beside it.

  \<^bold>\<open>Conventions.\<close> A struct or class is a record with the members' names, an enumeration a datatype, an integer of the
  code a word of its width unless a theory says that a counter is a natural number. Undefined behaviour and
  exceptions are values: \<open>ub\<close> and \<open>sbind\<close> of \<open>Cmw_Prelude\<close>, an option, or a datatype of errors. Shared pointers are
  addresses into a store. A sequential operation is a function on the state; what threads do at the same time is an
  inductive relation with one step for each access to shared state and \<open>reachable\<close> of \<open>Interleaving\<close>. A hash
  table is an association list or a map where its order of enumeration does not matter to any theorem. Code from outside
  the repository is a parameter: Fast DDS (whether it registers an endpoint or accepts a change, how much room a
  payload has), the operating system (answers of calls, files, names of shared memory, sockets), clocks, hash
  functions (arbitrary functions, so collisions are included), random ids.

  \<^bold>\<open>Theories.\<close>

  \<^item> Foundations: \<open>Cmw_Prelude\<close> (bytes of integers on hosts of both byte orders, undefined behaviour); \<open>Interleaving\<close>
    (reachable states and their induction rule, the contract \<open>fifo_queue\<close> of a queue).
  \<^item> base/: \<open>Atomic_Hash_Map\<close> (atmoic_hash_map.h as sequential operations; the locale \<open>lookup_table\<close> is what its clients
    rely on), \<open>Hash_Map_Concurrent\<close> (one bucket under any number of threads), \<open>Bounded_Queue\<close> and
    \<open>Unbounded_Queue\<close> (sequential, where both interpret \<open>fifo_queue\<close>, and concurrent), \<open>Rw_Locks\<close> (atomic_rw_lock.h and the
    lock of transport/shm/block.cpp, both instances of \<open>rw_lock\<close>), \<open>Object_Pools\<close> (both pools, instances of \<open>object_pool\<close>),
    \<open>Signals\<close> (signal.h), \<open>Bounded_Waiting\<close> (wait_strategy.h with the waiting operations of the bounded queue). \<open>Task_Pool\<close> has thread_pool.h with task/task_manager.cpp.
  \<^item> serialize/: \<open>Data_Stream\<close> (the stream and its overloads), \<open>Stream_Codec\<close> (what each write appends and each read takes
    back, in the locales \<open>codec\<close>, \<open>ordered_codec\<close> and \<open>map_codec\<close>).
  \<^item> data/ and blocker/: \<open>Cache_Buffer\<close> (the ring and its readers), \<open>Channel_Data\<close> (dispatcher, notifier, fusion,
    visitors), \<open>Blockers\<close>.
  \<^item> discovery/, config/ and common/: \<open>Global_Data\<close> (registered names), \<open>Role_Warehouse\<close> (attributes, roles and their
    warehouses, instances of \<open>warehouse\<close>), \<open>Topology_Wire\<close> (the change message and its bytes), \<open>Discovery_Graph\<close> (container/graph.cpp),
    \<open>Discovery_Managers\<close> (specific_manager/) with \<open>Discovery_Claims\<close>, \<open>Topology_Manager\<close> (topology_manager.cpp).
  \<^item> transport/: \<open>Shm_Format\<close> (sizes, announcements, identities), \<open>Shm_Segment\<close> (both kinds of segment, one process
    after the other), \<open>Shm_Transport\<close> (processes that share segments, at any interleaving of their block operations),
    \<open>Condition_Notifier\<close> (the ring of announcements), \<open>Notifiers\<close> (the life of its segment, the multicast notifier),
    \<open>Listener_Handler\<close> (with the contract \<open>signal_contract\<close> that \<open>Signals\<close> meets), \<open>Dispatcher\<close>, \<open>Shm_Dispatch\<close> (the receiving
    end over shared memory), \<open>Rtps_Transport\<close> (the transport over Fast DDS).
  \<^item> croutine/ and scheduler/: \<open>Croutine\<close>, \<open>Scheduler_Classic\<close> (configuration, queues, tasks, the round of a processor),
    \<open>Task_Life\<close> (what creation and removal promise), \<open>Routine_Steps\<close> (processors, notifying, creating and removing
    threads at any interleaving), \<open>Cpu_Sets\<close> (scheduler/common/pin_thread.cpp), \<open>Configuration\<close> (config/conf_parse.cpp,
    common/file.cpp and scheduler_factory.cpp: the files, what is read from them, the instance of the scheduler).
  \<^item> node/: \<open>Node_Channel\<close> (publishers and subscribers over all of the above), \<open>Node_Api\<close> (nodes), \<open>Node_Claims\<close>,
    \<open>Node_Safety\<close>, \<open>Node_Delivery\<close> and \<open>Node_Messages\<close> (what the composition promises).
  \<^item> Beside: \<open>Class_Loading\<close> (class_loader/), \<open>Shared_Libraries\<close> (its wrapper of dlopen), \<open>Time_Rate\<close> (time/), \<open>Logging\<close> (log/),
    \<open>Perf_Events\<close> (event/).

  \<^bold>\<open>What is shown.\<close> End to end: the messages of a publisher reach the callback of a subscriber, each once and in order
  (\<open>Node_Messages\<close>), a process follows no null or dangling pointer whatever it does with nodes
  and whatever arrives (\<open>Node_Safety\<close>), a message over shared memory reaches exactly the listeners connected, with
  its bytes (\<open>Shm_Transport\<close>, \<open>Shm_Dispatch\<close>). Concurrency: the queues are linearizable, locks exclude, pools lend a node
  once, a bucket stays a sorted map, a coroutine is run by one processor and none of its wake-ups is lost,
  announcements arrive in order. Refinement: hash map, warehouses, rings, blockers, listener handlers, the
  queues of the scheduler and the mapped libraries do what a map, a list or a set would. Codecs are inverted by their
  decoders on hosts of either byte order; loops are proved to end where they do. Lemmas that show where
  the code fails its purpose (a lost wake-up, an overrun, a name that collides) are stated as reachable states or computed
  values; each is listed as a finding in the manifest.

  \<^bold>\<open>Bounds and fuel.\<close> Loops that search are functions whose termination is proved, or return an option that is
  \<open>None\<close> exactly when the code does not return (\<open>show\<close> of a stream, the search for a free block, the probing of names);
  the theorem about it says when it returns. \<open>OpenOrCreate\<close> tries twice, as the code does. Sequence
  numbers of rings and announcements, and the counters of the concurrent queues, are natural numbers: the claims hold for
  fewer than 2^64 operations. Rates are exact for times below 2^62 nanoseconds and periods below 2^61.

  \<^bold>\<open>Not modelled.\<close> Fast DDS and the participant object around it
  (transport/rtps/participant.cpp), the exchange of stacks and the memory of contexts
  (croutine/croutine_context.cpp), the dynamic linker and the macros that register classes, the vendored parser
  (thirdparty/nlohmann, but for the conversions the configuration uses), printing of times and arithmetic on
  floating point numbers, futures. The component base class has no logic of its own and sysmo prints the status of
  the scheduler; init.cpp and state.cpp set one variable each; the choreography policy is commented out. example/ and thirdparty/test.cpp are not part of the library.
\<close>

end
